(* ===== verification/Prelude.thy ===== *)
theory Prelude
  imports Main "HOL-Library.Product_Lexorder" "HOL-Library.List_Lexorder" "HOL-Library.Char_ord"
begin

section \<open>Shared vocabulary of the development\<close>

text \<open>
  The server keeps its state in SQLite tables and reads and writes them with
  small SQL statements. This theory holds the list operations those statements
  become (a table is the list of its rows in rowid order), the lemmas about
  them, the collections of rewrite rules the component theories add to, and two
  interfaces that several components share: a key that survives an update, and
  an invariant that survives every step of a step relation.
\<close>

text \<open>Seconds since the epoch, and identifiers. JavaScript numbers that count
  seconds stay far below \<open>2 ^ 53\<close>, so they are exact integers.\<close>

type_synonym seconds = int
type_synonym ident = string

named_theorems table_simps \<open>what a table operation does to sets, keys and lookups\<close>
named_theorems frame_simps \<open>which tables an operation leaves alone\<close>

subsection \<open>SQL statements on a table\<close>

text \<open>\<open>UPDATE t SET .. WHERE P\<close>, \<open>DELETE FROM t WHERE P\<close>,
  \<open>SELECT COUNT(*) .. WHERE P\<close> and \<open>INSERT .. ON CONFLICT DO UPDATE\<close>. A
  \<open>SELECT .. WHERE P\<close> read with \<open>get\<close> is \<^term>\<open>List.find\<close>, read with \<open>all\<close> it is
  \<^term>\<open>filter\<close>, and \<open>ORDER BY\<close> is the stable \<^term>\<open>sort_key\<close>.\<close>

definition upd_where :: "('r \<Rightarrow> bool) \<Rightarrow> ('r \<Rightarrow> 'r) \<Rightarrow> 'r list \<Rightarrow> 'r list" where
  "upd_where P f rows = map (\<lambda>r. if P r then f r else r) rows"

definition del_where :: "('r \<Rightarrow> bool) \<Rightarrow> 'r list \<Rightarrow> 'r list" where
  "del_where P rows = filter (\<lambda>r. \<not> P r) rows"

definition count_where :: "('r \<Rightarrow> bool) \<Rightarrow> 'r list \<Rightarrow> nat" where
  "count_where P rows = length (filter P rows)"

definition upsert :: "('r \<Rightarrow> bool) \<Rightarrow> ('r \<Rightarrow> 'r) \<Rightarrow> 'r \<Rightarrow> 'r list \<Rightarrow> 'r list" where
  "upsert P f new rows = (if list_ex P rows then upd_where P f rows else rows @ [new])"

definition insert_or_ignore :: "('r \<Rightarrow> bool) \<Rightarrow> 'r \<Rightarrow> 'r list \<Rightarrow> 'r list" where
  "insert_or_ignore P new rows = (if list_ex P rows then rows else rows @ [new])"

lemma upd_where_Nil [simp]: "upd_where P f [] = []"
  by (simp add: upd_where_def)

lemma upd_where_Cons [simp]:
  "upd_where P f (r # rows) = (if P r then f r else r) # upd_where P f rows"
  by (simp add: upd_where_def)

lemma length_upd_where [simp]: "length (upd_where P f rows) = length rows"
  by (simp add: upd_where_def)

lemma set_upd_where [table_simps]:
  "set (upd_where P f rows) = (\<lambda>r. if P r then f r else r) ` set rows"
  by (simp add: upd_where_def)

lemma upd_where_append [simp]:
  "upd_where P f (xs @ ys) = upd_where P f xs @ upd_where P f ys"
  by (simp add: upd_where_def)

lemma upd_where_none: "(\<And>r. r \<in> set rows \<Longrightarrow> \<not> P r) \<Longrightarrow> upd_where P f rows = rows"
  by (simp add: upd_where_def map_idI)

lemma map_upd_where:
  "(\<And>r. r \<in> set rows \<Longrightarrow> P r \<Longrightarrow> g (f r) = g r) \<Longrightarrow> map g (upd_where P f rows) = map g rows"
  by (induction rows) auto

lemma del_where_Nil [simp]: "del_where P [] = []"
  by (simp add: del_where_def)

lemma set_del_where [table_simps]: "set (del_where P rows) = {r \<in> set rows. \<not> P r}"
  by (auto simp: del_where_def)

lemma del_where_append [simp]: "del_where P (xs @ ys) = del_where P xs @ del_where P ys"
  by (simp add: del_where_def)

lemma del_where_none: "(\<And>r. r \<in> set rows \<Longrightarrow> \<not> P r) \<Longrightarrow> del_where P rows = rows"
  by (simp add: del_where_def filter_id_conv)

lemma del_where_idem [simp]: "del_where P (del_where P rows) = del_where P rows"
  by (simp add: del_where_def)

lemma distinct_map_del_where: "distinct (map g rows) \<Longrightarrow> distinct (map g (del_where P rows))"
  by (simp add: del_where_def distinct_map_filter)

lemma length_del_where: "length (del_where P rows) + count_where P rows = length rows"
  by (simp add: del_where_def count_where_def) (metis add.commute sum_length_filter_compl)

lemma count_where_upd_where:
  "(\<And>r. r \<in> set rows \<Longrightarrow> P r \<Longrightarrow> Q (f r) = Q r) \<Longrightarrow> count_where Q (upd_where P f rows) = count_where Q rows"
  by (induction rows) (auto simp: count_where_def)

lemma count_where_Nil [simp]: "count_where P [] = 0"
  by (simp add: count_where_def)

lemma count_where_append [simp]: "count_where P (xs @ ys) = count_where P xs + count_where P ys"
  by (simp add: count_where_def)

lemma count_where_Cons [simp]: "count_where P (x # xs) = (if P x then 1 else 0) + count_where P xs"
  by (simp add: count_where_def)

lemma set_insert_or_ignore [table_simps]:
  "set (insert_or_ignore P new rows) = (if list_ex P rows then set rows else insert new (set rows))"
  by (auto simp: insert_or_ignore_def)

lemma find_upd_where:
  "(\<And>r. r \<in> set rows \<Longrightarrow> P r \<Longrightarrow> Q (f r) = Q r) \<Longrightarrow>
   List.find Q (upd_where P f rows) = map_option (\<lambda>r. if P r then f r else r) (List.find Q rows)"
  by (induction rows) auto

lemma find_append: "List.find P (xs @ ys) = (case List.find P xs of None \<Rightarrow> List.find P ys | Some x \<Rightarrow> Some x)"
  by (induction xs) auto

lemma find_SomeD: "List.find P xs = Some x \<Longrightarrow> x \<in> set xs \<and> P x"
  by (metis find_Some_iff nth_mem)

lemma find_NoneD: "List.find P xs = None \<Longrightarrow> x \<in> set xs \<Longrightarrow> \<not> P x"
  by (metis find_None_iff)

lemma find_del_where:
  "(\<And>r. r \<in> set rows \<Longrightarrow> Q r \<Longrightarrow> \<not> P r) \<Longrightarrow> List.find Q (del_where P rows) = List.find Q rows"
  by (induction rows) (auto simp: del_where_def)

subsection \<open>Rows with a key\<close>

text \<open>A primary key or unique index says that no two rows of a table agree on it.\<close>

lemma distinct_map_unique:
  "distinct (map key rows) \<Longrightarrow> x \<in> set rows \<Longrightarrow> y \<in> set rows \<Longrightarrow> key x = key y \<Longrightarrow> x = y"
  by (simp add: distinct_map inj_on_def)

lemma find_key:
  "distinct (map key rows) \<Longrightarrow> x \<in> set rows \<Longrightarrow> List.find (\<lambda>r. key r = key x) rows = Some x"
  by (induction rows) (auto simp: image_iff)

lemma distinct_filter_map_upd:
  assumes "distinct (map key (filter P rows))"
    and "\<And>r. r \<in> set rows \<Longrightarrow> U r \<Longrightarrow> key (f r) = key r"
    and "\<And>r. r \<in> set rows \<Longrightarrow> U r \<Longrightarrow> P (f r) \<Longrightarrow> P r"
  shows "distinct (map key (filter P (upd_where U f rows)))"
  using assms
proof (induction rows)
  case (Cons r rows)
  have sub: "set (map key (filter P (upd_where U f xs))) \<subseteq> set (map key (filter P xs))"
    if "\<And>r. r \<in> set xs \<Longrightarrow> U r \<Longrightarrow> key (f r) = key r"
      "\<And>r. r \<in> set xs \<Longrightarrow> U r \<Longrightarrow> P (f r) \<Longrightarrow> P r" for xs
    using that by (auto simp: table_simps image_iff split: if_splits)
  from Cons show ?case using sub[of rows] by (auto split: if_splits)
qed simp

text \<open>The interface of a statement that rewrites rows without touching their key:
  what every \<open>UPDATE\<close> of the server promises about the primary key of its table.\<close>

locale keyed_update =
  fixes key :: "'r \<Rightarrow> 'k" and f :: "'r \<Rightarrow> 'r"
  assumes key_kept: "key (f r) = key r"
begin

lemma keys_upd: "map key (upd_where P f rows) = map key rows"
  by (simp add: map_upd_where key_kept)

lemma find_upd:
  "List.find (\<lambda>r. key r = k) (upd_where (\<lambda>r. key r = k) f rows) = map_option f (List.find (\<lambda>r. key r = k) rows)"
  by (induction rows) (auto simp: key_kept)

lemma find_upd_other:
  "k' \<noteq> k \<Longrightarrow> List.find (\<lambda>r. key r = k') (upd_where (\<lambda>r. key r = k) f rows) = List.find (\<lambda>r. key r = k') rows"
  by (induction rows) (auto simp: key_kept)

end

subsection \<open>Invariants of a step relation\<close>

text \<open>What a component offers when its operations are steps: an invariant that
  holds in the initial states and that every step keeps. What its clients get: it holds in
  every state that a sequence of steps reaches.\<close>

locale invariant_system =
  fixes init :: "'s \<Rightarrow> bool" and step :: "'s \<Rightarrow> 's \<Rightarrow> bool" and inv :: "'s \<Rightarrow> bool"
  assumes inv_init: "init s \<Longrightarrow> inv s"
    and inv_step: "step s s' \<Longrightarrow> inv s \<Longrightarrow> inv s'"
begin

lemma inv_steps: "step\<^sup>*\<^sup>* s s' \<Longrightarrow> inv s \<Longrightarrow> inv s'"
  by (induction rule: rtranclp_induct) (auto intro: inv_step)

lemma inv_reachable: "init s \<Longrightarrow> step\<^sup>*\<^sup>* s s' \<Longrightarrow> inv s'"
  using inv_steps inv_init by blast

end

subsection \<open>Lists sorted by a key\<close>

lemma sorted_key_split:
  fixes key :: "'a \<Rightarrow> 'k::linorder"
  assumes "sorted (map key xs)"
  shows "xs = filter (\<lambda>x. key x \<le> k) xs @ filter (\<lambda>x. \<not> key x \<le> k) xs"
  using assms
proof (induction xs)
  case (Cons x xs)
  show ?case
  proof (cases "key x \<le> k")
    case True
    with Cons show ?thesis by simp
  next
    case False
    with Cons.prems have "\<forall>y \<in> set xs. \<not> key y \<le> k" by auto
    with False show ?thesis by (simp add: filter_empty_conv)
  qed
qed simp

text \<open>The last row in key order, as \<open>ORDER BY k DESC LIMIT 1\<close> picks it.\<close>

definition last_by :: "('r \<Rightarrow> 'k::linorder) \<Rightarrow> 'r list \<Rightarrow> 'r option" where
  "last_by k rows = (case rev (sort_key k rows) of [] \<Rightarrow> None | r # _ \<Rightarrow> Some r)"

lemma last_by_None [simp]: "last_by k rows = None \<longleftrightarrow> rows = []"
  by (auto simp: last_by_def simp flip: set_empty split: list.splits)

lemma last_by_Some_in: "last_by k rows = Some r \<Longrightarrow> r \<in> set rows"
proof -
  assume "last_by k rows = Some r"
  then have "\<exists>ys. rev (sort_key k rows) = r # ys"
    by (simp add: last_by_def split: list.splits)
  then have "r \<in> set (rev (sort_key k rows))"
    by (metis list.set_intros(1))
  then show ?thesis by simp
qed

lemma last_by_max:
  assumes "last_by k rows = Some r" "x \<in> set rows"
  shows "k x \<le> k r"
proof -
  from assms(1) obtain ys where ys: "rev (sort_key k rows) = r # ys"
    by (auto simp: last_by_def split: list.splits)
  then have eq: "sort_key k rows = rev ys @ [r]"
    by (metis rev.simps(2) rev_swap)
  have "sorted (map k (rev ys @ [r]))"
    by (metis eq sorted_sort_key)
  moreover have "x \<in> set (rev ys @ [r])"
    using assms(2) eq by (metis set_sort)
  ultimately show ?thesis
    by (auto simp: sorted_append)
qed

subsection \<open>Numbers as text\<close>

text \<open>The decimal text a template literal puts in for an integer.\<close>

fun nat_text :: "nat \<Rightarrow> string" where
  "nat_text n = (if n < 10 then [char_of (48 + n)] else nat_text (n div 10) @ [char_of (48 + n mod 10)])"

declare nat_text.simps [simp del]

definition int_text :: "int \<Rightarrow> string" where
  "int_text n = (if n < 0 then CHR ''-'' # nat_text (nat (- n)) else nat_text (nat n))"

end
