(* ===== verification/Schema.thy ===== *)
theory Schema
  imports Prelude
begin

section \<open>The database: rows, tables and cascades\<close>

text \<open>
  One record per table of \<open>src/src/store/migrations.ts\<close>, with the columns of its
  final version, and one record \<open>db\<close> that holds them all. A table is the list of its rows in
  rowid order. \<open>NULL\<close> is \<^term>\<open>None\<close>, an \<open>INTEGER\<close> with a \<open>CHECK (.. IN (0, 1))\<close> is a \<open>bool\<close>, a
  \<open>TEXT\<close> with a \<open>CHECK (.. IN (..))\<close> is a datatype with one constructor per value. The
  column \<open>messages.tags\<close> holds the JSON text of a list of strings; here it holds the list. Tables
  that only \<open>better-auth\<close> reads keep the columns the server itself reads.

  The foreign keys of the schema are \<open>ON DELETE CASCADE\<close> or \<open>SET NULL\<close>, so a \<open>DELETE\<close> on a
  parent changes its children too. Those cascades are the functions \<open>delete_incidents\<close>,
  \<open>delete_topics\<close>, \<open>delete_devices\<close>, \<open>delete_billing_ids\<close> and \<open>delete_account_row\<close> at the end. A \<open>NO ACTION\<close>
  reference refuses the delete, which is the \<^term>\<open>None\<close> of \<open>delete_account_row\<close>.
\<close>

subsection \<open>Enumerations\<close>

datatype tier = Free | Relay | Hosted
datatype platform = Ios | Android | Macos
datatype apns_environment = Sandbox | Production
datatype relay_content = ContentNone | ContentFull
datatype incident_state = Open | Acked | Closed | Expired
datatype timer_kind = RepeatT | ExpireT | DeskT
datatype token_kind = Apns | Fcm | LaStart | LaUpdate
datatype server_mode = SelfHostedMode | RelayMode | HostedMode
datatype round_result = Received | Missed | Refused | Skipped
datatype skip_reason = ReasonTier | ReasonPack | NoToken | Disabled | Held | Unsent
datatype attempt_outcome = AttemptAccepted | AttemptRefused | AttemptFailed | AttemptCancelled

subsection \<open>Rows\<close>

record account_row =
  a_id :: ident
  a_tier :: tier
  a_created_at :: seconds
  a_join_token_hash :: "string option"
  a_merged_into :: "ident option"

record device_row =
  d_id :: ident
  d_account_id :: ident
  d_token_hash :: string
  d_platform :: platform
  d_push_token :: string
  d_last_seen :: seconds
  d_app_version :: "string option"
  d_apns_environment :: "apns_environment option"
  d_last_alarm_push_at :: "seconds option"

record subscription_row =
  s_device_id :: ident
  s_topic_hash :: string

record topic_row =
  t_id :: ident
  t_account_id :: ident
  t_name :: string
  t_base_url :: string
  t_topic_hash :: string
  t_critical :: bool
  t_repeat_interval_s :: int
  t_max_ring_s :: int
  t_desk_timer_s :: int
  t_relay_content :: relay_content
  t_created_at :: seconds
  t_relay_name :: "string option"

record topic_token_row =
  tt_id :: ident
  tt_topic_id :: ident
  tt_hash :: string
  tt_created_at :: seconds
  tt_name :: string

record incident_row =
  i_id :: ident
  i_topic_id :: ident
  i_state :: incident_state
  i_opened_at :: seconds
  i_acked_at :: "seconds option"
  i_closed_at :: "seconds option"
  i_last_message_at :: seconds
  i_updated_at :: seconds
  i_max_ring_s :: int

record message_row =
  m_id :: ident
  m_topic_id :: ident
  m_incident_id :: "ident option"
  m_title :: string
  m_body :: string
  m_priority :: int
  m_tags :: "string list"
  m_click :: "string option"
  m_markdown :: bool
  m_created_at :: seconds

record timer_row =
  tm_id :: ident
  tm_incident_id :: ident
  tm_kind :: timer_kind
  tm_fire_at :: seconds

record device_token_row =
  dt_device_id :: ident
  dt_kind :: token_kind
  dt_activity_id :: string
  dt_incident_id :: "ident option"
  dt_token :: string
  dt_updated_at :: seconds

record relay_server_row =
  rs_id :: ident
  rs_base_url :: string
  rs_version :: string
  rs_key_hash :: string
  rs_created_at :: seconds
  rs_legacy :: bool

record relay_credential_row =
  rc_relay_url :: string
  rc_relay_key :: string
  rc_created_at :: seconds

record p4_usage_row =
  u_account_id :: ident
  u_day_start :: seconds
  u_count :: int

record registration_attempt_row =
  ra_client :: string
  ra_day_start :: seconds
  ra_count :: int

record counter_row =
  c_day :: string
  c_relay_key :: string
  c_metric :: string
  c_count :: int

record billing_id_row =
  b_app_user_id :: ident
  b_account_id :: ident
  b_linked_at :: seconds
  b_last_event_at :: "seconds option"
  b_entitled_tier :: tier
  b_checked_at :: "seconds option"
  b_read_seq :: nat
  b_applied_seq :: nat

record billing_event_row =
  be_event_id :: ident
  be_app_user_id :: ident
  be_account_id :: "ident option"
  be_type :: string
  be_event_at :: seconds
  be_applied :: bool
  be_received_at :: seconds

record tier_change_row =
  tc_account_id :: ident
  tc_from :: tier
  tc_to :: tier
  tc_reason :: string
  tc_event_id :: "ident option"
  tc_changed_at :: seconds

record merge_counts =
  mc_devices :: nat
  mc_topics_repointed :: nat
  mc_topics_folded :: nat
  mc_tokens_repointed :: nat
  mc_incidents :: nat
  mc_messages :: nat
  mc_billing_ids :: nat
  mc_tier_before :: tier
  mc_tier_after :: tier

record account_merge_row =
  am_from :: ident
  am_into :: ident
  am_merged_at :: seconds
  am_detail :: merge_counts

record billing_pack_row =
  bp_app_user_id :: ident
  bp_pack :: string
  bp_expires_at :: "seconds option"

record pack_grant_row =
  g_account_id :: ident
  g_pack :: string
  g_expires_at :: "seconds option"
  g_reason :: string
  g_granted_at :: seconds

record billing_read_row =
  br_app_user_id :: ident
  br_due_at :: seconds
  br_attempts :: nat
  br_dirty :: bool

record identity_row =
  id_user_id :: ident
  id_account_id :: ident
  id_linked_at :: seconds

record user_row =
  us_id :: ident
  us_email :: string

record device_check_row =
  dc_device_id :: ident
  dc_enabled :: bool
  dc_enrolled_at :: seconds
  dc_next_attempt_at :: "seconds option"
  dc_next_due_at :: seconds
  dc_round_id :: "ident option"
  dc_misses :: nat
  dc_last_result :: "round_result option"
  dc_second_miss_at :: "seconds option"
  dc_last_sent_at :: "seconds option"
  dc_last_received_at :: "seconds option"

record check_round_row =
  cr_id :: ident
  cr_device_id :: ident
  cr_nonce_hash :: string
  cr_opened_at :: seconds
  cr_closes_at :: seconds
  cr_closed_at :: "seconds option"
  cr_attempts :: nat
  cr_result :: "round_result option"
  cr_reason :: "skip_reason option"
  cr_held_until :: "seconds option"
  cr_attempt_received :: "int option"
  cr_receipt_at :: "seconds option"
  cr_device_received_at :: "int option"
  cr_late_receipt_at :: "seconds option"

record check_attempt_row =
  ca_round_id :: ident
  ca_attempt :: nat
  ca_recorded_at :: seconds
  ca_outcome :: "attempt_outcome option"
  ca_status :: "int option"

record cancel_answer_row =
  an_account_id :: ident
  an_created_at :: seconds
  an_reason :: string
  an_text :: "string option"
  an_app_version :: string
  an_platform :: platform
  an_updated_at :: seconds

subsection \<open>The database\<close>

record db =
  accounts :: "account_row list"
  devices :: "device_row list"
  subscriptions :: "subscription_row list"
  topics :: "topic_row list"
  topic_tokens :: "topic_token_row list"
  incidents :: "incident_row list"
  messages :: "message_row list"
  timers :: "timer_row list"
  device_tokens :: "device_token_row list"
  relay_servers :: "relay_server_row list"
  relay_client_credentials :: "relay_credential_row list"
  relay_p4_usage :: "p4_usage_row list"
  relay_registration_attempts :: "registration_attempt_row list"
  counters :: "counter_row list"
  counters_zeroed :: "string list"
  account_billing_ids :: "billing_id_row list"
  billing_events :: "billing_event_row list"
  tier_changes :: "tier_change_row list"
  account_merges :: "account_merge_row list"
  billing_packs :: "billing_pack_row list"
  account_pack_grants :: "pack_grant_row list"
  billing_reads :: "billing_read_row list"
  account_identities :: "identity_row list"
  users :: "user_row list"
  device_checks :: "device_check_row list"
  check_rounds :: "check_round_row list"
  check_attempts :: "check_attempt_row list"
  cancel_answers :: "cancel_answer_row list"
  server_settings :: "(string \<times> string) list"

definition empty_db :: db where
  "empty_db = \<lparr>accounts = [], devices = [], subscriptions = [], topics = [], topic_tokens = [],
     incidents = [], messages = [], timers = [], device_tokens = [], relay_servers = [],
     relay_client_credentials = [], relay_p4_usage = [], relay_registration_attempts = [],
     counters = [], counters_zeroed = [], account_billing_ids = [], billing_events = [],
     tier_changes = [], account_merges = [], billing_packs = [], account_pack_grants = [],
     billing_reads = [], account_identities = [], users = [], device_checks = [],
     check_rounds = [], check_attempts = [], cancel_answers = [], server_settings = []\<rparr>"


subsection \<open>Reads every component makes\<close>

text \<open>\<open>SELECT tier FROM accounts WHERE id = ?\<close> and the rows a primary key names.\<close>

definition account_of :: "db \<Rightarrow> ident \<Rightarrow> account_row option" where
  "account_of s acc = List.find (\<lambda>a. a_id a = acc) (accounts s)"

definition tier_of :: "db \<Rightarrow> ident \<Rightarrow> tier option" where
  "tier_of s acc = map_option a_tier (account_of s acc)"

definition device_of :: "db \<Rightarrow> ident \<Rightarrow> device_row option" where
  "device_of s dev = List.find (\<lambda>d. d_id d = dev) (devices s)"

definition incident_of :: "db \<Rightarrow> ident \<Rightarrow> incident_row option" where
  "incident_of s inc = List.find (\<lambda>i. i_id i = inc) (incidents s)"

text \<open>\<open>SELECT id FROM topics WHERE account_id = ?\<close>, as a membership test.\<close>

definition topic_owned_by :: "db \<Rightarrow> ident \<Rightarrow> ident \<Rightarrow> bool" where
  "topic_owned_by s acc tid = list_ex (\<lambda>t. t_id t = tid \<and> t_account_id t = acc) (topics s)"

subsection \<open>Cascades\<close>

text \<open>\<open>messages.incident_id .. ON DELETE SET NULL\<close>, \<open>timers.incident_id .. ON DELETE CASCADE\<close>.\<close>

definition delete_incidents :: "(incident_row \<Rightarrow> bool) \<Rightarrow> db \<Rightarrow> db" where
  "delete_incidents P s =
     (let gone = (\<lambda>inc. list_ex (\<lambda>i. P i \<and> i_id i = inc) (incidents s))
      in s\<lparr>incidents := del_where P (incidents s),
           timers := del_where (\<lambda>t. gone (tm_incident_id t)) (timers s),
           messages := upd_where (\<lambda>m. case m_incident_id m of None \<Rightarrow> False | Some inc \<Rightarrow> gone inc)
                         (\<lambda>m. m\<lparr>m_incident_id := None\<rparr>) (messages s)\<rparr>)"

text \<open>A topic takes its tokens, its messages and its incidents with it.\<close>

definition delete_topics :: "(topic_row \<Rightarrow> bool) \<Rightarrow> db \<Rightarrow> db" where
  "delete_topics P s =
     (let gone = (\<lambda>tid. list_ex (\<lambda>t. P t \<and> t_id t = tid) (topics s));
          s1 = delete_incidents (\<lambda>i. gone (i_topic_id i)) s
      in s1\<lparr>topics := del_where P (topics s),
            topic_tokens := del_where (\<lambda>k. gone (tt_topic_id k)) (topic_tokens s),
            messages := del_where (\<lambda>m. gone (m_topic_id m)) (messages s1)\<rparr>)"

text \<open>A device takes its subscriptions, tokens, check state, rounds and their attempts.\<close>

definition delete_devices :: "(device_row \<Rightarrow> bool) \<Rightarrow> db \<Rightarrow> db" where
  "delete_devices P s =
     (let gone = (\<lambda>dev. list_ex (\<lambda>d. P d \<and> d_id d = dev) (devices s));
          gone_round = (\<lambda>rid. list_ex (\<lambda>r. gone (cr_device_id r) \<and> cr_id r = rid) (check_rounds s))
      in s\<lparr>devices := del_where P (devices s),
           subscriptions := del_where (\<lambda>x. gone (s_device_id x)) (subscriptions s),
           device_tokens := del_where (\<lambda>k. gone (dt_device_id k)) (device_tokens s),
           device_checks := del_where (\<lambda>c. gone (dc_device_id c)) (device_checks s),
           check_rounds := del_where (\<lambda>r. gone (cr_device_id r)) (check_rounds s),
           check_attempts := del_where (\<lambda>a. gone_round (ca_round_id a)) (check_attempts s)\<rparr>)"

definition delete_billing_ids :: "(billing_id_row \<Rightarrow> bool) \<Rightarrow> db \<Rightarrow> db" where
  "delete_billing_ids P s =
     (let gone = (\<lambda>u. list_ex (\<lambda>b. P b \<and> b_app_user_id b = u) (account_billing_ids s))
      in s\<lparr>account_billing_ids := del_where P (account_billing_ids s),
           billing_packs := del_where (\<lambda>p. gone (bp_app_user_id p)) (billing_packs s)\<rparr>)"

text \<open>\<open>DELETE FROM accounts WHERE id = ?\<close>: refused while \<open>tier_changes\<close>, \<open>billing_events\<close> or
  another account's \<open>merged_into\<close> still names the row.\<close>

definition account_referenced :: "ident \<Rightarrow> db \<Rightarrow> bool" where
  "account_referenced acc s \<longleftrightarrow>
     list_ex (\<lambda>c. tc_account_id c = acc) (tier_changes s) \<or>
     list_ex (\<lambda>e. be_account_id e = Some acc) (billing_events s) \<or>
     list_ex (\<lambda>a. a_id a \<noteq> acc \<and> a_merged_into a = Some acc) (accounts s)"

definition delete_account_row :: "ident \<Rightarrow> db \<Rightarrow> db option" where
  "delete_account_row acc s =
     (if list_ex (\<lambda>a. a_id a = acc) (accounts s) \<and> account_referenced acc s then None
      else if \<not> list_ex (\<lambda>a. a_id a = acc) (accounts s) then Some s
      else Some ((delete_billing_ids (\<lambda>b. b_account_id b = acc)
             (delete_topics (\<lambda>t. t_account_id t = acc)
               (delete_devices (\<lambda>d. d_account_id d = acc) s)))
           \<lparr>accounts := del_where (\<lambda>a. a_id a = acc) (accounts s),
            relay_p4_usage := del_where (\<lambda>u. u_account_id u = acc) (relay_p4_usage s),
            account_pack_grants := del_where (\<lambda>g. g_account_id g = acc) (account_pack_grants s),
            account_identities := del_where (\<lambda>i. id_account_id i = acc) (account_identities s),
            cancel_answers := del_where (\<lambda>c. an_account_id c = acc) (cancel_answers s)\<rparr>))"

end
