(* ===== verification/Incidents.thy ===== *)
theory Incidents
  imports Schema
begin

section \<open>Incidents: open, ring, acknowledge, reopen, expire\<close>

text \<open>
  \<open>src/src/incident/service.ts\<close>: the state machine behind a ringing alarm. A critical publication
  opens an incident (or joins the active one of its topic), an acknowledgement starts the desk
  timer, a desk timer that runs out reopens it, a close ends it, and the expire timer ends it
  when nobody answered. \<open>scan_due\<close> is what the scanner runs every few seconds.

  The code reads the clock and draws random identifiers while it runs. Here both are arguments:
  a plain value where the code reads once, a function of the loop counter where a loop reads
  again at every turn. A better-sqlite3 transaction that throws leaves the tables alone, which is
  \<open>Inl\<close> with no new state.
\<close>

subsection \<open>Events and inputs\<close>

datatype event_kind = EvOpen | EvRepeat | EvReopen | EvP4 | EvP5 | EvAck | EvClose | EvExpire

record delivery_event =
  e_kind :: event_kind
  e_topic_hash :: string
  e_topic :: string
  e_incident_id :: "ident option"
  e_message_id :: ident
  e_priority :: int
  e_max_ring_s :: int
  e_ring_until :: "seconds option"
  e_server :: string
  e_title :: string
  e_body :: string
  e_critical :: bool
  e_relay_content :: "relay_content option"
  e_account_id :: "ident option"

record stored_message_input =
  sm_title :: string
  sm_body :: string
  sm_priority :: int
  sm_tags :: "string list"
  sm_click :: "string option"
  sm_markdown :: bool

record critical_publication =
  cp_topic_id :: ident
  cp_topic_hash :: string
  cp_topic :: string
  cp_base_url :: string
  cp_repeat_interval_s :: int
  cp_max_ring_s :: int
  cp_desk_timer_s :: int
  cp_message :: stored_message_input
  cp_relay_content :: "relay_content option"

datatype incident_error = IncidentConflict | IncidentNotFound

record incident_filter =
  f_state :: "incident_state option"
  f_topic :: "string option"
  f_limit :: "nat option"
  f_since :: "seconds option"
  f_opened_after :: "seconds option"

subsection \<open>Reads\<close>

definition active :: "incident_row \<Rightarrow> bool" where
  "active i \<longleftrightarrow> i_state i = Open \<or> i_state i = Acked"

definition active_of_topic :: "db \<Rightarrow> ident \<Rightarrow> incident_row option" where
  "active_of_topic s tid = List.find (\<lambda>i. i_topic_id i = tid \<and> active i) (incidents s)"

definition topic_of :: "db \<Rightarrow> incident_row \<Rightarrow> topic_row option" where
  "topic_of s i = List.find (\<lambda>t. t_id t = i_topic_id i) (topics s)"

text \<open>\<open>incidents i JOIN topics t ON t.id = i.topic_id WHERE i.id = ? AND t.account_id = ?\<close>\<close>

definition scoped_incident_or_null :: "db \<Rightarrow> ident \<Rightarrow> ident \<Rightarrow> (incident_row \<times> topic_row) option" where
  "scoped_incident_or_null s acc inc =
     (case List.find (\<lambda>i. i_id i = inc) (incidents s) of None \<Rightarrow> None
      | Some i \<Rightarrow> (case topic_of s i of None \<Rightarrow> None
         | Some t \<Rightarrow> if t_account_id t = acc then Some (i, t) else None))"

definition scoped_incident :: "db \<Rightarrow> ident \<Rightarrow> ident \<Rightarrow> incident_error + (incident_row \<times> topic_row)" where
  "scoped_incident s acc inc =
     (case scoped_incident_or_null s acc inc of None \<Rightarrow> Inl IncidentNotFound | Some r \<Rightarrow> Inr r)"

definition latest_message :: "db \<Rightarrow> ident \<Rightarrow> message_row option" where
  "latest_message s inc =
     last_by (\<lambda>m. (m_created_at m, m_id m)) (filter (\<lambda>m. m_incident_id m = Some inc) (messages s))"

definition messages_of :: "db \<Rightarrow> ident \<Rightarrow> message_row list" where
  "messages_of s inc =
     sort_key (\<lambda>m. (m_created_at m, m_id m)) (filter (\<lambda>m. m_incident_id m = Some inc) (messages s))"

definition with_messages :: "db \<Rightarrow> incident_row \<times> topic_row \<Rightarrow> incident_row \<times> string \<times> message_row list" where
  "with_messages s r = (fst r, t_name (snd r), messages_of s (i_id (fst r)))"

definition get_incident :: "db \<Rightarrow> ident \<Rightarrow> ident \<Rightarrow> (incident_row \<times> string \<times> message_row list) option" where
  "get_incident s acc inc = map_option (with_messages s) (scoped_incident_or_null s acc inc)"

definition default_incident_limit :: nat where "default_incident_limit = 20"
definition max_incident_limit :: nat where "max_incident_limit = 200"

definition filter_accepts :: "ident \<Rightarrow> incident_filter \<Rightarrow> incident_row \<times> topic_row \<Rightarrow> bool" where
  "filter_accepts acc f r \<longleftrightarrow>
     t_account_id (snd r) = acc \<and>
     (case f_state f of None \<Rightarrow> True | Some st \<Rightarrow> i_state (fst r) = st) \<and>
     (case f_topic f of None \<Rightarrow> True | Some n \<Rightarrow> t_name (snd r) = n) \<and>
     (case f_since f of None \<Rightarrow> True | Some x \<Rightarrow> i_updated_at (fst r) > x) \<and>
     (case f_opened_after f of None \<Rightarrow> True | Some x \<Rightarrow> i_opened_at (fst r) > x)"

definition joined_incidents :: "db \<Rightarrow> (incident_row \<times> topic_row) list" where
  "joined_incidents s =
     concat (map (\<lambda>i. case topic_of s i of None \<Rightarrow> [] | Some t \<Rightarrow> [(i, t)]) (incidents s))"

definition list_incidents :: "db \<Rightarrow> ident \<Rightarrow> incident_filter \<Rightarrow> (incident_row \<times> string \<times> message_row list) list" where
  "list_incidents s acc f =
     map (with_messages s)
       (take (case f_limit f of None \<Rightarrow> default_incident_limit | Some n \<Rightarrow> n)
         (sort_key (\<lambda>r. - i_opened_at (fst r)) (filter (filter_accepts acc f) (joined_incidents s))))"

subsection \<open>Events an incident raises\<close>

definition make_event ::
  "event_kind \<Rightarrow> string \<Rightarrow> string \<Rightarrow> string \<Rightarrow> ident \<Rightarrow> ident \<times> string \<times> string \<Rightarrow> int \<Rightarrow> seconds option \<Rightarrow> bool
     \<Rightarrow> relay_content option \<Rightarrow> delivery_event" where
  "make_event kind hash topic server inc msg max_ring ring_until crit rc =
     \<lparr>e_kind = kind, e_topic_hash = hash, e_topic = topic, e_incident_id = Some inc,
      e_message_id = fst msg, e_priority = 5, e_max_ring_s = max_ring, e_ring_until = ring_until,
      e_server = server, e_title = fst (snd msg), e_body = snd (snd msg), e_critical = crit,
      e_relay_content = rc, e_account_id = None\<rparr>"

definition full_only :: "relay_content option \<Rightarrow> relay_content option" where
  "full_only rc = (if rc = Some ContentFull then Some ContentFull else None)"

definition timer_event :: "event_kind \<Rightarrow> incident_row \<times> topic_row \<Rightarrow> seconds \<Rightarrow> db \<Rightarrow> delivery_event" where
  "timer_event kind r opened s =
     (let i = fst r; t = snd r;
          msg = (case latest_message s (i_id i) of None \<Rightarrow> ('''', '''', '''')
                 | Some m \<Rightarrow> (m_id m, m_title m, m_body m))
      in make_event kind (t_topic_hash t) (t_name t) (t_base_url t) (i_id i) msg (i_max_ring_s i)
           (if kind = EvRepeat \<or> kind = EvReopen then Some (opened + i_max_ring_s i) else None)
           (t_critical t) (full_only (Some (t_relay_content t))))"

subsection \<open>Operations\<close>

definition insert_timer :: "ident \<Rightarrow> ident \<Rightarrow> timer_kind \<Rightarrow> seconds \<Rightarrow> db \<Rightarrow> db" where
  "insert_timer tid inc k at s =
     s\<lparr>timers := timers s @ [\<lparr>tm_id = tid, tm_incident_id = inc, tm_kind = k, tm_fire_at = at\<rparr>]\<rparr>"

definition clear_timers :: "ident \<Rightarrow> db \<Rightarrow> db" where
  "clear_timers inc s = s\<lparr>timers := del_where (\<lambda>t. tm_incident_id t = inc) (timers s)\<rparr>"

definition set_incident :: "ident \<Rightarrow> (incident_row \<Rightarrow> incident_row) \<Rightarrow> db \<Rightarrow> db" where
  "set_incident inc f s = s\<lparr>incidents := upd_where (\<lambda>i. i_id i = inc) f (incidents s)\<rparr>"

text \<open>The identifiers one call draws: a message, an incident and two timers.\<close>

record fresh_ids =
  n_message :: ident
  n_incident :: ident
  n_timer1 :: ident
  n_timer2 :: ident

definition critical_message :: "seconds \<Rightarrow> fresh_ids \<Rightarrow> critical_publication \<Rightarrow> ident \<Rightarrow> message_row" where
  "critical_message now ids p inc =
     \<lparr>m_id = n_message ids, m_topic_id = cp_topic_id p, m_incident_id = Some inc,
      m_title = sm_title (cp_message p), m_body = sm_body (cp_message p),
      m_priority = sm_priority (cp_message p), m_tags = sm_tags (cp_message p),
      m_click = sm_click (cp_message p), m_markdown = sm_markdown (cp_message p), m_created_at = now\<rparr>"

definition new_incident :: "seconds \<Rightarrow> fresh_ids \<Rightarrow> critical_publication \<Rightarrow> incident_row" where
  "new_incident now ids p =
     \<lparr>i_id = n_incident ids, i_topic_id = cp_topic_id p, i_state = Open, i_opened_at = now,
      i_acked_at = None, i_closed_at = None, i_last_message_at = now, i_updated_at = now,
      i_max_ring_s = cp_max_ring_s p\<rparr>"

definition touch :: "seconds \<Rightarrow> incident_row \<Rightarrow> incident_row" where
  "touch now i = i\<lparr>i_last_message_at := now, i_updated_at := now\<rparr>"

definition publish_critical ::
  "seconds \<Rightarrow> fresh_ids \<Rightarrow> critical_publication \<Rightarrow> db \<Rightarrow> db \<times> message_row \<times> incident_row \<times> delivery_event list" where
  "publish_critical now ids p s =
     (let existing = active_of_topic s (cp_topic_id p);
          inc = (case existing of None \<Rightarrow> new_incident now ids p | Some i \<Rightarrow> touch now i);
          s1 = (case existing of
                  None \<Rightarrow> insert_timer (n_timer2 ids) (i_id inc) ExpireT (now + cp_max_ring_s p)
                           (insert_timer (n_timer1 ids) (i_id inc) RepeatT (now + cp_repeat_interval_s p)
                             (s\<lparr>incidents := incidents s @ [inc]\<rparr>))
                | Some i \<Rightarrow> set_incident (i_id i) (touch now) s);
          m = critical_message now ids p (i_id inc);
          s2 = s1\<lparr>messages := messages s1 @ [m]\<rparr>;
          ev = make_event (if existing = None then EvOpen else EvP5) (cp_topic_hash p) (cp_topic p)
                 (cp_base_url p) (i_id inc) (m_id m, m_title m, m_body m)
                 (case existing of None \<Rightarrow> cp_max_ring_s p | Some i \<Rightarrow> i_max_ring_s i)
                 (Some (case existing of None \<Rightarrow> now + cp_max_ring_s p | Some i \<Rightarrow> i_opened_at i + i_max_ring_s i))
                 (case existing of None \<Rightarrow> True | Some i \<Rightarrow> i_state i \<noteq> Acked)
                 (full_only (cp_relay_content p))
      in (s2, m, inc, [ev]))"

definition ack_row :: "seconds \<Rightarrow> incident_row \<Rightarrow> incident_row" where
  "ack_row now i = i\<lparr>i_state := Acked, i_acked_at := Some now, i_updated_at := now\<rparr>"

definition close_row :: "seconds \<Rightarrow> incident_row \<Rightarrow> incident_row" where
  "close_row now i = i\<lparr>i_state := Closed, i_closed_at := Some now, i_updated_at := now\<rparr>"

definition expire_row :: "seconds \<Rightarrow> incident_row \<Rightarrow> incident_row" where
  "expire_row now i = i\<lparr>i_state := Expired, i_closed_at := Some now, i_updated_at := now\<rparr>"

definition reopen_row :: "seconds \<Rightarrow> incident_row \<Rightarrow> incident_row" where
  "reopen_row now i = i\<lparr>i_state := Open, i_opened_at := now, i_acked_at := None, i_updated_at := now\<rparr>"

text \<open>The answer of \<open>acknowledge\<close> and \<open>close\<close> is built from the row as it was read, with the new
  state and its time set: its \<open>updatedAt\<close> is the old one.\<close>

definition acknowledge ::
  "seconds \<Rightarrow> ident \<Rightarrow> ident \<Rightarrow> ident \<Rightarrow> db \<Rightarrow> incident_error + db \<times> incident_row \<times> delivery_event list" where
  "acknowledge now tid acc inc s =
     (case scoped_incident s acc inc of Inl e \<Rightarrow> Inl e
      | Inr (i, t) \<Rightarrow>
          if i_state i \<noteq> Open then Inl IncidentConflict
          else (let s' = insert_timer tid inc DeskT (now + t_desk_timer_s t)
                           (clear_timers inc (set_incident inc (ack_row now) s))
                in Inr (s', i\<lparr>i_state := Acked, i_acked_at := Some now\<rparr>,
                        [timer_event EvAck (i, t) (i_opened_at i) s'])))"

definition close_incident ::
  "seconds \<Rightarrow> ident \<Rightarrow> ident \<Rightarrow> db \<Rightarrow> incident_error + db \<times> incident_row \<times> delivery_event list" where
  "close_incident now acc inc s =
     (case scoped_incident s acc inc of Inl e \<Rightarrow> Inl e
      | Inr (i, t) \<Rightarrow>
          if i_state i \<noteq> Acked then Inl IncidentConflict
          else (let s' = clear_timers inc (set_incident inc (close_row now) s)
                in Inr (s', i\<lparr>i_state := Closed, i_closed_at := Some now\<rparr>,
                        [timer_event EvClose (i, t) (i_opened_at i) s'])))"

subsection \<open>The scanner\<close>

text \<open>A row of the scan: the timer, its incident and its topic as they were when the scan began.\<close>

type_synonym due_row = "timer_row \<times> incident_row \<times> topic_row"

definition kind_rank :: "timer_kind \<Rightarrow> nat" where
  "kind_rank k = (case k of ExpireT \<Rightarrow> 0 | DeskT \<Rightarrow> 1 | RepeatT \<Rightarrow> 2)"

definition due_key :: "due_row \<Rightarrow> nat \<times> seconds \<times> ident" where
  "due_key r = (kind_rank (tm_kind (fst r)), tm_fire_at (fst r), tm_id (fst r))"

definition joined_timers :: "db \<Rightarrow> due_row list" where
  "joined_timers s =
     concat (map (\<lambda>tm. case incident_of s (tm_incident_id tm) of None \<Rightarrow> []
                       | Some i \<Rightarrow> (case topic_of s i of None \<Rightarrow> [] | Some t \<Rightarrow> [(tm, i, t)])) (timers s))"

definition due_rows :: "seconds \<Rightarrow> db \<Rightarrow> due_row list" where
  "due_rows now s = sort_key due_key (filter (\<lambda>r. tm_fire_at (fst r) \<le> now) (joined_timers s))"

definition delete_timer :: "ident \<Rightarrow> db \<Rightarrow> db" where
  "delete_timer tid s = s\<lparr>timers := del_where (\<lambda>t. tm_id t = tid) (timers s)\<rparr>"

definition process_timer :: "seconds \<Rightarrow> ident \<times> ident \<Rightarrow> due_row \<Rightarrow> db \<Rightarrow> db \<times> delivery_event option" where
  "process_timer now ids r s =
     (let tm = fst r; i0 = fst (snd r); t = snd (snd r); inc = i_id i0
      in case incident_of s inc of None \<Rightarrow> (s, None)
         | Some current \<Rightarrow>
             (case tm_kind tm of
                ExpireT \<Rightarrow>
                  if i_state current \<noteq> Open then (delete_timer (tm_id tm) s, None)
                  else (let s' = clear_timers inc (set_incident inc (expire_row now) s)
                        in (s', Some (timer_event EvExpire (i0, t) (i_opened_at i0) s')))
              | DeskT \<Rightarrow>
                  if i_state current \<noteq> Acked then (delete_timer (tm_id tm) s, None)
                  else (let s' = insert_timer (snd ids) inc ExpireT (now + i_max_ring_s current)
                                   (insert_timer (fst ids) inc RepeatT (now + t_repeat_interval_s t)
                                     (clear_timers inc (set_incident inc (reopen_row now) s)))
                        in (s', Some (timer_event EvReopen (i0, t) now s')))
              | RepeatT \<Rightarrow>
                  if i_state current \<noteq> Open then (delete_timer (tm_id tm) s, None)
                  else (let s' = s\<lparr>timers := upd_where (\<lambda>x. tm_id x = tm_id tm)
                                     (\<lambda>x. x\<lparr>tm_fire_at := now + t_repeat_interval_s t\<rparr>) (timers s)\<rparr>
                        in (s', Some (timer_event EvRepeat (i0, t) (i_opened_at i0) s')))))"

fun process_due ::
  "(nat \<Rightarrow> seconds) \<Rightarrow> (nat \<Rightarrow> ident \<times> ident) \<Rightarrow> nat \<Rightarrow> due_row list \<Rightarrow> db \<Rightarrow> db \<times> delivery_event list" where
  "process_due clk ids k [] s = (s, [])"
| "process_due clk ids k (r # rs) s =
     (case process_timer (clk k) (ids k) r s of (s1, ev) \<Rightarrow>
        (case process_due clk ids (Suc k) rs s1 of (s2, evs) \<Rightarrow>
           (s2, (case ev of None \<Rightarrow> evs | Some e \<Rightarrow> e # evs))))"

text \<open>The scan reads the clock once for the query (reading 0) and once more per due timer.\<close>

definition scan_due :: "(nat \<Rightarrow> seconds) \<Rightarrow> (nat \<Rightarrow> ident \<times> ident) \<Rightarrow> db \<Rightarrow> db \<times> delivery_event list" where
  "scan_due clk ids s = process_due clk ids 1 (due_rows (clk 0) s) s"

subsection \<open>The invariant\<close>

text \<open>Which timers an incident has is decided by its state, the ring window of an open
  incident ends when its expire timer fires, and the indexes of the schema hold: one row per
  incident and timer id, one timer per incident and kind, one active incident per topic.\<close>

fun expected_kinds :: "incident_state \<Rightarrow> timer_kind set" where
  "expected_kinds Open = {RepeatT, ExpireT}"
| "expected_kinds Acked = {DeskT}"
| "expected_kinds Closed = {}"
| "expected_kinds Expired = {}"

definition kinds_of :: "timer_row list \<Rightarrow> ident \<Rightarrow> timer_kind set" where
  "kinds_of tms inc = tm_kind ` set (filter (\<lambda>t. tm_incident_id t = inc) tms)"

definition timer_key :: "timer_row \<Rightarrow> ident \<times> timer_kind" where
  "timer_key t = (tm_incident_id t, tm_kind t)"

definition timer_fits :: "incident_row \<Rightarrow> timer_row \<Rightarrow> bool" where
  "timer_fits i t \<longleftrightarrow> (tm_incident_id t = i_id i \<and> tm_kind t = ExpireT \<longrightarrow> tm_fire_at t = i_opened_at i + i_max_ring_s i)"

definition incidents_ok :: "db \<Rightarrow> bool" where
  "incidents_ok s \<longleftrightarrow>
     distinct (map t_id (topics s)) \<and>
     distinct (map i_id (incidents s)) \<and>
     distinct (map i_topic_id (filter active (incidents s))) \<and>
     distinct (map tm_id (timers s)) \<and>
     distinct (map timer_key (timers s)) \<and>
     (\<forall>i \<in> set (incidents s). i_topic_id i \<in> t_id ` set (topics s)) \<and>
     (\<forall>t \<in> set (timers s). tm_incident_id t \<in> i_id ` set (incidents s)) \<and>
     (\<forall>i \<in> set (incidents s). kinds_of (timers s) (i_id i) = expected_kinds (i_state i)) \<and>
     (\<forall>i \<in> set (incidents s). \<forall>t \<in> set (timers s). timer_fits i t)"

lemma incidents_okD:
  assumes "incidents_ok s"
  shows "distinct (map t_id (topics s))" "distinct (map i_id (incidents s))"
    "distinct (map i_topic_id (filter active (incidents s)))" "distinct (map tm_id (timers s))"
    "distinct (map timer_key (timers s))"
    "i \<in> set (incidents s) \<Longrightarrow> i_topic_id i \<in> t_id ` set (topics s)"
    "t \<in> set (timers s) \<Longrightarrow> tm_incident_id t \<in> i_id ` set (incidents s)"
    "i \<in> set (incidents s) \<Longrightarrow> kinds_of (timers s) (i_id i) = expected_kinds (i_state i)"
    "i \<in> set (incidents s) \<Longrightarrow> t \<in> set (timers s) \<Longrightarrow> timer_fits i t"
  using assms by (auto simp: incidents_ok_def)

interpretation touching: keyed_update i_id "touch now" for now
  by unfold_locales (simp add: touch_def)

interpretation acking: keyed_update i_id "ack_row now" for now
  by unfold_locales (simp add: ack_row_def)

interpretation closing: keyed_update i_id "close_row now" for now
  by unfold_locales (simp add: close_row_def)

interpretation expiring: keyed_update i_id "expire_row now" for now
  by unfold_locales (simp add: expire_row_def)

interpretation reopening: keyed_update i_id "reopen_row now" for now
  by unfold_locales (simp add: reopen_row_def)

lemma kinds_of_simps [simp]:
  "kinds_of [] inc = {}"
  "kinds_of (xs @ ys) inc = kinds_of xs inc \<union> kinds_of ys inc"
  "kinds_of (t # ts) inc = (if tm_incident_id t = inc then {tm_kind t} else {}) \<union> kinds_of ts inc"
  by (auto simp: kinds_of_def)

lemma kinds_ofI: "t \<in> set tms \<Longrightarrow> tm_incident_id t = inc \<Longrightarrow> tm_kind t \<in> kinds_of tms inc"
  by (auto simp: kinds_of_def)

lemma kinds_ofE:
  assumes "k \<in> kinds_of tms inc"
  obtains t where "t \<in> set tms" "tm_incident_id t = inc" "tm_kind t = k"
  using assms by (auto simp: kinds_of_def)

lemma kinds_of_cleared:
  "kinds_of (del_where (\<lambda>t. tm_incident_id t = inc) tms) inc' = (if inc' = inc then {} else kinds_of tms inc')"
  by (auto simp: kinds_of_def table_simps)

text \<open>Every transition of an incident that is in the table has one shape: rewrite the row, drop
  its timers, and give it those its new state expects.\<close>

definition transition :: "ident \<Rightarrow> (incident_row \<Rightarrow> incident_row) \<Rightarrow> timer_row list \<Rightarrow> db \<Rightarrow> db" where
  "transition inc f ts s =
     s\<lparr>incidents := upd_where (\<lambda>i. i_id i = inc) f (incidents s),
       timers := del_where (\<lambda>t. tm_incident_id t = inc) (timers s) @ ts\<rparr>"

lemma transition_ok:
  assumes ok: "incidents_ok s" and row: "i \<in> set (incidents s)" "i_id i = inc"
    and keeps: "i_id (f i) = inc" "i_topic_id (f i) = i_topic_id i" "active i"
    and fresh: "tm_id ` set ts \<inter> tm_id ` set (timers s) = {}" "distinct (map tm_id ts)"
    and ts: "\<forall>t \<in> set ts. tm_incident_id t = inc" "distinct (map tm_kind ts)"
      "tm_kind ` set ts = expected_kinds (i_state (f i))" "\<forall>t \<in> set ts. timer_fits (f i) t"
  shows "incidents_ok (transition inc f ts s)"
proof -
  note okD = incidents_okD[OF ok]
  have only: "r = i" if "r \<in> set (incidents s)" "i_id r = inc" for r
    using distinct_map_unique[OF okD(2)] that row by simp
  have ids: "map i_id (upd_where (\<lambda>i. i_id i = inc) f (incidents s)) = map i_id (incidents s)"
    by (rule map_upd_where) (metis only keeps(1))
  have act: "distinct (map i_topic_id (filter active (upd_where (\<lambda>i. i_id i = inc) f (incidents s))))"
    by (rule distinct_filter_map_upd[OF okD(3)]) (metis only keeps(2,3))+
  have kinds: "kinds_of ts inc' = (if inc' = inc then expected_kinds (i_state (f i)) else {})" for inc'
  proof -
    have "{t \<in> set ts. tm_incident_id t = inc'} = (if inc' = inc then set ts else {})"
      using ts(1) by auto
    then show ?thesis using ts(3) by (simp add: kinds_of_def)
  qed
  have rows: "r' \<in> set (upd_where (\<lambda>i. i_id i = inc) f (incidents s)) \<longleftrightarrow>
      (r' = f i \<or> (r' \<in> set (incidents s) \<and> i_id r' \<noteq> inc))" for r'
    unfolding set_upd_where image_iff using only row by metis
  have keys: "distinct (map timer_key (del_where (\<lambda>t. tm_incident_id t = inc) (timers s) @ ts))"
  proof -
    have "distinct (map timer_key ts)"
      using ts by (auto simp: distinct_map timer_key_def inj_on_def)
    then show ?thesis
      using okD(5) ts by (auto simp: distinct_map_del_where table_simps timer_key_def)
  qed
  have tmid: "distinct (map tm_id (del_where (\<lambda>t. tm_incident_id t = inc) (timers s) @ ts))"
    using okD(4) fresh by (auto simp: distinct_map_del_where table_simps)
  have fits: "timer_fits r t" if "t \<in> set ts" "i_id r \<noteq> inc" for r t
    using that ts by (auto simp: timer_fits_def)
  have fits': "timer_fits (f i) t" if "tm_incident_id t \<noteq> inc" for t
    using that keeps by (auto simp: timer_fits_def)
  let ?I = "upd_where (\<lambda>i. i_id i = inc) f (incidents s)"
  let ?T = "del_where (\<lambda>t. tm_incident_id t = inc) (timers s) @ ts"
  have tops: "\<forall>r \<in> set ?I. i_topic_id r \<in> t_id ` set (topics s)"
    using okD(6) rows keeps row by metis
  have idset: "i_id ` set ?I = i_id ` set (incidents s)"
    using ids by (metis set_map)
  have fk: "\<forall>t \<in> set ?T. tm_incident_id t \<in> i_id ` set ?I"
    unfolding idset using okD(7) ts row by (auto simp: table_simps)
  have ks: "\<forall>r \<in> set ?I. kinds_of ?T (i_id r) = expected_kinds (i_state r)"
  proof
    fix r assume "r \<in> set ?I"
    then consider "r = f i" | "r \<in> set (incidents s)" "i_id r \<noteq> inc" using rows by blast
    then show "kinds_of ?T (i_id r) = expected_kinds (i_state r)"
      by cases (simp_all add: kinds_of_cleared kinds keeps okD(8))
  qed
  have tf: "\<forall>r \<in> set ?I. \<forall>t \<in> set ?T. timer_fits r t"
  proof (intro ballI)
    fix r t assume "r \<in> set ?I" and t: "t \<in> set ?T"
    then consider "r = f i" | "r \<in> set (incidents s)" "i_id r \<noteq> inc" using rows by blast
    then show "timer_fits r t"
      using t ts(4) by cases (auto simp: table_simps fits fits' okD(9))
  qed
  show ?thesis
    unfolding incidents_ok_def transition_def
    using okD(1,2) act keys tmid ids tops fk ks tf by simp
qed

text \<open>Tables the machine does not read do not matter to the invariant.\<close>

lemma incidents_ok_frame:
  "topics s' = topics s \<Longrightarrow> incidents s' = incidents s \<Longrightarrow> timers s' = timers s \<Longrightarrow> incidents_ok s' = incidents_ok s"
  by (simp add: incidents_ok_def)

lemma timers_ops [frame_simps]:
  "timers (insert_timer tid inc k at s) = timers s @ [\<lparr>tm_id = tid, tm_incident_id = inc, tm_kind = k, tm_fire_at = at\<rparr>]"
  "timers (clear_timers inc s) = del_where (\<lambda>t. tm_incident_id t = inc) (timers s)"
  "timers (set_incident inc f s) = timers s"
  "timers (delete_timer tid s) = del_where (\<lambda>t. tm_id t = tid) (timers s)"
  "incidents (insert_timer tid inc k at s) = incidents s"
  "incidents (clear_timers inc s) = incidents s"
  "incidents (set_incident inc f s) = upd_where (\<lambda>i. i_id i = inc) f (incidents s)"
  "incidents (delete_timer tid s) = incidents s"
  "topics (insert_timer tid inc k at s) = topics s"
  "topics (clear_timers inc s) = topics s"
  "topics (set_incident inc f s) = topics s"
  "topics (delete_timer tid s) = topics s"
  "messages (insert_timer tid inc k at s) = messages s"
  "messages (clear_timers inc s) = messages s"
  "messages (set_incident inc f s) = messages s"
  "messages (delete_timer tid s) = messages s"
  by (simp_all add: insert_timer_def clear_timers_def set_incident_def delete_timer_def)

lemma incident_of_in: "incident_of s inc = Some i \<Longrightarrow> i \<in> set (incidents s) \<and> i_id i = inc"
  unfolding incident_of_def by (rule find_SomeD)

lemma incident_of_known: "incidents_ok s \<Longrightarrow> i \<in> set (incidents s) \<Longrightarrow> incident_of s (i_id i) = Some i"
  unfolding incident_of_def using find_key[OF incidents_okD(2)] by simp

lemma topic_of_in: "topic_of s i = Some t \<Longrightarrow> t \<in> set (topics s) \<and> t_id t = i_topic_id i"
  unfolding topic_of_def by (rule find_SomeD)

lemma topic_of_known:
  assumes "incidents_ok s" "i \<in> set (incidents s)"
  obtains t where "topic_of s i = Some t"
proof -
  from incidents_okD(6)[OF assms] obtain t where t: "t \<in> set (topics s)" "t_id t = i_topic_id i" by auto
  then have "topic_of s i \<noteq> None" by (auto simp: topic_of_def find_None_iff)
  then show thesis using that by blast
qed

lemma incidents_ok_empty: "incidents_ok empty_db"
  by (simp add: incidents_ok_def empty_db_def)

lemma active_of_topic_in:
  "active_of_topic s tid = Some i \<Longrightarrow> i \<in> set (incidents s) \<and> i_topic_id i = tid \<and> active i"
  unfolding active_of_topic_def using find_SomeD by fastforce

lemma active_of_topic_none:
  "active_of_topic s tid = None \<Longrightarrow> i \<in> set (incidents s) \<Longrightarrow> active i \<Longrightarrow> i_topic_id i \<noteq> tid"
  unfolding active_of_topic_def using find_NoneD by fastforce

text \<open>A publication that opens: a new row with the two timers an open incident has.\<close>

lemma open_ok:
  assumes ok: "incidents_ok s" and i: "i_id i \<notin> i_id ` set (incidents s)" "i_state i = Open"
    and none: "active_of_topic s (i_topic_id i) = None" and top: "i_topic_id i \<in> t_id ` set (topics s)"
    and fresh: "t1 \<notin> tm_id ` set (timers s)" "t2 \<notin> tm_id ` set (timers s)" "t1 \<noteq> t2"
    and e: "e = i_opened_at i + i_max_ring_s i"
  shows "incidents_ok (insert_timer t2 (i_id i) ExpireT e (insert_timer t1 (i_id i) RepeatT r (s\<lparr>incidents := incidents s @ [i]\<rparr>)))"
proof -
  note okD = incidents_okD[OF ok]
  have old: "tm_incident_id t \<noteq> i_id i" if "t \<in> set (timers s)" for t
    using okD(7)[OF that] i(1) by auto
  then have nok: "kinds_of (timers s) (i_id i) = {}"
    by (simp add: kinds_of_def)
  have act: "distinct (map i_topic_id (filter active (incidents s @ [i])))"
  proof -
    have "i_topic_id i \<notin> i_topic_id ` set (filter active (incidents s))"
      using active_of_topic_none[OF none] by fastforce
    then show ?thesis using okD(3) by auto
  qed
  have ne: "i_id j \<noteq> i_id i" if "j \<in> set (incidents s)" for j
    using that i(1) by (metis imageI)
  have ne': "i_id i \<noteq> i_id j" if "j \<in> set (incidents s)" for j
    using ne[OF that] by simp
  have keys: "distinct (map timer_key (timers s @ [\<lparr>tm_id = t1, tm_incident_id = i_id i, tm_kind = RepeatT, tm_fire_at = r\<rparr>,
      \<lparr>tm_id = t2, tm_incident_id = i_id i, tm_kind = ExpireT, tm_fire_at = e\<rparr>]))"
  proof -
    have "(i_id i, k) \<notin> timer_key ` set (timers s)" for k
      using old by (force simp: timer_key_def)
    then show ?thesis using okD(5) by (simp add: timer_key_def[of "\<lparr>tm_id = a, tm_incident_id = b, tm_kind = c, tm_fire_at = d\<rparr>" for a b c d])
  qed
  show ?thesis
    unfolding incidents_ok_def
  proof (intro conjI)
    show "\<forall>j\<in>set (incidents (insert_timer t2 (i_id i) ExpireT e (insert_timer t1 (i_id i) RepeatT r
            (s\<lparr>incidents := incidents s @ [i]\<rparr>)))).
          \<forall>t\<in>set (timers (insert_timer t2 (i_id i) ExpireT e (insert_timer t1 (i_id i) RepeatT r
            (s\<lparr>incidents := incidents s @ [i]\<rparr>)))). timer_fits j t"
      using okD(9) old ne ne' e by (auto simp: frame_simps timer_fits_def)
  qed (use okD(1-8) act keys fresh i top nok ne in \<open>auto simp: frame_simps\<close>)
qed

lemma touch_ok:
  assumes ok: "incidents_ok s" shows "incidents_ok (set_incident inc (touch now) s)"
proof -
  note okD = incidents_okD[OF ok]
  have same: "i_topic_id (touch now i) = i_topic_id i" "i_state (touch now i) = i_state i"
    "i_opened_at (touch now i) = i_opened_at i" "i_max_ring_s (touch now i) = i_max_ring_s i"
    "i_id (touch now i) = i_id i" "active (touch now i) = active i" for i
    by (simp_all add: touch_def active_def)
  have act: "distinct (map i_topic_id (filter active (upd_where (\<lambda>i. i_id i = inc) (touch now) (incidents s))))"
    by (rule distinct_filter_map_upd[OF okD(3)]) (simp_all add: same)
  have rows: "\<exists>i \<in> set (incidents s). i_id r = i_id i \<and> i_topic_id r = i_topic_id i \<and> i_state r = i_state i \<and>
      i_opened_at r = i_opened_at i \<and> i_max_ring_s r = i_max_ring_s i"
    if "r \<in> set (upd_where (\<lambda>i. i_id i = inc) (touch now) (incidents s))" for r
    using that same by (auto simp: table_simps)
  have ids: "i_id ` set (upd_where (\<lambda>i. i_id i = inc) (touch now) (incidents s)) = i_id ` set (incidents s)"
    using touching.keys_upd[of "\<lambda>i. i_id i = inc" now "incidents s"] by (metis set_map)
  show ?thesis
    unfolding incidents_ok_def
  proof (intro conjI)
    show "\<forall>i\<in>set (incidents (set_incident inc (touch now) s)).
        \<forall>t\<in>set (timers (set_incident inc (touch now) s)). timer_fits i t"
    proof (intro ballI)
      fix i t assume a: "i \<in> set (incidents (set_incident inc (touch now) s))"
        and t: "t \<in> set (timers (set_incident inc (touch now) s))"
      from rows[of i] a obtain j where "j \<in> set (incidents s)" "i_id i = i_id j"
        "i_opened_at i = i_opened_at j" "i_max_ring_s i = i_max_ring_s j"
        by (auto simp: frame_simps)
      then show "timer_fits i t" using okD(9)[of j t] t by (simp add: frame_simps timer_fits_def)
    qed
    show "\<forall>i\<in>set (incidents (set_incident inc (touch now) s)).
        kinds_of (timers (set_incident inc (touch now) s)) (i_id i) = expected_kinds (i_state i)"
      using rows okD(8) by (auto simp: frame_simps) (metis+)
    show "\<forall>i\<in>set (incidents (set_incident inc (touch now) s)).
        i_topic_id i \<in> t_id ` set (topics (set_incident inc (touch now) s))"
      using rows okD(6) by (auto simp: frame_simps) (metis)
  qed (use okD act ids touching.keys_upd in \<open>simp_all add: frame_simps\<close>)
qed

lemma publish_critical_ok:
  assumes "incidents_ok s" "cp_topic_id p \<in> t_id ` set (topics s)"
    and "n_incident ids \<notin> i_id ` set (incidents s)"
    and "n_timer1 ids \<notin> tm_id ` set (timers s)" "n_timer2 ids \<notin> tm_id ` set (timers s)" "n_timer1 ids \<noteq> n_timer2 ids"
  shows "incidents_ok (fst (publish_critical now ids p s))"
proof (cases "active_of_topic s (cp_topic_id p)")
  case None
  with assms show ?thesis
    using open_ok[of s "new_incident now ids p" "n_timer1 ids" "n_timer2 ids" "now + cp_max_ring_s p" "now + cp_repeat_interval_s p"]
    by (simp add: publish_critical_def Let_def new_incident_def) (simp add: incidents_ok_def)
next
  case (Some i)
  have "incidents_ok (set_incident (i_id i) (touch now) s)" by (rule touch_ok[OF assms(1)])
  with Some show ?thesis by (simp add: publish_critical_def Let_def) (simp add: incidents_ok_def)
qed

lemma scoped_incident_in:
  assumes "scoped_incident s acc inc = Inr (i, t)"
  shows "i \<in> set (incidents s)" "i_id i = inc" "t \<in> set (topics s)" "t_id t = i_topic_id i" "t_account_id t = acc"
  using assms topic_of_in
  by (auto simp: scoped_incident_def scoped_incident_or_null_def dest!: find_SomeD split: option.splits if_splits)

lemma acknowledge_cases:
  assumes "acknowledge now tid acc inc s = Inr (s', i', evs)"
  obtains i t where "scoped_incident s acc inc = Inr (i, t)" "i_state i = Open"
    "s' = transition inc (ack_row now) [\<lparr>tm_id = tid, tm_incident_id = inc, tm_kind = DeskT, tm_fire_at = now + t_desk_timer_s t\<rparr>] s"
    "i' = i\<lparr>i_state := Acked, i_acked_at := Some now\<rparr>"
    "evs = [timer_event EvAck (i, t) (i_opened_at i) s']"
  using assms
  by (auto simp: acknowledge_def Let_def insert_timer_def clear_timers_def set_incident_def transition_def
      split: sum.splits prod.splits if_splits)

lemma close_cases:
  assumes "close_incident now acc inc s = Inr (s', i', evs)"
  obtains i t where "scoped_incident s acc inc = Inr (i, t)" "i_state i = Acked"
    "s' = transition inc (close_row now) [] s"
    "i' = i\<lparr>i_state := Closed, i_closed_at := Some now\<rparr>"
    "evs = [timer_event EvClose (i, t) (i_opened_at i) s']"
  using assms
  by (auto simp: close_incident_def Let_def clear_timers_def set_incident_def transition_def
      split: sum.splits prod.splits if_splits)

lemma acknowledge_ok:
  assumes "incidents_ok s" "acknowledge now tid acc inc s = Inr (s', i', evs)" "tid \<notin> tm_id ` set (timers s)"
  shows "incidents_ok s'"
proof -
  from assms(2) obtain i t where c: "scoped_incident s acc inc = Inr (i, t)" "i_state i = Open"
    "s' = transition inc (ack_row now) [\<lparr>tm_id = tid, tm_incident_id = inc, tm_kind = DeskT, tm_fire_at = now + t_desk_timer_s t\<rparr>] s"
    by (rule acknowledge_cases)
  show ?thesis
    unfolding c(3) using scoped_incident_in[OF c(1)] assms(3) c(2)
    by (intro transition_ok[OF assms(1), of i]) (auto simp: ack_row_def active_def timer_fits_def)
qed

lemma close_ok:
  assumes "incidents_ok s" "close_incident now acc inc s = Inr (s', i', evs)"
  shows "incidents_ok s'"
proof -
  from assms(2) obtain i t where c: "scoped_incident s acc inc = Inr (i, t)" "i_state i = Acked"
    "s' = transition inc (close_row now) [] s"
    by (rule close_cases)
  show ?thesis
    unfolding c(3) using scoped_incident_in[OF c(1)] c(2)
    by (intro transition_ok[OF assms(1), of i]) (auto simp: close_row_def active_def)
qed

subsection \<open>What one timer does\<close>

text \<open>The effect of one timer on the row of its incident, and the event it raises.\<close>

definition row_effect :: "seconds \<Rightarrow> timer_kind \<Rightarrow> incident_row \<Rightarrow> incident_row" where
  "row_effect now k i =
     (case k of ExpireT \<Rightarrow> if i_state i = Open then expire_row now i else i
      | DeskT \<Rightarrow> if i_state i = Acked then reopen_row now i else i
      | RepeatT \<Rightarrow> i)"

definition timer_applies :: "timer_kind \<Rightarrow> incident_state \<Rightarrow> bool" where
  "timer_applies k st \<longleftrightarrow> k \<in> expected_kinds st"

fun kind_event :: "timer_kind \<Rightarrow> event_kind" where
  "kind_event ExpireT = EvExpire"
| "kind_event DeskT = EvReopen"
| "kind_event RepeatT = EvRepeat"

lemma row_effect_id [simp]: "i_id (row_effect now k i) = i_id i"
  by (simp add: row_effect_def expire_row_def reopen_row_def split: timer_kind.split)

interpretation effect: keyed_update i_id "row_effect now k" for now k
  by unfold_locales simp

lemma incident_of_set_incident:
  "incident_of (s\<lparr>incidents := upd_where (\<lambda>i. i_id i = inc) (row_effect now k) (incidents s)\<rparr>) inc' =
     (if inc' = inc then map_option (row_effect now k) (incident_of s inc') else incident_of s inc')"
  by (simp add: incident_of_def effect.find_upd effect.find_upd_other)

lemma incident_of_cong: "incidents s' = incidents s \<Longrightarrow> incident_of s' inc = incident_of s inc"
  by (simp add: incident_of_def)

lemma incidents_process_timer:
  "distinct (map i_id (incidents s)) \<Longrightarrow>
   incidents (fst (process_timer now ids r s)) =
     upd_where (\<lambda>i. i_id i = i_id (fst (snd r))) (row_effect now (tm_kind (fst r))) (incidents s)"
proof -
  assume d: "distinct (map i_id (incidents s))"
  let ?inc = "i_id (fst (snd r))" and ?k = "tm_kind (fst r)"
  show ?thesis
  proof (cases "incident_of s ?inc")
    case None
    then have "upd_where (\<lambda>i. i_id i = ?inc) (row_effect now ?k) (incidents s) = incidents s"
      by (intro upd_where_none) (auto simp: incident_of_def dest: find_NoneD)
    with None show ?thesis by (simp add: process_timer_def Let_def)
  next
    case (Some cur)
    have only: "i = cur" if "i \<in> set (incidents s)" "i_id i = ?inc" for i
      using distinct_map_unique[OF d] that incident_of_in[OF Some] by simp
    have cong: "upd_where (\<lambda>i. i_id i = ?inc) f (incidents s) = upd_where (\<lambda>i. i_id i = ?inc) g (incidents s)"
      if "f cur = g cur" for f g
      unfolding upd_where_def using only that by (intro map_cong refl) metis
    have same: "upd_where (\<lambda>i. i_id i = ?inc) f (incidents s) = incidents s" if "f cur = cur" for f
      unfolding upd_where_def using only that by (intro map_idI) metis
    show ?thesis
      using Some by (cases ?k)
        (auto simp: process_timer_def Let_def frame_simps row_effect_def intro!: cong same same[symmetric])
  qed
qed

lemma incident_of_process_timer:
  "distinct (map i_id (incidents s)) \<Longrightarrow>
   incident_of (fst (process_timer now ids r s)) inc =
     (if inc = i_id (fst (snd r)) then map_option (row_effect now (tm_kind (fst r))) (incident_of s inc)
      else incident_of s inc)"
  using incident_of_set_incident[where s = s and inc = "i_id (fst (snd r))" and now = now and k = "tm_kind (fst r)" and inc' = inc]
  by (simp add: incident_of_def incidents_process_timer)

lemma topics_process_timer [frame_simps]: "topics (fst (process_timer now ids r s)) = topics s"
  by (auto simp: process_timer_def Let_def frame_simps split: option.split timer_kind.split)

lemma messages_process_timer [frame_simps]: "messages (fst (process_timer now ids r s)) = messages s"
  by (auto simp: process_timer_def Let_def frame_simps split: option.split timer_kind.split)

lemma timer_event_cong: "messages s' = messages s \<Longrightarrow> timer_event k r opened s' = timer_event k r opened s"
  by (simp add: timer_event_def latest_message_def Let_def)

text \<open>A timer speaks exactly when its kind is one the state of its incident expects.\<close>

lemma event_process_timer:
  "snd (process_timer now ids r s) =
     (case incident_of s (i_id (fst (snd r))) of None \<Rightarrow> None
      | Some cur \<Rightarrow> if timer_applies (tm_kind (fst r)) (i_state cur)
          then Some (timer_event (kind_event (tm_kind (fst r))) (snd r)
                      (if tm_kind (fst r) = DeskT then now else i_opened_at (fst (snd r))) s)
          else None)"
proof (cases "incident_of s (i_id (fst (snd r)))")
  case (Some cur)
  then show ?thesis
    by (cases "tm_kind (fst r)"; cases "i_state cur")
      (auto simp: process_timer_def Let_def timer_applies_def frame_simps intro!: timer_event_cong)
qed (simp add: process_timer_def)

text \<open>A row of the scan still names a timer of the table, unless that timer is gone.\<close>

definition row_current :: "db \<Rightarrow> due_row \<Rightarrow> bool" where
  "row_current s r \<longleftrightarrow> i_id (fst (snd r)) = tm_incident_id (fst r) \<and>
     (\<forall>x \<in> set (timers s). tm_id x = tm_id (fst r) \<longrightarrow>
        tm_incident_id x = tm_incident_id (fst r) \<and> tm_kind x = tm_kind (fst r))"

lemma reschedule_ok:
  assumes ok: "incidents_ok s" and rep: "\<And>x. x \<in> set (timers s) \<Longrightarrow> tm_id x = tid \<Longrightarrow> tm_kind x = RepeatT"
  shows "incidents_ok (s\<lparr>timers := upd_where (\<lambda>x. tm_id x = tid) (\<lambda>x. x\<lparr>tm_fire_at := at\<rparr>) (timers s)\<rparr>)"
proof -
  let ?T = "upd_where (\<lambda>x. tm_id x = tid) (\<lambda>x. x\<lparr>tm_fire_at := at\<rparr>) (timers s)"
  note okD = incidents_okD[OF ok]
  have maps: "map tm_id ?T = map tm_id (timers s)" "map timer_key ?T = map timer_key (timers s)"
    by (auto intro!: map_upd_where simp: timer_key_def)
  have rows: "\<exists>x \<in> set (timers s). tm_incident_id t = tm_incident_id x \<and> tm_kind t = tm_kind x \<and>
      (tm_fire_at t = tm_fire_at x \<or> tm_kind x = RepeatT)" if "t \<in> set ?T" for t
    using that rep by (auto simp: table_simps split: if_splits)
  have kinds: "kinds_of ?T inc = kinds_of (timers s) inc" for inc
  proof -
    have "kinds_of ?T inc = {k. (inc, k) \<in> set (map timer_key ?T)}"
      by (force simp: kinds_of_def timer_key_def)
    also have "\<dots> = kinds_of (timers s) inc"
      unfolding maps by (force simp: kinds_of_def timer_key_def)
    finally show ?thesis .
  qed
  have fk: "\<forall>t \<in> set ?T. tm_incident_id t \<in> i_id ` set (incidents s)"
    using rows okD(7) by metis
  have fits: "timer_fits i t" if "i \<in> set (incidents s)" "t \<in> set ?T" for i t
    using rows[OF that(2)] okD(9)[OF that(1)] by (auto simp: timer_fits_def)
  show ?thesis
    unfolding incidents_ok_def using okD(1-6,8) maps kinds fk fits by simp
qed

lemma stale_delete:
  assumes ok: "incidents_ok s" and r: "row_current s r" and cur: "incident_of s (i_id (fst (snd r))) = Some cur"
    and no: "\<not> timer_applies (tm_kind (fst r)) (i_state cur)"
  shows "delete_timer (tm_id (fst r)) s = s"
proof -
  have "tm_id x \<noteq> tm_id (fst r)" if x: "x \<in> set (timers s)" for x
  proof
    assume "tm_id x = tm_id (fst r)"
    with r x incident_of_in[OF cur] have "tm_incident_id x = i_id cur" "tm_kind x = tm_kind (fst r)"
      by (auto simp: row_current_def)
    with x have "tm_kind (fst r) \<in> kinds_of (timers s) (i_id cur)"
      using kinds_ofI by metis
    with no show False
      using incidents_okD(8)[OF ok, of cur] incident_of_in[OF cur] by (simp add: timer_applies_def)
  qed
  then have "del_where (\<lambda>t. tm_id t = tm_id (fst r)) (timers s) = timers s"
    by (intro del_where_none) simp
  then show ?thesis by (simp add: delete_timer_def)
qed

lemma process_timer_ok:
  assumes ok: "incidents_ok s" and r: "row_current s r"
    and fresh: "fst ids \<notin> tm_id ` set (timers s)" "snd ids \<notin> tm_id ` set (timers s)" "fst ids \<noteq> snd ids"
  shows "incidents_ok (fst (process_timer now ids r s))"
proof (cases "incident_of s (i_id (fst (snd r)))")
  case None
  with ok show ?thesis by (simp add: process_timer_def)
next
  case (Some cur)
  note cur = incident_of_in[OF Some]
  obtain tm i0 t where rr: "r = (tm, i0, t)" by (cases r) auto
  show ?thesis
  proof (cases "timer_applies (tm_kind tm) (i_state cur)")
    case False
    then have "fst (process_timer now ids r s) = delete_timer (tm_id tm) s"
      using Some rr by (cases "tm_kind tm"; cases "i_state cur") (auto simp: process_timer_def Let_def timer_applies_def)
    then show ?thesis using stale_delete[OF ok r Some] False ok rr by simp
  next
    case True
    show ?thesis
    proof (cases "tm_kind tm")
      case ExpireT
      then have "fst (process_timer now ids r s) = transition (i_id i0) (expire_row now) [] s"
        using True Some rr by (cases "i_state cur")
          (auto simp: process_timer_def Let_def timer_applies_def transition_def clear_timers_def set_incident_def)
      then show ?thesis
        using True ExpireT cur rr
        by (cases "i_state cur") (auto simp: timer_applies_def expire_row_def active_def intro!: transition_ok[OF ok, of cur])
    next
      case DeskT
      then have "fst (process_timer now ids r s) = transition (i_id i0) (reopen_row now)
          [\<lparr>tm_id = fst ids, tm_incident_id = i_id i0, tm_kind = RepeatT, tm_fire_at = now + t_repeat_interval_s t\<rparr>,
           \<lparr>tm_id = snd ids, tm_incident_id = i_id i0, tm_kind = ExpireT, tm_fire_at = now + i_max_ring_s cur\<rparr>] s"
        using True Some rr by (cases "i_state cur")
          (auto simp: process_timer_def Let_def timer_applies_def transition_def clear_timers_def set_incident_def insert_timer_def)
      then show ?thesis
        using True DeskT cur rr fresh
        by (cases "i_state cur")
          (auto simp: timer_applies_def reopen_row_def active_def timer_fits_def intro!: transition_ok[OF ok, of cur])
    next
      case RepeatT
      then have "fst (process_timer now ids r s) = s\<lparr>timers := upd_where (\<lambda>x. tm_id x = tm_id tm)
          (\<lambda>x. x\<lparr>tm_fire_at := now + t_repeat_interval_s t\<rparr>) (timers s)\<rparr>"
        using True Some rr by (cases "i_state cur") (auto simp: process_timer_def Let_def timer_applies_def)
      then show ?thesis
        using r rr RepeatT by (simp add: row_current_def) (intro reschedule_ok[OF ok], auto)
    qed
  qed
qed

text \<open>The identifiers a scan draws: all different, and none of them in the table before.\<close>

definition fresh_supply :: "(nat \<Rightarrow> ident \<times> ident) \<Rightarrow> ident set \<Rightarrow> bool" where
  "fresh_supply ids A \<longleftrightarrow>
     (\<forall>j. fst (ids j) \<noteq> snd (ids j) \<and> fst (ids j) \<notin> A \<and> snd (ids j) \<notin> A) \<and>
     (\<forall>j k. j \<noteq> k \<longrightarrow> {fst (ids j), snd (ids j)} \<inter> {fst (ids k), snd (ids k)} = {})"

definition drawn :: "(nat \<Rightarrow> ident \<times> ident) \<Rightarrow> nat \<Rightarrow> ident set" where
  "drawn ids k = (\<Union>j \<in> {..<k}. {fst (ids j), snd (ids j)})"

lemma fresh_supply_new:
  assumes "fresh_supply ids A" shows "fst (ids k) \<notin> A \<union> drawn ids k" "snd (ids k) \<notin> A \<union> drawn ids k" "fst (ids k) \<noteq> snd (ids k)"
  using assms by (auto simp: fresh_supply_def drawn_def)

lemma timers_process_timer:
  "x \<in> set (timers (fst (process_timer now ids r s))) \<Longrightarrow>
     (\<exists>y \<in> set (timers s). tm_id x = tm_id y \<and> tm_incident_id x = tm_incident_id y \<and> tm_kind x = tm_kind y) \<or>
     tm_id x \<in> {fst ids, snd ids}"
  by (auto simp: process_timer_def Let_def frame_simps table_simps split: option.splits timer_kind.splits if_splits)
    metis

lemma row_current_process_timer:
  assumes "row_current s r'" "tm_id (fst r') \<notin> {fst ids, snd ids}"
  shows "row_current (fst (process_timer now ids r s)) r'"
  using assms timers_process_timer[of _ now ids r s] unfolding row_current_def by metis

lemma process_due_ok:
  assumes "incidents_ok s" "\<forall>r \<in> set rs. row_current s r \<and> tm_id (fst r) \<in> A"
    and "fresh_supply ids A" "tm_id ` set (timers s) \<subseteq> A \<union> drawn ids k"
  shows "incidents_ok (fst (process_due clk ids k rs s))"
  using assms
proof (induction clk ids k rs s rule: process_due.induct)
  case (2 clk ids k r rs s)
  let ?s1 = "fst (process_timer (clk k) (ids k) r s)"
  note fresh = fresh_supply_new[OF 2(4), of k]
  have "incidents_ok ?s1"
    using 2(2,3,5) fresh by (intro process_timer_ok) auto
  moreover have "\<forall>r' \<in> set rs. row_current ?s1 r' \<and> tm_id (fst r') \<in> A"
    using 2(3) fresh by (auto intro!: row_current_process_timer)
  moreover have "tm_id ` set (timers ?s1) \<subseteq> A \<union> drawn ids (Suc k)"
    using timers_process_timer[of _ "clk k" "ids k" r s] 2(5)
    by (fastforce simp: drawn_def lessThan_Suc)
  ultimately show ?case
    using 2(1)[OF prod.collapse] 2(4)
    by (simp add: case_prod_beta)
qed simp

lemma due_rows_in:
  assumes "r \<in> set (due_rows now s)"
  shows "fst r \<in> set (timers s)" "tm_fire_at (fst r) \<le> now"
    "incident_of s (tm_incident_id (fst r)) = Some (fst (snd r))" "topic_of s (fst (snd r)) = Some (snd (snd r))"
  using assms by (auto simp: due_rows_def joined_timers_def split: option.splits)

lemma due_rows_current:
  "incidents_ok s \<Longrightarrow> r \<in> set (due_rows now s) \<Longrightarrow> row_current s r"
  using due_rows_in[of r now s] incident_of_in distinct_map_unique[OF incidents_okD(4)]
  by (fastforce simp: row_current_def)

lemma scan_due_ok:
  assumes "incidents_ok s" "fresh_supply ids (tm_id ` set (timers s))"
  shows "incidents_ok (fst (scan_due clk ids s))"
  unfolding scan_due_def
  using assms due_rows_current[OF assms(1)] due_rows_in(1)
  by (intro process_due_ok[where A = "tm_id ` set (timers s)"]) auto

subsection \<open>What one scan does to one incident\<close>

text \<open>The rows of the scan that belong to one incident decide its fate; rows of other incidents do
  not touch it. \<open>own_kinds\<close> are their kinds in the order of the scan.\<close>

definition own_kinds :: "ident \<Rightarrow> due_row list \<Rightarrow> timer_kind list" where
  "own_kinds inc rs = map (\<lambda>r. tm_kind (fst r)) (filter (\<lambda>r. i_id (fst (snd r)) = inc) rs)"

fun next_state :: "timer_kind \<Rightarrow> incident_state \<Rightarrow> incident_state" where
  "next_state ExpireT Open = Expired"
| "next_state DeskT Acked = Open"
| "next_state k st = st"

fun spoken_kinds :: "timer_kind list \<Rightarrow> incident_state \<Rightarrow> event_kind list" where
  "spoken_kinds [] st = []"
| "spoken_kinds (k # ks) st =
     (if timer_applies k st then kind_event k # spoken_kinds ks (next_state k st) else spoken_kinds ks st)"

lemma state_row_effect [simp]: "i_state (row_effect now k i) = next_state k (i_state i)"
  by (cases k; cases "i_state i") (simp_all add: row_effect_def expire_row_def reopen_row_def)

lemma not_applies_next [simp]: "\<not> timer_applies k st \<Longrightarrow> next_state k st = st"
  by (cases k; cases st) (simp_all add: timer_applies_def)

lemma distinct_process_timer:
  "distinct (map i_id (incidents s)) \<Longrightarrow> distinct (map i_id (incidents (fst (process_timer now ids r s))))"
  by (simp add: incidents_process_timer effect.keys_upd)

lemma event_incident:
  "snd (process_timer now ids r s) = Some e \<Longrightarrow> e_incident_id e = Some (i_id (fst (snd r))) \<and> e_kind e = kind_event (tm_kind (fst r))"
  by (auto simp: event_process_timer timer_event_def make_event_def Let_def split: option.splits if_splits)

lemma process_due_kinds:
  "distinct (map i_id (incidents s)) \<Longrightarrow>
   map e_kind (filter (\<lambda>e. e_incident_id e = Some inc) (snd (process_due clk ids k rs s))) =
     (case incident_of s inc of None \<Rightarrow> [] | Some i \<Rightarrow> spoken_kinds (own_kinds inc rs) (i_state i))"
proof (induction clk ids k rs s rule: process_due.induct)
  case (2 clk ids k r rs s)
  obtain s1 ev where p: "process_timer (clk k) (ids k) r s = (s1, ev)" by fastforce
  have d: "distinct (map i_id (incidents s1))"
    using distinct_process_timer[OF 2(2), of "clk k" "ids k" r] p by simp
  have inc1: "incident_of s1 inc = (if inc = i_id (fst (snd r)) then map_option (row_effect (clk k) (tm_kind (fst r))) (incident_of s inc)
      else incident_of s inc)"
    using incident_of_process_timer[OF 2(2), of "clk k" "ids k" r inc] p by simp
  have ev: "ev = (case incident_of s (i_id (fst (snd r))) of None \<Rightarrow> None
      | Some cur \<Rightarrow> if timer_applies (tm_kind (fst r)) (i_state cur)
          then Some (timer_event (kind_event (tm_kind (fst r))) (snd r)
                      (if tm_kind (fst r) = DeskT then clk k else i_opened_at (fst (snd r))) s)
          else None)"
    using event_process_timer[of "clk k" "ids k" r s] unfolding p snd_conv .
  have te: "e_incident_id (timer_event a r' b s) = Some (i_id (fst r'))" "e_kind (timer_event a r' b s) = a" for a r' b
    by (simp_all add: timer_event_def make_event_def Let_def)
  note IH = 2(1)[OF p[symmetric] d]
  show ?case
  proof (cases "inc = i_id (fst (snd r))")
    case True
    then show ?thesis
      using IH inc1 by (cases "incident_of s inc") (simp_all add: p case_prod_beta own_kinds_def ev te)
  next
    case False
    have "\<And>e. ev = Some e \<Longrightarrow> e_incident_id e \<noteq> Some inc"
      using event_incident[of "clk k" "ids k" r s] p False by auto
    with False show ?thesis
      using IH inc1 p by (auto simp: case_prod_beta own_kinds_def split: option.splits)
  qed
qed (simp add: own_kinds_def split: option.splits)

text \<open>The rows a scan reads for one incident: the kinds of its timers that are due, expire first.\<close>

lemma kinds_by_rank:
  assumes "sorted (map kind_rank ks)" "distinct ks"
  shows "ks = filter (\<lambda>k. k \<in> set ks) [ExpireT, DeskT, RepeatT]"
proof -
  have inj: "inj kind_rank"
    by (auto simp: inj_def kind_rank_def split: timer_kind.splits)
  have "map kind_rank ks = map kind_rank (filter (\<lambda>k. k \<in> set ks) [ExpireT, DeskT, RepeatT])"
  proof (rule sorted_distinct_set_unique)
    show "distinct (map kind_rank ks)"
      using assms(2) inj by (auto simp: distinct_map inj_def inj_on_def)
    show "set (map kind_rank ks) = set (map kind_rank (filter (\<lambda>k. k \<in> set ks) [ExpireT, DeskT, RepeatT]))"
    proof -
      have "k \<in> set [ExpireT, DeskT, RepeatT]" for k by (cases k) auto
      then have "set ks = set (filter (\<lambda>k. k \<in> set ks) [ExpireT, DeskT, RepeatT])"
        by (simp only: set_filter) blast
      then show ?thesis by (simp only: set_map)
    qed
  qed (use assms in \<open>auto simp: kind_rank_def\<close>)
  then show ?thesis
    using inj by (simp add: inj_map_eq_map)
qed

definition due_kinds :: "seconds \<Rightarrow> db \<Rightarrow> ident \<Rightarrow> timer_kind set" where
  "due_kinds now s inc = tm_kind ` set (filter (\<lambda>t. tm_incident_id t = inc \<and> tm_fire_at t \<le> now) (timers s))"

lemma own_due_set:
  assumes "incidents_ok s"
  shows "set (own_kinds inc (due_rows now s)) = due_kinds now s inc"
proof -
  have "(tm, i, t) \<in> set (joined_timers s) \<longleftrightarrow>
      tm \<in> set (timers s) \<and> incident_of s (tm_incident_id tm) = Some i \<and> topic_of s i = Some t" for tm i t
    by (auto simp: joined_timers_def split: option.splits)
  moreover have "\<exists>i t. incident_of s (tm_incident_id tm) = Some i \<and> topic_of s i = Some t" if tm: "tm \<in> set (timers s)" for tm
  proof -
    obtain i where i: "i \<in> set (incidents s)" "i_id i = tm_incident_id tm"
      using incidents_okD(7)[OF assms tm] by auto
    moreover obtain t where "topic_of s i = Some t" using topic_of_known[OF assms i(1)] .
    ultimately show ?thesis using incident_of_known[OF assms i(1)] by auto
  qed
  ultimately show ?thesis
    unfolding own_kinds_def due_kinds_def due_rows_def
    by (auto simp: image_iff dest!: incident_of_in) (metis incident_of_in fst_conv snd_conv)+
qed

lemma own_due_kinds:
  assumes ok: "incidents_ok s"
  shows "own_kinds inc (due_rows now s) = filter (\<lambda>k. k \<in> due_kinds now s inc) [ExpireT, DeskT, RepeatT]"
proof -
  let ?P = "\<lambda>r :: due_row. i_id (fst (snd r)) = inc"
  let ?D = "filter (\<lambda>r. tm_fire_at (fst r) \<le> now) (joined_timers s)"
  have rows: "filter ?P (due_rows now s) = sort_key due_key (filter ?P ?D)"
    by (simp add: due_rows_def filter_sort)
  have "sorted (map due_key (filter ?P (due_rows now s)))"
    by (simp add: rows)
  then have sorted: "sorted (map kind_rank (own_kinds inc (due_rows now s)))"
    by (simp add: own_kinds_def sorted_map sorted_wrt_iff_nth_less due_key_def comp_def) fastforce
  have dt: "distinct (map (\<lambda>r. timer_key (fst r)) (joined_timers s))"
  proof -
    have "distinct (map (\<lambda>r. timer_key (fst r)) (concat (map (\<lambda>tm. case incident_of s (tm_incident_id tm) of None \<Rightarrow> []
             | Some i \<Rightarrow> (case topic_of s i of None \<Rightarrow> [] | Some t \<Rightarrow> [(tm, i, t)])) tms)))"
      if "distinct (map timer_key tms)" for tms
      using that by (induction tms) (auto split: option.splits)
    then show ?thesis using incidents_okD(5)[OF ok] by (simp add: joined_timers_def)
  qed
  have "distinct (map (\<lambda>r. timer_key (fst r)) (filter ?P ?D))"
    using dt by (simp add: distinct_map_filter)
  then have "distinct (map (\<lambda>r. timer_key (fst r)) (filter ?P (due_rows now s)))"
    by (simp add: rows distinct_map)
  moreover have "tm_incident_id (fst r) = inc" if "r \<in> set (filter ?P (due_rows now s))" for r
    using that due_rows_in(3)[of r now s] incident_of_in by fastforce
  ultimately have "distinct (own_kinds inc (due_rows now s))"
    by (simp add: own_kinds_def distinct_map inj_on_def timer_key_def) metis
  from kinds_by_rank[OF sorted this] show ?thesis
    by (simp add: own_due_set[OF ok])
qed

lemma due_kinds_expected:
  assumes "incidents_ok s" "i \<in> set (incidents s)"
  shows "due_kinds now s (i_id i) \<subseteq> expected_kinds (i_state i)"
  using incidents_okD(8)[OF assms] by (auto simp: due_kinds_def kinds_of_def)

lemma expire_due:
  assumes "incidents_ok s" "i \<in> set (incidents s)" "i_state i = Open"
  shows "ExpireT \<in> due_kinds now s (i_id i) \<longleftrightarrow> i_opened_at i + i_max_ring_s i \<le> now"
proof -
  have "ExpireT \<in> kinds_of (timers s) (i_id i)"
    using incidents_okD(8)[OF assms(1,2)] assms(3) by simp
  then obtain t where t: "t \<in> set (timers s)" "tm_incident_id t = i_id i" "tm_kind t = ExpireT"
    by (rule kinds_ofE)
  have "tm_fire_at x = i_opened_at i + i_max_ring_s i"
    if "x \<in> set (timers s)" "tm_incident_id x = i_id i" "tm_kind x = ExpireT" for x
    using incidents_okD(9)[OF assms(1,2) that(1)] that by (simp add: timer_fits_def)
  with t show ?thesis
    unfolding due_kinds_def by (auto simp: image_iff)
qed

text \<open>The contract of a scan, for one incident: its window decides between expiry and a repeat,
  its desk timer decides whether an acknowledged one reopens, and an ended one stays ended.\<close>

definition scan_speaks :: "seconds \<Rightarrow> db \<Rightarrow> incident_row \<Rightarrow> event_kind list" where
  "scan_speaks now s i =
     (case i_state i of
        Open \<Rightarrow> if i_opened_at i + i_max_ring_s i \<le> now then [EvExpire]
                else if RepeatT \<in> due_kinds now s (i_id i) then [EvRepeat] else []
      | Acked \<Rightarrow> if DeskT \<in> due_kinds now s (i_id i) then [EvReopen] else []
      | Closed \<Rightarrow> [] | Expired \<Rightarrow> [])"

lemma spoken_due:
  assumes ok: "incidents_ok s" "i \<in> set (incidents s)"
  shows "spoken_kinds (own_kinds (i_id i) (due_rows now s)) (i_state i) = scan_speaks now s i"
  using due_kinds_expected[OF ok] expire_due[OF ok] own_due_kinds[OF ok(1), of "i_id i"]
  by (cases "i_state i") (auto simp: scan_speaks_def timer_applies_def)

text \<open>The row of one incident after the scan.\<close>

fun scan_effect :: "(nat \<Rightarrow> seconds) \<Rightarrow> nat \<Rightarrow> due_row list \<Rightarrow> ident \<Rightarrow> incident_row \<Rightarrow> incident_row" where
  "scan_effect clk k [] inc i = i"
| "scan_effect clk k (r # rs) inc i =
     scan_effect clk (Suc k) rs inc
       (if inc = i_id (fst (snd r)) then row_effect (clk k) (tm_kind (fst r)) i else i)"

lemma process_due_row:
  "distinct (map i_id (incidents s)) \<Longrightarrow>
   incident_of (fst (process_due clk ids k rs s)) inc = map_option (scan_effect clk k rs inc) (incident_of s inc)"
proof (induction clk ids k rs s rule: process_due.induct)
  case (1 clk ids k s)
  then show ?case by (cases "incident_of s inc") auto
next
  case (2 clk ids k r rs s)
  obtain s1 ev where p: "process_timer (clk k) (ids k) r s = (s1, ev)" by fastforce
  have d: "distinct (map i_id (incidents s1))"
    using distinct_process_timer[OF 2(2), of "clk k" "ids k" r] p by simp
  show ?case
    using 2(1)[OF p[symmetric] d] incident_of_process_timer[OF 2(2), of "clk k" "ids k" r inc] p
    by (cases "incident_of s inc") (auto simp: case_prod_beta)
qed

lemma row_effect_ended: "i_state i = Closed \<or> i_state i = Expired \<Longrightarrow> row_effect now k i = i"
  by (auto simp: row_effect_def split: timer_kind.split)

lemma scan_effect_ended: "i_state i = Closed \<or> i_state i = Expired \<Longrightarrow> scan_effect clk k rs inc i = i"
  by (induction rs arbitrary: k) (auto simp: row_effect_ended)

lemma own_kinds_Cons [simp]:
  "own_kinds inc (r # rs) = (if i_id (fst (snd r)) = inc then [tm_kind (fst r)] else []) @ own_kinds inc rs"
  by (simp add: own_kinds_def)

lemma scan_effect_open:
  "i_state i = Open \<Longrightarrow> DeskT \<notin> set (own_kinds inc rs) \<Longrightarrow>
   (if ExpireT \<in> set (own_kinds inc rs) then \<exists>j \<ge> k. scan_effect clk k rs inc i = expire_row (clk j) i
    else scan_effect clk k rs inc i = i)"
proof (induction rs arbitrary: k)
  case (Cons r rs)
  have "i_state (expire_row (clk k) i) = Expired" by (simp add: expire_row_def)
  then have ended: "scan_effect clk (Suc k) rs inc (expire_row (clk k) i) = expire_row (clk k) i"
    by (simp add: scan_effect_ended)
  show ?case
    using Cons(1)[OF Cons(2), of "Suc k"] Cons(2,3) ended
    by (cases "tm_kind (fst r)") (auto simp: row_effect_def dest: Suc_leD split: if_splits)
qed (simp add: own_kinds_def)

lemma scan_effect_reopened:
  "i_state i = Open \<Longrightarrow> set (own_kinds inc rs) \<inter> {ExpireT} = {} \<Longrightarrow> scan_effect clk k rs inc i = i"
  by (induction rs arbitrary: k) (auto simp: row_effect_def split: timer_kind.splits if_splits)

lemma scan_effect_acked:
  "i_state i = Acked \<Longrightarrow> set (own_kinds inc rs) \<subseteq> {DeskT} \<Longrightarrow>
   (if DeskT \<in> set (own_kinds inc rs) then \<exists>j \<ge> k. scan_effect clk k rs inc i = reopen_row (clk j) i
    else scan_effect clk k rs inc i = i)"
proof (induction rs arbitrary: k)
  case (Cons r rs)
  have "scan_effect clk (Suc k) rs inc (reopen_row (clk k) i) = reopen_row (clk k) i"
    using Cons(3) by (intro scan_effect_reopened) (auto simp: reopen_row_def)
  then show ?case
    using Cons(1)[OF Cons(2), of "Suc k"] Cons(2,3)
    by (cases "tm_kind (fst r)") (auto simp: row_effect_def dest: Suc_leD split: if_splits)
qed (simp add: own_kinds_def)

definition scan_row :: "seconds \<Rightarrow> db \<Rightarrow> seconds \<Rightarrow> incident_row \<Rightarrow> incident_row" where
  "scan_row now s at i =
     (case scan_speaks now s i of [EvExpire] \<Rightarrow> expire_row at i | [EvReopen] \<Rightarrow> reopen_row at i | _ \<Rightarrow> i)"

lemma scan_due_row:
  assumes ok: "incidents_ok s" "i \<in> set (incidents s)"
  shows "\<exists>j \<ge> 1. incident_of (fst (scan_due clk ids s)) (i_id i) = Some (scan_row (clk 0) s (clk j) i)"
proof -
  let ?ks = "own_kinds (i_id i) (due_rows (clk 0) s)"
  have row: "incident_of (fst (scan_due clk ids s)) (i_id i) = Some (scan_effect clk 1 (due_rows (clk 0) s) (i_id i) i)"
    unfolding scan_due_def using process_due_row[OF incidents_okD(2)[OF ok(1)]] incident_of_known[OF ok] by simp
  note set = own_due_set[OF ok(1), of "i_id i" "clk 0"]
  note sub = due_kinds_expected[OF ok, of "clk 0"]
  show ?thesis
  proof (cases "i_state i")
    case Open
    then have "DeskT \<notin> set ?ks" using set sub by auto
    from scan_effect_open[OF Open this, of 1 clk] Open set expire_due[OF ok Open, of "clk 0"]
    show ?thesis by (auto simp: row scan_row_def scan_speaks_def split: if_splits)
  next
    case Acked
    then have "set ?ks \<subseteq> {DeskT}" using set sub by auto
    from scan_effect_acked[OF Acked this, of 1 clk] Acked set
    show ?thesis by (auto simp: row scan_row_def scan_speaks_def split: if_splits)
  qed (auto simp: row scan_row_def scan_speaks_def scan_effect_ended)
qed

lemma scan_events_from:
  "e \<in> set (snd (process_due clk ids k rs s)) \<Longrightarrow>
   \<exists>r \<in> set rs. \<exists>j \<ge> k. \<exists>s'. snd (process_timer (clk j) (ids j) r s') = Some e"
proof (induction clk ids k rs s rule: process_due.induct)
  case (2 clk ids k r rs s)
  obtain s1 ev where p: "process_timer (clk k) (ids k) r s = (s1, ev)" by fastforce
  from 2(2) p consider "ev = Some e" | "e \<in> set (snd (process_due clk ids (Suc k) rs s1))"
    by (auto simp: case_prod_beta split: option.splits)
  then show ?case
  proof cases
    case 1
    then show ?thesis using p by (intro bexI[of _ r] exI[of _ k] conjI exI[of _ s]) auto
  next
    case later: 2
    from 2(1)[OF p[symmetric] later] show ?thesis by (auto dest: Suc_leD)
  qed
qed simp

subsection \<open>The machine as a step relation\<close>

text \<open>One step is one call of the service, or a change of tables it does not read. The guards
  are what the callers and the identifier generator give: the topic exists, identifiers are new.\<close>

inductive incident_step :: "db \<Rightarrow> db \<Rightarrow> bool" where
  publish: "cp_topic_id p \<in> t_id ` set (topics s) \<Longrightarrow> n_incident ids \<notin> i_id ` set (incidents s) \<Longrightarrow>
    n_timer1 ids \<notin> tm_id ` set (timers s) \<Longrightarrow> n_timer2 ids \<notin> tm_id ` set (timers s) \<Longrightarrow>
    n_timer1 ids \<noteq> n_timer2 ids \<Longrightarrow> incident_step s (fst (publish_critical now ids p s))"
| ack: "acknowledge now tid acc inc s = Inr (s', r) \<Longrightarrow> tid \<notin> tm_id ` set (timers s) \<Longrightarrow> incident_step s s'"
| close: "close_incident now acc inc s = Inr (s', r) \<Longrightarrow> incident_step s s'"
| scan: "fresh_supply ids (tm_id ` set (timers s)) \<Longrightarrow> incident_step s (fst (scan_due clk ids s))"
| elsewhere: "topics s' = topics s \<Longrightarrow> incidents s' = incidents s \<Longrightarrow> timers s' = timers s \<Longrightarrow> incident_step s s'"
| new_topic: "t_id t \<notin> t_id ` set (topics s) \<Longrightarrow> incident_step s (s\<lparr>topics := topics s @ [t]\<rparr>)"
| drop_incidents: "incident_step s (delete_incidents P s)"

lemma delete_incidents_ok:
  assumes ok: "incidents_ok s" shows "incidents_ok (delete_incidents P s)"
proof -
  note okD = incidents_okD[OF ok]
  let ?gone = "\<lambda>inc. list_ex (\<lambda>i. P i \<and> i_id i = inc) (incidents s)"
  have gone: "?gone (i_id i) = P i" if "i \<in> set (incidents s)" for i
    using distinct_map_unique[OF okD(2)] that by (auto simp: list_ex_iff)
  have fk: "tm_incident_id t \<in> i_id ` {i \<in> set (incidents s). \<not> P i}"
    if t: "t \<in> set (timers s)" and keep: "\<not> ?gone (tm_incident_id t)" for t
  proof -
    obtain i where i: "i \<in> set (incidents s)" "tm_incident_id t = i_id i" using okD(7)[OF t] by auto
    with keep gone[OF i(1)] show ?thesis by auto
  qed
  have kinds: "kinds_of (del_where (\<lambda>t. ?gone (tm_incident_id t)) (timers s)) (i_id i) = expected_kinds (i_state i)"
    if i: "i \<in> set (incidents s)" "\<not> P i" for i
  proof -
    have "\<not> ?gone (i_id i)" using gone i by simp
    then have "kinds_of (del_where (\<lambda>t. ?gone (tm_incident_id t)) (timers s)) (i_id i) = kinds_of (timers s) (i_id i)"
      by (auto simp: kinds_of_def table_simps)
    then show ?thesis using okD(8)[OF i(1)] by simp
  qed
  have act: "distinct (map i_topic_id (filter active (del_where P (incidents s))))"
    using distinct_map_filter[OF okD(3), of "\<lambda>i. \<not> P i"] by (simp add: del_where_def filter_filter conj_commute)
  show ?thesis
    unfolding incidents_ok_def
    using okD act fk kinds
    by (simp add: delete_incidents_def Let_def distinct_map_del_where table_simps)
qed

lemma new_topic_ok:
  assumes "incidents_ok s" "t_id t \<notin> t_id ` set (topics s)"
  shows "incidents_ok (s\<lparr>topics := topics s @ [t]\<rparr>)"
  using assms by (auto simp: incidents_ok_def)

interpretation machine: invariant_system "\<lambda>s. s = empty_db" incident_step incidents_ok
proof unfold_locales
  show "incidents_ok s" if "s = empty_db" for s
    using incidents_ok_empty that by simp
  show "incidents_ok s'" if "incident_step s s'" "incidents_ok s" for s s'
    using that
  proof cases
    case (ack now tid acc inc r)
    then show ?thesis using acknowledge_ok[OF that(2)] by (cases r) auto
  next
    case (close now acc inc r)
    then show ?thesis using close_ok[OF that(2)] by (cases r) auto
  next
    case elsewhere
    then show ?thesis using incidents_ok_frame that(2) by blast
  qed (use that(2) publish_critical_ok scan_due_ok delete_incidents_ok new_topic_ok in auto)
qed

lemma find_upd_key:
  "(\<And>r. key (f r) = key r) \<Longrightarrow>
   List.find (\<lambda>r. key r = k) (upd_where P f rows) = map_option (\<lambda>r. if P r then f r else r) (List.find (\<lambda>r. key r = k) rows)"
  by (rule find_upd_where) simp

lemma scan_kinds:
  assumes "incidents_ok s" "i \<in> set (incidents s)"
  shows "map e_kind (filter (\<lambda>e. e_incident_id e = Some (i_id i)) (snd (scan_due clk ids s))) = scan_speaks (clk 0) s i"
  unfolding scan_due_def process_due_kinds[OF incidents_okD(2)[OF assms(1)]] incident_of_known[OF assms]
  using spoken_due[OF assms] by simp

lemma scan_event_row:
  assumes ok: "incidents_ok s" and e: "e \<in> set (snd (scan_due clk ids s))"
  obtains i j where "i \<in> set (incidents s)" "e_incident_id e = Some (i_id i)" "e_kind e \<in> set (scan_speaks (clk 0) s i)"
    "e_ring_until e = (if e_kind e = EvRepeat then Some (i_opened_at i + i_max_ring_s i)
       else if e_kind e = EvReopen then Some (clk j + i_max_ring_s i) else None)" "e_kind e \<in> {EvRepeat, EvReopen, EvExpire}"
proof -
  from scan_events_from[OF e[unfolded scan_due_def]] obtain r j s' where
    r: "r \<in> set (due_rows (clk 0) s)" and ev: "snd (process_timer (clk j) (ids j) r s') = Some e" by auto
  let ?i = "fst (snd r)" and ?k = "tm_kind (fst r)"
  have i: "?i \<in> set (incidents s)" using due_rows_in(3)[OF r] incident_of_in by blast
  have inc: "e_incident_id e = Some (i_id ?i)" "e_kind e = kind_event ?k"
    using event_incident[OF ev] by auto
  have "e_kind e \<in> set (map e_kind (filter (\<lambda>e. e_incident_id e = Some (i_id ?i)) (snd (scan_due clk ids s))))"
    using e inc(1) by (simp only: set_map set_filter) blast
  then have speaks: "e_kind e \<in> set (scan_speaks (clk 0) s ?i)"
    using scan_kinds[OF ok i] by metis
  have "e_ring_until e = (if e_kind e = EvRepeat then Some (i_opened_at ?i + i_max_ring_s ?i)
       else if e_kind e = EvReopen then Some (clk j + i_max_ring_s ?i) else None)"
    using ev by (cases ?k)
      (auto simp: event_process_timer timer_event_def make_event_def Let_def split: option.splits if_splits)
  with i inc speaks show thesis
    by (intro that[of ?i j]) (cases ?k; auto)+
qed

lemma incident_of_transition:
  assumes "\<And>i. i_id (f i) = i_id i"
  shows "incident_of (transition inc f ts s) inc' = (if inc' = inc then map_option f (incident_of s inc') else incident_of s inc')"
proof -
  show ?thesis
    unfolding incident_of_def transition_def
    by (cases "List.find (\<lambda>i. i_id i = inc') (incidents s)")
      (auto simp: find_upd_key[of i_id f, OF assms] dest: find_SomeD)
qed

lemma incident_of_append:
  "incident_of (s\<lparr>incidents := incidents s @ [i]\<rparr>) inc =
     (case incident_of s inc of Some j \<Rightarrow> Some j | None \<Rightarrow> if i_id i = inc then Some i else None)"
  by (auto simp: incident_of_def find_append split: option.split)

lemma incident_of_publish:
  assumes "n_incident ids \<notin> i_id ` set (incidents s)"
  shows "incident_of s inc = Some i \<Longrightarrow>
    incident_of (fst (publish_critical now ids p s)) inc =
      Some (if active_of_topic s (cp_topic_id p) \<noteq> None \<and> i_id (the (active_of_topic s (cp_topic_id p))) = inc then touch now i else i)"
proof -
  assume i: "incident_of s inc = Some i"
  show ?thesis
  proof (cases "active_of_topic s (cp_topic_id p)")
    case None
    then show ?thesis using i incident_of_append[of s "new_incident now ids p" inc]
      by (simp add: publish_critical_def Let_def frame_simps incident_of_def)
  next
    case (Some j)
    then show ?thesis using i incident_of_in[OF i]
      by (simp add: publish_critical_def Let_def frame_simps incident_of_def find_upd_key[of i_id "touch now"] touch_def)
  qed
qed

lemma incident_of_drop:
  "incident_of (delete_incidents P s) inc = Some i' \<Longrightarrow> incidents_ok s \<Longrightarrow> incident_of s inc = Some i'"
proof -
  assume a: "incident_of (delete_incidents P s) inc = Some i'" and ok: "incidents_ok s"
  then have "i' \<in> set (incidents s)" "i_id i' = inc"
    using incident_of_in[OF a] by (auto simp: delete_incidents_def Let_def table_simps)
  then show ?thesis using incident_of_known[OF ok] by auto
qed

text \<open>The transitions of an incident: acknowledged, closed, expired, reopened, or another message.\<close>

definition may_become :: "incident_row \<Rightarrow> incident_row \<Rightarrow> bool" where
  "may_become i i' \<longleftrightarrow>
     i' = i \<or>
     i_id i' = i_id i \<and> i_topic_id i' = i_topic_id i \<and> i_max_ring_s i' = i_max_ring_s i \<and>
     (case (i_state i, i_state i') of
        (Open, Open) \<Rightarrow> i_opened_at i' = i_opened_at i
      | (Open, Acked) \<Rightarrow> i_acked_at i' = Some (i_updated_at i') \<and> i_opened_at i' = i_opened_at i
      | (Open, Expired) \<Rightarrow> i_closed_at i' = Some (i_updated_at i') \<and> i_opened_at i' = i_opened_at i
      | (Acked, Acked) \<Rightarrow> i_opened_at i' = i_opened_at i \<and> i_acked_at i' = i_acked_at i
      | (Acked, Closed) \<Rightarrow> i_closed_at i' = Some (i_updated_at i') \<and> i_opened_at i' = i_opened_at i
      | (Acked, Open) \<Rightarrow> i_opened_at i' = i_updated_at i' \<and> i_acked_at i' = None
      | _ \<Rightarrow> False)"

lemma lifecycle:
  assumes "incident_step s s'" "incidents_ok s" "incident_of s inc = Some i" "incident_of s' inc = Some i'"
  shows "may_become i i'"
  using assms(1)
proof cases
  case (publish p ids now)
  have act: "active i" if "active_of_topic s (cp_topic_id p) = Some j" "i_id j = inc" for j
    using active_of_topic_in[OF that(1)] that(2) incident_of_known[OF assms(2)] assms(3) by fastforce
  from publish incident_of_publish[OF publish(3) assms(3), of now p] assms(4) act show ?thesis
    by (auto simp: may_become_def touch_def active_def split: if_splits)
next
  case (ack now tid acc inc' r)
  obtain i2 evs where "r = (i2, evs)" by (cases r)
  with ack obtain j t where c: "scoped_incident s acc inc' = Inr (j, t)" "i_state j = Open"
    "s' = transition inc' (ack_row now) [\<lparr>tm_id = tid, tm_incident_id = inc', tm_kind = DeskT, tm_fire_at = now + t_desk_timer_s t\<rparr>] s"
    by (auto elim: acknowledge_cases)
  have "j = i" if "inc = inc'"
    using that scoped_incident_in(1,2)[OF c(1)] incident_of_known[OF assms(2)] assms(3) by fastforce
  with c assms(3,4) show ?thesis
    by (cases "inc = inc'") (auto simp: incident_of_transition ack_row_def may_become_def)
next
  case (close now acc inc' r)
  obtain i2 evs where "r = (i2, evs)" by (cases r)
  with close obtain j t where c: "scoped_incident s acc inc' = Inr (j, t)" "i_state j = Acked"
    "s' = transition inc' (close_row now) [] s"
    by (auto elim: close_cases)
  have "j = i" if "inc = inc'"
    using that scoped_incident_in(1,2)[OF c(1)] incident_of_known[OF assms(2)] assms(3) by fastforce
  with c assms(3,4) show ?thesis
    by (cases "inc = inc'") (auto simp: incident_of_transition close_row_def may_become_def)
next
  case (scan ids clk)
  note i = incident_of_in[OF assms(3)]
  from scan_due_row[OF assms(2), of i clk ids] i assms(4) scan obtain at where "i' = scan_row (clk 0) s at i" by auto
  then show ?thesis
    by (cases "i_state i")
      (auto simp: scan_row_def scan_speaks_def may_become_def expire_row_def reopen_row_def split: if_splits)
next
  case elsewhere
  then show ?thesis using assms(3,4) by (simp add: may_become_def incident_of_def)
next
  case (new_topic t)
  then show ?thesis using assms(3,4) by (simp add: may_become_def incident_of_def)
next
  case (drop_incidents P)
  then show ?thesis using assms(3,4) incident_of_drop[OF _ assms(2)] by (simp add: may_become_def)
qed

subsection \<open>A concrete run\<close>

text \<open>One account with one critical topic; an alarm that opens at 100 with a ring window of 60 seconds.\<close>

definition demo_topic :: topic_row where
  "demo_topic = \<lparr>t_id = ''t1'', t_account_id = ''acc1'', t_name = ''db'', t_base_url = ''https://a'',
     t_topic_hash = ''h1'', t_critical = True, t_repeat_interval_s = 20, t_max_ring_s = 60,
     t_desk_timer_s = 300, t_relay_content = ContentNone, t_created_at = 1, t_relay_name = None\<rparr>"

definition demo_publication :: critical_publication where
  "demo_publication = \<lparr>cp_topic_id = ''t1'', cp_topic_hash = ''h1'', cp_topic = ''db'', cp_base_url = ''https://a'',
     cp_repeat_interval_s = 20, cp_max_ring_s = 60, cp_desk_timer_s = 300,
     cp_message = \<lparr>sm_title = ''down'', sm_body = ''b'', sm_priority = 5, sm_tags = [], sm_click = None, sm_markdown = False\<rparr>,
     cp_relay_content = None\<rparr>"

definition demo_fresh :: fresh_ids where
  "demo_fresh = \<lparr>n_message = ''m1'', n_incident = ''i1'', n_timer1 = ''tm1'', n_timer2 = ''tm2''\<rparr>"

definition demo_start :: db where
  "demo_start = empty_db\<lparr>topics := [demo_topic]\<rparr>"

definition demo_ringing :: db where
  "demo_ringing = fst (publish_critical 100 demo_fresh demo_publication demo_start)"

definition demo_acked :: db where
  "demo_acked = (case acknowledge 110 ''tm3'' ''acc1'' ''i1'' demo_ringing of Inl e \<Rightarrow> demo_ringing | Inr (s, r) \<Rightarrow> s)"

definition demo_ids :: "nat \<Rightarrow> ident \<times> ident" where
  "demo_ids k = (CHR ''x'' # replicate k CHR ''a'', CHR ''y'' # replicate k CHR ''a'')"

definition demo_clock :: "nat \<Rightarrow> seconds" where
  "demo_clock k = 130 + int k"

lemma demo_supply: "fresh_supply demo_ids {''tm1'', ''tm2''}"
  by (auto simp: fresh_supply_def demo_ids_def)

lemmas demo_defs = demo_topic_def demo_publication_def demo_fresh_def demo_start_def demo_ringing_def
  demo_acked_def empty_db_def

lemma demo_ringing_rows:
  "topics demo_ringing = [demo_topic]"
  "incidents demo_ringing = [\<lparr>i_id = ''i1'', i_topic_id = ''t1'', i_state = Open, i_opened_at = 100,
      i_acked_at = None, i_closed_at = None, i_last_message_at = 100, i_updated_at = 100, i_max_ring_s = 60\<rparr>]"
  "timers demo_ringing = [\<lparr>tm_id = ''tm1'', tm_incident_id = ''i1'', tm_kind = RepeatT, tm_fire_at = 120\<rparr>,
      \<lparr>tm_id = ''tm2'', tm_incident_id = ''i1'', tm_kind = ExpireT, tm_fire_at = 160\<rparr>]"
  by (simp_all add: demo_defs publish_critical_def active_of_topic_def new_incident_def insert_timer_def Let_def)

lemma demo_ringing_ok: "incidents_ok demo_ringing"
  by (auto simp: incidents_ok_def demo_ringing_rows timer_key_def timer_fits_def active_def demo_topic_def)

lemma demo_steps: "incident_step\<^sup>*\<^sup>* empty_db demo_ringing"
proof -
  have "incident_step empty_db demo_start"
    using incident_step.new_topic[of demo_topic empty_db] by (simp add: demo_start_def empty_db_def)
  moreover have "incident_step demo_start demo_ringing"
    unfolding demo_ringing_def by (rule incident_step.publish) (simp_all add: demo_defs)
  ultimately show ?thesis by (meson converse_rtranclp_into_rtranclp rtranclp.rtrancl_refl)
qed

subsection \<open>Properties\<close>

text \<open>C1: Every state the incident service can reach from an empty database, by publishing,
  acknowledging, closing and scanning, keeps the invariant: at most one open or acknowledged
  incident per topic, and exactly the timers its state calls for, with the expire timer at the
  end of the ring window.\<close>

theorem incident_machine_ok:
  assumes "incident_step\<^sup>*\<^sup>* empty_db s"
  shows "incidents_ok s"
  using machine.inv_reachable[OF refl assms] .

theorem incident_machine_ok_witness: "incidents_ok demo_ringing"
  using incident_machine_ok[OF demo_steps] .

text \<open>C2: A scan keeps its contract for every incident of the table, whatever the other due
  timers are. An open incident whose ring window is over expires and says so once; otherwise
  it repeats if its repeat timer is due; an acknowledged one reopens exactly when its desk
  timer is due; an ended one is silent. Its row changes accordingly and no other way.\<close>

theorem scan_contract:
  assumes "incidents_ok s" "i \<in> set (incidents s)"
  shows "map e_kind (filter (\<lambda>e. e_incident_id e = Some (i_id i)) (snd (scan_due clk ids s))) = scan_speaks (clk 0) s i \<and>
    (\<exists>j \<ge> 1. incident_of (fst (scan_due clk ids s)) (i_id i) = Some (scan_row (clk 0) s (clk j) i))"
  using scan_kinds[OF assms] scan_due_row[OF assms] by blast

theorem scan_contract_witness:
  "map e_kind (filter (\<lambda>e. e_incident_id e = Some ''i1'') (snd (scan_due demo_clock demo_ids demo_ringing))) = [EvRepeat]"
proof -
  let ?i = "\<lparr>i_id = ''i1'', i_topic_id = ''t1'', i_state = Open, i_opened_at = 100,
      i_acked_at = None, i_closed_at = None, i_last_message_at = 100, i_updated_at = 100, i_max_ring_s = 60\<rparr>"
  have "scan_speaks (demo_clock 0) demo_ringing ?i = [EvRepeat]"
    by (simp add: scan_speaks_def demo_clock_def due_kinds_def demo_ringing_rows)
  then show ?thesis
    using scan_contract[OF demo_ringing_ok, of ?i demo_clock demo_ids] by (simp add: demo_ringing_rows)
qed

text \<open>No scan makes a phone ring outside a ring window: every event that carries a
  \<open>ring_until\<close> names a second still ahead of the scan, and the only event without one is the
  silent expiry. The window counts from the opening, or from the reopening, of the incident.\<close>

theorem scan_never_rings_late:
  assumes "incidents_ok s" "\<forall>j. clk 0 \<le> clk j" "\<forall>i \<in> set (incidents s). 0 < i_max_ring_s i"
    and "e \<in> set (snd (scan_due clk ids s))"
  shows "case e_ring_until e of None \<Rightarrow> e_kind e = EvExpire | Some u \<Rightarrow> clk 0 < u"
proof -
  obtain i j where i: "i \<in> set (incidents s)" and k: "e_kind e \<in> set (scan_speaks (clk 0) s i)"
    and u: "e_ring_until e = (if e_kind e = EvRepeat then Some (i_opened_at i + i_max_ring_s i)
       else if e_kind e = EvReopen then Some (clk j + i_max_ring_s i) else None)" "e_kind e \<in> {EvRepeat, EvReopen, EvExpire}"
    using scan_event_row[OF assms(1,4)] by metis
  have "clk 0 \<le> clk j" "0 < i_max_ring_s i" using assms(2,3) i by auto
  with k u show ?thesis
    by (auto simp: scan_speaks_def split: incident_state.splits if_splits)
qed

theorem scan_never_rings_late_witness:
  "list_all (\<lambda>e. case e_ring_until e of None \<Rightarrow> e_kind e = EvExpire | Some u \<Rightarrow> 130 < u)
     (snd (scan_due demo_clock demo_ids demo_ringing))"
proof -
  have now: "demo_clock 0 = 130" and later: "\<forall>j. demo_clock 0 \<le> demo_clock j"
    and ring: "\<forall>i \<in> set (incidents demo_ringing). 0 < i_max_ring_s i"
    by (simp_all add: demo_clock_def demo_ringing_rows)
  show ?thesis
    unfolding list_all_iff
    using scan_never_rings_late[OF demo_ringing_ok later ring] unfolding now by blast
qed

text \<open>C8: A step of the machine takes an incident along one of its transitions, or leaves it as it
  is: open to acknowledged or expired, acknowledged to closed or open again with a new window. A
  closed or expired incident never changes, the topic and the ring length never change, and a new
  message never moves the start of the window.\<close>

theorem incident_lifecycle:
  assumes "incident_step s s'" "incidents_ok s" "incident_of s inc = Some i" "incident_of s' inc = Some i'"
  shows "may_become i i'"
  using lifecycle[OF assms] .

lemma demo_acked_rows:
  "acknowledge 110 ''tm3'' ''acc1'' ''i1'' demo_ringing = Inr (demo_acked, the (incident_of demo_ringing ''i1'')\<lparr>i_state := Acked, i_acked_at := Some 110\<rparr>,
     [timer_event EvAck (the (incident_of demo_ringing ''i1''), demo_topic) 100 demo_acked])"
  "incidents demo_acked = [\<lparr>i_id = ''i1'', i_topic_id = ''t1'', i_state = Acked, i_opened_at = 100,
      i_acked_at = Some 110, i_closed_at = None, i_last_message_at = 100, i_updated_at = 110, i_max_ring_s = 60\<rparr>]"
  "timers demo_acked = [\<lparr>tm_id = ''tm3'', tm_incident_id = ''i1'', tm_kind = DeskT, tm_fire_at = 410\<rparr>]"
  by (simp_all add: demo_acked_def acknowledge_def scoped_incident_def scoped_incident_or_null_def incident_of_def
      topic_of_def demo_ringing_rows demo_topic_def insert_timer_def clear_timers_def set_incident_def ack_row_def del_where_def Let_def)

theorem incident_lifecycle_witness:
  "may_become (the (incident_of demo_ringing ''i1'')) (the (incident_of demo_acked ''i1''))"
proof (rule incident_lifecycle)
  show "incident_step demo_ringing demo_acked"
    by (rule incident_step.ack[OF demo_acked_rows(1)]) (simp add: demo_ringing_rows)
qed (simp_all add: demo_ringing_ok incident_of_def demo_ringing_rows demo_acked_rows)

text \<open>After a critical publication the topic has an active incident, the one the message is
  filed under and the answer names. A publication that finds one active already leaves its
  state, its window and every timer as they were: repeated alarms neither extend the ringing
  nor undo an acknowledgement. Its push rings only if nobody has acknowledged.\<close>

theorem publish_joins:
  assumes "incidents_ok s" "n_incident ids \<notin> i_id ` set (incidents s)"
  shows "case publish_critical now ids p s of (s', m, i, evs) \<Rightarrow>
    active_of_topic s' (cp_topic_id p) = Some i \<and> m_incident_id m = Some (i_id i) \<and> messages s' = messages s @ [m] \<and>
    (case active_of_topic s (cp_topic_id p) of
       None \<Rightarrow> i_state i = Open \<and> i_opened_at i = now \<and> map e_kind evs = [EvOpen] \<and> map e_critical evs = [True] \<and>
         map e_ring_until evs = [Some (now + cp_max_ring_s p)]
     | Some j \<Rightarrow> i = touch now j \<and> timers s' = timers s \<and> map e_kind evs = [EvP5] \<and>
         map e_critical evs = [i_state j = Open] \<and> map e_ring_until evs = [Some (i_opened_at j + i_max_ring_s j)])"
proof (cases "active_of_topic s (cp_topic_id p)")
  case None
  then show ?thesis
    by (simp add: publish_critical_def Let_def frame_simps new_incident_def critical_message_def make_event_def)
      (simp add: active_of_topic_def find_append active_def frame_simps)
next
  case (Some j)
  note j = active_of_topic_in[OF Some]
  have "List.find (\<lambda>i. i_topic_id i = cp_topic_id p \<and> active i) (upd_where (\<lambda>i. i_id i = i_id j) (touch now) (incidents s))
      = Some (touch now j)"
    using Some by (subst find_upd_where) (simp_all add: active_of_topic_def touch_def active_def)
  moreover have "(i_state j \<noteq> Acked) = (i_state j = Open)" using j by (auto simp: active_def)
  ultimately show ?thesis
    using Some by (simp add: publish_critical_def Let_def frame_simps critical_message_def make_event_def touch_def)
      (simp add: active_of_topic_def frame_simps touch_def)
qed

theorem publish_joins_witness:
  "case publish_critical 120 (demo_fresh\<lparr>n_message := ''m2'', n_incident := ''i2''\<rparr>) demo_publication demo_ringing of
     (s', m, i, evs) \<Rightarrow> active_of_topic s' ''t1'' = Some i \<and> map e_kind evs = [EvP5] \<and> timers s' = timers demo_ringing"
proof -
  have "n_incident (demo_fresh\<lparr>n_message := ''m2'', n_incident := ''i2''\<rparr>) \<notin> i_id ` set (incidents demo_ringing)"
    by (simp add: demo_fresh_def demo_ringing_rows)
  from publish_joins[OF demo_ringing_ok this, where now = 120 and p = demo_publication] show ?thesis
    by (simp add: demo_publication_def active_of_topic_def demo_ringing_rows active_def split: prod.splits)
qed

text \<open>The contract of a user action that takes an incident of one state to another.\<close>

definition ack_spec :: "seconds \<Rightarrow> ident \<Rightarrow> ident \<Rightarrow> db \<Rightarrow> incident_error + (db \<times> incident_row \<times> delivery_event list) \<Rightarrow>
    incident_state \<Rightarrow> incident_state \<Rightarrow> (topic_row \<Rightarrow> (timer_kind \<times> seconds) list) \<Rightarrow> event_kind \<Rightarrow> bool" where
  "ack_spec now acc inc s result from to tms ev \<longleftrightarrow>
     (case scoped_incident_or_null s acc inc of
        None \<Rightarrow> result = Inl IncidentNotFound
      | Some (i, t) \<Rightarrow>
          if i_state i \<noteq> from then result = Inl IncidentConflict
          else (case result of Inl e \<Rightarrow> False
            | Inr (s', r, evs) \<Rightarrow>
                map_option i_state (incident_of s' inc) = Some to \<and>
                i_state r = to \<and> i_id r = inc \<and>
                map_option i_updated_at (incident_of s' inc) = Some now \<and>
                map (\<lambda>x. (tm_kind x, tm_fire_at x)) (filter (\<lambda>x. tm_incident_id x = inc) (timers s')) = tms t \<and>
                filter (\<lambda>x. tm_incident_id x \<noteq> inc) (timers s') = filter (\<lambda>x. tm_incident_id x \<noteq> inc) (timers s) \<and>
                filter (\<lambda>x. i_id x \<noteq> inc) (incidents s') = filter (\<lambda>x. i_id x \<noteq> inc) (incidents s) \<and>
                map e_kind evs = [ev] \<and> map e_ring_until evs = [None] \<and> map e_incident_id evs = [Some inc]))"

lemma transition_others:
  assumes "\<And>i. i_id (f i) = i_id i" "\<forall>t \<in> set ts. tm_incident_id t = inc"
  shows "filter (\<lambda>x. tm_incident_id x \<noteq> inc) (timers (transition inc f ts s)) = filter (\<lambda>x. tm_incident_id x \<noteq> inc) (timers s)"
    "filter (\<lambda>x. tm_incident_id x = inc) (timers (transition inc f ts s)) = ts"
    "filter (\<lambda>x. i_id x \<noteq> inc) (incidents (transition inc f ts s)) = filter (\<lambda>x. i_id x \<noteq> inc) (incidents s)"
proof -
  have "filter (\<lambda>x. i_id x \<noteq> inc) (upd_where (\<lambda>i. i_id i = inc) f is) = filter (\<lambda>x. i_id x \<noteq> inc) is" for "is"
    by (induction "is") (auto simp: assms(1))
  then show "filter (\<lambda>x. i_id x \<noteq> inc) (incidents (transition inc f ts s)) = filter (\<lambda>x. i_id x \<noteq> inc) (incidents s)"
    by (simp add: transition_def)
qed (use assms(2) in \<open>auto simp: transition_def del_where_def filter_empty_conv intro: filter_True\<close>)

lemma transition_folds:
  "insert_timer tid inc k at (clear_timers inc (set_incident inc f s)) =
     transition inc f [\<lparr>tm_id = tid, tm_incident_id = inc, tm_kind = k, tm_fire_at = at\<rparr>] s"
  "clear_timers inc (set_incident inc f s) = transition inc f [] s"
  by (simp_all add: transition_def insert_timer_def clear_timers_def set_incident_def)

lemma acknowledge_transition:
  "acknowledge now tid acc inc s =
     (case scoped_incident s acc inc of Inl e \<Rightarrow> Inl e
      | Inr (i, t) \<Rightarrow> if i_state i \<noteq> Open then Inl IncidentConflict
          else (let s' = transition inc (ack_row now) [\<lparr>tm_id = tid, tm_incident_id = inc, tm_kind = DeskT, tm_fire_at = now + t_desk_timer_s t\<rparr>] s
                in Inr (s', i\<lparr>i_state := Acked, i_acked_at := Some now\<rparr>, [timer_event EvAck (i, t) (i_opened_at i) s'])))"
  by (simp only: acknowledge_def transition_folds(1))

lemma close_transition:
  "close_incident now acc inc s =
     (case scoped_incident s acc inc of Inl e \<Rightarrow> Inl e
      | Inr (i, t) \<Rightarrow> if i_state i \<noteq> Acked then Inl IncidentConflict
          else (let s' = transition inc (close_row now) [] s
                in Inr (s', i\<lparr>i_state := Closed, i_closed_at := Some now\<rparr>, [timer_event EvClose (i, t) (i_opened_at i) s'])))"
  by (simp only: close_incident_def transition_folds)

lemma scoped_in_table:
  "scoped_incident_or_null s acc inc = Some (i, t) \<Longrightarrow> incident_of s inc = Some i \<and> i_id i = inc"
  by (auto simp: scoped_incident_or_null_def incident_of_def dest: find_SomeD split: option.splits if_splits)

text \<open>Acknowledging and closing answer on every branch. An incident of another account is
  not found, exactly like one that does not exist. An incident in the wrong state is a conflict:
  only an open one can be acknowledged and only an acknowledged one closed. Otherwise the incident
  changes to the new state with its time, its timers become the desk timer of the topic (after an
  acknowledgement) or none (after a close), every other incident and timer is untouched, and one
  silent event goes out.\<close>

theorem acknowledge_and_close_answers:
  "ack_spec now acc inc s (acknowledge now tid acc inc s) Open Acked (\<lambda>t. [(DeskT, now + t_desk_timer_s t)]) EvAck \<and>
   ack_spec now acc inc s (close_incident now acc inc s) Acked Closed (\<lambda>t. []) EvClose"
proof -
  have keys: "i_id (ack_row now i) = i_id i" "i_id (close_row now i) = i_id i" for i
    by (simp_all add: ack_row_def close_row_def)
  show ?thesis
    using scoped_in_table[of s acc inc]
    by (auto simp: ack_spec_def acknowledge_transition close_transition scoped_incident_def Let_def transition_others keys
        incident_of_transition timer_event_def make_event_def ack_row_def close_row_def split: option.splits)
qed

lemma joined_incidents_iff:
  "(i, t) \<in> set (joined_incidents s) \<longleftrightarrow> i \<in> set (incidents s) \<and> topic_of s i = Some t"
  by (auto simp: joined_incidents_def split: option.splits)

lemma filter_accepts_owner: "filter_accepts acc f (i, t) \<Longrightarrow> t_account_id t = acc"
  by (simp add: filter_accepts_def)

lemma take_sort_key:
  fixes key :: "'a \<Rightarrow> 'k::linorder"
  assumes "x \<in> set (take n (sort_key key xs))" "y \<in> set xs" "y \<notin> set (take n (sort_key key xs))"
  shows "key x \<le> key y"
proof -
  let ?l = "sort_key key xs"
  have "sorted (map key (take n ?l @ drop n ?l))" by simp
  moreover have "y \<in> set (drop n ?l)"
    using assms(2,3) by (metis Un_iff append_take_drop_id set_append set_sort)
  ultimately show ?thesis using assms(1) by (simp only: map_append sorted_append) auto
qed

text \<open>Listing incidents shows an account its own and nobody else's, only those the filter
  accepts, each with all its messages, newest opening first, at most the limit of them (20 when
  none is asked for); one that is left out for lack of room opened no later than any that is shown.
  Reading a single incident never shows one of another account.\<close>

theorem list_incidents_contract:
  "length (list_incidents s acc f) \<le> (case f_limit f of None \<Rightarrow> 20 | Some n \<Rightarrow> n) \<and>
   sorted (map (\<lambda>x. - i_opened_at (fst x)) (list_incidents s acc f)) \<and>
   (\<forall>(i, name, ms) \<in> set (list_incidents s acc f). i \<in> set (incidents s) \<and> ms = messages_of s (i_id i) \<and>
      (\<exists>t. topic_of s i = Some t \<and> t_account_id t = acc \<and> name = t_name t \<and> filter_accepts acc f (i, t))) \<and>
   (\<forall>i \<in> set (incidents s). \<forall>t. topic_of s i = Some t \<and> filter_accepts acc f (i, t) \<longrightarrow>
      i \<in> fst ` set (list_incidents s acc f) \<or>
      (\<forall>x \<in> set (list_incidents s acc f). i_opened_at i \<le> i_opened_at (fst x))) \<and>
   (case get_incident s acc inc of None \<Rightarrow> True
    | Some (i, name, ms) \<Rightarrow> i_id i = inc \<and> (\<exists>t. topic_of s i = Some t \<and> t_account_id t = acc))"
proof (intro conjI)
  let ?n = "case f_limit f of None \<Rightarrow> default_incident_limit | Some n \<Rightarrow> n"
  let ?j = "filter (filter_accepts acc f) (joined_incidents s)"
  let ?l = "take ?n (sort_key (\<lambda>r. - i_opened_at (fst r)) ?j)"
  have list: "list_incidents s acc f = map (with_messages s) ?l"
    by (simp add: list_incidents_def)
  have fst: "fst (with_messages s r) = fst r" for r by (simp add: with_messages_def)
  show "length (list_incidents s acc f) \<le> (case f_limit f of None \<Rightarrow> 20 | Some n \<Rightarrow> n)"
    by (auto simp: list default_incident_limit_def split: option.split)
  have "sorted (map (\<lambda>r. - i_opened_at (fst r)) ?l)"
    by (metis sorted_sort_key sorted_wrt_take take_map)
  then show "sorted (map (\<lambda>x. - i_opened_at (fst x)) (list_incidents s acc f))"
    by (simp add: list fst comp_def)
  show "\<forall>(i, name, ms) \<in> set (list_incidents s acc f). i \<in> set (incidents s) \<and> ms = messages_of s (i_id i) \<and>
      (\<exists>t. topic_of s i = Some t \<and> t_account_id t = acc \<and> name = t_name t \<and> filter_accepts acc f (i, t))"
    by (auto simp: list with_messages_def joined_incidents_iff dest!: in_set_takeD dest: filter_accepts_owner)
  show "\<forall>i \<in> set (incidents s). \<forall>t. topic_of s i = Some t \<and> filter_accepts acc f (i, t) \<longrightarrow>
      i \<in> fst ` set (list_incidents s acc f) \<or>
      (\<forall>x \<in> set (list_incidents s acc f). i_opened_at i \<le> i_opened_at (fst x))"
  proof (intro ballI allI impI)
    fix i t assume i: "i \<in> set (incidents s)" "topic_of s i = Some t \<and> filter_accepts acc f (i, t)"
    then have "(i, t) \<in> set ?j" by (simp add: joined_incidents_iff)
    then have "(i, t) \<in> set ?l \<or> (\<forall>x \<in> set ?l. i_opened_at i \<le> i_opened_at (fst x))"
      using take_sort_key[of _ ?n "\<lambda>r. - i_opened_at (fst r)" ?j "(i, t)"] by fastforce
    then show "i \<in> fst ` set (list_incidents s acc f) \<or> (\<forall>x \<in> set (list_incidents s acc f). i_opened_at i \<le> i_opened_at (fst x))"
      by (auto simp: list fst image_image) force
  qed
  show "case get_incident s acc inc of None \<Rightarrow> True
    | Some (i, name, ms) \<Rightarrow> i_id i = inc \<and> (\<exists>t. topic_of s i = Some t \<and> t_account_id t = acc)"
    by (auto simp: get_incident_def with_messages_def scoped_incident_or_null_def dest: find_SomeD split: option.splits if_splits)
qed

definition demo_filter :: incident_filter where
  "demo_filter = \<lparr>f_state = Some Open, f_topic = None, f_limit = None, f_since = Some 99, f_opened_after = None\<rparr>"

theorem list_incidents_contract_witness:
  "length (list_incidents demo_ringing ''acc1'' demo_filter) \<le> 20 \<and>
   map fst (list_incidents demo_ringing ''acc1'' demo_filter) = incidents demo_ringing \<and>
   list_incidents demo_ringing ''acc2'' demo_filter = []"
proof -
  have "length (list_incidents demo_ringing ''acc1'' demo_filter) \<le> 20"
    using list_incidents_contract[of demo_ringing "''acc1''" demo_filter] by (simp add: demo_filter_def)
  then show ?thesis
    by (simp add: list_incidents_def joined_incidents_def demo_ringing_rows topic_of_def demo_topic_def
        filter_accepts_def demo_filter_def default_incident_limit_def with_messages_def)
qed

end
