(* ===== verification/Tiers.thy ===== *)
theory Tiers
  imports Schema
begin

section \<open>Tiers, caps and the accounts they belong to\<close>

text \<open>
  \<open>src/src/tier/caps.ts\<close>, \<open>p4-usage.ts\<close>, the ranking and account resolution of \<open>revenuecat.ts\<close>, and the
  reading window of \<open>src/src/retention/window.ts\<close>. The rank of a tier is its linear order here, so
  \<open>isHigherTier(a, b)\<close> is \<open>b < a\<close>. The rule every billing writer ends with is \<open>settle_tier\<close>; what
  such a writer promises is the locale \<open>tier_writer\<close>.
\<close>

subsection \<open>The ranking\<close>

fun tier_rank :: "tier \<Rightarrow> nat" where
  "tier_rank Free = 0"
| "tier_rank Relay = 1"
| "tier_rank Hosted = 2"

instantiation tier :: linorder
begin

definition less_eq_tier :: "tier \<Rightarrow> tier \<Rightarrow> bool" where "a \<le> b \<longleftrightarrow> tier_rank a \<le> tier_rank b"
definition less_tier :: "tier \<Rightarrow> tier \<Rightarrow> bool" where "a < b \<longleftrightarrow> tier_rank a < tier_rank b"

instance
proof
  fix a b :: tier
  show "a \<le> b \<Longrightarrow> b \<le> a \<Longrightarrow> a = b"
    by (cases a; cases b) (simp_all add: less_eq_tier_def)
qed (auto simp: less_eq_tier_def less_tier_def)

end

definition is_higher_tier :: "tier \<Rightarrow> tier \<Rightarrow> bool" where
  "is_higher_tier t u \<longleftrightarrow> tier_rank t > tier_rank u"

lemma is_higher_tier_less [simp]: "is_higher_tier t u \<longleftrightarrow> u < t"
  by (simp add: is_higher_tier_def less_tier_def)

lemma Free_le [simp]: "Free \<le> t"
  by (cases t) (simp_all add: less_eq_tier_def)

lemma Hosted_le [simp]: "Hosted \<le> t \<longleftrightarrow> t = Hosted"
  by (cases t) (simp_all add: less_eq_tier_def)

subsection \<open>Caps\<close>

record caps =
  cap_devices :: nat
  cap_critical_topics :: "nat option"
  cap_p4_daily :: int
  cap_history_days :: int

fun caps_for :: "tier \<Rightarrow> caps" where
  "caps_for Free = \<lparr>cap_devices = 5, cap_critical_topics = Some 2, cap_p4_daily = 50, cap_history_days = 7\<rparr>"
| "caps_for Relay = \<lparr>cap_devices = 5, cap_critical_topics = None, cap_p4_daily = 1000, cap_history_days = 90\<rparr>"
| "caps_for Hosted = \<lparr>cap_devices = 5, cap_critical_topics = None, cap_p4_daily = 1000, cap_history_days = 90\<rparr>"

definition day_start :: "seconds \<Rightarrow> seconds" where
  "day_start now = now div 86400 * 86400"

definition usage_at :: "db \<Rightarrow> ident \<Rightarrow> seconds \<Rightarrow> int" where
  "usage_at s acc day =
     (case List.find (\<lambda>u. u_account_id u = acc \<and> u_day_start u = day) (relay_p4_usage s) of
        None \<Rightarrow> 0 | Some u \<Rightarrow> u_count u)"

definition p4_cap :: "db \<Rightarrow> ident \<Rightarrow> int" where
  "p4_cap s acc = cap_p4_daily (caps_for (case tier_of s acc of None \<Rightarrow> Free | Some t \<Rightarrow> t))"

text \<open>One place checks the daily cap of non-critical alarms and charges it.\<close>

definition charge_p4 :: "seconds \<Rightarrow> ident \<Rightarrow> db \<Rightarrow> db \<times> bool" where
  "charge_p4 now acc s =
     (let day = day_start now
      in if usage_at s acc day \<ge> p4_cap s acc then (s, False)
         else (s\<lparr>relay_p4_usage :=
                   upsert (\<lambda>u. u_account_id u = acc \<and> u_day_start u = day)
                     (\<lambda>u. u\<lparr>u_count := u_count u + 1\<rparr>)
                     \<lparr>u_account_id = acc, u_day_start = day, u_count = 1\<rparr> (relay_p4_usage s)\<rparr>, True))"

fun charge_all :: "(seconds \<times> ident) list \<Rightarrow> db \<Rightarrow> db \<times> bool list" where
  "charge_all [] s = (s, [])"
| "charge_all ((now, acc) # cs) s =
     (case charge_p4 now acc s of (s1, ok) \<Rightarrow> (case charge_all cs s1 of (s2, oks) \<Rightarrow> (s2, ok # oks)))"

subsection \<open>Merged accounts\<close>

text \<open>The walk along \<open>merged_into\<close> stops after eight rows, so a cycle written by hand ends it too.\<close>

fun follow_merge_hops :: "nat \<Rightarrow> db \<Rightarrow> ident \<Rightarrow> ident option" where
  "follow_merge_hops 0 s current = None"
| "follow_merge_hops (Suc n) s current =
     (case account_of s current of None \<Rightarrow> None
      | Some a \<Rightarrow> (case a_merged_into a of None \<Rightarrow> Some (a_id a) | Some next \<Rightarrow> follow_merge_hops n s next))"

definition follow_merge :: "db \<Rightarrow> ident \<Rightarrow> ident option" where
  "follow_merge s acc = follow_merge_hops 8 s acc"

definition billing_row_of :: "db \<Rightarrow> ident \<Rightarrow> billing_id_row option" where
  "billing_row_of s u = List.find (\<lambda>b. b_app_user_id b = u) (account_billing_ids s)"

definition resolve_account :: "db \<Rightarrow> ident \<Rightarrow> ident option" where
  "resolve_account s u =
     (case billing_row_of s u of
        Some b \<Rightarrow> follow_merge s (b_account_id b)
      | None \<Rightarrow> (case account_of s u of None \<Rightarrow> None | Some a \<Rightarrow> follow_merge s (a_id a)))"

definition highest_entitled_tier :: "db \<Rightarrow> ident \<Rightarrow> tier" where
  "highest_entitled_tier s acc =
     foldl (\<lambda>best b. if is_higher_tier (b_entitled_tier b) best then b_entitled_tier b else best) Free
       (filter (\<lambda>b. b_account_id b = acc) (account_billing_ids s))"

text \<open>Raise whenever some billing id pays for more; lower only when this one was a source of the
  tier being removed; otherwise leave the account alone.\<close>

definition account_tier_after :: "tier \<Rightarrow> tier \<Rightarrow> tier \<Rightarrow> tier \<Rightarrow> tier" where
  "account_tier_after current highest row_before row_after =
     (let was_source = is_higher_tier row_before row_after \<and> \<not> is_higher_tier current row_before
      in if is_higher_tier highest current \<or> was_source then highest else current)"

text \<open>The tail the three billing writers share: read the account, decide, write, log.\<close>

definition set_tier :: "ident \<Rightarrow> tier \<Rightarrow> db \<Rightarrow> db" where
  "set_tier acc t s = s\<lparr>accounts := upd_where (\<lambda>a. a_id a = acc) (\<lambda>a. a\<lparr>a_tier := t\<rparr>) (accounts s)\<rparr>"

definition settle_tier :: "ident \<Rightarrow> tier \<Rightarrow> tier \<Rightarrow> string \<Rightarrow> ident option \<Rightarrow> seconds \<Rightarrow> db \<Rightarrow> db" where
  "settle_tier acc row_before row_after reason ev at s =
     (case tier_of s acc of None \<Rightarrow> s
      | Some current \<Rightarrow>
          (let nxt = account_tier_after current (highest_entitled_tier s acc) row_before row_after
           in if nxt = current then s
              else (set_tier acc nxt s)
                \<lparr>tier_changes := tier_changes s @ [\<lparr>tc_account_id = acc, tc_from = current, tc_to = nxt,
                   tc_reason = reason, tc_event_id = ev, tc_changed_at = at\<rparr>]\<rparr>))"

subsection \<open>The reading window\<close>

definition history_cutoff :: "seconds \<Rightarrow> server_mode \<Rightarrow> ident \<Rightarrow> db \<Rightarrow> seconds option" where
  "history_cutoff now md acc s =
     (if md \<noteq> HostedMode \<and> md \<noteq> RelayMode then None
      else (case tier_of s acc of None \<Rightarrow> None | Some t \<Rightarrow> Some (now - cap_history_days (caps_for t) * 86400)))"

subsection \<open>Lemmas: the daily charge\<close>

lemma find_upsert_other:
  assumes "\<And>r. r \<in> set rows \<Longrightarrow> P r \<Longrightarrow> \<not> Q r \<and> \<not> Q (f r)" "\<not> Q new"
  shows "List.find Q (upsert P f new rows) = List.find Q rows"
proof -
  have "List.find Q (upd_where P f xs) = List.find Q xs" if "set xs \<subseteq> set rows" for xs
    using that assms(1) by (induction xs) auto
  then show ?thesis
    using assms(2) by (auto simp: upsert_def find_append split: option.split)
qed

lemma find_upsert_same:
  assumes "\<And>r. P r \<Longrightarrow> P (f r)" "P new"
  shows "List.find P (upsert P f new rows) = Some (case List.find P rows of None \<Rightarrow> new | Some r \<Rightarrow> f r)"
proof (cases "list_ex P rows")
  case True
  have "List.find P (upd_where P f rows) = map_option f (List.find P rows)"
    using assms(1) by (induction rows) auto
  moreover have "List.find P rows \<noteq> None" using True by (auto simp: find_None_iff list_ex_iff)
  ultimately show ?thesis using True by (auto simp: upsert_def)
next
  case False
  then have "List.find P rows = None" by (auto simp: find_None_iff list_ex_iff)
  with False assms(2) show ?thesis by (simp add: upsert_def find_append)
qed

lemma charge_p4_frame [frame_simps]:
  "accounts (fst (charge_p4 now acc s)) = accounts s"
  by (simp add: charge_p4_def Let_def)

lemma tier_of_cong: "accounts s' = accounts s \<Longrightarrow> tier_of s' acc = tier_of s acc"
  by (simp add: tier_of_def account_of_def)

lemma p4_cap_cong: "accounts s' = accounts s \<Longrightarrow> p4_cap s' acc = p4_cap s acc"
  by (simp add: p4_cap_def tier_of_def account_of_def)

lemma usage_charge_p4:
  "usage_at (fst (charge_p4 now acc s)) acc' day =
     (if acc' = acc \<and> day = day_start now \<and> snd (charge_p4 now acc s) then usage_at s acc' day + 1 else usage_at s acc' day)"
proof (cases "usage_at s acc (day_start now) \<ge> p4_cap s acc")
  case True
  then show ?thesis by (simp add: charge_p4_def Let_def)
next
  case False
  show ?thesis
  proof (cases "acc' = acc \<and> day = day_start now")
    case True
    then show ?thesis using False
      by (simp add: charge_p4_def Let_def usage_at_def find_upsert_same split: option.split)
  next
    case other: False
    then have "List.find (\<lambda>u. u_account_id u = acc' \<and> u_day_start u = day) (relay_p4_usage (fst (charge_p4 now acc s))) =
        List.find (\<lambda>u. u_account_id u = acc' \<and> u_day_start u = day) (relay_p4_usage s)"
      using False by (auto simp: charge_p4_def Let_def intro!: find_upsert_other)
    with other show ?thesis by (auto simp: usage_at_def)
  qed
qed

lemma charge_p4_accepts: "snd (charge_p4 now acc s) \<longleftrightarrow> usage_at s acc (day_start now) < p4_cap s acc"
  by (auto simp: charge_p4_def Let_def)

lemma account_of_set_tier:
  "account_of (set_tier acc t s) x = map_option (\<lambda>a. if a_id a = acc then a\<lparr>a_tier := t\<rparr> else a) (account_of s x)"
  unfolding account_of_def set_tier_def by (simp add: find_upd_where)

lemma tier_of_set_tier:
  "tier_of (set_tier acc t s) x = (if x = acc then map_option (\<lambda>_. t) (tier_of s x) else tier_of s x)"
proof (cases "account_of s x")
  case (Some a)
  then have "a_id a = x" unfolding account_of_def by (auto dest: find_SomeD)
  with Some show ?thesis by (auto simp: tier_of_def account_of_set_tier)
qed (auto simp: tier_of_def account_of_set_tier)

lemma tier_of_log [simp]: "tier_of (s\<lparr>tier_changes := l\<rparr>) x = tier_of s x"
  by (simp add: tier_of_def account_of_def)

lemma charge_all_usage:
  fixes cs :: "(seconds \<times> ident) list"
  defines "n \<equiv> \<lambda>cs acc day. int (length (filter (\<lambda>c. snd c = acc \<and> day_start (fst c) = day) cs))"
  shows "usage_at (fst (charge_all cs s)) acc day =
      (if usage_at s acc day < p4_cap s acc then min (p4_cap s acc) (usage_at s acc day + n cs acc day) else usage_at s acc day)"
proof (induction cs s rule: charge_all.induct)
  case (1 s)
  then show ?case by (auto simp: n_def)
next
  case (2 now a cs s)
  obtain s1 ok where c: "charge_p4 now a s = (s1, ok)" by fastforce
  have u1: "usage_at s1 acc day = (if acc = a \<and> day = day_start now \<and> ok then usage_at s acc day + 1 else usage_at s acc day)"
    using usage_charge_p4[of now a s acc day] c by simp
  have cap: "p4_cap s1 acc = p4_cap s acc"
    using charge_p4_frame[of now a s] c by (intro p4_cap_cong) simp
  have ok: "ok \<longleftrightarrow> usage_at s a (day_start now) < p4_cap s a"
    using charge_p4_accepts[of now a s] c by simp
  have "fst (charge_all ((now, a) # cs) s) = fst (charge_all cs s1)"
    using c by (simp add: case_prod_beta)
  then show ?case
    using 2[OF c[symmetric]] u1 cap ok by (auto simp: n_def)
qed

text \<open>However the publishes of a server interleave, across accounts and days, the priority-4
  alarms an account is charged on one UTC day are exactly as many as it sent, up to its cap and
  never past it: each call is charged while the account is below the cap, and a day that starts
  below the cap ends at the smaller of the cap and what was asked for. An account already at
  or over the cap (its tier was lowered) is charged nothing.\<close>

theorem p4_charge_is_capped:
  "usage_at (fst (charge_all cs s)) acc day =
     (let asked = int (length (filter (\<lambda>c. snd c = acc \<and> day_start (fst c) = day) cs)); used = usage_at s acc day
      in if used < p4_cap s acc then min (p4_cap s acc) (used + asked) else used)"
  unfolding Let_def by (rule charge_all_usage)

subsection \<open>Lemmas: the walk along merges\<close>

lemma follow_merge_hops_live:
  "follow_merge_hops n s acc = Some r \<Longrightarrow> \<exists>a. account_of s r = Some a \<and> a_merged_into a = None \<and> a_id a = r"
proof (induction n s acc rule: follow_merge_hops.induct)
  case (2 n s current)
  show ?case
  proof (cases "account_of s current")
    case (Some a)
    have id: "a_id a = current" using Some unfolding account_of_def by (auto dest: find_SomeD)
    show ?thesis
      using 2 Some id by (cases "a_merged_into a") auto
  qed (use 2 in simp)
qed simp

lemma follow_merge_live:
  "follow_merge s acc = Some r \<Longrightarrow> \<exists>a. account_of s r = Some a \<and> a_merged_into a = None \<and> a_id a = r"
  unfolding follow_merge_def by (rule follow_merge_hops_live)

lemma resolve_account_live:
  "resolve_account s u = Some r \<Longrightarrow> \<exists>a. account_of s r = Some a \<and> a_merged_into a = None \<and> a_id a = r"
  by (auto simp: resolve_account_def split: option.splits intro: follow_merge_live)

subsection \<open>Lemmas: the tier rule\<close>

lemma foldl_max:
  fixes f :: "'b \<Rightarrow> 'k::linorder"
  shows "foldl (\<lambda>best b. max best (f b)) t bs = Max (insert t (f ` set bs))"
proof (induction bs arbitrary: t)
  case (Cons b bs)
  show ?case
    using Cons[of "max t (f b)"] by (cases "set bs = {}") (simp_all add: max.assoc)
qed simp

lemma highest_entitled_Max:
  "highest_entitled_tier s acc =
     Max (insert Free (b_entitled_tier ` set (filter (\<lambda>b. b_account_id b = acc) (account_billing_ids s))))"
proof -
  have "(\<lambda>best b. if is_higher_tier (b_entitled_tier b) best then b_entitled_tier b else best) =
      (\<lambda>best (b :: billing_id_row). max best (b_entitled_tier b))"
    by (auto simp: max_def fun_eq_iff)
  then show ?thesis by (simp only: highest_entitled_tier_def foldl_max)
qed

lemma highest_entitled_ge:
  "b \<in> set (account_billing_ids s) \<Longrightarrow> b_account_id b = acc \<Longrightarrow> b_entitled_tier b \<le> highest_entitled_tier s acc"
  unfolding highest_entitled_Max by (rule Max_ge) auto

lemma highest_entitled_in:
  "highest_entitled_tier s acc = Free \<or>
   (\<exists>b \<in> set (account_billing_ids s). b_account_id b = acc \<and> b_entitled_tier b = highest_entitled_tier s acc)"
proof -
  have "highest_entitled_tier s acc \<in> insert Free (b_entitled_tier ` set (filter (\<lambda>b. b_account_id b = acc) (account_billing_ids s)))"
    unfolding highest_entitled_Max by (rule Max_in) auto
  then show ?thesis by auto
qed

lemma highest_entitled_cong:
  "account_billing_ids s' = account_billing_ids s \<Longrightarrow> highest_entitled_tier s' acc = highest_entitled_tier s acc"
  by (simp add: highest_entitled_tier_def)

lemma account_tier_after_covers: "account_tier_after current highest b a \<ge> highest"
  by (auto simp: account_tier_after_def Let_def)

lemma account_tier_after_cases: "account_tier_after current highest b a \<in> {current, highest}"
  by (simp add: account_tier_after_def Let_def)

text \<open>A billing event, a store read or the sweep lowers an account only when the billing id it
  is about paid for the tier that goes: its own row held at least the account's tier before and
  holds less now. The new tier is then the highest any other id still pays for. A raise always
  goes to that highest tier, and an id that paid for nothing never lowers anything.\<close>

theorem account_tier_rule:
  "(account_tier_after current highest row_before row_after < current \<longleftrightarrow>
      highest < current \<and> current \<le> row_before \<and> row_after < row_before) \<and>
   (account_tier_after current highest row_before row_after > current \<longleftrightarrow> highest > current) \<and>
   account_tier_after current highest row_before row_after \<in> {current, highest} \<and>
   highest \<le> account_tier_after current highest row_before row_after"
  by (auto simp: account_tier_after_def Let_def)

subsection \<open>What a writer of tiers promises\<close>

text \<open>The tier log explains every change: the rows a writer appends for an account lead from
  its tier before to its tier after, one change at a time. And an account is never on less than
  what one of its billing ids pays for.\<close>

fun log_chain :: "tier_change_row list \<Rightarrow> tier option \<Rightarrow> tier option \<Rightarrow> bool" where
  "log_chain [] a b \<longleftrightarrow> a = b"
| "log_chain (c # cs) a b \<longleftrightarrow> a = Some (tc_from c) \<and> tc_from c \<noteq> tc_to c \<and> log_chain cs (Some (tc_to c)) b"

definition log_for :: "ident \<Rightarrow> tier_change_row list \<Rightarrow> tier_change_row list" where
  "log_for acc cs = filter (\<lambda>c. tc_account_id c = acc) cs"

definition audited :: "db \<Rightarrow> db \<Rightarrow> bool" where
  "audited s s' \<longleftrightarrow> (\<exists>new. tier_changes s' = tier_changes s @ new \<and>
     (\<forall>acc. log_chain (log_for acc new) (tier_of s acc) (tier_of s' acc)))"

definition covers :: "db \<Rightarrow> bool" where
  "covers s \<longleftrightarrow> distinct (map b_app_user_id (account_billing_ids s)) \<and> (\<forall>b \<in> set (account_billing_ids s). case tier_of s (b_account_id b) of
     None \<Rightarrow> True | Some t \<Rightarrow> b_entitled_tier b \<le> t)"

lemma log_chain_append: "log_chain xs a b \<Longrightarrow> log_chain ys b c \<Longrightarrow> log_chain (xs @ ys) a c"
  by (induction xs arbitrary: a) auto

lemma audited_refl: "tier_changes s' = tier_changes s \<Longrightarrow> accounts s' = accounts s \<Longrightarrow> audited s s'"
  unfolding audited_def by (intro exI[of _ "[]"]) (simp add: log_for_def tier_of_def account_of_def)

lemma audited_trans:
  assumes "audited s1 s2" "audited s2 s3" shows "audited s1 s3"
proof -
  from assms(1) obtain n1 where 1: "tier_changes s2 = tier_changes s1 @ n1"
    "\<And>acc. log_chain (log_for acc n1) (tier_of s1 acc) (tier_of s2 acc)" by (auto simp: audited_def)
  from assms(2) obtain n2 where 2: "tier_changes s3 = tier_changes s2 @ n2"
    "\<And>acc. log_chain (log_for acc n2) (tier_of s2 acc) (tier_of s3 acc)" by (auto simp: audited_def)
  have "log_chain (log_for acc (n1 @ n2)) (tier_of s1 acc) (tier_of s3 acc)" for acc
    using log_chain_append[OF 1(2) 2(2)] by (simp add: log_for_def)
  then show ?thesis
    unfolding audited_def using 1(1) 2(1) by (intro exI[of _ "n1 @ n2"]) simp
qed

lemma settle_audited: "audited s (settle_tier acc rb ra reason ev at s)"
proof (cases "tier_of s acc")
  case (Some cur)
  let ?n = "account_tier_after cur (highest_entitled_tier s acc) rb ra"
  show ?thesis
  proof (cases "?n = cur")
    case False
    show ?thesis
      unfolding audited_def
      by (rule exI[of _ "[\<lparr>tc_account_id = acc, tc_from = cur, tc_to = ?n, tc_reason = reason, tc_event_id = ev, tc_changed_at = at\<rparr>]"])
        (use Some False in \<open>auto simp: settle_tier_def Let_def log_for_def tier_of_set_tier\<close>)
  qed (simp add: settle_tier_def Some audited_refl)
qed (simp add: settle_tier_def audited_refl)

lemma settle_frame [frame_simps]:
  "account_billing_ids (settle_tier acc rb ra reason ev at s) = account_billing_ids s"
  "billing_events (settle_tier acc rb ra reason ev at s) = billing_events s"
  "billing_packs (settle_tier acc rb ra reason ev at s) = billing_packs s"
  "billing_reads (settle_tier acc rb ra reason ev at s) = billing_reads s"
  by (simp_all add: settle_tier_def Let_def set_tier_def split: option.split)

lemma tier_of_settle:
  "tier_of (settle_tier acc rb ra reason ev at s) x =
     (if x = acc then map_option (\<lambda>cur. account_tier_after cur (highest_entitled_tier s acc) rb ra) (tier_of s acc)
      else tier_of s x)"
proof (cases "tier_of s acc")
  case (Some cur)
  then show ?thesis
    by (auto simp: settle_tier_def Let_def tier_of_set_tier)
qed (auto simp: settle_tier_def)

lemma settle_covers:
  assumes "\<And>b. b \<in> set (account_billing_ids s) \<Longrightarrow> b_account_id b \<noteq> acc \<Longrightarrow>
      (case tier_of s (b_account_id b) of None \<Rightarrow> True | Some t \<Rightarrow> b_entitled_tier b \<le> t)"
    and "distinct (map b_app_user_id (account_billing_ids s))"
  shows "covers (settle_tier acc rb ra reason ev at s)"
  unfolding covers_def
proof (intro conjI ballI)
  show "distinct (map b_app_user_id (account_billing_ids (settle_tier acc rb ra reason ev at s)))"
    using assms(2) by (simp add: frame_simps)
next
  fix b assume b: "b \<in> set (account_billing_ids (settle_tier acc rb ra reason ev at s))"
  then have b': "b \<in> set (account_billing_ids s)" by (simp add: frame_simps)
  show "case tier_of (settle_tier acc rb ra reason ev at s) (b_account_id b) of None \<Rightarrow> True | Some t \<Rightarrow> b_entitled_tier b \<le> t"
  proof (cases "b_account_id b = acc")
    case True
    have "b_entitled_tier b \<le> account_tier_after cur (highest_entitled_tier s acc) rb ra" for cur
      using highest_entitled_ge[OF b' True] account_tier_after_covers by (rule order_trans)
    with True show ?thesis by (simp add: tier_of_settle split: option.split)
  qed (use assms(1)[OF b'] in \<open>simp add: tier_of_settle\<close>)
qed

locale tier_writer =
  fixes put :: "'i \<Rightarrow> db \<Rightarrow> db"
  assumes put_audited: "audited s (put i s)"
    and put_covers: "covers s \<Longrightarrow> covers (put i s)"
begin

lemma puts_audited: "audited s (fold put js s)"
proof (induction js arbitrary: s)
  case (Cons i js)
  from audited_trans[OF put_audited[of s i] Cons[of "put i s"]] show ?case by simp
qed (simp add: audited_refl)

lemma puts_cover: "covers s \<Longrightarrow> covers (fold put js s)"
  by (induction js arbitrary: s) (auto intro: put_covers)

lemma silent_keeps:
  "tier_changes (fold put js s) = tier_changes s \<Longrightarrow> tier_of (fold put js s) acc = tier_of s acc"
proof -
  assume "tier_changes (fold put js s) = tier_changes s"
  with puts_audited[of s js] show ?thesis by (auto simp: audited_def log_for_def)
qed

end

lemma follow_merge_hops_cong:
  assumes "\<And>x. map_option (\<lambda>a. (a_id a, a_merged_into a)) (account_of s' x) = map_option (\<lambda>a. (a_id a, a_merged_into a)) (account_of s x)"
  shows "follow_merge_hops n s' acc = follow_merge_hops n s acc"
proof (induction n arbitrary: acc)
  case (Suc n)
  show ?case
    using assms[of acc]
    by (cases "account_of s acc"; cases "account_of s' acc") (auto simp: Suc split: option.splits)
qed simp

lemma merged_settle:
  "map_option (\<lambda>a. (a_id a, a_merged_into a)) (account_of (settle_tier acc rb ra reason ev at s) x) =
   map_option (\<lambda>a. (a_id a, a_merged_into a)) (account_of s x)"
proof -
  have "account_of (s'\<lparr>tier_changes := l\<rparr>) x = account_of s' x" for s' :: db and l
    by (simp add: account_of_def)
  then show ?thesis
    by (cases "account_of s x") (auto simp: settle_tier_def Let_def account_of_set_tier split: option.split)
qed

lemma follow_merge_settle [simp]: "follow_merge (settle_tier acc rb ra reason ev at s) x = follow_merge s x"
  unfolding follow_merge_def by (rule follow_merge_hops_cong) (rule merged_settle)

lemma follow_merge_accounts: "accounts s' = accounts s \<Longrightarrow> follow_merge s' x = follow_merge s x"
  unfolding follow_merge_def by (rule follow_merge_hops_cong) (simp add: account_of_def)

lemma follow_merge_self:
  assumes "account_of s r = Some a" "a_merged_into a = None" shows "follow_merge s r = Some r"
proof -
  have "a_id a = r" using assms(1) by (auto simp: account_of_def dest: find_SomeD)
  then show ?thesis using assms by (simp add: follow_merge_def numeral_eq_Suc)
qed

end
