(* ===== verification/Billing.thy ===== *)
theory Billing
  imports Tiers
begin

section \<open>Billing events and the reconcile sweep\<close>

text \<open>
  \<open>src/src/tier/revenuecat.ts\<close> (the event path), \<open>reconcile.ts\<close> (the daily sweep) and
  \<open>entitlement-read.ts\<close> (one read of the store and what its list means). The store is not part of
  the repository: what it answers is the argument \<open>fetch\<close>, a function of the page number and the path.
  A JSON body that does not fit its schema is \<open>None\<close>. Log lines are left out.
\<close>

subsection \<open>Events\<close>

record rc_event =
  rv_id :: "string option"
  rv_timestamp_ms :: "int option"
  rv_app_user_id :: ident
  rv_type :: string
  rv_entitlement_id :: "string option"
  rv_entitlement_ids :: "string list"
  rv_expiration_at_ms :: "int option"

type_synonym tier_map = "string \<Rightarrow> tier option"

fun first_configured :: "tier_map \<Rightarrow> string list \<Rightarrow> tier option" where
  "first_configured cfg [] = None"
| "first_configured cfg (e # es) = (case cfg e of Some t \<Rightarrow> Some t | None \<Rightarrow> first_configured cfg es)"

definition event_entitled_tier :: "tier_map \<Rightarrow> seconds \<Rightarrow> rc_event \<Rightarrow> tier option" where
  "event_entitled_tier cfg now ev =
     (if rv_type ev = ''EXPIRATION'' then Some Free
      else if (case rv_expiration_at_ms ev of None \<Rightarrow> False | Some x \<Rightarrow> x \<le> now * 1000) then Some Free
      else first_configured cfg ((case rv_entitlement_id ev of None \<Rightarrow> [] | Some e \<Rightarrow> [e]) @ rv_entitlement_ids ev))"

definition event_at :: "seconds \<Rightarrow> int option \<Rightarrow> seconds" where
  "event_at now ms = (case ms of None \<Rightarrow> now | Some x \<Rightarrow> x div 1000)"

definition event_id :: "string option \<Rightarrow> ident \<Rightarrow> string \<Rightarrow> seconds \<Rightarrow> ident" where
  "event_id given user typ at =
     (case given of Some x \<Rightarrow> x | None \<Rightarrow> ''rc:'' @ user @ '':'' @ typ @ '':'' @ int_text at)"

definition event_seen :: "db \<Rightarrow> ident \<Rightarrow> bool" where
  "event_seen s eid = list_ex (\<lambda>e. be_event_id e = eid) (billing_events s)"

definition is_stale :: "db \<Rightarrow> ident \<Rightarrow> seconds \<Rightarrow> bool" where
  "is_stale s user at =
     (case billing_row_of s user of None \<Rightarrow> False
      | Some b \<Rightarrow> (case b_last_event_at b of None \<Rightarrow> False | Some prev \<Rightarrow> at < prev))"

definition upsert_billing_row :: "ident \<Rightarrow> ident \<Rightarrow> seconds \<Rightarrow> seconds \<Rightarrow> tier \<Rightarrow> db \<Rightarrow> db" where
  "upsert_billing_row user acc now at t s =
     s\<lparr>account_billing_ids :=
         upsert (\<lambda>b. b_app_user_id b = user)
           (\<lambda>b. b\<lparr>b_account_id := acc, b_last_event_at := Some at, b_entitled_tier := t\<rparr>)
           \<lparr>b_app_user_id = user, b_account_id = acc, b_linked_at = now, b_last_event_at = Some at,
            b_entitled_tier = t, b_checked_at = None, b_read_seq = 0, b_applied_seq = 0\<rparr>
           (account_billing_ids s)\<rparr>"

definition apply_revenuecat_event :: "tier_map \<Rightarrow> seconds \<Rightarrow> rc_event \<Rightarrow> db \<Rightarrow> db" where
  "apply_revenuecat_event cfg now ev s =
     (let user = rv_app_user_id ev;
          at = event_at now (rv_timestamp_ms ev);
          eid = event_id (rv_id ev) user (rv_type ev) at
      in if event_seen s eid then s
         else (let target = resolve_account s user;
                   t = event_entitled_tier cfg now ev;
                   row_before = (case billing_row_of s user of None \<Rightarrow> Free | Some b \<Rightarrow> b_entitled_tier b);
                   applied = (target \<noteq> None \<and> t \<noteq> None \<and> \<not> is_stale s user at);
                   s1 = s\<lparr>billing_events := billing_events s @
                            [\<lparr>be_event_id = eid, be_app_user_id = user, be_account_id = target, be_type = rv_type ev,
                              be_event_at = at, be_applied = applied, be_received_at = now\<rparr>]\<rparr>
               in case (target, t) of
                    (Some acc, Some new) \<Rightarrow>
                      if applied
                      then settle_tier acc row_before new (''revenuecat '' @ rv_type ev @ '' for '' @ user) (Some eid) now
                             (upsert_billing_row user acc now at new s1)
                      else s1
                  | _ \<Rightarrow> s1))"

subsection \<open>Reading the store\<close>

record entitlement =
  en_id :: string
  en_expires_at :: "int option"

text \<open>What one request can come back with: no answer at all, or a status and, when the body fits
  the schema, its items and the path of the next page.\<close>

datatype page_answer = NoReply | Reply int "(entitlement list \<times> string option) option"

definition max_pages :: nat where "max_pages = 10"

definition page_ends :: "string option \<Rightarrow> bool" where
  "page_ends nxt \<longleftrightarrow> nxt = None \<or> nxt = Some ''''"

datatype read_failure = FailNetwork | FailStatus | FailBody | FailPages

datatype store_answer = StoreOk int "entitlement list" | StoreFailed "int option" read_failure

fun read_store_from :: "(nat \<Rightarrow> string \<Rightarrow> page_answer) \<Rightarrow> nat \<Rightarrow> nat \<Rightarrow> string \<Rightarrow> entitlement list \<Rightarrow> store_answer" where
  "read_store_from fetch 0 page path items = StoreFailed (Some 200) FailPages"
| "read_store_from fetch (Suc left) page path items =
     (case fetch page path of
        NoReply \<Rightarrow> StoreFailed None FailNetwork
      | Reply status body \<Rightarrow>
          if status = 404 \<and> page = 0 then StoreOk 404 []
          else if status \<noteq> 200 then StoreFailed (Some status) FailStatus
          else (case body of None \<Rightarrow> StoreFailed (Some 200) FailBody
                | Some (got, nxt) \<Rightarrow>
                    if page_ends nxt then StoreOk 200 (items @ got)
                    else read_store_from fetch left (Suc page) (the nxt) (items @ got)))"

definition read_store :: "(nat \<Rightarrow> string \<Rightarrow> page_answer) \<Rightarrow> string \<Rightarrow> store_answer" where
  "read_store fetch path = read_store_from fetch max_pages 0 path []"

text \<open>The sweep of \<open>reconcile.ts\<close> reads the same pages, and a 404 is a failure like any other there.\<close>

fun read_active_from :: "(nat \<Rightarrow> string \<Rightarrow> page_answer) \<Rightarrow> nat \<Rightarrow> nat \<Rightarrow> string \<Rightarrow> entitlement list \<Rightarrow> entitlement list option" where
  "read_active_from fetch 0 page path items = None"
| "read_active_from fetch (Suc left) page path items =
     (case fetch page path of
        NoReply \<Rightarrow> None
      | Reply status body \<Rightarrow>
          if status \<noteq> 200 then None
          else (case body of None \<Rightarrow> None
                | Some (got, nxt) \<Rightarrow>
                    if page_ends nxt then Some (items @ got)
                    else read_active_from fetch left (Suc page) (the nxt) (items @ got)))"

definition read_active_entitlements :: "(nat \<Rightarrow> string \<Rightarrow> page_answer) \<Rightarrow> string \<Rightarrow> entitlement list option" where
  "read_active_entitlements fetch path = read_active_from fetch max_pages 0 path []"

subsection \<open>The reconcile sweep\<close>

fun sweep_scan :: "tier_map \<Rightarrow> seconds \<Rightarrow> entitlement list \<Rightarrow> tier \<Rightarrow> string option \<Rightarrow> tier \<times> string option" where
  "sweep_scan cfg now [] best unknown = (best, unknown)"
| "sweep_scan cfg now (e # es) best unknown =
     (if (case en_expires_at e of None \<Rightarrow> False | Some x \<Rightarrow> x \<le> now * 1000) then sweep_scan cfg now es best unknown
      else (case cfg (en_id e) of
              None \<Rightarrow> sweep_scan cfg now es best (Some (en_id e))
            | Some t \<Rightarrow> sweep_scan cfg now es (if is_higher_tier t best then t else best) unknown))"

definition sweep_entitled_tier :: "tier_map \<Rightarrow> seconds \<Rightarrow> entitlement list \<Rightarrow> tier option" where
  "sweep_entitled_tier cfg now items =
     (case sweep_scan cfg now items Free None of (best, unknown) \<Rightarrow> if unknown = None then Some best else None)"

definition apply_tier :: "seconds \<Rightarrow> ident \<Rightarrow> tier \<Rightarrow> db \<Rightarrow> db" where
  "apply_tier now user t s =
     (case billing_row_of s user of None \<Rightarrow> s
      | Some b \<Rightarrow>
          (let s1 = (if b_entitled_tier b \<noteq> t
                     then s\<lparr>account_billing_ids := upd_where (\<lambda>r. b_app_user_id r = user)
                              (\<lambda>r. r\<lparr>b_entitled_tier := t\<rparr>) (account_billing_ids s)\<rparr>
                     else s)
           in settle_tier (b_account_id b) (b_entitled_tier b) t (''revenuecat reconcile for '' @ user) None now s1))"

definition reconcile_billing_id :: "tier_map \<Rightarrow> (nat \<Rightarrow> string \<Rightarrow> page_answer) \<Rightarrow> string \<Rightarrow> seconds \<Rightarrow> ident \<Rightarrow> db \<Rightarrow> db" where
  "reconcile_billing_id cfg fetch path now user s =
     (case read_active_entitlements fetch path of None \<Rightarrow> s
      | Some items \<Rightarrow> (case sweep_entitled_tier cfg now items of None \<Rightarrow> s | Some t \<Rightarrow> apply_tier now user t s))"

text \<open>The ids worth asking about, and the pass over them. The path of a customer and what the store
  answers about it are arguments; the clock is read again for every customer.\<close>

definition reconcile_ids :: "db \<Rightarrow> ident list" where
  "reconcile_ids s = sort (map b_app_user_id (account_billing_ids s))"

definition reconcile_account_ids :: "ident \<Rightarrow> db \<Rightarrow> ident list" where
  "reconcile_account_ids acc s = sort (map b_app_user_id (filter (\<lambda>b. b_account_id b = acc) (account_billing_ids s)))"

definition reconcile_each ::
  "tier_map \<Rightarrow> (ident \<Rightarrow> nat \<Rightarrow> string \<Rightarrow> page_answer) \<Rightarrow> (ident \<Rightarrow> string) \<Rightarrow> (ident \<Rightarrow> seconds) \<Rightarrow> ident list \<Rightarrow> db \<Rightarrow> db" where
  "reconcile_each cfg fetch path clk who s =
     fold (\<lambda>u. reconcile_billing_id cfg (fetch u) (path u) (clk u) u) who s"

definition reconcile_all ::
  "tier_map \<Rightarrow> (ident \<Rightarrow> nat \<Rightarrow> string \<Rightarrow> page_answer) \<Rightarrow> (ident \<Rightarrow> string) \<Rightarrow> (ident \<Rightarrow> seconds) \<Rightarrow> db \<Rightarrow> db" where
  "reconcile_all cfg fetch path clk s = reconcile_each cfg fetch path clk (reconcile_ids s) s"

definition reconcile_account ::
  "tier_map \<Rightarrow> (ident \<Rightarrow> nat \<Rightarrow> string \<Rightarrow> page_answer) \<Rightarrow> (ident \<Rightarrow> string) \<Rightarrow> (ident \<Rightarrow> seconds) \<Rightarrow> ident \<Rightarrow> db \<Rightarrow> db" where
  "reconcile_account cfg fetch path clk acc s = reconcile_each cfg fetch path clk (reconcile_account_ids acc s) s"

subsection \<open>Lemmas: rows of billing ids\<close>

lemma billing_row_in: "billing_row_of s u = Some b \<Longrightarrow> b \<in> set (account_billing_ids s) \<and> b_app_user_id b = u"
  unfolding billing_row_of_def by (rule find_SomeD)

lemma billing_row_upsert:
  "billing_row_of (upsert_billing_row user acc now at t s) u =
     (if u = user
      then Some (case billing_row_of s user of
             None \<Rightarrow> \<lparr>b_app_user_id = user, b_account_id = acc, b_linked_at = now, b_last_event_at = Some at,
                      b_entitled_tier = t, b_checked_at = None, b_read_seq = 0, b_applied_seq = 0\<rparr>
           | Some b \<Rightarrow> b\<lparr>b_account_id := acc, b_last_event_at := Some at, b_entitled_tier := t\<rparr>)
      else billing_row_of s u)"
  by (simp add: billing_row_of_def upsert_billing_row_def find_upsert_same find_upsert_other)

lemma upsert_billing_rows:
  assumes "b \<in> set (account_billing_ids (upsert_billing_row user acc now at t s))"
  shows "b_account_id b = acc \<or> b \<in> set (account_billing_ids s)"
  using assms by (auto simp: upsert_billing_row_def upsert_def table_simps split: if_splits)

lemma distinct_upsert_billing:
  "distinct (map b_app_user_id (account_billing_ids s)) \<Longrightarrow>
   distinct (map b_app_user_id (account_billing_ids (upsert_billing_row user acc now at t s)))"
  by (auto simp: upsert_billing_row_def upsert_def map_upd_where list_ex_iff)

lemma billing_frame [frame_simps]:
  "tier_of (upsert_billing_row user acc now at t s) x = tier_of s x"
  "tier_changes (upsert_billing_row user acc now at t s) = tier_changes s"
  "accounts (upsert_billing_row user acc now at t s) = accounts s"
  "billing_events (upsert_billing_row user acc now at t s) = billing_events s"
  by (simp_all add: upsert_billing_row_def tier_of_def account_of_def)

lemma billing_row_settle [simp]: "billing_row_of (settle_tier acc rb ra reason ev at s) u = billing_row_of s u"
  by (simp add: billing_row_of_def frame_simps)

lemma accounts_ids_settle: "account_of (settle_tier acc rb ra reason ev at s) x = None \<longleftrightarrow> account_of s x = None"
  by (auto simp: settle_tier_def Let_def account_of_set_tier split: option.split)
    (auto simp: account_of_def set_tier_def find_upd_where)

subsection \<open>Lemmas: events\<close>

lemma events_apply:
  "billing_events (apply_revenuecat_event cfg now ev s) =
     (if event_seen s (event_id (rv_id ev) (rv_app_user_id ev) (rv_type ev) (event_at now (rv_timestamp_ms ev)))
      then billing_events s
      else billing_events s @
        [\<lparr>be_event_id = event_id (rv_id ev) (rv_app_user_id ev) (rv_type ev) (event_at now (rv_timestamp_ms ev)),
          be_app_user_id = rv_app_user_id ev, be_account_id = resolve_account s (rv_app_user_id ev), be_type = rv_type ev,
          be_event_at = event_at now (rv_timestamp_ms ev),
          be_applied = (resolve_account s (rv_app_user_id ev) \<noteq> None \<and> event_entitled_tier cfg now ev \<noteq> None \<and>
             \<not> is_stale s (rv_app_user_id ev) (event_at now (rv_timestamp_ms ev))),
          be_received_at = now\<rparr>])"
  by (auto simp: apply_revenuecat_event_def Let_def frame_simps split: option.split)

lemma event_audited: "audited s (apply_revenuecat_event cfg now ev s)"
proof -
  have "audited s (settle_tier acc rb new reason e now (upsert_billing_row user acc now at new (s\<lparr>billing_events := l\<rparr>)))"
    for acc rb new reason e user at l
  proof (rule audited_trans[OF _ settle_audited])
    show "audited s (upsert_billing_row user acc now at new (s\<lparr>billing_events := l\<rparr>))"
      by (rule audited_refl) (simp_all add: frame_simps)
  qed
  moreover have "audited s (s\<lparr>billing_events := l\<rparr>)" for l
    by (rule audited_refl) simp_all
  ultimately show ?thesis
    by (auto simp: apply_revenuecat_event_def Let_def audited_refl split: option.split)
qed

lemma event_covers: assumes "covers s" shows "covers (apply_revenuecat_event cfg now ev s)"
proof -
  have "covers (settle_tier acc rb new reason e now (upsert_billing_row user acc now at new (s\<lparr>billing_events := l\<rparr>)))"
    for acc rb new reason e user at l
  proof (rule settle_covers)
    fix b assume "b \<in> set (account_billing_ids (upsert_billing_row user acc now at new (s\<lparr>billing_events := l\<rparr>)))"
      and "b_account_id b \<noteq> acc"
    then have "b \<in> set (account_billing_ids s)" using upsert_billing_rows by fastforce
    moreover have "tier_of (s\<lparr>billing_events := l\<rparr>) x = tier_of s x" for x
      by (simp add: tier_of_def account_of_def)
    ultimately show "case tier_of (upsert_billing_row user acc now at new (s\<lparr>billing_events := l\<rparr>)) (b_account_id b) of
        None \<Rightarrow> True | Some t \<Rightarrow> b_entitled_tier b \<le> t"
      using assms by (simp add: covers_def frame_simps)
  qed (use assms in \<open>auto simp: covers_def intro!: distinct_upsert_billing\<close>)
  moreover have "covers (s\<lparr>billing_events := l\<rparr>)" for l
    using assms by (simp add: covers_def tier_of_def account_of_def)
  ultimately show ?thesis
    using assms by (auto simp: apply_revenuecat_event_def Let_def split: option.split)
qed

interpretation event_writer: tier_writer "\<lambda>(cfg, now, ev). apply_revenuecat_event cfg now ev"
  by unfold_locales (auto simp: event_audited event_covers)

lemma sweep_tier_audited: "audited s (apply_tier now user t s)"
proof -
  have "audited s (settle_tier acc rb t reason e now (s\<lparr>account_billing_ids := l\<rparr>))" for acc rb reason e l
    by (rule audited_trans[OF audited_refl settle_audited]) simp_all
  then show ?thesis
    by (auto simp: apply_tier_def Let_def audited_refl settle_audited split: option.split)
qed

lemma sweep_tier_covers:
  assumes "covers s"
  shows "covers (apply_tier now user t s)"
proof (cases "billing_row_of s user")
  case (Some b)
  note b = billing_row_in[OF Some]
  let ?l = "upd_where (\<lambda>r. b_app_user_id r = user) (\<lambda>r. r\<lparr>b_entitled_tier := t\<rparr>) (account_billing_ids s)"
  have only: "r = b" if "r \<in> set (account_billing_ids s)" "b_app_user_id r = user" for r
    using distinct_map_unique[of b_app_user_id "account_billing_ids s"] assms that b by (auto simp: covers_def)
  have tier: "tier_of (s\<lparr>account_billing_ids := l\<rparr>) x = tier_of s x" for x l
    by (simp add: tier_of_def account_of_def)
  have "covers (settle_tier (b_account_id b) rb t reason e now (s\<lparr>account_billing_ids := ?l\<rparr>))" for rb reason e
  proof (rule settle_covers)
    fix r assume "r \<in> set (account_billing_ids (s\<lparr>account_billing_ids := ?l\<rparr>))" "b_account_id r \<noteq> b_account_id b"
    then have "r \<in> set (account_billing_ids s)"
      using only by (auto simp: table_simps split: if_splits)
    then show "case tier_of (s\<lparr>account_billing_ids := ?l\<rparr>) (b_account_id r) of None \<Rightarrow> True | Some t \<Rightarrow> b_entitled_tier r \<le> t"
      using assms by (simp add: covers_def tier)
  qed (use assms in \<open>simp add: covers_def map_upd_where\<close>)
  moreover have "covers (settle_tier (b_account_id b) rb t reason e now s)" for rb reason e
    using assms by (intro settle_covers) (simp_all add: covers_def)
  ultimately show ?thesis using Some by (simp add: apply_tier_def Let_def)
qed (use assms in \<open>simp add: apply_tier_def\<close>)

lemma reconcile_id_cases:
  "reconcile_billing_id cfg fetch path now user s = s \<or>
   (\<exists>t. reconcile_billing_id cfg fetch path now user s = apply_tier now user t s)"
  by (auto simp: reconcile_billing_id_def split: option.split)

lemma reconcile_id_audited: "audited s (reconcile_billing_id cfg fetch path now user s)"
  using reconcile_id_cases[of cfg fetch path now user s] by (auto simp: audited_refl sweep_tier_audited)

lemma reconcile_id_covers: "covers s \<Longrightarrow> covers (reconcile_billing_id cfg fetch path now user s)"
  using reconcile_id_cases[of cfg fetch path now user s] by (auto simp: sweep_tier_covers)

interpretation sweep_writer: tier_writer "\<lambda>(cfg, fetch, path, now, user). reconcile_billing_id cfg fetch path now user"
  by unfold_locales (auto simp: reconcile_id_audited reconcile_id_covers)

lemma reconcile_each_fold:
  "reconcile_each cfg fetch path clk who s =
     fold (\<lambda>(cfg, fetch, path, now, user). reconcile_billing_id cfg fetch path now user)
       (map (\<lambda>u. (cfg, fetch u, path u, clk u, u)) who) s"
  by (simp add: reconcile_each_def fold_map comp_def)

subsection \<open>Lemmas: pages\<close>

text \<open>The page a walk is on after \<open>n\<close> full pages, with what it has gathered: \<open>None\<close> once it stopped.\<close>

fun walk :: "(nat \<Rightarrow> string \<Rightarrow> page_answer) \<Rightarrow> string \<Rightarrow> nat \<Rightarrow> (string \<times> entitlement list) option" where
  "walk fetch path 0 = Some (path, [])"
| "walk fetch path (Suc n) =
     (case walk fetch path n of None \<Rightarrow> None
      | Some (p, items) \<Rightarrow> (case fetch n p of
            Reply status (Some (got, nxt)) \<Rightarrow> if status = 200 \<and> \<not> page_ends nxt then Some (the nxt, items @ got) else None
          | _ \<Rightarrow> None))"

definition walk_ends :: "(nat \<Rightarrow> string \<Rightarrow> page_answer) \<Rightarrow> string \<Rightarrow> nat \<Rightarrow> entitlement list \<Rightarrow> bool" where
  "walk_ends fetch path n items \<longleftrightarrow>
     (case walk fetch path n of None \<Rightarrow> False
      | Some (p, before) \<Rightarrow> (case fetch n p of
            Reply status (Some (got, nxt)) \<Rightarrow> status = 200 \<and> page_ends nxt \<and> items = before @ got
          | _ \<Rightarrow> False))"

lemma walk_mono: "walk fetch path m = None \<Longrightarrow> m \<le> n \<Longrightarrow> walk fetch path n = None"
  by (induction n) (auto simp: le_Suc_eq)

lemma walk_ends_stops: "walk_ends fetch path n items \<Longrightarrow> walk fetch path (Suc n) = None"
  by (auto simp: walk_ends_def split: option.splits page_answer.splits)

lemma read_store_walk:
  "walk fetch path page = Some (p, before) \<Longrightarrow>
   read_store_from fetch left page p before = StoreOk 200 items \<longleftrightarrow>
     (\<exists>n. page \<le> n \<and> n < page + left \<and> walk_ends fetch path n items)"
proof (induction left arbitrary: page p before)
  case 0
  then show ?case by simp
next
  case (Suc left)
  have split: "(\<exists>n. page \<le> n \<and> n < page + Suc left \<and> walk_ends fetch path n items) \<longleftrightarrow>
      walk_ends fetch path page items \<or> (\<exists>n. Suc page \<le> n \<and> n < Suc page + left \<and> walk_ends fetch path n items)"
  proof -
    have "page \<le> n \<longleftrightarrow> n = page \<or> Suc page \<le> n" for n by auto
    then show ?thesis by (metis add_Suc add_Suc_right less_add_Suc1)
  qed
  have none: "\<not> (\<exists>n. Suc page \<le> n \<and> n < Suc page + left \<and> walk_ends fetch path n items)"
    if "walk fetch path (Suc page) = None"
    using walk_mono[OF that] by (auto simp: walk_ends_def)
  show ?case
  proof (cases "fetch page p")
    case NoReply
    then show ?thesis using Suc.prems none unfolding split by (simp add: walk_ends_def)
  next
    case (Reply status body)
    show ?thesis
    proof (cases body)
      case None
      then show ?thesis using Suc.prems none Reply unfolding split by (simp add: walk_ends_def)
    next
      case (Some b)
      obtain got nxt where b: "b = (got, nxt)" by fastforce
      show ?thesis
        using Suc.prems none Reply Some b Suc.IH[of "Suc page" "the nxt" "before @ got"] unfolding split
        by (auto simp: walk_ends_def)
    qed
  qed
qed

lemma read_active_eq:
  "read_active_from fetch left page p before = Some items \<longleftrightarrow> read_store_from fetch left page p before = StoreOk 200 items"
  by (induction fetch left page p before rule: read_active_from.induct) (auto split: page_answer.splits option.splits)

lemma read_store_status:
  "read_store_from fetch left page p before = StoreOk status got \<Longrightarrow>
     status = 200 \<or> status = 404 \<and> got = [] \<and> page = 0 \<and> (\<exists>body. fetch 0 p = Reply 404 body)"
proof (induction left arbitrary: page p before)
  case (Suc left)
  show ?case
    using Suc.prems by (auto split: page_answer.splits option.splits if_splits dest!: Suc.IH)
qed simp

text \<open>C31: Half a list is never taken for the whole one. The store read succeeds with a list exactly
  when some walk of at most ten pages, each a 200 whose body fits, reaches a page that names no
  next one, and the list is then everything the walk gathered; the reconcile sweep accepts the same
  lists and nothing else. The one other success is a customer the first page does not know.\<close>

theorem store_read_is_complete:
  "(read_store fetch path = StoreOk 200 items \<longleftrightarrow> (\<exists>n < 10. walk_ends fetch path n items)) \<and>
   (read_active_entitlements fetch path = Some items \<longleftrightarrow> read_store fetch path = StoreOk 200 items) \<and>
   (\<forall>got status. read_store fetch path = StoreOk status got \<longrightarrow>
      status = 200 \<or> status = 404 \<and> got = [] \<and> (\<exists>body. fetch 0 path = Reply 404 body))"
proof (intro conjI allI impI)
  show "read_store fetch path = StoreOk 200 items \<longleftrightarrow> (\<exists>n < 10. walk_ends fetch path n items)"
    unfolding read_store_def max_pages_def by (subst read_store_walk[of fetch path 0 path "[]"]) auto
  show "read_active_entitlements fetch path = Some items \<longleftrightarrow> read_store fetch path = StoreOk 200 items"
    unfolding read_active_entitlements_def read_store_def by (rule read_active_eq)
  fix got status assume "read_store fetch path = StoreOk status got"
  then show "status = 200 \<or> status = 404 \<and> got = [] \<and> (\<exists>body. fetch 0 path = Reply 404 body)"
    unfolding read_store_def using read_store_status by blast
qed

subsection \<open>Lemmas: what an event leaves behind\<close>

definition event_key :: "seconds \<Rightarrow> rc_event \<Rightarrow> ident" where
  "event_key now ev = event_id (rv_id ev) (rv_app_user_id ev) (rv_type ev) (event_at now (rv_timestamp_ms ev))"

definition paid :: "db \<Rightarrow> ident \<Rightarrow> (ident \<times> tier \<times> seconds option) option" where
  "paid s u = map_option (\<lambda>b. (b_account_id b, b_entitled_tier b, b_last_event_at b)) (billing_row_of s u)"

lemma event_seen_apply:
  "event_seen (apply_revenuecat_event cfg now ev s) eid \<longleftrightarrow> event_seen s eid \<or> eid = event_key now ev"
  by (auto simp: event_seen_def events_apply event_key_def)

lemma event_seen_fold:
  "event_seen s eid \<Longrightarrow> event_seen (fold (\<lambda>(cfg, now, ev). apply_revenuecat_event cfg now ev) es s) eid"
  by (induction es arbitrary: s) (auto simp: event_seen_apply)

lemma apply_seen: "event_seen s (event_key now ev) \<Longrightarrow> apply_revenuecat_event cfg now ev s = s"
  by (simp add: apply_revenuecat_event_def event_key_def)

lemma resolve_row:
  "paid s u = Some (acc, t, l) \<Longrightarrow> resolve_account s u = follow_merge s acc"
  "paid s u = None \<Longrightarrow> resolve_account s u = (case account_of s u of None \<Rightarrow> None | Some a \<Rightarrow> follow_merge s (a_id a))"
  by (auto simp: paid_def resolve_account_def split: option.splits)

lemma paid_apply:
  assumes "rv_app_user_id ev = u" "\<not> event_seen s (event_key now ev)" "resolve_account s u = Some acc"
    "event_entitled_tier cfg now ev = Some t"
  shows "paid (apply_revenuecat_event cfg now ev s) u =
     (if is_stale s u (event_at now (rv_timestamp_ms ev)) then paid s u
      else Some (acc, t, Some (event_at now (rv_timestamp_ms ev))))"
proof -
  have ev: "billing_row_of (s\<lparr>billing_events := l\<rparr>) x = billing_row_of s x" for l x
    by (simp add: billing_row_of_def)
  show ?thesis
    using assms(2-4) unfolding apply_revenuecat_event_def assms(1) event_key_def Let_def
    by (auto simp: paid_def billing_row_upsert ev split: option.split)
qed

lemma resolve_apply:
  assumes "rv_app_user_id ev = u" "\<not> event_seen s (event_key now ev)" "resolve_account s u = Some acc"
    "event_entitled_tier cfg now ev = Some t"
  shows "resolve_account (apply_revenuecat_event cfg now ev s) u = Some acc"
proof -
  let ?s = "apply_revenuecat_event cfg now ev s"
  obtain a where a: "account_of s acc = Some a" "a_merged_into a = None"
    using resolve_account_live[OF assms(3)] by auto
  have fm: "follow_merge ?s x = follow_merge s x" for x
  proof -
    have "follow_merge (s\<lparr>billing_events := l\<rparr>) x = follow_merge s x" for l
      by (rule follow_merge_accounts) simp
    moreover have "follow_merge (upsert_billing_row user ac now at n (s\<lparr>billing_events := l\<rparr>)) x = follow_merge s x" for user ac at n l
      by (rule follow_merge_accounts) (simp add: frame_simps)
    ultimately show ?thesis
      using assms(2) unfolding apply_revenuecat_event_def event_key_def Let_def by (auto split: option.split)
  qed
  show ?thesis
  proof (cases "is_stale s u (event_at now (rv_timestamp_ms ev))")
    case True
    then have "paid ?s u = paid s u" using paid_apply[OF assms] by simp
    moreover have "paid s u \<noteq> None"
      using True by (auto simp: is_stale_def paid_def split: option.splits)
    ultimately show ?thesis using resolve_row(1) fm assms(3) by (cases "paid s u") auto
  next
    case False
    then show ?thesis
      using resolve_row(1)[of ?s u acc] paid_apply[OF assms] fm follow_merge_self[OF a] by simp
  qed
qed

lemma is_stale_paid: "is_stale s u at \<longleftrightarrow> (case paid s u of Some (_, _, Some l) \<Rightarrow> at < l | _ \<Rightarrow> False)"
  by (auto simp: is_stale_def paid_def split: option.splits)

lemma paid_two:
  assumes "rv_app_user_id e1 = u" "rv_app_user_id e2 = u"
    and "\<not> event_seen s (event_key n1 e1)" "\<not> event_seen s (event_key n2 e2)" "event_key n1 e1 \<noteq> event_key n2 e2"
    and "resolve_account s u = Some acc"
    and "event_entitled_tier cfg n1 e1 = Some t1" "event_entitled_tier cfg n2 e2 = Some t2"
  shows "paid (apply_revenuecat_event cfg n2 e2 (apply_revenuecat_event cfg n1 e1 s)) u =
    (let at1 = event_at n1 (rv_timestamp_ms e1); at2 = event_at n2 (rv_timestamp_ms e2)
     in if is_stale s u at1 then (if is_stale s u at2 then paid s u else Some (acc, t2, Some at2))
        else if at2 < at1 then Some (acc, t1, Some at1) else Some (acc, t2, Some at2))"
proof -
  let ?s1 = "apply_revenuecat_event cfg n1 e1 s"
  have 1: "\<not> event_seen ?s1 (event_key n2 e2)" using assms(4,5) by (simp add: event_seen_apply)
  note r = resolve_apply[OF assms(1,3,6,7)]
  show ?thesis
    using paid_apply[OF assms(2) 1 r assms(8)] paid_apply[OF assms(1,3,6,7)]
    by (auto simp: Let_def is_stale_paid[of ?s1] is_stale_paid[of s])
qed

text \<open>A billing event counts once. Whatever other events arrive in between, an event delivered
  again under the same id (its own, or the one rebuilt from its parts) changes nothing at all.\<close>

theorem event_counts_once:
  assumes "event_key now' ev' = event_key now ev"
  shows "apply_revenuecat_event cfg' now' ev' (fold (\<lambda>(c, n, e). apply_revenuecat_event c n e) es (apply_revenuecat_event cfg now ev s))
    = fold (\<lambda>(c, n, e). apply_revenuecat_event c n e) es (apply_revenuecat_event cfg now ev s)"
proof -
  have "event_seen (apply_revenuecat_event cfg now ev s) (event_key now ev)" by (simp add: event_seen_apply)
  then have "event_seen (fold (\<lambda>(c, n, e). apply_revenuecat_event c n e) es (apply_revenuecat_event cfg now ev s)) (event_key now' ev')"
    unfolding assms by (rule event_seen_fold)
  then show ?thesis by (rule apply_seen)
qed

text \<open>Two events of one billing id that arrive in the wrong order leave what they would have left
  in the right one: the account, the tier and the time of the later event. The older one, arriving
  last, is recorded and ignored.\<close>

theorem events_in_either_order:
  assumes "rv_app_user_id e1 = u" "rv_app_user_id e2 = u"
    and "\<not> event_seen s (event_key n1 e1)" "\<not> event_seen s (event_key n2 e2)" "event_key n1 e1 \<noteq> event_key n2 e2"
    and "resolve_account s u = Some acc"
    and "event_entitled_tier cfg n1 e1 = Some t1" "event_entitled_tier cfg n2 e2 = Some t2"
    and "event_at n1 (rv_timestamp_ms e1) < event_at n2 (rv_timestamp_ms e2)"
  shows "paid (apply_revenuecat_event cfg n2 e2 (apply_revenuecat_event cfg n1 e1 s)) u =
    paid (apply_revenuecat_event cfg n1 e1 (apply_revenuecat_event cfg n2 e2 s)) u"
  using paid_two[OF assms(1-8)] paid_two[OF assms(2,1,4,3) assms(5)[symmetric] assms(6,8,7)] assms(9)
  by (auto simp: Let_def is_stale_def split: option.splits)

subsection \<open>A concrete customer\<close>

definition demo_account :: account_row where
  "demo_account = \<lparr>a_id = ''acc1'', a_tier = Free, a_created_at = 1, a_join_token_hash = None, a_merged_into = None\<rparr>"

definition demo_customers :: db where
  "demo_customers = empty_db\<lparr>accounts := [demo_account]\<rparr>"

definition demo_map :: tier_map where
  "demo_map = (\<lambda>e. if e = ''relay_monthly'' then Some Relay else None)"

definition demo_renewal :: rc_event where
  "demo_renewal = \<lparr>rv_id = Some ''e1'', rv_timestamp_ms = Some 50000, rv_app_user_id = ''acc1'', rv_type = ''RENEWAL'',
     rv_entitlement_id = Some ''relay_monthly'', rv_entitlement_ids = [], rv_expiration_at_ms = None\<rparr>"

definition demo_expiration :: rc_event where
  "demo_expiration = \<lparr>rv_id = Some ''e2'', rv_timestamp_ms = Some 90000, rv_app_user_id = ''acc1'', rv_type = ''EXPIRATION'',
     rv_entitlement_id = Some ''relay_monthly'', rv_entitlement_ids = [], rv_expiration_at_ms = None\<rparr>"

lemmas demo_billing_defs = demo_account_def demo_customers_def demo_map_def demo_renewal_def demo_expiration_def empty_db_def

lemma demo_resolves: "resolve_account demo_customers ''acc1'' = Some ''acc1''"
  by (simp add: resolve_account_def billing_row_of_def account_of_def follow_merge_def numeral_eq_Suc demo_billing_defs)

theorem event_counts_once_witness:
  "apply_revenuecat_event demo_map 200 demo_renewal (apply_revenuecat_event demo_map 100 demo_renewal demo_customers)
    = apply_revenuecat_event demo_map 100 demo_renewal demo_customers"
  using event_counts_once[where es = "[]" and ev = demo_renewal and ev' = demo_renewal and now = 100 and now' = 200]
  by (simp add: event_key_def event_id_def demo_renewal_def)

theorem events_in_either_order_witness:
  "paid (apply_revenuecat_event demo_map 101 demo_expiration (apply_revenuecat_event demo_map 100 demo_renewal demo_customers)) ''acc1'' =
    paid (apply_revenuecat_event demo_map 100 demo_renewal (apply_revenuecat_event demo_map 101 demo_expiration demo_customers)) ''acc1''"
proof (rule events_in_either_order[OF _ _ _ _ _ demo_resolves])
  show "event_entitled_tier demo_map 100 demo_renewal = Some Relay" "event_entitled_tier demo_map 101 demo_expiration = Some Free"
    by (simp_all add: event_entitled_tier_def demo_billing_defs)
qed (simp_all add: event_seen_def event_key_def event_id_def event_at_def demo_billing_defs)

definition demo_pages :: "nat \<Rightarrow> string \<Rightarrow> page_answer" where
  "demo_pages n p = (if p = ''/c'' then Reply 200 (Some ([\<lparr>en_id = ''relay_monthly'', en_expires_at = None\<rparr>], Some ''/c2''))
     else Reply 200 (Some ([\<lparr>en_id = ''pro'', en_expires_at = Some 5000\<rparr>], None)))"

theorem store_read_is_complete_witness:
  "read_active_entitlements demo_pages ''/c'' = Some [\<lparr>en_id = ''relay_monthly'', en_expires_at = None\<rparr>, \<lparr>en_id = ''pro'', en_expires_at = Some 5000\<rparr>]"
proof -
  have "walk_ends demo_pages ''/c'' 1 [\<lparr>en_id = ''relay_monthly'', en_expires_at = None\<rparr>, \<lparr>en_id = ''pro'', en_expires_at = Some 5000\<rparr>]"
    by (simp add: walk_ends_def demo_pages_def page_ends_def)
  then show ?thesis
    using store_read_is_complete[of demo_pages "''/c''" "[\<lparr>en_id = ''relay_monthly'', en_expires_at = None\<rparr>, \<lparr>en_id = ''pro'', en_expires_at = Some 5000\<rparr>]"]
    by (metis one_less_numeral_iff semiring_norm(76))
qed

end
