(* ===== verification/Packs.thy ===== *)
theory Packs
  imports Tiers
begin

section \<open>Packs an account holds beside its tier\<close>

text \<open>
  \<open>src/src/tier/packs.ts\<close>. Three sources give an account a pack: what its billing ids hold, what the
  operator granted, and what the configuration attaches to its tier. \<open>packs_for\<close> is the one answer.
\<close>

definition pack_ids :: "string list" where
  "pack_ids = [''pro'']"

definition is_pack_id :: "string \<Rightarrow> bool" where
  "is_pack_id p \<longleftrightarrow> p \<in> set pack_ids"

record pack_rules =
  pr_includes :: "tier \<Rightarrow> string list"
  pr_store_reads :: bool

type_synonym held_pack = "string \<times> seconds option"

definition ends_after :: "seconds \<Rightarrow> seconds option \<Rightarrow> bool" where
  "ends_after now e \<longleftrightarrow> (case e of None \<Rightarrow> True | Some x \<Rightarrow> x > now)"

text \<open>The \<open>UNION ALL\<close> of the query: billing packs first, then grants, and after them the packs of the tier.\<close>

definition stored_packs :: "seconds \<Rightarrow> ident \<Rightarrow> pack_rules \<Rightarrow> db \<Rightarrow> held_pack list" where
  "stored_packs now acc rules s =
     map (\<lambda>p. (bp_pack p, bp_expires_at p))
       (filter (\<lambda>p. list_ex (\<lambda>b. b_app_user_id b = bp_app_user_id p \<and> b_account_id b = acc) (account_billing_ids s) \<and>
                    (pr_store_reads rules \<or> ends_after now (bp_expires_at p))) (billing_packs s))"

definition granted_packs :: "seconds \<Rightarrow> ident \<Rightarrow> db \<Rightarrow> held_pack list" where
  "granted_packs now acc s =
     map (\<lambda>g. (g_pack g, g_expires_at g))
       (filter (\<lambda>g. g_account_id g = acc \<and> ends_after now (g_expires_at g)) (account_pack_grants s))"

definition held_packs :: "seconds \<Rightarrow> ident \<Rightarrow> pack_rules \<Rightarrow> tier \<Rightarrow> db \<Rightarrow> held_pack list" where
  "held_packs now acc rules t s =
     stored_packs now acc rules s @ granted_packs now acc s @ map (\<lambda>p. (p, None)) (pr_includes rules t)"

fun best_packs :: "held_pack list \<Rightarrow> (string \<rightharpoonup> seconds option) \<Rightarrow> (string \<rightharpoonup> seconds option)" where
  "best_packs [] best = best"
| "best_packs ((p, e) # held) best =
     best_packs held
       (if \<not> is_pack_id p then best
        else (case best p of
                None \<Rightarrow> best(p \<mapsto> e)
              | Some None \<Rightarrow> best
              | Some (Some c) \<Rightarrow> best(p \<mapsto> (case e of None \<Rightarrow> None | Some x \<Rightarrow> Some (max c x)))))"

definition packs_for :: "seconds \<Rightarrow> ident \<Rightarrow> pack_rules \<Rightarrow> db \<Rightarrow> held_pack list" where
  "packs_for now acc rules s =
     (case tier_of s acc of None \<Rightarrow> []
      | Some t \<Rightarrow>
          (let best = best_packs (held_packs now acc rules t s) (\<lambda>_. None)
           in map (\<lambda>p. (p, the (best p))) (filter (\<lambda>p. best p \<noteq> None) pack_ids)))"

definition holds_pack :: "seconds \<Rightarrow> ident \<Rightarrow> string \<Rightarrow> pack_rules \<Rightarrow> db \<Rightarrow> bool" where
  "holds_pack now acc p rules s = list_ex (\<lambda>e. fst e = p) (packs_for now acc rules s)"

definition packs_checked_at :: "ident \<Rightarrow> db \<Rightarrow> seconds option" where
  "packs_checked_at acc s =
     (case List.map_filter b_checked_at (filter (\<lambda>b. b_account_id b = acc) (account_billing_ids s)) of
        [] \<Rightarrow> None | x # xs \<Rightarrow> Some (foldl min x xs))"

subsection \<open>Lemmas\<close>

text \<open>What a list of sources says about one pack: no end date if one source has none, else the latest.\<close>

definition ends_of :: "string \<Rightarrow> held_pack list \<Rightarrow> seconds option list" where
  "ends_of p held = map snd (filter (\<lambda>h. fst h = p) held)"

definition latest_end :: "seconds option list \<Rightarrow> seconds option option" where
  "latest_end es = (if es = [] then None else if None \<in> set es then Some None else Some (Some (Max (the ` set es))))"

definition join_end :: "seconds option option \<Rightarrow> seconds option \<Rightarrow> seconds option option" where
  "join_end b e = (case b of None \<Rightarrow> Some e | Some None \<Rightarrow> Some None
     | Some (Some c) \<Rightarrow> Some (case e of None \<Rightarrow> None | Some x \<Rightarrow> Some (max c x)))"

lemma join_end_simps [simp]:
  "join_end None e = Some e"
  "join_end (Some None) e = Some None"
  "join_end (Some (Some c)) None = Some None"
  "join_end (Some (Some c)) (Some x) = Some (Some (max c x))"
  by (simp_all add: join_end_def)

lemma best_packs_foldl:
  "is_pack_id p \<Longrightarrow> best_packs held best p = foldl join_end (best p) (ends_of p held)"
proof (induction held best rule: best_packs.induct)
  case (2 q e held best)
  show ?case
    by (subst best_packs.simps, subst "2.IH")
      (use "2.prems" in \<open>auto simp: ends_of_def join_end_def split: option.split\<close>)
qed (simp add: ends_of_def)

lemma foldl_join_None: "foldl join_end (Some None) es = Some None"
  by (induction es) auto

lemma foldl_join_Some:
  "foldl join_end (Some (Some c)) es = (if None \<in> set es then Some None else Some (Some (Max (insert c (the ` set es)))))"
proof (induction es arbitrary: c)
  case (Cons e es)
  show ?case
  proof (cases e)
    case None
    then show ?thesis by (simp add: foldl_join_None)
  next
    case (Some x)
    have "Max (insert (max c x) (the ` set es)) = Max (insert c (insert x (the ` set es)))"
      by (cases "set es = {}") (simp_all add: max.assoc)
    with Some show ?thesis using Cons[of "max c x"] by simp
  qed
qed simp

lemma foldl_join_latest: "foldl join_end None es = latest_end es"
proof (cases es)
  case (Cons e es')
  show ?thesis
    using Cons by (cases e) (simp_all add: foldl_join_None foldl_join_Some latest_end_def)
qed (simp add: latest_end_def)

lemma packs_for_latest:
  "tier_of s acc = Some t \<Longrightarrow>
   packs_for now acc rules s =
     map (\<lambda>p. (p, the (latest_end (ends_of p (held_packs now acc rules t s)))))
       (filter (\<lambda>p. ends_of p (held_packs now acc rules t s) \<noteq> []) pack_ids)"
  by (auto simp: packs_for_def Let_def pack_ids_def is_pack_id_def best_packs_foldl foldl_join_latest latest_end_def)

lemma ends_of_append [simp]: "ends_of p (xs @ ys) = ends_of p xs @ ends_of p ys"
  by (simp add: ends_of_def)

lemma ends_of_empty: "ends_of p held = [] \<longleftrightarrow> (\<forall>e. (p, e) \<notin> set held)"
  by (auto simp: ends_of_def filter_empty_conv)

text \<open>An account holds a pack exactly while one of its three sources gives it: a billing id of its
  own (on a relay that reads the store whatever the saved end date says, elsewhere until that
  date), a grant whose date has not passed, or its tier's configuration. Each pack is reported
  once, without an end date if some source has none, and with the latest end otherwise.\<close>

theorem packs_come_from_sources:
  assumes "tier_of s acc = Some t" "is_pack_id p"
  shows "(holds_pack now acc p rules s \<longleftrightarrow>
      (\<exists>x \<in> set (billing_packs s). bp_pack x = p \<and> (pr_store_reads rules \<or> ends_after now (bp_expires_at x)) \<and>
          (\<exists>b \<in> set (account_billing_ids s). b_app_user_id b = bp_app_user_id x \<and> b_account_id b = acc)) \<or>
      (\<exists>g \<in> set (account_pack_grants s). g_pack g = p \<and> g_account_id g = acc \<and> ends_after now (g_expires_at g)) \<or>
      p \<in> set (pr_includes rules t)) \<and>
    distinct (map fst (packs_for now acc rules s)) \<and>
    ((p, e) \<in> set (packs_for now acc rules s) \<longrightarrow> latest_end (ends_of p (held_packs now acc rules t s)) = Some e)"
proof (intro conjI)
  have p: "p \<in> set pack_ids" using assms(2) by (simp add: is_pack_id_def)
  have holds: "holds_pack now acc p rules s \<longleftrightarrow> ends_of p (held_packs now acc rules t s) \<noteq> []"
    using p by (auto simp: holds_pack_def packs_for_latest[OF assms(1)] list_ex_iff)
  show "holds_pack now acc p rules s \<longleftrightarrow>
      (\<exists>x \<in> set (billing_packs s). bp_pack x = p \<and> (pr_store_reads rules \<or> ends_after now (bp_expires_at x)) \<and>
          (\<exists>b \<in> set (account_billing_ids s). b_app_user_id b = bp_app_user_id x \<and> b_account_id b = acc)) \<or>
      (\<exists>g \<in> set (account_pack_grants s). g_pack g = p \<and> g_account_id g = acc \<and> ends_after now (g_expires_at g)) \<or>
      p \<in> set (pr_includes rules t)"
    unfolding holds ends_of_empty held_packs_def stored_packs_def granted_packs_def
    by (auto simp: list_ex_iff image_iff)
  show "distinct (map fst (packs_for now acc rules s))"
    by (simp add: packs_for_latest[OF assms(1)] comp_def pack_ids_def)
  show "(p, e) \<in> set (packs_for now acc rules s) \<longrightarrow> latest_end (ends_of p (held_packs now acc rules t s)) = Some e"
    by (auto simp: packs_for_latest[OF assms(1)] latest_end_def)
qed

definition demo_pack_db :: db where
  "demo_pack_db = empty_db\<lparr>accounts := [\<lparr>a_id = ''acc1'', a_tier = Relay, a_created_at = 1, a_join_token_hash = None, a_merged_into = None\<rparr>],
     account_billing_ids := [\<lparr>b_app_user_id = ''u1'', b_account_id = ''acc1'', b_linked_at = 1, b_last_event_at = None,
        b_entitled_tier = Relay, b_checked_at = None, b_read_seq = 0, b_applied_seq = 0\<rparr>],
     billing_packs := [\<lparr>bp_app_user_id = ''u1'', bp_pack = ''pro'', bp_expires_at = Some 50\<rparr>],
     account_pack_grants := [\<lparr>g_account_id = ''acc1'', g_pack = ''pro'', g_expires_at = Some 200, g_reason = '''', g_granted_at = 1\<rparr>]\<rparr>"

theorem packs_come_from_sources_witness:
  "holds_pack 100 ''acc1'' ''pro'' \<lparr>pr_includes = (\<lambda>_. []), pr_store_reads = False\<rparr> demo_pack_db \<and>
   \<not> holds_pack 300 ''acc1'' ''pro'' \<lparr>pr_includes = (\<lambda>_. []), pr_store_reads = False\<rparr> demo_pack_db"
proof -
  have t: "tier_of demo_pack_db ''acc1'' = Some Relay" and p: "is_pack_id ''pro''"
    by (simp_all add: tier_of_def account_of_def demo_pack_db_def is_pack_id_def pack_ids_def)
  show ?thesis
    using packs_come_from_sources[OF t p, of 100 "\<lparr>pr_includes = (\<lambda>_. []), pr_store_reads = False\<rparr>"]
      packs_come_from_sources[OF t p, of 300 "\<lparr>pr_includes = (\<lambda>_. []), pr_store_reads = False\<rparr>"]
    by (simp add: demo_pack_db_def ends_after_def)
qed

end
