(* ===== verification/BillingReads.thy ===== *)
theory BillingReads
  imports Billing Packs "HOL-Library.AList"
begin

section \<open>The fenced store reads\<close>

text \<open>
  \<open>src/src/tier/billing-reads.ts\<close>, \<open>billing-shadow.ts\<close>, \<open>revenuecat-trigger.ts\<close> and \<open>viewEntitlements\<close>
  of \<open>entitlement-read.ts\<close>. With reading on, a read of the store is the only writer of tiers and packs.
  The class keeps its state in the database and in two maps in memory, so the state here is the
  record \<open>reads_world\<close>. A method that awaits the network is split where it waits: \<open>start_read\<close> runs up to
  the request, \<open>finish_read\<close> from the answer on. In between any other step may run.
\<close>

subsection \<open>What a list of entitlements means\<close>

record store_view =
  sv_ids :: "string list"
  sv_unknown :: "string list"
  sv_tier :: tier
  sv_packs :: "held_pack list"

type_synonym pack_map = "string \<Rightarrow> string option"

definition note_pack :: "string \<Rightarrow> seconds option \<Rightarrow> held_pack list \<Rightarrow> held_pack list" where
  "note_pack p e packs =
     (case map_of packs p of
        None \<Rightarrow> AList.update p e packs
      | Some None \<Rightarrow> packs
      | Some (Some held) \<Rightarrow> AList.update p (case e of None \<Rightarrow> None | Some x \<Rightarrow> Some (max held x)) packs)"

definition view_item :: "tier_map \<Rightarrow> pack_map \<Rightarrow> entitlement \<Rightarrow> store_view \<Rightarrow> store_view" where
  "view_item tiers packs e v =
     (case (tiers (en_id e), packs (en_id e)) of
        (None, None) \<Rightarrow> if en_id e \<in> set (sv_unknown v) then v else v\<lparr>sv_unknown := sv_unknown v @ [en_id e]\<rparr>
      | (t, p) \<Rightarrow>
          (let v1 = (case t of None \<Rightarrow> v | Some x \<Rightarrow> if is_higher_tier x (sv_tier v) then v\<lparr>sv_tier := x\<rparr> else v)
           in (case p of None \<Rightarrow> v1
               | Some q \<Rightarrow> v1\<lparr>sv_packs := note_pack q (map_option (\<lambda>ms. ms div 1000) (en_expires_at e)) (sv_packs v1)\<rparr>)))"

definition view_entitlements :: "tier_map \<Rightarrow> pack_map \<Rightarrow> entitlement list \<Rightarrow> store_view" where
  "view_entitlements tiers packs items =
     fold (view_item tiers packs) items \<lparr>sv_ids = map en_id items, sv_unknown = [], sv_tier = Free, sv_packs = []\<rparr>"

subsection \<open>State\<close>

datatype read_trigger = ByWebhook | ByRetry | ByRefresh | BySweep

fun trigger_text :: "read_trigger \<Rightarrow> string" where
  "trigger_text ByWebhook = ''webhook''"
| "trigger_text ByRetry = ''retry''"
| "trigger_text ByRefresh = ''refresh''"
| "trigger_text BySweep = ''sweep''"

text \<open>A read in flight: the number it took, its trigger, and whether someone waits for the one more
  read that follows it.\<close>

record flight =
  fl_seq :: nat
  fl_trigger :: read_trigger
  fl_follow :: "read_trigger option"

record reads_world =
  w_db :: db
  w_flights :: "ident \<rightharpoonup> flight"
  w_unlinked :: "ident \<rightharpoonup> nat"

definition unlinked_of :: "reads_world \<Rightarrow> ident \<Rightarrow> nat" where
  "unlinked_of w u = (case w_unlinked w u of None \<Rightarrow> 0 | Some n \<Rightarrow> n)"

subsection \<open>The queue\<close>

definition queue_row :: "db \<Rightarrow> ident \<Rightarrow> billing_read_row option" where
  "queue_row s u = List.find (\<lambda>r. br_app_user_id r = u) (billing_reads s)"

definition mark_dirty :: "seconds \<Rightarrow> ident \<Rightarrow> db \<Rightarrow> db" where
  "mark_dirty now u s = s\<lparr>billing_reads :=
     upsert (\<lambda>r. br_app_user_id r = u) (\<lambda>r. r\<lparr>br_dirty := True\<rparr>)
       \<lparr>br_app_user_id = u, br_due_at = now, br_attempts = 0, br_dirty = True\<rparr> (billing_reads s)\<rparr>"

definition take_dirty :: "ident \<Rightarrow> db \<Rightarrow> db \<times> bool" where
  "take_dirty u s =
     (s\<lparr>billing_reads := upd_where (\<lambda>r. br_app_user_id r = u \<and> br_dirty r) (\<lambda>r. r\<lparr>br_dirty := False\<rparr>) (billing_reads s)\<rparr>,
      list_ex (\<lambda>r. br_app_user_id r = u \<and> br_dirty r) (billing_reads s))"

definition enqueue :: "seconds \<Rightarrow> ident \<Rightarrow> reads_world \<Rightarrow> reads_world" where
  "enqueue now u w =
     (if w_flights w u \<noteq> None then w\<lparr>w_db := mark_dirty now u (w_db w)\<rparr>
      else w\<lparr>w_db := (w_db w)\<lparr>billing_reads :=
             upsert (\<lambda>r. br_app_user_id r = u) (\<lambda>r. r\<lparr>br_due_at := now, br_attempts := 0\<rparr>)
               \<lparr>br_app_user_id = u, br_due_at = now, br_attempts = 0, br_dirty = False\<rparr> (billing_reads (w_db w))\<rparr>\<rparr>)"

definition retry_after_s :: "int list" where
  "retry_after_s = [60, 300, 900, 3600]"

definition failed_read :: "seconds \<Rightarrow> ident \<Rightarrow> db \<Rightarrow> db" where
  "failed_read now u s =
     (let row = queue_row s u
      in if (case row of None \<Rightarrow> False | Some r \<Rightarrow> br_dirty r) then s
         else (let failures = (case row of None \<Rightarrow> 0 | Some r \<Rightarrow> br_attempts r) + 1
               in if failures - 1 < length retry_after_s
                  then s\<lparr>billing_reads :=
                     upsert (\<lambda>r. br_app_user_id r = u)
                       (\<lambda>r. r\<lparr>br_due_at := now + retry_after_s ! (failures - 1), br_attempts := failures\<rparr>)
                       \<lparr>br_app_user_id = u, br_due_at = now + retry_after_s ! (failures - 1), br_attempts = failures,
                        br_dirty = False\<rparr> (billing_reads s)\<rparr>
                  else s\<lparr>billing_reads := del_where (\<lambda>r. br_app_user_id r = u) (billing_reads s)\<rparr>))"

definition clear_queue :: "ident \<Rightarrow> db \<Rightarrow> db" where
  "clear_queue u s = s\<lparr>billing_reads := del_where (\<lambda>r. br_app_user_id r = u \<and> \<not> br_dirty r) (billing_reads s)\<rparr>"

text \<open>The rows a scan picks, in its order.\<close>

definition due_reads :: "seconds \<Rightarrow> db \<Rightarrow> billing_read_row list" where
  "due_reads now s =
     sort_key (\<lambda>r. (br_due_at r, br_app_user_id r)) (filter (\<lambda>r. br_due_at r \<le> now \<or> br_dirty r) (billing_reads s))"

subsection \<open>Rows and numbers\<close>

definition link_row :: "seconds \<Rightarrow> ident \<Rightarrow> ident \<Rightarrow> reads_world \<Rightarrow> reads_world" where
  "link_row now u acc w =
     (case billing_row_of (w_db w) u of
        None \<Rightarrow> w\<lparr>w_db := (w_db w)\<lparr>account_billing_ids := account_billing_ids (w_db w) @
                    [\<lparr>b_app_user_id = u, b_account_id = acc, b_linked_at = now, b_last_event_at = None, b_entitled_tier = Free,
                      b_checked_at = None, b_read_seq = unlinked_of w u, b_applied_seq = 0\<rparr>]\<rparr>,
                 w_unlinked := (w_unlinked w)(u := None)\<rparr>
      | Some b \<Rightarrow>
          if b_account_id b \<noteq> acc
          then w\<lparr>w_db := (w_db w)\<lparr>account_billing_ids :=
                  upd_where (\<lambda>r. b_app_user_id r = u) (\<lambda>r. r\<lparr>b_account_id := acc\<rparr>) (account_billing_ids (w_db w))\<rparr>\<rparr>
          else w)"

definition take_number :: "ident \<Rightarrow> reads_world \<Rightarrow> reads_world \<times> nat" where
  "take_number u w =
     (case billing_row_of (w_db w) u of
        Some b \<Rightarrow> (w\<lparr>w_db := (w_db w)\<lparr>account_billing_ids :=
                     upd_where (\<lambda>r. b_app_user_id r = u) (\<lambda>r. r\<lparr>b_read_seq := b_read_seq r + 1\<rparr>) (account_billing_ids (w_db w))\<rparr>\<rparr>,
                   b_read_seq b + 1)
      | None \<Rightarrow> (w\<lparr>w_unlinked := (w_unlinked w)(u \<mapsto> unlinked_of w u + 1)\<rparr>, unlinked_of w u + 1))"

definition holds_something :: "db \<Rightarrow> ident \<Rightarrow> bool" where
  "holds_something s u =
     (case billing_row_of s u of None \<Rightarrow> False
      | Some b \<Rightarrow> b_entitled_tier b \<noteq> Free \<or> list_ex (\<lambda>p. bp_app_user_id p = u) (billing_packs s))"

subsection \<open>Writing one result\<close>

definition put_packs :: "ident \<Rightarrow> held_pack list \<Rightarrow> db \<Rightarrow> db" where
  "put_packs u packs s =
     fold (\<lambda>(p, e) s. s\<lparr>billing_packs :=
         upsert (\<lambda>r. bp_app_user_id r = u \<and> bp_pack r = p) (\<lambda>r. r\<lparr>bp_expires_at := e\<rparr>)
           \<lparr>bp_app_user_id = u, bp_pack = p, bp_expires_at = e\<rparr> (billing_packs s)\<rparr>) packs s"

definition drop_packs :: "ident \<Rightarrow> held_pack list \<Rightarrow> db \<Rightarrow> db" where
  "drop_packs u packs s =
     s\<lparr>billing_packs := del_where (\<lambda>r. bp_app_user_id r = u \<and> bp_pack r \<notin> fst ` set packs) (billing_packs s)\<rparr>"

definition write_row :: "ident \<Rightarrow> tier \<Rightarrow> seconds \<Rightarrow> nat \<Rightarrow> db \<Rightarrow> db" where
  "write_row u t now seq s = s\<lparr>account_billing_ids :=
     upd_where (\<lambda>r. b_app_user_id r = u)
       (\<lambda>r. r\<lparr>b_entitled_tier := t, b_checked_at := Some now, b_applied_seq := seq, b_read_seq := max (b_read_seq r) seq\<rparr>)
       (account_billing_ids s)\<rparr>"

text \<open>The tail of \<open>apply\<close>, once the customer has a row: \<open>before\<close> is the tier that row held.\<close>

definition write_result ::
  "seconds \<Rightarrow> ident \<Rightarrow> nat \<Rightarrow> store_view \<Rightarrow> read_trigger \<Rightarrow> ident \<Rightarrow> tier \<Rightarrow> db \<Rightarrow> db" where
  "write_result now u seq view trig acc before s =
     (let guarded = sv_unknown view \<noteq> [];
          t = (if guarded \<and> is_higher_tier before (sv_tier view) then before else sv_tier view);
          s1 = put_packs u (sv_packs view) (write_row u t now seq s);
          s2 = (if guarded then s1 else drop_packs u (sv_packs view) s1)
      in clear_queue u
           (settle_tier acc before t (''revenuecat read ('' @ trigger_text trig @ '') for '' @ u) None now s2))"

definition apply_read ::
  "tier_map \<Rightarrow> pack_map \<Rightarrow> seconds \<Rightarrow> ident \<Rightarrow> nat \<Rightarrow> entitlement list \<Rightarrow> read_trigger \<Rightarrow> reads_world \<Rightarrow> reads_world" where
  "apply_read tiers packs now u seq items trig w =
     (let s = w_db w; view = view_entitlements tiers packs items; target = resolve_account s u
      in case billing_row_of s u of
           Some b \<Rightarrow>
             if seq \<le> b_applied_seq b then w
             else (let w1 = (case target of None \<Rightarrow> w | Some acc \<Rightarrow> if acc \<noteq> b_account_id b then link_row now u acc w else w);
                       acc = (case target of None \<Rightarrow> b_account_id b | Some acc \<Rightarrow> acc)
                   in w1\<lparr>w_db := write_result now u seq view trig acc (b_entitled_tier b) (w_db w1)\<rparr>)
         | None \<Rightarrow>
             (case target of
                None \<Rightarrow> w\<lparr>w_db := clear_queue u s\<rparr>
              | Some acc \<Rightarrow>
                  if sv_tier view = Free \<and> sv_packs view = [] then w\<lparr>w_db := clear_queue u s\<rparr>
                  else (let w1 = link_row now u acc w
                        in w1\<lparr>w_db := write_result now u seq view trig acc Free (w_db w1)\<rparr>)))"

subsection \<open>Reads in flight\<close>

definition start_read :: "ident \<Rightarrow> read_trigger \<Rightarrow> reads_world \<Rightarrow> reads_world" where
  "start_read u trig w =
     (case take_number u w of (w1, n) \<Rightarrow>
        w1\<lparr>w_flights := (w_flights w1)(u \<mapsto> \<lparr>fl_seq = n, fl_trigger = trig, fl_follow = None\<rparr>)\<rparr>)"

text \<open>\<open>read\<close>: start one, or ask for the one more read after the one that is running.\<close>

definition request_read :: "seconds \<Rightarrow> ident \<Rightarrow> read_trigger \<Rightarrow> reads_world \<Rightarrow> reads_world" where
  "request_read now u trig w =
     (case w_flights w u of
        None \<Rightarrow> start_read u trig w
      | Some fl \<Rightarrow>
          w\<lparr>w_db := mark_dirty now u (w_db w),
            w_flights := (w_flights w)(u \<mapsto> (if fl_follow fl = None then fl\<lparr>fl_follow := Some trig\<rparr> else fl))\<rparr>)"

text \<open>One turn of \<open>scanOnce\<close> for a row of its list.\<close>

definition scan_row_read :: "billing_read_row \<Rightarrow> reads_world \<Rightarrow> reads_world" where
  "scan_row_read r w =
     (let u = br_app_user_id r
      in if w_flights w u \<noteq> None then w
         else start_read u (if br_attempts r > 0 then ByRetry else ByWebhook) (w\<lparr>w_db := fst (take_dirty u (w_db w))\<rparr>))"

definition result_of_read ::
  "tier_map \<Rightarrow> pack_map \<Rightarrow> seconds \<Rightarrow> ident \<Rightarrow> nat \<Rightarrow> store_answer \<Rightarrow> read_trigger \<Rightarrow> reads_world \<Rightarrow> reads_world \<times> bool" where
  "result_of_read tiers packs now u seq answer trig w =
     (case answer of
        StoreFailed _ _ \<Rightarrow> (w\<lparr>w_db := failed_read now u (w_db w)\<rparr>, False)
      | StoreOk status items \<Rightarrow>
          if status = 404 \<and> holds_something (w_db w) u then (w\<lparr>w_db := failed_read now u (w_db w)\<rparr>, False)
          else (apply_read tiers packs now u seq items trig w, True))"

definition finish_read ::
  "tier_map \<Rightarrow> pack_map \<Rightarrow> seconds \<Rightarrow> ident \<Rightarrow> store_answer \<Rightarrow> reads_world \<Rightarrow> reads_world" where
  "finish_read tiers packs now u answer w =
     (case w_flights w u of None \<Rightarrow> w
      | Some fl \<Rightarrow>
          (let w1 = fst (result_of_read tiers packs now u (fl_seq fl) answer (fl_trigger fl) w);
               (s2, dirty) = take_dirty u (w_db w1);
               w2 = w1\<lparr>w_db := s2, w_flights := (w_flights w1)(u := None)\<rparr>
           in if dirty \<or> fl_follow fl \<noteq> None
              then start_read u (case fl_follow fl of None \<Rightarrow> ByWebhook | Some t \<Rightarrow> t) w2
              else w2\<lparr>w_unlinked := (w_unlinked w2)(u := None)\<rparr>))"

text \<open>A new process starts with empty maps; what the queue holds stays.\<close>

definition restart :: "reads_world \<Rightarrow> reads_world" where
  "restart w = w\<lparr>w_flights := (\<lambda>_. None), w_unlinked := (\<lambda>_. None)\<rparr>"

subsection \<open>Events that only trigger reads\<close>

record trigger_event =
  te_id :: "string option"
  te_type :: string
  te_event_at_ms :: "int option"
  te_app_user_ids :: "ident list"

definition named_customers :: "ident option \<Rightarrow> ident list \<Rightarrow> ident list \<Rightarrow> ident list" where
  "named_customers user from to =
     fold (\<lambda>v named. if v \<noteq> '''' \<and> v \<notin> set named then named @ [v] else named)
       ((case user of None \<Rightarrow> [] | Some u \<Rightarrow> [u]) @ from @ to) []"

definition raise_event_mark :: "ident \<Rightarrow> seconds \<Rightarrow> db \<Rightarrow> db" where
  "raise_event_mark u at s = s\<lparr>account_billing_ids :=
     upd_where (\<lambda>r. b_app_user_id r = u)
       (\<lambda>r. r\<lparr>b_last_event_at := Some (max (case b_last_event_at r of None \<Rightarrow> 0 | Some x \<Rightarrow> x) at)\<rparr>) (account_billing_ids s)\<rparr>"

definition resolved_customers :: "db \<Rightarrow> ident list \<Rightarrow> (ident \<times> ident) list" where
  "resolved_customers s us =
     concat (map (\<lambda>u. case resolve_account s u of None \<Rightarrow> [] | Some acc \<Rightarrow> [(u, acc)]) us)"

definition queue_reads_for_event :: "seconds \<Rightarrow> trigger_event \<Rightarrow> reads_world \<Rightarrow> reads_world" where
  "queue_reads_for_event now ev w =
     (let at = event_at now (te_event_at_ms ev);
          first = (case te_app_user_ids ev of [] \<Rightarrow> '''' | u # _ \<Rightarrow> u);
          eid = event_id (te_id ev) first (te_type ev) at
      in if event_seen (w_db w) eid then w
         else (let resolved = resolved_customers (w_db w) (te_app_user_ids ev);
                   w1 = w\<lparr>w_db := (w_db w)\<lparr>billing_events := billing_events (w_db w) @
                     [\<lparr>be_event_id = eid, be_app_user_id = first, be_account_id = map_of resolved first, be_type = te_type ev,
                       be_event_at = at, be_applied = (resolved \<noteq> []), be_received_at = now\<rparr>]\<rparr>\<rparr>
               in fold (\<lambda>(u, acc) w. enqueue now u
                          (let w' = link_row now u acc w in w'\<lparr>w_db := raise_event_mark u at (w_db w')\<rparr>)) resolved w1))"

subsection \<open>The shadow read\<close>

text \<open>What a shadow read logs about a list it could read: the tier the read path would write, the
  tier that is stored, and whether they agree. It writes nothing.\<close>

definition shadow_tiers :: "tier_map \<Rightarrow> pack_map \<Rightarrow> entitlement list \<Rightarrow> ident \<Rightarrow> db \<Rightarrow> tier \<times> tier \<times> bool" where
  "shadow_tiers tiers packs items u s =
     (let stored = (case billing_row_of s u of None \<Rightarrow> Free | Some b \<Rightarrow> b_entitled_tier b);
          view = view_entitlements tiers packs items;
          read = (if sv_unknown view \<noteq> [] \<and> is_higher_tier stored (sv_tier view) then stored else sv_tier view)
      in (read, stored, read = stored))"

subsection \<open>Lemmas: the rows a result writes\<close>

definition packs_in :: "billing_pack_row list \<Rightarrow> ident \<Rightarrow> held_pack set" where
  "packs_in rows u = set (map (\<lambda>r. (bp_pack r, bp_expires_at r)) (filter (\<lambda>r. bp_app_user_id r = u) rows))"

definition packs_of :: "db \<Rightarrow> ident \<Rightarrow> held_pack set" where
  "packs_of s u = packs_in (billing_packs s) u"

lemma packs_in_simps [simp]:
  "packs_in [] u = {}"
  "packs_in (r # rows) u = (if bp_app_user_id r = u then {(bp_pack r, bp_expires_at r)} else {}) \<union> packs_in rows u"
  "packs_in (xs @ ys) u = packs_in xs u \<union> packs_in ys u"
  by (auto simp: packs_in_def)

lemma packs_in_upd:
  "packs_in (upd_where (\<lambda>r. bp_app_user_id r = u \<and> bp_pack r = p) (\<lambda>r. r\<lparr>bp_expires_at := e\<rparr>) rows) u' =
   (if u' = u then {x \<in> packs_in rows u. fst x \<noteq> p} \<union> (if list_ex (\<lambda>r. bp_app_user_id r = u \<and> bp_pack r = p) rows then {(p, e)} else {})
    else packs_in rows u')"
  by (induction rows) auto

lemma packs_in_absent:
  "\<not> list_ex (\<lambda>r. bp_app_user_id r = u \<and> bp_pack r = p) rows \<Longrightarrow> {x \<in> packs_in rows u. fst x \<noteq> p} = packs_in rows u"
proof -
  assume "\<not> list_ex (\<lambda>r. bp_app_user_id r = u \<and> bp_pack r = p) rows"
  then have "fst x \<noteq> p" if "x \<in> packs_in rows u" for x
    using that by (auto simp: packs_in_def list_ex_iff)
  then show ?thesis by blast
qed

lemma packs_of_upsert:
  "packs_of (s\<lparr>billing_packs := upsert (\<lambda>r. bp_app_user_id r = u \<and> bp_pack r = p) (\<lambda>r. r\<lparr>bp_expires_at := e\<rparr>)
       \<lparr>bp_app_user_id = u, bp_pack = p, bp_expires_at = e\<rparr> (billing_packs s)\<rparr>) u' =
   (if u' = u then {x \<in> packs_of s u. fst x \<noteq> p} \<union> {(p, e)} else packs_of s u')"
  by (simp add: packs_of_def upsert_def packs_in_upd packs_in_absent)

lemma in_keys: "(p, e) \<in> set xs \<Longrightarrow> p \<in> fst ` set xs"
  by force

lemma packs_of_put:
  "distinct (map fst packs) \<Longrightarrow>
   packs_of (put_packs u packs s) u' =
     (if u' = u then {x \<in> packs_of s u. fst x \<notin> fst ` set packs} \<union> set packs else packs_of s u')"
proof (induction packs arbitrary: s)
  case Nil
  then show ?case by (simp add: put_packs_def)
next
  case (Cons x packs)
  obtain p e where x: "x = (p, e)" by fastforce
  let ?s1 = "s\<lparr>billing_packs := upsert (\<lambda>r. bp_app_user_id r = u \<and> bp_pack r = p) (\<lambda>r. r\<lparr>bp_expires_at := e\<rparr>)
       \<lparr>bp_app_user_id = u, bp_pack = p, bp_expires_at = e\<rparr> (billing_packs s)\<rparr>"
  have "put_packs u (x # packs) s = put_packs u packs ?s1" by (simp add: put_packs_def x)
  then show ?case
    using Cons x by (auto simp: packs_of_upsert dest: in_keys)
qed

lemma packs_of_drop:
  "packs_of (drop_packs u packs s) u' =
     (if u' = u then {x \<in> packs_of s u. fst x \<in> fst ` set packs} else packs_of s u')"
proof -
  have "packs_in (del_where (\<lambda>r. bp_app_user_id r = u \<and> bp_pack r \<notin> K) rows) u' =
      (if u' = u then {x \<in> packs_in rows u. fst x \<in> K} else packs_in rows u')" for rows K
    by (auto simp: packs_in_def del_where_def)
  then show ?thesis by (simp add: packs_of_def drop_packs_def)
qed

lemma put_packs_frame [frame_simps]:
  "account_billing_ids (put_packs u packs s) = account_billing_ids s"
  "accounts (put_packs u packs s) = accounts s"
  "tier_changes (put_packs u packs s) = tier_changes s"
  "billing_reads (put_packs u packs s) = billing_reads s"
proof -
  have "account_billing_ids (put_packs u packs s) = account_billing_ids s \<and> accounts (put_packs u packs s) = accounts s \<and>
      tier_changes (put_packs u packs s) = tier_changes s \<and> billing_reads (put_packs u packs s) = billing_reads s"
    unfolding put_packs_def by (induction packs arbitrary: s) auto
  then show "account_billing_ids (put_packs u packs s) = account_billing_ids s" "accounts (put_packs u packs s) = accounts s"
    "tier_changes (put_packs u packs s) = tier_changes s" "billing_reads (put_packs u packs s) = billing_reads s"
    by simp_all
qed

lemma drop_clear_frame [frame_simps]:
  "account_billing_ids (drop_packs u packs s) = account_billing_ids s"
  "accounts (drop_packs u packs s) = accounts s"
  "tier_changes (drop_packs u packs s) = tier_changes s"
  "account_billing_ids (clear_queue u s) = account_billing_ids s"
  "accounts (clear_queue u s) = accounts s"
  "tier_changes (clear_queue u s) = tier_changes s"
  "billing_packs (clear_queue u s) = billing_packs s"
  "accounts (write_row u t now seq s) = accounts s"
  "tier_changes (write_row u t now seq s) = tier_changes s"
  "billing_packs (write_row u t now seq s) = billing_packs s"
  "account_billing_ids (mark_dirty now u s) = account_billing_ids s"
  "account_billing_ids (fst (take_dirty u s)) = account_billing_ids s"
  "account_billing_ids (failed_read now u s) = account_billing_ids s"
  by (simp_all add: drop_packs_def clear_queue_def write_row_def mark_dirty_def take_dirty_def failed_read_def Let_def)

definition guarded_tier :: "store_view \<Rightarrow> tier \<Rightarrow> tier" where
  "guarded_tier v before = (if sv_unknown v \<noteq> [] \<and> is_higher_tier before (sv_tier v) then before else sv_tier v)"

lemma billing_row_write:
  "billing_row_of (write_row u t now seq s) u' =
     (if u' = u then map_option (\<lambda>r. r\<lparr>b_entitled_tier := t, b_checked_at := Some now, b_applied_seq := seq,
         b_read_seq := max (b_read_seq r) seq\<rparr>) (billing_row_of s u') else billing_row_of s u')"
proof -
  show ?thesis
    unfolding billing_row_of_def write_row_def
    by (cases "List.find (\<lambda>b. b_app_user_id b = u') (account_billing_ids s)")
      (auto simp: find_upd_where dest: find_SomeD)
qed

lemma billing_row_cong: "account_billing_ids s' = account_billing_ids s \<Longrightarrow> billing_row_of s' u = billing_row_of s u"
  by (simp add: billing_row_of_def)

lemma write_result_alt:
  "write_result now u seq v trig acc before s =
     clear_queue u (settle_tier acc before (guarded_tier v before) (''revenuecat read ('' @ trigger_text trig @ '') for '' @ u) None now
       (if sv_unknown v \<noteq> [] then put_packs u (sv_packs v) (write_row u (guarded_tier v before) now seq s)
        else drop_packs u (sv_packs v) (put_packs u (sv_packs v) (write_row u (guarded_tier v before) now seq s))))"
  by (simp add: write_result_def Let_def guarded_tier_def)

lemma billing_row_result:
  "billing_row_of (write_result now u seq v trig acc before s) u' = billing_row_of (write_row u (guarded_tier v before) now seq s) u'"
  by (rule billing_row_cong) (simp add: write_result_def Let_def frame_simps guarded_tier_def)

lemma billing_row_link:
  "billing_row_of (w_db (link_row now u acc w)) u' =
     (if u' \<noteq> u then billing_row_of (w_db w) u'
      else (case billing_row_of (w_db w) u of
              None \<Rightarrow> Some \<lparr>b_app_user_id = u, b_account_id = acc, b_linked_at = now, b_last_event_at = None, b_entitled_tier = Free,
                      b_checked_at = None, b_read_seq = unlinked_of w u, b_applied_seq = 0\<rparr>
            | Some b \<Rightarrow> Some (b\<lparr>b_account_id := acc\<rparr>)))"
proof (cases "billing_row_of (w_db w) u")
  case None
  then show ?thesis
    by (auto simp: link_row_def billing_row_of_def find_append split: option.split)
next
  case (Some b)
  have "b_app_user_id r = u' \<Longrightarrow> b_app_user_id (r\<lparr>b_account_id := acc\<rparr>) = u'" for r :: billing_id_row by simp
  then show ?thesis
    using Some by (cases "List.find (\<lambda>b. b_app_user_id b = u') (account_billing_ids (w_db w))")
      (auto simp: link_row_def billing_row_of_def find_upd_where dest: find_SomeD)
qed

lemma link_frame [frame_simps]:
  "billing_packs (w_db (link_row now u acc w)) = billing_packs (w_db w)"
  "accounts (w_db (link_row now u acc w)) = accounts (w_db w)"
  "tier_changes (w_db (link_row now u acc w)) = tier_changes (w_db w)"
  "w_flights (link_row now u acc w) = w_flights w"
  by (simp_all add: link_row_def split: option.split)

text \<open>The row of the customer after a result with a higher number: the fence moves to that number.\<close>

lemma apply_read_row:
  assumes "billing_row_of (w_db w) u = Some b"
  shows "billing_row_of (w_db (apply_read tiers packs now u seq items trig w)) u =
    (if seq \<le> b_applied_seq b then Some b
     else Some (b\<lparr>b_account_id := (case resolve_account (w_db w) u of None \<Rightarrow> b_account_id b | Some acc \<Rightarrow> acc),
                  b_entitled_tier := guarded_tier (view_entitlements tiers packs items) (b_entitled_tier b),
                  b_checked_at := Some now, b_applied_seq := seq, b_read_seq := max (b_read_seq b) seq\<rparr>))"
  using assms
  by (auto simp: apply_read_def Let_def billing_row_result billing_row_write billing_row_link split: option.split)

lemma apply_read_stale:
  "billing_row_of (w_db w) u = Some b \<Longrightarrow> seq \<le> b_applied_seq b \<Longrightarrow> apply_read tiers packs now u seq items trig w = w"
  by (simp add: apply_read_def Let_def)

lemma note_pack_distinct: "distinct (map fst packs) \<Longrightarrow> distinct (map fst (note_pack p e packs))"
  by (auto simp: note_pack_def distinct_update split: option.split)

lemma view_packs_distinct: "distinct (map fst (sv_packs (view_entitlements tiers packs items)))"
proof -
  have "distinct (map fst (sv_packs (fold (view_item tiers packs) items v)))" if "distinct (map fst (sv_packs v))" for v
    using that
  proof (induction items arbitrary: v)
    case (Cons e items)
    have "distinct (map fst (sv_packs (view_item tiers packs e v)))"
      using Cons.prems by (auto simp: view_item_def Let_def intro!: note_pack_distinct split: option.split)
    then show ?case using Cons.IH by simp
  qed simp
  then show ?thesis by (simp add: view_entitlements_def)
qed

lemma packs_of_cong: "billing_packs s' = billing_packs s \<Longrightarrow> packs_of s' u = packs_of s u"
  by (simp add: packs_of_def)

lemma packs_of_result:
  assumes "distinct (map fst (sv_packs v))"
  shows "packs_of (write_result now u seq v trig acc before s) u =
    (if sv_unknown v = [] then set (sv_packs v) else {x \<in> packs_of s u. fst x \<notin> fst ` set (sv_packs v)} \<union> set (sv_packs v))"
proof -
  let ?s1 = "put_packs u (sv_packs v) (write_row u (guarded_tier v before) now seq s)"
  have 1: "packs_of ?s1 u = {x \<in> packs_of s u. fst x \<notin> fst ` set (sv_packs v)} \<union> set (sv_packs v)"
    using packs_of_put[OF assms, of u "write_row u (guarded_tier v before) now seq s" u]
    by (simp add: packs_of_cong[of "write_row u (guarded_tier v before) now seq s" s] frame_simps)
  have 2: "packs_of (drop_packs u (sv_packs v) ?s1) u = set (sv_packs v)"
    by (auto simp: packs_of_drop 1)
  show ?thesis
    using 1 2 by (simp add: write_result_alt packs_of_def frame_simps)
qed

lemma apply_read_packs:
  assumes "billing_row_of (w_db w) u = Some b" "b_applied_seq b < seq"
  shows "packs_of (w_db (apply_read tiers packs now u seq items trig w)) u =
    (let v = view_entitlements tiers packs items
     in if sv_unknown v = [] then set (sv_packs v)
        else {x \<in> packs_of (w_db w) u. fst x \<notin> fst ` set (sv_packs v)} \<union> set (sv_packs v))"
proof -
  have "packs_of (w_db (link_row now u acc w)) u = packs_of (w_db w) u" for acc
    by (rule packs_of_cong) (simp add: frame_simps)
  then show ?thesis
    using assms by (auto simp: apply_read_def Let_def packs_of_result[OF view_packs_distinct] split: option.split)
qed

text \<open>The fold of results that arrive, in whatever order.\<close>

type_synonym read_result = "seconds \<times> nat \<times> entitlement list \<times> read_trigger"

definition arrive :: "tier_map \<Rightarrow> pack_map \<Rightarrow> ident \<Rightarrow> read_result \<Rightarrow> reads_world \<Rightarrow> reads_world" where
  "arrive tiers packs u r w = (case r of (now, seq, items, trig) \<Rightarrow> apply_read tiers packs now u seq items trig w)"

definition seq_of :: "read_result \<Rightarrow> nat" where
  "seq_of r = fst (snd r)"

lemma arrive_seq:
  assumes "billing_row_of (w_db w) u = Some b"
  obtains b' where "billing_row_of (w_db (arrive tiers packs u r w)) u = Some b'"
    "b_applied_seq b' = max (b_applied_seq b) (seq_of r)"
proof (cases "seq_of r \<le> b_applied_seq b")
  case True
  then show ?thesis using assms that by (cases r) (simp add: arrive_def apply_read_row seq_of_def)
next
  case False
  then show ?thesis using assms that by (cases r) (simp add: arrive_def apply_read_row seq_of_def)
qed

lemma arrive_older:
  assumes "billing_row_of (w_db w) u = Some b" "\<forall>r \<in> set rs. seq_of r \<le> b_applied_seq b"
  shows "fold (arrive tiers packs u) rs w = w"
  using assms
proof (induction rs)
  case (Cons r rs)
  then have "arrive tiers packs u r w = w"
    by (cases r) (simp add: arrive_def seq_of_def apply_read_stale)
  with Cons show ?case by simp
qed simp

lemma arrive_below:
  assumes "billing_row_of (w_db w) u = Some b" "b_applied_seq b < n" "\<forall>r \<in> set rs. seq_of r < n"
  shows "\<exists>b'. billing_row_of (w_db (fold (arrive tiers packs u) rs w)) u = Some b' \<and> b_applied_seq b' < n"
  using assms
proof (induction rs arbitrary: w b)
  case (Cons r rs)
  obtain b' where "billing_row_of (w_db (arrive tiers packs u r w)) u = Some b'"
    "b_applied_seq b' = max (b_applied_seq b) (seq_of r)"
    using arrive_seq[OF Cons.prems(1)] by metis
  then show ?case using Cons.IH[of "arrive tiers packs u r w" b'] Cons.prems by simp
qed auto

text \<open>C12: Reads of one customer never cross. However the results of several reads of one customer are
  ordered when they arrive, also those of a process that has died, what stays is the result of the
  newest read: if its list is fully known, the row's tier is the tier of that list, its packs are
  exactly the packs of that list, and the fence is at its number. Everything that arrives later with
  a lower number changes nothing.\<close>

theorem newest_read_wins:
  assumes "billing_row_of (w_db w) u = Some b"
    and "rs = before @ (now, seq, items, trig) # after" "b_applied_seq b < seq"
    and "\<forall>r \<in> set before. seq_of r < seq" "\<forall>r \<in> set after. seq_of r \<le> seq"
    and "sv_unknown (view_entitlements tiers packs items) = []"
  shows "(\<exists>b'. billing_row_of (w_db (fold (arrive tiers packs u) rs w)) u = Some b' \<and> b_applied_seq b' = seq \<and>
            b_entitled_tier b' = sv_tier (view_entitlements tiers packs items) \<and> b_checked_at b' = Some now) \<and>
    packs_of (w_db (fold (arrive tiers packs u) rs w)) u = set (sv_packs (view_entitlements tiers packs items))"
proof -
  let ?w1 = "fold (arrive tiers packs u) before w"
  let ?w2 = "apply_read tiers packs now u seq items trig ?w1"
  obtain b1 where b1: "billing_row_of (w_db ?w1) u = Some b1" "b_applied_seq b1 < seq"
    using arrive_below[OF assms(1,3,4)] by blast
  obtain b2 where b2: "billing_row_of (w_db ?w2) u = Some b2" "b_applied_seq b2 = seq"
    "b_entitled_tier b2 = sv_tier (view_entitlements tiers packs items)" "b_checked_at b2 = Some now"
    using apply_read_row[OF b1(1), of tiers packs now seq items trig] b1(2) assms(6) by (simp add: guarded_tier_def)
  have "fold (arrive tiers packs u) rs w = fold (arrive tiers packs u) after ?w2"
    by (simp add: assms(2) arrive_def)
  also have "\<dots> = ?w2" using arrive_older[OF b2(1)] b2(2) assms(5) by simp
  finally have final: "fold (arrive tiers packs u) rs w = ?w2" .
  show ?thesis
    unfolding final using b2 apply_read_packs[OF b1(1,2)] assms(6) by (simp add: Let_def)
qed

subsection \<open>A read that is not sure takes nothing away\<close>

lemma failed_only_queue: "failed_read now u s = s\<lparr>billing_reads := billing_reads (failed_read now u s)\<rparr>"
  by (simp add: failed_read_def Let_def)

lemma result_only_queue:
  assumes "case answer of StoreFailed st why \<Rightarrow> True | StoreOk status items \<Rightarrow> status = 404 \<and> holds_something (w_db w) u"
  shows "result_of_read tiers packs now u seq answer trig w =
    (w\<lparr>w_db := (w_db w)\<lparr>billing_reads := billing_reads (failed_read now u (w_db w))\<rparr>\<rparr>, False)"
proof -
  have "result_of_read tiers packs now u seq answer trig w = (w\<lparr>w_db := failed_read now u (w_db w)\<rparr>, False)"
    using assms by (cases answer) (simp_all add: result_of_read_def)
  also have "failed_read now u (w_db w) = (w_db w)\<lparr>billing_reads := billing_reads (failed_read now u (w_db w))\<rparr>"
    by (rule failed_only_queue)
  finally show ?thesis .
qed

lemma guarded_keeps: "sv_unknown v \<noteq> [] \<Longrightarrow> before \<le> guarded_tier v before"
  by (simp add: guarded_tier_def not_less)

text \<open>C28: A read that cannot be trusted takes nothing away. One that failed, and one that answers
  "never seen" about a customer who holds something, moves only the queue of reads. One whose list
  names an entitlement nobody configured may raise the customer's tier and add packs, but the
  tier of the row does not go down and no pack it held is gone.\<close>

theorem unsure_read_takes_nothing:
  assumes "billing_row_of (w_db w) u = Some b"
    and "case answer of StoreFailed st why \<Rightarrow> True
      | StoreOk status items \<Rightarrow> status = 404 \<and> holds_something (w_db w) u \<or> sv_unknown (view_entitlements tiers packs items) \<noteq> []"
  shows "(case billing_row_of (w_db (fst (result_of_read tiers packs now u seq answer trig w))) u of
      None \<Rightarrow> False | Some b' \<Rightarrow> b_entitled_tier b \<le> b_entitled_tier b') \<and>
    fst ` packs_of (w_db w) u \<subseteq> fst ` packs_of (w_db (fst (result_of_read tiers packs now u seq answer trig w))) u \<and>
    (snd (result_of_read tiers packs now u seq answer trig w) \<or>
     (\<exists>q. fst (result_of_read tiers packs now u seq answer trig w) = w\<lparr>w_db := (w_db w)\<lparr>billing_reads := q\<rparr>\<rparr>))"
proof (cases "case answer of StoreFailed st why \<Rightarrow> True | StoreOk status items \<Rightarrow> status = 404 \<and> holds_something (w_db w) u")
  case True
  obtain q where "result_of_read tiers packs now u seq answer trig w = (w\<lparr>w_db := (w_db w)\<lparr>billing_reads := q\<rparr>\<rparr>, False)"
    using result_only_queue[OF True] by blast
  then show ?thesis using assms(1) by (simp add: billing_row_of_def packs_of_def) blast
next
  case False
  then obtain status items where a: "answer = StoreOk status items" "\<not> (status = 404 \<and> holds_something (w_db w) u)"
    "sv_unknown (view_entitlements tiers packs items) \<noteq> []"
    using assms(2) by (cases answer) auto
  then have r: "result_of_read tiers packs now u seq answer trig w = (apply_read tiers packs now u seq items trig w, True)"
    by (auto simp: result_of_read_def)
  show ?thesis
  proof (cases "seq \<le> b_applied_seq b")
    case True
    then show ?thesis using assms(1) r by (simp add: apply_read_stale)
  next
    case new: False
    have "fst ` packs_of (w_db w) u \<subseteq> fst ` ({x \<in> packs_of (w_db w) u. fst x \<notin> fst ` K} \<union> K)" for K
      unfolding image_Un by blast
    then show ?thesis
      using new a(3) guarded_keeps[OF a(3)] r apply_read_row[OF assms(1)] apply_read_packs[OF assms(1)]
      by (simp add: Let_def)
  qed
qed

subsection \<open>Retries\<close>

lemma queue_row_failed:
  "queue_row (failed_read now u s) u =
     (case queue_row s u of
        None \<Rightarrow> Some \<lparr>br_app_user_id = u, br_due_at = now + 60, br_attempts = 1, br_dirty = False\<rparr>
      | Some r \<Rightarrow> if br_dirty r then Some r
          else if br_attempts r < 4 then Some (r\<lparr>br_due_at := now + retry_after_s ! br_attempts r, br_attempts := br_attempts r + 1\<rparr>)
          else None)"
proof -
  have del: "List.find (\<lambda>r. br_app_user_id r = u) (del_where (\<lambda>r. br_app_user_id r = u) rows) = None" for rows
    by (simp add: find_None_iff table_simps)
  show ?thesis
    by (auto simp: failed_read_def Let_def queue_row_def retry_after_s_def find_upsert_same del split: option.split)
qed

text \<open>A failed read is tried again after 60, 300, 900 and 3600 seconds, each counted from the
  failure before; a fifth failure in a row drops it from the queue. A failure while another read of
  the same customer is already asked for changes nothing.\<close>

theorem failed_reads_back_off:
  assumes "queue_row s u = None"
  shows "let q = (\<lambda>ts. queue_row (fold (\<lambda>t. failed_read t u) ts s) u);
             due = (\<lambda>ts. map_option br_due_at (q ts))
         in due [t1] = Some (t1 + 60) \<and> due [t1, t2] = Some (t2 + 300) \<and> due [t1, t2, t3] = Some (t3 + 900) \<and>
            due [t1, t2, t3, t4] = Some (t4 + 3600) \<and> due [t1, t2, t3, t4, t5] = None \<and>
            failed_read t1 u (mark_dirty t2 u s) = mark_dirty t2 u s"
proof -
  have "queue_row (mark_dirty t2 u s) u = Some \<lparr>br_app_user_id = u, br_due_at = t2, br_attempts = 0, br_dirty = True\<rparr>"
    using assms by (simp add: queue_row_def mark_dirty_def find_upsert_same)
  then have "failed_read t1 u (mark_dirty t2 u s) = mark_dirty t2 u s"
    by (simp add: failed_read_def Let_def)
  then show ?thesis
    using assms by (simp add: Let_def queue_row_failed retry_after_s_def)
qed

subsection \<open>The read path as a writer of tiers\<close>

lemma link_rows:
  "b \<in> set (account_billing_ids (w_db (link_row now u acc w))) \<Longrightarrow> b_account_id b = acc \<or> b \<in> set (account_billing_ids (w_db w))"
  by (auto simp: link_row_def table_simps split: option.splits if_splits)

lemma link_distinct:
  "distinct (map b_app_user_id (account_billing_ids (w_db w))) \<Longrightarrow>
   distinct (map b_app_user_id (account_billing_ids (w_db (link_row now u acc w))))"
  by (auto simp: link_row_def map_upd_where billing_row_of_def find_None_iff split: option.split)

lemma clear_queue_covers: "covers (clear_queue u s) = covers s"
  by (simp add: covers_def frame_simps tier_of_def account_of_def)

lemma result_audited: "audited s (write_result now u seq v trig acc before s)"
proof -
  let ?s1 = "put_packs u (sv_packs v) (write_row u (guarded_tier v before) now seq s)"
  let ?s2 = "if sv_unknown v \<noteq> [] then ?s1 else drop_packs u (sv_packs v) ?s1"
  have "audited s ?s2" by (rule audited_refl) (simp_all add: frame_simps)
  then have "audited s (settle_tier acc before (guarded_tier v before) reason None now ?s2)" for reason
    using settle_audited by (rule audited_trans)
  moreover have "audited s' (clear_queue u s')" for s'
    by (rule audited_refl) (simp_all add: frame_simps)
  ultimately show ?thesis
    unfolding write_result_alt by (blast intro: audited_trans)
qed

lemma apply_read_audited: "audited (w_db w) (w_db (apply_read tiers packs now u seq items trig w))"
proof -
  have link: "audited (w_db w) (write_result now u seq v trig acc before (w_db (link_row now u acc' w)))" for v acc before acc'
    by (rule audited_trans[OF audited_refl result_audited]) (simp_all add: frame_simps)
  have clear: "audited (w_db w) (clear_queue u (w_db w))"
    by (rule audited_refl) (simp_all add: frame_simps)
  have same: "audited (w_db w) (w_db w)" by (rule audited_refl) simp_all
  show ?thesis
    unfolding apply_read_def Let_def
    by (auto simp: link clear same result_audited split: option.split)
qed

lemma write_row_others:
  "r \<in> set (account_billing_ids (write_row u t now seq s)) \<Longrightarrow>
   (b_app_user_id r \<noteq> u \<and> r \<in> set (account_billing_ids s)) \<or>
   (\<exists>r0 \<in> set (account_billing_ids s). b_app_user_id r0 = u \<and> b_account_id r = b_account_id r0)"
  by (auto simp: write_row_def table_simps split: if_splits)

lemma result_covers:
  assumes "\<And>r. r \<in> set (account_billing_ids s) \<Longrightarrow> b_app_user_id r = u \<Longrightarrow> b_account_id r = acc"
    and "\<And>r. r \<in> set (account_billing_ids s) \<Longrightarrow> b_account_id r \<noteq> acc \<Longrightarrow>
      (case tier_of s (b_account_id r) of None \<Rightarrow> True | Some t \<Rightarrow> b_entitled_tier r \<le> t)"
    and "distinct (map b_app_user_id (account_billing_ids s))"
  shows "covers (write_result now u seq v trig acc before s)"
proof -
  let ?s1 = "put_packs u (sv_packs v) (write_row u (guarded_tier v before) now seq s)"
  let ?s2 = "if sv_unknown v \<noteq> [] then ?s1 else drop_packs u (sv_packs v) ?s1"
  have rows: "account_billing_ids ?s2 = account_billing_ids (write_row u (guarded_tier v before) now seq s)"
    by (simp add: frame_simps)
  have tier: "tier_of ?s2 x = tier_of s x" for x
    by (rule tier_of_cong) (simp add: frame_simps)
  have "covers (settle_tier acc before (guarded_tier v before) reason None now ?s2)" for reason
  proof (rule settle_covers)
    fix r assume "r \<in> set (account_billing_ids ?s2)" "b_account_id r \<noteq> acc"
    then have "r \<in> set (account_billing_ids s)"
      using write_row_others[of r u "guarded_tier v before" now seq s] assms(1) rows by auto
    then show "case tier_of ?s2 (b_account_id r) of None \<Rightarrow> True | Some t \<Rightarrow> b_entitled_tier r \<le> t"
      unfolding tier using assms(2) \<open>b_account_id r \<noteq> acc\<close> by blast
  next
    show "distinct (map b_app_user_id (account_billing_ids ?s2))"
      unfolding rows using assms(3) by (simp add: write_row_def map_upd_where)
  qed
  then show ?thesis by (simp add: write_result_alt clear_queue_covers)
qed

lemma apply_read_covers:
  assumes "covers (w_db w)"
  shows "covers (w_db (apply_read tiers packs now u seq items trig w))"
proof -
  have d: "distinct (map b_app_user_id (account_billing_ids (w_db w)))" using assms by (simp add: covers_def)
  have old: "case tier_of (w_db w) (b_account_id r) of None \<Rightarrow> True | Some t \<Rightarrow> b_entitled_tier r \<le> t"
    if "r \<in> set (account_billing_ids (w_db w))" for r
    using assms that by (simp add: covers_def)
  have linked: "covers (write_result now u seq v trig acc before (w_db (link_row now u acc w)))" for v acc before
  proof (rule result_covers)
    fix r assume r: "r \<in> set (account_billing_ids (w_db (link_row now u acc w)))" and "b_app_user_id r = u"
    then have "billing_row_of (w_db (link_row now u acc w)) u = Some r"
      unfolding billing_row_of_def using find_key[OF link_distinct[OF d] r] by simp
    then show "b_account_id r = acc" by (auto simp: billing_row_link split: option.splits)
  next
    fix r assume "r \<in> set (account_billing_ids (w_db (link_row now u acc w)))" "b_account_id r \<noteq> acc"
    moreover have "tier_of (w_db (link_row now u acc w)) x = tier_of (w_db w) x" for x
      by (rule tier_of_cong) (simp add: frame_simps)
    ultimately show "case tier_of (w_db (link_row now u acc w)) (b_account_id r) of None \<Rightarrow> True | Some t \<Rightarrow> b_entitled_tier r \<le> t"
      using link_rows old by metis
  qed (rule link_distinct[OF d])
  have unlinked: "covers (write_result now u seq v trig (b_account_id b) before (w_db w))"
    if "billing_row_of (w_db w) u = Some b" for v before b
    using billing_row_in[OF that] distinct_map_unique[OF d] old d by (intro result_covers) auto
  show ?thesis
    unfolding apply_read_def Let_def
    using assms by (auto simp: linked unlinked clear_queue_covers split: option.split)
qed

interpretation read_writer: tier_writer
  "\<lambda>(tiers, packs, now, u, seq, items, trig, w) s. w_db (apply_read tiers packs now u seq items trig (w\<lparr>w_db := s\<rparr>))"
proof (unfold_locales, goal_cases)
  case (1 s i)
  show ?case using apply_read_audited[of "_\<lparr>w_db := s\<rparr>"] by (auto split: prod.split)
next
  case (2 s i)
  then show ?case using apply_read_covers[of "_\<lparr>w_db := s\<rparr>"] by (auto split: prod.split)
qed

text \<open>The three writers of tiers, as one kind of step.\<close>

datatype billing_op =
    OpEvent tier_map seconds rc_event
  | OpSweep tier_map "nat \<Rightarrow> string \<Rightarrow> page_answer" string seconds ident
  | OpRead tier_map pack_map seconds ident nat "entitlement list" read_trigger reads_world

fun billing_step :: "billing_op \<Rightarrow> db \<Rightarrow> db" where
  "billing_step (OpEvent cfg now ev) s = apply_revenuecat_event cfg now ev s"
| "billing_step (OpSweep cfg fetch path now u) s = reconcile_billing_id cfg fetch path now u s"
| "billing_step (OpRead tiers packs now u seq items trig w) s =
     w_db (apply_read tiers packs now u seq items trig (w\<lparr>w_db := s\<rparr>))"

interpretation billing: tier_writer billing_step
proof (unfold_locales, goal_cases)
  case (1 s i)
  show ?case by (cases i) (use event_audited reconcile_id_audited apply_read_audited[of "_\<lparr>w_db := s\<rparr>"] in auto)
next
  case (2 s i)
  then show ?case by (cases i) (use event_covers reconcile_id_covers apply_read_covers[of "_\<lparr>w_db := s\<rparr>"] in auto)
qed

text \<open>C27: However billing events, sweep results and store reads are mixed, the log of tier changes
  explains every account's tier: the rows added for an account lead from the tier it had to the
  tier it has, one real change at a time, and an account with no new row kept its tier. And if no
  account was on less than one of its billing ids pays for, that stays so.\<close>

theorem tier_writes_are_audited:
  "audited s (fold billing_step ops s) \<and>
   (tier_changes (fold billing_step ops s) = tier_changes s \<longrightarrow> tier_of (fold billing_step ops s) acc = tier_of s acc) \<and>
   (covers s \<longrightarrow> covers (fold billing_step ops s))"
  using billing.puts_audited billing.puts_cover billing.silent_keeps by blast

theorem tier_writes_are_audited_witness:
  "covers (billing_step (OpEvent demo_map 100 demo_renewal) demo_customers) \<and>
   tier_of (billing_step (OpEvent demo_map 100 demo_renewal) demo_customers) ''acc1'' = Some Relay"
proof -
  have "covers demo_customers" by (simp add: covers_def demo_billing_defs)
  then have "covers (billing_step (OpEvent demo_map 100 demo_renewal) demo_customers)"
    using tier_writes_are_audited[of demo_customers "[OpEvent demo_map 100 demo_renewal]"] by simp
  moreover have "tier_of (billing_step (OpEvent demo_map 100 demo_renewal) demo_customers) ''acc1'' = Some Relay"
    by code_simp
  ultimately show ?thesis by simp
qed

subsection \<open>Reads in flight\<close>

definition number_of :: "reads_world \<Rightarrow> ident \<Rightarrow> nat" where
  "number_of w u = (case billing_row_of (w_db w) u of None \<Rightarrow> unlinked_of w u | Some b \<Rightarrow> b_read_seq b)"

definition flights_ok :: "reads_world \<Rightarrow> bool" where
  "flights_ok w \<longleftrightarrow> (\<forall>u. case w_flights w u of None \<Rightarrow> True | Some fl \<Rightarrow> fl_seq fl \<le> number_of w u)"

definition is_dirty :: "db \<Rightarrow> ident \<Rightarrow> bool" where
  "is_dirty s u = (case queue_row s u of None \<Rightarrow> False | Some r \<Rightarrow> br_dirty r)"

lemma unlinked_simps [simp]:
  "unlinked_of (w\<lparr>w_db := s\<rparr>) x = unlinked_of w x"
  "unlinked_of (w\<lparr>w_flights := f\<rparr>) x = unlinked_of w x"
  by (simp_all add: unlinked_of_def)

lemma unlinked_link:
  "x \<noteq> u \<Longrightarrow> unlinked_of (link_row now u acc w) x = unlinked_of w x"
  by (simp add: unlinked_of_def link_row_def split: option.split)

lemma number_link [simp]: "number_of (link_row now u acc w) x = number_of w x"
  by (auto simp: number_of_def billing_row_link unlinked_link split: option.split)

lemma number_db:
  "account_billing_ids s = account_billing_ids (w_db w) \<Longrightarrow> number_of (w\<lparr>w_db := s\<rparr>) x = number_of w x"
  by (simp add: number_of_def unlinked_of_def billing_row_of_def split: option.split)

lemma number_flights [simp]: "number_of (w\<lparr>w_flights := f\<rparr>) x = number_of w x"
  by (simp add: number_of_def split: option.split)

lemma number_take:
  "number_of (fst (take_number u w)) x = (if x = u then number_of w x + 1 else number_of w x)"
  "snd (take_number u w) = number_of w u + 1"
proof -
  have "billing_row_of (s\<lparr>account_billing_ids := upd_where (\<lambda>r. b_app_user_id r = u) (\<lambda>r. r\<lparr>b_read_seq := b_read_seq r + 1\<rparr>)
      (account_billing_ids s)\<rparr>) x = (if x = u then map_option (\<lambda>r. r\<lparr>b_read_seq := b_read_seq r + 1\<rparr>) (billing_row_of s x)
      else billing_row_of s x)" for s
    unfolding billing_row_of_def
    by (cases "List.find (\<lambda>b. b_app_user_id b = x) (account_billing_ids s)") (auto simp: find_upd_where dest: find_SomeD)
  then show "number_of (fst (take_number u w)) x = (if x = u then number_of w x + 1 else number_of w x)"
    by (auto simp: take_number_def number_of_def unlinked_of_def split: option.split)
  show "snd (take_number u w) = number_of w u + 1"
    by (simp add: take_number_def number_of_def split: option.split)
qed

lemma take_number_frame [simp]:
  "w_flights (fst (take_number u w)) = w_flights w"
  "billing_reads (w_db (fst (take_number u w))) = billing_reads (w_db w)"
  by (simp_all add: take_number_def split: option.split)

lemma start_read_simps:
  "w_flights (start_read u trig w) = (w_flights w)(u \<mapsto> \<lparr>fl_seq = number_of w u + 1, fl_trigger = trig, fl_follow = None\<rparr>)"
  "number_of (start_read u trig w) x = (if x = u then number_of w x + 1 else number_of w x)"
  using number_take[of u w] by (simp_all add: start_read_def case_prod_beta)

lemma number_result:
  "number_of (w\<lparr>w_db := write_result now u seq v trig acc before (w_db w)\<rparr>) x \<ge> number_of w x"
proof -
  have "number_of (w\<lparr>w_db := write_row u t now seq (w_db w)\<rparr>) x \<ge> number_of w x" for t
    by (auto simp: number_of_def billing_row_write split: option.split)
  then show ?thesis
    by (simp add: number_of_def billing_row_result cong: option.case_cong)
qed

lemma number_apply: "number_of (apply_read tiers packs now u seq items trig w) x \<ge> number_of w x"
proof -
  have link: "number_of (link_row now u acc w\<lparr>w_db := write_result now u seq v trig acc' before (w_db (link_row now u acc w))\<rparr>) x
      \<ge> number_of w x" for acc acc' v before
    using number_result[where w = "link_row now u acc w" and x = x] by simp
  have clear: "number_of (w\<lparr>w_db := clear_queue u (w_db w)\<rparr>) x = number_of w x"
    by (rule number_db) (simp add: frame_simps)
  show ?thesis
    unfolding apply_read_def Let_def
    by (auto simp: link clear number_result split: option.split)
qed

lemma apply_read_flights [simp]: "w_flights (apply_read tiers packs now u seq items trig w) = w_flights w"
  by (simp add: apply_read_def Let_def frame_simps split: option.split)

lemma result_flights: "w_flights (fst (result_of_read tiers packs now u seq answer trig w)) = w_flights w"
  by (simp add: result_of_read_def split: store_answer.split)

lemma number_of_result: "number_of (fst (result_of_read tiers packs now u seq answer trig w)) x \<ge> number_of w x"
proof -
  have "number_of (w\<lparr>w_db := failed_read now u (w_db w)\<rparr>) x = number_of w x"
    by (rule number_db) (simp add: frame_simps)
  then show ?thesis by (simp add: result_of_read_def number_apply split: store_answer.split)
qed

lemma enqueue_number [simp]: "number_of (enqueue now u w) x = number_of w x"
  unfolding enqueue_def by (auto intro!: number_db simp: frame_simps)

lemma enqueue_flights [simp]: "w_flights (enqueue now u w) = w_flights w"
  by (simp add: enqueue_def)

lemma number_event_mark [simp]: "number_of (w\<lparr>w_db := raise_event_mark u at (w_db w)\<rparr>) x = number_of w x"
proof -
  have "map_option b_read_seq (billing_row_of (raise_event_mark u at s) x) = map_option b_read_seq (billing_row_of s x)" for s
    unfolding billing_row_of_def raise_event_mark_def
    by (cases "List.find (\<lambda>b. b_app_user_id b = x) (account_billing_ids s)") (auto simp: find_upd_where dest: find_SomeD)
  from this[of "w_db w"] show ?thesis
    by (auto simp: number_of_def unlinked_of_def split: option.split)
qed

lemma trigger_event_flights:
  "w_flights (queue_reads_for_event now ev w) = w_flights w \<and> number_of (queue_reads_for_event now ev w) x = number_of w x"
proof -
  define step where "step = (\<lambda>at (u, acc) w. enqueue now u (let w' = link_row now u acc w in w'\<lparr>w_db := raise_event_mark u at (w_db w')\<rparr>))"
  have "w_flights (fold (step at) us w) = w_flights w \<and> number_of (fold (step at) us w) x = number_of w x" for at us w
    by (induction us arbitrary: w) (auto simp: step_def Let_def frame_simps)
  moreover have "number_of (w\<lparr>w_db := (w_db w)\<lparr>billing_events := l\<rparr>\<rparr>) x = number_of w x" for l
    by (rule number_db) simp
  ultimately show ?thesis
    unfolding queue_reads_for_event_def Let_def step_def by simp
qed

text \<open>What may happen between two looks at the world: triggers, the scan, an answer, a result that a
  dead process left behind, a restart.\<close>

inductive reads_step :: "reads_world \<Rightarrow> reads_world \<Rightarrow> bool" where
  event: "reads_step w (queue_reads_for_event now ev w)"
| enqueued: "reads_step w (enqueue now u w)"
| requested: "reads_step w (request_read now u trig w)"
| scanned: "r \<in> set (due_reads now (w_db w)) \<Longrightarrow> reads_step w (scan_row_read r w)"
| finished: "reads_step w (finish_read tiers packs now u answer w)"
| late: "reads_step w (apply_read tiers packs now u seq items trig w)"
| restarted: "reads_step w (restart w)"

lemma flights_okI: "(\<And>u fl. w_flights w u = Some fl \<Longrightarrow> fl_seq fl \<le> number_of w u) \<Longrightarrow> flights_ok w"
  by (auto simp: flights_ok_def split: option.split)

lemma flights_okD: "flights_ok w \<Longrightarrow> w_flights w u = Some fl \<Longrightarrow> fl_seq fl \<le> number_of w u"
  by (auto simp: flights_ok_def split: option.splits)

lemma flights_ok_mono:
  "flights_ok w \<Longrightarrow> w_flights w' = w_flights w \<Longrightarrow> (\<And>x. number_of w x \<le> number_of w' x) \<Longrightarrow> flights_ok w'"
  by (rule flights_okI) (metis flights_okD order_trans)

lemma start_read_ok: "flights_ok w \<Longrightarrow> flights_ok (start_read u trig w)"
  by (rule flights_okI) (auto simp: start_read_simps dest: flights_okD split: if_splits)

lemma find_del_where_first:
  "List.find Q rows = Some r \<Longrightarrow> \<not> P r \<Longrightarrow> List.find Q (del_where P rows) = Some r"
  by (induction rows) (auto simp: del_where_def split: if_splits)

lemma is_dirty_cong: "billing_reads s' = billing_reads s \<Longrightarrow> is_dirty s' u = is_dirty s u"
  by (simp add: is_dirty_def queue_row_def)

lemma is_dirty_clear: assumes "is_dirty s u" shows "is_dirty (clear_queue u s) u"
proof -
  obtain r where r: "queue_row s u = Some r" "br_dirty r"
    using assms by (auto simp: is_dirty_def split: option.splits)
  have "queue_row (clear_queue u s) u = Some r"
    unfolding queue_row_def clear_queue_def
    using find_del_where_first[OF r(1)[unfolded queue_row_def], of "\<lambda>r. br_app_user_id r = u \<and> \<not> br_dirty r"] r(2) by simp
  then show ?thesis using r(2) by (simp add: is_dirty_def)
qed

lemma is_dirty_taken: "is_dirty s u \<Longrightarrow> snd (take_dirty u s)"
  by (auto simp: is_dirty_def queue_row_def take_dirty_def list_ex_iff split: option.splits dest!: find_SomeD)

lemma queue_stays_dirty:
  assumes "is_dirty (w_db w) u"
  shows "is_dirty (w_db (fst (result_of_read tiers packs now u seq answer trig w))) u"
proof -
  have failed: "failed_read now u (w_db w) = w_db w"
    using assms by (auto simp: failed_read_def Let_def is_dirty_def split: option.splits)
  have linked: "is_dirty (w_db (link_row now u acc w)) u" for acc
    using assms is_dirty_cong[of "w_db (link_row now u acc w)" "w_db w" u] by (simp add: link_row_def split: option.splits)
  have result: "is_dirty (write_result now u seq v trig acc before s) u" if "is_dirty s u" for v acc before s
    unfolding write_result_alt
  proof (rule is_dirty_clear)
    show "is_dirty (settle_tier acc before (guarded_tier v before) reason None now
        (if sv_unknown v \<noteq> [] then put_packs u (sv_packs v) (write_row u (guarded_tier v before) now seq s)
         else drop_packs u (sv_packs v) (put_packs u (sv_packs v) (write_row u (guarded_tier v before) now seq s)))) u" for reason
      by (subst is_dirty_cong[of _ s]) (simp_all add: that frame_simps drop_packs_def write_row_def)
  qed
  have "is_dirty (w_db (apply_read tiers packs now u seq items trig w)) u" for items
    unfolding apply_read_def Let_def
    using assms by (auto simp: result is_dirty_clear linked split: option.split)
  then show ?thesis
    using assms by (simp add: result_of_read_def failed split: store_answer.split)
qed

lemma finish_dirty:
  assumes "w_flights w u = Some fl" "is_dirty (w_db w) u \<or> fl_follow fl \<noteq> None" "fl_seq fl \<le> number_of w u"
  shows "\<exists>fl'. w_flights (finish_read tiers packs now u answer w) u = Some fl' \<and> fl_follow fl' = None \<and> fl_seq fl < fl_seq fl'"
proof -
  let ?w1 = "fst (result_of_read tiers packs now u (fl_seq fl) answer (fl_trigger fl) w)"
  obtain s2 dirty where t: "take_dirty u (w_db ?w1) = (s2, dirty)" by fastforce
  have dirty: "dirty \<or> fl_follow fl \<noteq> None"
    using assms(2) queue_stays_dirty[of w u tiers packs now "fl_seq fl" answer "fl_trigger fl"] is_dirty_taken t by fastforce
  have rows: "account_billing_ids s2 = account_billing_ids (w_db ?w1)"
    using t by (auto simp: take_dirty_def)
  have n: "number_of (?w1\<lparr>w_db := s2, w_flights := f\<rparr>) u = number_of ?w1 u" for f
    using number_db[OF rows, of u] by simp
  have "finish_read tiers packs now u answer w =
      start_read u (case fl_follow fl of None \<Rightarrow> ByWebhook | Some t \<Rightarrow> t) (?w1\<lparr>w_db := s2, w_flights := (w_flights ?w1)(u := None)\<rparr>)"
    using assms(1) dirty by (simp add: finish_read_def t Let_def)
  then show ?thesis
    using n number_of_result[where w = w and x = u] assms(3) by (simp add: start_read_simps le_imp_less_Suc order_trans)
qed

lemma request_flight:
  "w_flights w u = Some fl \<Longrightarrow>
   w_flights (request_read now u trig w) u = Some (if fl_follow fl = None then fl\<lparr>fl_follow := Some trig\<rparr> else fl) \<and>
   number_of (request_read now u trig w) x = number_of w x"
proof -
  assume fl: "w_flights w u = Some fl"
  have "number_of (w\<lparr>w_db := mark_dirty now u (w_db w)\<rparr>) x = number_of w x"
    by (rule number_db) (simp add: frame_simps)
  then show ?thesis
    using fl number_flights[where w = "w\<lparr>w_db := mark_dirty now u (w_db w)\<rparr>"] by (simp add: request_read_def)
qed

lemma request_read_ok: assumes "flights_ok w" shows "flights_ok (request_read now u trig w)"
proof (cases "w_flights w u")
  case None
  then show ?thesis using start_read_ok[OF assms] by (simp add: request_read_def)
next
  case (Some fl)
  show ?thesis
  proof (rule flights_okI)
    fix x fx assume "w_flights (request_read now u trig w) x = Some fx"
    then have "\<exists>fy. w_flights w x = Some fy \<and> fl_seq fx = fl_seq fy"
      using Some request_flight[OF Some, of now trig] by (cases "x = u") (auto simp: request_read_def)
    then show "fl_seq fx \<le> number_of (request_read now u trig w) x"
      using request_flight[OF Some, of now trig x] flights_okD[OF assms] by auto
  qed
qed

lemma finish_read_ok: assumes "flights_ok w" shows "flights_ok (finish_read tiers packs now u answer w)"
proof (cases "w_flights w u")
  case (Some fl)
  let ?w1 = "fst (result_of_read tiers packs now u (fl_seq fl) answer (fl_trigger fl) w)"
  obtain s2 dirty where t: "take_dirty u (w_db ?w1) = (s2, dirty)" by fastforce
  let ?w2 = "?w1\<lparr>w_db := s2, w_flights := (w_flights ?w1)(u := None)\<rparr>"
  have n: "number_of w x \<le> number_of ?w2 x" for x
  proof -
    have "account_billing_ids s2 = account_billing_ids (w_db ?w1)" using t by (auto simp: take_dirty_def)
    from number_db[OF this, of x] show ?thesis using number_of_result[where w = w and x = x] by simp
  qed
  have ok2: "flights_ok ?w2"
    using n flights_okD[OF assms] by (intro flights_okI) (fastforce simp: result_flights split: if_splits intro: order_trans)
  have "number_of (?w2\<lparr>w_unlinked := (w_unlinked ?w2)(u := None)\<rparr>) x = number_of ?w2 x" if "x \<noteq> u" for x
    using that by (simp add: number_of_def unlinked_of_def cong: option.case_cong)
  then have ok3: "flights_ok (?w2\<lparr>w_unlinked := (w_unlinked ?w2)(u := None)\<rparr>)"
    using flights_okD[OF ok2] by (intro flights_okI) (auto split: if_splits)
  show ?thesis
    using Some ok3 start_read_ok[OF ok2] by (auto simp: finish_read_def t Let_def)
qed (use assms in \<open>simp add: finish_read_def\<close>)

interpretation reads: invariant_system "\<lambda>w. w_flights w = (\<lambda>_. None)" reads_step flights_ok
proof
  show "flights_ok w" if "w_flights w = (\<lambda>_. None)" for w using that by (simp add: flights_ok_def)
  show "flights_ok w'" if "reads_step w w'" "flights_ok w" for w w'
    using that
  proof cases
    case (scanned r now)
    have "number_of (w\<lparr>w_db := fst (take_dirty u (w_db w))\<rparr>) x = number_of w x" for u x
      by (rule number_db) (simp add: frame_simps)
    then have "flights_ok (w\<lparr>w_db := fst (take_dirty u (w_db w))\<rparr>)" for u
      by (intro flights_ok_mono[OF that(2)]) simp_all
    then show ?thesis using that(2) scanned by (auto simp: scan_row_read_def Let_def intro: start_read_ok)
  next
    case restarted
    then show ?thesis by (simp add: flights_ok_def restart_def)
  qed (use that(2) flights_ok_mono[OF that(2)] trigger_event_flights number_apply request_read_ok finish_read_ok in auto)
qed

lemma marked_dirty: "is_dirty (mark_dirty now u s) u"
  by (simp add: is_dirty_def queue_row_def mark_dirty_def find_upsert_same split: option.split)

subsection \<open>Other customers leave a row alone\<close>

definition reads_of :: "ident \<Rightarrow> db \<Rightarrow> billing_read_row list" where
  "reads_of v s = filter (\<lambda>r. br_app_user_id r = v) (billing_reads s)"

lemma filter_upd_other: "(\<And>r. P r \<Longrightarrow> \<not> Q r) \<Longrightarrow> (\<And>r. P r \<Longrightarrow> \<not> Q (f r)) \<Longrightarrow> filter Q (upd_where P f rows) = filter Q rows"
  by (induction rows) auto

lemma filter_upsert_other:
  "(\<And>r. P r \<Longrightarrow> \<not> Q r) \<Longrightarrow> (\<And>r. P r \<Longrightarrow> \<not> Q (f r)) \<Longrightarrow> \<not> Q new \<Longrightarrow> filter Q (upsert P f new rows) = filter Q rows"
  by (simp add: upsert_def filter_upd_other)

lemma filter_del_other: "(\<And>r. P r \<Longrightarrow> \<not> Q r) \<Longrightarrow> filter Q (del_where P rows) = filter Q rows"
  by (induction rows) (auto simp: del_where_def)

lemma queue_others:
  assumes "u \<noteq> v"
  shows "reads_of v (fst (take_dirty u s)) = reads_of v s" "reads_of v (failed_read now u s) = reads_of v s"
    "reads_of v (clear_queue u s) = reads_of v s" "reads_of v (mark_dirty now u s) = reads_of v s"
  using assms
  by (auto simp: reads_of_def take_dirty_def failed_read_def clear_queue_def mark_dirty_def Let_def
      intro!: filter_upd_other filter_upsert_other filter_del_other)

lemma write_result_reads: "u \<noteq> v \<Longrightarrow> reads_of v (write_result now u seq view trig acc old s) = reads_of v s"
  unfolding write_result_alt
  by (simp add: queue_others) (simp add: reads_of_def frame_simps drop_packs_def write_row_def)

lemma link_row_queue: "billing_reads (w_db (link_row now u acc w)) = billing_reads (w_db w)"
  by (simp add: link_row_def split: option.split)

lemma apply_read_reads: "u \<noteq> v \<Longrightarrow> reads_of v (w_db (apply_read tiers packs now u seq items trig w)) = reads_of v (w_db w)"
  unfolding apply_read_def Let_def
  by (auto simp: write_result_reads queue_others split: option.split) (auto simp: reads_of_def link_row_queue)

lemma start_read_reads: "reads_of v (w_db (start_read u trig w)) = reads_of v (w_db w)"
  by (simp add: start_read_def take_number_def reads_of_def split: option.split)

lemma finish_read_reads: assumes "u \<noteq> v" shows "reads_of v (w_db (finish_read tiers packs now u answer w)) = reads_of v (w_db w)"
proof (cases "w_flights w u")
  case (Some fl)
  have r: "reads_of v (w_db (fst (result_of_read tiers packs now u seq answer trig w))) = reads_of v (w_db w)" for seq trig
    using assms by (auto simp: result_of_read_def queue_others apply_read_reads split: store_answer.split)
  then show ?thesis
    using Some queue_others(1)[OF assms] by (simp add: finish_read_def Let_def case_prod_beta start_read_reads)
qed (simp add: finish_read_def)

lemma finish_read_flights: "u \<noteq> v \<Longrightarrow> w_flights (finish_read tiers packs now u answer w) v = w_flights w v"
  by (auto simp: finish_read_def Let_def case_prod_beta start_read_simps result_flights split: option.split)

lemma scan_row_reads: "br_app_user_id r \<noteq> v \<Longrightarrow> reads_of v (w_db (scan_row_read r w)) = reads_of v (w_db w)"
  by (simp add: scan_row_read_def Let_def start_read_reads queue_others)

lemma request_read_reads: "u \<noteq> v \<Longrightarrow> reads_of v (w_db (request_read now u trig w)) = reads_of v (w_db w)"
  by (simp add: request_read_def start_read_reads queue_others split: option.split)

lemma dirty_iff: "is_dirty s u \<longleftrightarrow> (case reads_of u s of [] \<Rightarrow> False | r # _ \<Rightarrow> br_dirty r)"
proof -
  have "(case List.find P rows of None \<Rightarrow> False | Some r \<Rightarrow> br_dirty r) = (case filter P rows of [] \<Rightarrow> False | r # _ \<Rightarrow> br_dirty r)" for P rows
    by (induction rows) auto
  then show ?thesis by (simp add: is_dirty_def queue_row_def reads_of_def)
qed

lemma dirty_same: "reads_of u s' = reads_of u s \<Longrightarrow> is_dirty s' u = is_dirty s u"
  by (simp add: dirty_iff)

lemma number_finish_other:
  assumes "u \<noteq> v" shows "number_of w v \<le> number_of (finish_read tiers packs now u answer w) v"
proof (cases "w_flights w u")
  case (Some fl)
  let ?w1 = "fst (result_of_read tiers packs now u (fl_seq fl) answer (fl_trigger fl) w)"
  obtain s2 dirty where t: "take_dirty u (w_db ?w1) = (s2, dirty)" by fastforce
  let ?w2 = "?w1\<lparr>w_db := s2, w_flights := (w_flights ?w1)(u := None)\<rparr>"
  have "account_billing_ids s2 = account_billing_ids (w_db ?w1)" using t by (auto simp: take_dirty_def)
  from number_db[OF this, of v] have n: "number_of w v \<le> number_of ?w2 v" using number_of_result[where w = w and x = v] by simp
  have "number_of (?w2\<lparr>w_unlinked := (w_unlinked ?w2)(u := None)\<rparr>) v = number_of ?w2 v"
    using assms by (simp add: number_of_def unlinked_of_def cong: option.case_cong)
  then show ?thesis using Some n assms by (auto simp: finish_read_def t Let_def start_read_simps)
qed (simp add: finish_read_def)

subsection \<open>A trigger stays noted\<close>

text \<open>A trigger marks the row of the flight it meets. A step in the meantime is any step at the end of which that flight is still out.\<close>

definition noted :: "ident \<Rightarrow> nat \<Rightarrow> reads_world \<Rightarrow> bool" where
  "noted u n w \<longleftrightarrow> (\<exists>fl. w_flights w u = Some fl \<and> fl_seq fl = n) \<and> n \<le> number_of w u \<and> is_dirty (w_db w) u"

definition meanwhile_step :: "ident \<Rightarrow> nat \<Rightarrow> reads_world \<Rightarrow> reads_world \<Rightarrow> bool" where
  "meanwhile_step u n w w' \<longleftrightarrow> reads_step w w' \<and> (\<exists>fl. w_flights w' u = Some fl \<and> fl_seq fl = n)"

lemma enqueue_dirty: "w_flights w u \<noteq> None \<Longrightarrow> is_dirty (w_db w) u \<Longrightarrow> is_dirty (w_db (enqueue now v w)) u"
proof (cases "v = u")
  case False
  then have "reads_of u (w_db (enqueue now v w)) = reads_of u (w_db w)"
    by (auto simp: enqueue_def queue_others) (auto simp: reads_of_def intro!: filter_upsert_other)
  then show "is_dirty (w_db w) u \<Longrightarrow> is_dirty (w_db (enqueue now v w)) u" by (simp add: dirty_same[of u "w_db (enqueue now v w)" "w_db w"])
qed (simp add: enqueue_def marked_dirty)

lemma event_dirty:
  assumes "w_flights w u \<noteq> None" "is_dirty (w_db w) u"
  shows "is_dirty (w_db (queue_reads_for_event now ev w)) u"
proof -
  define step where "step = (\<lambda>at (v, acc) w. enqueue now v (let w' = link_row now v acc w in w'\<lparr>w_db := raise_event_mark v at (w_db w')\<rparr>))"
  have one: "w_flights (step at p w) u \<noteq> None \<and> is_dirty (w_db (step at p w)) u" if "w_flights w u \<noteq> None" "is_dirty (w_db w) u" for at p w
  proof -
    let ?w' = "case p of (v, acc) \<Rightarrow> (let w' = link_row now v acc w in w'\<lparr>w_db := raise_event_mark v at (w_db w')\<rparr>)"
    have "billing_reads (w_db ?w') = billing_reads (w_db w)"
      by (simp add: Let_def raise_event_mark_def link_row_def split: prod.split option.split)
    from is_dirty_cong[OF this] have "is_dirty (w_db ?w') u" using that(2) by simp
    moreover have "w_flights ?w' u \<noteq> None" using that(1) by (simp add: Let_def link_row_def split: prod.split option.split)
    ultimately show ?thesis using enqueue_dirty[of ?w' u now "fst p"] by (simp add: step_def case_prod_beta)
  qed
  have all: "is_dirty (w_db (fold (step at) ps w)) u" if "w_flights w u \<noteq> None" "is_dirty (w_db w) u" for at ps w
    using that
  proof (induction ps arbitrary: w)
    case (Cons p ps)
    then show ?case using one[OF Cons.prems, of at p] Cons.IH by simp
  qed simp
  have "is_dirty (w_db (w\<lparr>w_db := (w_db w)\<lparr>billing_events := l\<rparr>\<rparr>)) u" for l using assms(2) by (simp add: is_dirty_def queue_row_def)
  then show ?thesis
    using assms all[of "w\<lparr>w_db := (w_db w)\<lparr>billing_events := l\<rparr>\<rparr>" for l]
    unfolding queue_reads_for_event_def Let_def step_def by simp
qed

lemma apply_dirty: "is_dirty (w_db w) u \<Longrightarrow> is_dirty (w_db (apply_read tiers packs now v seq items trig w)) u"
proof (cases "v = u")
  case True
  assume "is_dirty (w_db w) u"
  from queue_stays_dirty[OF this, of tiers packs now seq "StoreOk 200 items" trig] True show ?thesis by (simp add: result_of_read_def)
next
  case False
  from dirty_same[OF apply_read_reads[OF this]]
  show "is_dirty (w_db w) u \<Longrightarrow> is_dirty (w_db (apply_read tiers packs now v seq items trig w)) u" by simp
qed

lemma noted_step:
  assumes "meanwhile_step u n w w'" "noted u n w"
  shows "noted u n w'"
proof -
  obtain fl where fl: "w_flights w u = Some fl" "fl_seq fl = n" and n: "n \<le> number_of w u" and d: "is_dirty (w_db w) u"
    using assms(2) by (auto simp: noted_def)
  have out: "\<exists>fl. w_flights w' u = Some fl \<and> fl_seq fl = n" and step: "reads_step w w'" using assms(1) by (auto simp: meanwhile_step_def)
  have "n \<le> number_of w' u \<and> is_dirty (w_db w') u"
    using step
  proof cases
    case (event now ev)
    then show ?thesis using event_dirty[of w u] d fl n trigger_event_flights[of now ev w u] by simp
  next
    case (enqueued now v)
    then show ?thesis using enqueue_dirty[of w u] d fl n by simp
  next
    case (requested now v trig)
    show ?thesis
    proof (cases "v = u")
      case True
      then have "w_db w' = mark_dirty now u (w_db w)" using fl requested by (simp add: request_read_def)
      then show ?thesis using marked_dirty request_flight[OF fl(1)] n requested True by simp
    next
      case False
      have "number_of (request_read now v trig w) u = number_of w u"
        using False request_flight[of w v] by (cases "w_flights w v") (auto simp: request_read_def start_read_simps)
      then show ?thesis using d n requested dirty_same[OF request_read_reads[OF False]] by simp
    qed
  next
    case (scanned r now)
    have t: "number_of (w\<lparr>w_db := fst (take_dirty v (w_db w))\<rparr>) u = number_of w u" for v by (rule number_db) (simp add: frame_simps)
    show ?thesis
    proof (cases "br_app_user_id r = u")
      case True
      then show ?thesis using scanned fl d n by (simp add: scan_row_read_def Let_def)
    next
      case False
      then show ?thesis using scanned d n t dirty_same[OF scan_row_reads[OF False]] by (auto simp: scan_row_read_def Let_def start_read_simps)
    qed
  next
    case (finished tiers packs now v answer)
    have "v \<noteq> u"
    proof
      assume "v = u"
      with finished finish_dirty[OF fl(1), of tiers packs now answer] d n fl(2) out show False by auto
    qed
    then show ?thesis using d n finished number_finish_other[of v u w] dirty_same[OF finish_read_reads] by (metis order_trans)
  next
    case (late tiers packs now v seq items trig)
    then show ?thesis using d n apply_dirty number_apply by (metis order_trans)
  next
    case restarted
    then show ?thesis using out by (simp add: restart_def)
  qed
  then show ?thesis using out by (simp add: noted_def)
qed

interpretation noting: invariant_system "noted u n" "meanwhile_step u n" "noted u n"
  by unfold_locales (auto intro: noted_step)

lemma dirty_due: "is_dirty s u \<Longrightarrow> u \<in> br_app_user_id ` set (due_reads now s)"
  by (auto simp: is_dirty_def queue_row_def due_reads_def split: option.splits dest!: find_SomeD)

text \<open>C26: No trigger is lost, and no second read of a customer runs beside the first. Whoever asks for
  a read while one is in flight starts none. Whatever comes while it is still out (more triggers, scans, answers for other customers, late
  results), when it ends, with whatever answer, exactly one more is in flight, under a higher number, with nobody else's request attached; and if the
  process dies first, the customer is due in the next scan. This holds in every state that triggers, scans, answers, late results and restarts can reach.\<close>

theorem no_trigger_is_lost:
  assumes "w_flights w0 = (\<lambda>_. None)" "reads_step\<^sup>*\<^sup>* w0 w" "w_flights w u = Some fl"
    and "w' = enqueue t u w \<or> w' = request_read t u trig w" and "(meanwhile_step u (fl_seq fl))\<^sup>*\<^sup>* w' w''"
  shows "(\<exists>fl'. w_flights w' u = Some fl' \<and> fl_seq fl' = fl_seq fl) \<and>
    (\<exists>fl'. w_flights (finish_read tiers packs t' u answer w'') u = Some fl' \<and> fl_follow fl' = None \<and> fl_seq fl < fl_seq fl') \<and>
    u \<in> br_app_user_id ` set (due_reads t'' (w_db (restart w'')))"
proof -
  have seq: "fl_seq fl \<le> number_of w u"
    using flights_okD[OF reads.inv_reachable[OF assms(1,2)] assms(3)] .
  have noted: "noted u (fl_seq fl) w'"
    using assms(4)
  proof
    assume w': "w' = enqueue t u w"
    then show ?thesis using seq assms(3) by (simp add: noted_def) (simp add: enqueue_def marked_dirty)
  next
    assume w': "w' = request_read t u trig w"
    have "is_dirty (w_db w') u" using assms(3) by (simp add: w' request_read_def marked_dirty)
    then show ?thesis using seq request_flight[OF assms(3), of t trig u] by (simp add: noted_def w')
  qed
  have "noted u (fl_seq fl) w''" by (rule noting.inv_reachable[OF noted assms(5)])
  then obtain fl2 where fl2: "w_flights w'' u = Some fl2" "fl_seq fl2 = fl_seq fl" "fl_seq fl2 \<le> number_of w'' u" "is_dirty (w_db w'') u"
    by (auto simp: noted_def)
  have "\<exists>fl'. w_flights (finish_read tiers packs t' u answer w'') u = Some fl' \<and> fl_follow fl' = None \<and> fl_seq fl < fl_seq fl'"
    using finish_dirty[OF fl2(1) disjI1[OF fl2(4)] fl2(3)] fl2(2) by simp
  then show ?thesis using noted dirty_due[OF fl2(4)] by (simp add: noted_def restart_def)
qed

text \<open>The shadow read tells the truth about the switch: the tier it logs is the one the read path
  would write into the customer's row for the same list, so "agrees" means that switching reading
  on would leave that row's tier as it is.\<close>

theorem shadow_predicts_the_read:
  assumes "billing_row_of (w_db w) u = Some b" "b_applied_seq b < seq"
  shows "map_option b_entitled_tier (billing_row_of (w_db (apply_read tiers packs now u seq items trig w)) u) =
      Some (fst (shadow_tiers tiers packs items u (w_db w))) \<and>
    (snd (snd (shadow_tiers tiers packs items u (w_db w))) \<longleftrightarrow>
      map_option b_entitled_tier (billing_row_of (w_db (apply_read tiers packs now u seq items trig w)) u) = Some (b_entitled_tier b))"
  using apply_read_row[OF assms(1), of tiers packs now seq items trig] assms
  by (auto simp: shadow_tiers_def Let_def guarded_tier_def)

subsection \<open>A concrete run of reads\<close>

definition demo_row :: billing_id_row where
  "demo_row = \<lparr>b_app_user_id = ''u1'', b_account_id = ''acc1'', b_linked_at = 1, b_last_event_at = None,
     b_entitled_tier = Hosted, b_checked_at = None, b_read_seq = 2, b_applied_seq = 0\<rparr>"

definition demo_reads :: reads_world where
  "demo_reads = \<lparr>w_db = demo_customers\<lparr>account_billing_ids := [demo_row]\<rparr>, w_flights = (\<lambda>_. None), w_unlinked = (\<lambda>_. None)\<rparr>"

definition demo_packs :: pack_map where
  "demo_packs = (\<lambda>e. if e = ''pro'' then Some ''pro'' else None)"

lemma demo_reads_row: "billing_row_of (w_db demo_reads) ''u1'' = Some demo_row"
  by (simp add: billing_row_of_def demo_reads_def demo_row_def)

theorem newest_read_wins_witness:
  "packs_of (w_db (fold (arrive demo_map demo_packs ''u1'')
       [(200, 2, [\<lparr>en_id = ''pro'', en_expires_at = Some 900000\<rparr>], ByRetry), (201, 1, [], BySweep)] demo_reads)) ''u1'' = {(''pro'', Some 900)}"
proof -
  have v: "sv_unknown (view_entitlements demo_map demo_packs [\<lparr>en_id = ''pro'', en_expires_at = Some 900000\<rparr>]) = []"
    "sv_packs (view_entitlements demo_map demo_packs [\<lparr>en_id = ''pro'', en_expires_at = Some 900000\<rparr>]) = [(''pro'', Some 900)]"
    by (simp_all add: view_entitlements_def view_item_def demo_map_def demo_packs_def note_pack_def)
  show ?thesis
    using newest_read_wins[OF demo_reads_row, of
        "[(200, 2, [\<lparr>en_id = ''pro'', en_expires_at = Some 900000\<rparr>], ByRetry), (201, 1, [], BySweep)]" "[]"]
    by (simp add: v demo_row_def seq_of_def)
qed

theorem unsure_read_takes_nothing_witness:
  "fst ` packs_of (w_db demo_reads) ''u1'' \<subseteq>
     fst ` packs_of (w_db (fst (result_of_read demo_map demo_packs 300 ''u1'' 3 (StoreOk 404 []) BySweep demo_reads))) ''u1'' \<and>
   map_option b_entitled_tier (billing_row_of (w_db (fst (result_of_read demo_map demo_packs 300 ''u1'' 3 (StoreOk 404 []) BySweep demo_reads))) ''u1'') = Some Hosted"
proof -
  have "holds_something (w_db demo_reads) ''u1''"
    using demo_reads_row by (simp add: holds_something_def demo_row_def)
  then have prem: "case StoreOk 404 [] of StoreFailed st why \<Rightarrow> True
      | StoreOk status items \<Rightarrow> status = 404 \<and> holds_something (w_db demo_reads) ''u1'' \<or> sv_unknown (view_entitlements demo_map demo_packs items) \<noteq> []"
    by simp
  from unsure_read_takes_nothing[OF demo_reads_row this, where now = 300 and seq = 3 and trig = BySweep]
  show ?thesis
    by (auto simp: demo_row_def split: option.splits)
qed

theorem failed_reads_back_off_witness:
  "queue_row (fold (\<lambda>t. failed_read t ''u1'') [10, 70, 370, 1270, 4870] demo_customers) ''u1'' = None"
proof -
  have "queue_row demo_customers ''u1'' = None" by (simp add: queue_row_def demo_billing_defs)
  from failed_reads_back_off[OF this, of 10 70 370 1270 4870] show ?thesis by (simp add: Let_def)
qed

theorem no_trigger_is_lost_witness:
  "\<exists>fl'. w_flights (finish_read demo_map demo_packs 301 ''u1'' (StoreOk 200 []) (enqueue 300 ''u1'' (start_read ''u1'' BySweep demo_reads))) ''u1'' = Some fl' \<and>
     fl_follow fl' = None"
proof -
  have step: "reads_step\<^sup>*\<^sup>* demo_reads (start_read ''u1'' BySweep demo_reads)"
    using reads_step.requested[of demo_reads 0 "''u1''" BySweep] by (simp add: request_read_def demo_reads_def r_into_rtranclp)
  have "w_flights demo_reads = (\<lambda>_. None)" by (simp add: demo_reads_def)
  moreover obtain fl where fl: "w_flights (start_read ''u1'' BySweep demo_reads) ''u1'' = Some fl" by (simp add: start_read_simps)
  ultimately show ?thesis
    using no_trigger_is_lost[OF _ step fl disjI1[OF refl] rtranclp.rtrancl_refl, where tiers = demo_map and packs = demo_packs and t' = 301
        and answer = "StoreOk 200 []" and t = 300] by blast
qed

theorem shadow_predicts_the_read_witness:
  "map_option b_entitled_tier (billing_row_of (w_db (apply_read demo_map demo_packs 300 ''u1'' 3 [] BySweep demo_reads)) ''u1'') = Some Free"
  using shadow_predicts_the_read[OF demo_reads_row, of 3 demo_map demo_packs 300 "[]" BySweep]
  by (simp add: demo_row_def shadow_tiers_def view_entitlements_def Let_def)

end
