(* ===== verification/Stats.thy ===== *)
theory Stats
  imports Incidents "HOL-Library.AList"
begin

section \<open>Counters\<close>

text \<open>
  \<open>src/src/stats/counters.ts\<close>. Counters are bumped when something happens and only summed on a read. A
  row is keyed by day, relay key and metric; a zeroed key keeps its rows and leaves every total.
\<close>

subsection \<open>Days\<close>

text \<open>\<open>new Date(s * 1000).toISOString().slice(0, 10)\<close>: the civil date of a day number, for the
  years 0 to 9999 that have the ten-character form. The year starts in March here, so that the leap
  day is the last day of its year.\<close>

definition civil_of_day :: "int \<Rightarrow> int \<times> int \<times> int" where
  "civil_of_day day =
     (let z = day + 719468;
          era = z div 146097;
          doe = z mod 146097;
          yoe = (doe - doe div 1460 + doe div 36524 - doe div 146096) div 365;
          doy = doe - (365 * yoe + yoe div 4 - yoe div 100);
          mp = (5 * doy + 2) div 153;
          d = doy - (153 * mp + 2) div 5 + 1;
          m = (if mp < 10 then mp + 3 else mp - 9)
      in (yoe + era * 400 + (if m \<le> 2 then 1 else 0), m, d))"

definition pad_text :: "nat \<Rightarrow> int \<Rightarrow> string" where
  "pad_text n x = (let t = int_text x in replicate (n - length t) (CHR ''0'') @ t)"

definition day_key :: "seconds \<Rightarrow> string" where
  "day_key now = (case civil_of_day (now div 86400) of (y, m, d) \<Rightarrow> pad_text 4 y @ ''-'' @ pad_text 2 m @ ''-'' @ pad_text 2 d)"

subsection \<open>Metrics\<close>

datatype metric = PushesDelivered | AlarmsRung | Acks | IncidentsOpened | ChecksSent | ChecksReceived

fun metric_text :: "metric \<Rightarrow> string" where
  "metric_text PushesDelivered = ''pushes_delivered''"
| "metric_text AlarmsRung = ''alarms_rung''"
| "metric_text Acks = ''acks''"
| "metric_text IncidentsOpened = ''incidents_opened''"
| "metric_text ChecksSent = ''checks_sent''"
| "metric_text ChecksReceived = ''checks_received''"

definition all_metrics :: "metric list" where
  "all_metrics = [PushesDelivered, AlarmsRung, Acks, IncidentsOpened, ChecksSent, ChecksReceived]"

definition metric_of_text :: "string \<Rightarrow> metric option" where
  "metric_of_text x = List.find (\<lambda>m. metric_text m = x) all_metrics"

definition is_key_metric :: "metric \<Rightarrow> bool" where
  "is_key_metric m \<longleftrightarrow> m \<in> {PushesDelivered, AlarmsRung, Acks, IncidentsOpened}"

definition local_key :: string where "local_key = ''local''"

type_synonym totals = "metric \<Rightarrow> int"

definition empty_totals :: totals where "empty_totals = (\<lambda>_. 0)"

subsection \<open>Counting\<close>

definition counter_add :: "seconds \<Rightarrow> string \<Rightarrow> metric \<Rightarrow> int \<Rightarrow> db \<Rightarrow> db" where
  "counter_add now key m amount s =
     (if amount \<le> 0 then s
      else s\<lparr>counters := upsert (\<lambda>r. c_day r = day_key now \<and> c_relay_key r = key \<and> c_metric r = metric_text m)
              (\<lambda>r. r\<lparr>c_count := c_count r + amount\<rparr>)
              \<lparr>c_day = day_key now, c_relay_key = key, c_metric = metric_text m, c_count = amount\<rparr> (counters s)\<rparr>)"

definition count_event :: "seconds \<Rightarrow> string \<Rightarrow> delivery_event \<Rightarrow> db \<Rightarrow> db" where
  "count_event now key e s =
     (case e_kind e of
        EvOpen \<Rightarrow> counter_add now key AlarmsRung 1 (counter_add now key IncidentsOpened 1 s)
      | EvReopen \<Rightarrow> counter_add now key AlarmsRung 1 s
      | EvAck \<Rightarrow> counter_add now key Acks 1 s
      | _ \<Rightarrow> s)"

definition count_events :: "seconds \<Rightarrow> string \<Rightarrow> delivery_event list \<Rightarrow> db \<Rightarrow> db" where
  "count_events now key evs s = fold (count_event now key) evs s"

definition zero_key :: "string \<Rightarrow> db \<Rightarrow> db \<times> nat" where
  "zero_key key s =
     (s\<lparr>counters_zeroed := insert_or_ignore (\<lambda>k. k = key) key (counters_zeroed s)\<rparr>,
      count_where (\<lambda>r. c_relay_key r = key) (counters s))"

subsection \<open>Reading\<close>

record key_stats =
  ks_relay_key :: string
  ks_zeroed :: bool
  ks_totals :: totals
  ks_days :: "(string \<times> totals) list"

record server_stats =
  ss_totals :: totals
  ss_servers_total :: nat
  ss_devices_active_7d :: nat
  ss_days :: "(string \<times> totals) list"
  ss_keys :: "key_stats list option"

definition bump :: "metric \<Rightarrow> int \<Rightarrow> totals \<Rightarrow> totals" where
  "bump m n t = t(m := t m + n)"

definition bump_day :: "string \<Rightarrow> metric \<Rightarrow> int \<Rightarrow> (string \<times> totals) list \<Rightarrow> (string \<times> totals) list" where
  "bump_day day m n days =
     AList.update day (bump m n (case map_of days day of None \<Rightarrow> empty_totals | Some t \<Rightarrow> t)) days"

definition bump_key :: "string \<Rightarrow> bool \<Rightarrow> bool \<Rightarrow> string \<Rightarrow> metric \<Rightarrow> int \<Rightarrow> key_stats list \<Rightarrow> key_stats list" where
  "bump_key key zeroed recent day m n keys =
     upsert (\<lambda>k. ks_relay_key k = key)
       (\<lambda>k. k\<lparr>ks_totals := bump m n (ks_totals k), ks_days := (if recent then bump_day day m n (ks_days k) else ks_days k)\<rparr>)
       \<lparr>ks_relay_key = key, ks_zeroed = zeroed, ks_totals = bump m n empty_totals,
        ks_days = (if recent then bump_day day m n [] else [])\<rparr> keys"

definition read_row :: "string \<Rightarrow> string list \<Rightarrow> bool \<Rightarrow> counter_row
    \<Rightarrow> totals \<times> (string \<times> totals) list \<times> key_stats list \<Rightarrow> totals \<times> (string \<times> totals) list \<times> key_stats list" where
  "read_row since zeroed by_key r acc =
     (case metric_of_text (c_metric r) of None \<Rightarrow> acc
      | Some m \<Rightarrow>
          (case acc of (t, days, keys) \<Rightarrow>
             (let counted = c_relay_key r \<notin> set zeroed; recent = since \<le> c_day r
              in (if counted then bump m (c_count r) t else t,
                  if counted \<and> recent then bump_day (c_day r) m (c_count r) days else days,
                  if by_key \<and> is_key_metric m
                  then bump_key (c_relay_key r) (c_relay_key r \<in> set zeroed) recent (c_day r) m (c_count r) keys else keys))))"

definition read_stats :: "seconds \<Rightarrow> bool \<Rightarrow> db \<Rightarrow> server_stats" where
  "read_stats now by_key s =
     (let since = day_key (now - 29 * 86400); zeroed = counters_zeroed s
      in case fold (read_row since zeroed by_key) (counters s) (empty_totals, [], []) of (t, days, keys) \<Rightarrow>
           \<lparr>ss_totals = t,
            ss_servers_total = count_where (\<lambda>r. rs_key_hash r \<notin> set zeroed) (relay_servers s),
            ss_devices_active_7d = count_where (\<lambda>d. d_last_seen d \<ge> now - 7 * 86400) (devices s),
            ss_days = rev (sort_key fst days),
            ss_keys = (if by_key
              then Some (sort_key (\<lambda>k. (- ks_totals k AlarmsRung, ks_relay_key k))
                     (map (\<lambda>k. k\<lparr>ks_days := rev (sort_key fst (ks_days k))\<rparr>) keys))
              else None)\<rparr>)"

subsection \<open>Lemmas\<close>

lemma metric_text_inj [simp]: "metric_text m = metric_text m' \<longleftrightarrow> m = m'"
  by (cases m; cases m') simp_all

lemma metric_of_text_text [simp]: "metric_of_text (metric_text m) = Some m"
  by (cases m) (simp_all add: metric_of_text_def all_metrics_def)

lemma metric_of_text_Some: "metric_of_text x = Some m \<Longrightarrow> x = metric_text m"
  by (auto simp: metric_of_text_def dest: find_SomeD)

text \<open>The sum a total stands for: over the rows of the metric, of the keys that are not zeroed.\<close>

definition total_of :: "string list \<Rightarrow> counter_row list \<Rightarrow> metric \<Rightarrow> int" where
  "total_of zeroed rows m =
     sum_list (map c_count (filter (\<lambda>r. c_metric r = metric_text m \<and> c_relay_key r \<notin> set zeroed) rows))"

lemma read_rows_total:
  "fst (fold (read_row since zeroed by_key) rows acc) m = fst acc m + total_of zeroed rows m"
proof (induction rows arbitrary: acc)
  case (Cons r rows)
  obtain t days keys where acc: "acc = (t, days, keys)" by (cases acc)
  have "fst (read_row since zeroed by_key r acc) m =
      t m + (if c_metric r = metric_text m \<and> c_relay_key r \<notin> set zeroed then c_count r else 0)"
  proof (cases "metric_of_text (c_metric r)")
    case None
    then have "c_metric r \<noteq> metric_text m" by auto
    with None acc show ?thesis by (simp add: read_row_def)
  next
    case (Some m')
    then have "c_metric r = metric_text m'" by (rule metric_of_text_Some)
    with Some acc show ?thesis by (auto simp: read_row_def Let_def bump_def)
  qed
  then show ?case using Cons by (simp add: acc total_of_def)
qed (simp add: total_of_def)

lemma read_stats_total: "ss_totals (read_stats now by_key s) m = total_of (counters_zeroed s) (counters s) m"
  using read_rows_total[where acc = "(empty_totals, [], [])" and rows = "counters s" and m = m]
  by (simp add: read_stats_def Let_def empty_totals_def case_prod_beta)

lemma total_of_upsert:
  fixes day key :: string and m :: metric and n :: int
  defines "P \<equiv> \<lambda>r. c_day r = day \<and> c_relay_key r = key \<and> c_metric r = metric_text m"
  assumes "count_where P rows \<le> 1"
  shows "total_of zeroed (upsert P (\<lambda>r. r\<lparr>c_count := c_count r + n\<rparr>)
      \<lparr>c_day = day, c_relay_key = key, c_metric = metric_text m, c_count = n\<rparr> rows) m' =
    total_of zeroed rows m' + (if m' = m \<and> key \<notin> set zeroed then n else 0)"
proof -
  have upd: "total_of zeroed (upd_where P (\<lambda>r. r\<lparr>c_count := c_count r + n\<rparr>) xs) m' =
      total_of zeroed xs m' + (if m' = m \<and> key \<notin> set zeroed then int (count_where P xs) * n else 0)" for xs
    by (induction xs) (auto simp: total_of_def P_def algebra_simps)
  show ?thesis
  proof (cases "list_ex P rows")
    case True
    then have "count_where P rows = 1"
      using assms(2) by (auto simp: count_where_def list_ex_iff filter_empty_conv le_Suc_eq)
    with True show ?thesis by (simp add: upsert_def upd)
  next
    case False
    then show ?thesis by (auto simp: upsert_def total_of_def)
  qed
qed

text \<open>The primary key of the table: one row per day, key and metric.\<close>

definition counters_ok :: "db \<Rightarrow> bool" where
  "counters_ok s \<longleftrightarrow> distinct (map (\<lambda>r. (c_day r, c_relay_key r, c_metric r)) (counters s))"

lemma counters_ok_one:
  "counters_ok s \<Longrightarrow> count_where (\<lambda>r. c_day r = day \<and> c_relay_key r = key \<and> c_metric r = mt) (counters s) \<le> 1"
proof -
  have "count_where (\<lambda>r. c_day r = day \<and> c_relay_key r = key \<and> c_metric r = mt) xs \<le> 1"
    if "distinct (map (\<lambda>r. (c_day r, c_relay_key r, c_metric r)) xs)" for xs
    using that
  proof (induction xs)
    case (Cons r xs)
    have "count_where (\<lambda>r. c_day r = day \<and> c_relay_key r = key \<and> c_metric r = mt) xs = 0"
      if "c_day r = day \<and> c_relay_key r = key \<and> c_metric r = mt"
      using that Cons.prems by (auto simp: count_where_def filter_empty_conv image_iff)
    with Cons show ?case by auto
  qed simp
  then show "counters_ok s \<Longrightarrow> ?thesis" by (simp add: counters_ok_def)
qed

lemma counter_add_ok: "counters_ok s \<Longrightarrow> counters_ok (counter_add now key m n s)"
  by (auto simp: counters_ok_def counter_add_def upsert_def map_upd_where list_ex_iff image_iff)

lemma counter_add_total:
  "counters_ok s \<Longrightarrow> total_of z (counters (counter_add now key m n s)) m' =
     total_of z (counters s) m' + (if m' = m \<and> key \<notin> set z \<and> 0 < n then n else 0)"
  using total_of_upsert[OF counters_ok_one] by (auto simp: counter_add_def)

lemma counter_add_frame [frame_simps]:
  "counters_zeroed (counter_add now key m n s) = counters_zeroed s"
  by (simp add: counter_add_def)

definition rings :: "delivery_event list \<Rightarrow> int" where
  "rings evs = int (length (filter (\<lambda>e. e_kind e \<in> {EvOpen, EvReopen}) evs))"

definition kinds_in :: "event_kind \<Rightarrow> delivery_event list \<Rightarrow> int" where
  "kinds_in k evs = int (length (filter (\<lambda>e. e_kind e = k) evs))"

lemma count_events_total:
  assumes "counters_ok s"
  shows "counters_ok (count_events now key evs s) \<and>
    counters_zeroed (count_events now key evs s) = counters_zeroed s \<and>
    total_of z (counters (count_events now key evs s)) m = total_of z (counters s) m +
      (if key \<in> set z then 0
       else (case m of AlarmsRung \<Rightarrow> rings evs | IncidentsOpened \<Rightarrow> kinds_in EvOpen evs | Acks \<Rightarrow> kinds_in EvAck evs | _ \<Rightarrow> 0))"
  using assms
proof (induction evs arbitrary: s)
  case Nil
  then show ?case by (cases m) (simp_all add: count_events_def rings_def kinds_in_def)
next
  case (Cons e evs)
  have ok: "counters_ok (count_event now key e s)"
    using Cons.prems by (cases "e_kind e") (simp_all add: count_event_def counter_add_ok)
  have z: "counters_zeroed (count_event now key e s) = counters_zeroed s"
    by (cases "e_kind e") (simp_all add: count_event_def frame_simps)
  have one: "total_of z (counters (count_event now key e s)) m = total_of z (counters s) m +
      (if key \<in> set z then 0
       else (case m of AlarmsRung \<Rightarrow> rings [e] | IncidentsOpened \<Rightarrow> kinds_in EvOpen [e] | Acks \<Rightarrow> kinds_in EvAck [e] | _ \<Rightarrow> 0))"
    using Cons.prems
    by (cases "e_kind e"; cases m) (simp_all add: count_event_def counter_add_total counter_add_ok rings_def kinds_in_def)
  have "count_events now key (e # evs) s = count_events now key evs (count_event now key e s)"
    by (simp add: count_events_def)
  then show ?case
    using Cons.IH[OF ok] z one by (cases m) (auto simp: rings_def kinds_in_def)
qed

text \<open>The totals a read reports are the events that were counted: counting a batch of events for
  a key raises the alarms by its opens and reopens, the incidents by its opens and the
  acknowledgements by its acks, and nothing else; repeats and state changes ring nobody new. For a
  zeroed key no total moves, and zeroing a key keeps all its rows.\<close>

theorem totals_follow_events:
  assumes "counters_ok s"
  shows "ss_totals (read_stats t by_key (count_events now key evs s)) m = ss_totals (read_stats t' by_key' s) m +
      (if key \<in> set (counters_zeroed s) then 0
       else (case m of AlarmsRung \<Rightarrow> rings evs | IncidentsOpened \<Rightarrow> kinds_in EvOpen evs | Acks \<Rightarrow> kinds_in EvAck evs | _ \<Rightarrow> 0)) \<and>
    ss_totals (read_stats t by_key (fst (zero_key key s))) m = total_of (key # counters_zeroed s) (counters s) m \<and>
    counters (fst (zero_key key s)) = counters s"
proof -
  have "total_of (counters_zeroed (fst (zero_key key s))) (counters s) m = total_of (key # counters_zeroed s) (counters s) m"
    by (auto simp: zero_key_def insert_or_ignore_def list_ex_iff total_of_def intro!: arg_cong[where f = "\<lambda>x. sum_list (map c_count x)"] filter_cong)
  then show ?thesis
    using count_events_total[OF assms, of now key evs "counters_zeroed s" m]
    by (simp add: read_stats_total) (simp add: zero_key_def)
qed

definition demo_counters :: db where
  "demo_counters = empty_db\<lparr>counters := [\<lparr>c_day = ''2026-01-01'', c_relay_key = ''local'', c_metric = ''alarms_rung'', c_count = 4\<rparr>]\<rparr>"

theorem totals_follow_events_witness:
  "ss_totals (read_stats 0 False (count_events 0 ''local'' (snd (scan_due demo_clock demo_ids demo_ringing)) demo_counters)) AlarmsRung =
     4 + rings (snd (scan_due demo_clock demo_ids demo_ringing))"
proof -
  have "counters_ok demo_counters" by (simp add: counters_ok_def demo_counters_def)
  from totals_follow_events[OF this, where m = AlarmsRung and key = "''local''"]
  show ?thesis
    by (simp add: read_stats_total) (simp add: demo_counters_def empty_db_def total_of_def)
qed

end
