(* ===== verification/Checks.thy ===== *)
theory Checks
  imports Stats
begin

section \<open>The weekly check\<close>

text \<open>
  \<open>src/src/check/schedule.ts\<close>, \<open>store.ts\<close>, \<open>device-hooks.ts\<close> and \<open>scheduler.ts\<close>. Once a week a device
  of a hosted account is sent a push it has to answer. A round is open for a day and has at most
  three pushes; a receipt closes it as received, its close time closes it as missed or skipped. The
  state of a device is a row of \<open>device_checks\<close>, which names the round that is open.

  The hash functions of \<open>node:crypto\<close> are parameters: \<open>ce_sha\<close> is the hex text of SHA-256 and
  \<open>ce_hmac\<close> the hex text of the HMAC under the key that the table \<open>check_secret\<close> keeps.
\<close>

record check_env =
  ce_sha :: "string \<Rightarrow> string"
  ce_hmac :: "string \<Rightarrow> string"

subsection \<open>The schedule\<close>

definition hour_s :: int where "hour_s = 3600"
definition day_s :: int where "day_s = 86400"
definition week_s :: int where "week_s = 7 * day_s"
definition round_length_s :: int where "round_length_s = day_s"
definition attempt_offsets_s :: "int list" where "attempt_offsets_s = [0, 6 * hour_s, 18 * hour_s]"
definition max_attempts :: nat where "max_attempts = length attempt_offsets_s"
definition alarm_hold_s :: int where "alarm_hold_s = 30 * 60"
definition min_round_gap_s :: int where "min_round_gap_s = 3 * day_s"
definition first_monday_s :: int where "first_monday_s = 4 * day_s"

lemmas schedule_numbers = hour_s_def day_s_def week_s_def round_length_s_def attempt_offsets_s_def
  max_attempts_def alarm_hold_s_def min_round_gap_s_def first_monday_s_def

text \<open>The remainder of JavaScript has the sign of its first operand.\<close>

definition js_rem :: "int \<Rightarrow> int \<Rightarrow> int" where
  "js_rem a b = (if a < 0 then - ((- a) mod b) else a mod b)"

definition hex_digit :: "char \<Rightarrow> int option" where
  "hex_digit c =
     (if CHR ''0'' \<le> c \<and> c \<le> CHR ''9'' then Some (int (of_char c) - 48)
      else if CHR ''a'' \<le> c \<and> c \<le> CHR ''f'' then Some (int (of_char c) - 87) else None)"

text \<open>\<open>Number.parseInt(head, 16)\<close> of lower-case hex digits.\<close>

definition parse_hex :: "string \<Rightarrow> int" where
  "parse_hex x = foldl (\<lambda>acc c. case hex_digit c of None \<Rightarrow> acc | Some d \<Rightarrow> acc * 16 + d) 0 x"

definition slot_for :: "check_env \<Rightarrow> ident \<Rightarrow> int" where
  "slot_for env dev = parse_hex (take 8 (ce_sha env dev)) mod week_s"

definition slot_at_or_after :: "int \<Rightarrow> seconds \<Rightarrow> seconds" where
  "slot_at_or_after slot t =
     (let into = js_rem (js_rem (t - first_monday_s - slot) week_s + week_s) week_s
      in if into = 0 then t else t + (week_s - into))"

definition round_after :: "check_env \<Rightarrow> ident \<Rightarrow> seconds \<Rightarrow> seconds" where
  "round_after env dev opened_at = slot_at_or_after (slot_for env dev) (opened_at + min_round_gap_s)"

subsection \<open>Rows of the check\<close>

definition check_state :: "db \<Rightarrow> ident \<Rightarrow> device_check_row option" where
  "check_state s dev = List.find (\<lambda>c. dc_device_id c = dev) (device_checks s)"

definition round_of :: "db \<Rightarrow> ident \<Rightarrow> check_round_row option" where
  "round_of s rid = List.find (\<lambda>r. cr_id r = rid) (check_rounds s)"

definition open_round :: "db \<Rightarrow> device_check_row \<Rightarrow> check_round_row option" where
  "open_round s c =
     (case dc_round_id c of None \<Rightarrow> None
      | Some rid \<Rightarrow> (case round_of s rid of None \<Rightarrow> None
           | Some r \<Rightarrow> if cr_result r = None then Some r else None))"

definition upd_check :: "ident \<Rightarrow> (device_check_row \<Rightarrow> device_check_row) \<Rightarrow> db \<Rightarrow> db" where
  "upd_check dev f s = s\<lparr>device_checks := upd_where (\<lambda>c. dc_device_id c = dev) f (device_checks s)\<rparr>"

definition upd_round :: "ident \<Rightarrow> (check_round_row \<Rightarrow> check_round_row) \<Rightarrow> db \<Rightarrow> db" where
  "upd_round rid f s = s\<lparr>check_rounds := upd_where (\<lambda>r. cr_id r = rid) f (check_rounds s)\<rparr>"

text \<open>\<open>alarmTokenKind\<close> and the row an alarm would be sent to.\<close>

definition alarm_token_kind :: "platform \<Rightarrow> token_kind" where
  "alarm_token_kind p = (case p of Android \<Rightarrow> Fcm | _ \<Rightarrow> Apns)"

definition uses_apns :: "platform \<Rightarrow> bool" where
  "uses_apns p \<longleftrightarrow> alarm_token_kind p = Apns"

definition alarm_token_row :: "db \<Rightarrow> device_row \<Rightarrow> device_token_row option" where
  "alarm_token_row s d =
     List.find (\<lambda>k. dt_device_id k = d_id d \<and> dt_activity_id k = [] \<and> dt_kind k = alarm_token_kind (d_platform d)) (device_tokens s)"

record check_device =
  cd_account_id :: ident
  cd_platform :: platform
  cd_apns_environment :: "apns_environment option"
  cd_last_alarm_push_at :: "seconds option"
  cd_push_token :: string

definition check_device_of :: "db \<Rightarrow> ident \<Rightarrow> check_device option" where
  "check_device_of s dev =
     (case device_of s dev of None \<Rightarrow> None
      | Some d \<Rightarrow> Some \<lparr>cd_account_id = d_account_id d, cd_platform = d_platform d,
          cd_apns_environment = d_apns_environment d, cd_last_alarm_push_at = d_last_alarm_push_at d,
          cd_push_token = (case alarm_token_row s d of None \<Rightarrow> d_push_token d | Some k \<Rightarrow> dt_token k)\<rparr>)"

definition gets_checks :: "db \<Rightarrow> ident \<Rightarrow> bool" where
  "gets_checks s acc \<longleftrightarrow> tier_of s acc = Some Hosted"

subsection \<open>How a round ends\<close>

text \<open>\<open>close\<close>; the boolean it returns is read by nobody. The row it is given names the round and its
  device, and may be older than the table.\<close>

definition close_round :: "check_round_row \<Rightarrow> round_result \<Rightarrow> skip_reason option \<Rightarrow> seconds \<Rightarrow> db \<Rightarrow> db" where
  "close_round r res reason closed_at s =
     (case round_of s (cr_id r) of None \<Rightarrow> s
      | Some now_r \<Rightarrow>
          if cr_result now_r \<noteq> None then s
          else (let s1 = upd_round (cr_id r) (\<lambda>x. x\<lparr>cr_result := Some res, cr_reason := reason, cr_closed_at := Some closed_at\<rparr>) s;
                    s2 = upd_check (cr_device_id r)
                           (\<lambda>c. if dc_round_id c = Some (cr_id r)
                                then c\<lparr>dc_round_id := None, dc_next_attempt_at := (if dc_enabled c then Some (dc_next_due_at c) else None)\<rparr>
                                else c) s1
                in (case res of
                      Received \<Rightarrow> upd_check (cr_device_id r)
                        (\<lambda>c. c\<lparr>dc_misses := 0, dc_last_result := Some Received, dc_second_miss_at := None,
                               dc_last_received_at := Some closed_at\<rparr>) s2
                    | Skipped \<Rightarrow> s2
                    | _ \<Rightarrow> upd_check (cr_device_id r)
                        (\<lambda>c. c\<lparr>dc_second_miss_at := (if dc_misses c = 1 then Some closed_at else dc_second_miss_at c),
                               dc_misses := Suc (dc_misses c), dc_last_result := Some res\<rparr>) s2)))"

definition push_accepted :: "db \<Rightarrow> ident \<Rightarrow> bool" where
  "push_accepted s rid = list_ex (\<lambda>a. ca_round_id a = rid \<and> ca_outcome a = Some AttemptAccepted) (check_attempts s)"

definition held_to_the_end :: "check_round_row \<Rightarrow> db \<Rightarrow> bool" where
  "held_to_the_end r s =
     (let held = (case round_of s (cr_id r) of None \<Rightarrow> None | Some x \<Rightarrow> cr_held_until x);
          last_alarm = (case check_device_of s (cr_device_id r) of None \<Rightarrow> None | Some d \<Rightarrow> cd_last_alarm_push_at d);
          hold_ends = max (case held of None \<Rightarrow> 0 | Some h \<Rightarrow> h)
                          (case last_alarm of None \<Rightarrow> 0 | Some a \<Rightarrow> a + alarm_hold_s)
      in cr_attempts r = 0 \<and> held \<noteq> None \<and> cr_closes_at r \<le> hold_ends)"

definition expire_round :: "check_round_row \<Rightarrow> db \<Rightarrow> db" where
  "expire_round r s =
     (if push_accepted s (cr_id r) then close_round r Missed None (cr_closes_at r) s
      else close_round r Skipped (Some (if held_to_the_end r s then Held else Unsent)) (cr_closes_at r) s)"

definition settle_check :: "seconds \<Rightarrow> ident \<Rightarrow> db \<Rightarrow> db" where
  "settle_check now dev s =
     (case check_state s dev of None \<Rightarrow> s
      | Some c \<Rightarrow> (case open_round s c of None \<Rightarrow> s
           | Some r \<Rightarrow> if cr_closes_at r \<le> now then expire_round r s else s))"


subsection \<open>Enrolling\<close>

definition enable_check :: "seconds \<Rightarrow> ident \<Rightarrow> db \<Rightarrow> db" where
  "enable_check now dev s =
     (case check_state s dev of
        None \<Rightarrow> s\<lparr>device_checks := device_checks s @
          [\<lparr>dc_device_id = dev, dc_enabled = True, dc_enrolled_at = now, dc_next_attempt_at = Some now,
            dc_next_due_at = now, dc_round_id = None, dc_misses = 0, dc_last_result = None,
            dc_second_miss_at = None, dc_last_sent_at = None, dc_last_received_at = None\<rparr>]\<rparr>
      | Some c \<Rightarrow> if dc_enabled c then s
                  else upd_check dev (\<lambda>c. c\<lparr>dc_enabled := True, dc_next_attempt_at := Some (dc_next_due_at c)\<rparr>) s)"

definition disable_check :: "seconds \<Rightarrow> ident \<Rightarrow> db \<Rightarrow> db" where
  "disable_check now dev s =
     (case check_state s dev of None \<Rightarrow> s
      | Some c \<Rightarrow>
          if \<not> dc_enabled c then s
          else (let s1 = upd_check dev (\<lambda>c. c\<lparr>dc_enabled := False, dc_next_attempt_at := None\<rparr>) s
                in (case open_round s1 c of None \<Rightarrow> s1
                    | Some r \<Rightarrow> if cr_closes_at r \<le> now then expire_round r s1
                                else close_round r Skipped (Some Disabled) now s1)))"

subsection \<open>The turn of a device in the scan\<close>

definition due_checks :: "seconds \<Rightarrow> nat \<Rightarrow> db \<Rightarrow> ident list" where
  "due_checks now limit s =
     map dc_device_id (take limit
       (sort_key (\<lambda>c. (case dc_next_attempt_at c of None \<Rightarrow> 0 | Some t \<Rightarrow> t, dc_device_id c))
         (filter (\<lambda>c. dc_enabled c \<and> (case dc_next_attempt_at c of None \<Rightarrow> False | Some t \<Rightarrow> t \<le> now)) (device_checks s))))"

definition check_id_for :: "check_env \<Rightarrow> ident \<Rightarrow> string" where
  "check_id_for env rid = ''chk_'' @ take 32 (ce_hmac env rid)"

definition new_round :: "check_env \<Rightarrow> seconds \<Rightarrow> ident \<Rightarrow> ident \<Rightarrow> check_round_row" where
  "new_round env now rid dev =
     \<lparr>cr_id = rid, cr_device_id = dev, cr_nonce_hash = ce_sha env (check_id_for env rid), cr_opened_at = now,
      cr_closes_at = now + round_length_s, cr_closed_at = None, cr_attempts = 0, cr_result = None, cr_reason = None,
      cr_held_until = None, cr_attempt_received = None, cr_receipt_at = None, cr_device_received_at = None,
      cr_late_receipt_at = None\<rparr>"

definition skip_round :: "check_env \<Rightarrow> seconds \<Rightarrow> ident \<Rightarrow> ident \<Rightarrow> check_round_row option \<Rightarrow> skip_reason \<Rightarrow> db \<Rightarrow> db" where
  "skip_round env now rid dev r reason s =
     (case r of Some r \<Rightarrow> close_round r Skipped (Some reason) now s
      | None \<Rightarrow>
          upd_check dev (\<lambda>c. c\<lparr>dc_next_due_at := round_after env dev now, dc_next_attempt_at := Some (round_after env dev now)\<rparr>)
            (s\<lparr>check_rounds := check_rounds s @
               [(new_round env now rid dev)\<lparr>cr_closed_at := Some now, cr_result := Some Skipped, cr_reason := Some reason\<rparr>]\<rparr>))"

definition open_new_round :: "check_env \<Rightarrow> seconds \<Rightarrow> ident \<Rightarrow> ident \<Rightarrow> db \<Rightarrow> db" where
  "open_new_round env now rid dev s =
     upd_check dev (\<lambda>c. c\<lparr>dc_round_id := Some rid, dc_next_due_at := round_after env dev now\<rparr>)
       (s\<lparr>check_rounds := check_rounds s @ [new_round env now rid dev]\<rparr>)"

definition set_next_attempt :: "ident \<Rightarrow> seconds \<Rightarrow> db \<Rightarrow> db" where
  "set_next_attempt dev t s = upd_check dev (\<lambda>c. c\<lparr>dc_next_attempt_at := Some t\<rparr>) s"

record planned_check =
  pl_round_id :: ident
  pl_attempt :: nat
  pl_check_id :: string
  pl_platform :: platform
  pl_push_token :: string
  pl_apns_environment :: "apns_environment option"

text \<open>A second record of an attempt breaks the primary key, and takes the transaction back.\<close>

datatype plan_result = PlanFailed | NothingToSend | ToSend planned_check

definition alarm_hold_until :: "seconds \<Rightarrow> check_device \<Rightarrow> seconds option" where
  "alarm_hold_until now d =
     (case cd_last_alarm_push_at d of None \<Rightarrow> None
      | Some a \<Rightarrow> if now - a < alarm_hold_s then Some (a + alarm_hold_s) else None)"

definition next_push_at :: "seconds \<Rightarrow> nat \<Rightarrow> check_round_row \<Rightarrow> seconds" where
  "next_push_at now attempt r =
     (case (if max_attempts \<le> attempt then None
            else List.find (\<lambda>t. now < t) (map (\<lambda>offset. cr_opened_at r + offset) attempt_offsets_s)) of
        None \<Rightarrow> cr_closes_at r
      | Some t \<Rightarrow> min t (cr_closes_at r))"

definition plan_push :: "check_env \<Rightarrow> seconds \<Rightarrow> ident \<Rightarrow> check_device \<Rightarrow> check_round_row \<Rightarrow> db \<Rightarrow> db \<times> plan_result" where
  "plan_push env now dev d r s =
     (case alarm_hold_until now d of
        Some until \<Rightarrow>
          (upd_round (cr_id r) (\<lambda>x. x\<lparr>cr_held_until := Some until\<rparr>)
             (set_next_attempt dev (min until (cr_closes_at r)) s), NothingToSend)
      | None \<Rightarrow>
          (let attempt = Suc (cr_attempts r)
           in if max_attempts < attempt then (set_next_attempt dev (cr_closes_at r) s, NothingToSend)
              else if list_ex (\<lambda>a. ca_round_id a = cr_id r \<and> ca_attempt a = attempt) (check_attempts s) then (s, PlanFailed)
              else (set_next_attempt dev (next_push_at now attempt r)
                      (upd_round (cr_id r) (\<lambda>x. x\<lparr>cr_attempts := attempt\<rparr>)
                        (s\<lparr>check_attempts := check_attempts s @
                           [\<lparr>ca_round_id = cr_id r, ca_attempt = attempt, ca_recorded_at = now, ca_outcome = None, ca_status = None\<rparr>]\<rparr>)),
                    ToSend \<lparr>pl_round_id = cr_id r, pl_attempt = attempt, pl_check_id = check_id_for env (cr_id r),
                            pl_platform = cd_platform d, pl_push_token = cd_push_token d,
                            pl_apns_environment = cd_apns_environment d\<rparr>)))"

definition plan_check :: "check_env \<Rightarrow> seconds \<Rightarrow> ident \<Rightarrow> ident \<Rightarrow> db \<Rightarrow> db \<times> plan_result" where
  "plan_check env now rid dev s =
     (case check_state s dev of None \<Rightarrow> (s, NothingToSend)
      | Some c \<Rightarrow>
          if \<not> dc_enabled c \<or> (case dc_next_attempt_at c of None \<Rightarrow> True | Some t \<Rightarrow> now < t) then (s, NothingToSend)
          else (case check_device_of s dev of None \<Rightarrow> (s, NothingToSend)
            | Some d \<Rightarrow>
                let r = open_round s c
                in if (case r of None \<Rightarrow> False | Some r \<Rightarrow> cr_closes_at r \<le> now)
                   then (case r of None \<Rightarrow> (s, NothingToSend) | Some r \<Rightarrow> (expire_round r s, NothingToSend))
                   else if \<not> gets_checks s (cd_account_id d) then (skip_round env now rid dev r ReasonTier s, NothingToSend)
                   else if cd_push_token d = [] then (skip_round env now rid dev r NoToken s, NothingToSend)
                   else (case r of
                           Some r \<Rightarrow> plan_push env now dev d r s
                         | None \<Rightarrow> (case plan_push env now dev d (new_round env now rid dev) (open_new_round env now rid dev s) of
                                      (s', PlanFailed) \<Rightarrow> (s, PlanFailed)
                                    | res \<Rightarrow> res))))"

definition confirm_check :: "seconds \<Rightarrow> planned_check \<Rightarrow> db \<Rightarrow> db \<times> bool" where
  "confirm_check now p s =
     (case round_of s (pl_round_id p) of None \<Rightarrow> (s, False)
      | Some r \<Rightarrow>
          if cr_result r \<noteq> None then (s, False)
          else (case (check_state s (cr_device_id r), check_device_of s (cr_device_id r)) of
                  (Some c, Some d) \<Rightarrow>
                    if dc_round_id c \<noteq> Some (cr_id r) then (s, False)
                    else if \<not> dc_enabled c then (close_round r Skipped (Some Disabled) now s, False)
                    else if cr_closes_at r \<le> now then (expire_round r s, False)
                    else if \<not> gets_checks s (cd_account_id d) then (close_round r Skipped (Some ReasonTier) now s, False)
                    else if cd_push_token d = [] then (close_round r Skipped (Some NoToken) now s, False)
                    else (s, cd_push_token d = pl_push_token p)
                | _ \<Rightarrow> (s, False)))"

definition record_answer :: "seconds \<Rightarrow> ident \<Rightarrow> nat \<Rightarrow> attempt_outcome \<Rightarrow> int \<Rightarrow> db \<Rightarrow> db" where
  "record_answer now rid attempt outcome status s =
     (let mine = (\<lambda>a. ca_round_id a = rid \<and> ca_attempt a = attempt \<and> ca_outcome a = None)
      in if \<not> list_ex mine (check_attempts s) then s
         else (let s1 = s\<lparr>check_attempts := upd_where mine (\<lambda>a. a\<lparr>ca_outcome := Some outcome, ca_status := Some status\<rparr>) (check_attempts s)\<rparr>
               in (case round_of s1 rid of None \<Rightarrow> s1
                   | Some r \<Rightarrow>
                       (case outcome of
                          AttemptAccepted \<Rightarrow> counter_add now local_key ChecksSent 1
                            (upd_check (cr_device_id r) (\<lambda>c. c\<lparr>dc_last_sent_at := Some now\<rparr>) s1)
                        | AttemptRefused \<Rightarrow> if cr_result r = None then close_round r Refused None now s1 else s1
                        | _ \<Rightarrow> s1))))"


subsection \<open>What the routes answer\<close>

datatype check_status = Waiting | ReceivedState | MissedOnce | MissedRepeatedly | TokenRefused | NoTokenState | OffState
datatype off_reason = OffTier | OffDisabled

record check_view =
  cv_enabled :: bool
  cv_state :: check_status
  cv_reason :: "off_reason option"
  cv_misses :: nat
  cv_last_sent_at :: "seconds option"
  cv_last_received_at :: "seconds option"
  cv_next_due_at :: "seconds option"
  cv_notice_after :: "seconds option"

definition status_of_check :: "device_check_row \<Rightarrow> check_status" where
  "status_of_check c =
     (case dc_last_result c of
        None \<Rightarrow> Waiting
      | Some Received \<Rightarrow> ReceivedState
      | Some res \<Rightarrow> if 2 \<le> dc_misses c then MissedRepeatedly else if res = Refused then TokenRefused else MissedOnce)"

definition notice_after :: "check_env \<Rightarrow> seconds \<Rightarrow> device_check_row \<Rightarrow> db \<Rightarrow> seconds" where
  "notice_after env now c s =
     (if 2 \<le> dc_misses c then (case dc_second_miss_at c of None \<Rightarrow> now | Some t \<Rightarrow> t)
      else (case open_round s c of
              Some r \<Rightarrow> if dc_misses c = 1 then cr_closes_at r else dc_next_due_at c + round_length_s
            | None \<Rightarrow>
                let opens = max (dc_next_due_at c) now
                in if dc_misses c = 1 then opens + round_length_s
                   else slot_at_or_after (slot_for env (dc_device_id c)) (opens + min_round_gap_s) + round_length_s))"

definition view_of_check :: "check_env \<Rightarrow> seconds \<Rightarrow> ident \<Rightarrow> ident \<Rightarrow> db \<Rightarrow> check_view" where
  "view_of_check env now dev acc s =
     (case check_state s dev of
        None \<Rightarrow> \<lparr>cv_enabled = False, cv_state = OffState, cv_reason = Some OffDisabled, cv_misses = 0, cv_last_sent_at = None,
                 cv_last_received_at = None, cv_next_due_at = None, cv_notice_after = None\<rparr>
      | Some c \<Rightarrow>
          let base = \<lparr>cv_enabled = True, cv_state = OffState, cv_reason = None, cv_misses = dc_misses c,
                cv_last_sent_at = dc_last_sent_at c, cv_last_received_at = dc_last_received_at c,
                cv_next_due_at = None, cv_notice_after = None\<rparr>
          in if \<not> dc_enabled c then base\<lparr>cv_enabled := False, cv_reason := Some OffDisabled\<rparr>
             else if \<not> gets_checks s acc then base\<lparr>cv_reason := Some OffTier\<rparr>
             else (let timed = base\<lparr>cv_next_due_at := Some (dc_next_due_at c), cv_notice_after := Some (notice_after env now c s)\<rparr>
                   in if (case check_device_of s dev of None \<Rightarrow> True | Some d \<Rightarrow> cd_push_token d = [])
                      then timed\<lparr>cv_state := NoTokenState\<rparr>
                      else timed\<lparr>cv_state := status_of_check c\<rparr>))"

definition view_check :: "check_env \<Rightarrow> seconds \<Rightarrow> ident \<Rightarrow> ident \<Rightarrow> db \<Rightarrow> db \<times> check_view" where
  "view_check env now dev acc s = (let s1 = settle_check now dev s in (s1, view_of_check env now dev acc s1))"

record round_view =
  rv_id :: ident
  rv_opened_at :: seconds
  rv_closes_at :: seconds
  rv_closed_at :: "seconds option"
  rv_attempts :: nat
  rv_result :: "round_result option"
  rv_attempt_received :: "int option"
  rv_receipt_at :: "seconds option"
  rv_device_received_at :: "int option"
  rv_late_receipt_at :: "seconds option"
  rv_reason :: "skip_reason option"

definition round_view_of :: "check_round_row \<Rightarrow> round_view" where
  "round_view_of r =
     \<lparr>rv_id = cr_id r, rv_opened_at = cr_opened_at r, rv_closes_at = cr_closes_at r, rv_closed_at = cr_closed_at r,
      rv_attempts = cr_attempts r, rv_result = cr_result r, rv_attempt_received = cr_attempt_received r,
      rv_receipt_at = cr_receipt_at r, rv_device_received_at = cr_device_received_at r,
      rv_late_receipt_at = cr_late_receipt_at r, rv_reason = cr_reason r\<rparr>"

text \<open>\<open>ORDER BY opened_at DESC, rowid DESC\<close>: the table is in rowid order and the sort is stable.\<close>

definition list_rounds :: "seconds \<Rightarrow> ident \<Rightarrow> nat \<Rightarrow> db \<Rightarrow> db \<times> round_view list" where
  "list_rounds now dev limit s =
     (let s1 = settle_check now dev s
      in (s1, map round_view_of (take limit (rev (sort_key cr_opened_at (filter (\<lambda>r. cr_device_id r = dev) (check_rounds s1)))))))"

record receipt_answer =
  ra_counted :: bool
  ra_next_due_at :: "seconds option"
  ra_notice_after :: "seconds option"

definition is_check_id :: "string \<Rightarrow> bool" where
  "is_check_id x \<longleftrightarrow> take 4 x = ''chk_'' \<and> length x = 36 \<and> list_all (\<lambda>c. hex_digit c \<noteq> None) (drop 4 x)"

text \<open>The notes of the body: \<^term>\<open>Some n\<close> for a JSON number with the integer value \<open>n\<close>, and
  \<^term>\<open>None\<close> for every other value. \<open>Number.isSafeInteger\<close> is the range up to \<open>2 ^ 53\<close>.\<close>

definition safe_integer :: "int \<Rightarrow> bool" where
  "safe_integer n \<longleftrightarrow> - (2 ^ 53) < n \<and> n < 2 ^ 53"

definition note_receipt :: "seconds \<Rightarrow> check_round_row \<Rightarrow> int option \<Rightarrow> int option \<Rightarrow> db \<Rightarrow> db" where
  "note_receipt now r attempt received_at s =
     upd_round (cr_id r)
       (\<lambda>x. x\<lparr>cr_receipt_at := Some now,
              cr_device_received_at := (case received_at of Some n \<Rightarrow> if safe_integer n then Some n else None | None \<Rightarrow> None),
              cr_attempt_received := (case attempt of Some n \<Rightarrow> if 1 \<le> n \<and> n \<le> int (cr_attempts r) then Some n else None | None \<Rightarrow> None)\<rparr>) s"

definition receive_check ::
  "check_env \<Rightarrow> seconds \<Rightarrow> ident \<Rightarrow> ident \<Rightarrow> string \<Rightarrow> int option \<Rightarrow> int option \<Rightarrow> db \<Rightarrow> db \<times> receipt_answer option" where
  "receive_check env now dev acc chk attempt received_at s =
     (if \<not> is_check_id chk then (s, None)
      else (case List.find (\<lambda>r. cr_device_id r = dev \<and> cr_nonce_hash r = ce_sha env chk) (check_rounds s) of
              None \<Rightarrow> (s, None)
            | Some r0 \<Rightarrow>
                let s1 = (if cr_result r0 = None \<and> cr_closes_at r0 \<le> now then expire_round r0 s else s);
                    r = (if cr_result r0 = None \<and> cr_closes_at r0 \<le> now
                         then (case round_of s1 (cr_id r0) of None \<Rightarrow> r0 | Some x \<Rightarrow> x) else r0);
                    s2 = (case cr_result r of
                            None \<Rightarrow> counter_add now local_key ChecksReceived 1
                              (note_receipt now r attempt received_at (close_round r Received None now s1))
                          | Some Received \<Rightarrow> s1
                          | Some _ \<Rightarrow> upd_round (cr_id r)
                              (\<lambda>x. if cr_late_receipt_at x = None then x\<lparr>cr_late_receipt_at := Some now\<rparr> else x) s1);
                    view = view_of_check env now dev acc s2
                in (s2, Some \<lparr>ra_counted = (cr_result r = None \<or> cr_result r = Some Received),
                              ra_next_due_at = cv_next_due_at view, ra_notice_after = cv_notice_after view\<rparr>)))"

subsection \<open>What the rest of the server tells the check\<close>

text \<open>\<open>AlarmNotes\<close>: the newest accepted alarm of each device, in the order of the map's keys.
  \<open>fails\<close> says for which devices the write throws.\<close>

type_synonym alarm_notes = "(ident \<times> seconds) list"

definition add_note :: "ident \<Rightarrow> seconds \<Rightarrow> alarm_notes \<Rightarrow> alarm_notes" where
  "add_note dev at notes =
     (case map_of notes dev of None \<Rightarrow> AList.update dev at notes
      | Some known \<Rightarrow> if known < at then AList.update dev at notes else notes)"

definition write_alarm_note :: "ident \<Rightarrow> seconds \<Rightarrow> db \<Rightarrow> db" where
  "write_alarm_note dev at s =
     s\<lparr>devices := upd_where (\<lambda>d. d_id d = dev \<and> (case d_last_alarm_push_at d of None \<Rightarrow> True | Some t \<Rightarrow> t < at))
                   (\<lambda>d. d\<lparr>d_last_alarm_push_at := Some at\<rparr>) (devices s)\<rparr>"

definition flush_notes :: "(ident \<Rightarrow> bool) \<Rightarrow> alarm_notes \<Rightarrow> db \<Rightarrow> alarm_notes \<times> db" where
  "flush_notes fails notes s =
     (filter (\<lambda>(dev, at). fails dev) notes,
      fold (\<lambda>(dev, at) s. if fails dev then s else write_alarm_note dev at s) notes s)"

definition note_alarm_push :: "seconds \<Rightarrow> ident \<Rightarrow> delivery_event \<Rightarrow> int \<Rightarrow> bool \<Rightarrow> alarm_notes \<Rightarrow> alarm_notes" where
  "note_alarm_push now dev e status stale notes =
     (if e_kind e \<in> {EvOpen, EvRepeat, EvReopen} \<and> 200 \<le> status \<and> status < 300 \<and> \<not> stale
      then add_note dev now notes else notes)"

definition check_due_after_new_token :: "seconds \<Rightarrow> ident \<Rightarrow> db \<Rightarrow> db" where
  "check_due_after_new_token now dev s =
     upd_check dev (\<lambda>c. if dc_enabled c \<and> 0 < dc_misses c \<and> dc_round_id c = None
                        then c\<lparr>dc_next_due_at := now, dc_next_attempt_at := Some now\<rparr> else c) s"


subsection \<open>Lemmas on rows\<close>

lemma check_state_upd_check [table_simps]:
  "(\<And>c. dc_device_id (f c) = dc_device_id c) \<Longrightarrow>
   check_state (upd_check dev f s) dev' = (if dev' = dev then map_option f (check_state s dev') else check_state s dev')"
  by (auto simp: check_state_def upd_check_def keyed_update.find_upd keyed_update.find_upd_other keyed_update_def)

lemma round_of_upd_round [table_simps]:
  "(\<And>r. cr_id (f r) = cr_id r) \<Longrightarrow>
   round_of (upd_round rid f s) rid' = (if rid' = rid then map_option f (round_of s rid') else round_of s rid')"
  by (auto simp: round_of_def upd_round_def keyed_update.find_upd keyed_update.find_upd_other keyed_update_def)

lemma round_of_upd_check [frame_simps]: "round_of (upd_check dev f s) rid = round_of s rid"
  by (simp add: round_of_def upd_check_def)

lemma check_state_upd_round [frame_simps]: "check_state (upd_round rid f s) dev = check_state s dev"
  by (simp add: check_state_def upd_round_def)

lemma check_state_device: "check_state s dev = Some c \<Longrightarrow> dc_device_id c = dev"
  by (auto simp: check_state_def dest: find_SomeD)

lemma round_of_id: "round_of s rid = Some r \<Longrightarrow> cr_id r = rid"
  by (auto simp: round_of_def dest: find_SomeD)

lemma open_round_Some:
  "open_round s c = Some r \<longleftrightarrow> dc_round_id c = Some (cr_id r) \<and> round_of s (cr_id r) = Some r \<and> cr_result r = None"
  by (auto simp: open_round_def split: option.splits if_splits dest: round_of_id)

lemma check_tables [frame_simps]:
  "check_attempts (upd_check dev f s) = check_attempts s" "check_attempts (upd_round rid g s) = check_attempts s"
  "devices (upd_check dev f s) = devices s" "devices (upd_round rid g s) = devices s"
  "device_tokens (upd_check dev f s) = device_tokens s" "device_tokens (upd_round rid g s) = device_tokens s"
  "accounts (upd_check dev f s) = accounts s" "accounts (upd_round rid g s) = accounts s"
  "check_rounds (upd_check dev f s) = check_rounds s" "device_checks (upd_round rid g s) = device_checks s"
  by (simp_all add: upd_check_def upd_round_def)

lemma keys_upd_check [table_simps]:
  "(\<And>c. dc_device_id (f c) = dc_device_id c) \<Longrightarrow>
   map dc_device_id (device_checks (upd_check dev f s)) = map dc_device_id (device_checks s)"
  by (simp add: upd_check_def map_upd_where)

lemma keys_upd_round [table_simps]:
  "(\<And>r. cr_id (f r) = cr_id r) \<Longrightarrow> map cr_id (check_rounds (upd_round rid f s)) = map cr_id (check_rounds s)"
  by (simp add: upd_round_def map_upd_where)

lemma push_accepted_cong: "check_attempts s' = check_attempts s \<Longrightarrow> push_accepted s' rid = push_accepted s rid"
  by (simp add: push_accepted_def)

subsection \<open>The invariant of the check\<close>

text \<open>An enrolled device always has a next moment, at the latest the close time of its open round;
  a round without a result is the open round of its device, and a missed round had a push that a
  provider accepted.\<close>

definition check_row_ok :: "db \<Rightarrow> device_check_row \<Rightarrow> bool" where
  "check_row_ok s c \<longleftrightarrow>
     (dc_enabled c \<longleftrightarrow> dc_next_attempt_at c \<noteq> None) \<and>
     (case dc_round_id c of None \<Rightarrow> True
      | Some rid \<Rightarrow> dc_enabled c \<and>
          (\<exists>r t. round_of s rid = Some r \<and> cr_device_id r = dc_device_id c \<and> cr_result r = None \<and>
                 dc_next_attempt_at c = Some t \<and> t \<le> cr_closes_at r))"

definition round_row_ok :: "db \<Rightarrow> check_round_row \<Rightarrow> bool" where
  "round_row_ok s r \<longleftrightarrow>
     cr_closes_at r = cr_opened_at r + round_length_s \<and> cr_attempts r \<le> max_attempts \<and>
     (cr_result r = None \<longleftrightarrow> cr_closed_at r = None) \<and> (cr_result r = Some Skipped \<longleftrightarrow> cr_reason r \<noteq> None) \<and>
     (cr_result r = None \<longrightarrow> (\<exists>c. check_state s (cr_device_id r) = Some c \<and> dc_round_id c = Some (cr_id r))) \<and>
     (cr_result r = Some Missed \<longrightarrow> push_accepted s (cr_id r))"

definition attempt_row_ok :: "db \<Rightarrow> check_attempt_row \<Rightarrow> bool" where
  "attempt_row_ok s a \<longleftrightarrow> (\<exists>r. round_of s (ca_round_id a) = Some r \<and> 1 \<le> ca_attempt a \<and> ca_attempt a \<le> cr_attempts r)"

definition checks_ok :: "db \<Rightarrow> bool" where
  "checks_ok s \<longleftrightarrow>
     distinct (map dc_device_id (device_checks s)) \<and> distinct (map cr_id (check_rounds s)) \<and>
     distinct (map (\<lambda>a. (ca_round_id a, ca_attempt a)) (check_attempts s)) \<and>
     (\<forall>dev c. check_state s dev = Some c \<longrightarrow> check_row_ok s c) \<and>
     (\<forall>rid r. round_of s rid = Some r \<longrightarrow> round_row_ok s r) \<and>
     (\<forall>a \<in> set (check_attempts s). attempt_row_ok s a)"

lemma checks_okD:
  assumes "checks_ok s"
  shows "check_state s dev = Some c \<Longrightarrow> check_row_ok s c"
    and "round_of s rid = Some r \<Longrightarrow> round_row_ok s r"
    and "a \<in> set (check_attempts s) \<Longrightarrow> attempt_row_ok s a"
    and "distinct (map dc_device_id (device_checks s))" "distinct (map cr_id (check_rounds s))"
    and "distinct (map (\<lambda>a. (ca_round_id a, ca_attempt a)) (check_attempts s))"
  using assms unfolding checks_ok_def by blast+

lemma checks_ok_frame:
  "device_checks s' = device_checks s \<Longrightarrow> check_rounds s' = check_rounds s \<Longrightarrow> check_attempts s' = check_attempts s \<Longrightarrow>
   checks_ok s' = checks_ok s"
  by (simp add: checks_ok_def check_row_ok_def round_row_ok_def attempt_row_ok_def check_state_def round_of_def push_accepted_def
      cong: option.case_cong)

lemma close_round_frames [frame_simps]:
  "check_attempts (close_round r res reason t s) = check_attempts s"
  "devices (close_round r res reason t s) = devices s"
  "device_tokens (close_round r res reason t s) = device_tokens s"
  "accounts (close_round r res reason t s) = accounts s"
  by (simp_all add: close_round_def Let_def frame_simps split: option.split round_result.split)

lemma push_accepted_close [frame_simps]: "push_accepted (close_round r res reason t s) rid = push_accepted s rid"
  by (simp add: push_accepted_def frame_simps)

lemma round_of_close [table_simps]:
  "round_of (close_round r res reason t s) rid =
     (if rid = cr_id r
      then map_option (\<lambda>x. if cr_result x = None then x\<lparr>cr_result := Some res, cr_reason := reason, cr_closed_at := Some t\<rparr> else x)
             (round_of s rid)
      else round_of s rid)"
  by (auto simp: close_round_def Let_def frame_simps table_simps split: option.split round_result.split)

text \<open>What closing does to the row of its device.\<close>

definition after_close :: "round_result \<Rightarrow> seconds \<Rightarrow> ident \<Rightarrow> device_check_row \<Rightarrow> device_check_row" where
  "after_close res t rid c0 =
     (let c = (if dc_round_id c0 = Some rid
               then c0\<lparr>dc_round_id := None, dc_next_attempt_at := (if dc_enabled c0 then Some (dc_next_due_at c0) else None)\<rparr> else c0)
      in (case res of
            Received \<Rightarrow> c\<lparr>dc_misses := 0, dc_last_result := Some Received, dc_second_miss_at := None, dc_last_received_at := Some t\<rparr>
          | Skipped \<Rightarrow> c
          | _ \<Rightarrow> c\<lparr>dc_second_miss_at := (if dc_misses c = 1 then Some t else dc_second_miss_at c),
                   dc_misses := Suc (dc_misses c), dc_last_result := Some res\<rparr>))"

lemma check_state_close [table_simps]:
  "check_state (close_round r res reason t s) dev =
     (if dev = cr_device_id r \<and> (\<exists>x. round_of s (cr_id r) = Some x \<and> cr_result x = None)
      then map_option (after_close res t (cr_id r)) (check_state s dev) else check_state s dev)"
  by (auto simp: close_round_def Let_def frame_simps table_simps after_close_def option.map_comp comp_def
      split: option.split round_result.split cong: map_option_cong)

lemma after_close_simps [simp]:
  "dc_device_id (after_close res t rid c) = dc_device_id c"
  "dc_enabled (after_close res t rid c) = dc_enabled c"
  "dc_next_due_at (after_close res t rid c) = dc_next_due_at c"
  "dc_round_id (after_close res t rid c) = (if dc_round_id c = Some rid then None else dc_round_id c)"
  "dc_next_attempt_at (after_close res t rid c) =
     (if dc_round_id c = Some rid then (if dc_enabled c then Some (dc_next_due_at c) else None) else dc_next_attempt_at c)"
  by (simp_all add: after_close_def Let_def split: round_result.split)

lemma keys_close [table_simps]:
  "map dc_device_id (device_checks (close_round r res reason t s)) = map dc_device_id (device_checks s)"
  "map cr_id (check_rounds (close_round r res reason t s)) = map cr_id (check_rounds s)"
  by (simp_all add: close_round_def Let_def frame_simps table_simps split: option.split round_result.split)

lemma close_round_ok:
  assumes ok: "checks_ok s" and row: "round_of s (cr_id r) = Some x" and dev: "cr_device_id x = cr_device_id r"
    and missed: "res = Missed \<Longrightarrow> push_accepted s (cr_id r)" and reason: "res = Skipped \<longleftrightarrow> reason \<noteq> None"
  shows "checks_ok (close_round r res reason t s)"
proof (cases "cr_result x = None")
  case False
  with row show ?thesis using ok by (simp add: close_round_def)
next
  case True
  let ?s = "close_round r res reason t s"
  have "check_row_ok ?s c" if c: "check_state ?s d = Some c" for d c
  proof -
    obtain c0 where c0: "check_state s d = Some c0" and
      c_eq: "c = (if d = cr_device_id r then after_close res t (cr_id r) c0 else c0)"
      using c True row by (auto simp: table_simps split: if_splits)
    have "d \<noteq> cr_device_id r \<Longrightarrow> dc_round_id c0 \<noteq> Some (cr_id r)"
      using checks_okD(1)[OF ok c0] row dev check_state_device[OF c0] by (auto simp: check_row_ok_def)
    with checks_okD(1)[OF ok c0] show ?thesis
      by (auto simp: check_row_ok_def c_eq table_simps split: option.splits)
  qed
  moreover have "round_row_ok ?s y" if y: "round_of ?s rid = Some y" for rid y
  proof -
    obtain y0 where y0: "round_of s rid = Some y0" using y by (auto simp: table_simps split: if_splits)
    note ok0 = checks_okD(2)[OF ok y0]
    show ?thesis
    proof (cases "rid = cr_id r")
      case True
      with y y0 row \<open>cr_result x = None\<close> round_of_id[OF row]
      have "y = x\<lparr>cr_result := Some res, cr_reason := reason, cr_closed_at := Some t\<rparr>" "y0 = x" by (auto simp: table_simps)
      then show ?thesis
        using ok0 missed reason round_of_id[OF row] \<open>cr_result x = None\<close> by (auto simp: round_row_ok_def frame_simps)
    next
      case False
      then have "y = y0" using y y0 by (simp add: table_simps)
      then show ?thesis
        using ok0 False round_of_id[OF y0] True row by (auto simp: round_row_ok_def frame_simps table_simps)
    qed
  qed
  moreover have "attempt_row_ok ?s a" if "a \<in> set (check_attempts ?s)" for a
    using checks_okD(3)[OF ok, of a] that row True by (auto simp: attempt_row_ok_def table_simps frame_simps)
  ultimately show ?thesis
    using checks_okD(4-6)[OF ok] by (simp add: checks_ok_def table_simps frame_simps)
qed

lemma expire_ok:
  assumes "checks_ok s" "round_of s (cr_id r) = Some x" "cr_device_id x = cr_device_id r"
  shows "checks_ok (expire_round r s)"
  using assms by (auto simp: expire_round_def intro!: close_round_ok)


subsection \<open>Every operation keeps the invariant\<close>

lemma upd_check_ok:
  assumes ok: "checks_ok s" and key: "\<And>c. dc_device_id (f c) = dc_device_id c"
    and row: "\<And>c. check_state s dev = Some c \<Longrightarrow> check_row_ok s (f c) \<and> dc_round_id (f c) = dc_round_id c"
  shows "checks_ok (upd_check dev f s)"
proof -
  have "check_row_ok (upd_check dev f s) c" if "check_state (upd_check dev f s) d = Some c" for d c
    using that row checks_okD(1)[OF ok, of d]
    by (auto simp: table_simps key check_row_ok_def frame_simps split: if_splits option.splits)
  moreover have "round_row_ok (upd_check dev f s) r" if "round_of (upd_check dev f s) rid = Some r" for rid r
    using that row checks_okD(2)[OF ok, of rid]
    by (fastforce simp: table_simps key round_row_ok_def frame_simps push_accepted_def)
  ultimately show ?thesis
    using checks_okD(3-6)[OF ok] by (simp add: checks_ok_def table_simps key frame_simps attempt_row_ok_def)
qed

lemma upd_round_ok:
  assumes ok: "checks_ok s" and key: "\<And>r. cr_id (f r) = cr_id r"
    and same: "\<And>r. cr_device_id (f r) = cr_device_id r \<and> cr_opened_at (f r) = cr_opened_at r \<and> cr_closes_at (f r) = cr_closes_at r \<and>
        cr_closed_at (f r) = cr_closed_at r \<and> cr_result (f r) = cr_result r \<and> cr_reason (f r) = cr_reason r"
    and att: "\<And>r. round_of s rid = Some r \<Longrightarrow> cr_attempts r \<le> cr_attempts (f r) \<and> cr_attempts (f r) \<le> max_attempts"
  shows "checks_ok (upd_round rid f s)"
proof -
  let ?s = "upd_round rid f s"
  have "check_row_ok ?s c" if "check_state ?s d = Some c" for d c
    using checks_okD(1)[OF ok, of d c] that same
    by (auto simp: table_simps key check_row_ok_def frame_simps split: option.splits)
  moreover have "round_row_ok ?s r" if r: "round_of ?s rid' = Some r" for rid' r
  proof -
    obtain r0 where r0: "round_of s rid' = Some r0" and eq: "r = (if rid' = rid then f r0 else r0)"
      using r by (auto simp: table_simps key split: if_splits)
    show ?thesis
      using checks_okD(2)[OF ok r0] r0 att[of r0] same key
      by (auto simp: eq round_row_ok_def frame_simps push_accepted_def)
  qed
  moreover have "attempt_row_ok ?s a" if "a \<in> set (check_attempts ?s)" for a
    using checks_okD(3)[OF ok, of a] that att
    by (fastforce simp: attempt_row_ok_def table_simps key frame_simps)
  ultimately show ?thesis
    using checks_okD(4-6)[OF ok] by (simp add: checks_ok_def table_simps key frame_simps)
qed

lemma row_ok_cong:
  "round_of s' = round_of s \<Longrightarrow> check_row_ok s' c = check_row_ok s c"
  "check_state s' = check_state s \<Longrightarrow> push_accepted s' = push_accepted s \<Longrightarrow> round_row_ok s' r = round_row_ok s r"
  by (simp_all add: check_row_ok_def round_row_ok_def cong: option.case_cong)

lemma append_attempt_ok:
  assumes ok: "checks_ok s" and r: "round_of s rid = Some r" and n: "1 \<le> n" "n \<le> cr_attempts r"
    and new: "\<not> list_ex (\<lambda>a. ca_round_id a = rid \<and> ca_attempt a = n) (check_attempts s)"
  shows "checks_ok (s\<lparr>check_attempts := check_attempts s @
     [\<lparr>ca_round_id = rid, ca_attempt = n, ca_recorded_at = t, ca_outcome = None, ca_status = None\<rparr>]\<rparr>)"
    (is "checks_ok ?s")
proof -
  have st: "check_state ?s = check_state s" "round_of ?s = round_of s" "push_accepted ?s = push_accepted s"
    by (auto simp: check_state_def round_of_def push_accepted_def fun_eq_iff)
  have "distinct (map (\<lambda>a. (ca_round_id a, ca_attempt a)) (check_attempts ?s))"
    using checks_okD(6)[OF ok] new by (auto simp: list_ex_iff)
  then show ?thesis
    using checks_okD(1-5)[OF ok] r n
    by (auto simp: checks_ok_def row_ok_cong(1)[OF st(2)] row_ok_cong(2)[OF st(1,3)] st attempt_row_ok_def)
qed

lemma outcome_ok:
  assumes ok: "checks_ok s" and mine: "\<And>a. P a \<Longrightarrow> ca_outcome a = None"
  shows "checks_ok (s\<lparr>check_attempts := upd_where P (\<lambda>a. a\<lparr>ca_outcome := oc, ca_status := st\<rparr>) (check_attempts s)\<rparr>)"
    (is "checks_ok ?s")
proof -
  have st: "check_state ?s = check_state s" "round_of ?s = round_of s"
    by (auto simp: check_state_def round_of_def fun_eq_iff)
  have acc: "push_accepted s rid \<Longrightarrow> push_accepted ?s rid" for rid
    using mine by (auto simp: push_accepted_def list_ex_iff table_simps)
  show ?thesis
    using checks_okD[OF ok] acc
    by (auto simp: checks_ok_def row_ok_cong(1)[OF st(2)] round_row_ok_def attempt_row_ok_def st table_simps map_upd_where)
qed

lemma new_round_simps [simp]:
  "cr_id (new_round env now rid dev) = rid" "cr_device_id (new_round env now rid dev) = dev"
  "cr_result (new_round env now rid dev) = None" "cr_closed_at (new_round env now rid dev) = None"
  "cr_opened_at (new_round env now rid dev) = now" "cr_closes_at (new_round env now rid dev) = now + round_length_s"
  "cr_attempts (new_round env now rid dev) = 0" "cr_reason (new_round env now rid dev) = None"
  by (simp_all add: new_round_def)

lemma round_of_append:
  "round_of (s\<lparr>check_rounds := check_rounds s @ [r]\<rparr>) rid =
     (case round_of s rid of Some x \<Rightarrow> Some x | None \<Rightarrow> if cr_id r = rid then Some r else None)"
  by (simp add: round_of_def find_append split: option.split)

lemma round_of_None: "round_of s rid = None \<longleftrightarrow> rid \<notin> cr_id ` set (check_rounds s)"
  by (auto simp: round_of_def find_None_iff)

lemma append_round_ok:
  assumes ok: "checks_ok s" and new: "round_of s (cr_id r) = None" and r: "round_row_ok s r"
  shows "checks_ok (s\<lparr>check_rounds := check_rounds s @ [r]\<rparr>)" (is "checks_ok ?s")
proof -
  have st: "check_state ?s = check_state s" "push_accepted ?s = push_accepted s"
    by (auto simp: check_state_def push_accepted_def fun_eq_iff)
  have keep: "round_of s rid = Some x \<Longrightarrow> round_of ?s rid = Some x" for rid x
    by (simp add: round_of_append)
  have d: "distinct (map cr_id (check_rounds ?s))"
    using checks_okD(5)[OF ok] new by (auto simp: round_of_None)
  have "check_row_ok ?s c" if "check_state ?s dev = Some c" for dev c
    using checks_okD(1)[OF ok, of dev c] that by (auto simp: check_row_ok_def st split: option.splits dest: keep)
  moreover have "round_row_ok ?s x" if "round_of ?s rid = Some x" for rid x
    using checks_okD(2)[OF ok, of rid x] that r
    by (auto simp: round_row_ok_def st round_of_append split: option.splits if_splits)
  moreover have "attempt_row_ok ?s a" if "a \<in> set (check_attempts ?s)" for a
    using checks_okD(3)[OF ok, of a] that by (auto simp: attempt_row_ok_def dest: keep)
  ultimately show ?thesis
    using checks_okD(4,6)[OF ok] d by (simp add: checks_ok_def)
qed

lemma open_round_ok:
  assumes ok: "checks_ok s" and new: "round_of s rid = None" and c: "check_state s dev = Some c" "dc_round_id c = None"
    and due: "dc_enabled c" "dc_next_attempt_at c = Some t" "t \<le> now"
  shows "checks_ok (open_new_round env now rid dev s)" (is "checks_ok ?s")
proof -
  let ?r = "new_round env now rid dev"
  have rounds: "round_of ?s x = (case round_of s x of Some y \<Rightarrow> Some y | None \<Rightarrow> if rid = x then Some ?r else None)" for x
    by (simp add: open_new_round_def frame_simps round_of_append)
  have states: "check_state ?s d = (if d = dev then map_option (\<lambda>c. c\<lparr>dc_round_id := Some rid, dc_next_due_at := round_after env dev now\<rparr>)
      (check_state s d) else check_state s d)" for d
    by (simp add: open_new_round_def table_simps) (simp add: check_state_def)
  have acc: "push_accepted ?s x = push_accepted s x" for x
    by (simp add: open_new_round_def push_accepted_def frame_simps)
  have "check_row_ok ?s x" if x: "check_state ?s d = Some x" for d x
  proof (cases "d = dev")
    case True
    then have "x = c\<lparr>dc_round_id := Some rid, dc_next_due_at := round_after env dev now\<rparr>"
      using x c by (simp add: states)
    then show ?thesis
      using due new by (simp add: check_row_ok_def rounds check_state_device[OF c(1)] round_length_s_def day_s_def)
  next
    case False
    with x have "check_state s d = Some x" by (simp add: states)
    from checks_okD(1)[OF ok this] show ?thesis by (auto simp: check_row_ok_def rounds split: option.splits)
  qed
  moreover have "round_row_ok ?s x" if x: "round_of ?s y = Some x" for x y
  proof (cases "round_of s y")
    case None
    with x c new show ?thesis
      by (auto simp: rounds round_row_ok_def states max_attempts_def split: if_splits)
  next
    case (Some z)
    with x have "z = x" by (simp add: rounds)
    moreover have "cr_result x = None \<Longrightarrow> cr_device_id x \<noteq> dev"
      using checks_okD(2)[OF ok Some] c \<open>z = x\<close> by (auto simp: round_row_ok_def)
    ultimately show ?thesis
      using checks_okD(2)[OF ok Some] by (auto simp: round_row_ok_def states acc)
  qed
  moreover have "attempt_row_ok ?s a" if "a \<in> set (check_attempts s)" for a
    using checks_okD(3)[OF ok, of a] that by (auto simp: attempt_row_ok_def rounds)
  moreover have "map dc_device_id (device_checks ?s) = map dc_device_id (device_checks s)"
    "check_rounds ?s = check_rounds s @ [?r]" "check_attempts ?s = check_attempts s"
    by (simp_all add: open_new_round_def upd_check_def map_upd_where)
  ultimately show ?thesis
    using checks_okD(4-6)[OF ok] new by (simp add: checks_ok_def round_of_None)
qed


lemma close_open_ok:
  assumes "checks_ok s" "open_round s c = Some r" "res = Missed \<Longrightarrow> push_accepted s (cr_id r)" "res = Skipped \<longleftrightarrow> reason \<noteq> None"
  shows "checks_ok (close_round r res reason t s)"
  using assms by (auto simp: open_round_Some intro!: close_round_ok)

lemma expire_open_ok: "checks_ok s \<Longrightarrow> open_round s c = Some r \<Longrightarrow> checks_ok (expire_round r s)"
  by (auto simp: open_round_Some intro!: expire_ok)

lemma settle_ok: "checks_ok s \<Longrightarrow> checks_ok (settle_check now dev s)"
  by (auto simp: settle_check_def expire_open_ok split: option.split)

lemma enable_ok:
  assumes ok: "checks_ok s"
  shows "checks_ok (enable_check now dev s)"
proof (cases "check_state s dev")
  case None
  let ?s = "enable_check now dev s"
  obtain c where s': "device_checks ?s = device_checks s @ [c]" "check_rounds ?s = check_rounds s" "check_attempts ?s = check_attempts s"
    and c: "dc_device_id c = dev" "dc_enabled c" "dc_next_attempt_at c = Some now" "dc_round_id c = None"
    using None by (simp add: enable_check_def)
  have st: "check_state ?s d = (case check_state s d of Some x \<Rightarrow> Some x | None \<Rightarrow> if dev = d then Some c else None)" for d
    using c(1) by (simp add: check_state_def s'(1) find_append split: option.split)
  have eq: "round_of ?s = round_of s" "push_accepted ?s = push_accepted s"
    by (auto simp: round_of_def push_accepted_def s' fun_eq_iff)
  have "check_row_ok s x" if "check_state ?s d = Some x" for d x
    using that checks_okD(1)[OF ok, of d x] c(2-4)
    by (auto simp: st check_row_ok_def split: option.splits if_splits)
  then have "check_row_ok ?s x" if "check_state ?s d = Some x" for d x
    using that by (simp add: row_ok_cong(1)[OF eq(1)])
  moreover have "round_row_ok ?s r" if "round_of s rid = Some r" for rid r
    using checks_okD(2)[OF ok that] by (auto simp: round_row_ok_def st eq)
  moreover have "dev \<notin> set (map dc_device_id (device_checks s))"
    using None by (auto simp: check_state_def find_None_iff)
  ultimately show ?thesis
    using checks_okD(3-6)[OF ok] c(1) by (simp add: checks_ok_def s' eq attempt_row_ok_def)
next
  case (Some c)
  show ?thesis
  proof (cases "dc_enabled c")
    case True
    with Some ok show ?thesis by (simp add: enable_check_def)
  next
    case False
    have "checks_ok (upd_check dev (\<lambda>c. c\<lparr>dc_enabled := True, dc_next_attempt_at := Some (dc_next_due_at c)\<rparr>) s)"
      by (rule upd_check_ok[OF ok])
        (use checks_okD(1)[OF ok Some] False Some in \<open>auto simp: check_row_ok_def split: option.splits\<close>)
    with Some False show ?thesis by (simp add: enable_check_def)
  qed
qed

text \<open>Switching off and ending the round commute, so the invariant need not be looked at in between.\<close>

lemma upd_check_comp:
  "(\<And>c. dc_device_id (g c) = dc_device_id c) \<Longrightarrow> upd_check dev f (upd_check dev g s) = upd_check dev (\<lambda>c. f (g c)) s"
  by (simp add: upd_check_def upd_where_def)

lemma upd_check_cong: "(\<And>c. f c = g c) \<Longrightarrow> upd_check dev f s = upd_check dev g s"
  by (simp add: upd_check_def upd_where_def)

lemma upd_check_round: "upd_check dev f (upd_round rid g s) = upd_round rid g (upd_check dev f s)"
  by (simp add: upd_check_def upd_round_def)

definition switch_off :: "ident \<Rightarrow> db \<Rightarrow> db" where
  "switch_off dev s = upd_check dev (\<lambda>c. c\<lparr>dc_enabled := False, dc_next_attempt_at := None\<rparr>) s"

lemma close_switch_off:
  assumes "cr_device_id r = dev"
  shows "close_round r res reason t (switch_off dev s) = switch_off dev (close_round r res reason t s)"
  using assms
  by (auto simp: close_round_def Let_def switch_off_def upd_check_comp upd_check_round frame_simps
      intro!: upd_check_cong arg_cong[where f = "upd_round (cr_id r) g" for g]
      split: option.split round_result.split)

lemma expire_switch_off:
  "cr_device_id r = dev \<Longrightarrow> expire_round r (switch_off dev s) = switch_off dev (expire_round r s)"
  by (simp add: expire_round_def close_switch_off)
    (simp add: switch_off_def push_accepted_def held_to_the_end_def check_device_of_def device_of_def alarm_token_row_def
      frame_simps cong: option.case_cong)

lemma switch_off_ok:
  assumes "checks_ok s" "\<And>c. check_state s dev = Some c \<Longrightarrow> dc_round_id c = None"
  shows "checks_ok (switch_off dev s)"
  unfolding switch_off_def by (rule upd_check_ok[OF assms(1)]) (use assms(2) in \<open>auto simp: check_row_ok_def\<close>)

lemma closed_no_round:
  assumes "open_round s c = Some r" "check_state s (cr_device_id r) = Some c"
  shows "check_state (close_round r res reason t s) (cr_device_id r) = Some c' \<Longrightarrow> dc_round_id c' = None"
    and "check_state (expire_round r s) (cr_device_id r) = Some c' \<Longrightarrow> dc_round_id c' = None"
  using assms by (auto simp: open_round_Some table_simps expire_round_def split: if_splits)

lemma disable_ok:
  assumes ok: "checks_ok s"
  shows "checks_ok (disable_check now dev s)"
proof (cases "check_state s dev")
  case None
  with ok show ?thesis by (simp add: disable_check_def)
next
  case (Some c)
  have open_same: "open_round (switch_off dev s) c = open_round s c"
    by (simp add: open_round_def switch_off_def frame_simps cong: option.case_cong)
  show ?thesis
  proof (cases "open_round s c")
    case None
    then have "dc_round_id c = None"
      using checks_okD(1)[OF ok Some] by (auto simp: check_row_ok_def open_round_def split: option.splits)
    with None Some ok show ?thesis
      using open_same switch_off_ok[OF ok, of dev] by (auto simp: disable_check_def Let_def switch_off_def)
  next
    case r: (Some r)
    have dev: "cr_device_id r = dev"
      using checks_okD(1)[OF ok Some] r check_state_device[OF Some]
      by (auto simp: open_round_Some check_row_ok_def)
    have "checks_ok (switch_off dev (expire_round r s))" "checks_ok (switch_off dev (close_round r Skipped (Some Disabled) now s))"
      using closed_no_round[OF r] Some dev
      by (auto intro!: switch_off_ok expire_open_ok[OF ok r] close_open_ok[OF ok r])
    then show ?thesis
      using ok Some r open_same dev
      by (auto simp: disable_check_def Let_def close_switch_off expire_switch_off simp flip: switch_off_def)
  qed
qed

lemma receive_state_ok:
  assumes ok: "checks_ok s" and r: "round_of s (cr_id r) = Some r"
  shows "checks_ok (note_receipt now r attempt received_at (close_round r Received None now s))"
proof -
  have "checks_ok (close_round r Received None now s)"
    by (rule close_round_ok[OF ok r]) auto
  from upd_round_ok[OF this] checks_okD(2)[OF this] show ?thesis
    by (simp add: note_receipt_def round_row_ok_def)
qed

lemma counter_add_checks_ok [simp]: "checks_ok (counter_add now key m n s) = checks_ok s"
  by (rule checks_ok_frame) (simp_all add: counter_add_def)

lemma round_of_unique:
  "distinct (map cr_id (check_rounds s)) \<Longrightarrow> r \<in> set (check_rounds s) \<Longrightarrow> round_of s (cr_id r) = Some r"
  unfolding round_of_def by (rule find_key)

lemma receive_ok:
  assumes ok: "checks_ok s"
  shows "checks_ok (fst (receive_check env now dev acc chk attempt received_at s))"
proof (cases "List.find (\<lambda>r. cr_device_id r = dev \<and> cr_nonce_hash r = ce_sha env chk) (check_rounds s)")
  case None
  with ok show ?thesis by (simp add: receive_check_def)
next
  case (Some r0)
  then have r0: "round_of s (cr_id r0) = Some r0"
    using round_of_unique[OF checks_okD(5)[OF ok]] by (auto dest: find_SomeD)
  have late: "checks_ok (upd_round rid (\<lambda>x. if cr_late_receipt_at x = None then x\<lparr>cr_late_receipt_at := Some now\<rparr> else x) s')"
    if "checks_ok s'" for s' rid
    by (rule upd_round_ok[OF that]) (use checks_okD(2)[OF that] in \<open>auto simp: round_row_ok_def\<close>)
  show ?thesis
  proof (cases "cr_result r0 = None \<and> cr_closes_at r0 \<le> now")
    case True
    have ex: "checks_ok (expire_round r0 s)" by (rule expire_ok[OF ok r0]) simp
    have "\<exists>r. round_of (expire_round r0 s) (cr_id r0) = Some r \<and> cr_result r \<noteq> None"
      using True r0 by (simp add: expire_round_def table_simps)
    then obtain r where r: "round_of (expire_round r0 s) (cr_id r0) = Some r" "cr_result r \<noteq> None" by blast
    show ?thesis
      using ok True Some r ex late[OF ex] by (auto simp: receive_check_def Let_def split: option.split round_result.split)
  next
    case False
    then show ?thesis
      using Some ok late[OF ok] receive_state_ok[OF ok r0]
      by (auto simp: receive_check_def Let_def split: option.split round_result.split)
  qed
qed


lemma set_next_ok:
  assumes ok: "checks_ok s" and en: "\<And>c. check_state s dev = Some c \<Longrightarrow> dc_enabled c"
    and t: "\<And>c r. check_state s dev = Some c \<Longrightarrow> open_round s c = Some r \<Longrightarrow> t \<le> cr_closes_at r"
  shows "checks_ok (set_next_attempt dev t s)"
  unfolding set_next_attempt_def
proof (rule upd_check_ok[OF ok])
  fix c assume c: "check_state s dev = Some c"
  show "check_row_ok s (c\<lparr>dc_next_attempt_at := Some t\<rparr>) \<and> dc_round_id (c\<lparr>dc_next_attempt_at := Some t\<rparr>) = dc_round_id c"
    using checks_okD(1)[OF ok c] en[OF c] t[OF c]
    by (auto simp: check_row_ok_def open_round_Some split: option.splits dest: round_of_id)
qed simp

lemma upd_round_check_state [frame_simps]: "check_state (upd_round rid f s) = check_state s"
  by (simp add: fun_eq_iff frame_simps)

lemma plan_attempt_fresh:
  assumes "checks_ok s" "round_of s (cr_id r) = Some r"
  shows "\<not> list_ex (\<lambda>a. ca_round_id a = cr_id r \<and> ca_attempt a = Suc (cr_attempts r)) (check_attempts s)"
  using checks_okD(3)[OF assms(1)] assms(2) by (fastforce simp: list_ex_iff attempt_row_ok_def)

lemma next_push_at_le: "next_push_at now n r \<le> cr_closes_at r"
  by (simp add: next_push_at_def split: option.split)

lemma plan_push_ok:
  assumes ok: "checks_ok s" and c: "check_state s dev = Some c" "dc_enabled c" and r: "open_round s c = Some r"
  shows "checks_ok (fst (plan_push env now dev d r s)) \<and> snd (plan_push env now dev d r s) \<noteq> PlanFailed"
proof -
  have row: "round_of s (cr_id r) = Some r" using r by (simp add: open_round_Some)
  note rok = checks_okD(2)[OF ok row]
  have next_ok: "checks_ok (set_next_attempt dev t s')" if "checks_ok s'" "check_state s' = check_state s" "t \<le> cr_closes_at r"
      "\<And>c' r'. open_round s' c = Some r' \<Longrightarrow> cr_closes_at r' = cr_closes_at r" for t s'
    by (rule set_next_ok[OF that(1)]) (use that c in auto)
  have same: "open_round s c = Some r' \<Longrightarrow> cr_closes_at r' = cr_closes_at r" for r' using r by simp
  show ?thesis
  proof (cases "alarm_hold_until now d")
    case (Some until)
    have "checks_ok (set_next_attempt dev (min until (cr_closes_at r)) s)"
      by (rule next_ok[OF ok]) (use same in auto)
    then have "checks_ok (upd_round (cr_id r) (\<lambda>x. x\<lparr>cr_held_until := Some until\<rparr>) (set_next_attempt dev (min until (cr_closes_at r)) s))"
      by (rule upd_round_ok) (use rok row in \<open>auto simp: set_next_attempt_def frame_simps round_row_ok_def\<close>)
    with Some show ?thesis by (simp add: plan_push_def)
  next
    case None
    show ?thesis
    proof (cases "max_attempts < Suc (cr_attempts r)")
      case True
      have "checks_ok (set_next_attempt dev (cr_closes_at r) s)"
        by (rule next_ok[OF ok]) (use same in auto)
      with True None show ?thesis by (simp add: plan_push_def Let_def)
    next
      case False
      let ?u = "upd_round (cr_id r) (\<lambda>x. x\<lparr>cr_attempts := Suc (cr_attempts r)\<rparr>) s"
      let ?a = "\<lparr>ca_round_id = cr_id r, ca_attempt = Suc (cr_attempts r), ca_recorded_at = now, ca_outcome = None, ca_status = None\<rparr>"
      have u: "checks_ok ?u"
        by (rule upd_round_ok[OF ok]) (use rok row False in \<open>auto simp: round_row_ok_def\<close>)
      have "checks_ok (?u\<lparr>check_attempts := check_attempts ?u @ [?a]\<rparr>)"
        by (rule append_attempt_ok[OF u, where r = "r\<lparr>cr_attempts := Suc (cr_attempts r)\<rparr>"])
          (use row plan_attempt_fresh[OF ok row] in \<open>auto simp: table_simps frame_simps\<close>)
      moreover have "?u\<lparr>check_attempts := check_attempts ?u @ [?a]\<rparr> =
          upd_round (cr_id r) (\<lambda>x. x\<lparr>cr_attempts := Suc (cr_attempts r)\<rparr>) (s\<lparr>check_attempts := check_attempts s @ [?a]\<rparr>)"
        by (simp add: upd_round_def)
      ultimately have w: "checks_ok (upd_round (cr_id r) (\<lambda>x. x\<lparr>cr_attempts := Suc (cr_attempts r)\<rparr>)
          (s\<lparr>check_attempts := check_attempts s @ [?a]\<rparr>))" (is "checks_ok ?w") by simp
      have w_open: "cr_closes_at r' = cr_closes_at r" if "open_round ?w c = Some r'" for r'
        using that r by (auto simp: open_round_def table_simps split: option.splits if_splits) (auto simp: round_of_def)
      have "check_state ?w = check_state s" by (auto simp: fun_eq_iff check_state_def upd_round_def)
      then have "checks_ok (set_next_attempt dev (next_push_at now (Suc (cr_attempts r)) r) ?w)"
        by (rule next_ok[OF w _ next_push_at_le w_open])
      with None False plan_attempt_fresh[OF ok row] show ?thesis by (simp add: plan_push_def Let_def)
    qed
  qed
qed

lemma skip_round_ok:
  assumes ok: "checks_ok s" and c: "check_state s dev = Some c" "dc_enabled c" and new: "round_of s rid = None"
  shows "checks_ok (skip_round env now rid dev (open_round s c) reason s)"
proof (cases "open_round s c")
  case (Some r)
  then show ?thesis by (auto simp: skip_round_def intro: close_open_ok[OF ok])
next
  case None
  let ?r = "(new_round env now rid dev)\<lparr>cr_closed_at := Some now, cr_result := Some Skipped, cr_reason := Some reason\<rparr>"
  have app: "checks_ok (s\<lparr>check_rounds := check_rounds s @ [?r]\<rparr>)" (is "checks_ok ?s")
    by (rule append_round_ok[OF ok]) (use new in \<open>simp_all add: round_row_ok_def max_attempts_def\<close>)
  have "dc_round_id c = None"
    using checks_okD(1)[OF ok c(1)] None by (auto simp: check_row_ok_def open_round_def split: option.splits)
  moreover have "check_state ?s dev = Some c" using c by (simp add: check_state_def)
  ultimately show ?thesis
    using c None unfolding skip_round_def
    by (auto intro!: upd_check_ok[OF app] simp: check_row_ok_def)
qed

lemma plan_ok:
  assumes ok: "checks_ok s" and new: "round_of s rid = None"
  shows "checks_ok (fst (plan_check env now rid dev s)) \<and> snd (plan_check env now rid dev s) \<noteq> PlanFailed"
proof (cases "check_state s dev")
  case None
  with ok show ?thesis by (simp add: plan_check_def)
next
  case (Some c)
  show ?thesis
  proof (cases "dc_enabled c \<and> (\<exists>t. dc_next_attempt_at c = Some t \<and> t \<le> now)")
    case False
    with Some ok show ?thesis by (auto simp: plan_check_def split: option.split)
  next
    case True
    then obtain t where t: "dc_enabled c" "dc_next_attempt_at c = Some t" "t \<le> now" by auto
    note skip = skip_round_ok[OF ok Some t(1) new, of env now]
    show ?thesis
    proof (cases "open_round s c")
      case r: (Some r)
      show ?thesis
        using Some t r ok skip plan_push_ok[OF ok Some t(1) r] expire_open_ok[OF ok r]
        by (auto simp: plan_check_def Let_def split: option.split)
    next
      case None
      then have no: "dc_round_id c = None"
        using checks_okD(1)[OF ok Some] by (auto simp: check_row_ok_def open_round_def split: option.splits)
      let ?s = "open_new_round env now rid dev s"
      have op: "checks_ok ?s" by (rule open_round_ok[OF ok new Some no t])
      have st: "check_state ?s dev = Some (c\<lparr>dc_round_id := Some rid, dc_next_due_at := round_after env dev now\<rparr>)"
        using Some by (simp add: open_new_round_def table_simps) (simp add: check_state_def)
      have opn: "open_round ?s (c\<lparr>dc_round_id := Some rid, dc_next_due_at := round_after env dev now\<rparr>) = Some (new_round env now rid dev)"
        using new by (simp add: open_round_Some open_new_round_def frame_simps round_of_append)
      have pp: "plan_push env now dev d (new_round env now rid dev) ?s = (a, b) \<Longrightarrow> checks_ok a \<and> b \<noteq> PlanFailed" for d a b
        using plan_push_ok[OF op st _ opn, of env now d] t(1) by simp
      show ?thesis
        using Some t None ok skip pp
        by (auto simp: plan_check_def Let_def split: option.split prod.split plan_result.split)
    qed
  qed
qed

lemma confirm_ok:
  assumes ok: "checks_ok s"
  shows "checks_ok (fst (confirm_check now p s))"
proof -
  have "checks_ok (close_round r Skipped (Some reason) now s)" "checks_ok (expire_round r s)"
    if "round_of s (pl_round_id p) = Some r" for r reason
    using that ok round_of_id[OF that] by (auto intro!: close_round_ok expire_ok)
  with ok show ?thesis by (auto simp: confirm_check_def split: option.split)
qed

lemma check_row_ok_last_sent [simp]: "check_row_ok s (c\<lparr>dc_last_sent_at := x\<rparr>) = check_row_ok s c"
  by (simp add: check_row_ok_def cong: option.case_cong)

lemma record_ok:
  assumes ok: "checks_ok s"
  shows "checks_ok (record_answer now rid attempt outcome status s)"
proof -
  let ?P = "\<lambda>a. ca_round_id a = rid \<and> ca_attempt a = attempt \<and> ca_outcome a = None"
  let ?s = "s\<lparr>check_attempts := upd_where ?P (\<lambda>a. a\<lparr>ca_outcome := Some outcome, ca_status := Some status\<rparr>) (check_attempts s)\<rparr>"
  have s1: "checks_ok ?s" by (rule outcome_ok[OF ok]) simp
  have "checks_ok (upd_check dev (\<lambda>c. c\<lparr>dc_last_sent_at := Some now\<rparr>) ?s)" for dev
    by (rule upd_check_ok[OF s1]) (use checks_okD(1)[OF s1] in auto)
  moreover have "checks_ok (close_round r Refused None now ?s)" if "round_of ?s rid = Some r" for r
    using close_round_ok[OF s1, where r = r and x = r and res = Refused and reason = None] that round_of_id[OF that] by simp
  ultimately show ?thesis
    using ok s1 by (auto simp: record_answer_def Let_def split: option.split attempt_outcome.split)
qed

lemma new_token_ok: "checks_ok s \<Longrightarrow> checks_ok (check_due_after_new_token now dev s)"
  unfolding check_due_after_new_token_def
  by (rule upd_check_ok) (auto dest: checks_okD(1) simp: check_row_ok_def split: option.splits)


subsection \<open>Sending a planned check\<close>

text \<open>\<open>src/src/push/check.ts\<close>. What a provider answers is a parameter: \<^term>\<open>None\<close> when the request
  failed or did not answer in time, otherwise the status with the reason Apple names, or for FCM
  whether the body names the token as unregistered. \<open>ask\<close> is the question \<open>stillWanted\<close> at its time.\<close>

type_synonym check_answer = "attempt_outcome \<times> int"
type_synonym check_sender = "planned_check \<Rightarrow> db \<Rightarrow> db \<times> check_answer"

definition bad_device_token :: "int \<times> string \<Rightarrow> bool" where
  "bad_device_token reply \<longleftrightarrow> fst reply = 400 \<and> snd reply = ''BadDeviceToken''"

definition apns_check_answer :: "int \<times> string \<Rightarrow> check_answer" where
  "apns_check_answer reply =
     (if 200 \<le> fst reply \<and> fst reply < 300 then (AttemptAccepted, fst reply)
      else if fst reply = 410 \<or> bad_device_token reply then (AttemptRefused, fst reply)
      else (AttemptFailed, fst reply))"

definition other_environment :: "apns_environment \<Rightarrow> apns_environment" where
  "other_environment e = (if e = Sandbox then Production else Sandbox)"

definition send_apns_check ::
  "(apns_environment \<Rightarrow> (int \<times> string) option) \<Rightarrow> apns_environment \<Rightarrow> seconds \<Rightarrow> seconds \<Rightarrow> check_sender" where
  "send_apns_check host default_environment t1 t2 p s =
     (let environment = (case pl_apns_environment p of None \<Rightarrow> default_environment | Some e \<Rightarrow> e)
      in case confirm_check t1 p s of (s1, wanted) \<Rightarrow>
           if \<not> wanted then (s1, AttemptCancelled, 0)
           else (case host environment of
                   None \<Rightarrow> (s1, AttemptFailed, 0)
                 | Some reply \<Rightarrow>
                     if \<not> bad_device_token reply then (s1, apns_check_answer reply)
                     else (case confirm_check t2 p s1 of (s2, wanted2) \<Rightarrow>
                             if \<not> wanted2 then (s2, AttemptCancelled, 0)
                             else (case host (other_environment environment) of
                                     None \<Rightarrow> (s2, AttemptFailed, 0)
                                   | Some reply2 \<Rightarrow> (s2, apns_check_answer reply2)))))"

definition send_fcm_check :: "bool \<Rightarrow> (int \<times> bool) option \<Rightarrow> seconds \<Rightarrow> check_sender" where
  "send_fcm_check has_token post t p s =
     (if \<not> has_token then (s, AttemptFailed, 0)
      else (case confirm_check t p s of (s1, wanted) \<Rightarrow>
              if \<not> wanted then (s1, AttemptCancelled, 0)
              else (case post of
                      None \<Rightarrow> (s1, AttemptFailed, 0)
                    | Some (status, unregistered) \<Rightarrow>
                        if 200 \<le> status \<and> status < 300 then (s1, AttemptAccepted, status)
                        else (s1, if unregistered then AttemptRefused else AttemptFailed, status))))"

subsection \<open>One pass of the scan\<close>

record check_senders =
  sn_ios :: "check_sender option"
  sn_android :: "check_sender option"

definition send_check :: "check_senders \<Rightarrow> check_sender" where
  "send_check senders p s =
     (case (if uses_apns (pl_platform p) then sn_ios senders else sn_android senders) of
        None \<Rightarrow> (s, AttemptFailed, 501)
      | Some send \<Rightarrow> send p s)"

text \<open>What varies during a pass: for the \<open>k\<close>th device the clock when it is planned and when its answer
  is recorded, the id a new round would get, the senders as they answer then, and whether the time
  budget is used up. \<open>fails\<close> is as in \<^const>\<open>flush_notes\<close>.\<close>

record scan_world =
  sw_env :: check_env
  sw_plan_at :: "nat \<Rightarrow> seconds"
  sw_record_at :: "nat \<Rightarrow> seconds"
  sw_round_id :: "nat \<Rightarrow> ident"
  sw_senders :: "nat \<Rightarrow> check_senders"
  sw_out_of_time :: "nat \<Rightarrow> bool"
  sw_fails :: "ident \<Rightarrow> bool"

fun scan_devices :: "scan_world \<Rightarrow> nat \<Rightarrow> ident list \<Rightarrow> alarm_notes \<Rightarrow> db \<Rightarrow> nat \<times> alarm_notes \<times> db" where
  "scan_devices w k [] notes s = (0, notes, s)"
| "scan_devices w k (dev # devs) notes s =
     (if sw_out_of_time w k then (0, notes, s)
      else (case flush_notes (sw_fails w) notes s of (notes1, s1) \<Rightarrow>
             (case plan_check (sw_env w) (sw_plan_at w k) (sw_round_id w k) dev s1 of
                (s2, ToSend p) \<Rightarrow>
                  (case send_check (sw_senders w k) p s2 of (s3, outcome, status) \<Rightarrow>
                     (case scan_devices w (Suc k) devs notes1
                             (record_answer (sw_record_at w k) (pl_round_id p) (pl_attempt p) outcome status s3) of
                        (n, rest) \<Rightarrow> (Suc n, rest)))
              | (s2, _) \<Rightarrow> scan_devices w (Suc k) devs notes1 s2)))"

text \<open>A pass that finds another one still sending does nothing.\<close>

definition scan_checks :: "scan_world \<Rightarrow> seconds \<Rightarrow> nat \<Rightarrow> bool \<Rightarrow> alarm_notes \<Rightarrow> db \<Rightarrow> nat \<times> alarm_notes \<times> db" where
  "scan_checks w now batch running notes s =
     (if running then (0, notes, s)
      else (case flush_notes (sw_fails w) notes s of (notes1, s1) \<Rightarrow> scan_devices w 0 (due_checks now batch s1) notes1 s1))"

subsection \<open>A closed round stays as it is\<close>

definition round_kept :: "check_round_row \<Rightarrow> check_round_row \<Rightarrow> bool" where
  "round_kept r r' \<longleftrightarrow>
     cr_id r' = cr_id r \<and> cr_device_id r' = cr_device_id r \<and> cr_nonce_hash r' = cr_nonce_hash r \<and>
     cr_opened_at r' = cr_opened_at r \<and> cr_closes_at r' = cr_closes_at r \<and>
     (if cr_result r = None then cr_attempts r \<le> cr_attempts r'
      else cr_attempts r' = cr_attempts r \<and> cr_result r' = cr_result r \<and> cr_reason r' = cr_reason r \<and> cr_closed_at r' = cr_closed_at r)"

definition rounds_kept :: "db \<Rightarrow> db \<Rightarrow> bool" where
  "rounds_kept s s' \<longleftrightarrow> (\<forall>rid r. round_of s rid = Some r \<longrightarrow> (\<exists>r'. round_of s' rid = Some r' \<and> round_kept r r'))"

lemma round_kept_refl [simp]: "round_kept r r"
  by (simp add: round_kept_def)

lemma rounds_kept_same [intro]: "round_of s' = round_of s \<Longrightarrow> rounds_kept s s'"
  by (auto simp: rounds_kept_def)

lemma rounds_kept_refl [simp]: "rounds_kept s s"
  by auto

lemma rounds_kept_trans [trans]: "rounds_kept s s' \<Longrightarrow> rounds_kept s' s'' \<Longrightarrow> rounds_kept s s''"
  unfolding rounds_kept_def round_kept_def by (fastforce split: if_splits)

lemma kept_close: "rounds_kept s (close_round r res reason t s)"
  by (auto simp: rounds_kept_def table_simps round_kept_def)

lemma kept_expire: "rounds_kept s (expire_round r s)"
  by (simp add: expire_round_def kept_close)

lemma kept_upd_check: "rounds_kept s (upd_check dev f s)"
  by (rule rounds_kept_same) (simp add: fun_eq_iff frame_simps)

lemma kept_upd_round:
  assumes "\<And>r. round_kept r (f r)"
  shows "rounds_kept s (upd_round rid f s)"
proof -
  have "cr_id (f r) = cr_id r" for r using assms[of r] by (simp add: round_kept_def)
  then show ?thesis using assms by (auto simp: rounds_kept_def table_simps)
qed

lemma kept_upd_round_open:
  assumes "round_of s rid = Some r" "round_kept r (f r)" "\<And>r. cr_id (f r) = cr_id r"
  shows "rounds_kept s (upd_round rid f s)"
  using assms by (auto simp: rounds_kept_def table_simps)

lemma kept_append: "rounds_kept s (s\<lparr>check_rounds := check_rounds s @ [r]\<rparr>)"
  by (auto simp: rounds_kept_def round_of_append)

lemma kept_settle: "rounds_kept s (settle_check now dev s)"
  by (auto simp: settle_check_def kept_expire split: option.split)

lemma kept_enable: "rounds_kept s (enable_check now dev s)"
  by (auto simp: enable_check_def kept_upd_check round_of_def fun_eq_iff split: option.split)

lemma kept_disable: "rounds_kept s (disable_check now dev s)"
  by (auto simp: disable_check_def Let_def split: option.split
      intro: kept_upd_check rounds_kept_trans[OF kept_upd_check kept_close] rounds_kept_trans[OF kept_upd_check kept_expire])

lemma kept_skip: "rounds_kept s (skip_round env now rid dev r reason s)"
  by (auto simp: skip_round_def kept_close split: option.split intro: rounds_kept_trans[OF kept_append kept_upd_check])

lemma kept_open: "rounds_kept s (open_new_round env now rid dev s)"
  unfolding open_new_round_def by (rule rounds_kept_trans[OF kept_append kept_upd_check])

lemma kept_plan_push:
  assumes r: "round_of s (cr_id r) = Some r" "cr_result r = None"
  shows "rounds_kept s (fst (plan_push env now dev d r s))"
proof -
  have hold: "rounds_kept s (upd_round rid (\<lambda>x. x\<lparr>cr_held_until := u\<rparr>) (set_next_attempt dev t s))" for rid u t
    unfolding set_next_attempt_def
    by (rule rounds_kept_trans[OF kept_upd_check kept_upd_round]) (simp add: round_kept_def)
  have push: "rounds_kept s (set_next_attempt dev t
      (upd_round (cr_id r) (\<lambda>x. x\<lparr>cr_attempts := Suc (cr_attempts r)\<rparr>) (s\<lparr>check_attempts := atts\<rparr>)))" for t atts
  proof -
    have s1: "round_of (s\<lparr>check_attempts := atts\<rparr>) = round_of s" by (auto simp: round_of_def fun_eq_iff)
    have "rounds_kept s (s\<lparr>check_attempts := atts\<rparr>)" using s1 by (rule rounds_kept_same)
    also have "rounds_kept (s\<lparr>check_attempts := atts\<rparr>)
        (upd_round (cr_id r) (\<lambda>x. x\<lparr>cr_attempts := Suc (cr_attempts r)\<rparr>) (s\<lparr>check_attempts := atts\<rparr>))"
      by (rule kept_upd_round_open[where r = r]) (use r s1 in \<open>auto simp: round_kept_def\<close>)
    finally show ?thesis unfolding set_next_attempt_def by (rule rounds_kept_trans[OF _ kept_upd_check])
  qed
  show ?thesis
    using hold push by (auto simp: plan_push_def Let_def set_next_attempt_def kept_upd_check split: option.split)
qed

lemma kept_plan:
  assumes new: "round_of s rid = None"
  shows "rounds_kept s (fst (plan_check env now rid dev s))"
proof -
  let ?s = "open_new_round env now rid dev s"
  have "round_of ?s rid = Some (new_round env now rid dev)"
    using new by (simp add: open_new_round_def frame_simps round_of_append)
  then have "rounds_kept ?s (fst (plan_push env now dev d (new_round env now rid dev) ?s))" for d
    by (intro kept_plan_push) simp_all
  then have fresh: "plan_push env now dev d (new_round env now rid dev) ?s = (a, b) \<Longrightarrow> rounds_kept s a" for d a b
    using rounds_kept_trans[OF kept_open] by (metis fst_conv)
  have "open_round s c = Some r \<Longrightarrow> rounds_kept s (fst (plan_push env now dev d r s))" for c d r
    by (rule kept_plan_push) (auto simp: open_round_Some)
  with fresh show ?thesis
    by (auto simp: plan_check_def Let_def kept_expire kept_skip split: option.split prod.split plan_result.split)
qed

lemma kept_confirm: "rounds_kept s (fst (confirm_check now p s))"
  by (auto simp: confirm_check_def kept_close kept_expire split: option.split)

lemma kept_frame: "check_rounds s' = check_rounds s \<Longrightarrow> rounds_kept s s'"
  by (rule rounds_kept_same) (simp add: round_of_def fun_eq_iff)

lemma kept_counter: "rounds_kept s s' \<Longrightarrow> rounds_kept s (counter_add now key m n s')"
  by (erule rounds_kept_trans) (rule kept_frame, simp add: counter_add_def)

lemma kept_record: "rounds_kept s (record_answer now rid attempt outcome status s)"
proof -
  let ?P = "\<lambda>a. ca_round_id a = rid \<and> ca_attempt a = attempt \<and> ca_outcome a = None"
  have a: "rounds_kept s (s\<lparr>check_attempts := atts\<rparr>)" for atts by (rule kept_frame) simp
  show ?thesis
    by (auto simp: record_answer_def Let_def a split: option.split attempt_outcome.split
        intro!: kept_counter rounds_kept_trans[OF a kept_upd_check] rounds_kept_trans[OF a kept_close])
qed

lemma kept_receive: "rounds_kept s (fst (receive_check env now dev acc chk attempt received_at s))"
proof -
  have noted: "rounds_kept s (note_receipt now r attempt received_at (close_round r Received None now s))" for r s
    unfolding note_receipt_def by (rule rounds_kept_trans[OF kept_close kept_upd_round]) (simp add: round_kept_def)
  have late: "rounds_kept s (upd_round rid (\<lambda>x. if cr_late_receipt_at x = None then x\<lparr>cr_late_receipt_at := Some now\<rparr> else x) s)" for rid s
    by (rule kept_upd_round) (simp add: round_kept_def)
  show ?thesis
    by (auto simp: receive_check_def Let_def kept_expire noted late split: option.split round_result.split
        intro!: kept_counter intro: rounds_kept_trans[OF kept_expire noted] rounds_kept_trans[OF kept_expire late])
qed

lemma kept_new_token: "rounds_kept s (check_due_after_new_token now dev s)"
  by (simp add: check_due_after_new_token_def kept_upd_check)


subsection \<open>The check as a state machine\<close>

text \<open>The calls the routes, the scan and the senders make, at any times and in any order, and the
  changes the rest of the server makes to tables the check only reads. Round ids are minted new.\<close>

inductive check_op :: "db \<Rightarrow> db \<Rightarrow> bool" where
  Enrol: "check_op s (enable_check now dev s)"
| Switch_off: "check_op s (disable_check now dev s)"
| View: "check_op s (fst (view_check env now dev acc s))"
| Rounds: "check_op s (fst (list_rounds now dev limit s))"
| Receipt: "check_op s (fst (receive_check env now dev acc chk attempt received_at s))"
| Plan: "round_of s rid = None \<Longrightarrow> check_op s (fst (plan_check env now rid dev s))"
| Confirm: "check_op s (fst (confirm_check now p s))"
| Record: "check_op s (record_answer now rid attempt outcome status s)"
| New_token: "check_op s (check_due_after_new_token now dev s)"
| Elsewhere: "device_checks s' = device_checks s \<Longrightarrow> check_rounds s' = check_rounds s \<Longrightarrow> check_attempts s' = check_attempts s \<Longrightarrow>
    check_op s s'"

inductive check_step :: "db \<Rightarrow> db \<Rightarrow> bool" where
  Op: "check_op s s' \<Longrightarrow> check_step s s'"
| Release: "check_step s (delete_devices P s)"

inductive_cases check_stepE: "check_step s s'"

definition no_checks :: "db \<Rightarrow> bool" where
  "no_checks s \<longleftrightarrow> device_checks s = [] \<and> check_rounds s = [] \<and> check_attempts s = []"

lemma no_checks_ok: "no_checks s \<Longrightarrow> checks_ok s"
  by (simp add: no_checks_def checks_ok_def check_state_def round_of_def)

lemma check_op_ok: "check_op s s' \<Longrightarrow> checks_ok s \<Longrightarrow> checks_ok s'"
  by (erule check_op.cases)
    (auto simp: view_check_def list_rounds_def Let_def
      intro: enable_ok disable_ok settle_ok receive_ok plan_ok[THEN conjunct1] confirm_ok record_ok new_token_ok
        checks_ok_frame[THEN iffD2])

lemma check_op_kept: "check_op s s' \<Longrightarrow> rounds_kept s s'"
  by (induction rule: check_op.induct)
    (auto simp: view_check_def list_rounds_def Let_def kept_enable kept_disable kept_settle kept_receive kept_plan kept_confirm
      kept_record kept_new_token kept_frame)

lemma find_del_where_key:
  "List.find (\<lambda>r. key r = k) (del_where P rows) =
     (case List.find (\<lambda>r. key r = k) rows of None \<Rightarrow> None | Some r \<Rightarrow> if P r then None else Some r)"
  if "distinct (map key rows)"
  using that
proof (induction rows)
  case (Cons r rows)
  have none: "key r = k \<Longrightarrow> List.find (\<lambda>r. key r = k) (filter (\<lambda>r. \<not> P r) rows) = None"
    using Cons.prems by (auto simp: find_None_iff image_iff)
  with Cons show ?case by (auto simp: del_where_def)
qed simp

lemma release_ok:
  assumes ok: "checks_ok s"
  shows "checks_ok (delete_devices P s)"
proof -
  let ?s = "delete_devices P s"
  define gone where "gone dev = list_ex (\<lambda>d. P d \<and> d_id d = dev) (devices s)" for dev
  define gone_round where "gone_round rid = list_ex (\<lambda>r. gone (cr_device_id r) \<and> cr_id r = rid) (check_rounds s)" for rid
  have tables: "device_checks ?s = del_where (\<lambda>c. gone (dc_device_id c)) (device_checks s)"
    "check_rounds ?s = del_where (\<lambda>r. gone (cr_device_id r)) (check_rounds s)"
    "check_attempts ?s = del_where (\<lambda>a. gone_round (ca_round_id a)) (check_attempts s)"
    by (simp_all add: delete_devices_def Let_def gone_def gone_round_def)
  have st: "check_state ?s dev = (case check_state s dev of None \<Rightarrow> None | Some c \<Rightarrow> if gone dev then None else Some c)" for dev
  proof -
    have "check_state ?s dev = (case check_state s dev of None \<Rightarrow> None | Some c \<Rightarrow> if gone (dc_device_id c) then None else Some c)"
      unfolding check_state_def tables by (rule find_del_where_key[OF checks_okD(4)[OF ok]])
    then show ?thesis by (cases "check_state s dev") (simp_all add: check_state_device)
  qed
  have rd: "round_of ?s rid = (case round_of s rid of None \<Rightarrow> None | Some r \<Rightarrow> if gone (cr_device_id r) then None else Some r)" for rid
    using checks_okD(5)[OF ok] by (simp add: round_of_def tables find_del_where_key)
  have gr: "gone_round rid \<longleftrightarrow> gone (cr_device_id r)" if r: "round_of s rid = Some r" for rid r
  proof -
    have "r' \<in> set (check_rounds s) \<Longrightarrow> cr_id r' = rid \<Longrightarrow> r' = r" for r'
      using round_of_unique[OF checks_okD(5)[OF ok], of r'] r by simp
    moreover have "r \<in> set (check_rounds s)" "cr_id r = rid"
      using r by (auto simp: round_of_def dest: find_SomeD)
    ultimately show ?thesis unfolding gone_round_def list_ex_iff by blast
  qed
  have acc: "push_accepted ?s rid" if "push_accepted s rid" "round_of s rid = Some r" "\<not> gone (cr_device_id r)" for rid r
    using that(1,3) gr[OF that(2)] by (auto simp: push_accepted_def tables del_where_def list_ex_iff)
  have "check_row_ok ?s c" if c: "check_state ?s dev = Some c" for dev c
  proof -
    from c have "check_state s dev = Some c" "\<not> gone (dc_device_id c)"
      using check_state_device by (auto simp: st split: option.splits if_splits)
    with checks_okD(1)[OF ok this(1)] show ?thesis by (auto simp: rd check_row_ok_def split: option.splits)
  qed
  moreover have "round_row_ok ?s r" if r: "round_of ?s rid = Some r" for rid r
  proof -
    from r have r0: "round_of s rid = Some r" and live: "\<not> gone (cr_device_id r)" by (auto simp: rd split: option.splits if_splits)
    show ?thesis
      using checks_okD(2)[OF ok r0] live acc[OF _ r0] round_of_id[OF r0] by (auto simp: round_row_ok_def st)
  qed
  moreover have "attempt_row_ok ?s a" if a: "a \<in> set (check_attempts ?s)" for a
  proof -
    from a have "a \<in> set (check_attempts s)" "\<not> gone_round (ca_round_id a)" by (auto simp: tables table_simps)
    with checks_okD(3)[OF ok this(1)] gr show ?thesis by (auto simp: attempt_row_ok_def rd)
  qed
  ultimately show ?thesis
    using checks_okD(4-6)[OF ok] by (simp add: checks_ok_def tables distinct_map_del_where)
qed

lemma check_step_ok: "check_step s s' \<Longrightarrow> checks_ok s \<Longrightarrow> checks_ok s'"
  by (erule check_stepE) (auto intro: check_op_ok release_ok)

interpretation checks: invariant_system no_checks check_step checks_ok
  by unfold_locales (auto intro: no_checks_ok check_step_ok)

interpretation check_ops: invariant_system checks_ok check_op checks_ok
  by unfold_locales (auto intro: check_op_ok)

lemma check_ops_kept: "check_op\<^sup>*\<^sup>* s s' \<Longrightarrow> rounds_kept s s'"
  by (induction rule: rtranclp_induct) (auto intro: rounds_kept_trans check_op_kept)


subsection \<open>Properties of the schedule\<close>

lemma js_rem_mod: "0 < m \<Longrightarrow> js_rem (js_rem x m + m) m = x mod m"
proof -
  assume m: "0 < m"
  have "0 \<le> js_rem x m + m"
    using m less_imp_le[OF pos_mod_bound[OF m, of "- x"]] pos_mod_sign[OF m, of x] by (auto simp: js_rem_def)
  then have "js_rem (js_rem x m + m) m = (js_rem x m + m) mod m" by (simp add: js_rem_def)
  also have "\<dots> = x mod m" by (simp add: js_rem_def mod_minus_eq)
  finally show ?thesis .
qed

lemma slot_at_or_after_eq:
  "slot_at_or_after slot t = t + (first_monday_s + slot - t) mod week_s"
proof -
  define x where "x = t - first_monday_s - slot"
  have "first_monday_s + slot - t = - x" by (simp add: x_def)
  then show ?thesis
    by (simp add: slot_at_or_after_def Let_def js_rem_mod zmod_zminus1_eq_if week_s_def day_s_def flip: x_def)
qed

lemma slot_at_or_after_bounds: "t \<le> slot_at_or_after slot t" "slot_at_or_after slot t < t + week_s"
  by (simp_all add: slot_at_or_after_eq week_s_def day_s_def)

lemma slot_at_or_after_slot: "(slot_at_or_after slot t - first_monday_s) mod week_s = slot mod week_s"
proof -
  have "(slot_at_or_after slot t - first_monday_s) mod week_s = ((t - first_monday_s) + (first_monday_s + slot - t) mod week_s) mod week_s"
    by (simp add: slot_at_or_after_eq algebra_simps)
  also have "\<dots> = ((t - first_monday_s) + (first_monday_s + slot - t)) mod week_s" by (rule mod_add_right_eq)
  finally show ?thesis by simp
qed

text \<open>The schedule: \<open>slotAtOrAfter\<close> is the first second from a time on that falls on the slot of
  the week, counted from Monday 00:00 UTC, and the round after one that opened is due three to ten
  days later, exactly a week later when that one opened on its slot.\<close>

theorem check_schedule:
  "t \<le> slot_at_or_after slot t \<and> slot_at_or_after slot t < t + week_s \<and>
   (slot_at_or_after slot t - first_monday_s) mod week_s = slot mod week_s \<and>
   opened + 3 * day_s \<le> round_after env dev opened \<and> round_after env dev opened < opened + 10 * day_s \<and>
   round_after env dev (slot_at_or_after (slot_for env dev) t) = slot_at_or_after (slot_for env dev) t + week_s"
proof -
  let ?u = "slot_at_or_after (slot_for env dev) t"
  have "(?u - first_monday_s) mod week_s = slot_for env dev mod week_s"
    by (rule slot_at_or_after_slot)
  then have "week_s dvd ?u - first_monday_s - slot_for env dev" by (simp add: mod_eq_dvd_iff)
  then obtain k where k: "?u - first_monday_s - slot_for env dev = week_s * k" by (auto elim: dvdE)
  then have "first_monday_s + slot_for env dev - (?u + min_round_gap_s) = week_s * (- k) - min_round_gap_s" by simp
  then have "(first_monday_s + slot_for env dev - (?u + min_round_gap_s)) mod week_s = (week_s * (- k) - min_round_gap_s) mod week_s"
    by (rule arg_cong)
  also have "\<dots> = (- min_round_gap_s + week_s * (- k)) mod week_s" by (rule arg_cong) simp
  also have "\<dots> = (- min_round_gap_s) mod week_s" by (rule mod_mult_self2)
  also have "\<dots> = week_s - min_round_gap_s" by (simp add: week_s_def day_s_def min_round_gap_s_def)
  finally have "round_after env dev ?u = ?u + week_s"
    by (simp add: round_after_def slot_at_or_after_eq[of _ "?u + min_round_gap_s"])
  then show ?thesis
    using slot_at_or_after_bounds[where t = t and slot = slot] slot_at_or_after_slot[of slot t]
      slot_at_or_after_bounds[where t = "opened + min_round_gap_s" and slot = "slot_for env dev"]
    by (simp add: round_after_def min_round_gap_s_def week_s_def)
qed

subsection \<open>Properties of the rounds\<close>

definition demo_check_env :: check_env where
  "demo_check_env = \<lparr>ce_sha = (\<lambda>x. ''0001f'' @ x), ce_hmac = (\<lambda>_. replicate 64 (CHR ''a''))\<rparr>"

definition demo_check_db :: db where
  "demo_check_db = empty_db\<lparr>
     accounts := [\<lparr>a_id = ''acc'', a_tier = Hosted, a_created_at = 0, a_join_token_hash = None, a_merged_into = None\<rparr>],
     devices := [\<lparr>d_id = ''dev'', d_account_id = ''acc'', d_token_hash = ''h'', d_platform = Macos, d_push_token = ''tok'', d_last_seen = 0,
        d_app_version = None, d_apns_environment = Some Production, d_last_alarm_push_at = Some 100\<rparr>]\<rparr>"

definition demo_enrolled :: db where
  "demo_enrolled = enable_check 1000 ''dev'' demo_check_db"

definition demo_held :: "db \<times> plan_result" where
  "demo_held = plan_check demo_check_env 1500 ''r1'' ''dev'' demo_enrolled"

definition demo_planned :: "db \<times> plan_result" where
  "demo_planned = plan_check demo_check_env 2000 ''r2'' ''dev'' (fst demo_held)"

lemma demo_no_checks: "no_checks demo_check_db"
  by (simp add: no_checks_def demo_check_db_def empty_db_def)

lemma demo_planned_reached: "check_step\<^sup>*\<^sup>* demo_check_db demo_enrolled" "check_op\<^sup>*\<^sup>* demo_enrolled (fst demo_planned)"
proof -
  show "check_step\<^sup>*\<^sup>* demo_check_db demo_enrolled"
    unfolding demo_enrolled_def by (intro r_into_rtranclp check_step.Op check_op.Enrol)
  have "round_of demo_enrolled ''r1'' = None" "round_of (fst demo_held) ''r2'' = None"
    unfolding demo_held_def by code_simp+
  then have "check_op demo_enrolled (fst demo_held)" "check_op (fst demo_held) (fst demo_planned)"
    unfolding demo_planned_def by (auto simp: demo_held_def intro: check_op.Plan)
  then show "check_op\<^sup>*\<^sup>* demo_enrolled (fst demo_planned)" by auto
qed

text \<open>C32: Whatever the routes, the scan and the senders do, in any order and at any times, the tables
  of the check stay consistent, and no round is left hanging: the device of a round without a result
  is enrolled, names that round, and is due in the scan at the latest when the round closes.\<close>

theorem check_machine_ok:
  assumes "no_checks s0" "check_step\<^sup>*\<^sup>* s0 s"
  shows "checks_ok s \<and>
    (\<forall>r \<in> set (check_rounds s). cr_result r = None \<longrightarrow>
       (\<exists>c t. check_state s (cr_device_id r) = Some c \<and> dc_enabled c \<and> dc_round_id c = Some (cr_id r) \<and>
              dc_next_attempt_at c = Some t \<and> t \<le> cr_closes_at r))"
proof -
  have ok: "checks_ok s" by (rule checks.inv_reachable[OF assms])
  have "\<exists>c t. check_state s (cr_device_id r) = Some c \<and> dc_enabled c \<and> dc_round_id c = Some (cr_id r) \<and>
      dc_next_attempt_at c = Some t \<and> t \<le> cr_closes_at r" if r: "r \<in> set (check_rounds s)" "cr_result r = None" for r
  proof -
    have row: "round_of s (cr_id r) = Some r" by (rule round_of_unique[OF checks_okD(5)[OF ok] r(1)])
    then obtain c where c: "check_state s (cr_device_id r) = Some c" "dc_round_id c = Some (cr_id r)"
      using checks_okD(2)[OF ok row] r by (auto simp: round_row_ok_def)
    show ?thesis using checks_okD(1)[OF ok c(1)] c row by (auto simp: check_row_ok_def)
  qed
  with ok show ?thesis by blast
qed

theorem check_machine_ok_witness:
  "checks_ok (fst demo_planned) \<and>
   check_state (fst demo_planned) ''dev'' \<noteq> None \<and> map cr_attempts (check_rounds (fst demo_planned)) = [1]"
proof -
  have op: "check_op s s' \<Longrightarrow> check_step s s'" for s s' by (rule check_step.Op)
  have "check_step\<^sup>*\<^sup>* demo_enrolled (fst demo_planned)"
    using demo_planned_reached(2) by (rule rtranclp_mono[THEN predicate2D, rotated]) (auto intro: op)
  then have "check_step\<^sup>*\<^sup>* demo_check_db (fst demo_planned)" using demo_planned_reached(1) by simp
  from check_machine_ok[OF demo_no_checks this] have "checks_ok (fst demo_planned)" by simp
  moreover have "check_state (fst demo_planned) ''dev'' \<noteq> None \<and> map cr_attempts (check_rounds (fst demo_planned)) = [1]"
    unfolding demo_planned_def demo_held_def by code_simp
  ultimately show ?thesis by blast
qed

text \<open>C33: The result of a round is written once. From any state that the server reaches, later calls
  keep every round with its device, its opening and its close time a day later; once it has a
  result, nothing changes its result, reason, close and attempts, and it is missed only when a
  provider accepted one of its pushes.\<close>

theorem round_result_is_final:
  assumes "no_checks s0" "check_step\<^sup>*\<^sup>* s0 s" "check_op\<^sup>*\<^sup>* s s'" "round_of s rid = Some r"
  shows "\<exists>r'. round_of s' rid = Some r' \<and> round_kept r r' \<and> cr_closes_at r' = cr_opened_at r + 86400 \<and>
    cr_attempts r' \<le> 3 \<and> (cr_result r' = Some Missed \<longrightarrow> push_accepted s' rid)"
proof -
  have "checks_ok s'" using checks.inv_reachable[OF assms(1,2)] assms(3) check_ops.inv_steps by blast
  moreover obtain r' where r': "round_of s' rid = Some r'" "round_kept r r'"
    using check_ops_kept[OF assms(3)] assms(4) by (auto simp: rounds_kept_def)
  ultimately have "round_row_ok s' r'" by (auto dest: checks_okD(2))
  with r' show ?thesis
    by (auto simp: round_row_ok_def round_kept_def round_length_s_def day_s_def max_attempts_def attempt_offsets_s_def
        dest: round_of_id)
qed


theorem round_result_is_final_witness:
  "round_kept (the (round_of (fst demo_planned) ''r1''))
     (the (round_of (fst (receive_check demo_check_env 3000 ''dev'' ''acc'' (check_id_for demo_check_env ''r1'') (Some 1) None
        (fst demo_planned))) ''r1''))"
proof -
  have op: "check_op s s' \<Longrightarrow> check_step s s'" for s s' by (rule check_step.Op)
  have "check_step\<^sup>*\<^sup>* demo_enrolled (fst demo_planned)"
    using demo_planned_reached(2) by (rule rtranclp_mono[THEN predicate2D, rotated]) (auto intro: op)
  then have reach: "check_step\<^sup>*\<^sup>* demo_check_db (fst demo_planned)" using demo_planned_reached(1) by simp
  have "round_of (fst demo_planned) ''r1'' \<noteq> None" unfolding demo_planned_def demo_held_def by code_simp
  then obtain r where r: "round_of (fst demo_planned) ''r1'' = Some r" by auto
  have "check_op\<^sup>*\<^sup>* (fst demo_planned) (fst (receive_check demo_check_env 3000 ''dev'' ''acc''
      (check_id_for demo_check_env ''r1'') (Some 1) None (fst demo_planned)))"
    by (rule r_into_rtranclp, rule check_op.Receipt)
  from round_result_is_final[OF demo_no_checks reach this r] show ?thesis by (auto simp: r)
qed

lemma check_device_of_upd [frame_simps]:
  "check_device_of (upd_check dev f s) = check_device_of s" "check_device_of (upd_round rid g s) = check_device_of s"
  by (simp_all add: fun_eq_iff check_device_of_def device_of_def alarm_token_row_def frame_simps cong: option.case_cong)

lemma next_push_at_later: "now < cr_closes_at r \<Longrightarrow> now < next_push_at now n r"
  by (auto simp: next_push_at_def split: option.split if_splits dest!: find_SomeD)

lemma plan_push_send:
  assumes "plan_push env now dev d r s = (s', ToSend p)" "round_of s (cr_id r) = Some r" "check_state s dev = Some c"
    "cr_result r = None" "now < cr_closes_at r"
  shows "alarm_hold_until now d = None \<and> pl_push_token p = cd_push_token d \<and> pl_round_id p = cr_id r \<and>
    pl_attempt p = Suc (cr_attempts r) \<and> pl_attempt p \<le> max_attempts \<and> pl_check_id p = check_id_for env (cr_id r) \<and>
    round_of s' (cr_id r) = Some (r\<lparr>cr_attempts := Suc (cr_attempts r)\<rparr>) \<and>
    \<not> list_ex (\<lambda>a. ca_round_id a = pl_round_id p \<and> ca_attempt a = pl_attempt p) (check_attempts s) \<and>
    check_attempts s' = check_attempts s @
      [\<lparr>ca_round_id = pl_round_id p, ca_attempt = pl_attempt p, ca_recorded_at = now, ca_outcome = None, ca_status = None\<rparr>] \<and>
    (\<exists>t. check_state s' dev = Some (c\<lparr>dc_next_attempt_at := Some t\<rparr>) \<and> now < t \<and> t \<le> cr_closes_at r)"
proof -
  have none: "alarm_hold_until now d = None" and n: "\<not> max_attempts < Suc (cr_attempts r)"
    and new: "\<not> list_ex (\<lambda>a. ca_round_id a = cr_id r \<and> ca_attempt a = Suc (cr_attempts r)) (check_attempts s)"
    using assms(1) by (auto simp: plan_push_def Let_def split: option.splits if_splits)
  have st: "check_state (s\<lparr>check_attempts := x\<rparr>) = check_state s" "round_of (s\<lparr>check_attempts := x\<rparr>) = round_of s" for x
    by (auto simp: check_state_def round_of_def fun_eq_iff)
  show ?thesis
    using assms none n new next_push_at_later[OF assms(5)] next_push_at_le
    by (auto simp: plan_push_def Let_def set_next_attempt_def table_simps frame_simps st)
qed

text \<open>C34: A push the scan plans is one it may send: the device is enrolled and due, its account is
  hosted, it has an alarm token and that is the one the push goes to, no alarm reached it within the
  last 30 minutes, its round is open and before its close, the attempt is at most the third, it is
  on record and was not before, and the next one is strictly later and not after the close.\<close>

theorem planned_push_is_allowed:
  assumes "checks_ok s" "round_of s rid = None" "plan_check env now rid dev s = (s', ToSend p)"
  shows "\<exists>c d r t. check_state s dev = Some c \<and> dc_enabled c \<and> check_device_of s dev = Some d \<and>
    gets_checks s (cd_account_id d) \<and> pl_push_token p = cd_push_token d \<and> cd_push_token d \<noteq> [] \<and>
    (case cd_last_alarm_push_at d of None \<Rightarrow> True | Some a \<Rightarrow> a + 1800 \<le> now) \<and>
    round_of s' (pl_round_id p) = Some r \<and> cr_device_id r = dev \<and> cr_result r = None \<and> now < cr_closes_at r \<and>
    cr_attempts r = pl_attempt p \<and> pl_attempt p \<le> 3 \<and>
    \<not> list_ex (\<lambda>a. ca_round_id a = pl_round_id p \<and> ca_attempt a = pl_attempt p) (check_attempts s) \<and>
    list_ex (\<lambda>a. ca_round_id a = pl_round_id p \<and> ca_attempt a = pl_attempt p \<and> ca_outcome a = None) (check_attempts s') \<and>
    map_option dc_next_attempt_at (check_state s' dev) = Some (Some t) \<and> now < t \<and> t \<le> cr_closes_at r"
proof -
  obtain c d where c: "check_state s dev = Some c" "dc_enabled c" and d: "check_device_of s dev = Some d"
    and g: "gets_checks s (cd_account_id d)" "cd_push_token d \<noteq> []"
    and late0: "case open_round s c of None \<Rightarrow> True | Some r \<Rightarrow> now < cr_closes_at r"
    and p: "(case open_round s c of Some r \<Rightarrow> plan_push env now dev d r s
      | None \<Rightarrow> plan_push env now dev d (new_round env now rid dev) (open_new_round env now rid dev s)) = (s', ToSend p)"
    using assms(3)
    by (auto simp: plan_check_def Let_def split: option.splits if_splits prod.splits plan_result.splits)
  from late0 have late: "open_round s c = Some r \<Longrightarrow> now < cr_closes_at r" for r by simp
  have hold: "alarm_hold_until now d = None \<Longrightarrow> case cd_last_alarm_push_at d of None \<Rightarrow> True | Some a \<Rightarrow> a + 1800 \<le> now"
    by (auto simp: alarm_hold_until_def alarm_hold_s_def split: option.splits if_splits)
  have three: "n \<le> max_attempts \<Longrightarrow> n \<le> 3" "Suc n \<le> max_attempts \<Longrightarrow> n \<le> 2" for n by (simp_all add: max_attempts_def attempt_offsets_s_def)
  show ?thesis
  proof (cases "open_round s c")
    case (Some r)
    have row: "round_of s (cr_id r) = Some r" "cr_result r = None" using Some by (auto simp: open_round_Some)
    have dev: "cr_device_id r = dev"
      using checks_okD(1)[OF assms(1) c(1)] Some check_state_device[OF c(1)] by (auto simp: open_round_Some check_row_ok_def)
    from p Some have "plan_push env now dev d r s = (s', ToSend p)" by simp
    from plan_push_send[OF this row(1) c(1) row(2) late[OF Some]] show ?thesis
      using c d g hold three row dev late[OF Some] by auto
  next
    case None
    let ?s = "open_new_round env now rid dev s"
    have row: "round_of ?s (cr_id (new_round env now rid dev)) = Some (new_round env now rid dev)"
      using assms(2) by (simp add: open_new_round_def frame_simps round_of_append)
    have st: "check_state ?s dev = Some (c\<lparr>dc_round_id := Some rid, dc_next_due_at := round_after env dev now\<rparr>)"
      using c by (simp add: open_new_round_def table_simps) (simp add: check_state_def)
    have atts: "check_attempts ?s = check_attempts s" by (simp add: open_new_round_def frame_simps)
    from p None have "plan_push env now dev d (new_round env now rid dev) ?s = (s', ToSend p)" by simp
    from plan_push_send[OF this row st] show ?thesis
      using c d g hold three by (auto simp: atts round_length_s_def day_s_def)
  qed
qed

theorem planned_push_is_allowed_witness:
  "\<exists>p. snd demo_planned = ToSend p \<and> snd demo_held = NothingToSend \<and> pl_attempt p \<le> 3 \<and> pl_push_token p = ''tok''"
proof -
  have "snd demo_planned = ToSend \<lparr>pl_round_id = ''r1'', pl_attempt = 1, pl_check_id = ''chk_aaaaaaaaaaaaaaaaaaaaaaaaaaaaaaaa'',
      pl_platform = Macos, pl_push_token = ''tok'', pl_apns_environment = Some Production\<rparr>" (is "_ = ToSend ?p")
    and "snd demo_held = NothingToSend" "round_of (fst demo_held) ''r2'' = None"
    unfolding demo_planned_def demo_held_def by code_simp+
  note facts = this
  have "checks_ok demo_enrolled" unfolding demo_enrolled_def by (rule enable_ok[OF no_checks_ok[OF demo_no_checks]])
  moreover have "round_of demo_enrolled ''r1'' = None" by code_simp
  ultimately have "checks_ok (fst demo_held)" unfolding demo_held_def by (rule plan_ok[THEN conjunct1])
  moreover have "plan_check demo_check_env 2000 ''r2'' ''dev'' (fst demo_held) = (fst demo_planned, ToSend ?p)"
    using facts(1) by (simp add: demo_planned_def prod_eq_iff)
  ultimately have "pl_attempt ?p \<le> 3"
    using planned_push_is_allowed[OF _ facts(3)] by blast
  with facts(1,2) show ?thesis by auto
qed


text \<open>The question asked just before a check leaves. The answer is yes exactly when the round is
  still open and before its close, its device is enrolled, its account is hosted, and the token the
  push was built for is still the device's token and not empty; a yes changes nothing. After a no
  that is not about the token, the round is closed, as skipped or missed.\<close>

theorem confirm_contract:
  assumes "checks_ok s"
  shows "(snd (confirm_check now p s) \<longleftrightarrow>
      (\<exists>r c d. round_of s (pl_round_id p) = Some r \<and> cr_result r = None \<and> now < cr_closes_at r \<and>
         check_state s (cr_device_id r) = Some c \<and> dc_enabled c \<and> check_device_of s (cr_device_id r) = Some d \<and>
         gets_checks s (cd_account_id d) \<and> cd_push_token d = pl_push_token p \<and> cd_push_token d \<noteq> [])) \<and>
    (snd (confirm_check now p s) \<longrightarrow> fst (confirm_check now p s) = s) \<and>
    (\<not> snd (confirm_check now p s) \<longrightarrow>
       (case round_of s (pl_round_id p) of None \<Rightarrow> True
        | Some r \<Rightarrow> (case check_device_of s (cr_device_id r) of None \<Rightarrow> True
            | Some d \<Rightarrow> cd_push_token d \<noteq> pl_push_token p \<or>
                map_option cr_result (round_of (fst (confirm_check now p s)) (pl_round_id p)) \<noteq> Some None)))"
proof (cases "round_of s (pl_round_id p)")
  case None
  then show ?thesis by (simp add: confirm_check_def)
next
  case (Some r)
  note rid = round_of_id[OF Some]
  show ?thesis
  proof (cases "cr_result r = None")
    case False
    with Some show ?thesis by (auto simp: confirm_check_def split: option.split)
  next
    case True
    obtain c where c: "check_state s (cr_device_id r) = Some c" "dc_round_id c = Some (cr_id r)"
      using checks_okD(2)[OF assms Some] True by (auto simp: round_row_ok_def)
    have closed: "map_option cr_result (round_of (close_round r res reason t s) (pl_round_id p)) \<noteq> Some None"
      "map_option cr_result (round_of (expire_round r s) (pl_round_id p)) \<noteq> Some None" for res reason t
      using Some True rid by (auto simp: table_simps expire_round_def)
    show ?thesis
    proof (cases "check_device_of s (cr_device_id r)")
      case None
      with Some True c rid show ?thesis by (simp add: confirm_check_def)
    next
      case d: (Some d)
      show ?thesis
        using Some True c d closed rid by (simp add: confirm_check_def)
    qed
  qed
qed

theorem confirm_contract_witness:
  "snd (confirm_check 2001 \<lparr>pl_round_id = ''r1'', pl_attempt = 1, pl_check_id = [], pl_platform = Macos, pl_push_token = ''tok'',
      pl_apns_environment = None\<rparr> (fst demo_planned))"
proof -
  have "checks_ok demo_enrolled" unfolding demo_enrolled_def by (rule enable_ok[OF no_checks_ok[OF demo_no_checks]])
  then have ok: "checks_ok (fst demo_planned)" using demo_planned_reached(2) by (rule check_ops.inv_steps[rotated])
  obtain r c d where "round_of (fst demo_planned) ''r1'' = Some r" "cr_result r = None" "2001 < cr_closes_at r"
    "check_state (fst demo_planned) (cr_device_id r) = Some c" "dc_enabled c" "check_device_of (fst demo_planned) (cr_device_id r) = Some d"
    "gets_checks (fst demo_planned) (cd_account_id d)" "cd_push_token d = ''tok''"
  proof -
    have "case round_of (fst demo_planned) ''r1'' of None \<Rightarrow> False
      | Some r \<Rightarrow> cr_result r = None \<and> 2001 < cr_closes_at r \<and>
          (case check_state (fst demo_planned) (cr_device_id r) of None \<Rightarrow> False | Some c \<Rightarrow> dc_enabled c) \<and>
          (case check_device_of (fst demo_planned) (cr_device_id r) of None \<Rightarrow> False
           | Some d \<Rightarrow> gets_checks (fst demo_planned) (cd_account_id d) \<and> cd_push_token d = ''tok'')"
      unfolding demo_planned_def demo_held_def by code_simp
    then show ?thesis using that by (auto split: option.splits)
  qed
  with confirm_contract[OF ok, where now = 2001 and p = "\<lparr>pl_round_id = ''r1'', pl_attempt = 1, pl_check_id = [],
      pl_platform = Macos, pl_push_token = ''tok'', pl_apns_environment = None\<rparr>"]
  show ?thesis by simp
qed

lemma round_kept_by_view [frame_simps]: "check_rounds (counter_add now key m n s) = check_rounds s"
  by (simp add: counter_add_def)

lemma find_upd_round:
  assumes "\<And>r. cr_id (f r) = cr_id r" "\<And>r. P (f r) = P r"
  shows "List.find P (check_rounds (upd_round rid f s)) =
    map_option (\<lambda>r. if cr_id r = rid then f r else r) (List.find P (check_rounds s))"
  using assms by (simp add: upd_round_def find_upd_where)

lemma close_round_rounds:
  "check_rounds (close_round r res reason t s) =
     (case round_of s (cr_id r) of None \<Rightarrow> check_rounds s
      | Some x \<Rightarrow> if cr_result x \<noteq> None then check_rounds s
          else check_rounds (upd_round (cr_id r) (\<lambda>x. x\<lparr>cr_result := Some res, cr_reason := reason, cr_closed_at := Some t\<rparr>) s))"
  by (auto simp: close_round_def Let_def frame_simps split: option.split round_result.split)

text \<open>A receipt. It answers only for a round of this device with this check id. It counts exactly
  when the round was received before, or is open and before its close; then the round is received
  now and the device has no misses. Any later repetition of a receipt that counted is answered as
  counted and writes nothing, and a receipt for a closed round leaves its result alone.\<close>

theorem receipt_contract:
  assumes ok: "checks_ok s" and id: "is_check_id chk"
    and found: "List.find (\<lambda>r. cr_device_id r = dev \<and> cr_nonce_hash r = ce_sha env chk) (check_rounds s) = Some r"
    and ans: "receive_check env now dev acc chk attempt received_at s = (s', Some a)"
  shows "(ra_counted a \<longleftrightarrow> cr_result r = Some Received \<or> cr_result r = None \<and> now < cr_closes_at r) \<and>
    (if cr_result r = None \<and> now < cr_closes_at r
     then (case round_of s' (cr_id r) of None \<Rightarrow> False
           | Some x \<Rightarrow> cr_result x = Some Received \<and> cr_closed_at x = Some now \<and> cr_receipt_at x = Some now) \<and>
       map_option dc_misses (check_state s' dev) = Some 0
     else cr_result r \<noteq> None \<longrightarrow> map_option cr_result (round_of s' (cr_id r)) = Some (cr_result r)) \<and>
    (ra_counted a \<longrightarrow> fst (receive_check env later dev acc chk attempt' received_at' s') = s' \<and>
       map_option ra_counted (snd (receive_check env later dev acc chk attempt' received_at' s')) = Some True)"
proof -
  have r: "r \<in> set (check_rounds s)" "cr_device_id r = dev" "cr_nonce_hash r = ce_sha env chk"
    using find_SomeD[OF found] by auto
  have row: "round_of s (cr_id r) = Some r" by (rule round_of_unique[OF checks_okD(5)[OF ok] r(1)])
  have again: "fst (receive_check env later dev acc chk attempt' received_at' t) = t \<and>
      map_option ra_counted (snd (receive_check env later dev acc chk attempt' received_at' t)) = Some True"
    if "List.find (\<lambda>r. cr_device_id r = dev \<and> cr_nonce_hash r = ce_sha env chk) (check_rounds t) = Some x"
      "cr_result x = Some Received" for t x
    using that id by (simp add: receive_check_def Let_def)
  consider (open_r) "cr_result r = None" "now < cr_closes_at r" | (late) "cr_result r = None" "cr_closes_at r \<le> now"
    | (received) "cr_result r = Some Received" | (closed) res where "cr_result r = Some res" "res \<noteq> Received"
    by (cases "cr_result r"; cases "now < cr_closes_at r") auto
  then show ?thesis
  proof cases
    case open_r
    let ?t = "close_round r Received None now s"
    let ?n = "note_receipt now r attempt received_at ?t"
    have s': "s' = counter_add now local_key ChecksReceived 1 ?n" and a: "ra_counted a"
      using ans id found open_r by (auto simp: receive_check_def Let_def)
    have c: "map_option dc_misses (check_state s' dev) = Some 0"
    proof -
      obtain c where "check_state s dev = Some c"
        using checks_okD(2)[OF ok row] open_r r(2) by (auto simp: round_row_ok_def)
      moreover have "check_state s' = check_state ?t"
        by (auto simp: s' note_receipt_def check_state_def counter_add_def upd_round_def fun_eq_iff)
      ultimately show ?thesis using row open_r r(2) by (simp add: table_simps after_close_def)
    qed
    have x: "List.find (\<lambda>r. cr_device_id r = dev \<and> cr_nonce_hash r = ce_sha env chk) (check_rounds ?n) =
        map_option (\<lambda>y. if cr_id y = cr_id r then y\<lparr>cr_receipt_at := Some now,
          cr_device_received_at := (case received_at of Some n \<Rightarrow> if safe_integer n then Some n else None | None \<Rightarrow> None),
          cr_attempt_received := (case attempt of Some n \<Rightarrow> if 1 \<le> n \<and> n \<le> int (cr_attempts r) then Some n else None | None \<Rightarrow> None)\<rparr> else y)
          (Some (r\<lparr>cr_result := Some Received, cr_reason := None, cr_closed_at := Some now\<rparr>))"
      unfolding note_receipt_def
      by (subst find_upd_round) (simp_all add: close_round_rounds row open_r find_upd_round found)
    have rr: "round_of s' = round_of ?n" by (simp add: s' round_of_def frame_simps fun_eq_iff)
    have "round_of ?n (cr_id r) \<noteq> None" using row by (simp add: note_receipt_def table_simps)
    moreover have "cr_result y = Some Received \<and> cr_closed_at y = Some now \<and> cr_receipt_at y = Some now"
      if "round_of ?n (cr_id r) = Some y" for y
      using that row open_r by (auto simp: note_receipt_def table_simps)
    moreover have "fst (receive_check env later dev acc chk attempt' received_at' s') = s' \<and>
        map_option ra_counted (snd (receive_check env later dev acc chk attempt' received_at' s')) = Some True"
      by (rule again[where x = "the (List.find (\<lambda>r. cr_device_id r = dev \<and> cr_nonce_hash r = ce_sha env chk) (check_rounds s'))"])
        (use x in \<open>simp_all add: s' frame_simps\<close>)
    ultimately show ?thesis using open_r a c by (auto simp: rr split: option.split)
  next
    case late
    have "\<exists>x. round_of (expire_round r s) (cr_id r) = Some x \<and> (cr_result x = Some Missed \<or> cr_result x = Some Skipped)"
      using late row by (auto simp: expire_round_def table_simps)
    then obtain x where "round_of (expire_round r s) (cr_id r) = Some x" "cr_result x = Some Missed \<or> cr_result x = Some Skipped"
      by blast
    with ans id found late show ?thesis by (auto simp: receive_check_def Let_def)
  next
    case received
    with ans id found row again[OF found received] show ?thesis by (auto simp: receive_check_def Let_def)
  next
    case closed
    then have "s' = upd_round (cr_id r) (\<lambda>x. if cr_late_receipt_at x = None then x\<lparr>cr_late_receipt_at := Some now\<rparr> else x) s"
      "\<not> ra_counted a"
      using ans id found by (auto simp: receive_check_def Let_def split: round_result.splits)
    with closed row show ?thesis by (auto simp: table_simps)
  qed
qed


theorem receipt_contract_witness:
  "map_option ra_counted (snd (receive_check demo_check_env 3000 ''dev'' ''acc'' (check_id_for demo_check_env ''r1'') (Some 1) None
     (fst demo_planned))) = Some True \<and>
   map_option dc_misses (check_state (fst (receive_check demo_check_env 3000 ''dev'' ''acc'' (check_id_for demo_check_env ''r1'')
     (Some 1) None (fst demo_planned))) ''dev'') = Some 0"
proof -
  let ?chk = "check_id_for demo_check_env ''r1''"
  let ?found = "List.find (\<lambda>r. cr_device_id r = ''dev'' \<and> cr_nonce_hash r = ce_sha demo_check_env ?chk) (check_rounds (fst demo_planned))"
  have "checks_ok demo_enrolled" unfolding demo_enrolled_def by (rule enable_ok[OF no_checks_ok[OF demo_no_checks]])
  then have ok: "checks_ok (fst demo_planned)" using demo_planned_reached(2) by (rule check_ops.inv_steps[rotated])
  have id: "is_check_id ?chk" by code_simp
  have "case ?found of None \<Rightarrow> False | Some r \<Rightarrow> cr_result r = None \<and> 3000 < cr_closes_at r"
    unfolding demo_planned_def demo_held_def by code_simp
  then obtain r where r: "?found = Some r" "cr_result r = None" "3000 < cr_closes_at r" by (auto split: option.splits)
  obtain s' a where ans: "receive_check demo_check_env 3000 ''dev'' ''acc'' ?chk (Some 1) None (fst demo_planned) = (s', Some a)"
    using r id by (auto simp: receive_check_def Let_def)
  from receipt_contract[OF ok id r(1) ans] r(2,3) ans show ?thesis by simp
qed

subsection \<open>Properties of a pass\<close>

lemma flush_notes_attempts [frame_simps]: "check_attempts (snd (flush_notes fails ns s)) = check_attempts s"
proof -
  have "check_attempts (fold (\<lambda>(dev, at) s. if fails dev then s else write_alarm_note dev at s) ns t) = check_attempts t" for t
    by (induction ns arbitrary: t) (auto simp: write_alarm_note_def)
  then show ?thesis by (simp add: flush_notes_def)
qed

lemma write_alarm_note_checks [simp]: "checks_ok (write_alarm_note dev at s) = checks_ok s"
  by (rule checks_ok_frame) (simp_all add: write_alarm_note_def)

lemma flush_notes_checks: "checks_ok (snd (flush_notes fails ns s)) = checks_ok s"
proof -
  have "checks_ok (fold (\<lambda>(dev, at) s. if fails dev then s else write_alarm_note dev at s) ns t) = checks_ok t" for t
  proof (induction ns arbitrary: t)
    case (Cons n ns)
    obtain dev at where n: "n = (dev, at)" by fastforce
    have "checks_ok (if fails dev then t else write_alarm_note dev at t) = checks_ok t" by simp
    then show ?case unfolding n fold_Cons comp_apply prod.case Cons.IH .
  qed simp
  then show ?thesis by (simp add: flush_notes_def)
qed

lemma expire_round_frames [frame_simps]: "check_attempts (expire_round r s) = check_attempts s"
  by (simp add: expire_round_def frame_simps)

lemma confirm_attempts [frame_simps]: "check_attempts (fst (confirm_check now p s)) = check_attempts s"
  by (simp add: confirm_check_def frame_simps split: option.split)

lemma confirm_round_ids [frame_simps]: "round_of (fst (confirm_check now p s)) rid = None \<longleftrightarrow> round_of s rid = None"
  by (auto simp: confirm_check_def table_simps expire_round_def split: option.split)

text \<open>A sender that touches the tables only by asking whether its check is still wanted.\<close>

definition asks_only :: "check_sender \<Rightarrow> bool" where
  "asks_only send \<longleftrightarrow>
     (\<forall>p s. check_attempts (fst (send p s)) = check_attempts s \<and> (checks_ok s \<longrightarrow> checks_ok (fst (send p s))) \<and>
        (\<forall>rid. round_of (fst (send p s)) rid = None \<longleftrightarrow> round_of s rid = None))"

lemma confirm_keeps:
  "confirm_check t p s = (s1, b) \<Longrightarrow> check_attempts s1 = check_attempts s \<and> (checks_ok s \<longrightarrow> checks_ok s1) \<and>
     (\<forall>rid. round_of s1 rid = None \<longleftrightarrow> round_of s rid = None)"
  using confirm_attempts[of t p s] confirm_ok[of s t p] confirm_round_ids[of t p s] by auto

lemma apns_asks_only: "asks_only (send_apns_check host e t1 t2)"
  unfolding asks_only_def send_apns_check_def Let_def
  by (auto split: prod.split option.split dest!: confirm_keeps)

lemma fcm_asks_only: "asks_only (send_fcm_check has_token post t)"
  unfolding asks_only_def send_fcm_check_def
  by (auto split: prod.split option.split dest!: confirm_keeps)

lemma record_keeps:
  "length (check_attempts (record_answer now rid n oc st s)) = length (check_attempts s)"
  "round_of (record_answer now rid n oc st s) x = None \<longleftrightarrow> round_of s x = None"
proof -
  have st: "round_of (s\<lparr>check_attempts := atts\<rparr>) = round_of s" "round_of (counter_add now' k m i t) = round_of t" for atts now' k m i t
    by (auto simp: round_of_def frame_simps fun_eq_iff)
  have "check_attempts (counter_add now' k m i t) = check_attempts t" for now' k m i t by (simp add: counter_add_def)
  then show "length (check_attempts (record_answer now rid n oc st s)) = length (check_attempts s)"
    by (auto simp: record_answer_def Let_def frame_simps split: option.split attempt_outcome.split)
  show "round_of (record_answer now rid n oc st s) x = None \<longleftrightarrow> round_of s x = None"
    by (auto simp: record_answer_def Let_def frame_simps table_simps st split: option.split attempt_outcome.split)
qed


lemma flush_notes_rounds [frame_simps]: "round_of (snd (flush_notes fails ns s)) = round_of s"
proof -
  have "check_rounds (fold (\<lambda>(dev, at) s. if fails dev then s else write_alarm_note dev at s) ns t) = check_rounds t" for t
    by (induction ns arbitrary: t) (auto simp: write_alarm_note_def)
  then show ?thesis by (simp add: flush_notes_def round_of_def fun_eq_iff)
qed

lemma plan_push_ids: "round_of (fst (plan_push env now dev d r s)) x = None \<longleftrightarrow> round_of s x = None"
proof -
  have st: "round_of (s\<lparr>check_attempts := atts\<rparr>) = round_of s" for atts by (simp add: round_of_def fun_eq_iff)
  show ?thesis
    by (simp add: plan_push_def Let_def set_next_attempt_def frame_simps table_simps st split: option.split)
qed

lemma plan_round_ids:
  assumes "x \<noteq> rid" "round_of s x = None"
  shows "round_of (fst (plan_check env now rid dev s)) x = None"
proof -
  have op: "round_of (open_new_round env now rid dev s) x = None"
    using assms by (simp add: open_new_round_def frame_simps round_of_append)
  have sk: "round_of (skip_round env now rid dev r reason s) x = None" for r reason
    using assms by (auto simp: skip_round_def frame_simps table_simps round_of_append split: option.split)
  have ex: "round_of (expire_round r s) x = None" for r
    using assms by (auto simp: expire_round_def table_simps)
  have pp: "plan_push env now dev d r s' = (a, b) \<Longrightarrow> round_of s' x = None \<Longrightarrow> round_of a x = None" for d r s' a b
    using plan_push_ids[of env now dev d r s' x] by simp
  show ?thesis
    using assms sk ex op pp
    by (auto simp: plan_check_def Let_def plan_push_ids split: option.split prod.split plan_result.split)
qed

lemma plan_push_attempts:
  "snd (plan_push env now dev d r s) \<noteq> PlanFailed \<Longrightarrow>
   length (check_attempts (fst (plan_push env now dev d r s))) =
     length (check_attempts s) + (case snd (plan_push env now dev d r s) of ToSend p \<Rightarrow> 1 | _ \<Rightarrow> 0)"
  by (simp add: plan_push_def Let_def set_next_attempt_def frame_simps split: option.split)

lemma plan_attempts:
  "length (check_attempts (fst (plan_check env now rid dev s))) =
     length (check_attempts s) + (case snd (plan_check env now rid dev s) of ToSend p \<Rightarrow> 1 | _ \<Rightarrow> 0)"
proof -
  have op: "check_attempts (open_new_round env now rid dev s) = check_attempts s"
    by (simp add: open_new_round_def frame_simps)
  have sk: "check_attempts (skip_round env now rid dev r reason s) = check_attempts s" for r reason
    by (simp add: skip_round_def frame_simps split: option.split)
  have pp: "plan_push env now dev d r t = (a, b) \<Longrightarrow> check_attempts t = check_attempts s \<Longrightarrow>
      b \<noteq> PlanFailed \<Longrightarrow> length (check_attempts a) = length (check_attempts s) + (case b of ToSend p \<Rightarrow> 1 | _ \<Rightarrow> 0)" for d r t a b
    using plan_push_attempts[of env now dev d r t] by simp
  have pf: "plan_push env now dev d r t = (a, PlanFailed) \<Longrightarrow> a = t" for d r t a
    by (auto simp: plan_push_def Let_def split: option.splits if_splits)
  have pp': "length (check_attempts (fst (plan_push env now dev d r s))) =
      length (check_attempts s) + (case snd (plan_push env now dev d r s) of ToSend p \<Rightarrow> 1 | _ \<Rightarrow> 0)" for d r
    using pp[of d r s] pf[of d r s] by (cases "plan_push env now dev d r s"; cases "snd (plan_push env now dev d r s)") auto
  show ?thesis
    using sk pp pp' op
    by (auto simp: plan_check_def Let_def frame_simps split: option.split prod.split plan_result.split)
qed

lemma scan_devices_contract:
  assumes "\<And>k. (case sn_ios (sw_senders w k) of None \<Rightarrow> True | Some f \<Rightarrow> asks_only f) \<and>
      (case sn_android (sw_senders w k) of None \<Rightarrow> True | Some f \<Rightarrow> asks_only f)"
    and "inj (sw_round_id w)" and "checks_ok s" and "\<And>j. k \<le> j \<Longrightarrow> round_of s (sw_round_id w j) = None"
    and "scan_devices w k devs notes0 s = (n, notes', s')"
  shows "checks_ok s' \<and> length (check_attempts s') = length (check_attempts s) + n \<and> n \<le> length devs"
  using assms
proof (induction w k devs notes0 s arbitrary: n notes' s' rule: scan_devices.induct)
  case (2 w k dev devs notes0 s)
  show ?case
  proof (cases "sw_out_of_time w k")
    case True
    with 2(6,8) show ?thesis by simp
  next
    case False
    obtain ns1 s1 where fl: "flush_notes (sw_fails w) notes0 s = (ns1, s1)" by fastforce
    have s1: "checks_ok s1" "check_attempts s1 = check_attempts s" "round_of s1 = round_of s"
      using flush_notes_checks[of "sw_fails w" notes0 s] flush_notes_attempts[of "sw_fails w" notes0 s]
        flush_notes_rounds[of "sw_fails w" notes0 s] 2(6) fl by simp_all
    obtain s2 res where pl: "plan_check (sw_env w) (sw_plan_at w k) (sw_round_id w k) dev s1 = (s2, res)" by fastforce
    have s2: "checks_ok s2" "res \<noteq> PlanFailed" "round_of s2 (sw_round_id w j) = None" if "Suc k \<le> j" for j
      using plan_ok[OF s1(1), of "sw_round_id w k" "sw_env w" "sw_plan_at w k" dev] 2(7)[of k]
        plan_round_ids[of "sw_round_id w j" "sw_round_id w k" s1 "sw_env w" "sw_plan_at w k" dev] 2(7)[of j] 2(5) that pl s1(3)
      by (auto simp: inj_eq)
    have len: "length (check_attempts s2) = length (check_attempts s) + (case res of ToSend p \<Rightarrow> 1 | _ \<Rightarrow> 0)"
      using plan_attempts[of "sw_env w" "sw_plan_at w k" "sw_round_id w k" dev s1] pl s1(2) by simp
    show ?thesis
    proof (cases res)
      case PlanFailed
      with s2(2) show ?thesis by blast
    next
      case NothingToSend
      have "scan_devices w (Suc k) devs ns1 s2 = (n, notes', s')" using 2(8) False fl pl NothingToSend by simp
      from 2(2)[OF False fl[symmetric] pl[symmetric] NothingToSend] 2(4,5) s2 this len NothingToSend
      show ?thesis by fastforce
    next
      case (ToSend p)
      obtain s3 oc st where sd: "send_check (sw_senders w k) p s2 = (s3, oc, st)" by (metis prod_cases3)
      have ao: "asks_only f" if "sn_ios (sw_senders w k) = Some f \<or> sn_android (sw_senders w k) = Some f" for f
        using 2(4)[of k] that by auto
      have s3: "check_attempts s3 = check_attempts s2" "checks_ok s3" "round_of s3 x = None \<longleftrightarrow> round_of s2 x = None" for x
        using sd ao s2(1)[of "Suc k"] unfolding send_check_def asks_only_def
        by (auto split: option.splits if_splits) (metis fst_conv)+
      let ?s4 = "record_answer (sw_record_at w k) (pl_round_id p) (pl_attempt p) oc st s3"
      obtain m where m: "scan_devices w (Suc k) devs ns1 ?s4 = (m, notes', s')" "n = Suc m"
        using 2(8) False fl pl ToSend sd by (auto split: prod.splits)
      have ok4: "checks_ok ?s4" by (rule record_ok[OF s3(2)])
      have ids4: "round_of ?s4 (sw_round_id w j) = None" if "Suc k \<le> j" for j
        using s2(3)[OF that] by (simp add: record_keeps s3)
      from 2(3)[OF False fl[symmetric] pl[symmetric] ToSend sd[symmetric] refl 2(4,5) ok4 ids4 m(1)]
      show ?thesis using m(2) len ToSend s3(1) by (simp add: record_keeps(1))
    qed
  qed
qed simp


text \<open>A pass of the scan with the APNs and FCM senders. While another pass is still sending it
  does nothing. Otherwise it keeps the tables consistent, and the number it returns is the number of
  attempts it put on record, at most one for each device it looks at and at most the batch.\<close>

theorem scan_records_what_it_plans:
  assumes "checks_ok s" "inj (sw_round_id w)" "\<And>j. round_of s (sw_round_id w j) = None"
    and "sw_senders w = (\<lambda>k. \<lparr>sn_ios = Some (send_apns_check (host k) e (t1 k) (t2 k)),
                              sn_android = Some (send_fcm_check (has_token k) (post k) (t3 k))\<rparr>)"
    and "scan_checks w now batch running ns s = (n, ns', s')"
  shows "checks_ok s' \<and> length (check_attempts s') = length (check_attempts s) + n \<and> n \<le> batch \<and>
    (if running then ns' = ns \<and> s' = s else n \<le> length (due_checks now batch (snd (flush_notes (sw_fails w) ns s))))"
proof (cases running)
  case True
  with assms(1,5) show ?thesis by (simp add: scan_checks_def)
next
  case False
  obtain ns1 s1 where fl: "flush_notes (sw_fails w) ns s = (ns1, s1)" by fastforce
  have s1: "checks_ok s1" "check_attempts s1 = check_attempts s" "round_of s1 = round_of s"
    using flush_notes_checks[of "sw_fails w" ns s] flush_notes_attempts[of "sw_fails w" ns s]
      flush_notes_rounds[of "sw_fails w" ns s] assms(1) fl by simp_all
  have run: "scan_devices w 0 (due_checks now batch s1) ns1 s1 = (n, ns', s')"
    using assms(5) False fl by (simp add: scan_checks_def)
  have "checks_ok s' \<and> length (check_attempts s') = length (check_attempts s1) + n \<and> n \<le> length (due_checks now batch s1)"
    by (rule scan_devices_contract[OF _ assms(2) s1(1) _ run])
      (simp_all add: assms(3,4) s1(3) apns_asks_only fcm_asks_only)
  moreover have "length (due_checks now batch s1) \<le> batch" by (simp add: due_checks_def)
  ultimately show ?thesis using False fl s1(2) by auto
qed

definition demo_scan :: scan_world where
  "demo_scan = \<lparr>sw_env = demo_check_env, sw_plan_at = (\<lambda>_. 2000), sw_record_at = (\<lambda>_. 2001), sw_round_id = (\<lambda>k. replicate k (CHR ''r'')),
     sw_senders = (\<lambda>k. \<lparr>sn_ios = Some (send_apns_check (\<lambda>e. Some (410, [])) Production 2000 2000),
                        sn_android = Some (send_fcm_check True (Some (200, False)) 2000)\<rparr>),
     sw_out_of_time = (\<lambda>_. False), sw_fails = (\<lambda>_. False)\<rparr>"

theorem scan_records_what_it_plans_witness:
  "fst (scan_checks demo_scan 2000 100 False [] demo_enrolled) = 1 \<and>
   length (check_attempts (snd (snd (scan_checks demo_scan 2000 100 False [] demo_enrolled)))) = 1"
proof -
  have ok: "checks_ok demo_enrolled" unfolding demo_enrolled_def by (rule enable_ok[OF no_checks_ok[OF demo_no_checks]])
  have inj: "inj (sw_round_id demo_scan)"
    by (rule injI) (metis demo_scan_def length_replicate scan_world.select_convs(4))
  have rounds: "check_rounds demo_enrolled = []" "check_attempts demo_enrolled = []" by code_simp+
  then have new: "round_of demo_enrolled (sw_round_id demo_scan j) = None" for j by (simp add: round_of_def)
  have sn: "sw_senders demo_scan = (\<lambda>k. \<lparr>sn_ios = Some (send_apns_check (\<lambda>e. Some (410, [])) Production 2000 2000),
      sn_android = Some (send_fcm_check True (Some (200, False)) 2000)\<rparr>)" by (simp add: demo_scan_def)
  obtain n ns' s' where run: "scan_checks demo_scan 2000 100 False [] demo_enrolled = (n, ns', s')" by (metis prod_cases3)
  have "fst (scan_checks demo_scan 2000 100 False [] demo_enrolled) = 1" by code_simp
  with scan_records_what_it_plans[OF ok inj new sn run] run rounds show ?thesis by simp
qed

end
