(* ===== verification/Text.thy ===== *)
theory Text
  imports Prelude
begin

section \<open>Text as the routes read it\<close>

text \<open>
  The operations of JavaScript strings the routes use. A string is the list of its UTF-8 bytes, so
  \<open>Buffer.byteLength\<close> is \<^term>\<open>length\<close>, and every separator and every letter the code compares with
  is one byte.
\<close>

subsection \<open>Splitting and joining\<close>

text \<open>\<open>split\<close> with a separator of one character, and of two equal characters.\<close>

fun split_on :: "char \<Rightarrow> string \<Rightarrow> string list" where
  "split_on c [] = [[]]"
| "split_on c (x # xs) =
     (if x = c then [] # split_on c xs
      else (case split_on c xs of [] \<Rightarrow> [[x]] | y # ys \<Rightarrow> (x # y) # ys))"

fun split_twice :: "char \<Rightarrow> string \<Rightarrow> string list" where
  "split_twice c [] = [[]]"
| "split_twice c [x] = [[x]]"
| "split_twice c (x # y # xs) =
     (if x = c \<and> y = c then [] # split_twice c xs
      else (case split_twice c (y # xs) of [] \<Rightarrow> [[x]] | z # zs \<Rightarrow> (x # z) # zs))"

fun join_with :: "string \<Rightarrow> string list \<Rightarrow> string" where
  "join_with sep [] = []"
| "join_with sep [x] = x"
| "join_with sep (x # y # ys) = x @ sep @ join_with sep (y # ys)"

lemma split_on_not_Nil [simp]: "split_on c xs \<noteq> []"
  by (induction xs) (auto split: list.split)

lemma split_twice_not_Nil [simp]: "split_twice c xs \<noteq> []"
  by (induction c xs rule: split_twice.induct) (auto split: list.split)

lemma split_on_append:
  "c \<notin> set x \<Longrightarrow> split_on c (x @ c # y) = x # split_on c y"
  by (induction x) auto

lemma split_on_one [simp]: "c \<notin> set x \<Longrightarrow> split_on c x = [x]"
  by (induction x) auto

lemma split_join: "xs \<noteq> [] \<Longrightarrow> list_all (\<lambda>x. c \<notin> set x) xs \<Longrightarrow> split_on c (join_with [c] xs) = xs"
proof (induction "[c]" xs rule: join_with.induct)
  case (3 x y ys)
  then show ?case using split_on_append[of c x "join_with [c] (y # ys)"] by simp
qed auto

lemma join_with_head: "join_with [c] ((x # y) # ys) = x # join_with [c] (y # ys)"
  by (cases ys) auto

lemma join_split: "join_with [c] (split_on c xs) = xs"
proof (induction xs)
  case (Cons x xs)
  then show ?case
    by (cases "split_on c xs") (auto simp: neq_Nil_conv join_with_head dest: split_on_not_Nil[THEN notE])
qed simp

subsection \<open>Characters\<close>

definition is_digit :: "char \<Rightarrow> bool" where
  "is_digit c \<longleftrightarrow> CHR ''0'' \<le> c \<and> c \<le> CHR ''9''"

definition is_lower :: "char \<Rightarrow> bool" where
  "is_lower c \<longleftrightarrow> CHR ''a'' \<le> c \<and> c \<le> CHR ''z''"

definition is_upper :: "char \<Rightarrow> bool" where
  "is_upper c \<longleftrightarrow> CHR ''A'' \<le> c \<and> c \<le> CHR ''Z''"

definition is_letter :: "char \<Rightarrow> bool" where
  "is_letter c \<longleftrightarrow> is_lower c \<or> is_upper c"

definition is_word_char :: "char \<Rightarrow> bool" where
  "is_word_char c \<longleftrightarrow> is_letter c \<or> is_digit c \<or> c = CHR ''_'' \<or> c = CHR ''-''"

text \<open>\<open>toLowerCase\<close>, for the letters the code compares with.\<close>

definition lower_char :: "char \<Rightarrow> char" where
  "lower_char c = (if is_upper c then char_of (of_char c + (32::nat)) else c)"

definition lower_text :: "string \<Rightarrow> string" where
  "lower_text x = map lower_char x"

definition digit_value :: "char \<Rightarrow> nat" where
  "digit_value c = of_char c - 48"

text \<open>\<open>Number\<close> of a text of decimal digits.\<close>

definition digits_value :: "string \<Rightarrow> nat" where
  "digits_value x = foldl (\<lambda>n c. n * 10 + digit_value c) 0 x"

definition starts_with :: "string \<Rightarrow> string \<Rightarrow> bool" where
  "starts_with p x \<longleftrightarrow> take (length p) x = p"

definition ends_with :: "string \<Rightarrow> string \<Rightarrow> bool" where
  "ends_with p x \<longleftrightarrow> starts_with (rev p) (rev x)"

lemma starts_with_iff: "starts_with p x \<longleftrightarrow> (\<exists>y. x = p @ y)"
  unfolding starts_with_def by (metis append_eq_conv_conj)

text \<open>\<open>slice(0, n)\<close> counts UTF-16 units, and a text is its UTF-8 bytes here: a character of four bytes has
  two units, and half of it is written out as U+FFFD.\<close>

fun take_units :: "nat \<Rightarrow> string \<Rightarrow> string" where
  "take_units 0 x = []"
| "take_units (Suc n) [] = []"
| "take_units (Suc n) (c # x) =
     (if c < CHR 0x80 then c # take_units n x
      else if c < CHR 0xE0 then c # take 1 x @ take_units n (drop 1 x)
      else if c < CHR 0xF0 then c # take 2 x @ take_units n (drop 2 x)
      else (case n of 0 \<Rightarrow> [CHR 0xEF, CHR 0xBF, CHR 0xBD] | Suc m \<Rightarrow> c # take 3 x @ take_units m (drop 3 x)))"

subsection \<open>White space\<close>

text \<open>The characters \<open>trim\<close> removes, as their UTF-8 bytes: the ASCII ones, U+00A0, U+1680, U+2000 to
  U+200A, U+2028, U+2029, U+202F, U+205F, U+3000 and U+FEFF.\<close>

definition white_spaces :: "string list" where
  "white_spaces =
     map (\<lambda>c. [c]) [CHR 0x09, CHR 0x0A, CHR 0x0B, CHR 0x0C, CHR 0x0D, CHR 0x20] @
     [[CHR 0xC2, CHR 0xA0], [CHR 0xE1, CHR 0x9A, CHR 0x80], [CHR 0xE2, CHR 0x80, CHR 0xA8], [CHR 0xE2, CHR 0x80, CHR 0xA9],
      [CHR 0xE2, CHR 0x80, CHR 0xAF], [CHR 0xE2, CHR 0x81, CHR 0x9F], [CHR 0xE3, CHR 0x80, CHR 0x80], [CHR 0xEF, CHR 0xBB, CHR 0xBF]] @
     map (\<lambda>c. [CHR 0xE2, CHR 0x80, c])
       [CHR 0x80, CHR 0x81, CHR 0x82, CHR 0x83, CHR 0x84, CHR 0x85, CHR 0x86, CHR 0x87, CHR 0x88, CHR 0x89, CHR 0x8A]"

text \<open>Removing leading members of a list of texts, each of at least one character; the fuel is the
  length of the text, and every removal shortens it.\<close>

fun strip :: "nat \<Rightarrow> string list \<Rightarrow> string \<Rightarrow> string" where
  "strip 0 ws x = x"
| "strip (Suc n) ws x =
     (case List.find (\<lambda>w. starts_with w x) ws of None \<Rightarrow> x | Some w \<Rightarrow> strip n ws (drop (length w) x))"

definition trim_start :: "string \<Rightarrow> string" where
  "trim_start x = strip (length x) white_spaces x"

definition trim_end :: "string \<Rightarrow> string" where
  "trim_end x = rev (strip (length x) (map rev white_spaces) (rev x))"

definition trim :: "string \<Rightarrow> string" where
  "trim x = trim_end (trim_start x)"

lemma white_spaces_nonempty: "w \<in> set white_spaces \<Longrightarrow> w \<noteq> []"
  by (auto simp: white_spaces_def)

text \<open>The fuel is enough: what is left starts with no white space.\<close>

lemma strip_done:
  "list_all (\<lambda>w. w \<noteq> []) ws \<Longrightarrow> length x \<le> n \<Longrightarrow> List.find (\<lambda>w. starts_with w (strip n ws x)) ws = None"
proof (induction n ws x rule: strip.induct)
  case (1 ws x)
  then show ?case by (auto simp: find_None_iff starts_with_def list_all_iff)
next
  case (2 n ws x)
  show ?case
  proof (cases "List.find (\<lambda>w. starts_with w x) ws")
    case None
    then show ?thesis by simp
  next
    case (Some w)
    then have "w \<noteq> []" using 2(2) find_SomeD[OF Some] by (auto simp: list_all_iff)
    then have "length (drop (length w) x) \<le> n" using 2(3) by (cases w) auto
    then show ?thesis using 2(1)[OF Some 2(2)] Some by simp
  qed
qed

lemma strip_nothing: "List.find (\<lambda>w. starts_with w x) ws = None \<Longrightarrow> strip n ws x = x"
  by (cases n) simp_all

lemma strip_length: "length (strip n ws x) \<le> length x"
  by (induction n ws x rule: strip.induct) (force split: option.split)+

lemma trim_length: "length (trim x) \<le> length x"
proof -
  have "length (trim x) \<le> length (trim_start x)"
    unfolding trim_def trim_end_def using strip_length[of _ _ "rev (trim_start x)"] by simp
  also have "\<dots> \<le> length x" unfolding trim_start_def by (rule strip_length)
  finally show ?thesis .
qed

end
