(* ===== verification/Address.thy ===== *)
theory Address
  imports Text
begin

unbundle bit_operations_syntax

section \<open>Addresses and base URLs\<close>

text \<open>
  \<open>src/src/relay/address.ts\<close> and \<open>base-url.ts\<close>: which addresses the relay may connect to while it
  confirms a registration, and which base URLs it accepts. \<open>isIP\<close> of \<open>node:net\<close> is the parameter
  \<open>is_ip\<close> (4, 6 or 0).
\<close>

subsection \<open>IPv4\<close>

definition ipv4_octets :: "string \<Rightarrow> nat list option" where
  "ipv4_octets x =
     (let parts = split_on (CHR ''.'') x
      in if length parts \<noteq> 4 then None
         else if list_all (\<lambda>p. p \<noteq> [] \<and> length p \<le> 3 \<and> list_all is_digit p \<and> digits_value p \<le> 255) parts
              then Some (map digits_value parts) else None)"

definition public_ipv4 :: "nat list \<Rightarrow> bool" where
  "public_ipv4 octets =
     (let a = octets ! 0; b = octets ! 1; c = octets ! 2
      in if a = 0 \<or> a = 10 \<or> a = 127 then False
         else if 224 \<le> a then False
         else if a = 100 \<and> 64 \<le> b \<and> b \<le> 127 then False
         else if a = 169 \<and> b = 254 then False
         else if a = 172 \<and> 16 \<le> b \<and> b \<le> 31 then False
         else if a = 192 \<and> b = 168 then False
         else if a = 192 \<and> b = 0 \<and> (c = 0 \<or> c = 2) then False
         else if a = 192 \<and> b = 88 \<and> c = 99 then False
         else if a = 198 \<and> (b = 18 \<or> b = 19) then False
         else if a = 198 \<and> b = 51 \<and> c = 100 then False
         else if a = 203 \<and> b = 0 \<and> c = 113 then False
         else True)"

subsection \<open>IPv6\<close>

definition hex_value :: "char \<Rightarrow> nat option" where
  "hex_value c =
     (if is_digit c then Some (of_char c - 48)
      else if CHR ''a'' \<le> c \<and> c \<le> CHR ''f'' then Some (of_char c - 87)
      else if CHR ''A'' \<le> c \<and> c \<le> CHR ''F'' then Some (of_char c - 55) else None)"

definition hex_number :: "string \<Rightarrow> nat" where
  "hex_number x = foldl (\<lambda>n c. case hex_value c of None \<Rightarrow> n | Some d \<Rightarrow> n * 16 + d) 0 x"

text \<open>\<open>toString(16)\<close>.\<close>

definition hex_char :: "nat \<Rightarrow> char" where
  "hex_char d = (if d < 10 then char_of (48 + d) else char_of (87 + d))"

fun hex_text :: "nat \<Rightarrow> string" where
  "hex_text n = (if n < 16 then [hex_char n] else hex_text (n div 16) @ [hex_char (n mod 16)])"

declare hex_text.simps [simp del]

definition parse_group :: "string \<Rightarrow> nat option" where
  "parse_group g = (if g \<noteq> [] \<and> length g \<le> 4 \<and> list_all (\<lambda>c. hex_value c \<noteq> None) g then Some (hex_number g) else None)"

fun collect :: "'a option list \<Rightarrow> 'a list option" where
  "collect [] = Some []"
| "collect (None # xs) = None"
| "collect (Some x # xs) = map_option ((#) x) (collect xs)"

definition parse_groups :: "string \<Rightarrow> nat list option" where
  "parse_groups part = (if part = [] then Some [] else collect (map parse_group (split_on (CHR '':'') part)))"

text \<open>The zone is cut off, and a dotted tail becomes two groups. \<open>lastIndexOf(":") + 1\<close> is where the
  text after the last colon starts.\<close>

definition cut_zone :: "string \<Rightarrow> string" where
  "cut_zone x = takeWhile (\<lambda>c. c \<noteq> CHR ''%'') x"

definition after_last_colon :: "string \<Rightarrow> string" where
  "after_last_colon x = rev (takeWhile (\<lambda>c. c \<noteq> CHR '':'') (rev x))"

definition dotted_tail :: "string \<Rightarrow> string option" where
  "dotted_tail x =
     (let tail = after_last_colon x
      in if CHR ''.'' \<notin> set tail then Some x
         else (case ipv4_octets tail of None \<Rightarrow> None
               | Some v4 \<Rightarrow> Some (take (length x - length tail) x @ hex_text (push_bit 8 (v4 ! 0) OR v4 ! 1) @ '':'' @
                                  hex_text (push_bit 8 (v4 ! 2) OR v4 ! 3))))"

definition ipv6_groups :: "string \<Rightarrow> nat list option" where
  "ipv6_groups x =
     (case dotted_tail (cut_zone x) of None \<Rightarrow> None
      | Some rest \<Rightarrow>
          (case split_twice (CHR '':'') rest of
             [whole] \<Rightarrow> (case parse_groups whole of None \<Rightarrow> None | Some head \<Rightarrow> if length head = 8 then Some head else None)
           | [h, t] \<Rightarrow>
               (case parse_groups h of None \<Rightarrow> None
                | Some head \<Rightarrow>
                    (case parse_groups t of None \<Rightarrow> None
                     | Some back \<Rightarrow>
                         if 7 < length head + length back then None
                         else Some (head @ replicate (8 - length head - length back) 0 @ back)))
           | _ \<Rightarrow> None))"

definition embedded_ipv4 :: "nat list \<Rightarrow> nat list" where
  "embedded_ipv4 gs = [drop_bit 8 (gs ! 6), gs ! 6 AND 255, drop_bit 8 (gs ! 7), gs ! 7 AND 255]"

definition is_public_address :: "(string \<Rightarrow> nat) \<Rightarrow> string \<Rightarrow> bool" where
  "is_public_address is_ip x =
     (if is_ip x = 4 then (case ipv4_octets x of None \<Rightarrow> False | Some octets \<Rightarrow> public_ipv4 octets)
      else if is_ip x \<noteq> 6 then False
      else (case ipv6_groups x of None \<Rightarrow> False
            | Some gs \<Rightarrow>
                let zeros = (gs ! 0 = 0 \<and> gs ! 1 = 0 \<and> gs ! 2 = 0 \<and> gs ! 3 = 0)
                in if zeros \<and> gs ! 4 = 0 \<and> gs ! 5 = 0xffff then public_ipv4 (embedded_ipv4 gs)
                   else if gs ! 0 = 0x64 \<and> gs ! 1 = 0xff9b \<and> gs ! 2 = 0 \<and> gs ! 3 = 0 \<and> gs ! 4 = 0 \<and> gs ! 5 = 0
                        then public_ipv4 (embedded_ipv4 gs)
                   else if gs ! 0 AND 0xe000 \<noteq> 0x2000 then False
                   else if gs ! 0 = 0x2001 \<and> gs ! 1 AND 0xfe00 = 0 then False
                   else if gs ! 0 = 0x2001 \<and> gs ! 1 = 0x0db8 then False
                   else if gs ! 0 = 0x2002 then False
                   else True))"

subsection \<open>Base URLs\<close>

definition blocked_suffixes :: "string list" where
  "blocked_suffixes = [''.local'', ''.localhost'', ''.internal'', ''.lan'', ''.home.arpa'']"

record parsed_base_url =
  pu_host :: string
  pu_port :: nat
  pu_path :: string

definition is_host_char :: "char \<Rightarrow> bool" where
  "is_host_char c \<longleftrightarrow> is_letter c \<or> is_digit c \<or> c = CHR ''.'' \<or> c = CHR ''-''"

definition is_path_char :: "char \<Rightarrow> bool" where
  "is_path_char c \<longleftrightarrow> is_letter c \<or> is_digit c \<or> c \<in> set ''._~-''"

text \<open>The three groups of the pattern \<open>BASE_URL\<close>: the host is everything up to the first character
  that is no host character, then a port or none, then segments of at least one character.\<close>

definition match_port :: "string \<Rightarrow> nat option \<times> string" where
  "match_port x =
     (if starts_with '':443'' x then (Some 443, drop 4 x)
      else if starts_with '':8443'' x then (Some 8443, drop 5 x) else (None, x))"

definition match_path :: "string \<Rightarrow> bool" where
  "match_path x \<longleftrightarrow>
     x = [] \<or> (case split_on (CHR ''/'') x of first # segs \<Rightarrow>
                 first = [] \<and> list_all (\<lambda>s. s \<noteq> [] \<and> list_all is_path_char s) segs | [] \<Rightarrow> False)"

definition match_base_url :: "string \<Rightarrow> (string \<times> nat option \<times> string) option" where
  "match_base_url x =
     (if \<not> starts_with ''https://'' x then None
      else (let rest = drop 8 x; host = takeWhile is_host_char rest
            in case match_port (dropWhile is_host_char rest) of (port, path) \<Rightarrow>
                 if host \<noteq> [] \<and> match_path path then Some (host, port, path) else None))"

definition is_good_label :: "string \<Rightarrow> bool" where
  "is_good_label l \<longleftrightarrow> \<not> (l = [] \<or> 63 < length l \<or> starts_with ''-'' l \<or> ends_with ''-'' l)"

definition parse_base_url :: "string \<Rightarrow> parsed_base_url option" where
  "parse_base_url x =
     (if 200 < length x then None
      else (case match_base_url x of None \<Rightarrow> None
            | Some (matched_host, matched_port, path) \<Rightarrow>
                let host = lower_text matched_host;
                    port = (case matched_port of None \<Rightarrow> 443 | Some p \<Rightarrow> p);
                    labels = split_on (CHR ''.'') host
                in if list_ex (\<lambda>s. s = ''.'' \<or> s = ''..'') (split_on (CHR ''/'') path) then None
                   else if length labels < 2 then None
                   else if \<not> list_all is_good_label labels then None
                   else if list_all is_digit (List.last labels) then None
                   else if host = ''localhost'' \<or> list_ex (\<lambda>s. ends_with s host) blocked_suffixes then None
                   else Some \<lparr>pu_host = host, pu_port = port, pu_path = path\<rparr>))"


subsection \<open>Address blocks\<close>

text \<open>The reference: an address as one number, and a block as the addresses that agree with its base
  in the first \<open>len\<close> of \<open>bits\<close> bits.\<close>

definition in_block :: "nat \<Rightarrow> nat \<Rightarrow> nat \<times> nat \<Rightarrow> bool" where
  "in_block bits n blk = (n div 2 ^ (bits - snd blk) = fst blk div 2 ^ (bits - snd blk))"

definition ipv4_number :: "nat list \<Rightarrow> nat" where
  "ipv4_number os = ((os ! 0 * 256 + os ! 1) * 256 + os ! 2) * 256 + os ! 3"

definition ipv6_number :: "nat list \<Rightarrow> nat" where
  "ipv6_number gs = foldl (\<lambda>n g. n * 65536 + g) 0 gs"

text \<open>0.0.0.0/8, 10/8, 127/8, 224/3, 100.64/10, 169.254/16, 172.16/12, 192.168/16, 192.0.0/24, 192.0.2/24,
  192.88.99/24, 198.18/15, 198.51.100/24 and 203.0.113/24.\<close>

definition reserved_blocks :: "(nat list \<times> nat) list" where
  "reserved_blocks =
     [([0,0,0,0], 8), ([10,0,0,0], 8), ([127,0,0,0], 8), ([224,0,0,0], 3), ([100,64,0,0], 10), ([169,254,0,0], 16),
      ([172,16,0,0], 12), ([192,168,0,0], 16), ([192,0,0,0], 24), ([192,0,2,0], 24), ([192,88,99,0], 24),
      ([198,18,0,0], 15), ([198,51,100,0], 24), ([203,0,113,0], 24)]"

definition reserved_ipv4 :: "nat list \<Rightarrow> bool" where
  "reserved_ipv4 os = list_ex (\<lambda>(base, len). in_block 32 (ipv4_number os) (ipv4_number base, len)) reserved_blocks"

lemma div_eq_iff_nat: "0 < m \<Longrightarrow> (n::nat) div m = q \<longleftrightarrow> q * m \<le> n \<and> n < q * m + m"
  by (metis add.commute div_nat_eqI dividend_less_times_div mult.commute mult_Suc times_div_less_eq_dividend)

lemma digit_split: "(c::nat) < m \<Longrightarrow> C < m \<Longrightarrow> x * m + c = y * m + C \<longleftrightarrow> x = y \<and> c = C"
  by (metis div_mult_self3 mod_mult_self3 div_less mod_less add.commute add_0 gr_implies_not0)

lemma ipv4_number_div:
  assumes "b < 256" "c < 256" "d < 256"
  shows "ipv4_number [a, b, c, d] div 2 ^ 8 = (a * 256 + b) * 256 + c" "ipv4_number [a, b, c, d] div 2 ^ 16 = a * 256 + b"
    "ipv4_number [a, b, c, d] div 2 ^ 24 = a"
proof -
  let ?n = "ipv4_number [a, b, c, d]"
  show d8: "?n div 2 ^ 8 = (a * 256 + b) * 256 + c" using assms by (simp add: ipv4_number_def)
  have "?n div 2 ^ 16 = ?n div 2 ^ 8 div 256" by (simp flip: div_mult2_eq)
  then show d16: "?n div 2 ^ 16 = a * 256 + b" unfolding d8 using assms by simp
  have "?n div 2 ^ 24 = ?n div 2 ^ 16 div 256" by (simp flip: div_mult2_eq)
  then show "?n div 2 ^ 24 = a" unfolding d16 using assms by simp
qed

lemma in_block_24:
  assumes "b < 256" "c < 256" "d < 256" "B < 256" "C < 256"
  shows "in_block 32 (ipv4_number [a, b, c, d]) (ipv4_number [A, B, C, 0], 24) \<longleftrightarrow> a = A \<and> b = B \<and> c = C"
proof -
  have e: "(32::nat) - 24 = 8" by simp
  have "ipv4_number [A, B, C, 0] div 2 ^ 8 = (A * 256 + B) * 256 + C" using assms by (intro ipv4_number_div) auto
  then show ?thesis
    using assms unfolding in_block_def fst_conv snd_conv e by (simp only: ipv4_number_div digit_split) blast
qed

lemma in_block_16:
  assumes "b < 256" "c < 256" "d < 256" "B < 256"
  shows "in_block 32 (ipv4_number [a, b, c, d]) (ipv4_number [A, B, 0, 0], 16) \<longleftrightarrow> a = A \<and> b = B"
proof -
  have e: "(32::nat) - 16 = 16" by simp
  have "ipv4_number [A, B, 0, 0] div 2 ^ 16 = A * 256 + B" using assms by (intro ipv4_number_div) auto
  then show ?thesis
    using assms unfolding in_block_def fst_conv snd_conv e by (simp only: ipv4_number_div digit_split)
qed

lemma in_block_upto_16:
  assumes "b < 256" "c < 256" "d < 256" "B < 256" "len \<le> 16"
  shows "in_block 32 (ipv4_number [a, b, c, d]) (ipv4_number [A, B, 0, 0], len) \<longleftrightarrow>
    (a * 256 + b) div 2 ^ (16 - len) = (A * 256 + B) div 2 ^ (16 - len)"
proof -
  have "32 - len = 16 + (16 - len)" using assms(5) by simp
  then have p: "(2::nat) ^ (32 - len) = 2 ^ 16 * 2 ^ (16 - len)" by (simp only: power_add)
  show ?thesis
    using assms(1-4) ipv4_number_div(2)[of b c d a] ipv4_number_div(2)[of B 0 0 A]
    unfolding in_block_def fst_conv snd_conv p div_mult2_eq by simp
qed

lemma in_block_8:
  assumes "b < 256" "c < 256" "d < 256"
  shows "in_block 32 (ipv4_number [a, b, c, d]) (ipv4_number [A, 0, 0, 0], 8) \<longleftrightarrow> a = A"
  using assms ipv4_number_div(3)[of b c d a] ipv4_number_div(3)[of 0 0 0 A] by (simp add: in_block_def)

lemma digits_between:
  fixes a b :: nat
  assumes "b < 256" "l \<le> 256" "h \<le> 256"
  shows "A * 256 + l \<le> a * 256 + b \<and> a * 256 + b < A * 256 + h \<longleftrightarrow> a = A \<and> l \<le> b \<and> b < h"
proof (cases a A rule: linorder_cases)
  case less
  then have "a * 256 + 256 \<le> A * 256" by simp
  with assms less show ?thesis by linarith
next
  case greater
  then have "A * 256 + 256 \<le> a * 256" by simp
  with assms greater show ?thesis by linarith
qed auto

lemma block_between:
  fixes a b :: nat
  assumes "b < 256" "l \<le> 256" "h \<le> 256" "0 < m" "q * m = A * 256 + l" "q * m + m = A * 256 + h"
  shows "(a * 256 + b) div m = q \<longleftrightarrow> a = A \<and> l \<le> b \<and> b < h"
  using digits_between[OF assms(1-3), of A a]
  unfolding assms(5)[symmetric] assms(6)[symmetric] div_eq_iff_nat[OF assms(4)] .

lemma public_ipv4_reserved:
  assumes "a < 256" "b < 256" "c < 256" "d < 256"
  shows "public_ipv4 [a, b, c, d] \<longleftrightarrow> \<not> reserved_ipv4 [a, b, c, d]"
proof -
  note blk = in_block_upto_16[OF assms(2-4)] and range = block_between[OF assms(2)]
  have "in_block 32 (ipv4_number [a, b, c, d]) (ipv4_number [224,0,0,0], 3) \<longleftrightarrow> (a * 256 + b) div 8192 = 7"
    "in_block 32 (ipv4_number [a, b, c, d]) (ipv4_number [100,64,0,0], 10) \<longleftrightarrow> (a * 256 + b) div 64 = 401"
    "in_block 32 (ipv4_number [a, b, c, d]) (ipv4_number [172,16,0,0], 12) \<longleftrightarrow> (a * 256 + b) div 16 = 2753"
    "in_block 32 (ipv4_number [a, b, c, d]) (ipv4_number [198,18,0,0], 15) \<longleftrightarrow> (a * 256 + b) div 2 = 25353"
    by (simp_all add: blk)
  moreover have "(a * 256 + b) div 64 = 401 \<longleftrightarrow> a = 100 \<and> 64 \<le> b \<and> b < 128"
    "(a * 256 + b) div 16 = 2753 \<longleftrightarrow> a = 172 \<and> 16 \<le> b \<and> b < 32"
    "(a * 256 + b) div 2 = 25353 \<longleftrightarrow> a = 198 \<and> 18 \<le> b \<and> b < 20"
    by (rule range; simp)+
  moreover have "(a * 256 + b) div 8192 = 7 \<longleftrightarrow> 224 \<le> a"
    using assms(1,2) unfolding div_eq_iff_nat[of 8192, simplified] by linarith
  moreover have "b < 128 \<longleftrightarrow> b \<le> 127" "b < 32 \<longleftrightarrow> b \<le> 31" "18 \<le> b \<and> b < 20 \<longleftrightarrow> b = 18 \<or> b = 19" by linarith+
  ultimately have "in_block 32 (ipv4_number [a, b, c, d]) (ipv4_number [224,0,0,0], 3) \<longleftrightarrow> 224 \<le> a"
    "in_block 32 (ipv4_number [a, b, c, d]) (ipv4_number [100,64,0,0], 10) \<longleftrightarrow> a = 100 \<and> 64 \<le> b \<and> b \<le> 127"
    "in_block 32 (ipv4_number [a, b, c, d]) (ipv4_number [172,16,0,0], 12) \<longleftrightarrow> a = 172 \<and> 16 \<le> b \<and> b \<le> 31"
    "in_block 32 (ipv4_number [a, b, c, d]) (ipv4_number [198,18,0,0], 15) \<longleftrightarrow> a = 198 \<and> (b = 18 \<or> b = 19)"
    by simp_all
  note wide = this
  have res: "reserved_ipv4 [a, b, c, d] \<longleftrightarrow>
      a = 0 \<or> a = 10 \<or> a = 127 \<or> 224 \<le> a \<or> (a = 100 \<and> 64 \<le> b \<and> b \<le> 127) \<or> (a = 169 \<and> b = 254) \<or>
      (a = 172 \<and> 16 \<le> b \<and> b \<le> 31) \<or> (a = 192 \<and> b = 168) \<or> (a = 192 \<and> b = 0 \<and> c = 0) \<or> (a = 192 \<and> b = 0 \<and> c = 2) \<or>
      (a = 192 \<and> b = 88 \<and> c = 99) \<or> (a = 198 \<and> (b = 18 \<or> b = 19)) \<or> (a = 198 \<and> b = 51 \<and> c = 100) \<or>
      (a = 203 \<and> b = 0 \<and> c = 113)"
    using assms wide
    by (simp add: reserved_ipv4_def reserved_blocks_def in_block_24 in_block_16 in_block_8)
  have nth: "[a, b, c, d] ! 0 = a" "[a, b, c, d] ! 1 = b" "[a, b, c, d] ! 2 = c" by simp_all
  show ?thesis unfolding res public_ipv4_def nth Let_def by argo
qed

lemma length4: "length xs = 4 \<Longrightarrow> xs = [xs ! 0, xs ! 1, xs ! 2, xs ! 3]"
  by (auto simp: numeral_eq_Suc length_Suc_conv)

lemma ipv4_octets_bounds: "ipv4_octets x = Some os \<Longrightarrow> length os = 4 \<and> list_all (\<lambda>n. n < 256) os"
  by (fastforce simp: ipv4_octets_def Let_def list_all_iff split: if_splits)

lemma public_octets: "ipv4_octets x = Some os \<Longrightarrow> public_ipv4 os \<longleftrightarrow> \<not> reserved_ipv4 os"
proof -
  assume "ipv4_octets x = Some os"
  then have l: "length os = 4" "list_all (\<lambda>n. n < 256) os" using ipv4_octets_bounds by auto
  then have "os = [os ! 0, os ! 1, os ! 2, os ! 3]" using length4 by blast
  then show ?thesis
    using l(2) public_ipv4_reserved[of "os ! 0" "os ! 1" "os ! 2" "os ! 3"] by (simp add: list_all_length l(1))
qed


subsection \<open>Parsing addresses\<close>

lemma hex_value_bound: "hex_value c = Some d \<Longrightarrow> d < 16"
proof -
  have of: "c \<le> c' \<longleftrightarrow> (of_char c :: nat) \<le> of_char c'" for c' by (simp add: less_eq_char_def)
  show "hex_value c = Some d \<Longrightarrow> d < 16"
    by (auto simp: hex_value_def is_digit_def of split: if_splits)
qed

lemma hex_char_value: "d < 16 \<Longrightarrow> hex_value (hex_char d) = Some d"
proof -
  have "list_all (\<lambda>d. hex_value (hex_char d) = Some d) [0 ..< 16]"
    by code_simp
  then show "d < 16 \<Longrightarrow> hex_value (hex_char d) = Some d" by (simp add: list_all_iff)
qed

lemma hex_number_append: "hex_value c = Some d \<Longrightarrow> hex_number (x @ [c]) = hex_number x * 16 + d"
  by (simp add: hex_number_def)

lemma hex_number_bound: "list_all (\<lambda>c. hex_value c \<noteq> None) x \<Longrightarrow> hex_number x < 16 ^ length x"
proof (induction x rule: rev_induct)
  case (snoc c x)
  then obtain d where "hex_value c = Some d" "d < 16" using hex_value_bound by auto
  with snoc show ?case by (simp add: hex_number_append)
qed (simp add: hex_number_def)

lemma hex_text_number: "hex_number (hex_text n) = n"
proof (induction n rule: hex_text.induct)
  case (1 n)
  show ?case
  proof (cases "n < 16")
    case True
    then show ?thesis using hex_number_append[OF hex_char_value, of n "[]"]
      by (simp add: hex_text.simps[of n]) (simp add: hex_number_def)
  next
    case False
    then show ?thesis using 1 by (simp add: hex_text.simps[of n] hex_number_append hex_char_value)
  qed
qed

lemma hex_text_chars: "list_all (\<lambda>c. hex_value c \<noteq> None) (hex_text n)"
  by (induction n rule: hex_text.induct) (simp add: hex_text.simps hex_char_value)

lemma hex_text_nonempty [simp]: "hex_text n \<noteq> []"
  by (simp add: hex_text.simps[of n])

lemma hex_text_length: "n < 16 ^ Suc k \<Longrightarrow> length (hex_text n) \<le> Suc k"
proof (induction k arbitrary: n)
  case 0
  then show ?case by (simp add: hex_text.simps[of n])
next
  case (Suc k)
  show ?case
  proof (cases "n < 16")
    case False
    have "n div 16 < 16 ^ Suc k" using Suc.prems by (simp add: less_mult_imp_div_less)
    with Suc.IH False show ?thesis by (simp add: hex_text.simps[of n])
  qed (simp add: hex_text.simps[of n])
qed

lemma hex_text_not_in: "hex_value c = None \<Longrightarrow> c \<notin> set (hex_text n)"
  using hex_text_chars[of n] by (auto simp: list_all_iff)

lemma hex_text_inj: "hex_text n = hex_text m \<longleftrightarrow> n = m"
  by (metis hex_text_number)

lemma parse_group_hex: "n < 65536 \<Longrightarrow> parse_group (hex_text n) = Some n"
  using hex_text_chars[of n] hex_text_length[of n 3] by (simp add: parse_group_def hex_text_number)

lemma parse_group_bound: "parse_group g = Some n \<Longrightarrow> n < 65536"
proof -
  assume a: "parse_group g = Some n"
  then have "n < 16 ^ length g" "length g \<le> 4" using hex_number_bound by (auto simp: parse_group_def split: if_splits)
  moreover have "(16::nat) ^ length g \<le> 16 ^ 4" using \<open>length g \<le> 4\<close> by (intro power_increasing) simp_all
  ultimately show "n < 65536" by simp
qed

lemma collect_Some: "collect (map f xs) = Some ys \<Longrightarrow> list_all (\<lambda>y. \<exists>x. f x = Some y) ys"
proof (induction xs arbitrary: ys)
  case (Cons x xs)
  then show ?case by (cases "f x") auto
qed simp

lemma collect_map_Some: "list_all (\<lambda>x. f x = Some (g x)) xs \<Longrightarrow> collect (map f xs) = Some (map g xs)"
  by (induction xs) auto

lemma parse_groups_bound: "parse_groups p = Some gs \<Longrightarrow> list_all (\<lambda>g. g < 65536) gs"
  using collect_Some[of parse_group "split_on (CHR '':'') p" gs] parse_group_bound
  by (auto simp: parse_groups_def list_all_iff split: if_splits)

lemma ipv6_groups_bounds: "ipv6_groups x = Some gs \<Longrightarrow> length gs = 8 \<and> list_all (\<lambda>g. g < 65536) gs"
  by (auto simp: ipv6_groups_def list_all_iff split: option.splits list.splits if_splits
      dest!: parse_groups_bound)

text \<open>The text of a list of groups, as \<open>clientKey\<close> and the dotted form write them.\<close>

definition groups_text :: "nat list \<Rightarrow> string" where
  "groups_text gs = join_with '':'' (map hex_text gs)"

lemma colon_no_hex [simp]: "hex_value (CHR '':'') = None" "hex_value (CHR ''.'') = None" "hex_value (CHR ''%'') = None"
  by code_simp+

lemma set_join_with: "set (join_with sep xs) \<subseteq> (\<Union>x \<in> set xs. set x) \<union> set sep"
  by (induction sep xs rule: join_with.induct) auto

lemma groups_text_chars: "c \<in> set (groups_text gs) \<Longrightarrow> c = CHR '':'' \<or> hex_value c \<noteq> None"
  using set_join_with[of "'':''" "map hex_text gs"] hex_text_not_in by (fastforce simp: groups_text_def)

lemma groups_text_Nil [simp]: "groups_text [] = []"
  by (simp add: groups_text_def)

lemma groups_text_empty [simp]: "groups_text gs = [] \<longleftrightarrow> gs = []"
  by (cases gs; cases "tl gs") (auto simp: groups_text_def)

lemma parse_groups_text: "list_all (\<lambda>g. g < 65536) gs \<Longrightarrow> parse_groups (groups_text gs) = Some gs"
proof (cases "gs = []")
  case False
  assume b: "list_all (\<lambda>g. g < 65536) gs"
  have "split_on (CHR '':'') (groups_text gs) = map hex_text gs"
    unfolding groups_text_def using False hex_text_not_in by (intro split_join) (auto simp: list_all_iff)
  moreover have "collect (map parse_group (map hex_text gs)) = Some (map (\<lambda>g. g) gs)"
    unfolding map_map comp_def by (rule collect_map_Some) (use b in \<open>simp add: list_all_iff parse_group_hex\<close>)
  ultimately show ?thesis using False by (simp add: parse_groups_def)
qed (simp add: parse_groups_def)

text \<open>A text without two equal separators in a row stays whole.\<close>

fun no_double :: "char \<Rightarrow> string \<Rightarrow> bool" where
  "no_double c (x # y # xs) \<longleftrightarrow> \<not> (x = c \<and> y = c) \<and> no_double c (y # xs)"
| "no_double c _ = True"

lemma split_twice_one: "no_double c x \<Longrightarrow> split_twice c x = [x]"
  by (induction c x rule: no_double.induct) auto

lemma split_twice_append:
  "no_double c x \<Longrightarrow> (x = [] \<or> List.last x \<noteq> c) \<Longrightarrow> split_twice c (x @ c # c # y) = x # split_twice c y"
  by (induction c x rule: no_double.induct) (auto split: if_splits)

lemma no_double_append:
  "no_double c x \<Longrightarrow> no_double c y \<Longrightarrow> (x = [] \<or> List.last x \<noteq> c \<or> y = [] \<or> hd y \<noteq> c) \<Longrightarrow> no_double c (x @ y)"
  by (induction c x rule: no_double.induct; cases y; auto)

lemma no_double_free: "c \<notin> set x \<Longrightarrow> no_double c x"
  by (induction c x rule: no_double.induct) auto

lemma groups_text_shape:
  "no_double (CHR '':'') (groups_text gs) \<and> (gs \<noteq> [] \<longrightarrow> List.last (groups_text gs) \<noteq> CHR '':'' \<and> hd (groups_text gs) \<noteq> CHR '':'')"
proof (induction gs)
  case (Cons g gs)
  have g: "CHR '':'' \<notin> set (hex_text g)" by (rule hex_text_not_in) simp
  then have h: "no_double (CHR '':'') (hex_text g)" "List.last (hex_text g) \<noteq> CHR '':''" "hd (hex_text g) \<noteq> CHR '':''"
    using no_double_free by (auto simp del: List.last.simps dest: last_in_set hd_in_set) (metis hd_in_set hex_text_nonempty last_in_set)+
  show ?case
  proof (cases "gs = []")
    case True
    with h show ?thesis by (simp add: groups_text_def)
  next
    case False
    then have eq: "groups_text (g # gs) = hex_text g @ CHR '':'' # groups_text gs"
      by (cases gs) (simp_all add: groups_text_def)
    have "no_double (CHR '':'') (CHR '':'' # groups_text gs)"
      using Cons False by (cases "groups_text gs") auto
    with h Cons False show ?thesis by (auto simp: eq intro!: no_double_append)
  qed
qed simp


lemma text_no_dots:
  assumes "\<And>c. c \<in> set x \<Longrightarrow> c = CHR '':'' \<or> hex_value c \<noteq> None"
  shows "cut_zone x = x" "dotted_tail x = Some x"
proof -
  have "CHR ''%'' \<notin> set x" "CHR ''.'' \<notin> set x" using assms by fastforce+
  then show "cut_zone x = x" by (auto simp: cut_zone_def takeWhile_eq_all_conv)
  have "set (after_last_colon x) \<subseteq> set x" by (auto simp: after_last_colon_def dest: set_takeWhileD)
  with \<open>CHR ''.'' \<notin> set x\<close> show "dotted_tail x = Some x" by (auto simp: dotted_tail_def Let_def)
qed

text \<open>The parser of IPv6 addresses reads every canonical text back: eight groups in hexadecimal,
  and any shorter list of groups with a double colon somewhere in it, which stands for the missing
  zeros.\<close>

theorem ipv6_text_round_trip:
  assumes "list_all (\<lambda>g. g < 65536) xs" "list_all (\<lambda>g. g < 65536) ys"
  shows "ipv6_groups (if length xs + length ys = 8 then groups_text (xs @ ys)
           else groups_text xs @ ''::'' @ groups_text ys) =
    (if length xs + length ys \<le> 8 then Some (xs @ replicate (8 - length xs - length ys) 0 @ ys) else None)"
proof (cases "length xs + length ys = 8")
  case True
  let ?x = "groups_text (xs @ ys)"
  have ch: "c = CHR '':'' \<or> hex_value c \<noteq> None" if "c \<in> set ?x" for c
    using groups_text_chars that by blast
  have "split_twice (CHR '':'') ?x = [?x]" using groups_text_shape by (intro split_twice_one) blast
  moreover have "parse_groups ?x = Some (xs @ ys)" using assms by (intro parse_groups_text) simp
  moreover have "cut_zone ?x = ?x" "dotted_tail ?x = Some ?x" by (rule text_no_dots, erule ch)+
  ultimately show ?thesis using True by (simp add: ipv6_groups_def)
next
  case False
  let ?x = "groups_text xs @ ''::'' @ groups_text ys"
  have ch: "c = CHR '':'' \<or> hex_value c \<noteq> None" if "c \<in> set ?x" for c
    using groups_text_chars[of c xs] groups_text_chars[of c ys] that by auto
  have "split_twice (CHR '':'') (groups_text ys) = [groups_text ys]"
    using groups_text_shape by (intro split_twice_one) blast
  then have "split_twice (CHR '':'') ?x = [groups_text xs, groups_text ys]"
    using groups_text_shape[of xs] split_twice_append[of "CHR '':''" "groups_text xs" "groups_text ys"]
    by (cases "xs = []") auto
  moreover have "cut_zone ?x = ?x" "dotted_tail ?x = Some ?x" by (rule text_no_dots, erule ch)+
  ultimately show ?thesis
    using False parse_groups_text[OF assms(1)] parse_groups_text[OF assms(2)] by (auto simp: ipv6_groups_def)
qed

lemma replicate_eq_Cons: "replicate 5 (0::nat) = [0, 0, 0, 0, 0]"
  by code_simp

theorem ipv6_text_round_trip_witness:
  "ipv6_groups (groups_text [0x2001, 0xdb8] @ ''::'' @ groups_text [1]) = Some [0x2001, 0xdb8, 0, 0, 0, 0, 0, 1]"
  using ipv6_text_round_trip[of "[0x2001, 0xdb8]" "[1]"] by (simp add: replicate_eq_Cons)

subsection \<open>Public addresses\<close>

lemma and_high_bits: "(x::nat) AND push_bit n (mask k) = push_bit n (take_bit k (drop_bit n x))"
proof (rule bit_eqI)
  fix m
  show "bit (x AND push_bit n (mask k)) m = bit (push_bit n (take_bit k (drop_bit n x))) m"
    by (cases "n \<le> m") (simp_all add: bit_push_bit_iff bit_and_iff bit_mask_iff bit_take_bit_iff bit_drop_bit_eq conj_commute)
qed

lemma high3: "x < 65536 \<Longrightarrow> (x::nat) AND 0xe000 = 0x2000 \<longleftrightarrow> x div 0x2000 = 1"
proof -
  assume x: "x < 65536"
  have m: "(0xe000::nat) = push_bit 13 (mask 3)" by (simp add: push_bit_eq_mult mask_eq_exp_minus_1)
  have "x div 8192 < 8" using x by simp
  then show ?thesis
    unfolding m and_high_bits by (simp add: push_bit_eq_mult take_bit_eq_mod drop_bit_eq_div)
qed

lemma high7: "x < 65536 \<Longrightarrow> (x::nat) AND 0xfe00 = 0 \<longleftrightarrow> x div 0x200 = 0"
proof -
  assume x: "x < 65536"
  have m: "(0xfe00::nat) = push_bit 9 (mask 7)" by (simp add: push_bit_eq_mult mask_eq_exp_minus_1)
  have "x div 512 < 128" using x by simp
  then show ?thesis
    unfolding m and_high_bits by (simp add: push_bit_eq_mult take_bit_eq_mod drop_bit_eq_div)
qed

text \<open>The reserved blocks of 2000::/3: 2001::/23, 2001:db8::/32 and 2002::/16.\<close>

definition in_block6 :: "nat list \<Rightarrow> nat list \<times> nat \<Rightarrow> bool" where
  "in_block6 gs blk = in_block 128 (ipv6_number gs) (ipv6_number (fst blk), snd blk)"

definition reserved_ipv6 :: "(nat list \<times> nat) list" where
  "reserved_ipv6 = [([0x2001,0,0,0,0,0,0,0], 23), ([0x2001,0xdb8,0,0,0,0,0,0], 32), ([0x2002,0,0,0,0,0,0,0], 16)]"

definition mapped_ipv4 :: "(nat list \<times> nat) list" where
  "mapped_ipv4 = [([0,0,0,0,0,0xffff,0,0], 96), ([0x64,0xff9b,0,0,0,0,0,0], 96)]"

text \<open>The first \<open>k\<close> groups of an address are its number without the last \<open>16 * (8 - k)\<close> bits.\<close>

lemma foldl_groups_append: "foldl (\<lambda>n g. n * 65536 + g) a (xs @ [x]) = foldl (\<lambda>n g. n * 65536 + g) a xs * 65536 + (x::nat)"
  by simp

lemma ipv6_number_prefix:
  assumes "list_all (\<lambda>g. g < 65536) ys"
  shows "ipv6_number (xs @ ys) div 2 ^ (16 * length ys) = ipv6_number xs"
  using assms
proof (induction ys rule: rev_induct)
  case (snoc y ys)
  have "ipv6_number (xs @ ys @ [y]) div 2 ^ (16 * length (ys @ [y])) = ipv6_number (xs @ ys @ [y]) div 65536 div 2 ^ (16 * length ys)"
    by (simp flip: div_mult2_eq add: power_add)
  also have "ipv6_number (xs @ ys @ [y]) div 65536 = ipv6_number (xs @ ys)"
    using snoc.prems by (simp add: ipv6_number_def)
  finally show ?case using snoc by simp
qed simp

lemma ipv6_number_inj:
  assumes "length xs = length ys" "list_all (\<lambda>g. g < 65536) xs" "list_all (\<lambda>g. g < 65536) ys"
  shows "ipv6_number xs = ipv6_number ys \<longleftrightarrow> xs = ys"
  using assms
proof (induction xs arbitrary: ys rule: rev_induct)
  case (snoc x xs)
  obtain y' y where ys: "ys = y' @ [y]" using snoc.prems(1) by (metis append_butlast_last_id length_0_conv length_append_singleton nat.distinct(1))
  show ?case
    using snoc.IH[of y'] snoc.prems digit_split[of x 65536 y "ipv6_number xs" "ipv6_number y'"]
    by (auto simp: ys ipv6_number_def)
qed (simp add: ipv6_number_def)

lemma in_block6_groups:
  assumes "length gs = 8" "list_all (\<lambda>g. g < 65536) gs" "length base = 8" "list_all (\<lambda>g. g < 65536) base" "k \<le> 8"
  shows "in_block6 gs (base, 16 * k) \<longleftrightarrow> take k gs = take k base"
proof -
  have n: "ipv6_number xs div 2 ^ (16 * (8 - k)) = ipv6_number (take k xs)"
    if "length xs = 8" "list_all (\<lambda>g. g < 65536) xs" for xs
    using ipv6_number_prefix[of "drop k xs" "take k xs"] that by (simp add: list_all_iff) (meson in_set_dropD)
  have e: "(128::nat) - 16 * k = 16 * (8 - k)" by simp
  show ?thesis
    unfolding in_block6_def in_block_def fst_conv snd_conv e
    using assms n[OF assms(1,2)] n[OF assms(3,4)]
    by (subst ipv6_number_inj[symmetric]) (auto simp: list_all_iff dest: in_set_takeD)
qed


lemma length8: "length gs = 8 \<Longrightarrow> gs = [gs ! 0, gs ! 1, gs ! 2, gs ! 3, gs ! 4, gs ! 5, gs ! 6, gs ! 7]"
  by (auto simp: numeral_eq_Suc length_Suc_conv)

lemma embedded_bounds:
  assumes "length gs = 8" "list_all (\<lambda>g. g < 65536) gs"
  shows "public_ipv4 (embedded_ipv4 gs) \<longleftrightarrow> \<not> reserved_ipv4 (embedded_ipv4 gs)"
proof -
  have "gs ! 6 < 65536" "gs ! 7 < 65536" using assms by (simp_all add: list_all_length)
  moreover have "x AND 255 < 256" for x :: nat
    using take_bit_nat_less_exp[of 8 x] by (simp add: take_bit_eq_mask mask_eq_exp_minus_1)
  ultimately show ?thesis
    unfolding embedded_ipv4_def by (intro public_ipv4_reserved) (simp_all add: drop_bit_eq_div)
qed

lemma blocks6:
  assumes "length gs = 8" "list_all (\<lambda>g. g < 65536) gs"
  shows "in_block6 gs ([0x2001,0,0,0,0,0,0,0], 23) \<longleftrightarrow> gs ! 0 = 0x2001 \<and> gs ! 1 AND 0xfe00 = 0"
    and "in_block6 gs ([0x2000,0,0,0,0,0,0,0], 3) \<longleftrightarrow> gs ! 0 AND 0xe000 = 0x2000"
proof -
  note eq = length8[OF assms(1)]
  have b: "gs ! 0 < 65536" "gs ! 1 < 65536" "list_all (\<lambda>g. g < 65536) (drop 2 gs)" "list_all (\<lambda>g. g < 65536) (drop 1 gs)"
    using assms by (auto simp: list_all_length)
  have n2: "ipv6_number gs div 2 ^ 96 = gs ! 0 * 65536 + gs ! 1"
    using ipv6_number_prefix[OF b(3), of "take 2 gs"] assms(1) by (subst (asm) (4) eq) (simp add: ipv6_number_def)
  have n1: "ipv6_number gs div 2 ^ 112 = gs ! 0"
    using ipv6_number_prefix[OF b(4), of "take 1 gs"] assms(1) by (subst (asm) (4) eq) (simp add: ipv6_number_def)
  have "ipv6_number gs div 2 ^ 105 = ipv6_number gs div 2 ^ 96 div 512" by (simp flip: div_mult2_eq)
  also have "\<dots> = gs ! 0 * 128 + gs ! 1 div 512"
  proof -
    have "(gs ! 0 * 65536 + gs ! 1) div 512 = ((gs ! 0 * 128) * 512 + gs ! 1) div 512" by (simp add: mult.assoc)
    then show ?thesis unfolding n2 by simp
  qed
  finally have "in_block6 gs ([0x2001,0,0,0,0,0,0,0], 23) \<longleftrightarrow> gs ! 0 * 128 + gs ! 1 div 512 = 0x2001 * 128 + 0"
    by (simp add: in_block6_def in_block_def ipv6_number_def)
  also have "\<dots> \<longleftrightarrow> gs ! 0 = 0x2001 \<and> gs ! 1 div 512 = 0"
    by (rule digit_split) (use b(2) in simp_all)
  finally show "in_block6 gs ([0x2001,0,0,0,0,0,0,0], 23) \<longleftrightarrow> gs ! 0 = 0x2001 \<and> gs ! 1 AND 0xfe00 = 0"
    using high7[OF b(2)] by simp
  have "ipv6_number gs div 2 ^ 125 = ipv6_number gs div 2 ^ 112 div 8192" by (simp flip: div_mult2_eq)
  then show "in_block6 gs ([0x2000,0,0,0,0,0,0,0], 3) \<longleftrightarrow> gs ! 0 AND 0xe000 = 0x2000"
    unfolding n1 using high3[OF b(1)] by (simp add: in_block6_def in_block_def ipv6_number_def)
qed

text \<open>C40: What the relay may connect to while it confirms a registration. An IPv4 address is public
  exactly when no reserved block contains it. An IPv6 address that carries an IPv4 address, mapped or
  NAT64, is judged by that one; any other must lie in 2000::/3 and in none of the reserved blocks
  there. Nothing else is public.\<close>

theorem public_address_blocks:
  "is_public_address is_ip x \<longleftrightarrow>
     (is_ip x = 4 \<and> (case ipv4_octets x of None \<Rightarrow> False | Some os \<Rightarrow> \<not> reserved_ipv4 os)) \<or>
     (is_ip x = 6 \<and> (case ipv6_groups x of None \<Rightarrow> False
        | Some gs \<Rightarrow> if list_ex (in_block6 gs) mapped_ipv4 then \<not> reserved_ipv4 (embedded_ipv4 gs)
                     else in_block6 gs ([0x2000,0,0,0,0,0,0,0], 3) \<and> \<not> list_ex (in_block6 gs) reserved_ipv6))"
proof (cases "is_ip x = 6")
  case False
  then show ?thesis using public_octets by (auto simp: is_public_address_def split: option.split)
next
  case True
  show ?thesis
  proof (cases "ipv6_groups x")
    case None
    with True show ?thesis by (simp add: is_public_address_def)
  next
    case (Some gs)
    then have gs: "length gs = 8" "list_all (\<lambda>g. g < 65536) gs" using ipv6_groups_bounds by auto
    have k: "in_block6 gs (base, 16 * k) \<longleftrightarrow> take k gs = take k base" if "length base = 8" "list_all (\<lambda>g. g < 65536) base" "k \<le> 8" for base k
      using in_block6_groups[OF gs that] .
    have m: "in_block6 gs ([0,0,0,0,0,0xffff,0,0], 96) \<longleftrightarrow>
        gs ! 0 = 0 \<and> gs ! 1 = 0 \<and> gs ! 2 = 0 \<and> gs ! 3 = 0 \<and> gs ! 4 = 0 \<and> gs ! 5 = 0xffff"
      "in_block6 gs ([0x64,0xff9b,0,0,0,0,0,0], 96) \<longleftrightarrow>
        gs ! 0 = 0x64 \<and> gs ! 1 = 0xff9b \<and> gs ! 2 = 0 \<and> gs ! 3 = 0 \<and> gs ! 4 = 0 \<and> gs ! 5 = 0"
      using k[of "[0,0,0,0,0,0xffff,0,0]" 6] k[of "[0x64,0xff9b,0,0,0,0,0,0]" 6]
      by (simp_all, (subst length8[OF gs(1)], simp)+)
    have r: "in_block6 gs ([0x2001,0xdb8,0,0,0,0,0,0], 32) \<longleftrightarrow> gs ! 0 = 0x2001 \<and> gs ! 1 = 0xdb8"
      "in_block6 gs ([0x2002,0,0,0,0,0,0,0], 16) \<longleftrightarrow> gs ! 0 = 0x2002"
      using k[of "[0x2001,0xdb8,0,0,0,0,0,0]" 2] k[of "[0x2002,0,0,0,0,0,0,0]" 1]
      by (simp_all, (subst length8[OF gs(1)], simp)+)
    show ?thesis
      using True Some m r blocks6[OF gs] embedded_bounds[OF gs]
      by (simp add: is_public_address_def Let_def mapped_ipv4_def reserved_ipv6_def)
  qed
qed


subsection \<open>Base URLs the relay accepts\<close>

lemma lower_char_host: "is_host_char c \<Longrightarrow> is_host_char (lower_char c) \<and> \<not> is_upper (lower_char c)"
proof -
  have of: "c \<le> c' \<longleftrightarrow> (of_char c :: nat) \<le> of_char c'" for c c' :: char by (simp add: less_eq_char_def)
  have ch: "of_char (char_of (n :: nat) :: char) = n" if "n < 256" for n using that by simp
  show "is_host_char c \<Longrightarrow> is_host_char (lower_char c) \<and> \<not> is_upper (lower_char c)"
    by (auto simp: lower_char_def is_upper_def is_host_char_def is_letter_def is_lower_def of ch)
qed

lemma match_port_text:
  "match_port x = (p, path) \<Longrightarrow> (p = None \<and> x = path) \<or> (p = Some 443 \<and> x = '':443'' @ path) \<or> (p = Some 8443 \<and> x = '':8443'' @ path)"
  by (auto simp: match_port_def starts_with_iff split: if_splits)

lemma match_base_url_text:
  assumes "match_base_url x = Some (host, port, path)"
  shows "\<exists>p. x = ''https://'' @ host @ p @ path \<and> host \<noteq> [] \<and> list_all is_host_char host \<and> match_path path \<and>
    (port, p) \<in> {(None, []), (Some 443, '':443''), (Some 8443, '':8443'')}"
proof -
  obtain rest where x: "x = ''https://'' @ rest"
    using assms by (auto simp: match_base_url_def starts_with_iff split: if_splits)
  obtain h d where hd: "takeWhile is_host_char rest = h" "dropWhile is_host_char rest = d" "rest = h @ d"
    using takeWhile_dropWhile_id[of is_host_char rest] by metis
  obtain q pth where q: "match_port d = (q, pth)" by fastforce
  have "host = h" "port = q" "path = pth" "host \<noteq> []" "match_path path"
    using assms q by (auto simp: x match_base_url_def starts_with_def Let_def hd(1,2) split: if_splits)
  moreover have "list_all is_host_char h" using hd(1) by (auto simp: list_all_iff dest: set_takeWhileD)
  ultimately show ?thesis using match_port_text[OF q] by (auto simp: x hd(3))
qed

text \<open>A base URL the relay accepts is what the server typed: https, a host, no port or 443 or
  8443, and a path, at most 200 characters. The parsed parts are those of the text, with the host in
  lower case; the host has at least two labels, each of 1 to 63 characters that neither starts nor
  ends with a hyphen, the last one is no number, so it is no IPv4 address, it ends in none of the
  local suffixes, and no path segment is a dot or two.\<close>

theorem accepted_base_url:
  assumes "parse_base_url x = Some u"
  shows "length x \<le> 200 \<and>
    (\<exists>host port. x = ''https://'' @ host @ port @ pu_path u \<and> pu_host u = lower_text host \<and>
       (port, pu_port u) \<in> {([], 443), ('':443'', 443), ('':8443'', 8443)}) \<and>
    list_all (\<lambda>c. is_host_char c \<and> \<not> is_upper c) (pu_host u) \<and>
    2 \<le> length (split_on (CHR ''.'') (pu_host u)) \<and> list_all is_good_label (split_on (CHR ''.'') (pu_host u)) \<and>
    \<not> list_all is_digit (List.last (split_on (CHR ''.'') (pu_host u))) \<and>
    \<not> list_ex (\<lambda>s. ends_with s (pu_host u)) blocked_suffixes \<and>
    match_path (pu_path u) \<and> \<not> list_ex (\<lambda>s. s = ''.'' \<or> s = ''..'') (split_on (CHR ''/'') (pu_path u))"
proof -
  obtain host port path where m: "match_base_url x = Some (host, port, path)"
    and len: "length x \<le> 200" and u: "u = \<lparr>pu_host = lower_text host, pu_port = (case port of None \<Rightarrow> 443 | Some p \<Rightarrow> p), pu_path = path\<rparr>"
    and segs: "\<not> list_ex (\<lambda>s. s = ''.'' \<or> s = ''..'') (split_on (CHR ''/'') path)"
    and labels: "\<not> length (split_on (CHR ''.'') (lower_text host)) < 2" "list_all is_good_label (split_on (CHR ''.'') (lower_text host))"
      "\<not> list_all is_digit (List.last (split_on (CHR ''.'') (lower_text host)))"
      "\<not> list_ex (\<lambda>s. ends_with s (lower_text host)) blocked_suffixes"
    using assms unfolding parse_base_url_def Let_def by (fastforce split: if_splits option.splits prod.splits)
  obtain p where p: "x = ''https://'' @ host @ p @ path" "list_all is_host_char host" "match_path path"
    "(port, p) \<in> {(None, []), (Some 443, '':443''), (Some 8443, '':8443'')}"
    using match_base_url_text[OF m] by blast
  have "list_all (\<lambda>c. is_host_char c \<and> \<not> is_upper c) (lower_text host)"
    using p(2) lower_char_host by (simp add: lower_text_def list_all_iff)
  moreover have "\<exists>host' port'. x = ''https://'' @ host' @ port' @ path \<and> lower_text host = lower_text host' \<and>
      (port', case port of None \<Rightarrow> 443 | Some p \<Rightarrow> p) \<in> {([], 443), ('':443'', 443), ('':8443'', 8443)}"
    using p(1,4) by (intro exI[of _ host] exI[of _ p]) auto
  ultimately show ?thesis using len segs labels p(3) by (simp add: u not_less)
qed

theorem accepted_base_url_witness:
  "map_option pu_host (parse_base_url ''https://Push.Example.com:8443/alarm'') = Some ''push.example.com'' \<and>
   length ''https://Push.Example.com:8443/alarm'' \<le> 200"
proof -
  have u: "parse_base_url ''https://Push.Example.com:8443/alarm'' = Some \<lparr>pu_host = ''push.example.com'', pu_port = 8443, pu_path = ''/alarm''\<rparr>"
    by code_simp
  from accepted_base_url[OF u] u show ?thesis by simp
qed

end
