(* ===== verification/Limits.thy ===== *)
theory Limits
  imports Address "HOL-Library.AList"
begin

section \<open>Rate limits and body limits\<close>

text \<open>
  \<open>src/src/rate-limit.ts\<close>, \<open>bearer.ts\<close> and \<open>body-limit.ts\<close>. A limiter counts calls per key on the server's
  clock. A \<open>Map\<close> of JavaScript is an association list with distinct keys in insertion order.
\<close>

subsection \<open>Rolling windows\<close>

record rolling =
  rl_hits :: "(string \<times> seconds list) list"
  rl_swept_at :: seconds

record rolling_config =
  rc_limit :: nat
  rc_window :: seconds
  rc_sweep_above :: nat

definition fresh_rolling :: rolling where
  "fresh_rolling = \<lparr>rl_hits = [], rl_swept_at = 0\<rparr>"

definition live_hits :: "rolling_config \<Rightarrow> seconds \<Rightarrow> (string \<times> seconds list) list \<Rightarrow> string \<Rightarrow> seconds list" where
  "live_hits cfg now hits key =
     filter (\<lambda>at. now - rc_window cfg < at) (case map_of hits key of None \<Rightarrow> [] | Some ts \<Rightarrow> ts)"

definition sweep_hits :: "rolling_config \<Rightarrow> seconds \<Rightarrow> rolling \<Rightarrow> rolling" where
  "sweep_hits cfg now st =
     (if rc_window cfg \<le> now - rl_swept_at st \<or> (rc_sweep_above cfg < length (rl_hits st) \<and> now \<noteq> rl_swept_at st)
      then \<lparr>rl_hits = filter (\<lambda>(other, ts). list_ex (\<lambda>at. now - rc_window cfg < at) ts) (rl_hits st), rl_swept_at = now\<rparr>
      else st)"

definition rolling_allowed :: "rolling_config \<Rightarrow> seconds \<Rightarrow> string \<Rightarrow> rolling \<Rightarrow> rolling \<times> bool" where
  "rolling_allowed cfg now key st =
     (let st' = sweep_hits cfg now st in (st', length (live_hits cfg now (rl_hits st') key) < rc_limit cfg))"

definition rolling_record :: "rolling_config \<Rightarrow> seconds \<Rightarrow> string \<Rightarrow> rolling \<Rightarrow> rolling" where
  "rolling_record cfg now key st =
     st\<lparr>rl_hits := AList.update key (live_hits cfg now (rl_hits st) key @ [now]) (rl_hits st)\<rparr>"

definition rolling_allow :: "rolling_config \<Rightarrow> seconds \<Rightarrow> string \<Rightarrow> rolling \<Rightarrow> rolling \<times> bool" where
  "rolling_allow cfg now key st =
     (case rolling_allowed cfg now key st of (st', ok) \<Rightarrow> if ok then (rolling_record cfg now key st', True) else (st', False))"

subsection \<open>Daily counts\<close>

record daily =
  dl_day :: int
  dl_counts :: "(string \<times> nat) list"

record daily_config =
  dc_limit :: nat
  dc_max_keys :: nat

definition fresh_daily :: daily where
  "fresh_daily = \<lparr>dl_day = -1, dl_counts = []\<rparr>"

definition roll_day :: "seconds \<Rightarrow> daily \<Rightarrow> daily" where
  "roll_day now st = (if now div 86400 \<noteq> dl_day st then \<lparr>dl_day = now div 86400, dl_counts = []\<rparr> else st)"

definition daily_allowed :: "daily_config \<Rightarrow> seconds \<Rightarrow> string \<Rightarrow> daily \<Rightarrow> daily \<times> bool" where
  "daily_allowed cfg now key st =
     (let st' = roll_day now st
      in (st', case map_of (dl_counts st') key of None \<Rightarrow> length (dl_counts st') < dc_max_keys cfg | Some n \<Rightarrow> n < dc_limit cfg))"

definition daily_record :: "seconds \<Rightarrow> string \<Rightarrow> daily \<Rightarrow> daily" where
  "daily_record now key st =
     (let st' = roll_day now st
      in st'\<lparr>dl_counts := AList.update key (Suc (case map_of (dl_counts st') key of None \<Rightarrow> 0 | Some n \<Rightarrow> n)) (dl_counts st')\<rparr>)"

subsection \<open>Who the client is\<close>

datatype proxy_trust = TrustNobody | TrustCloudflare | TrustHops nat

text \<open>The request as the limits see it: the peer of the socket, and its headers by lower-case name.\<close>

record client_source =
  cs_peer :: "string option"
  cs_header :: "string \<Rightarrow> string option"

definition forwarded_hops :: "client_source \<Rightarrow> string list" where
  "forwarded_hops c =
     filter (\<lambda>hop. hop \<noteq> []) (map trim (split_on (CHR '','') (case cs_header c ''x-forwarded-for'' of None \<Rightarrow> [] | Some x \<Rightarrow> x)))"

text \<open>\<open>hops[hops.length - trust]\<close> is undefined outside the list.\<close>

definition client_ip :: "(string \<Rightarrow> nat) \<Rightarrow> proxy_trust \<Rightarrow> client_source \<Rightarrow> string" where
  "client_ip is_ip trust c =
     (let peer = (case cs_peer c of None \<Rightarrow> ''anonymous'' | Some p \<Rightarrow> p)
      in case trust of
           TrustNobody \<Rightarrow> peer
         | TrustCloudflare \<Rightarrow>
             (case cs_header c ''cf-connecting-ip'' of None \<Rightarrow> peer
              | Some x \<Rightarrow> if is_ip (trim x) \<noteq> 0 then trim x else peer)
         | TrustHops n \<Rightarrow>
             (let hops = forwarded_hops c
              in if 1 \<le> n \<and> n \<le> length hops
                 then (if is_ip (hops ! (length hops - n)) \<noteq> 0 then hops ! (length hops - n) else peer)
                 else peer))"

definition client_key :: "(string \<Rightarrow> nat) \<Rightarrow> (string \<Rightarrow> string) \<Rightarrow> string \<Rightarrow> string" where
  "client_key is_ip sha address =
     (let text = trim address; hashed = ''h:'' @ take 32 (sha text)
      in if is_ip text = 4 then text
         else if is_ip text = 6
         then (case ipv6_groups text of
                 Some gs \<Rightarrow>
                   if list_all (\<lambda>g. g = 0) (take 5 gs) \<and> gs ! 5 = 0xffff
                   then join_with ''.'' (map nat_text (embedded_ipv4 gs))
                   else ''v6:'' @ groups_text (take 4 gs)
               | None \<Rightarrow> hashed)
         else hashed)"

text \<open>\<open>makeRateLimiter\<close>: the limiter of the publish routes, one call of the middleware.\<close>

definition publish_limit_config :: "nat \<Rightarrow> rolling_config" where
  "publish_limit_config limit = \<lparr>rc_limit = limit, rc_window = 60, rc_sweep_above = 10000\<rparr>"

definition publish_limiter ::
  "(string \<Rightarrow> nat) \<Rightarrow> (string \<Rightarrow> string) \<Rightarrow> nat \<Rightarrow> proxy_trust \<Rightarrow> seconds \<Rightarrow> client_source \<Rightarrow> rolling \<Rightarrow> rolling \<times> bool" where
  "publish_limiter is_ip sha limit trust now c st =
     rolling_allow (publish_limit_config limit) now (client_key is_ip sha (client_ip is_ip trust c)) st"

subsection \<open>Shared secrets\<close>

text \<open>\<open>bearerSecretMatches\<close>. The pattern's dot matches no line break, and a header, which is
  Latin-1 text, has only these two. The hash is a parameter; two digests are compared as a whole.\<close>

definition no_line_break :: "string \<Rightarrow> bool" where
  "no_line_break x \<longleftrightarrow> CHR 0x0A \<notin> set x \<and> CHR 0x0D \<notin> set x"

definition bearer_secret_matches :: "(string \<Rightarrow> string) \<Rightarrow> string option \<Rightarrow> string \<Rightarrow> bool" where
  "bearer_secret_matches sha header secret =
     (let h = (case header of None \<Rightarrow> [] | Some x \<Rightarrow> x);
          supplied = (if starts_with ''Bearer '' h \<and> drop 7 h \<noteq> [] \<and> no_line_break (drop 7 h) then drop 7 h else [])
      in if secret = [] \<or> supplied = [] then False else sha supplied = sha secret)"

subsection \<open>Bounded bodies\<close>

text \<open>\<open>readBytes\<close>: a body is the list of the chunks its stream yields; the declared length is what
  \<open>Number\<close> makes of the header, \<^term>\<open>None\<close> without one or when it is no number. The second result is
  how many chunks were taken from the stream.\<close>

fun read_chunks :: "nat \<Rightarrow> nat \<Rightarrow> string \<Rightarrow> string list \<Rightarrow> string option \<times> nat" where
  "read_chunks max_bytes read got [] = (Some got, 0)"
| "read_chunks max_bytes read got (c # cs) =
     (if max_bytes < read + length c then (None, 1)
      else (case read_chunks max_bytes (read + length c) (got @ c) cs of (res, n) \<Rightarrow> (res, Suc n)))"

definition read_bytes :: "nat \<Rightarrow> int option \<Rightarrow> string list option \<Rightarrow> string option \<times> nat" where
  "read_bytes max_bytes declared body =
     (if (case declared of None \<Rightarrow> False | Some n \<Rightarrow> int max_bytes < n) then (None, 0)
      else (case body of None \<Rightarrow> (Some [], 0) | Some chunks \<Rightarrow> read_chunks max_bytes 0 [] chunks))"


subsection \<open>Creating anonymous accounts\<close>

text \<open>The guard of \<open>POST /relay/v1/devices\<close> without credentials (\<open>src/src/tier/router.ts\<close>): a minute window
  and a daily count, both recorded only when both allow the call.\<close>

definition create_minute :: rolling_config where
  "create_minute = \<lparr>rc_limit = 20, rc_window = 60, rc_sweep_above = 10000\<rparr>"

definition create_day :: daily_config where
  "create_day = \<lparr>dc_limit = 200, dc_max_keys = 100000\<rparr>"

definition creation_guard :: "seconds \<Rightarrow> string \<Rightarrow> rolling \<times> daily \<Rightarrow> (rolling \<times> daily) \<times> bool" where
  "creation_guard now client st =
     (case rolling_allowed create_minute now client (fst st) of (m, ok) \<Rightarrow>
        if \<not> ok then ((m, snd st), False)
        else (case daily_allowed create_day now client (snd st) of (d, ok') \<Rightarrow>
                if \<not> ok' then ((m, d), False)
                else ((rolling_record create_minute now client m, daily_record now client d), True)))"

subsection \<open>The contract of a limiter\<close>

text \<open>What both limiters promise: looking changes no count, a count never grows with time alone,
  recording adds at most one to its own key, and a call is allowed only below the limit.\<close>

locale limiter =
  fixes allowed :: "seconds \<Rightarrow> string \<Rightarrow> 's \<Rightarrow> 's \<times> bool" and recorded :: "seconds \<Rightarrow> string \<Rightarrow> 's \<Rightarrow> 's"
    and valid_at :: "seconds \<Rightarrow> 's \<Rightarrow> bool" and counted :: "seconds \<Rightarrow> string \<Rightarrow> 's \<Rightarrow> nat" and limit :: nat
  assumes valid_later: "valid_at now s \<Longrightarrow> now \<le> now' \<Longrightarrow> valid_at now' s"
    and valid_allowed: "valid_at now s \<Longrightarrow> valid_at now (fst (allowed now k s))"
    and valid_recorded: "valid_at now s \<Longrightarrow> valid_at now (recorded now k s)"
    and count_later: "valid_at now s \<Longrightarrow> now \<le> now' \<Longrightarrow> counted now' k s \<le> counted now k s"
    and count_allowed: "valid_at now s \<Longrightarrow> counted now k' (fst (allowed now k s)) = counted now k' s"
    and count_recorded: "valid_at now s \<Longrightarrow> counted now k' (recorded now k s) \<le> counted now k' s + (if k' = k then 1 else 0)"
    and allowed_below: "valid_at now s \<Longrightarrow> snd (allowed now k s) \<Longrightarrow> counted now k s < limit"
begin

definition call :: "seconds \<Rightarrow> string \<Rightarrow> 's \<Rightarrow> 's" where
  "call now k s = (case allowed now k s of (s', ok) \<Rightarrow> if ok then recorded now k s' else s')"

lemma call_bound:
  assumes "valid_at now s" "\<And>k. counted now k s \<le> limit"
  shows "valid_at now (call now k s) \<and> counted now k' (call now k s) \<le> limit"
proof -
  obtain s' ok where a: "allowed now k s = (s', ok)" by fastforce
  have s': "valid_at now s'" "counted now k' s' = counted now k' s" for k'
    using valid_allowed[OF assms(1), of k] count_allowed[OF assms(1), of k' k] a by simp_all
  show ?thesis
    using s' assms(2)[of k'] count_recorded[OF s'(1), of k' k] allowed_below[OF assms(1), of k] valid_recorded[OF s'(1), of k] a
    by (cases "k' = k") (auto simp: call_def)
qed

text \<open>Calls at times that never go back keep every count within the limit.\<close>

lemma calls_bound:
  assumes "sorted (map fst cs)" "\<And>c. c \<in> set cs \<Longrightarrow> now \<le> fst c" "valid_at now s" "\<And>k. counted now k s \<le> limit"
    "\<And>c. c \<in> set cs \<Longrightarrow> fst c \<le> t" "now \<le> t"
  shows "counted t k (fold (\<lambda>c. call (fst c) (snd c)) cs s) \<le> limit"
  using assms
proof (induction cs arbitrary: s now)
  case Nil
  then show ?case using count_later[of now s t k] by (simp add: order.trans)
next
  case (Cons c cs)
  let ?s = "call (fst c) (snd c) s"
  have le: "now \<le> fst c" using Cons.prems(2) by simp
  have v: "valid_at (fst c) s" using valid_later[OF Cons.prems(3) le] .
  have "counted (fst c) k s \<le> limit" for k
    using count_later[OF Cons.prems(3) le, of k] Cons.prems(4)[of k] by simp
  from call_bound[OF v this] have "valid_at (fst c) ?s" "\<And>k'. counted (fst c) k' ?s \<le> limit" by auto
  then show ?case using Cons.IH[of "fst c" ?s] Cons.prems by auto
qed

end

subsection \<open>Lemmas on the two limiters\<close>

definition distinct_keys :: "('a \<times> 'b) list \<Rightarrow> bool" where
  "distinct_keys xs = distinct (map fst xs)"

lemma distinct_keys_update: "distinct_keys xs \<Longrightarrow> distinct_keys (AList.update k v xs)"
  unfolding distinct_keys_def by (rule distinct_update)

lemma map_of_filter_values:
  "distinct_keys xs \<Longrightarrow> map_of (filter (\<lambda>(k, v). P v) xs) k =
     (case map_of xs k of None \<Rightarrow> None | Some v \<Rightarrow> if P v then Some v else None)"
proof (induction xs)
  case (Cons x xs)
  obtain k' v where x: "x = (k', v)" by fastforce
  have "k' \<notin> fst ` set xs \<Longrightarrow> map_of xs k' = None" by (simp add: map_of_eq_None_iff)
  moreover have "k' \<notin> fst ` set xs \<Longrightarrow> map_of (filter (\<lambda>(k, v). P v) xs) k' = None"
    by (auto simp: map_of_eq_None_iff)
  ultimately show ?case using Cons by (auto simp: x distinct_keys_def)
qed simp

lemma live_sweep:
  assumes "distinct_keys (rl_hits st)" "now \<le> now'"
  shows "live_hits cfg now' (rl_hits (sweep_hits cfg now st)) key = live_hits cfg now' (rl_hits st) key"
    "distinct_keys (rl_hits (sweep_hits cfg now st))"
proof -
  have "\<not> list_ex (\<lambda>at. now - rc_window cfg < at) ts \<Longrightarrow> filter (\<lambda>at. now' - rc_window cfg < at) ts = []" for ts
    using assms(2) by (fastforce simp: list_ex_iff filter_empty_conv)
  then show "live_hits cfg now' (rl_hits (sweep_hits cfg now st)) key = live_hits cfg now' (rl_hits st) key"
    using assms(1) by (auto simp: sweep_hits_def live_hits_def map_of_filter_values split: option.split)
  show "distinct_keys (rl_hits (sweep_hits cfg now st))"
    using assms(1) by (auto simp: sweep_hits_def distinct_keys_def distinct_map_filter)
qed

lemma live_record:
  assumes "now \<le> now'"
  shows "live_hits cfg now' (rl_hits (rolling_record cfg now k st)) key =
    live_hits cfg now' (rl_hits st) key @ (if key = k \<and> now' - rc_window cfg < now then [now] else [])"
proof -
  have "filter (\<lambda>at. now' - rc_window cfg < at) (filter (\<lambda>at. now - rc_window cfg < at) ts) =
      filter (\<lambda>at. now' - rc_window cfg < at) ts" for ts
    using assms by (auto intro!: filter_cong)
  then show ?thesis
    by (auto simp: live_hits_def rolling_record_def update_conv' split: option.split)
qed

lemma live_length: "now \<le> now' \<Longrightarrow> length (live_hits cfg now' hits key) \<le> length (live_hits cfg now hits key)"
proof -
  assume "now \<le> now'"
  then have "length (filter (\<lambda>at. now' - rc_window cfg < at) ts) \<le> length (filter (\<lambda>at. now - rc_window cfg < at) ts)" for ts
    by (induction ts) auto
  then show ?thesis by (simp add: live_hits_def)
qed

interpretation rolling: limiter "rolling_allowed cfg" "rolling_record cfg" "\<lambda>now st. distinct_keys (rl_hits st)"
  "\<lambda>now k st. length (live_hits cfg now (rl_hits st) k)" "rc_limit cfg" for cfg
proof unfold_locales
  fix now :: seconds and st :: rolling and k k' :: string
  assume d: "distinct_keys (rl_hits st)"
  show "distinct_keys (rl_hits (fst (rolling_allowed cfg now k st)))"
    using live_sweep(2)[OF d order_refl] by (simp add: rolling_allowed_def Let_def)
  show "distinct_keys (rl_hits (rolling_record cfg now k st))"
    using d by (simp add: rolling_record_def distinct_keys_update)
  show "length (live_hits cfg now (rl_hits (fst (rolling_allowed cfg now k st))) k') = length (live_hits cfg now (rl_hits st) k')"
    using live_sweep(1)[OF d order_refl] by (simp add: rolling_allowed_def Let_def)
  show "length (live_hits cfg now (rl_hits (rolling_record cfg now k st)) k')
      \<le> length (live_hits cfg now (rl_hits st) k') + (if k' = k then 1 else 0)"
    by (simp add: live_record)
  show "snd (rolling_allowed cfg now k st) \<Longrightarrow> length (live_hits cfg now (rl_hits st) k) < rc_limit cfg"
    using live_sweep(1)[OF d order_refl] by (simp add: rolling_allowed_def Let_def)
qed (auto simp: live_length)

definition day_count :: "seconds \<Rightarrow> string \<Rightarrow> daily \<Rightarrow> nat" where
  "day_count now k st =
     (if now div 86400 = dl_day st then (case map_of (dl_counts st) k of None \<Rightarrow> 0 | Some n \<Rightarrow> n) else 0)"

definition daily_valid :: "seconds \<Rightarrow> daily \<Rightarrow> bool" where
  "daily_valid now st \<longleftrightarrow> dl_day st \<le> now div 86400"

lemma day_count_roll: "day_count now k (roll_day now st) = day_count now k st"
  by (simp add: day_count_def roll_day_def)

interpretation daily: limiter "daily_allowed create_day" "daily_record" daily_valid day_count "dc_limit create_day"
proof unfold_locales
  fix now now' :: seconds and st :: daily and k k' :: string
  assume v: "daily_valid now st"
  show "now \<le> now' \<Longrightarrow> daily_valid now' st"
    using v zdiv_mono1[of now now' 86400] by (simp add: daily_valid_def)
  show "daily_valid now (fst (daily_allowed create_day now k st))" "daily_valid now (daily_record now k st)"
    using v by (auto simp: daily_valid_def daily_allowed_def daily_record_def roll_day_def Let_def)
  show "now \<le> now' \<Longrightarrow> day_count now' k st \<le> day_count now k st"
    using v zdiv_mono1[of now now' 86400] by (auto simp: day_count_def daily_valid_def)
  show "day_count now k' (fst (daily_allowed create_day now k st)) = day_count now k' st"
    by (simp add: daily_allowed_def Let_def day_count_roll)
  have "day_count now k' (daily_record now k st) = day_count now k' (roll_day now st) + (if k' = k then 1 else 0)"
    by (auto simp: day_count_def daily_record_def Let_def roll_day_def update_conv' split: option.split)
  then show "day_count now k' (daily_record now k st) \<le> day_count now k' st + (if k' = k then 1 else 0)"
    by (simp add: day_count_roll)
  show "snd (daily_allowed create_day now k st) \<Longrightarrow> day_count now k st < dc_limit create_day"
    using day_count_roll[of now k st]
    by (auto simp: daily_allowed_def Let_def day_count_def roll_day_def create_day_def split: option.splits if_splits)
qed


subsection \<open>Accepted calls in a window\<close>

text \<open>The history of a limiter: which of the calls, each with its time and key, were accepted.\<close>

definition in_window :: "seconds \<Rightarrow> string \<Rightarrow> seconds \<Rightarrow> (seconds \<times> string) list \<Rightarrow> nat" where
  "in_window w k t acc = length (filter (\<lambda>c. snd c = k \<and> t - w < fst c \<and> fst c \<le> t) acc)"

definition rolling_tracks :: "rolling_config \<Rightarrow> seconds \<Rightarrow> (seconds \<times> string) list \<Rightarrow> rolling \<Rightarrow> bool" where
  "rolling_tracks cfg t acc st \<longleftrightarrow> distinct_keys (rl_hits st) \<and> (\<forall>c \<in> set acc. fst c \<le> t) \<and>
     (\<forall>now k. t \<le> now \<longrightarrow> live_hits cfg now (rl_hits st) k = map fst (filter (\<lambda>c. snd c = k \<and> now - rc_window cfg < fst c) acc))"

lemma tracks_fresh: "rolling_tracks cfg t [] fresh_rolling"
  by (simp add: rolling_tracks_def fresh_rolling_def distinct_keys_def live_hits_def)

lemma tracks_allowed:
  "rolling_tracks cfg t acc st \<Longrightarrow> t \<le> now \<Longrightarrow> rolling_tracks cfg now acc (fst (rolling_allowed cfg now k st))"
  using live_sweep[of st now _ cfg]
  by (fastforce simp: rolling_tracks_def rolling_allowed_def Let_def)

lemma tracks_record:
  "rolling_tracks cfg now acc st \<Longrightarrow> rolling_tracks cfg now (acc @ [(now, k)]) (rolling_record cfg now k st)"
  by (auto simp: rolling_tracks_def live_record distinct_keys_update) (auto simp: rolling_record_def distinct_keys_update)

lemma tracks_in_window:
  "rolling_tracks cfg t acc st \<Longrightarrow> t \<le> now \<Longrightarrow> length (live_hits cfg now (rl_hits st) k) = in_window (rc_window cfg) k now acc"
proof -
  assume a: "rolling_tracks cfg t acc st" "t \<le> now"
  have "filter (\<lambda>c. snd c = k \<and> now - rc_window cfg < fst c) acc =
      filter (\<lambda>c. snd c = k \<and> now - rc_window cfg < fst c \<and> fst c \<le> now) acc"
    using a by (auto simp: rolling_tracks_def intro!: filter_cong)
  with a show ?thesis by (simp add: rolling_tracks_def in_window_def)
qed

lemma allowed_in_window:
  "rolling_tracks cfg t acc st \<Longrightarrow> t \<le> now \<Longrightarrow>
   snd (rolling_allowed cfg now k st) \<longleftrightarrow> in_window (rc_window cfg) k now acc < rc_limit cfg"
  using tracks_in_window[of cfg t acc st now k] live_sweep(1)[of st now now cfg k]
  by (simp add: rolling_allowed_def Let_def rolling_tracks_def)

text \<open>When each accepted call found fewer than \<open>limit\<close> in its window, no window holds more.\<close>

lemma window_extend:
  assumes "\<And>t k. in_window w k t acc \<le> limit" "in_window w key now acc < limit" "\<forall>c \<in> set acc. fst c \<le> now"
  shows "in_window w k t (acc @ [(now, key)]) \<le> limit"
proof (cases "k = key \<and> t - w < now \<and> now \<le> t")
  case False
  then show ?thesis using assms(1)[of k t] by (auto simp: in_window_def)
next
  case True
  have "length (filter (\<lambda>c. snd c = key \<and> t - w < fst c \<and> fst c \<le> t) xs) \<le>
      length (filter (\<lambda>c. snd c = key \<and> now - w < fst c \<and> fst c \<le> now) xs)" if "\<forall>c \<in> set xs. fst c \<le> now" for xs :: "(seconds \<times> string) list"
    using that True by (induction xs) auto
  then show ?thesis using assms(2,3) True by (force simp: in_window_def)
qed

definition rolling_run :: "rolling_config \<Rightarrow> (seconds \<times> string) list \<Rightarrow> rolling \<times> (seconds \<times> string) list" where
  "rolling_run cfg calls =
     foldl (\<lambda>(st, acc) c. case rolling_allow cfg (fst c) (snd c) st of (st', ok) \<Rightarrow> (st', if ok then acc @ [c] else acc))
       (fresh_rolling, []) calls"

lemma rolling_run_tracks:
  assumes "sorted (map fst calls)" "\<forall>c \<in> set calls. fst c \<le> t" "rolling_run cfg calls = (st, acc)"
  shows "rolling_tracks cfg t acc st \<and> (\<forall>t k. in_window (rc_window cfg) k t acc \<le> rc_limit cfg)"
  using assms
proof (induction calls arbitrary: st acc t rule: rev_induct)
  case Nil
  then show ?case using tracks_fresh by (simp add: rolling_run_def in_window_def)
next
  case (snoc c calls)
  obtain st0 acc0 where r: "rolling_run cfg calls = (st0, acc0)" by fastforce
  obtain now k where c: "c = (now, k)" by fastforce
  have le: "\<forall>c \<in> set calls. fst c \<le> now" using snoc.prems(1) by (auto simp: c sorted_append)
  have s0: "sorted (map fst calls)" using snoc.prems(1) by (simp add: sorted_append)
  note ih = snoc.IH[OF s0 le r]
  have lift: "rolling_tracks cfg now acc1 st1 \<Longrightarrow> rolling_tracks cfg t acc1 st1" for acc1 st1
    using snoc.prems(2) by (force simp: rolling_tracks_def c)
  obtain st1 ok where a: "rolling_allowed cfg now k st0 = (st1, ok)" by fastforce
  have t1: "rolling_tracks cfg now acc0 st1" using tracks_allowed[OF conjunct1[OF ih] order_refl, of k] a by simp
  have ok: "ok \<longleftrightarrow> in_window (rc_window cfg) k now acc0 < rc_limit cfg"
    using allowed_in_window[OF conjunct1[OF ih] order_refl, of k] a by simp
  show ?case
  proof (cases ok)
    case True
    then have "acc = acc0 @ [(now, k)]" "st = rolling_record cfg now k st1"
      using snoc.prems(3) r a by (auto simp: rolling_run_def rolling_allow_def c)
    moreover have "in_window (rc_window cfg) k' t' (acc0 @ [(now, k)]) \<le> rc_limit cfg" for k' t'
      using ih ok True t1 by (intro window_extend) (auto simp: rolling_tracks_def)
    ultimately show ?thesis using lift[OF tracks_record[OF t1]] by simp
  next
    case False
    then have "acc = acc0" "st = st1" using snoc.prems(3) r a by (auto simp: rolling_run_def rolling_allow_def c)
    then show ?thesis using ih lift[OF t1] by simp
  qed
qed

text \<open>C35: The rolling limiter does what it says, whatever the calls, as long as the clock does not go
  back: no window of its length holds more accepted calls of one key than the limit, and the next
  call is accepted exactly when its own window holds fewer. The sweeps that drop idle keys, at any
  moment, change nothing about that, and refused calls do not count.\<close>

theorem rolling_limit_contract:
  assumes "sorted (map fst (calls @ [(now, key)]))" "rolling_run cfg calls = (st, acc)"
  shows "in_window (rc_window cfg) k t acc \<le> rc_limit cfg \<and>
    (snd (rolling_allow cfg now key st) \<longleftrightarrow> in_window (rc_window cfg) key now acc < rc_limit cfg)"
proof -
  have le: "sorted (map fst calls)" "\<forall>c \<in> set calls. fst c \<le> now" using assms(1) by (auto simp: sorted_append)
  note run = rolling_run_tracks[OF le assms(2)]
  obtain st' ok where a: "rolling_allowed cfg now key st = (st', ok)" by fastforce
  have "snd (rolling_allow cfg now key st) \<longleftrightarrow> ok" using a by (simp add: rolling_allow_def)
  with run allowed_in_window[OF conjunct1[OF run] order_refl, of key] a show ?thesis by simp
qed

theorem rolling_limit_contract_witness:
  "snd (rolling_allow \<lparr>rc_limit = 2, rc_window = 60, rc_sweep_above = 0\<rparr> 65 ''a''
     (fst (rolling_run \<lparr>rc_limit = 2, rc_window = 60, rc_sweep_above = 0\<rparr> [(0, ''a''), (10, ''a''), (20, ''a''), (30, ''b'')])))"
proof -
  let ?cfg = "\<lparr>rc_limit = 2, rc_window = 60, rc_sweep_above = 0\<rparr>" and ?calls = "[(0, ''a''), (10, ''a''), (20, ''a''), (30, ''b'')] :: (seconds \<times> string) list"
  obtain st acc where run: "rolling_run ?cfg ?calls = (st, acc)" by fastforce
  moreover have "snd (rolling_run ?cfg ?calls) = [(0, ''a''), (10, ''a''), (30, ''b'')]" by code_simp
  moreover have "sorted (map fst (?calls @ [(65, ''a'')]))" by simp
  ultimately show ?thesis
    using rolling_limit_contract[where calls = ?calls and now = 65 and key = "''a''" and cfg = ?cfg and st = st and acc = acc]
    by (simp add: in_window_def)
qed


definition on_day :: "string \<Rightarrow> int \<Rightarrow> (seconds \<times> string) list \<Rightarrow> nat" where
  "on_day k day acc = length (filter (\<lambda>c. snd c = k \<and> fst c div 86400 = day) acc)"

definition daily_tracks :: "seconds \<Rightarrow> (seconds \<times> string) list \<Rightarrow> daily \<Rightarrow> bool" where
  "daily_tracks t acc st \<longleftrightarrow> daily_valid t st \<and> (\<forall>c \<in> set acc. fst c div 86400 \<le> dl_day st) \<and>
     (\<forall>now k. dl_day st \<le> now div 86400 \<longrightarrow> day_count now k st = on_day k (now div 86400) acc) \<and>
     length (dl_counts st) \<le> dc_max_keys create_day"

lemma on_day_none: "\<forall>c \<in> set acc. fst c div 86400 \<noteq> day \<Longrightarrow> on_day k day acc = 0"
  by (auto simp: on_day_def)

lemma daily_tracks_roll:
  assumes "daily_tracks t acc st" "t \<le> now"
  shows "daily_tracks now acc (roll_day now st)"
proof -
  have day: "dl_day st \<le> now div 86400"
    using assms zdiv_mono1[of t now 86400] by (auto simp: daily_tracks_def daily_valid_def)
  have "now div 86400 \<noteq> dl_day st \<Longrightarrow> now div 86400 \<le> now' div 86400 \<Longrightarrow> on_day k (now' div 86400) acc = 0" for now' k
    using assms(1) day by (intro on_day_none) (fastforce simp: daily_tracks_def)
  with assms(1) day show ?thesis
    by (auto simp: daily_tracks_def roll_day_def daily_valid_def day_count_def intro: order.trans)
qed

lemma length_update: "length (AList.update k v xs) = (if map_of xs k = None then Suc (length xs) else length xs)"
  by (induction xs) auto

lemma daily_tracks_step:
  assumes "daily_tracks t acc st" "t \<le> now" "daily_allowed create_day now k st = (st', ok)"
  shows "daily_tracks now acc st' \<and> (ok \<longrightarrow> on_day k (now div 86400) acc < 200 \<and> daily_tracks now (acc @ [(now, k)]) (daily_record now k st'))"
proof -
  have st': "st' = roll_day now st" using assms(3) by (simp add: daily_allowed_def Let_def)
  have tr: "daily_tracks now acc st'" unfolding st' by (rule daily_tracks_roll[OF assms(1,2)])
  have day: "dl_day st' = now div 86400" by (simp add: st' roll_day_def)
  have same: "roll_day now st' = st'" using day by (simp add: roll_day_def)
  have "on_day k (now div 86400) acc < 200 \<and> daily_tracks now (acc @ [(now, k)]) (daily_record now k st')" if ok
  proof
    have valid: "daily_valid now st'" using tr by (simp add: daily_tracks_def)
    have "snd (daily_allowed create_day now k st')" using assms(3) that by (simp add: daily_allowed_def Let_def same flip: st')
    from daily.allowed_below[OF valid this] show "on_day k (now div 86400) acc < 200"
      using tr day by (simp add: daily_tracks_def create_day_def)
    have len: "map_of (dl_counts st') k = None \<Longrightarrow> length (dl_counts st') < dc_max_keys create_day"
      using assms(3) that by (auto simp: daily_allowed_def Let_def simp flip: st')
    have cnt: "day_count now' k' (daily_record now k st') =
        day_count now' k' st' + (if k' = k \<and> now' div 86400 = now div 86400 then 1 else 0)" for now' k'
      by (auto simp: day_count_def daily_record_def Let_def same day update_conv' split: option.split)
    show "daily_tracks now (acc @ [(now, k)]) (daily_record now k st')"
      using tr day len cnt
      by (auto simp: daily_tracks_def daily_valid_def) (auto simp: daily_record_def Let_def same on_day_def length_update)
  qed
  with tr show ?thesis by blast
qed

definition creation_run :: "(seconds \<times> string) list \<Rightarrow> (rolling \<times> daily) \<times> (seconds \<times> string) list" where
  "creation_run calls =
     foldl (\<lambda>(st, acc) c. case creation_guard (fst c) (snd c) st of (st', ok) \<Rightarrow> (st', if ok then acc @ [c] else acc))
       ((fresh_rolling, fresh_daily), []) calls"

lemma creation_run_tracks:
  assumes "sorted (map fst calls)" "\<forall>c \<in> set calls. 0 \<le> fst c \<and> fst c \<le> t" "0 \<le> t" "creation_run calls = ((m, d), acc)"
  shows "rolling_tracks create_minute t acc m \<and> daily_tracks t acc d \<and>
    (\<forall>k t. in_window 60 k t acc \<le> 20) \<and> (\<forall>k day. on_day k day acc \<le> 200)"
  using assms
proof (induction calls arbitrary: m d acc t rule: rev_induct)
  case Nil
  then show ?case using tracks_fresh
    by (auto simp: creation_run_def in_window_def on_day_def daily_tracks_def daily_valid_def fresh_daily_def day_count_def
        pos_imp_zdiv_nonneg_iff intro: order.trans[of _ 0])
next
  case (snoc c calls)
  obtain m0 d0 acc0 where r: "creation_run calls = ((m0, d0), acc0)" by (metis prod.exhaust)
  obtain now k where c: "c = (now, k)" by fastforce
  have le: "\<forall>c \<in> set calls. 0 \<le> fst c \<and> fst c \<le> now" "0 \<le> now" "now \<le> t" "sorted (map fst calls)"
    using snoc.prems(1,2) by (auto simp: c sorted_append)
  note ih = snoc.IH[OF le(4,1,2) r]
  have liftm: "rolling_tracks create_minute now a s \<Longrightarrow> rolling_tracks create_minute t a s" for a s
    using le(3) by (force simp: rolling_tracks_def)
  have liftd: "daily_tracks now a s \<Longrightarrow> daily_tracks t a s" for a s
    using le(3) zdiv_mono1[of now t 86400] by (auto simp: daily_tracks_def daily_valid_def)
  obtain m1 ok where a: "rolling_allowed create_minute now k m0 = (m1, ok)" by fastforce
  have m1: "rolling_tracks create_minute now acc0 m1" using tracks_allowed[of create_minute now acc0 m0 now k] ih a by simp
  have ok: "ok \<longleftrightarrow> in_window 60 k now acc0 < 20"
    using allowed_in_window[of create_minute now acc0 m0 now k] ih a by (simp add: create_minute_def)
  obtain d1 ok' where b: "daily_allowed create_day now k d0 = (d1, ok')" by fastforce
  note d1 = daily_tracks_step[OF conjunct1[OF conjunct2[OF ih]] order_refl b]
  have guard: "creation_guard now k (m0, d0) =
      (if \<not> ok then ((m1, d0), False) else if \<not> ok' then ((m1, d1), False)
       else ((rolling_record create_minute now k m1, daily_record now k d1), True))"
    using a b by (simp add: creation_guard_def)
  have run: "((m, d), acc) = (case creation_guard now k (m0, d0) of (st', good) \<Rightarrow> (st', if good then acc0 @ [(now, k)] else acc0))"
    using snoc.prems(4) r by (simp add: creation_run_def c)
  show ?case
  proof (cases "ok \<and> ok'")
    case False
    with run guard have "acc = acc0" "m = m1" "d = d0 \<or> d = d1" by (auto split: if_splits)
    then show ?thesis using ih liftm[OF m1] liftd d1 by auto
  next
    case True
    with run guard have eq: "acc = acc0 @ [(now, k)]" "m = rolling_record create_minute now k m1" "d = daily_record now k d1"
      by auto
    have "in_window 60 k' t' (acc0 @ [(now, k)]) \<le> 20" for k' t'
      using ih ok True m1 by (intro window_extend) (auto simp: rolling_tracks_def)
    moreover have "on_day k' day (acc0 @ [(now, k)]) \<le> 200" for k' day
      using ih d1 True by (auto simp: on_day_def)
    ultimately show ?thesis using liftm[OF tracks_record[OF m1]] liftd d1 True by (simp add: eq)
  qed
qed

text \<open>Anonymous accounts. Whatever calls arrive, at times that do not go back, one client key
  creates at most 20 accounts in any 60 seconds and at most 200 in any UTC day, and the daily table
  never holds more than 100000 keys.\<close>

theorem anonymous_creations_are_limited:
  assumes "sorted (map fst calls)" "list_all (\<lambda>c. 0 \<le> fst c) calls" "creation_run calls = ((m, d), acc)"
  shows "in_window 60 k t acc \<le> 20 \<and> on_day k day acc \<le> 200 \<and> length (dl_counts d) \<le> 100000"
proof -
  define last_at where "last_at = foldl max 0 (map fst calls)"
  have "\<forall>c \<in> set xs. fst c \<le> foldl max (0::int) (map fst xs)" "0 \<le> foldl max (0::int) (map fst xs)" for xs :: "(seconds \<times> string) list"
    by (induction xs rule: rev_induct) auto
  then have "\<forall>c \<in> set calls. 0 \<le> fst c \<and> fst c \<le> last_at" "0 \<le> last_at"
    using assms(2) by (auto simp: last_at_def list_all_iff)
  from creation_run_tracks[OF assms(1) this assms(3)] show ?thesis
    by (auto simp: daily_tracks_def create_day_def)
qed

theorem anonymous_creations_are_limited_witness:
  "length (snd (creation_run [(100, ''k''), (100, ''k'')])) = 2 \<and>
   in_window 60 ''k'' 100 (snd (creation_run [(100, ''k''), (100, ''k'')])) \<le> 20"
proof -
  let ?calls = "[(100, ''k''), (100, ''k'')] :: (seconds \<times> string) list"
  obtain m d acc where r: "creation_run ?calls = ((m, d), acc)" by (metis prod.exhaust)
  have "sorted (map fst ?calls)" "list_all (\<lambda>c. 0 \<le> fst c) ?calls" by (simp_all add: list_all_iff)
  from anonymous_creations_are_limited[OF this r] r have "in_window 60 ''k'' 100 (snd (creation_run ?calls)) \<le> 20"
    by simp
  moreover have "length (snd (creation_run ?calls)) = 2"
    by (simp add: creation_run_def creation_guard_def rolling_allowed_def daily_allowed_def Let_def sweep_hits_def create_minute_def
        create_day_def fresh_rolling_def fresh_daily_def live_hits_def roll_day_def rolling_record_def daily_record_def)
  ultimately show ?thesis by simp
qed

subsection \<open>Client addresses and keys\<close>

lemma split_on_append_sep: "split_on c (x @ c # y) = split_on c x @ split_on c y"
proof (induction x)
  case (Cons a x)
  then show ?case by (cases "split_on c x") (auto split: list.split)
qed simp

lemma hops_appended:
  assumes "cs_header c ''x-forwarded-for'' = Some (typed @ '','' @ chain)"
  shows "forwarded_hops c = filter (\<lambda>h. h \<noteq> []) (map trim (split_on (CHR '','') typed)) @
    filter (\<lambda>h. h \<noteq> []) (map trim (split_on (CHR '','') chain))"
  using assms by (simp add: forwarded_hops_def split_on_append_sep)

text \<open>The client address cannot be typed. With nobody trusted no header matters; behind Cloudflare
  only its own header does; and behind \<open>n\<close> proxies of one's own, which append one address each,
  whatever the client wrote in front of them changes nothing. All IPv6 clients of one /64 share a
  key, and two IPv6 clients of different /64 have different ones.\<close>

theorem client_identity:
  fixes typed typed' chain :: string
  assumes "n = length (filter (\<lambda>h. h \<noteq> []) (map trim (split_on (CHR '','') chain)))" "1 \<le> n"
    and "is_ip (trim a) = 6" "ipv6_groups (trim a) = Some ga" "take 5 ga \<noteq> [0, 0, 0, 0, 0]"
    and "is_ip (trim b) = 6" "ipv6_groups (trim b) = Some gb" "take 5 gb \<noteq> [0, 0, 0, 0, 0]"
  shows "client_ip is_ip TrustNobody \<lparr>cs_peer = p, cs_header = h\<rparr> = client_ip is_ip TrustNobody \<lparr>cs_peer = p, cs_header = h'\<rparr> \<and>
    client_ip is_ip TrustCloudflare \<lparr>cs_peer = p, cs_header = h\<rparr> =
      client_ip is_ip TrustCloudflare \<lparr>cs_peer = p, cs_header = h(x := y, ''cf-connecting-ip'' := h ''cf-connecting-ip'')\<rparr> \<and>
    client_ip is_ip (TrustHops n) \<lparr>cs_peer = p, cs_header = h(''x-forwarded-for'' \<mapsto> typed @ '','' @ chain)\<rparr> =
      client_ip is_ip (TrustHops n) \<lparr>cs_peer = p, cs_header = h'(''x-forwarded-for'' \<mapsto> typed' @ '','' @ chain)\<rparr> \<and>
    (client_key is_ip sha a = client_key is_ip sha b \<longleftrightarrow> take 4 ga = take 4 gb)"
proof -
  let ?chain = "filter (\<lambda>h. h \<noteq> []) (map trim (split_on (CHR '','') chain))"
  have hops: "client_ip is_ip (TrustHops n) \<lparr>cs_peer = p, cs_header = g(''x-forwarded-for'' \<mapsto> t @ '','' @ chain)\<rparr> =
      (let peer = (case p of None \<Rightarrow> ''anonymous'' | Some p \<Rightarrow> p) in if is_ip (?chain ! 0) \<noteq> 0 then ?chain ! 0 else peer)" for g t
    using hops_appended[of "\<lparr>cs_peer = p, cs_header = g(''x-forwarded-for'' \<mapsto> t @ '','' @ chain)\<rparr>" t chain] assms(1,2)
    by (simp add: client_ip_def Let_def nth_append)
  have key: "client_key is_ip sha x = ''v6:'' @ groups_text (take 4 g)"
    if "is_ip (trim x) = 6" "ipv6_groups (trim x) = Some g" "take 5 g \<noteq> [0, 0, 0, 0, 0]" for x g
  proof -
    have "length g = 8" using ipv6_groups_bounds[OF that(2)] by simp
    then have "take 5 g = replicate 5 0" if "list_all (\<lambda>g. g = 0) (take 5 g)"
      by (intro replicate_eqI) (use that in \<open>auto simp: list_all_iff\<close>)
    then have "list_all (\<lambda>g. g = 0) (take 5 g) \<Longrightarrow> take 5 g = [0, 0, 0, 0, 0]" by (simp only: replicate_eq_Cons)
    with that show ?thesis by (auto simp: client_key_def Let_def)
  qed
  have inj: "groups_text (take 4 ga) = groups_text (take 4 gb) \<longleftrightarrow> take 4 ga = take 4 gb"
    using ipv6_groups_bounds[OF assms(4)] ipv6_groups_bounds[OF assms(7)] parse_groups_text[of "take 4 ga"] parse_groups_text[of "take 4 gb"]
    by (metis (no_types, lifting) in_set_takeD list_all_iff option.inject)
  show ?thesis
    unfolding hops key[OF assms(3-5)] key[OF assms(6-8)] by (simp add: client_ip_def inj)
qed


theorem client_identity_witness:
  "client_ip (\<lambda>x. if CHR '':'' \<in> set x then 6 else 4) (TrustHops 1)
      \<lparr>cs_peer = None, cs_header = [''x-forwarded-for'' \<mapsto> ''1.1.1.1'' @ '','' @ ''9.9.9.9'']\<rparr> =
    client_ip (\<lambda>x. if CHR '':'' \<in> set x then 6 else 4) (TrustHops 1)
      \<lparr>cs_peer = None, cs_header = [''host'' \<mapsto> ''x''](''x-forwarded-for'' \<mapsto> ''2.2.2.2'' @ '','' @ ''9.9.9.9'')\<rparr> \<and>
    client_key (\<lambda>x. if CHR '':'' \<in> set x then 6 else 4) (\<lambda>x. x) ''2:d::1'' = client_key (\<lambda>x. if CHR '':'' \<in> set x then 6 else 4) (\<lambda>x. x) ''2:d::2:3''"
proof -
  let ?ip = "\<lambda>x. if CHR '':'' \<in> set x then 6 else (4::nat)"
  have c: "1 = length (filter (\<lambda>h. h \<noteq> []) (map trim (split_on (CHR '','') ''9.9.9.9'')))" by code_simp
  have a: "?ip (trim ''2:d::1'') = 6" "ipv6_groups (trim ''2:d::1'') = Some [2, 13, 0, 0, 0, 0, 0, 1]"
    "?ip (trim ''2:d::2:3'') = 6" "ipv6_groups (trim ''2:d::2:3'') = Some [2, 13, 0, 0, 0, 0, 2, 3]"
    by code_simp+
  have n: "take 5 [2, 13, 0, 0, 0, 0, 0, 1] \<noteq> [0, 0, 0, 0, 0::nat]" "take 5 [2, 13, 0, 0, 0, 0, 2, 3] \<noteq> [0, 0, 0, 0, 0::nat]"
    by simp_all
  show ?thesis
    using client_identity[where typed = "''1.1.1.1''" and typed' = "''2.2.2.2''" and h = Map.empty and h' = "[''host'' \<mapsto> ''x'']" and p = None and sha = "\<lambda>x. x",
        OF c order_refl a(1,2) n(1) a(3,4) n(2)]
    by simp
qed

subsection \<open>Bodies\<close>

lemma read_chunks_spec:
  "length got = n \<Longrightarrow>
   read_chunks m n got cs =
     (if n + length (concat cs) \<le> m \<or> cs = [] then (Some (got @ concat cs), length cs)
      else (None, Suc (length (takeWhile (\<lambda>k. n + length (concat (take (Suc k) cs)) \<le> m) [0 ..< length cs]))))"
proof (induction m n got cs rule: read_chunks.induct)
  case (2 m n got c cs)
  let ?P = "\<lambda>k. n + length (concat (take (Suc k) (c # cs))) \<le> m"
  have split: "[0 ..< length (c # cs)] = 0 # map Suc [0 ..< length cs]"
    by (simp add: upt_conv_Cons map_Suc_upt del: upt_Suc)
  show ?case
  proof (cases "m < n + length c")
    case True
    then show ?thesis unfolding split by simp
  next
    case False
    have "takeWhile ?P (map Suc [0 ..< length cs]) =
        map Suc (takeWhile (\<lambda>k. (n + length c) + length (concat (take (Suc k) cs)) \<le> m) [0 ..< length cs])"
      by (simp add: takeWhile_map comp_def add.assoc)
    then have "length (takeWhile ?P [0 ..< length (c # cs)]) =
        Suc (length (takeWhile (\<lambda>k. (n + length c) + length (concat (take (Suc k) cs)) \<le> m) [0 ..< length cs]))"
      unfolding split using False by simp
    then show ?thesis using 2 False by (auto simp: add.assoc)
  qed
qed simp

text \<open>A bounded read. A body is returned exactly when it is not declared longer than the limit and
  is at most the limit long, and then it is all of it. One that is declared too long is refused with
  nothing read, and of one that is longer than it said, no more is read than up to the chunk that
  passes the limit.\<close>

theorem bounded_read:
  "fst (read_bytes m declared (Some chunks)) =
     (if (case declared of None \<Rightarrow> False | Some n \<Rightarrow> int m < n) \<or> m < length (concat chunks) then None else Some (concat chunks)) \<and>
   (case declared of None \<Rightarrow> True | Some n \<Rightarrow> n \<le> int m \<or> snd (read_bytes m declared (Some chunks)) = 0) \<and>
   length (concat (take (snd (read_bytes m declared (Some chunks)) - 1) chunks)) \<le> m"
proof -
  let ?W = "takeWhile (\<lambda>k. length (concat (take (Suc k) chunks)) \<le> m) [0 ..< length chunks]"
  have "length (concat (take (length ?W) chunks)) \<le> m"
  proof (cases "length ?W")
    case (Suc j)
    then have j: "j < length ?W" by simp
    then have "j < length [0 ..< length chunks]" by (rule order.strict_trans2) (rule length_takeWhile_le)
    then have "?W ! j = j" using takeWhile_nth[OF j] by simp
    moreover have "?W ! j \<in> set ?W" using j by (rule nth_mem)
    ultimately have "length (concat (take (Suc j) chunks)) \<le> m" by (metis (no_types, lifting) set_takeWhileD)
    with Suc show ?thesis by simp
  qed simp
  moreover have "length (concat (take (length chunks - 1) chunks)) \<le> length (concat chunks)"
    by (metis append_take_drop_id concat_append le_add1 length_append)
  ultimately show ?thesis
    by (auto simp: read_bytes_def read_chunks_spec split: option.split)
qed

text \<open>A shared secret matches only a bearer header that carries it: an unset secret and a missing,
  empty or malformed header are refused, and with a hash that is injective on the two texts the
  supplied secret is the configured one.\<close>

theorem bearer_secret_needs_the_secret:
  assumes "bearer_secret_matches sha header secret"
  shows "secret \<noteq> [] \<and> (\<exists>supplied. header = Some (''Bearer '' @ supplied) \<and> supplied \<noteq> [] \<and> sha supplied = sha secret)"
  using assms
  by (auto simp: bearer_secret_matches_def Let_def starts_with_iff split: if_splits option.splits)

theorem bearer_secret_needs_the_secret_witness:
  "bearer_secret_matches (\<lambda>x. x) (Some ''Bearer swordfish'') ''swordfish'' \<and> ''swordfish'' \<noteq> []"
proof -
  have m: "bearer_secret_matches (\<lambda>x. x) (Some ''Bearer swordfish'') ''swordfish''" by code_simp
  from bearer_secret_needs_the_secret[OF this] m show ?thesis by simp
qed

end
