(* ===== verification/Devices.thy ===== *)
theory Devices
  imports Checks Packs Limits
begin

section \<open>Devices, their tokens and subscriptions\<close>

text \<open>
  \<open>src/src/tier/auth.ts\<close>, \<open>devices.ts\<close>, \<open>device-tokens.ts\<close>, \<open>subscriptions.ts\<close> and the routes of \<open>tier/router.ts\<close>
  that use them. The hash of a credential and the fresh tokens are parameters. An operation that may
  throw answers a sum: \<^term>\<open>Inl\<close> the error, \<^term>\<open>Inr\<close> the result, and a transaction that throws leaves the
  database as it was. A request body the schema does not accept is \<^term>\<open>None\<close>.
\<close>

subsection \<open>Credentials\<close>

definition is_credential :: "string \<Rightarrow> string \<Rightarrow> bool" where
  "is_credential prefix t \<longleftrightarrow>
     starts_with prefix t \<and> drop (length prefix) t \<noteq> [] \<and> list_all is_word_char (drop (length prefix) t)"

definition bearer_token :: "string \<Rightarrow> string option \<Rightarrow> string option" where
  "bearer_token prefix header =
     (let h = (case header of None \<Rightarrow> [] | Some x \<Rightarrow> x)
      in if starts_with ''Bearer '' h \<and> is_credential prefix (drop 7 h) then Some (drop 7 h) else None)"

definition bearer_from_header :: "string option \<Rightarrow> string option" where
  "bearer_from_header = bearer_token ''dv_''"

definition join_bearer_from_header :: "string option \<Rightarrow> string option" where
  "join_bearer_from_header = bearer_token ''aj_''"

record account_context =
  ac_account :: ident
  ac_device :: ident

definition authenticate_account_join :: "(string \<Rightarrow> string) \<Rightarrow> db \<Rightarrow> string option \<Rightarrow> (ident \<times> tier) option" where
  "authenticate_account_join sha s bearer =
     (case bearer of None \<Rightarrow> None
      | Some b \<Rightarrow>
          if \<not> is_credential ''aj_'' b then None
          else (case List.find (\<lambda>a. a_join_token_hash a = Some (sha b)) (accounts s) of None \<Rightarrow> None
                | Some a \<Rightarrow> if a_join_token_hash a \<noteq> Some (sha b) then None else Some (a_id a, a_tier a)))"

definition authenticate_device :: "(string \<Rightarrow> string) \<Rightarrow> db \<Rightarrow> string option \<Rightarrow> account_context option" where
  "authenticate_device sha s bearer =
     (case bearer of None \<Rightarrow> None
      | Some b \<Rightarrow>
          if \<not> is_credential ''dv_'' b then None
          else (case List.find (\<lambda>d. d_token_hash d = sha b) (devices s) of None \<Rightarrow> None
                | Some d \<Rightarrow> if d_token_hash d \<noteq> sha b then None
                            else Some \<lparr>ac_account = d_account_id d, ac_device = d_id d\<rparr>))"

datatype refusal = BadRequest | Unauthorized | NotFound | RateLimited | CapRefused string | ConstraintFailed

definition own_device :: "(string \<Rightarrow> string) \<Rightarrow> db \<Rightarrow> string option \<Rightarrow> ident \<Rightarrow> refusal + account_context" where
  "own_device sha s header dev =
     (case authenticate_device sha s (bearer_from_header header) of
        None \<Rightarrow> Inl Unauthorized
      | Some ctx \<Rightarrow> if ac_device ctx \<noteq> dev then Inl NotFound else Inr ctx)"

subsection \<open>Shapes\<close>

definition is_hex_lower :: "char \<Rightarrow> bool" where
  "is_hex_lower c \<longleftrightarrow> is_digit c \<or> (CHR ''a'' \<le> c \<and> c \<le> CHR ''f'')"

definition is_device_id :: "string \<Rightarrow> bool" where
  "is_device_id x \<longleftrightarrow>
     starts_with ''dev_'' x \<and> map length (split_on (CHR ''-'') (drop 4 x)) = [8, 4, 4, 4, 12] \<and>
     list_all (list_all is_hex_lower) (split_on (CHR ''-'') (drop 4 x))"

definition is_topic_hash :: "string \<Rightarrow> bool" where
  "is_topic_hash x \<longleftrightarrow> length x = 64 \<and> list_all is_hex_lower x"

definition apns_token_ok :: "string \<Rightarrow> bool" where
  "apns_token_ok x \<longleftrightarrow> 1 \<le> length x \<and> length x \<le> 512 \<and> list_all (\<lambda>c. hex_value c \<noteq> None) x"

definition fcm_token_ok :: "string \<Rightarrow> bool" where
  "fcm_token_ok x \<longleftrightarrow>
     1 \<le> length x \<and> length x \<le> 4096 \<and> list_all (\<lambda>c. is_letter c \<or> is_digit c \<or> c \<in> set ''._~:-'') x"

definition token_ok_for_kind :: "token_kind \<Rightarrow> string \<Rightarrow> bool" where
  "token_ok_for_kind k = (if k = Fcm then fcm_token_ok else apns_token_ok)"

definition push_token_ok :: "platform \<Rightarrow> string \<Rightarrow> bool" where
  "push_token_ok p = (if uses_apns p then apns_token_ok else fcm_token_ok)"

record device_update =
  du_push_token :: string
  du_app_version :: string

record registration = device_update +
  rg_device_id :: ident
  rg_platform :: platform

definition registration_ok :: "registration \<Rightarrow> bool" where
  "registration_ok r \<longleftrightarrow>
     is_device_id (rg_device_id r) \<and> du_push_token r \<noteq> [] \<and> du_app_version r \<noteq> [] \<and>
     push_token_ok (rg_platform r) (du_push_token r)"

definition device_update_ok :: "device_update \<Rightarrow> bool" where
  "device_update_ok u \<longleftrightarrow> fcm_token_ok (du_push_token u) \<and> du_app_version u \<noteq> []"

record token_input =
  ti_kind :: token_kind
  ti_token :: string
  ti_activity_id :: "string option"
  ti_incident_id :: "string option"

definition token_input_ok :: "token_input \<Rightarrow> bool" where
  "token_input_ok t \<longleftrightarrow>
     ti_token t \<noteq> [] \<and> ti_activity_id t \<noteq> Some [] \<and> ti_incident_id t \<noteq> Some [] \<and>
     token_ok_for_kind (ti_kind t) (ti_token t) \<and>
     \<not> (ti_kind t = LaUpdate \<and> ti_activity_id t = None) \<and>
     \<not> (ti_kind t \<noteq> LaUpdate \<and> ti_activity_id t \<noteq> None) \<and>
     \<not> (ti_kind t \<noteq> LaUpdate \<and> ti_incident_id t \<noteq> None)"

subsection \<open>Subscriptions\<close>

text \<open>\<open>INSERT OR IGNORE INTO subscriptions\<close>, one row after the other.\<close>

definition subscribe_one :: "ident \<Rightarrow> string \<Rightarrow> subscription_row list \<Rightarrow> subscription_row list" where
  "subscribe_one dev hash =
     insert_or_ignore (\<lambda>x. s_device_id x = dev \<and> s_topic_hash x = hash) \<lparr>s_device_id = dev, s_topic_hash = hash\<rparr>"

definition sweep_device_into_topics :: "ident \<Rightarrow> ident \<Rightarrow> db \<Rightarrow> db" where
  "sweep_device_into_topics acc dev s =
     s\<lparr>subscriptions :=
         foldl (\<lambda>subs t. subscribe_one dev (t_topic_hash t) subs) (subscriptions s)
           (filter (\<lambda>t. t_account_id t = acc) (topics s))\<rparr>"

definition sweep_topic_into_devices :: "ident \<Rightarrow> string \<Rightarrow> db \<Rightarrow> db" where
  "sweep_topic_into_devices acc hash s =
     s\<lparr>subscriptions :=
         foldl (\<lambda>subs d. subscribe_one (d_id d) hash subs) (subscriptions s)
           (filter (\<lambda>d. d_account_id d = acc) (devices s))\<rparr>"

subsection \<open>Device tokens\<close>

definition token_of_device :: "ident \<Rightarrow> token_kind \<Rightarrow> string \<Rightarrow> device_token_row \<Rightarrow> bool" where
  "token_of_device dev k act x \<longleftrightarrow> dt_device_id x = dev \<and> dt_kind x = k \<and> dt_activity_id x = act"

definition put_device_token :: "seconds \<Rightarrow> ident \<Rightarrow> token_input \<Rightarrow> db \<Rightarrow> refusal + db" where
  "put_device_token now dev t s =
     (if (case device_of s dev of None \<Rightarrow> False | Some d \<Rightarrow> d_platform d = Macos) \<and> ti_kind t \<in> {LaStart, LaUpdate}
      then Inl BadRequest
      else (let act = (case ti_activity_id t of None \<Rightarrow> [] | Some a \<Rightarrow> a)
            in Inr (s\<lparr>device_tokens :=
                 upsert (token_of_device dev (ti_kind t) act)
                   (\<lambda>x. x\<lparr>dt_token := ti_token t, dt_incident_id := ti_incident_id t, dt_updated_at := now\<rparr>)
                   \<lparr>dt_device_id = dev, dt_kind = ti_kind t, dt_activity_id = act, dt_incident_id = ti_incident_id t,
                    dt_token = ti_token t, dt_updated_at = now\<rparr>
                   (device_tokens s)\<rparr>)))"

definition delete_device_tokens :: "ident \<Rightarrow> token_kind \<Rightarrow> string option \<Rightarrow> db \<Rightarrow> db" where
  "delete_device_tokens dev k act s =
     s\<lparr>device_tokens :=
         del_where (\<lambda>x. dt_device_id x = dev \<and> dt_kind x = k \<and> (case act of None \<Rightarrow> True | Some a \<Rightarrow> dt_activity_id x = a))
           (device_tokens s)\<rparr>"

definition set_alarm_token :: "seconds \<Rightarrow> ident \<Rightarrow> platform \<Rightarrow> string \<Rightarrow> db \<Rightarrow> db" where
  "set_alarm_token now dev p token s =
     s\<lparr>device_tokens :=
         del_where (\<lambda>x. dt_device_id x = dev \<and> dt_kind x \<in> {Apns, Fcm}) (device_tokens s) @
         [\<lparr>dt_device_id = dev, dt_kind = alarm_token_kind p, dt_activity_id = [], dt_incident_id = None,
           dt_token = token, dt_updated_at = now\<rparr>]\<rparr>"

subsection \<open>Registering, updating and releasing\<close>

definition account_for_context :: "db \<Rightarrow> account_context \<Rightarrow> (ident \<times> tier) option" where
  "account_for_context s ctx =
     (case List.find (\<lambda>d. d_id d = ac_device ctx \<and> d_account_id d = ac_account ctx) (devices s) of None \<Rightarrow> None
      | Some d \<Rightarrow> (case account_of s (d_account_id d) of None \<Rightarrow> None | Some a \<Rightarrow> Some (d_account_id d, a_tier a)))"

text \<open>The primary key of \<open>devices\<close> and its unique \<open>device_token_hash\<close> refuse a second row.\<close>

definition insert_device_for_account ::
  "(string \<Rightarrow> string) \<Rightarrow> seconds \<Rightarrow> string \<Rightarrow> registration \<Rightarrow> ident \<Rightarrow> tier \<Rightarrow> db \<Rightarrow> refusal + db" where
  "insert_device_for_account sha now token r acc t s =
     (if cap_devices (caps_for t) \<le> count_where (\<lambda>d. d_account_id d = acc) (devices s) then Inl (CapRefused ''devices'')
      else if list_ex (\<lambda>d. d_id d = rg_device_id r \<or> d_token_hash d = sha token) (devices s) then Inl ConstraintFailed
      else Inr (sweep_device_into_topics acc (rg_device_id r)
             (set_alarm_token now (rg_device_id r) (rg_platform r) (du_push_token r)
               (s\<lparr>devices := devices s @ [\<lparr>d_id = rg_device_id r, d_account_id = acc, d_token_hash = sha token,
                    d_platform = rg_platform r, d_push_token = du_push_token r, d_last_seen = now,
                    d_app_version = Some (du_app_version r), d_apns_environment = None, d_last_alarm_push_at = None\<rparr>]\<rparr>))))"

definition write_device :: "seconds \<Rightarrow> device_update \<Rightarrow> platform option \<Rightarrow> device_row \<Rightarrow> device_row" where
  "write_device now u p d =
     d\<lparr>d_push_token := du_push_token u, d_app_version := Some (du_app_version u), d_last_seen := now,
       d_platform := (case p of None \<Rightarrow> d_platform d | Some p' \<Rightarrow> p')\<rparr>"

definition update_device ::
  "(string \<Rightarrow> string) \<Rightarrow> seconds \<Rightarrow> ident \<Rightarrow> device_update \<Rightarrow> string option \<Rightarrow> platform option \<Rightarrow> db \<Rightarrow>
   db \<times> (refusal + (ident \<times> tier) option)" where
  "update_device sha now dev u bearer p s =
     (case authenticate_device sha s bearer of None \<Rightarrow> (s, Inr None)
      | Some ctx \<Rightarrow>
          if ac_device ctx \<noteq> dev then (s, Inr None)
          else (let before = device_of s dev
                in if (case before of None \<Rightarrow> False
                       | Some d \<Rightarrow> \<not> push_token_ok (case p of None \<Rightarrow> d_platform d | Some p' \<Rightarrow> p') (du_push_token u))
                   then (s, Inl BadRequest)
                   else (let s1 = s\<lparr>devices := upd_where (\<lambda>d. d_id d = dev) (write_device now u p) (devices s)\<rparr>;
                             s2 = (case device_of s1 dev of None \<Rightarrow> s1
                                   | Some d \<Rightarrow> set_alarm_token now dev (d_platform d) (du_push_token u) s1);
                             s3 = (if (case before of None \<Rightarrow> False | Some d \<Rightarrow> d_push_token d \<noteq> du_push_token u)
                                   then check_due_after_new_token now dev s2 else s2)
                         in (s3, Inr (account_for_context s3 ctx)))))"

text \<open>The fresh values of one registration: an account id, a device token and a join token.\<close>

record fresh_device =
  fd_account :: ident
  fd_token :: string
  fd_join_token :: string

record registered =
  rr_device_token :: "string option"
  rr_join_token :: "string option"
  rr_account :: ident
  rr_tier :: tier

definition register_device ::
  "(string \<Rightarrow> string) \<Rightarrow> seconds \<Rightarrow> fresh_device \<Rightarrow> registration \<Rightarrow> string option \<Rightarrow> account_context option \<Rightarrow>
   string option \<Rightarrow> db \<Rightarrow> db \<times> (refusal + registered)" where
  "register_device sha now new r bearer ctx join s =
     (if device_of s (rg_device_id r) \<noteq> None
      then (case update_device sha now (rg_device_id r) (device_update.truncate r) bearer (Some (rg_platform r)) s of
              (s', Inl e) \<Rightarrow> (s', Inl e)
            | (s', Inr None) \<Rightarrow> (s', Inl Unauthorized)
            | (s', Inr (Some (acc, t))) \<Rightarrow>
                (s', Inr \<lparr>rr_device_token = None, rr_join_token = None, rr_account = acc, rr_tier = t\<rparr>))
      else (case ctx of
              Some c \<Rightarrow>
                (case account_for_context s c of None \<Rightarrow> (s, Inl Unauthorized)
                 | Some (acc, t) \<Rightarrow>
                     (case insert_device_for_account sha now (fd_token new) r acc t s of
                        Inl e \<Rightarrow> (s, Inl e)
                      | Inr s' \<Rightarrow> (s', Inr \<lparr>rr_device_token = Some (fd_token new), rr_join_token = None,
                                            rr_account = acc, rr_tier = t\<rparr>)))
            | None \<Rightarrow>
                (case join of
                   Some j \<Rightarrow>
                     (case authenticate_account_join sha s (Some j) of None \<Rightarrow> (s, Inl Unauthorized)
                      | Some (acc, t) \<Rightarrow>
                          (case insert_device_for_account sha now (fd_token new) r acc t s of
                             Inl e \<Rightarrow> (s, Inl e)
                           | Inr s' \<Rightarrow> (s', Inr \<lparr>rr_device_token = Some (fd_token new), rr_join_token = None,
                                                 rr_account = acc, rr_tier = t\<rparr>)))
                 | None \<Rightarrow>
                     if list_ex (\<lambda>a. a_id a = fd_account new \<or> a_join_token_hash a = Some (sha (fd_join_token new))) (accounts s)
                     then (s, Inl ConstraintFailed)
                     else (let s1 = s\<lparr>accounts := accounts s @ [\<lparr>a_id = fd_account new, a_tier = Free, a_created_at = now,
                                        a_join_token_hash = Some (sha (fd_join_token new)), a_merged_into = None\<rparr>]\<rparr>
                           in (case insert_device_for_account sha now (fd_token new) r (fd_account new) Free s1 of
                                 Inl e \<Rightarrow> (s, Inl e)
                               | Inr s' \<Rightarrow> (s', Inr \<lparr>rr_device_token = Some (fd_token new),
                                    rr_join_token = Some (fd_join_token new), rr_account = fd_account new, rr_tier = Free\<rparr>))))))"

definition delete_device :: "ident \<Rightarrow> db \<Rightarrow> db" where
  "delete_device dev s =
     delete_devices (\<lambda>d. d_id d = dev)
       (s\<lparr>device_tokens := del_where (\<lambda>x. dt_device_id x = dev) (device_tokens s),
          subscriptions := del_where (\<lambda>x. s_device_id x = dev) (subscriptions s)\<rparr>)"

definition subscribe_device :: "account_context \<Rightarrow> string \<Rightarrow> db \<Rightarrow> refusal + db" where
  "subscribe_device ctx hash s =
     (case account_for_context s ctx of None \<Rightarrow> Inl NotFound
      | Some _ \<Rightarrow>
          Inr (if list_ex (\<lambda>x. s_device_id x = ac_device ctx \<and> s_topic_hash x = hash) (subscriptions s) then s
               else s\<lparr>subscriptions := subscriptions s @ [\<lparr>s_device_id = ac_device ctx, s_topic_hash = hash\<rparr>]\<rparr>))"

definition unsubscribe_device :: "account_context \<Rightarrow> string \<Rightarrow> db \<Rightarrow> db" where
  "unsubscribe_device ctx hash s =
     s\<lparr>subscriptions :=
         del_where (\<lambda>x. s_device_id x = ac_device ctx \<and> s_topic_hash x = hash \<and>
                        list_ex (\<lambda>d. d_id d = s_device_id x \<and> d_account_id d = ac_account ctx) (devices s))
           (subscriptions s)\<rparr>"

subsection \<open>The routes\<close>

text \<open>\<open>POST /relay/v1/devices\<close>. A creation without credentials is charged to the client's limits before
  the body is read; \<open>ConstraintFailed\<close> is the exception the route does not catch.\<close>

definition post_device ::
  "(string \<Rightarrow> nat) \<Rightarrow> (string \<Rightarrow> string) \<Rightarrow> proxy_trust \<Rightarrow> seconds \<Rightarrow> fresh_device \<Rightarrow> client_source \<Rightarrow>
   registration option \<Rightarrow> (rolling \<times> daily) \<times> db \<Rightarrow> ((rolling \<times> daily) \<times> db) \<times> (refusal + registered)" where
  "post_device is_ip sha trust now new c input st =
     (let header = cs_header c ''authorization''
      in case (if header = None
               then creation_guard now (client_key is_ip sha (client_ip is_ip trust c)) (fst st) else (fst st, True)) of
           (limits, False) \<Rightarrow> ((limits, snd st), Inl RateLimited)
         | (limits, True) \<Rightarrow>
             (case input of None \<Rightarrow> ((limits, snd st), Inl BadRequest)
              | Some r \<Rightarrow>
                  if \<not> registration_ok r then ((limits, snd st), Inl BadRequest)
                  else (let bearer = bearer_from_header header; join = join_bearer_from_header header;
                            ctx = authenticate_device sha (snd st) bearer
                        in if header \<noteq> None \<and> bearer = None \<and> join = None then ((limits, snd st), Inl Unauthorized)
                           else if bearer \<noteq> None \<and> ctx = None then ((limits, snd st), Inl Unauthorized)
                           else (case register_device sha now new r bearer ctx join (snd st) of
                                   (s', res) \<Rightarrow> ((limits, s'), res)))))"

text \<open>\<open>PATCH /relay/v1/devices/:deviceId\<close>.\<close>

definition patch_device ::
  "(string \<Rightarrow> string) \<Rightarrow> seconds \<Rightarrow> string option \<Rightarrow> ident \<Rightarrow> device_update option \<Rightarrow> db \<Rightarrow> db \<times> (refusal + ident \<times> tier)" where
  "patch_device sha now header dev input s =
     (case input of None \<Rightarrow> (s, Inl BadRequest)
      | Some u \<Rightarrow>
          if \<not> device_update_ok u then (s, Inl BadRequest)
          else (case own_device sha s header dev of Inl e \<Rightarrow> (s, Inl e)
                | Inr ctx \<Rightarrow>
                    (case update_device sha now (ac_device ctx) u (bearer_from_header header) None s of
                       (s', Inl e) \<Rightarrow> (s', Inl e)
                     | (s', Inr None) \<Rightarrow> (s', Inl NotFound)
                     | (s', Inr (Some res)) \<Rightarrow> (s', Inr res))))"

text \<open>\<open>DELETE /relay/v1/devices/:deviceId\<close>: the answer of another device's id depends on whether it exists.\<close>

definition release_device :: "(string \<Rightarrow> string) \<Rightarrow> string option \<Rightarrow> ident \<Rightarrow> db \<Rightarrow> refusal + db" where
  "release_device sha header target s =
     (case authenticate_device sha s (bearer_from_header header) of None \<Rightarrow> Inl Unauthorized
      | Some ctx \<Rightarrow>
          if target \<noteq> ac_device ctx
          then (if device_of s target = None then Inl NotFound else Inl Unauthorized)
          else Inr (delete_device (ac_device ctx) s))"

definition post_subscription :: "(string \<Rightarrow> string) \<Rightarrow> string option \<Rightarrow> ident \<Rightarrow> string option \<Rightarrow> db \<Rightarrow> refusal + db" where
  "post_subscription sha header dev input s =
     (case input of None \<Rightarrow> Inl BadRequest
      | Some hash \<Rightarrow>
          if \<not> is_topic_hash hash then Inl BadRequest
          else (case own_device sha s header dev of Inl e \<Rightarrow> Inl e | Inr ctx \<Rightarrow> subscribe_device ctx hash s))"

definition delete_subscription :: "(string \<Rightarrow> string) \<Rightarrow> string option \<Rightarrow> ident \<Rightarrow> string \<Rightarrow> db \<Rightarrow> refusal + db" where
  "delete_subscription sha header dev hash s =
     (if \<not> is_topic_hash hash then Inl BadRequest
      else (case own_device sha s header dev of Inl e \<Rightarrow> Inl e | Inr ctx \<Rightarrow> Inr (unsubscribe_device ctx hash s)))"

definition post_token :: "(string \<Rightarrow> string) \<Rightarrow> seconds \<Rightarrow> string option \<Rightarrow> ident \<Rightarrow> token_input option \<Rightarrow> db \<Rightarrow> refusal + db" where
  "post_token sha now header dev input s =
     (case input of None \<Rightarrow> Inl BadRequest
      | Some t \<Rightarrow>
          if \<not> token_input_ok t then Inl BadRequest
          else (case own_device sha s header dev of Inl e \<Rightarrow> Inl e | Inr ctx \<Rightarrow> put_device_token now (ac_device ctx) t s))"

definition delete_token_route ::
  "(string \<Rightarrow> string) \<Rightarrow> string option \<Rightarrow> ident \<Rightarrow> token_kind option \<Rightarrow> string option \<Rightarrow> db \<Rightarrow> refusal + db" where
  "delete_token_route sha header dev kind act s =
     (case kind of None \<Rightarrow> Inl BadRequest
      | Some k \<Rightarrow> (case own_device sha s header dev of Inl e \<Rightarrow> Inl e
                    | Inr ctx \<Rightarrow> Inr (delete_device_tokens (ac_device ctx) k act s)))"


subsection \<open>Refreshing packs\<close>

text \<open>The customers a refresh reads. The walk over merged accounts takes at most eight rounds.\<close>

definition add_new :: "'a list \<Rightarrow> 'a \<Rightarrow> 'a list" where
  "add_new ids x = (if x \<in> set ids then ids else ids @ [x])"

fun refresh_walk :: "nat \<Rightarrow> db \<Rightarrow> ident list \<Rightarrow> ident list \<Rightarrow> ident list" where
  "refresh_walk 0 s frontier ids = ids"
| "refresh_walk (Suc n) s frontier ids =
     (if frontier = [] then ids
      else (let merged = filter (\<lambda>a. a \<notin> set ids)
                  (map a_id (sort_key a_id (filter (\<lambda>a. case a_merged_into a of None \<Rightarrow> False | Some m \<Rightarrow> m \<in> set frontier) (accounts s))))
            in refresh_walk n s merged (foldl add_new ids merged)))"

definition refresh_ids :: "db \<Rightarrow> ident \<Rightarrow> ident list" where
  "refresh_ids s acc =
     refresh_walk 8 s [acc]
       (foldl add_new [acc]
         (map b_app_user_id (sort_key b_app_user_id (filter (\<lambda>b. b_account_id b = acc) (account_billing_ids s)))))"

text \<open>Reading each of them: with reading on every read counts, in the shadow step none does. The reads
  themselves are steps of a state \<open>'w\<close>, which holds the database.\<close>

datatype 'w store_reads = ReadsOff | ReadsOn "ident \<Rightarrow> 'w \<Rightarrow> 'w \<times> bool" | ReadsShadow "ident \<Rightarrow> 'w \<Rightarrow> 'w"

definition read_store_for_account :: "'w store_reads \<Rightarrow> ('w \<Rightarrow> db) \<Rightarrow> ident \<Rightarrow> 'w \<Rightarrow> 'w \<times> bool" where
  "read_store_for_account mode the_db acc w =
     (case mode of ReadsOff \<Rightarrow> (w, False)
      | ReadsShadow read \<Rightarrow> (foldl (\<lambda>w i. read i w) w (refresh_ids (the_db w) acc), False)
      | ReadsOn read \<Rightarrow>
          foldl (\<lambda>(w, confirmed) i. case read i w of (w', ok) \<Rightarrow> (w', if ok then confirmed else False)) (w, True)
            (refresh_ids (the_db w) acc))"

record packs_answer =
  pa_confirmed :: bool
  pa_checked_at :: "seconds option"
  pa_tier :: tier
  pa_packs :: "held_pack list"

definition refresh_limit :: rolling_config where
  "refresh_limit = \<lparr>rc_limit = 6, rc_window = 60, rc_sweep_above = 10000\<rparr>"

definition refresh_packs ::
  "(string \<Rightarrow> string) \<Rightarrow> seconds \<Rightarrow> pack_rules \<Rightarrow> 'w store_reads \<Rightarrow> ('w \<Rightarrow> db) \<Rightarrow> string option \<Rightarrow> rolling \<times> 'w \<Rightarrow>
   (rolling \<times> 'w) \<times> (refusal + packs_answer)" where
  "refresh_packs sha now rules mode the_db header st =
     (case authenticate_device sha (the_db (snd st)) (bearer_from_header header) of None \<Rightarrow> (st, Inl Unauthorized)
      | Some ctx \<Rightarrow>
          (case rolling_allow refresh_limit now (ac_account ctx) (fst st) of
             (limits, False) \<Rightarrow> ((limits, snd st), Inl RateLimited)
           | (limits, True) \<Rightarrow>
               (case read_store_for_account mode the_db (ac_account ctx) (snd st) of (w, confirmed) \<Rightarrow>
                  (case tier_of (the_db w) (ac_account ctx) of None \<Rightarrow> ((limits, w), Inl Unauthorized)
                   | Some t \<Rightarrow> ((limits, w), Inr \<lparr>pa_confirmed = confirmed, pa_checked_at = packs_checked_at (ac_account ctx) (the_db w),
                       pa_tier = t, pa_packs = packs_for now (ac_account ctx) rules (the_db w)\<rparr>)))))"

definition get_packs :: "(string \<Rightarrow> string) \<Rightarrow> seconds \<Rightarrow> pack_rules \<Rightarrow> string option \<Rightarrow> db \<Rightarrow> refusal + (held_pack list \<times> seconds option)" where
  "get_packs sha now rules header s =
     (case authenticate_device sha s (bearer_from_header header) of None \<Rightarrow> Inl Unauthorized
      | Some ctx \<Rightarrow> Inr (packs_for now (ac_account ctx) rules s, packs_checked_at (ac_account ctx) s))"


subsection \<open>The contract of a credential\<close>

lemma find_exists: "x \<in> set xs \<Longrightarrow> P x \<Longrightarrow> \<exists>y. List.find P xs = Some y"
  by (cases "List.find P xs") (auto dest: find_NoneD)

text \<open>What every lookup by the hash of a secret promises: it answers only for a well-formed secret whose
  hash some row holds, with what the caller may know of that row.\<close>

locale credential =
  fixes prefix :: string and sha :: "string \<Rightarrow> string" and rows :: "db \<Rightarrow> 'r list" and hash_of :: "'r \<Rightarrow> string option"
    and view :: "'r \<Rightarrow> 'v" and lookup :: "db \<Rightarrow> string option \<Rightarrow> 'v option"
  assumes found: "lookup s b = Some v \<Longrightarrow>
      \<exists>t r. b = Some t \<and> is_credential prefix t \<and> r \<in> set (rows s) \<and> hash_of r = Some (sha t) \<and> v = view r"
    and known: "is_credential prefix t \<Longrightarrow> r \<in> set (rows s) \<Longrightarrow> hash_of r = Some (sha t) \<Longrightarrow> lookup s (Some t) \<noteq> None"
begin

lemma lookup_iff:
  assumes "\<And>r r'. r \<in> set (rows s) \<Longrightarrow> r' \<in> set (rows s) \<Longrightarrow> hash_of r = hash_of r' \<Longrightarrow> hash_of r \<noteq> None \<Longrightarrow> r = r'"
  shows "lookup s (Some t) = Some v \<longleftrightarrow> is_credential prefix t \<and> (\<exists>r \<in> set (rows s). hash_of r = Some (sha t) \<and> v = view r)"
proof
  assume "lookup s (Some t) = Some v"
  from found[OF this] show "is_credential prefix t \<and> (\<exists>r \<in> set (rows s). hash_of r = Some (sha t) \<and> v = view r)" by auto
next
  assume "is_credential prefix t \<and> (\<exists>r \<in> set (rows s). hash_of r = Some (sha t) \<and> v = view r)"
  then obtain r where r: "is_credential prefix t" "r \<in> set (rows s)" "hash_of r = Some (sha t)" "v = view r" by blast
  from known[OF r(1-3)] obtain w where w: "lookup s (Some t) = Some w" by auto
  from found[OF w] r(2,3) assms[of r] have "w = view r" by fastforce
  with w r(4) show "lookup s (Some t) = Some v" by simp
qed

text \<open>With a hash that keeps two secrets apart, the secret of a row is its own.\<close>

lemma same_secret:
  assumes "inj sha" "inj_on view (set (rows s))" "lookup s (Some t) = Some v" "lookup s (Some t') = Some v"
  shows "t = t'"
proof -
  from found[OF assms(3)] obtain r where r: "r \<in> set (rows s)" "hash_of r = Some (sha t)" "v = view r" by blast
  from found[OF assms(4)] obtain r' where r': "r' \<in> set (rows s)" "hash_of r' = Some (sha t')" "v = view r'" by blast
  have "r = r'" using inj_onD[OF assms(2), of r r'] r r' by simp
  with r(2) r'(2) have "sha t = sha t'" by simp
  with assms(1) show "t = t'" by (rule injD)
qed

end

interpretation device_credential:
  credential "''dv_''" sha devices "\<lambda>d. Some (d_token_hash d)" "\<lambda>d. \<lparr>ac_account = d_account_id d, ac_device = d_id d\<rparr>"
    "authenticate_device sha" for sha
proof
  fix s b v t r
  show "authenticate_device sha s b = Some v \<Longrightarrow> \<exists>t r. b = Some t \<and> is_credential ''dv_'' t \<and> r \<in> set (devices s) \<and>
      Some (d_token_hash r) = Some (sha t) \<and> v = \<lparr>ac_account = d_account_id r, ac_device = d_id r\<rparr>"
    by (fastforce simp: authenticate_device_def split: option.splits if_splits dest: find_SomeD)
  show "is_credential ''dv_'' t \<Longrightarrow> r \<in> set (devices s) \<Longrightarrow> Some (d_token_hash r) = Some (sha t) \<Longrightarrow>
      authenticate_device sha s (Some t) \<noteq> None"
    using find_exists[of r "devices s" "\<lambda>d. d_token_hash d = sha t"] by (auto simp: authenticate_device_def dest: find_SomeD)
qed

interpretation join_credential:
  credential "''aj_''" sha accounts a_join_token_hash "\<lambda>a. (a_id a, a_tier a)" "authenticate_account_join sha" for sha
proof
  fix s b v t r
  show "authenticate_account_join sha s b = Some v \<Longrightarrow> \<exists>t r. b = Some t \<and> is_credential ''aj_'' t \<and> r \<in> set (accounts s) \<and>
      a_join_token_hash r = Some (sha t) \<and> v = (a_id r, a_tier r)"
    by (fastforce simp: authenticate_account_join_def split: option.splits if_splits dest: find_SomeD)
  show "is_credential ''aj_'' t \<Longrightarrow> r \<in> set (accounts s) \<Longrightarrow> a_join_token_hash r = Some (sha t) \<Longrightarrow>
      authenticate_account_join sha s (Some t) \<noteq> None"
    using find_exists[of r "accounts s" "\<lambda>a. a_join_token_hash a = Some (sha t)"]
    by (auto simp: authenticate_account_join_def dest: find_SomeD)
qed

subsection \<open>A device acts on itself\<close>

datatype device_call =
    CallPatch "device_update option" | CallRelease | CallSubscribe "string option" | CallUnsubscribe string
  | CallToken "token_input option" | CallDropToken "token_kind option" "string option"

definition answer_of :: "db \<Rightarrow> refusal + db \<Rightarrow> db \<times> refusal option" where
  "answer_of s r = (case r of Inl e \<Rightarrow> (s, Some e) | Inr s' \<Rightarrow> (s', None))"

text \<open>The database after the call, and the refusal if there was one.\<close>

definition device_call :: "(string \<Rightarrow> string) \<Rightarrow> seconds \<Rightarrow> string option \<Rightarrow> ident \<Rightarrow> device_call \<Rightarrow> db \<Rightarrow> db \<times> refusal option" where
  "device_call sha now header dev call s =
     (case call of
        CallPatch u \<Rightarrow> (case patch_device sha now header dev u s of (s', Inl e) \<Rightarrow> (s', Some e) | (s', Inr _) \<Rightarrow> (s', None))
      | CallRelease \<Rightarrow> answer_of s (release_device sha header dev s)
      | CallSubscribe h \<Rightarrow> answer_of s (post_subscription sha header dev h s)
      | CallUnsubscribe h \<Rightarrow> answer_of s (delete_subscription sha header dev h s)
      | CallToken t \<Rightarrow> answer_of s (post_token sha now header dev t s)
      | CallDropToken k act \<Rightarrow> answer_of s (delete_token_route sha header dev k act s))"

text \<open>Every row that belongs to another device, and every table that belongs to none: the six tables with rows of a device are the same but for rows of this
  one, the attempts being those of its rounds, and the rest of the database is the same.\<close>

definition round_of_device :: "ident \<Rightarrow> db \<Rightarrow> ident \<Rightarrow> bool" where
  "round_of_device dev s rid \<longleftrightarrow> (\<exists>r \<in> set (check_rounds s). cr_device_id r = dev \<and> cr_id r = rid)"

definition beside_devices :: "db \<Rightarrow> db" where
  "beside_devices s =
     s\<lparr>devices := [], subscriptions := [], device_tokens := [], device_checks := [], check_rounds := [], check_attempts := []\<rparr>"

definition others_kept :: "ident \<Rightarrow> db \<Rightarrow> db \<Rightarrow> bool" where
  "others_kept dev s s' \<longleftrightarrow>
     del_where (\<lambda>d. d_id d = dev) (devices s') = del_where (\<lambda>d. d_id d = dev) (devices s) \<and>
     del_where (\<lambda>x. s_device_id x = dev) (subscriptions s') = del_where (\<lambda>x. s_device_id x = dev) (subscriptions s) \<and>
     del_where (\<lambda>x. dt_device_id x = dev) (device_tokens s') = del_where (\<lambda>x. dt_device_id x = dev) (device_tokens s) \<and>
     del_where (\<lambda>c. dc_device_id c = dev) (device_checks s') = del_where (\<lambda>c. dc_device_id c = dev) (device_checks s) \<and>
     del_where (\<lambda>r. cr_device_id r = dev) (check_rounds s') = del_where (\<lambda>r. cr_device_id r = dev) (check_rounds s) \<and>
     set (check_rounds s') \<subseteq> set (check_rounds s) \<and>
     del_where (\<lambda>a. round_of_device dev s (ca_round_id a)) (check_attempts s') = del_where (\<lambda>a. round_of_device dev s (ca_round_id a)) (check_attempts s) \<and>
     beside_devices s' = beside_devices s"

lemma others_kept_refl [simp]: "others_kept dev s s"
  by (simp add: others_kept_def)

lemma del_where_upd_where: "(\<And>r. P r \<Longrightarrow> Q r) \<Longrightarrow> (\<And>r. P r \<Longrightarrow> Q (f r)) \<Longrightarrow> del_where Q (upd_where P f rows) = del_where Q rows"
  by (induction rows) (auto simp: del_where_def)

lemma del_where_del_where: "(\<And>r. P r \<Longrightarrow> Q r) \<Longrightarrow> del_where Q (del_where P rows) = del_where Q rows"
  by (induction rows) (auto simp: del_where_def)

lemma others_kept_trans: assumes "others_kept dev s s'" "others_kept dev s' s''" shows "others_kept dev s s''"
proof -
  have sub: "round_of_device dev s' x \<Longrightarrow> round_of_device dev s x" for x
    using assms(1) by (auto simp: others_kept_def round_of_device_def)
  let ?P = "\<lambda>a. round_of_device dev s (ca_round_id a)" and ?P' = "\<lambda>a. round_of_device dev s' (ca_round_id a)"
  have "del_where ?P (check_attempts s'') = del_where ?P (del_where ?P' (check_attempts s''))" by (simp add: del_where_del_where sub)
  also have "\<dots> = del_where ?P (del_where ?P' (check_attempts s'))" using assms(2) by (simp add: others_kept_def)
  also have "\<dots> = del_where ?P (check_attempts s)" using assms(1) by (simp add: del_where_del_where sub others_kept_def)
  finally have attempts: "del_where ?P (check_attempts s'') = del_where ?P (check_attempts s)" .
  with assms show ?thesis by (auto simp: others_kept_def)
qed

lemma del_where_upsert:
  "(\<And>r. P r \<Longrightarrow> Q r) \<Longrightarrow> (\<And>r. P r \<Longrightarrow> Q (f r)) \<Longrightarrow> Q new \<Longrightarrow> del_where Q (upsert P f new rows) = del_where Q rows"
  by (simp add: upsert_def del_where_upd_where) (simp add: del_where_def)

lemma del_where_one [simp]: "del_where P [x] = (if P x then [] else [x])"
  by (simp add: del_where_def)

lemma kept_set_alarm_token: "others_kept dev s (set_alarm_token now dev p tok s)"
  by (auto simp: others_kept_def beside_devices_def set_alarm_token_def intro!: del_where_del_where)

lemma kept_new_token_due: "others_kept dev s (check_due_after_new_token now dev s)"
  by (auto simp: others_kept_def beside_devices_def check_due_after_new_token_def upd_check_def intro!: del_where_upd_where)

lemma kept_write_device: "others_kept dev s (s\<lparr>devices := upd_where (\<lambda>d. d_id d = dev) (write_device now u p) (devices s)\<rparr>)"
  by (auto simp: others_kept_def beside_devices_def write_device_def intro!: del_where_upd_where)

lemma kept_update_device: "others_kept dev s (fst (update_device sha now dev u b p s))"
proof -
  note one = kept_write_device and two = others_kept_trans[OF kept_write_device kept_set_alarm_token]
  show ?thesis
    by (auto simp: update_device_def Let_def split: option.split
        intro: one two others_kept_trans[OF one kept_new_token_due] others_kept_trans[OF two kept_new_token_due])
qed

lemma kept_delete_device: "others_kept dev s (delete_device dev s)"
proof -
  have gone: "del_where (\<lambda>x. f x = dev) (del_where (\<lambda>x. list_ex (\<lambda>d. d_id d = dev \<and> d_id d = f x) ds) rows) =
      del_where (\<lambda>x. f x = dev) rows" for f :: "'x \<Rightarrow> ident" and ds :: "device_row list" and rows
    by (rule del_where_del_where) (auto simp: list_ex_iff)
  have rounds: "list_ex (\<lambda>r. list_ex (\<lambda>d. d_id d = dev \<and> d_id d = cr_device_id r) (devices s) \<and> cr_id r = x) (check_rounds s) \<Longrightarrow> round_of_device dev s x" for x
    by (auto simp: list_ex_iff round_of_device_def)
  show ?thesis
    by (auto simp: others_kept_def beside_devices_def delete_device_def delete_devices_def delete_topics_def Let_def gone del_where_del_where rounds
        set_del_where)
qed

lemma kept_put_token: "put_device_token now dev t s = Inr s' \<Longrightarrow> others_kept dev s s'"
  by (auto simp: put_device_token_def others_kept_def beside_devices_def Let_def token_of_device_def split: if_splits intro!: del_where_upsert)

lemma kept_subscriptions:
  "subscribe_device ctx h s = Inr s' \<Longrightarrow> others_kept (ac_device ctx) s s'"
  "others_kept (ac_device ctx) s (unsubscribe_device ctx h s)"
  "others_kept dev s (delete_device_tokens dev k act s)"
  by (auto simp: subscribe_device_def unsubscribe_device_def delete_device_tokens_def others_kept_def beside_devices_def
      split: option.splits if_splits intro!: del_where_del_where)

lemma own_deviceD:
  assumes "own_device sha s header dev = Inr ctx"
  shows "authenticate_device sha s (bearer_from_header header) = Some ctx \<and> ac_device ctx = dev"
  using assms by (auto simp: own_device_def split: option.splits if_splits)

lemma update_device_anonymous:
  "authenticate_device sha s bearer = None \<or> (\<exists>ctx. authenticate_device sha s bearer = Some ctx \<and> ac_device ctx \<noteq> dev) \<Longrightarrow>
     fst (update_device sha now dev u bearer p s) = s"
  by (auto simp: update_device_def)

lemma patch_device_cases:
  assumes "patch_device sha now header dev u s = (s', r)"
  shows "others_kept dev s s' \<and>
    ((\<exists>ctx. authenticate_device sha s (bearer_from_header header) = Some ctx \<and> ac_device ctx = dev) \<or> s' = s \<and> (\<exists>e. r = Inl e))"
proof (cases "\<exists>v ctx. u = Some v \<and> device_update_ok v \<and> own_device sha s header dev = Inr ctx")
  case False
  then show ?thesis using assms by (auto simp: patch_device_def split: option.splits if_splits sum.splits)
next
  case True
  then obtain v ctx where v: "u = Some v" "device_update_ok v" "own_device sha s header dev = Inr ctx" by blast
  note own = own_deviceD[OF v(3)]
  have "s' = fst (update_device sha now dev v (bearer_from_header header) None s)"
    using assms v own by (auto simp: patch_device_def split: prod.splits sum.splits option.splits)
  then show ?thesis using kept_update_device own by auto
qed

text \<open>C36: A device acts only on itself. Whatever device route is called, with whatever outcome, it succeeds or changes something only when
  the request carries a well-formed device token whose hash is the one of the device in the path;
  and then every row of every other device is as before, its checks, rounds and attempts included, and so is every row of every table
  that is not about devices.\<close>

theorem device_acts_on_itself:
  assumes "device_call sha now header dev call s = (s', refused)"
  shows "(s' \<noteq> s \<or> refused = None \<longrightarrow> (\<exists>t d. header = Some (''Bearer '' @ t) \<and> is_credential ''dv_'' t \<and> d \<in> set (devices s) \<and>
      d_id d = dev \<and> d_token_hash d = sha t)) \<and> others_kept dev s s'"
proof -
  have call: "others_kept dev s s' \<and>
      ((\<exists>ctx. authenticate_device sha s (bearer_from_header header) = Some ctx \<and> ac_device ctx = dev) \<or> s' = s \<and> refused \<noteq> None)"
  proof (cases "\<exists>u. call = CallPatch u")
    case True
    then show ?thesis
      using assms by (auto simp: device_call_def split: prod.splits sum.splits dest!: patch_device_cases)
  next
    case False
    then show ?thesis
      using assms
      by (auto simp: device_call_def answer_of_def release_device_def post_subscription_def delete_subscription_def post_token_def
          delete_token_route_def split: device_call.splits sum.splits option.splits if_splits
          dest!: own_deviceD intro: kept_put_token kept_subscriptions kept_delete_device)
  qed
  have "\<exists>t d. header = Some (''Bearer '' @ t) \<and> is_credential ''dv_'' t \<and> d \<in> set (devices s) \<and> d_id d = dev \<and> d_token_hash d = sha t"
    if "authenticate_device sha s (bearer_from_header header) = Some ctx" "ac_device ctx = dev" for ctx
    using device_credential.found[OF that(1)] that(2)
    by (auto simp: bearer_from_header_def bearer_token_def Let_def starts_with_iff split: option.splits if_splits)
  then show ?thesis using call by blast
qed


definition demo_one_device :: db where
  "demo_one_device = empty_db\<lparr>
     accounts := [\<lparr>a_id = ''acc'', a_tier = Free, a_created_at = 0, a_join_token_hash = None, a_merged_into = None\<rparr>],
     devices := [\<lparr>d_id = ''dev'', d_account_id = ''acc'', d_token_hash = ''dv_1'', d_platform = Ios, d_push_token = ''ab'',
       d_last_seen = 0, d_app_version = None, d_apns_environment = None, d_last_alarm_push_at = None\<rparr>]\<rparr>"

theorem device_acts_on_itself_witness:
  "others_kept ''dev'' demo_one_device (delete_device ''dev'' demo_one_device)"
proof -
  have c: "device_call (\<lambda>x. x) 5 (Some ''Bearer dv_1'') ''dev'' CallRelease demo_one_device = (delete_device ''dev'' demo_one_device, None)"
    by code_simp
  show ?thesis using device_acts_on_itself[OF c] by simp
qed


end
