(* ===== verification/Topics.thy ===== *)
theory Topics
  imports Devices
begin

section \<open>Topics and their tokens\<close>

text \<open>
  \<open>src/src/v1/topics.ts\<close> and the management credential of \<open>src/src/v1/auth.ts\<close>. The fresh ids and tokens of a call are
  parameters; a field of a JSON body that may have any type is a \<open>field\<close>.
\<close>

record server_config =
  sc_mode :: server_mode
  sc_base_url :: string
  sc_relay_content :: relay_content

text \<open>What \<open>typeof\<close> tells apart in a field; a number carries its value when it is an integer.\<close>

datatype field = Missing | FText string | FBool bool | FNumber "int option" | FOther

subsection \<open>Who manages\<close>

definition show_admin_token :: "db \<Rightarrow> string option" where
  "show_admin_token s = map_of (server_settings s) ''admin_token''"

definition is_admin_header :: "string option \<Rightarrow> bool" where
  "is_admin_header header \<longleftrightarrow>
     (let h = (case header of None \<Rightarrow> [] | Some x \<Rightarrow> x) in starts_with ''Bearer '' h \<and> is_credential ''ad_'' (drop 7 h))"

definition authenticate_management :: "(string \<Rightarrow> string) \<Rightarrow> db \<Rightarrow> string option \<Rightarrow> server_mode \<Rightarrow> account_context option" where
  "authenticate_management sha s header m =
     (if m = SelfHostedMode
      then (if is_admin_header header \<and>
               bearer_secret_matches sha header (case show_admin_token s of None \<Rightarrow> [] | Some t \<Rightarrow> t)
            then Some \<lparr>ac_account = ''acc_selfhosted'', ac_device = ''admin''\<rparr> else None)
      else authenticate_device sha s (bearer_from_header header))"

subsection \<open>Reading topics\<close>

definition is_topic_name :: "string \<Rightarrow> bool" where
  "is_topic_name x \<longleftrightarrow> 1 \<le> length x \<and> length x \<le> 64 \<and> list_all is_word_char x"

definition choose_token_name :: "field \<Rightarrow> nat \<Rightarrow> string" where
  "choose_token_name input n =
     (let trimmed = (case input of FText x \<Rightarrow> trim (take_units 40 (trim x)) | _ \<Rightarrow> [])
      in if trimmed = [] then ''Token '' @ nat_text (Suc n) else trimmed)"

definition owned_topic :: "db \<Rightarrow> ident \<Rightarrow> string \<Rightarrow> topic_row option" where
  "owned_topic s acc name = List.find (\<lambda>t. t_account_id t = acc \<and> t_name t = name) (topics s)"

text \<open>The view of a topic leaves the relay name out everywhere but on a self-hosted server.\<close>

definition topic_view :: "server_config \<Rightarrow> topic_row \<Rightarrow> topic_row" where
  "topic_view cfg t = t\<lparr>t_relay_name := (if sc_mode cfg = SelfHostedMode then t_relay_name t else None)\<rparr>"

definition list_topics :: "server_config \<Rightarrow> ident \<Rightarrow> db \<Rightarrow> topic_row list" where
  "list_topics cfg acc s =
     map (topic_view cfg) (sort_key (\<lambda>t. (t_created_at t, t_name t)) (filter (\<lambda>t. t_account_id t = acc) (topics s)))"

datatype topic_error = InvalidName | Duplicate | CriticalCap | TopicMissing | TopicConstraint | AccountMissing

text \<open>\<open>account.tier\<close> of a row that is not there throws, which is \<^term>\<open>None\<close>.\<close>

definition critical_cap_reached :: "server_config \<Rightarrow> ident \<Rightarrow> db \<Rightarrow> bool option" where
  "critical_cap_reached cfg acc s =
     (if sc_mode cfg = SelfHostedMode then Some False
      else (case tier_of s acc of None \<Rightarrow> None
            | Some t \<Rightarrow> Some (case cap_critical_topics (caps_for t) of None \<Rightarrow> False
                         | Some limit \<Rightarrow> limit \<le> count_where (\<lambda>t. t_account_id t = acc \<and> t_critical t) (topics s))))"

text \<open>Whether a topic may become critical now: the cap, or the exception.\<close>

definition critical_refusal :: "server_config \<Rightarrow> ident \<Rightarrow> db \<Rightarrow> topic_error option" where
  "critical_refusal cfg acc s =
     (case critical_cap_reached cfg acc s of None \<Rightarrow> Some AccountMissing
      | Some reached \<Rightarrow> if reached then Some CriticalCap else None)"

subsection \<open>Changing topics\<close>

record fresh_topic =
  ft_id :: ident
  ft_token_id :: ident
  ft_token :: string
  ft_relay_name :: string

definition topic_hash_of :: "(string \<Rightarrow> string) \<Rightarrow> server_config \<Rightarrow> string \<Rightarrow> string" where
  "topic_hash_of sha cfg name = sha (sc_base_url cfg @ ''/'' @ name)"

definition new_topic_row :: "(string \<Rightarrow> string) \<Rightarrow> server_config \<Rightarrow> seconds \<Rightarrow> fresh_topic \<Rightarrow> ident \<Rightarrow> string \<Rightarrow> bool \<Rightarrow> topic_row" where
  "new_topic_row sha cfg now new acc name critical =
     \<lparr>t_id = ft_id new, t_account_id = acc, t_name = name, t_base_url = sc_base_url cfg,
      t_topic_hash = topic_hash_of sha cfg name, t_critical = critical, t_repeat_interval_s = 30, t_max_ring_s = 1800,
      t_desk_timer_s = 600, t_relay_content = sc_relay_content cfg, t_created_at = now,
      t_relay_name = (if sc_mode cfg = SelfHostedMode then Some (ft_relay_name new) else None)\<rparr>"

text \<open>The constraints an insert into \<open>topics\<close> and \<open>topic_tokens\<close> can break: the ids, the hash of the
  account, the hash of the token.\<close>

definition create_topic ::
  "(string \<Rightarrow> string) \<Rightarrow> server_config \<Rightarrow> seconds \<Rightarrow> fresh_topic \<Rightarrow> ident \<Rightarrow> string \<Rightarrow> bool \<Rightarrow> field \<Rightarrow> db \<Rightarrow>
   topic_error + db \<times> topic_row \<times> string" where
  "create_topic sha cfg now new acc name critical token_name s =
     (if \<not> is_topic_name name then Inl InvalidName
      else if owned_topic s acc name \<noteq> None then Inl Duplicate
      else if critical \<and> critical_refusal cfg acc s \<noteq> None then Inl (the (critical_refusal cfg acc s))
      else (let row = new_topic_row sha cfg now new acc name critical; chosen = choose_token_name token_name 0
            in if list_ex (\<lambda>t. t_id t = ft_id new \<or> (t_account_id t = acc \<and> t_topic_hash t = t_topic_hash row)) (topics s) \<or>
                  list_ex (\<lambda>k. tt_id k = ft_token_id new \<or> tt_hash k = sha (ft_token new)) (topic_tokens s)
               then Inl TopicConstraint
               else (let s1 = sweep_topic_into_devices acc (t_topic_hash row)
                           (s\<lparr>topics := topics s @ [row],
                              topic_tokens := topic_tokens s @ [\<lparr>tt_id = ft_token_id new, tt_topic_id = ft_id new,
                                tt_hash = sha (ft_token new), tt_created_at = now, tt_name = chosen\<rparr>]\<rparr>)
                     in Inr (s1, topic_view cfg row, chosen))))"

record topic_patch =
  tp_critical :: field
  tp_repeat_interval_s :: field
  tp_max_ring_s :: field
  tp_desk_timer_s :: field

definition positive_integer :: "field \<Rightarrow> int option" where
  "positive_integer f = (case f of FNumber (Some n) \<Rightarrow> if 0 < n then Some n else None | _ \<Rightarrow> None)"

definition patched :: "topic_patch \<Rightarrow> topic_row \<Rightarrow> topic_row" where
  "patched p t =
     t\<lparr>t_critical := (case tp_critical p of FBool b \<Rightarrow> b | _ \<Rightarrow> t_critical t),
       t_repeat_interval_s := (case positive_integer (tp_repeat_interval_s p) of None \<Rightarrow> t_repeat_interval_s t | Some n \<Rightarrow> n),
       t_max_ring_s := (case positive_integer (tp_max_ring_s p) of None \<Rightarrow> t_max_ring_s t | Some n \<Rightarrow> n),
       t_desk_timer_s := (case positive_integer (tp_desk_timer_s p) of None \<Rightarrow> t_desk_timer_s t | Some n \<Rightarrow> n)\<rparr>"

definition patch_topic :: "server_config \<Rightarrow> ident \<Rightarrow> string \<Rightarrow> topic_patch \<Rightarrow> db \<Rightarrow> topic_error + db \<times> topic_row" where
  "patch_topic cfg acc name p s =
     (case owned_topic s acc name of None \<Rightarrow> Inl TopicMissing
      | Some t \<Rightarrow>
          if tp_critical p = FBool True \<and> \<not> t_critical t \<and> critical_refusal cfg acc s \<noteq> None
          then Inl (the (critical_refusal cfg acc s))
          else (let s1 = s\<lparr>topics := upd_where (\<lambda>x. t_id x = t_id t) (patched p) (topics s)\<rparr>
                in case owned_topic s1 acc name of None \<Rightarrow> Inl TopicMissing | Some t' \<Rightarrow> Inr (s1, t')))"

subsection \<open>Tokens of a topic\<close>

definition tokens_of :: "db \<Rightarrow> ident \<Rightarrow> topic_token_row list" where
  "tokens_of s tid = filter (\<lambda>k. tt_topic_id k = tid) (topic_tokens s)"

definition list_tokens :: "ident \<Rightarrow> string \<Rightarrow> db \<Rightarrow> topic_token_row list option" where
  "list_tokens acc name s =
     (case owned_topic s acc name of None \<Rightarrow> None | Some t \<Rightarrow> Some (sort_key tt_created_at (tokens_of s (t_id t))))"

definition add_token ::
  "(string \<Rightarrow> string) \<Rightarrow> seconds \<Rightarrow> fresh_topic \<Rightarrow> ident \<Rightarrow> string \<Rightarrow> field \<Rightarrow> db \<Rightarrow> topic_error + db \<times> string" where
  "add_token sha now new acc name token_name s =
     (case owned_topic s acc name of None \<Rightarrow> Inl TopicMissing
      | Some t \<Rightarrow>
          (let chosen = choose_token_name token_name (length (tokens_of s (t_id t)))
           in if list_ex (\<lambda>k. tt_id k = ft_token_id new \<or> tt_hash k = sha (ft_token new)) (topic_tokens s) then Inl TopicConstraint
              else Inr (s\<lparr>topic_tokens := topic_tokens s @ [\<lparr>tt_id = ft_token_id new, tt_topic_id = t_id t,
                     tt_hash = sha (ft_token new), tt_created_at = now, tt_name = chosen\<rparr>]\<rparr>, chosen)))"

definition rename_token :: "ident \<Rightarrow> string \<Rightarrow> ident \<Rightarrow> string \<Rightarrow> db \<Rightarrow> topic_error + db \<times> topic_token_row option" where
  "rename_token acc topic_name tok name s =
     (case owned_topic s acc topic_name of None \<Rightarrow> Inl TopicMissing
      | Some t \<Rightarrow>
          (let own = (\<lambda>k. tt_topic_id k = t_id t \<and> tt_id k = tok);
               s1 = s\<lparr>topic_tokens := upd_where own (\<lambda>k. k\<lparr>tt_name := choose_token_name (FText name) 0\<rparr>) (topic_tokens s)\<rparr>
           in if \<not> list_ex own (topic_tokens s) then Inl TopicMissing
              else Inr (s1, List.find (\<lambda>k. tt_id k = tok) (topic_tokens s1))))"

datatype token_deletion = Deleted | Final | MissingToken

definition delete_token :: "ident \<Rightarrow> string \<Rightarrow> ident \<Rightarrow> db \<Rightarrow> db \<times> token_deletion" where
  "delete_token acc name tok s =
     (case owned_topic s acc name of None \<Rightarrow> (s, MissingToken)
      | Some t \<Rightarrow>
          if \<not> list_ex (\<lambda>k. tt_topic_id k = t_id t \<and> tt_id k = tok) (topic_tokens s) then (s, MissingToken)
          else if length (tokens_of s (t_id t)) = 1 then (s, Final)
          else (s\<lparr>topic_tokens := del_where (\<lambda>k. tt_id k = tok) (topic_tokens s)\<rparr>, Deleted))"

definition delete_topic :: "ident \<Rightarrow> string \<Rightarrow> db \<Rightarrow> db \<times> bool" where
  "delete_topic acc name s =
     (case owned_topic s acc name of None \<Rightarrow> (s, False)
      | Some t \<Rightarrow>
          (delete_topics (\<lambda>x. t_id x = t_id t)
             (s\<lparr>subscriptions := del_where (\<lambda>x. s_topic_hash x = t_topic_hash t \<and>
                   list_ex (\<lambda>d. d_id d = s_device_id x \<and> d_account_id d = acc) (devices s)) (subscriptions s)\<rparr>), True))"

definition ensure_relay_names :: "(ident \<Rightarrow> string) \<Rightarrow> db \<Rightarrow> db" where
  "ensure_relay_names fresh s =
     s\<lparr>topics := upd_where (\<lambda>t. t_relay_name t = None) (\<lambda>t. t\<lparr>t_relay_name := Some (fresh (t_id t))\<rparr>) (topics s)\<rparr>"

end
