(* ===== verification/Accounts.thy ===== *)
theory Accounts
  imports Topics
begin

section \<open>Accounts: linking, switching, merging and erasing\<close>

text \<open>
  \<open>src/src/v1/accounts.ts\<close>. What an identity token resolves to is the parameter \<open>resolve\<close>. A \<open>SELECT\<close> without an
  order reads rows in rowid order. A transaction that throws leaves the database as it was.
\<close>

subsection \<open>Tombstones\<close>

text \<open>Unlike \<open>follow_merge\<close>, this walk answers the last id it saw when it ends after eight rows.\<close>

fun live_hops :: "nat \<Rightarrow> db \<Rightarrow> ident \<Rightarrow> ident" where
  "live_hops 0 s current = current"
| "live_hops (Suc n) s current =
     (case account_of s current of None \<Rightarrow> current
      | Some a \<Rightarrow> (case a_merged_into a of None \<Rightarrow> current | Some next \<Rightarrow> live_hops n s next))"

definition live_account :: "db \<Rightarrow> ident \<Rightarrow> ident" where
  "live_account s acc = live_hops 8 s acc"

definition identity_account :: "db \<Rightarrow> ident \<Rightarrow> ident option" where
  "identity_account s user =
     (case List.find (\<lambda>i. id_user_id i = user) (account_identities s) of None \<Rightarrow> None
      | Some i \<Rightarrow> Some (live_account s (id_account_id i)))"

definition identities_of :: "db \<Rightarrow> ident \<Rightarrow> ident list" where
  "identities_of s acc = map id_user_id (filter (\<lambda>i. id_account_id i = acc) (account_identities s))"

definition claimed_by_somebody_else :: "db \<Rightarrow> ident \<Rightarrow> ident \<Rightarrow> bool" where
  "claimed_by_somebody_else s acc user \<longleftrightarrow> identities_of s acc \<noteq> [] \<and> user \<notin> set (identities_of s acc)"

definition account_content :: "db \<Rightarrow> ident \<Rightarrow> nat \<times> nat" where
  "account_content s acc =
     (count_where (\<lambda>t. t_account_id t = acc) (topics s), count_where (\<lambda>i. topic_owned_by s acc (i_topic_id i)) (incidents s))"

definition move_device :: "ident \<Rightarrow> ident \<Rightarrow> db \<Rightarrow> db" where
  "move_device into dev s =
     sweep_device_into_topics into dev
       (s\<lparr>subscriptions := del_where (\<lambda>x. s_device_id x = dev) (subscriptions s),
          devices := upd_where (\<lambda>d. d_id d = dev) (\<lambda>d. d\<lparr>d_account_id := into\<rparr>) (devices s)\<rparr>)"

definition devices_of :: "db \<Rightarrow> ident \<Rightarrow> ident list" where
  "devices_of s acc = map d_id (filter (\<lambda>d. d_account_id d = acc) (devices s))"

definition move_devices :: "ident \<Rightarrow> ident \<Rightarrow> db \<Rightarrow> db" where
  "move_devices from into s = fold (move_device into) (devices_of s from) s"

definition tombstone :: "ident \<Rightarrow> ident \<Rightarrow> db \<Rightarrow> db" where
  "tombstone acc into s =
     s\<lparr>accounts := upd_where (\<lambda>a. a_id a = acc) (\<lambda>a. a\<lparr>a_merged_into := Some into, a_join_token_hash := None\<rparr>) (accounts s),
       account_identities := upd_where (\<lambda>i. id_account_id i = acc) (\<lambda>i. i\<lparr>id_account_id := into\<rparr>) (account_identities s)\<rparr>"

definition revoke_topic_tokens :: "ident \<Rightarrow> db \<Rightarrow> db" where
  "revoke_topic_tokens acc s =
     s\<lparr>topic_tokens := del_where (\<lambda>k. topic_owned_by s acc (tt_topic_id k)) (topic_tokens s)\<rparr>"

subsection \<open>Linking an identity\<close>

datatype link_intent = SignIn | LinkIntent
datatype link_kind = Claimed | Attached | Linked | AlreadyLinked
datatype link_outcome =
    LinkDone ident link_kind
  | LinkUnauthorized
  | LinkChoose ident nat nat
  | AccountHasAnother
  | IdentityHasAnother

definition link_identity ::
  "(string \<Rightarrow> ident option) \<Rightarrow> seconds \<Rightarrow> ident \<Rightarrow> string \<Rightarrow> link_intent \<Rightarrow> db \<Rightarrow> db \<times> link_outcome" where
  "link_identity resolve now source_account token intent s =
     (case resolve token of None \<Rightarrow> (s, LinkUnauthorized)
      | Some user \<Rightarrow>
          (let source = live_account s source_account; target = identity_account s user
           in if target = Some source then (s, LinkDone source AlreadyLinked)
              else (case target of
                      None \<Rightarrow>
                        if identities_of s source \<noteq> [] \<and> intent = SignIn then (s, AccountHasAnother)
                        else (s\<lparr>account_identities := account_identities s @
                                  [\<lparr>id_user_id = user, id_account_id = source, id_linked_at = now\<rparr>]\<rparr>,
                              LinkDone source (if identities_of s source \<noteq> [] then Linked else Claimed))
                    | Some into \<Rightarrow>
                        if intent = SignIn \<and> claimed_by_somebody_else s source user then (s, AccountHasAnother)
                        else if account_content s source = (0, 0)
                        then (tombstone source into (move_devices source into s), LinkDone into Attached)
                        else if intent = LinkIntent then (s, IdentityHasAnother)
                        else (s, LinkChoose into (fst (account_content s source)) (snd (account_content s source))))))"

subsection \<open>Switching to the identity's account\<close>

datatype switch_outcome = Switched ident | SwitchUnauthorized | SwitchHasAnother

definition switch_account ::
  "(string \<Rightarrow> ident option) \<Rightarrow> ident \<Rightarrow> string \<Rightarrow> ident \<Rightarrow> db \<Rightarrow> db \<times> switch_outcome" where
  "switch_account resolve source_account token into_account s =
     (case resolve token of None \<Rightarrow> (s, SwitchUnauthorized)
      | Some user \<Rightarrow>
          (case identity_account s user of None \<Rightarrow> (s, SwitchUnauthorized)
           | Some target \<Rightarrow>
               if target \<noteq> live_account s into_account then (s, SwitchUnauthorized)
               else (let source = live_account s source_account
                     in if source = target then (s, Switched target)
                        else if claimed_by_somebody_else s source user then (s, SwitchHasAnother)
                        else (tombstone source target (revoke_topic_tokens source (move_devices source target s)),
                              Switched target))))"

subsection \<open>Merging two accounts\<close>

fun family_hops :: "nat \<Rightarrow> db \<Rightarrow> ident list \<Rightarrow> ident list" where
  "family_hops 0 s family = family"
| "family_hops (Suc n) s family =
     (let found = filter (\<lambda>a. a \<notin> set family)
            (map a_id (filter (\<lambda>a. case a_merged_into a of None \<Rightarrow> False | Some m \<Rightarrow> m \<in> set family) (accounts s)))
      in if found = [] then family else family_hops n s (family @ found))"

definition account_family :: "db \<Rightarrow> ident \<Rightarrow> ident list" where
  "account_family s acc = family_hops 8 s [acc]"

definition incident_in_family :: "incident_state set \<Rightarrow> db \<Rightarrow> ident list \<Rightarrow> ident option" where
  "incident_in_family states s family =
     map_option i_id
       (List.find (\<lambda>i. i_state i \<in> states \<and> list_ex (\<lambda>acc. topic_owned_by s acc (i_topic_id i)) family) (incidents s))"

definition active_incident :: "db \<Rightarrow> ident list \<Rightarrow> ident option" where
  "active_incident = incident_in_family {Open, Acked}"

definition merged_into :: "db \<Rightarrow> ident \<Rightarrow> ident option" where
  "merged_into s acc = (case account_of s acc of None \<Rightarrow> None | Some a \<Rightarrow> a_merged_into a)"

definition repoint_tombstones :: "ident \<Rightarrow> ident \<Rightarrow> db \<Rightarrow> db" where
  "repoint_tombstones source target s =
     s\<lparr>accounts := upd_where (\<lambda>a. a_merged_into a = Some source) (\<lambda>a. a\<lparr>a_merged_into := Some target\<rparr>) (accounts s)\<rparr>"

text \<open>One topic of the source: it moves when the target has none of its hash or name, otherwise its
  tokens, incidents and messages move and the topic goes.\<close>

definition survivor_of :: "ident \<Rightarrow> topic_row \<Rightarrow> db \<Rightarrow> topic_row option" where
  "survivor_of target t s =
     List.find (\<lambda>x. t_account_id x = target \<and> (t_topic_hash x = t_topic_hash t \<or> t_name x = t_name t)) (topics s)"

definition merge_topic :: "ident \<Rightarrow> topic_row \<Rightarrow> db \<times> merge_counts \<Rightarrow> db \<times> merge_counts" where
  "merge_topic target t st =
     (case st of (s, c) \<Rightarrow>
        (case survivor_of target t s of
           None \<Rightarrow>
             (sweep_topic_into_devices target (t_topic_hash t)
                (s\<lparr>topics := upd_where (\<lambda>x. t_id x = t_id t) (\<lambda>x. x\<lparr>t_account_id := target\<rparr>) (topics s)\<rparr>),
              c\<lparr>mc_topics_repointed := mc_topics_repointed c + 1\<rparr>)
         | Some v \<Rightarrow>
             (delete_topics (\<lambda>x. t_id x = t_id t)
                (s\<lparr>topic_tokens := upd_where (\<lambda>k. tt_topic_id k = t_id t) (\<lambda>k. k\<lparr>tt_topic_id := t_id v\<rparr>) (topic_tokens s),
                   incidents := upd_where (\<lambda>i. i_topic_id i = t_id t) (\<lambda>i. i\<lparr>i_topic_id := t_id v\<rparr>) (incidents s),
                   messages := upd_where (\<lambda>m. m_topic_id m = t_id t) (\<lambda>m. m\<lparr>m_topic_id := t_id v\<rparr>) (messages s)\<rparr>),
              c\<lparr>mc_tokens_repointed := mc_tokens_repointed c + count_where (\<lambda>k. tt_topic_id k = t_id t) (topic_tokens s),
                mc_incidents := mc_incidents c + count_where (\<lambda>i. i_topic_id i = t_id t) (incidents s),
                mc_messages := mc_messages c + count_where (\<lambda>m. m_topic_id m = t_id t) (messages s),
                mc_topics_folded := mc_topics_folded c + 1\<rparr>)))"

definition no_counts :: merge_counts where
  "no_counts = \<lparr>mc_devices = 0, mc_topics_repointed = 0, mc_topics_folded = 0, mc_tokens_repointed = 0,
     mc_incidents = 0, mc_messages = 0, mc_billing_ids = 0, mc_tier_before = Free, mc_tier_after = Free\<rparr>"

definition merge_topics :: "ident \<Rightarrow> ident \<Rightarrow> db \<Rightarrow> db \<times> merge_counts" where
  "merge_topics source target s = fold (merge_topic target) (filter (\<lambda>t. t_account_id t = source) (topics s)) (s, no_counts)"

definition merge_devices :: "ident \<Rightarrow> ident \<Rightarrow> db \<times> merge_counts \<Rightarrow> db \<times> merge_counts" where
  "merge_devices source target st =
     (case st of (s, c) \<Rightarrow>
        (move_devices source target s, c\<lparr>mc_devices := count_where (\<lambda>d. d_account_id d = source) (devices s)\<rparr>))"

text \<open>The billing ids move, and the tier is only ever raised. The read of the target's tier throws when
  there is no such row.\<close>

definition merge_billing :: "seconds \<Rightarrow> ident \<Rightarrow> ident \<Rightarrow> db \<times> merge_counts \<Rightarrow> (db \<times> merge_counts) option" where
  "merge_billing now source target st =
     (case st of (s, c) \<Rightarrow>
        (let s1 = s\<lparr>account_billing_ids :=
               upd_where (\<lambda>b. b_account_id b = source) (\<lambda>b. b\<lparr>b_account_id := target\<rparr>) (account_billing_ids s)\<rparr>
         in case tier_of s1 target of None \<Rightarrow> None
            | Some before \<Rightarrow>
                (let recomputed = highest_entitled_tier s1 target;
                     after = (if is_higher_tier recomputed before then recomputed else before);
                     s2 = (if after \<noteq> before
                           then (set_tier target after s1)\<lparr>tier_changes := tier_changes s1 @
                                  [\<lparr>tc_account_id = target, tc_from = before, tc_to = after,
                                    tc_reason = ''merge from '' @ source, tc_event_id = None, tc_changed_at = now\<rparr>]\<rparr>
                           else s1)
                 in Some (s2, c\<lparr>mc_billing_ids := count_where (\<lambda>b. b_account_id b = source) (account_billing_ids s),
                                mc_tier_before := before, mc_tier_after := after\<rparr>))))"

text \<open>No end date is longer than any end date, and a conflict keeps the longer one.\<close>

definition longer_end :: "seconds option \<Rightarrow> seconds option \<Rightarrow> seconds option" where
  "longer_end x y = (case x of None \<Rightarrow> None | Some a \<Rightarrow> (case y of None \<Rightarrow> None | Some b \<Rightarrow> Some (max a b)))"

definition merge_grants :: "ident \<Rightarrow> ident \<Rightarrow> db \<Rightarrow> db" where
  "merge_grants source target s =
     s\<lparr>account_pack_grants :=
         del_where (\<lambda>g. g_account_id g = source)
           (fold (\<lambda>g. upsert (\<lambda>x. g_account_id x = target \<and> g_pack x = g_pack g)
                       (\<lambda>x. x\<lparr>g_expires_at := longer_end (g_expires_at x) (g_expires_at g)\<rparr>) (g\<lparr>g_account_id := target\<rparr>))
             (filter (\<lambda>g. g_account_id g = source) (account_pack_grants s)) (account_pack_grants s))\<rparr>"

definition merge_usage :: "ident \<Rightarrow> ident \<Rightarrow> db \<Rightarrow> db" where
  "merge_usage source target s =
     s\<lparr>relay_p4_usage :=
         del_where (\<lambda>u. u_account_id u = source)
           (fold (\<lambda>u. upsert (\<lambda>x. u_account_id x = target \<and> u_day_start x = u_day_start u)
                       (\<lambda>x. x\<lparr>u_count := u_count x + u_count u\<rparr>) (u\<lparr>u_account_id := target\<rparr>))
             (filter (\<lambda>u. u_account_id u = source) (relay_p4_usage s)) (relay_p4_usage s))\<rparr>"

definition log_merge :: "seconds \<Rightarrow> ident \<Rightarrow> ident \<Rightarrow> merge_counts \<Rightarrow> db \<Rightarrow> db" where
  "log_merge now source target c s =
     s\<lparr>account_merges := account_merges s @ [\<lparr>am_from = source, am_into = target, am_merged_at = now, am_detail = c\<rparr>]\<rparr>"

text \<open>The whole transaction; \<^term>\<open>None\<close> is the exception that rolls it back.\<close>

definition merge_transaction :: "seconds \<Rightarrow> ident \<Rightarrow> ident \<Rightarrow> db \<Rightarrow> db option" where
  "merge_transaction now source target s =
     (case merge_billing now source target
             (merge_devices source target (merge_topics source target (repoint_tombstones source target s))) of
        None \<Rightarrow> None
      | Some (s1, c) \<Rightarrow>
          Some (log_merge now source target c
                 (tombstone source target (merge_usage source target (merge_grants source target s1)))))"

datatype merge_outcome =
  MergeDone ident ident | MergeUnauthorized | AlreadyMerged | SameAccount | MergeLiveIncident ident | MergeFailed

definition merge_accounts ::
  "(string \<Rightarrow> ident option) \<Rightarrow> seconds \<Rightarrow> ident \<Rightarrow> string \<Rightarrow> ident \<Rightarrow> db \<Rightarrow> db \<times> merge_outcome" where
  "merge_accounts resolve now source_account token into_account s =
     (case resolve token of None \<Rightarrow> (s, MergeUnauthorized)
      | Some user \<Rightarrow>
          (case identity_account s user of None \<Rightarrow> (s, MergeUnauthorized)
           | Some target \<Rightarrow>
               if target \<noteq> live_account s into_account then (s, MergeUnauthorized)
               else (let source = live_account s source_account
                     in if claimed_by_somebody_else s source user then (s, MergeUnauthorized)
                        else if merged_into s source_account \<noteq> None \<or> merged_into s into_account \<noteq> None then (s, AlreadyMerged)
                        else if source = target then (s, SameAccount)
                        else (case active_incident s (account_family s source @ account_family s target) of
                                Some inc \<Rightarrow> (s, MergeLiveIncident inc)
                              | None \<Rightarrow> (case merge_transaction now source target s of
                                          None \<Rightarrow> (s, MergeFailed) | Some s' \<Rightarrow> (s', MergeDone target source))))))"

subsection \<open>Erasing an account\<close>

record delete_counts =
  dl_accounts :: nat
  dl_devices :: nat
  dl_topics :: nat
  dl_incidents :: nat
  dl_messages :: nat
  dl_identities :: nat
  dl_events_cleared :: nat

definition family_topic :: "db \<Rightarrow> ident list \<Rightarrow> ident \<Rightarrow> bool" where
  "family_topic s family tid \<longleftrightarrow> list_ex (\<lambda>acc. topic_owned_by s acc tid) family"

definition family_users :: "db \<Rightarrow> ident list \<Rightarrow> ident list" where
  "family_users s family = map id_user_id (filter (\<lambda>i. id_account_id i \<in> set family) (account_identities s))"

definition erase_counts :: "db \<Rightarrow> ident list \<Rightarrow> delete_counts" where
  "erase_counts s family =
     \<lparr>dl_accounts = count_where (\<lambda>a. a_id a \<in> set family) (accounts s),
      dl_devices = count_where (\<lambda>d. d_account_id d \<in> set family) (devices s),
      dl_topics = count_where (\<lambda>t. t_account_id t \<in> set family) (topics s),
      dl_incidents = count_where (\<lambda>i. family_topic s family (i_topic_id i)) (incidents s),
      dl_messages = count_where (\<lambda>m. family_topic s family (m_topic_id m)) (messages s),
      dl_identities = length (family_users s family),
      dl_events_cleared = count_where (\<lambda>e. case be_account_id e of None \<Rightarrow> False | Some a \<Rightarrow> a \<in> set family) (billing_events s)\<rparr>"

text \<open>What has no cascade: the tier log, the log of events, the log of merges and queued reads.\<close>

definition clear_logs :: "ident list \<Rightarrow> db \<Rightarrow> db" where
  "clear_logs family s =
     s\<lparr>tier_changes := del_where (\<lambda>c. tc_account_id c \<in> set family) (tier_changes s),
       billing_events := upd_where (\<lambda>e. case be_account_id e of None \<Rightarrow> False | Some a \<Rightarrow> a \<in> set family)
         (\<lambda>e. e\<lparr>be_account_id := None\<rparr>) (billing_events s),
       account_merges := del_where (\<lambda>m. am_from m \<in> set family \<or> am_into m \<in> set family) (account_merges s),
       billing_reads := del_where (\<lambda>q. br_app_user_id q \<in> set family \<or>
         list_ex (\<lambda>b. b_account_id b \<in> set family \<and> b_app_user_id b = br_app_user_id q) (account_billing_ids s)) (billing_reads s)\<rparr>"

fun delete_account_rows :: "ident list \<Rightarrow> db \<Rightarrow> db option" where
  "delete_account_rows [] s = Some s"
| "delete_account_rows (acc # accs) s =
     (case delete_account_row acc s of None \<Rightarrow> None | Some s' \<Rightarrow> delete_account_rows accs s')"

text \<open>\<^term>\<open>None\<close> is the foreign key that refuses one of the deletes, which rolls all of it back.\<close>

definition erase_account :: "ident \<Rightarrow> db \<Rightarrow> (db \<times> delete_counts) option" where
  "erase_account acc s =
     (let family = account_family s (live_account s acc); gone = family_users s family
      in case delete_account_rows (rev family) (clear_logs family s) of None \<Rightarrow> None
         | Some s' \<Rightarrow> Some (s'\<lparr>users := del_where (\<lambda>u. us_id u \<in> set gone) (users s')\<rparr>, erase_counts s family))"

datatype account_query = ById ident | ByEmail string

definition find_account :: "account_query \<Rightarrow> db \<Rightarrow> ident option" where
  "find_account q s =
     (case q of
        ByEmail email \<Rightarrow>
          map_option (\<lambda>i. live_account s (id_account_id i))
            (List.find (\<lambda>i. list_ex (\<lambda>u. us_id u = id_user_id i \<and> us_email u = email) (users s)) (account_identities s))
      | ById acc \<Rightarrow> map_option (\<lambda>a. live_account s (a_id a)) (account_of s acc))"

definition open_incident :: "db \<Rightarrow> ident list \<Rightarrow> ident option" where
  "open_incident = incident_in_family {Open}"

datatype delete_outcome = Erased | DeleteUnauthorized | DeleteLiveIncident ident | DeleteFailed

text \<open>What the request decides before it calls the identity providers.\<close>

definition delete_refusal :: "(string \<Rightarrow> ident option) \<Rightarrow> ident \<Rightarrow> string option \<Rightarrow> db \<Rightarrow> delete_outcome option" where
  "delete_refusal resolve source_account token s =
     (let acc = live_account s source_account; family = account_family s acc; claimed_by = identities_of s acc;
          user = (case token of None \<Rightarrow> None | Some t \<Rightarrow> resolve t)
      in if claimed_by \<noteq> [] \<and> (case user of None \<Rightarrow> True | Some u \<Rightarrow> u \<notin> set claimed_by) then Some DeleteUnauthorized
         else map_option DeleteLiveIncident (open_incident s family))"

text \<open>The revocations are network calls: \<open>meanwhile\<close> is what other requests write until they are over.
  The second result is whom the providers were asked to revoke.\<close>

definition delete_account_request ::
  "(string \<Rightarrow> ident option) \<Rightarrow> (db \<Rightarrow> db) \<Rightarrow> ident \<Rightarrow> string option \<Rightarrow> db \<Rightarrow> db \<times> ident list \<times> delete_outcome" where
  "delete_account_request resolve meanwhile source_account token s =
     (case delete_refusal resolve source_account token s of
        Some refused \<Rightarrow> (s, [], refused)
      | None \<Rightarrow>
          (let acc = live_account s source_account; revoked = concat (map (identities_of s) (account_family s acc)); s1 = meanwhile s
           in case erase_account acc s1 of None \<Rightarrow> (s1, revoked, DeleteFailed) | Some (s', _) \<Rightarrow> (s', revoked, Erased)))"

subsection \<open>Join tokens and routes\<close>

text \<open>\<^term>\<open>None\<close> is the unique index on the hash.\<close>

definition mint_join_token :: "(string \<Rightarrow> string) \<Rightarrow> string \<Rightarrow> ident \<Rightarrow> db \<Rightarrow> db option" where
  "mint_join_token sha fresh source_account s =
     (let acc = live_account s source_account
      in if account_of s acc \<noteq> None \<and> list_ex (\<lambda>a. a_id a \<noteq> acc \<and> a_join_token_hash a = Some (sha fresh)) (accounts s) then None
         else Some (s\<lparr>accounts := upd_where (\<lambda>a. a_id a = acc) (\<lambda>a. a\<lparr>a_join_token_hash := Some (sha fresh)\<rparr>) (accounts s)\<rparr>))"

text \<open>Every route asks the mode, then the credential, then the shape of the body: \<open>body\<close> is \<^term>\<open>None\<close> when
  the schema refuses it.\<close>

datatype 'a account_reply = NotSupported | NotAuthorized | InvalidBody | Answered 'a

definition account_route ::
  "(string \<Rightarrow> string) \<Rightarrow> server_mode \<Rightarrow> string option \<Rightarrow> 'b option \<Rightarrow> (ident \<Rightarrow> 'b \<Rightarrow> db \<Rightarrow> db \<times> 'a) \<Rightarrow> db \<Rightarrow> db \<times> 'a account_reply" where
  "account_route sha m header body act s =
     (if m = SelfHostedMode then (s, NotSupported)
      else (case authenticate_management sha s header m of None \<Rightarrow> (s, NotAuthorized)
            | Some ctx \<Rightarrow>
                (case body of None \<Rightarrow> (s, InvalidBody)
                 | Some b \<Rightarrow> (case act (ac_account ctx) b s of (s', res) \<Rightarrow> (s', Answered res)))))"

definition link_route ::
  "(string \<Rightarrow> string) \<Rightarrow> (string \<Rightarrow> ident option) \<Rightarrow> seconds \<Rightarrow> server_mode \<Rightarrow> string option \<Rightarrow>
   (string \<times> link_intent option) option \<Rightarrow> db \<Rightarrow> db \<times> link_outcome account_reply" where
  "link_route sha resolve now m header body =
     account_route sha m header
       (case body of None \<Rightarrow> None | Some (token, intent) \<Rightarrow> if token = [] then None else body)
       (\<lambda>acc (token, intent). link_identity resolve now acc token (case intent of None \<Rightarrow> SignIn | Some i \<Rightarrow> i))"

definition switch_route ::
  "(string \<Rightarrow> string) \<Rightarrow> (string \<Rightarrow> ident option) \<Rightarrow> server_mode \<Rightarrow> string option \<Rightarrow> (string \<times> ident) option \<Rightarrow>
   db \<Rightarrow> db \<times> switch_outcome account_reply" where
  "switch_route sha resolve m header body =
     account_route sha m header
       (case body of None \<Rightarrow> None | Some (token, into) \<Rightarrow> if token = [] \<or> into = [] then None else body)
       (\<lambda>acc (token, into). switch_account resolve acc token into)"

definition merge_route ::
  "(string \<Rightarrow> string) \<Rightarrow> (string \<Rightarrow> ident option) \<Rightarrow> seconds \<Rightarrow> server_mode \<Rightarrow> string option \<Rightarrow> (string \<times> ident) option \<Rightarrow>
   db \<Rightarrow> db \<times> merge_outcome account_reply" where
  "merge_route sha resolve now m header body =
     account_route sha m header
       (case body of None \<Rightarrow> None | Some (token, into) \<Rightarrow> if token = [] \<or> into = [] then None else body)
       (\<lambda>acc (token, into). merge_accounts resolve now acc token into)"

definition delete_route ::
  "(string \<Rightarrow> string) \<Rightarrow> (string \<Rightarrow> ident option) \<Rightarrow> (db \<Rightarrow> db) \<Rightarrow> server_mode \<Rightarrow> string option \<Rightarrow> string option option \<Rightarrow>
   db \<Rightarrow> db \<times> (ident list \<times> delete_outcome) account_reply" where
  "delete_route sha resolve meanwhile m header body =
     account_route sha m header
       (case body of None \<Rightarrow> None | Some token \<Rightarrow> if token = Some [] then None else body)
       (\<lambda>acc token. delete_account_request resolve meanwhile acc token)"

end
