(* ===== verification/Erasing.thy ===== *)
theory Erasing
  imports Accounts
begin

section \<open>What an erasure leaves\<close>

text \<open>
  The erase of \<open>src/src/v1/accounts.ts\<close>: when it goes through, and what the database holds afterwards. The family
  of an account is its tree of tombstones, listed so that every tombstone comes after the account it
  points at; deleting from the end never leaves a row that still points at a deleted one.
\<close>

subsection \<open>The family\<close>

text \<open>The parent of every later member comes earlier in the list.\<close>

definition rooted :: "db \<Rightarrow> ident list \<Rightarrow> bool" where
  "rooted s family \<longleftrightarrow>
     distinct family \<and>
     (\<forall>k < length family. 0 < k \<longrightarrow>
        (\<exists>a \<in> set (accounts s). a_id a = family ! k \<and> (\<exists>m. a_merged_into a = Some m \<and> m \<in> set (take k family))))"

definition whole :: "db \<Rightarrow> ident list \<Rightarrow> bool" where
  "whole s family \<longleftrightarrow>
     (\<forall>a \<in> set (accounts s). \<forall>m. a_merged_into a = Some m \<longrightarrow> m \<in> set family \<longrightarrow> a_id a \<in> set family)"

lemma rooted_extend:
  assumes "rooted s family" "distinct found" "set found \<inter> set family = {}"
    and "\<And>x. x \<in> set found \<Longrightarrow> \<exists>a \<in> set (accounts s). a_id a = x \<and> (\<exists>m. a_merged_into a = Some m \<and> m \<in> set family)"
  shows "rooted s (family @ found)"
  unfolding rooted_def
proof (intro conjI allI impI)
  show "distinct (family @ found)" using assms(1-3) by (auto simp: rooted_def)
  fix k assume k: "k < length (family @ found)" "0 < k"
  show "\<exists>a \<in> set (accounts s). a_id a = (family @ found) ! k \<and> (\<exists>m. a_merged_into a = Some m \<and> m \<in> set (take k (family @ found)))"
  proof (cases "k < length family")
    case True
    with assms(1) k show ?thesis by (auto simp: rooted_def nth_append)
  next
    case False
    then have "(family @ found) ! k \<in> set found" using k by (simp add: nth_append)
    from assms(4)[OF this] False show ?thesis by auto
  qed
qed

lemma family_hops_rooted:
  "distinct (map a_id (accounts s)) \<Longrightarrow> rooted s family \<Longrightarrow> rooted s (family_hops n s family) \<and> set family \<subseteq> set (family_hops n s family)"
proof (induction n s family rule: family_hops.induct)
  case (2 n s family)
  let ?found = "filter (\<lambda>a. a \<notin> set family)
     (map a_id (filter (\<lambda>a. case a_merged_into a of None \<Rightarrow> False | Some m \<Rightarrow> m \<in> set family) (accounts s)))"
  show ?case
  proof (cases "?found = []")
    case False
    have "rooted s (family @ ?found)"
    proof (rule rooted_extend[OF 2(3)])
      show "distinct ?found" using 2(2) by (simp add: distinct_map_filter)
    qed (auto split: option.splits)
    with 2(1)[OF refl False 2(2)] False show ?thesis by (auto simp: Let_def)
  qed (use 2 in \<open>simp add: Let_def\<close>)
qed simp

lemma account_family_rooted:
  assumes "distinct (map a_id (accounts s))"
  shows "rooted s (account_family s acc)" "acc \<in> set (account_family s acc)" "hd (account_family s acc) = acc"
proof -
  have "rooted s [acc]" by (simp add: rooted_def)
  from family_hops_rooted[OF assms this, of 8] show "rooted s (account_family s acc)" "acc \<in> set (account_family s acc)"
    by (auto simp: account_family_def)
  have "family \<noteq> [] \<Longrightarrow> hd (family_hops n s family) = hd family" for n family
    by (induction n s family rule: family_hops.induct) (auto simp: Let_def hd_append)
  then show "hd (account_family s acc) = acc" by (simp add: account_family_def)
qed

subsection \<open>Deleting the rows\<close>

text \<open>What belongs to a set of accounts: devices, topics and billing ids directly, incidents, rounds and
  users through one of them.\<close>

definition device_in :: "db \<Rightarrow> ident set \<Rightarrow> ident \<Rightarrow> bool" where
  "device_in s F x \<longleftrightarrow> (\<exists>d \<in> set (devices s). d_account_id d \<in> F \<and> d_id d = x)"

definition topic_in :: "db \<Rightarrow> ident set \<Rightarrow> ident \<Rightarrow> bool" where
  "topic_in s F x \<longleftrightarrow> (\<exists>t \<in> set (topics s). t_account_id t \<in> F \<and> t_id t = x)"

definition incident_in :: "db \<Rightarrow> ident set \<Rightarrow> ident \<Rightarrow> bool" where
  "incident_in s F x \<longleftrightarrow> (\<exists>i \<in> set (incidents s). topic_in s F (i_topic_id i) \<and> i_id i = x)"

definition round_in :: "db \<Rightarrow> ident set \<Rightarrow> ident \<Rightarrow> bool" where
  "round_in s F x \<longleftrightarrow> (\<exists>r \<in> set (check_rounds s). device_in s F (cr_device_id r) \<and> cr_id r = x)"

definition customer_in :: "db \<Rightarrow> ident set \<Rightarrow> string \<Rightarrow> bool" where
  "customer_in s F x \<longleftrightarrow> (\<exists>b \<in> set (account_billing_ids s). b_account_id b \<in> F \<and> b_app_user_id b = x)"

definition user_in :: "db \<Rightarrow> ident set \<Rightarrow> ident \<Rightarrow> bool" where
  "user_in s F x \<longleftrightarrow> (\<exists>i \<in> set (account_identities s). id_account_id i \<in> F \<and> id_user_id i = x)"

lemmas belongs_defs = device_in_def topic_in_def incident_in_def round_in_def customer_in_def user_in_def

text \<open>The database without the accounts, as one filter per table over what was there. A message that
  stays forgets an incident that went.\<close>

definition without :: "ident set \<Rightarrow> db \<Rightarrow> db" where
  "without F s =
     s\<lparr>accounts := del_where (\<lambda>a. a_id a \<in> F) (accounts s),
       devices := del_where (\<lambda>d. d_account_id d \<in> F) (devices s),
       topics := del_where (\<lambda>t. t_account_id t \<in> F) (topics s),
       subscriptions := del_where (\<lambda>x. device_in s F (s_device_id x)) (subscriptions s),
       device_tokens := del_where (\<lambda>x. device_in s F (dt_device_id x)) (device_tokens s),
       device_checks := del_where (\<lambda>x. device_in s F (dc_device_id x)) (device_checks s),
       check_rounds := del_where (\<lambda>x. device_in s F (cr_device_id x)) (check_rounds s),
       check_attempts := del_where (\<lambda>x. round_in s F (ca_round_id x)) (check_attempts s),
       topic_tokens := del_where (\<lambda>k. topic_in s F (tt_topic_id k)) (topic_tokens s),
       incidents := del_where (\<lambda>i. topic_in s F (i_topic_id i)) (incidents s),
       timers := del_where (\<lambda>t. incident_in s F (tm_incident_id t)) (timers s),
       messages := upd_where (\<lambda>m. case m_incident_id m of None \<Rightarrow> False | Some i \<Rightarrow> incident_in s F i)
         (\<lambda>m. m\<lparr>m_incident_id := None\<rparr>) (del_where (\<lambda>m. topic_in s F (m_topic_id m)) (messages s)),
       account_billing_ids := del_where (\<lambda>b. b_account_id b \<in> F) (account_billing_ids s),
       billing_packs := del_where (\<lambda>p. customer_in s F (bp_app_user_id p)) (billing_packs s),
       relay_p4_usage := del_where (\<lambda>u. u_account_id u \<in> F) (relay_p4_usage s),
       account_pack_grants := del_where (\<lambda>g. g_account_id g \<in> F) (account_pack_grants s),
       account_identities := del_where (\<lambda>i. id_account_id i \<in> F) (account_identities s),
       cancel_answers := del_where (\<lambda>c. an_account_id c \<in> F) (cancel_answers s)\<rparr>"

text \<open>And with the logs and the queued reads, which have no cascade: an event keeps its id, so that a
  repeated webhook is still known, and forgets the account.\<close>

definition erased :: "ident set \<Rightarrow> db \<Rightarrow> db" where
  "erased F s =
     (without F s)\<lparr>
       tier_changes := del_where (\<lambda>c. tc_account_id c \<in> F) (tier_changes s),
       billing_events := map (\<lambda>e. if be_account_id e \<in> Some ` F then e\<lparr>be_account_id := None\<rparr> else e) (billing_events s),
       account_merges := del_where (\<lambda>m. am_from m \<in> F \<or> am_into m \<in> F) (account_merges s),
       billing_reads := del_where (\<lambda>q. br_app_user_id q \<in> F \<or> customer_in s F (br_app_user_id q)) (billing_reads s),
       users := del_where (\<lambda>u. user_in s F (us_id u)) (users s)\<rparr>"

lemma del_where_comp [simp]: "del_where Q (del_where P rows) = del_where (\<lambda>r. P r \<or> Q r) rows"
  by (simp add: del_where_def)

lemma del_where_eqI: "(\<And>r. r \<in> set rows \<Longrightarrow> P r \<longleftrightarrow> Q r) \<Longrightarrow> del_where P rows = del_where Q rows"
  by (simp add: del_where_def cong: filter_cong)

lemma ex_del_where: "(\<exists>d \<in> set (del_where P rows). Q d) \<longleftrightarrow> (\<exists>d \<in> set rows. \<not> P d \<and> Q d)"
  by (auto simp: set_del_where)

lemma detach_messages:
  "del_where (\<lambda>m. Q (m_topic_id m)) (upd_where P (\<lambda>m. m\<lparr>m_incident_id := None\<rparr>) ms) =
   upd_where P (\<lambda>m. m\<lparr>m_incident_id := None\<rparr>) (del_where (\<lambda>m. Q (m_topic_id m)) ms)"
  by (induction ms) (auto simp: del_where_def)

lemma detach_twice:
  "upd_where (\<lambda>m. case m_incident_id m of None \<Rightarrow> False | Some i \<Rightarrow> J i) (\<lambda>m. m\<lparr>m_incident_id := None\<rparr>)
     (upd_where (\<lambda>m. case m_incident_id m of None \<Rightarrow> False | Some i \<Rightarrow> I i) (\<lambda>m. m\<lparr>m_incident_id := None\<rparr>) ms) =
   upd_where (\<lambda>m. case m_incident_id m of None \<Rightarrow> False | Some i \<Rightarrow> I i \<or> J i) (\<lambda>m. m\<lparr>m_incident_id := None\<rparr>) (ms :: message_row list)"
  by (induction ms) (auto split: option.splits)

lemma without_fields:
  "accounts (without F s) = del_where (\<lambda>a. a_id a \<in> F) (accounts s)"
  "devices (without F s) = del_where (\<lambda>d. d_account_id d \<in> F) (devices s)"
  "topics (without F s) = del_where (\<lambda>t. t_account_id t \<in> F) (topics s)"
  "subscriptions (without F s) = del_where (\<lambda>x. device_in s F (s_device_id x)) (subscriptions s)"
  "device_tokens (without F s) = del_where (\<lambda>x. device_in s F (dt_device_id x)) (device_tokens s)"
  "device_checks (without F s) = del_where (\<lambda>x. device_in s F (dc_device_id x)) (device_checks s)"
  "check_rounds (without F s) = del_where (\<lambda>x. device_in s F (cr_device_id x)) (check_rounds s)"
  "check_attempts (without F s) = del_where (\<lambda>x. round_in s F (ca_round_id x)) (check_attempts s)"
  "topic_tokens (without F s) = del_where (\<lambda>k. topic_in s F (tt_topic_id k)) (topic_tokens s)"
  "incidents (without F s) = del_where (\<lambda>i. topic_in s F (i_topic_id i)) (incidents s)"
  "timers (without F s) = del_where (\<lambda>t. incident_in s F (tm_incident_id t)) (timers s)"
  "messages (without F s) = upd_where (\<lambda>m. case m_incident_id m of None \<Rightarrow> False | Some i \<Rightarrow> incident_in s F i)
     (\<lambda>m. m\<lparr>m_incident_id := None\<rparr>) (del_where (\<lambda>m. topic_in s F (m_topic_id m)) (messages s))"
  "account_billing_ids (without F s) = del_where (\<lambda>b. b_account_id b \<in> F) (account_billing_ids s)"
  "billing_packs (without F s) = del_where (\<lambda>p. customer_in s F (bp_app_user_id p)) (billing_packs s)"
  "relay_p4_usage (without F s) = del_where (\<lambda>u. u_account_id u \<in> F) (relay_p4_usage s)"
  "account_pack_grants (without F s) = del_where (\<lambda>g. g_account_id g \<in> F) (account_pack_grants s)"
  "account_identities (without F s) = del_where (\<lambda>i. id_account_id i \<in> F) (account_identities s)"
  "cancel_answers (without F s) = del_where (\<lambda>c. an_account_id c \<in> F) (cancel_answers s)"
  by (simp_all add: without_def)

lemma without_frames:
  "relay_servers (without F s) = relay_servers s" "relay_client_credentials (without F s) = relay_client_credentials s"
  "relay_registration_attempts (without F s) = relay_registration_attempts s" "counters (without F s) = counters s"
  "counters_zeroed (without F s) = counters_zeroed s" "billing_events (without F s) = billing_events s"
  "tier_changes (without F s) = tier_changes s" "account_merges (without F s) = account_merges s"
  "billing_reads (without F s) = billing_reads s" "users (without F s) = users s" "server_settings (without F s) = server_settings s"
  by (simp_all add: without_def)

text \<open>Erasing one set of accounts after another is erasing both.\<close>

lemma belongs_comp:
  "device_in s (F \<union> G) x \<longleftrightarrow> device_in s F x \<or> device_in (without F s) G x"
  "topic_in s (F \<union> G) x \<longleftrightarrow> topic_in s F x \<or> topic_in (without F s) G x"
  "customer_in s (F \<union> G) u \<longleftrightarrow> customer_in s F u \<or> customer_in (without F s) G u"
  by (auto simp: without_fields device_in_def topic_in_def customer_in_def table_simps)

lemma belongs_comp_deep:
  "incident_in s (F \<union> G) x \<longleftrightarrow> incident_in s F x \<or> incident_in (without F s) G x"
  "round_in s (F \<union> G) x \<longleftrightarrow> round_in s F x \<or> round_in (without F s) G x"
  by (auto simp: incident_in_def round_in_def belongs_comp without_fields table_simps)

lemma without_comp: "without G (without F s) = without (F \<union> G) s"
  by (rule db.equality)
    (simp_all add: without_fields[of G "without F s"] without_fields[of "F \<union> G" s] without_frames
       belongs_comp belongs_comp_deep without_fields(1-11)[of F s] without_fields(12)[of F s] without_fields(13-)[of F s]
       detach_messages detach_twice cong: option.case_cong)

lemma list_ex_belongs:
  "list_ex (\<lambda>d. d_account_id d = acc \<and> d_id d = x) (devices s) = device_in s {acc} x"
  "list_ex (\<lambda>t. t_account_id t = acc \<and> t_id t = x) (topics s) = topic_in s {acc} x"
  "list_ex (\<lambda>i. topic_in s {acc} (i_topic_id i) \<and> i_id i = x) (incidents s) = incident_in s {acc} x"
  "list_ex (\<lambda>r. device_in s {acc} (cr_device_id r) \<and> cr_id r = x) (check_rounds s) = round_in s {acc} x"
  "list_ex (\<lambda>b. b_account_id b = acc \<and> b_app_user_id b = u) (account_billing_ids s) = customer_in s {acc} u"
  by (auto simp: belongs_defs list_ex_iff)

lemma delete_account_row_gone:
  assumes "delete_account_row acc s = Some s'" "acc \<in> a_id ` set (accounts s)"
  shows "s' = without {acc} s"
proof -
  from assms(2) have "list_ex (\<lambda>a. a_id a = acc) (accounts s)" by (auto simp: list_ex_iff)
  with assms(1) show ?thesis
    by (auto simp: delete_account_row_def without_def delete_billing_ids_def delete_topics_def delete_incidents_def delete_devices_def
        Let_def list_ex_belongs detach_messages cong: option.case_cong split: if_splits)
qed

text \<open>No row outside the tables of the cascade still names a member.\<close>

definition logs_clear :: "db \<Rightarrow> ident list \<Rightarrow> bool" where
  "logs_clear s family \<longleftrightarrow>
     (\<forall>c \<in> set (tier_changes s). tc_account_id c \<notin> set family) \<and>
     (\<forall>e \<in> set (billing_events s). \<forall>a. be_account_id e = Some a \<longrightarrow> a \<notin> set family)"

lemma rooted_parent:
  assumes "rooted s (xs @ [x])" "k < length xs" "0 < k"
  shows "\<exists>a m. a \<in> set (accounts s) \<and> a_id a = xs ! k \<and> a_merged_into a = Some m \<and> m \<in> set (take k xs)"
proof -
  have "k < length (xs @ [x])" using assms(2) by simp
  with assms(1,3) have "\<exists>a \<in> set (accounts s). a_id a = (xs @ [x]) ! k \<and> (\<exists>m. a_merged_into a = Some m \<and> m \<in> set (take k (xs @ [x])))"
    unfolding rooted_def by blast
  with assms(2) show ?thesis by (auto simp: nth_append)
qed

lemma rooted_front:
  assumes "rooted s (xs @ [x])" "s1 = without {x} s"
  shows "rooted s1 xs"
proof -
  have acc: "accounts s1 = del_where (\<lambda>a. a_id a = x) (accounts s)" using assms(2) by (simp add: without_fields)
  have "\<exists>a \<in> set (accounts s1). a_id a = xs ! k \<and> (\<exists>m. a_merged_into a = Some m \<and> m \<in> set (take k xs))"
    if k: "k < length xs" "0 < k" for k
  proof -
    from rooted_parent[OF assms(1) k]
    obtain a m where a: "a \<in> set (accounts s)" "a_id a = xs ! k" "a_merged_into a = Some m" "m \<in> set (take k xs)" by blast
    moreover have "xs ! k \<noteq> x" using assms(1) k by (auto simp: rooted_def)
    ultimately show ?thesis by (auto simp: acc table_simps)
  qed
  with assms(1) show ?thesis by (auto simp: rooted_def)
qed

text \<open>The last of the list is named by no other account: its own tombstones would come after it.\<close>

lemma last_not_referenced:
  assumes keys: "distinct (map a_id (accounts s))" and r: "rooted s (xs @ [x])" and w: "whole s (xs @ [x])"
    and logs: "logs_clear s (xs @ [x])" and root: "\<And>a. a \<in> set (accounts s) \<Longrightarrow> a_id a = hd (xs @ [x]) \<Longrightarrow> a_merged_into a = None"
  shows "\<not> account_referenced x s"
proof
  assume "account_referenced x s"
  with logs obtain a where a: "a \<in> set (accounts s)" "a_id a \<noteq> x" "a_merged_into a = Some x"
    by (auto simp: account_referenced_def logs_clear_def list_ex_iff)
  with w have "a_id a \<in> set xs" by (auto simp: whole_def)
  then obtain k where k: "k < length xs" "xs ! k = a_id a" by (auto simp: in_set_conv_nth)
  show False
  proof (cases "k = 0")
    case True
    with k have "hd (xs @ [x]) = a_id a" by (cases xs) auto
    with root[OF a(1)] a(3) show False by simp
  next
    case False
    with rooted_parent[OF r k(1)] k(2)
    obtain b m where b: "b \<in> set (accounts s)" "a_id b = a_id a" "a_merged_into b = Some m" "m \<in> set (take k xs)" by auto
    then have "b = a" using keys a(1) by (auto dest: distinct_map_unique)
    with a b have "x \<in> set xs" by (auto dest: in_set_takeD)
    with r show False by (simp add: rooted_def)
  qed
qed

lemma delete_rows_whole:
  assumes "distinct (map a_id (accounts s))" "rooted s family" "whole s family" "logs_clear s family"
    "set family \<subseteq> a_id ` set (accounts s)"
    "\<And>a. a \<in> set (accounts s) \<Longrightarrow> family \<noteq> [] \<Longrightarrow> a_id a = hd family \<Longrightarrow> a_merged_into a = None"
  shows "delete_account_rows (rev family) s = Some (if family = [] then s else without (set family) s)"
  using assms
proof (induction family arbitrary: s rule: rev_induct)
  case (snoc x xs)
  have "\<not> account_referenced x s" by (rule last_not_referenced[OF snoc.prems(1-4)]) (use snoc.prems(6) in simp)
  moreover have ex: "x \<in> a_id ` set (accounts s)" using snoc.prems(5) by simp
  moreover have "delete_account_row x s \<noteq> None" using calculation(1) by (simp add: delete_account_row_def)
  ultimately obtain s1 where s1: "delete_account_row x s = Some s1" by auto
  note gone = delete_account_row_gone[OF s1 ex]
  then have acc: "accounts s1 = del_where (\<lambda>a. a_id a = x) (accounts s)" by (simp add: without_fields)
  have d: "x \<notin> set xs" using snoc.prems(2) by (simp add: rooted_def)
  have "delete_account_rows (rev xs) s1 = Some (if xs = [] then s1 else without (set xs) s1)"
  proof (rule snoc.IH)
    show "distinct (map a_id (accounts s1))" using snoc.prems(1) by (simp add: acc distinct_map_del_where)
    show "rooted s1 xs" by (rule rooted_front[OF snoc.prems(2) gone])
    show "whole s1 xs" using snoc.prems(3) by (fastforce simp: whole_def acc table_simps)
    show "logs_clear s1 xs" using snoc.prems(4) by (simp add: logs_clear_def gone without_frames)
    show "set xs \<subseteq> a_id ` set (accounts s1)" using snoc.prems(5) d by (fastforce simp: acc table_simps)
    show "a_merged_into a = None" if "a \<in> set (accounts s1)" "xs \<noteq> []" "a_id a = hd xs" for a
      using snoc.prems(6)[of a] that by (auto simp: acc table_simps)
  qed
  with s1 show ?case by (simp add: gone without_comp)
qed simp

text \<open>A tombstone outside the list that points into it stops the erase.\<close>

lemma delete_rows_blocked:
  assumes "a \<in> set (accounts s)" "a_merged_into a = Some m" "m \<in> set accs" "a_id a \<notin> set accs" "m \<in> a_id ` set (accounts s)"
  shows "delete_account_rows accs s = None"
  using assms
proof (induction accs arbitrary: s)
  case (Cons acc accs)
  show ?case
  proof (cases "delete_account_row acc s")
    case (Some s1)
    have "acc \<noteq> m"
    proof
      assume "acc = m"
      with Cons.prems have "account_referenced acc s" "list_ex (\<lambda>a. a_id a = acc) (accounts s)"
        by (auto simp: account_referenced_def list_ex_iff)
      with Some show False by (simp add: delete_account_row_def)
    qed
    moreover have "accounts s1 = accounts s \<or> accounts s1 = del_where (\<lambda>a. a_id a = acc) (accounts s)"
      using Some by (auto simp: delete_account_row_def delete_billing_ids_def split: if_splits)
    ultimately have "delete_account_rows accs s1 = None"
      using Cons.prems by (intro Cons.IH) (auto simp: table_simps image_iff)
    with Some show ?thesis by simp
  qed simp
qed simp

subsection \<open>The contract\<close>

lemma user_in_iff: "x \<in> set (family_users s family) \<longleftrightarrow> user_in s (set family) x"
  by (auto simp: family_users_def user_in_def)

lemma customer_in_ex:
  "list_ex (\<lambda>b. b_account_id b \<in> set family \<and> b_app_user_id b = u) (account_billing_ids s) = customer_in s (set family) u"
  by (auto simp: customer_in_def list_ex_iff)

lemma events_forget:
  "upd_where (\<lambda>e. case be_account_id e of None \<Rightarrow> False | Some a \<Rightarrow> a \<in> F) f evs =
   map (\<lambda>e. if be_account_id e \<in> Some ` F then f e else e) evs"
  by (induction evs) (auto split: option.splits)

text \<open>The logs first and then the rows, as the code has it, is both at once.\<close>

lemma erased_in_order:
  "(without (set family) (clear_logs family s))\<lparr>users := del_where (\<lambda>u. us_id u \<in> set (family_users s family)) (users s)\<rparr> =
   erased (set family) s"
  by (rule db.equality)
    (simp_all add: clear_logs_def without_def belongs_defs erased_def events_forget customer_in_ex[unfolded belongs_defs] user_in_iff
       cong: option.case_cong)

lemma family_topic_iff: "family_topic s family tid \<longleftrightarrow> topic_in s (set family) tid"
  by (auto simp: family_topic_def topic_in_def topic_owned_by_def list_ex_iff)

lemma cleared_events:
  "count_where (\<lambda>e. be_account_id e \<noteq> None) (map (\<lambda>e. if be_account_id e \<in> Some ` F then e\<lparr>be_account_id := None\<rparr> else e) evs) +
   count_where (\<lambda>e. case be_account_id e of None \<Rightarrow> False | Some a \<Rightarrow> a \<in> F) evs =
   count_where (\<lambda>e. be_account_id e \<noteq> None) evs"
  by (induction evs) (auto simp: count_where_def split: option.splits)

text \<open>The counts of the answer are the rows that went.\<close>

definition counts_rows :: "delete_counts \<Rightarrow> db \<Rightarrow> db \<Rightarrow> bool" where
  "counts_rows c s s' \<longleftrightarrow>
     length (accounts s') + dl_accounts c = length (accounts s) \<and>
     length (devices s') + dl_devices c = length (devices s) \<and>
     length (topics s') + dl_topics c = length (topics s) \<and>
     length (incidents s') + dl_incidents c = length (incidents s) \<and>
     length (messages s') + dl_messages c = length (messages s) \<and>
     length (account_identities s') + dl_identities c = length (account_identities s) \<and>
     count_where (\<lambda>e. be_account_id e \<noteq> None) (billing_events s') + dl_events_cleared c =
       count_where (\<lambda>e. be_account_id e \<noteq> None) (billing_events s)"

lemma erase_counts_rows: "counts_rows (erase_counts s family) s (erased (set family) s)"
proof -
  have "length (family_users s family) = count_where (\<lambda>i. id_account_id i \<in> set family) (account_identities s)"
    by (simp add: family_users_def count_where_def)
  with cleared_events[of "set family" "billing_events s"] show ?thesis
    by (simp add: counts_rows_def erased_def without_fields erase_counts_def family_topic_iff length_del_where)
qed

lemma account_of_in: "account_of s acc = Some a \<Longrightarrow> a \<in> set (accounts s) \<and> a_id a = acc"
  unfolding account_of_def by (auto dest: find_SomeD)

lemma family_in_table:
  assumes "distinct (map a_id (accounts s))" "account_of s acc = Some a"
  shows "set (account_family s acc) \<subseteq> a_id ` set (accounts s)"
proof
  fix x assume x: "x \<in> set (account_family s acc)"
  then obtain k where k: "k < length (account_family s acc)" "account_family s acc ! k = x" by (auto simp: in_set_conv_nth)
  show "x \<in> a_id ` set (accounts s)"
  proof (cases "k = 0")
    case True
    with k account_family_rooted(3)[OF assms(1), of acc] have "x = acc" by (cases "account_family s acc") auto
    with account_of_in[OF assms(2)] show ?thesis by auto
  next
    case False
    with k account_family_rooted(1)[OF assms(1), of acc] show ?thesis unfolding rooted_def by (metis image_eqI neq0_conv)
  qed
qed

lemma erase_effect:
  assumes "distinct (map a_id (accounts s))" "account_of s (live_account s acc) = Some a" "a_merged_into a = None"
  defines "family \<equiv> account_family s (live_account s acc)"
  shows "(erase_account acc s = None \<longleftrightarrow> \<not> whole s family) \<and>
    (\<forall>s' c. erase_account acc s = Some (s', c) \<longrightarrow> s' = erased (set family) s \<and> counts_rows c s s')"
proof -
  let ?s = "clear_logs family s"
  note root = account_of_in[OF assms(2)]
  note fam = account_family_rooted[OF assms(1), of "live_account s acc", folded family_def]
  have acc: "accounts ?s = accounts s" by (simp add: clear_logs_def)
  have same: "rooted ?s family = rooted s family" "whole ?s family = whole s family" by (simp_all add: rooted_def whole_def acc)
  have logs: "logs_clear ?s family" by (auto simp: logs_clear_def clear_logs_def table_simps split: option.splits)
  have sub: "set family \<subseteq> a_id ` set (accounts ?s)" using family_in_table[OF assms(1,2), folded family_def] by (simp add: acc)
  have none: "x \<in> set (accounts ?s) \<Longrightarrow> family \<noteq> [] \<Longrightarrow> a_id x = hd family \<Longrightarrow> a_merged_into x = None" for x
    using distinct_map_unique[OF assms(1), of x a] root fam(3) assms(3) by (auto simp: acc)
  show ?thesis
  proof (cases "whole s family")
    case False
    then obtain x m where x: "x \<in> set (accounts ?s)" "a_merged_into x = Some m" "m \<in> set (rev family)" "a_id x \<notin> set (rev family)"
      by (auto simp: whole_def acc)
    moreover from x have "m \<in> a_id ` set (accounts ?s)" using sub by auto
    ultimately have "delete_account_rows (rev family) ?s = None" by (rule delete_rows_blocked)
    with False show ?thesis by (simp add: erase_account_def family_def[symmetric] Let_def)
  next
    case True
    have keys: "distinct (map a_id (accounts ?s))" "rooted ?s family" "whole ?s family"
      using assms(1) fam(1) True by (simp_all add: acc same)
    have "delete_account_rows (rev family) ?s = Some (if family = [] then ?s else without (set family) ?s)"
      by (rule delete_rows_whole[OF keys logs sub none])
    moreover have "family \<noteq> []" using fam(2) by auto
    moreover have "users (without (set family) ?s) = users s" by (simp add: without_frames clear_logs_def)
    ultimately have "erase_account acc s = Some (erased (set family) s, erase_counts s family)"
      by (simp add: erase_account_def family_def[symmetric] Let_def erased_in_order)
    with True erase_counts_rows show ?thesis by simp
  qed
qed

text \<open>C16: The erase is all or nothing, and all of it. It fails, and changes nothing, exactly when the walk
  of eight rounds left out a tombstone that points into the family. Otherwise the database is the one
  before without the family, table by table and with nothing else touched: its accounts are gone with their devices,
  tokens, subscriptions, check states, rounds and attempts, with their topics, topic tokens, incidents, timers and messages, with their billing ids,
  packs, grants, usage, identities and answers, with their users, their tier log, their merges and their queued reads; a message that stays
  forgets an incident that went, and a billing event keeps its id for the deduplication and forgets the
  account. Every other row of every table is still there, and the counts are the rows that went.\<close>

theorem erase_contract:
  assumes "distinct (map a_id (accounts s))" "account_of s (live_account s acc) = Some a" "a_merged_into a = None"
  defines "family \<equiv> account_family s (live_account s acc)"
  shows "(erase_account acc s = None \<longleftrightarrow> \<not> whole s family) \<and>
    (\<forall>s' c. erase_account acc s = Some (s', c) \<longrightarrow> s' = erased (set family) s \<and> counts_rows c s s')"
  unfolding family_def by (rule erase_effect[OF assms(1-3)])

definition demo_family :: db where
  "demo_family = empty_db\<lparr>accounts :=
     [\<lparr>a_id = ''a'', a_tier = Free, a_created_at = 0, a_join_token_hash = None, a_merged_into = None\<rparr>,
      \<lparr>a_id = ''b'', a_tier = Free, a_created_at = 0, a_join_token_hash = None, a_merged_into = Some ''a''\<rparr>]\<rparr>"

theorem erase_contract_witness:
  "\<exists>s' c. erase_account ''b'' demo_family = Some (s', c) \<and> accounts s' = []"
proof -
  have h: "distinct (map a_id (accounts demo_family))" "live_account demo_family ''b'' = ''a''"
    "account_of demo_family (live_account demo_family ''b'') =
      Some \<lparr>a_id = ''a'', a_tier = Free, a_created_at = 0, a_join_token_hash = None, a_merged_into = None\<rparr>"
    "account_family demo_family ''a'' = [''a'', ''b'']" "list_all (\<lambda>a. a_id a \<in> {''a'', ''b''}) (accounts demo_family)"
    by code_simp+
  have "whole demo_family (account_family demo_family (live_account demo_family ''b''))"
    using h(5) by (auto simp: whole_def h(2,4) list_all_iff)
  with erase_contract[OF h(1,3)] obtain s' c where e: "erase_account ''b'' demo_family = Some (s', c)"
    and g: "s' = erased (set (account_family demo_family (live_account demo_family ''b''))) demo_family" by fastforce
  have "accounts s' = []"
    using g h(5) by (auto simp: erased_def without_def h(2,4) del_where_def filter_empty_conv list_all_iff)
  with e show ?thesis by blast
qed


end
