(* ===== verification/Directory.thy ===== *)
theory Directory
  imports Accounts
begin

section \<open>Who is subscribed to what\<close>

text \<open>
  The promise that spans \<open>devices.ts\<close>, \<open>topics.ts\<close> and \<open>accounts.ts\<close>: every device of an account holds a
  subscription to every topic of the account, whatever is registered, created, moved, merged or
  erased, except those its own owner unsubscribed. A missing row is a phone that does not ring.
  Only four things about the database matter, and they are read off as sets.
\<close>

definition holders :: "db \<Rightarrow> (ident \<times> ident) set" where
  "holders s = (\<lambda>d. (d_id d, d_account_id d)) ` set (devices s)"

definition owners :: "db \<Rightarrow> (ident \<times> string) set" where
  "owners s = (\<lambda>t. (t_account_id t, t_topic_hash t)) ` set (topics s)"

definition pairs :: "db \<Rightarrow> (ident \<times> string) set" where
  "pairs s = (\<lambda>x. (s_device_id x, s_topic_hash x)) ` set (subscriptions s)"

definition device_keys :: "db \<Rightarrow> bool" where
  "device_keys s \<longleftrightarrow> distinct (map d_id (devices s)) \<and> distinct (map d_token_hash (devices s))"

definition topic_keys :: "db \<Rightarrow> bool" where
  "topic_keys s \<longleftrightarrow>
     distinct (map t_id (topics s)) \<and> distinct (map (\<lambda>t. (t_account_id t, t_name t)) (topics s)) \<and>
     distinct (map (\<lambda>t. (t_account_id t, t_topic_hash t)) (topics s))"

text \<open>Who should be subscribed to what is the composition of the two relations.\<close>

definition covered :: "(ident \<times> string) set \<Rightarrow> db \<Rightarrow> bool" where
  "covered out s \<longleftrightarrow> holders s O owners s \<subseteq> pairs s \<union> out"

definition directory_ok :: "(ident \<times> string) set \<Rightarrow> db \<Rightarrow> bool" where
  "directory_ok out s \<longleftrightarrow> device_keys s \<and> topic_keys s \<and> covered out s"

subsection \<open>What the operations do to the four sets\<close>

named_theorems dir_simps \<open>what an operation does to holders, owners, pairs and keys\<close>

lemma dir_frame:
  assumes "devices s' = devices s" "topics s' = topics s" "subscriptions s' = subscriptions s"
  shows "directory_ok out s' \<longleftrightarrow> directory_ok out s"
  using assms by (simp add: directory_ok_def device_keys_def topic_keys_def covered_def holders_def owners_def pairs_def)

lemma set_subscribe_one:
  "(\<lambda>x. (s_device_id x, s_topic_hash x)) ` set (subscribe_one dev h subs) =
   insert (dev, h) ((\<lambda>x. (s_device_id x, s_topic_hash x)) ` set subs)"
  by (force simp: subscribe_one_def table_simps list_ex_iff)

lemma set_subscribe_all:
  "(\<lambda>x. (s_device_id x, s_topic_hash x)) ` set (foldl (\<lambda>subs t. subscribe_one (f t) (g t) subs) subs ts) =
   (\<lambda>x. (s_device_id x, s_topic_hash x)) ` set subs \<union> (\<lambda>t. (f t, g t)) ` set ts"
  by (induction ts arbitrary: subs) (auto simp: set_subscribe_one)

lemma pairs_sweep_device [dir_simps]:
  "pairs (sweep_device_into_topics acc dev s) = pairs s \<union> {dev} \<times> (owners s `` {acc})"
proof -
  have "pairs (sweep_device_into_topics acc dev s) =
      pairs s \<union> (\<lambda>t. (dev, t_topic_hash t)) ` set (filter (\<lambda>t. t_account_id t = acc) (topics s))"
    using set_subscribe_all[of "\<lambda>_. dev" t_topic_hash "subscriptions s" "filter (\<lambda>t. t_account_id t = acc) (topics s)"]
    by (simp add: pairs_def sweep_device_into_topics_def)
  then show ?thesis by (auto simp: owners_def)
qed

lemma pairs_sweep_topic [dir_simps]:
  "pairs (sweep_topic_into_devices acc h s) = pairs s \<union> ((holders s)\<inverse> `` {acc}) \<times> {h}"
proof -
  have "pairs (sweep_topic_into_devices acc h s) =
      pairs s \<union> (\<lambda>d. (d_id d, h)) ` set (filter (\<lambda>d. d_account_id d = acc) (devices s))"
    using set_subscribe_all[of d_id "\<lambda>_. h" "subscriptions s" "filter (\<lambda>d. d_account_id d = acc) (devices s)"]
    by (simp add: pairs_def sweep_topic_into_devices_def)
  then show ?thesis by (auto simp: holders_def)
qed

lemma sweep_frames [frame_simps]:
  "devices (sweep_device_into_topics acc dev s) = devices s" "topics (sweep_device_into_topics acc dev s) = topics s"
  "devices (sweep_topic_into_devices acc h s) = devices s" "topics (sweep_topic_into_devices acc h s) = topics s"
  "accounts (sweep_device_into_topics acc dev s) = accounts s" "accounts (sweep_topic_into_devices acc h s) = accounts s"
  by (simp_all add: sweep_device_into_topics_def sweep_topic_into_devices_def)

lemma alarm_frames [frame_simps]:
  "devices (set_alarm_token now dev p tok s) = devices s" "topics (set_alarm_token now dev p tok s) = topics s"
  "subscriptions (set_alarm_token now dev p tok s) = subscriptions s" "accounts (set_alarm_token now dev p tok s) = accounts s"
  by (simp_all add: set_alarm_token_def)

lemma due_frames [frame_simps]:
  "devices (check_due_after_new_token now dev s) = devices s" "topics (check_due_after_new_token now dev s) = topics s"
  "subscriptions (check_due_after_new_token now dev s) = subscriptions s"
  "accounts (check_due_after_new_token now dev s) = accounts s"
  by (simp_all add: check_due_after_new_token_def upd_check_def)

lemma delete_topics_frames [frame_simps]:
  "devices (delete_topics P s) = devices s" "topics (delete_topics P s) = del_where P (topics s)"
  "subscriptions (delete_topics P s) = subscriptions s" "accounts (delete_topics P s) = accounts s"
  by (simp_all add: delete_topics_def delete_incidents_def Let_def)

lemma holders_upd:
  assumes "devices s' = upd_where P f (devices s)" "\<And>d. d_id (f d) = d_id d" "\<And>d. d_account_id (f d) = d_account_id d"
  shows "holders s' = holders s"
proof -
  have "map (\<lambda>d. (d_id d, d_account_id d)) (devices s') = map (\<lambda>d. (d_id d, d_account_id d)) (devices s)"
    unfolding assms(1) by (rule map_upd_where) (simp add: assms)
  from arg_cong[OF this, of set] show ?thesis by (simp add: holders_def)
qed

subsection \<open>Devices\<close>

lemma insert_device_ok:
  assumes "directory_ok out s" "insert_device_for_account sha now token r acc t s = Inr s'"
  shows "directory_ok out s'"
proof -
  let ?dev = "rg_device_id r"
  obtain row where row: "d_id row = ?dev" "d_account_id row = acc" "d_token_hash row = sha token"
    and s': "s' = sweep_device_into_topics acc ?dev
       (set_alarm_token now ?dev (rg_platform r) (du_push_token r) (s\<lparr>devices := devices s @ [row]\<rparr>))"
    and fresh: "?dev \<notin> d_id ` set (devices s)" "sha token \<notin> d_token_hash ` set (devices s)"
    using assms(2) by (force simp: insert_device_for_account_def list_ex_iff split: if_splits)
  have "holders s' = insert (?dev, acc) (holders s)" "owners s' = owners s"
    by (simp_all add: s' holders_def owners_def frame_simps row)
  moreover have "pairs s' = pairs s \<union> {?dev} \<times> (owners s `` {acc})"
    by (simp add: s' dir_simps) (simp add: pairs_def owners_def frame_simps)
  moreover have "device_keys s'" "topic_keys s'"
    using assms(1) fresh by (auto simp: directory_ok_def device_keys_def topic_keys_def s' frame_simps row)
  moreover have "covered out s" using assms(1) by (simp add: directory_ok_def)
  ultimately show ?thesis by (auto simp: directory_ok_def covered_def)
qed

lemma update_device_ok:
  assumes "directory_ok out s"
  shows "directory_ok out (fst (update_device sha now dev u b p s))"
proof -
  have "directory_ok out (s\<lparr>devices := upd_where (\<lambda>d. d_id d = dev) (write_device now u p) (devices s)\<rparr>)" (is "directory_ok out ?s1")
  proof -
    have "map d_id (devices ?s1) = map d_id (devices s)" "map d_token_hash (devices ?s1) = map d_token_hash (devices s)"
      by (auto simp: write_device_def intro: map_upd_where)
    moreover have "holders ?s1 = holders s"
      by (rule holders_upd[where P = "\<lambda>d. d_id d = dev" and f = "write_device now u p"]) (simp_all add: write_device_def)
    ultimately show ?thesis using assms
      by (simp add: directory_ok_def device_keys_def topic_keys_def covered_def owners_def pairs_def)
  qed
  then show ?thesis
    using assms dir_frame[of "set_alarm_token now dev p' tok s1" s1 out for p' tok s1]
      dir_frame[of "check_due_after_new_token now dev s1" s1 out for s1]
    by (auto simp: update_device_def Let_def frame_simps split: option.split)
qed

lemma register_device_ok:
  assumes "directory_ok out s"
  shows "directory_ok out (fst (register_device sha now new r b ctx j s))"
  using assms update_device_ok[OF assms, of sha now "rg_device_id r" "device_update.truncate r" b "Some (rg_platform r)"]
    dir_frame[of "s\<lparr>accounts := accs\<rparr>" s out for accs]
  by (auto simp: register_device_def Let_def split: option.split sum.split prod.split if_splits intro: insert_device_ok)

lemma delete_device_frames [frame_simps]:
  "devices (delete_device dev s) = del_where (\<lambda>d. d_id d = dev) (devices s)" "topics (delete_device dev s) = topics s"
  "accounts (delete_device dev s) = accounts s"
  by (simp_all add: delete_device_def delete_devices_def Let_def)

lemma pairs_delete_devices:
  "pairs (delete_devices P s) = {x \<in> pairs s. \<forall>d \<in> set (devices s). P d \<longrightarrow> d_id d \<noteq> fst x}"
  by (auto simp: pairs_def delete_devices_def Let_def table_simps list_ex_iff)

lemma delete_devices_ok:
  assumes "directory_ok out s"
  shows "directory_ok out (delete_devices P s)"
proof -
  have frames: "devices (delete_devices P s) = del_where P (devices s)" "topics (delete_devices P s) = topics s"
    by (simp_all add: delete_devices_def Let_def)
  have keys: "device_keys (delete_devices P s)" "topic_keys (delete_devices P s)"
    using assms by (simp_all add: directory_ok_def device_keys_def topic_keys_def frames distinct_map_del_where)
  have "(dev, h) \<in> pairs (delete_devices P s) \<union> out"
    if h: "(dev, acc) \<in> holders (delete_devices P s)" "(acc, h) \<in> owners (delete_devices P s)" for dev acc h
  proof -
    from h(1) obtain d where d: "d \<in> set (devices s)" "\<not> P d" "d_id d = dev" "d_account_id d = acc"
      by (auto simp: holders_def frames table_simps)
    then have "(dev, acc) \<in> holders s" by (auto simp: holders_def)
    moreover have "(acc, h) \<in> owners s" using h(2) by (simp add: owners_def frames)
    ultimately have "(dev, h) \<in> pairs s \<union> out" using assms by (auto simp: directory_ok_def covered_def)
    moreover have "d' = d" if "d' \<in> set (devices s)" "d_id d' = dev" for d'
      using assms d that by (intro distinct_map_unique[of d_id "devices s"]) (auto simp: directory_ok_def device_keys_def)
    ultimately show ?thesis using d(2) by (auto simp: pairs_delete_devices)
  qed
  with keys show ?thesis by (auto simp: directory_ok_def covered_def)
qed

lemma delete_device_ok:
  assumes "directory_ok out s"
  shows "directory_ok out (delete_device dev s)"
proof -
  have "device_keys (delete_device dev s)" "topic_keys (delete_device dev s)"
    using assms by (simp_all add: directory_ok_def device_keys_def topic_keys_def frame_simps distinct_map_del_where)
  moreover have "pairs (delete_device dev s) = {x \<in> pairs s. fst x \<noteq> dev}"
    by (auto simp: delete_device_def pairs_delete_devices) (auto simp: pairs_def table_simps)
  ultimately show ?thesis using assms
    by (fastforce simp: directory_ok_def covered_def holders_def owners_def frame_simps table_simps)
qed

subsection \<open>Topics\<close>

lemma topic_tables_ok:
  assumes "directory_ok out s" "devices s' = devices s" "subscriptions s' = subscriptions s" "topics s' = del_where P (topics s)"
  shows "directory_ok out s'"
proof -
  have "owners s' \<subseteq> owners s" using assms(4) by (auto simp: owners_def table_simps)
  then have "holders s O owners s' \<subseteq> holders s O owners s" by (intro relcomp_mono order_refl)
  moreover have "holders s' = holders s" "pairs s' = pairs s" using assms by (simp_all add: holders_def pairs_def)
  ultimately have "covered out s'" using assms(1) unfolding directory_ok_def covered_def by (metis subset_trans)
  with assms show ?thesis by (auto simp: directory_ok_def device_keys_def topic_keys_def distinct_map_del_where)
qed

lemma create_topic_ok:
  assumes "directory_ok out s" "create_topic sha cfg now new acc name critical tn s = Inr (s', res)"
  shows "directory_ok out s'"
proof -
  let ?row = "new_topic_row sha cfg now new acc name critical"
  obtain toks where s': "s' = sweep_topic_into_devices acc (t_topic_hash ?row) (s\<lparr>topics := topics s @ [?row], topic_tokens := toks\<rparr>)"
    and none: "owned_topic s acc name = None"
    and fresh: "\<not> list_ex (\<lambda>t. t_id t = ft_id new \<or> (t_account_id t = acc \<and> t_topic_hash t = t_topic_hash ?row)) (topics s)"
    using assms(2) by (auto simp: create_topic_def Let_def split: if_splits)
  have rows: "topics s' = topics s @ [?row]" "devices s' = devices s" by (simp_all add: s' frame_simps)
  have pairs: "pairs s' = pairs s \<union> ((holders s)\<inverse> `` {acc}) \<times> {t_topic_hash ?row}"
    unfolding s' dir_simps by (simp add: pairs_def holders_def)
  have "owners s' = insert (acc, t_topic_hash ?row) (owners s)" "holders s' = holders s"
    by (simp_all add: owners_def holders_def rows) (simp add: new_topic_row_def)
  moreover have "topic_keys s'"
    using assms(1) none fresh
    by (auto simp: directory_ok_def topic_keys_def rows list_ex_iff owned_topic_def find_None_iff new_topic_row_def)
  moreover have "device_keys s'" using assms(1) by (simp add: directory_ok_def device_keys_def rows)
  ultimately show ?thesis using assms(1) pairs by (auto simp: directory_ok_def covered_def)
qed

lemma patched_simps [simp]:
  "t_id (patched p t) = t_id t" "t_account_id (patched p t) = t_account_id t" "t_name (patched p t) = t_name t"
  "t_topic_hash (patched p t) = t_topic_hash t"
  by (simp_all add: patched_def)

lemma patch_topic_ok:
  assumes "directory_ok out s" "patch_topic cfg acc name p s = Inr (s', res)"
  shows "directory_ok out s'"
proof -
  from assms(2) obtain tid where s': "s' = s\<lparr>topics := upd_where (\<lambda>x. t_id x = tid) (patched p) (topics s)\<rparr>"
    by (auto simp: patch_topic_def Let_def split: option.splits if_splits)
  have same: "map f (topics s') = map f (topics s)" if "\<And>t. f (patched p t) = f t" for f :: "topic_row \<Rightarrow> 'x"
    unfolding s' by (simp add: that map_upd_where)
  have "owners s' = owners s" using arg_cong[OF same[of "\<lambda>t. (t_account_id t, t_topic_hash t)"], of set]
    by (simp add: owners_def)
  moreover have "holders s' = holders s" "pairs s' = pairs s" "devices s' = devices s" by (simp_all add: holders_def pairs_def s')
  moreover have "topic_keys s'"
    using assms(1) same[of t_id] same[of "\<lambda>t. (t_account_id t, t_name t)"] same[of "\<lambda>t. (t_account_id t, t_topic_hash t)"]
    by (simp add: directory_ok_def topic_keys_def)
  ultimately show ?thesis using assms(1) by (simp add: directory_ok_def device_keys_def covered_def)
qed

lemma owned_topicD: "owned_topic s acc name = Some t \<Longrightarrow> t \<in> set (topics s) \<and> t_account_id t = acc \<and> t_name t = name"
  unfolding owned_topic_def by (auto dest: find_SomeD)

lemma device_unique:
  "directory_ok out s \<Longrightarrow> (dev, acc) \<in> holders s \<Longrightarrow> (dev, acc') \<in> holders s \<Longrightarrow> acc = acc'"
  by (auto simp: directory_ok_def device_keys_def holders_def dest: distinct_map_unique)

lemma topic_unique:
  "directory_ok out s \<Longrightarrow> t \<in> set (topics s) \<Longrightarrow> t' \<in> set (topics s) \<Longrightarrow>
   t_account_id t = t_account_id t' \<Longrightarrow> t_topic_hash t = t_topic_hash t' \<Longrightarrow> t = t'"
  by (auto simp: directory_ok_def topic_keys_def dest: distinct_map_unique)

lemma delete_topic_ok:
  assumes ok: "directory_ok out s"
  shows "directory_ok out (fst (delete_topic acc name s))"
proof (cases "owned_topic s acc name")
  case (Some t)
  let ?s = "fst (delete_topic acc name s)"
  have rows: "topics ?s = del_where (\<lambda>x. t_id x = t_id t) (topics s)" "devices ?s = devices s"
    by (simp_all add: delete_topic_def Some frame_simps)
  have p: "pairs ?s = {x \<in> pairs s. \<not> (snd x = t_topic_hash t \<and> (fst x, acc) \<in> holders s)}"
    by (force simp: delete_topic_def Some pairs_def frame_simps table_simps holders_def list_ex_iff image_iff)
  have h: "holders ?s = holders s" by (simp add: holders_def rows)
  have "(dev, h) \<in> pairs ?s \<union> out" if d: "(dev, a) \<in> holders s" and o: "(a, h) \<in> owners ?s" for dev a h
  proof -
    from o obtain t' where t': "t' \<in> set (topics s)" "t_id t' \<noteq> t_id t" "t_account_id t' = a" "t_topic_hash t' = h"
      by (auto simp: owners_def rows table_simps)
    then have "(a, h) \<in> owners s" by (auto simp: owners_def)
    with d have "(dev, h) \<in> pairs s \<union> out" using ok by (auto simp: directory_ok_def covered_def)
    moreover have "\<not> (h = t_topic_hash t \<and> (dev, acc) \<in> holders s)"
      using device_unique[OF ok d] topic_unique[OF ok t'(1), of t] owned_topicD[OF Some] t' by auto
    ultimately show ?thesis by (auto simp: p)
  qed
  then have "covered out ?s" by (auto simp: covered_def h)
  moreover have "device_keys ?s" "topic_keys ?s"
    using ok by (simp_all add: directory_ok_def device_keys_def topic_keys_def rows distinct_map_del_where)
  ultimately show ?thesis by (simp add: directory_ok_def)
qed (use ok in \<open>simp add: delete_topic_def\<close>)

subsection \<open>Accounts\<close>

lemma relcomp_moved:
  assumes "H O W \<subseteq> P \<union> out" "H' \<subseteq> {x \<in> H. fst x \<noteq> a} \<union> {(a, b)}"
  shows "H' O W \<subseteq> ({x \<in> P. fst x \<noteq> a} \<union> {a} \<times> (W `` {b})) \<union> out"
proof -
  have "H' O W \<subseteq> ({x \<in> H. fst x \<noteq> a} \<union> {(a, b)}) O W" using assms(2) by (intro relcomp_mono order_refl)
  also have "\<dots> \<subseteq> {x \<in> H O W. fst x \<noteq> a} \<union> {a} \<times> (W `` {b})" by auto
  finally show ?thesis using assms(1) by auto
qed

lemma move_device_ok:
  assumes ok: "directory_ok out s"
  shows "directory_ok out (move_device into dev s)"
proof -
  let ?s1 = "s\<lparr>subscriptions := del_where (\<lambda>x. s_device_id x = dev) (subscriptions s),
    devices := upd_where (\<lambda>d. d_id d = dev) (\<lambda>d. d\<lparr>d_account_id := into\<rparr>) (devices s)\<rparr>"
  have o: "owners (move_device into dev s) = owners s"
    by (simp add: move_device_def owners_def frame_simps)
  have h: "holders (move_device into dev s) \<subseteq> {x \<in> holders s. fst x \<noteq> dev} \<union> {(dev, into)}"
    by (auto simp: move_device_def holders_def frame_simps table_simps)
  have "pairs ?s1 = {x \<in> pairs s. fst x \<noteq> dev}" unfolding pairs_def by (simp add: set_del_where) force
  then have p: "pairs (move_device into dev s) = {x \<in> pairs s. fst x \<noteq> dev} \<union> {dev} \<times> (owners s `` {into})"
    by (simp add: move_device_def dir_simps) (simp add: owners_def)
  have "map d_id (devices (move_device into dev s)) = map d_id (devices s)"
    "map d_token_hash (devices (move_device into dev s)) = map d_token_hash (devices s)"
    by (simp_all add: move_device_def frame_simps map_upd_where)
  then have "device_keys (move_device into dev s)" "topic_keys (move_device into dev s)"
    using ok by (simp_all add: directory_ok_def device_keys_def topic_keys_def) (simp add: move_device_def frame_simps)
  moreover have "covered out (move_device into dev s)"
    unfolding covered_def o p by (rule relcomp_moved[OF _ h]) (use ok in \<open>simp add: directory_ok_def covered_def\<close>)
  ultimately show ?thesis by (simp add: directory_ok_def)
qed

lemma move_devices_ok: "directory_ok out s \<Longrightarrow> directory_ok out (move_devices from into s)"
proof -
  have "directory_ok out s \<Longrightarrow> directory_ok out (fold (move_device into) devs s)" for devs
    by (induction devs arbitrary: s) (simp_all add: move_device_ok)
  then show "directory_ok out s \<Longrightarrow> directory_ok out (move_devices from into s)" by (simp add: move_devices_def)
qed

lemma tombstone_ok: "directory_ok out (tombstone acc into s) \<longleftrightarrow> directory_ok out s"
  by (rule dir_frame) (simp_all add: tombstone_def)

lemma revoke_ok: "directory_ok out (revoke_topic_tokens acc s) \<longleftrightarrow> directory_ok out s"
  by (rule dir_frame) (simp_all add: revoke_topic_tokens_def)

lemma link_identity_ok:
  assumes "directory_ok out s"
  shows "directory_ok out (fst (link_identity resolve now acc token intent s))"
  using assms dir_frame[of "s\<lparr>account_identities := ids\<rparr>" s out for ids]
  by (auto simp: link_identity_def Let_def tombstone_ok move_devices_ok split: option.split)

lemma switch_account_ok:
  assumes "directory_ok out s"
  shows "directory_ok out (fst (switch_account resolve acc token into s))"
  using assms by (auto simp: switch_account_def Let_def tombstone_ok revoke_ok move_devices_ok split: option.split)

lemma distinct_map_upd_one:
  assumes "distinct (map key rows)" "distinct (map f rows)" "t \<in> set rows"
    and "\<And>x. x \<in> set rows \<Longrightarrow> key x \<noteq> key t \<Longrightarrow> f x \<noteq> f (g t)"
  shows "distinct (map f (upd_where (\<lambda>x. key x = key t) g rows))"
proof -
  from assms(3) obtain xs ys where rows: "rows = xs @ t # ys" by (meson split_list)
  have other: "key x \<noteq> key t" if "x \<in> set xs \<union> set ys" for x
    using assms(1) that by (auto simp: rows) (metis image_eqI)+
  then have "upd_where (\<lambda>x. key x = key t) g xs = xs" "upd_where (\<lambda>x. key x = key t) g ys = ys"
    by (auto intro!: upd_where_none)
  moreover have "f (g t) \<notin> f ` (set xs \<union> set ys)" using assms(4) other by (fastforce simp: rows)
  ultimately show ?thesis using assms(2) by (auto simp: rows)
qed

lemma relcomp_extend:
  "H O W \<subseteq> P \<union> out \<Longrightarrow> W' \<subseteq> W \<union> {(a, h)} \<Longrightarrow> H O W' \<subseteq> (P \<union> (H\<inverse> `` {a}) \<times> {h}) \<union> out"
  by (auto 0 3)

lemma merge_topic_ok:
  assumes ok: "directory_ok out s" and t: "t \<in> set (topics s)"
  shows "directory_ok out (fst (merge_topic target t (s, c)))"
proof (cases "survivor_of target t s")
  case (Some v)
  show ?thesis
    by (rule topic_tables_ok[OF ok, where P = "\<lambda>x. t_id x = t_id t"]) (simp_all add: merge_topic_def Some frame_simps)
next
  case None
  let ?g = "\<lambda>x. x\<lparr>t_account_id := target\<rparr>"
  let ?s1 = "s\<lparr>topics := upd_where (\<lambda>x. t_id x = t_id t) ?g (topics s)\<rparr>"
  let ?s = "fst (merge_topic target t (s, c))"
  have s: "?s = sweep_topic_into_devices target (t_topic_hash t) ?s1" by (simp add: merge_topic_def None)
  have none: "t_topic_hash x \<noteq> t_topic_hash t \<and> t_name x \<noteq> t_name t" if "x \<in> set (topics s)" "t_account_id x = target" for x
    using None that by (auto simp: survivor_of_def find_None_iff)
  have keys: "distinct (map t_id (topics s))" using ok by (simp add: directory_ok_def topic_keys_def)
  have "topic_keys ?s1"
    using ok none unfolding directory_ok_def topic_keys_def
    by (auto simp: map_upd_where intro!: distinct_map_upd_one[OF keys _ t])
  moreover have own: "owners ?s1 \<subseteq> owners s \<union> {(target, t_topic_hash t)}"
    using keys t by (auto simp: owners_def table_simps dest: distinct_map_unique)
  have "pairs ?s = pairs s \<union> ((holders s)\<inverse> `` {target}) \<times> {t_topic_hash t}"
    unfolding s dir_simps by (simp add: pairs_def holders_def)
  moreover have "holders ?s = holders s" "owners ?s = owners ?s1" "devices ?s = devices s" "topics ?s = topics ?s1"
    by (simp_all add: s holders_def owners_def frame_simps)
  moreover have "holders s O owners ?s1 \<subseteq> (pairs s \<union> ((holders s)\<inverse> `` {target}) \<times> {t_topic_hash t}) \<union> out"
    by (rule relcomp_extend[OF _ own]) (use ok in \<open>simp add: directory_ok_def covered_def\<close>)
  ultimately show ?thesis using ok
    unfolding directory_ok_def covered_def device_keys_def topic_keys_def by simp
qed


text \<open>The topics of the source that are still to come stay in the table while the fold runs.\<close>

lemma merge_topic_others:
  assumes "x \<in> set (topics s)" "t_id x \<noteq> t_id t"
  shows "x \<in> set (topics (fst (merge_topic target t (s, c))))"
  using assms by (cases "survivor_of target t s") (force simp: merge_topic_def frame_simps table_simps)+

lemma merge_topics_fold_ok:
  assumes "directory_ok out s" "set ts \<subseteq> set (topics s)" "distinct (map t_id ts)"
  shows "directory_ok out (fst (fold (merge_topic target) ts (s, c)))"
  using assms
proof (induction ts arbitrary: s c)
  case (Cons t ts)
  obtain s1 c1 where m: "merge_topic target t (s, c) = (s1, c1)" by fastforce
  have "directory_ok out s1" using merge_topic_ok[of out s t target c] Cons.prems m by simp
  moreover have "set ts \<subseteq> set (topics s1)"
    using Cons.prems merge_topic_others[of _ s t target c] m by (force simp: image_iff)
  ultimately show ?case using Cons.IH[of s1 c1] Cons.prems(3) m by simp
qed simp

lemma merge_transaction_ok:
  assumes ok: "directory_ok out s" and m: "merge_transaction now source target s = Some s'"
  shows "directory_ok out s'"
proof -
  let ?s1 = "repoint_tombstones source target s"
  have "directory_ok out ?s1"
    using ok dir_frame[of ?s1 s out] by (simp add: repoint_tombstones_def)
  moreover have "distinct (map t_id (filter (\<lambda>t. t_account_id t = source) (topics ?s1)))"
    using calculation by (simp add: directory_ok_def topic_keys_def distinct_map_filter)
  ultimately have "directory_ok out (fst (merge_topics source target ?s1))"
    unfolding merge_topics_def by (intro merge_topics_fold_ok) auto
  then have dev: "directory_ok out (fst (merge_devices source target (merge_topics source target ?s1)))"
    by (simp add: merge_devices_def case_prod_beta move_devices_ok)
  obtain s2 c2 where st: "merge_devices source target (merge_topics source target ?s1) = (s2, c2)" by fastforce
  from m st obtain s3 c3 where b: "merge_billing now source target (s2, c2) = Some (s3, c3)"
    and s': "s' = log_merge now source target c3 (tombstone source target (merge_usage source target (merge_grants source target s3)))"
    by (auto simp: merge_transaction_def split: option.splits)
  have frames: "devices s3 = devices s2" "topics s3 = topics s2" "subscriptions s3 = subscriptions s2"
    using b by (auto simp: merge_billing_def Let_def set_tier_def split: option.splits if_splits)
  have "devices s' = devices s2" "topics s' = topics s2" "subscriptions s' = subscriptions s2"
    by (simp_all add: s' log_merge_def tombstone_def merge_usage_def merge_grants_def frames)
  with dev st show ?thesis using dir_frame[of s' s2 out] by simp
qed

lemma merge_accounts_ok:
  assumes "directory_ok out s"
  shows "directory_ok out (fst (merge_accounts resolve now acc token into s))"
  using assms by (auto simp: merge_accounts_def Let_def merge_transaction_ok split: option.split)

lemma delete_topics_ok: "directory_ok out s \<Longrightarrow> directory_ok out (delete_topics P s)"
  by (erule topic_tables_ok) (simp_all add: frame_simps)

lemma delete_account_row_ok:
  assumes "directory_ok out s" "delete_account_row acc s = Some s'"
  shows "directory_ok out s'"
proof -
  let ?s = "delete_topics (\<lambda>t. t_account_id t = acc) (delete_devices (\<lambda>d. d_account_id d = acc) s)"
  have "s' = s \<or> (devices s' = devices ?s \<and> topics s' = topics ?s \<and> subscriptions s' = subscriptions ?s)"
    using assms(2) by (auto simp: delete_account_row_def delete_billing_ids_def Let_def split: if_splits)
  then show ?thesis
    using assms(1) dir_frame[of s' ?s out] delete_topics_ok[OF delete_devices_ok[OF assms(1)]] by auto
qed

lemma erase_account_ok:
  assumes ok: "directory_ok out s" and e: "erase_account acc s = Some (s', c)"
  shows "directory_ok out s'"
proof -
  have rows: "directory_ok out s1 \<Longrightarrow> delete_account_rows accs s1 = Some s2 \<Longrightarrow> directory_ok out s2" for accs s1 s2
    by (induction accs arbitrary: s1) (auto split: option.splits dest: delete_account_row_ok)
  have "directory_ok out (clear_logs fam s)" for fam
    using ok dir_frame[of "clear_logs fam s" s out] by (simp add: clear_logs_def)
  from rows[OF this] e show ?thesis
    using dir_frame[of "s2\<lparr>users := us\<rparr>" s2 out for s2 us]
    by (auto simp: erase_account_def Let_def split: option.splits)
qed

lemma directory_ok_pairs:
  assumes "directory_ok out s" "devices s' = devices s" "topics s' = topics s" "pairs s \<union> out \<subseteq> pairs s' \<union> out'"
  shows "directory_ok out' s'"
proof -
  have "holders s' = holders s" "owners s' = owners s" using assms(2,3) by (simp_all add: holders_def owners_def)
  then have "covered out' s'" using assms(1,4) unfolding directory_ok_def covered_def by (metis subset_trans)
  with assms(1-3) show ?thesis by (simp add: directory_ok_def device_keys_def topic_keys_def)
qed

lemma subscribe_device_ok:
  assumes "directory_ok out s" "subscribe_device ctx h s = Inr s'"
  shows "directory_ok (out - {(ac_device ctx, h)}) s'"
proof -
  have rows: "devices s' = devices s" "topics s' = topics s" and "pairs s' = insert (ac_device ctx, h) (pairs s)"
    using assms(2) by (auto simp: subscribe_device_def pairs_def list_ex_iff image_iff split: option.splits if_splits) force
  then have "pairs s \<union> out \<subseteq> pairs s' \<union> (out - {(ac_device ctx, h)})" by auto
  with assms(1) rows show ?thesis by (rule directory_ok_pairs)
qed

lemma unsubscribe_device_ok:
  assumes "directory_ok out s"
  shows "directory_ok (insert (ac_device ctx, h) out) (unsubscribe_device ctx h s)"
proof -
  have rows: "devices (unsubscribe_device ctx h s) = devices s" "topics (unsubscribe_device ctx h s) = topics s"
    by (simp_all add: unsubscribe_device_def)
  have "pairs s \<union> out \<subseteq> pairs (unsubscribe_device ctx h s) \<union> insert (ac_device ctx, h) out"
    by (auto simp: unsubscribe_device_def pairs_def table_simps image_iff)
  with assms rows show ?thesis by (rule directory_ok_pairs)
qed

subsection \<open>Every operation, in any order\<close>

text \<open>\<open>out\<close> collects the pairs a device unsubscribed and has not subscribed again. Everything that writes
  neither devices, topics nor subscriptions is a step too.\<close>

inductive directory_step :: "(ident \<times> string) set \<times> db \<Rightarrow> (ident \<times> string) set \<times> db \<Rightarrow> bool" where
  Register: "directory_step (out, s) (out, fst (register_device sha now new r b ctx j s))"
| Update: "directory_step (out, s) (out, fst (update_device sha now dev u b p s))"
| Release: "directory_step (out, s) (out, delete_device dev s)"
| Subscribe: "subscribe_device ctx h s = Inr s' \<Longrightarrow> directory_step (out, s) (out - {(ac_device ctx, h)}, s')"
| Unsubscribe: "directory_step (out, s) (insert (ac_device ctx, h) out, unsubscribe_device ctx h s)"
| Create_topic: "create_topic sha cfg now new acc name critical tn s = Inr (s', res) \<Longrightarrow> directory_step (out, s) (out, s')"
| Patch_topic: "patch_topic cfg acc name p s = Inr (s', row) \<Longrightarrow> directory_step (out, s) (out, s')"
| Delete_topic: "directory_step (out, s) (out, fst (delete_topic acc name s))"
| Link_identity: "directory_step (out, s) (out, fst (link_identity resolve now acc token intent s))"
| Switch_account: "directory_step (out, s) (out, fst (switch_account resolve acc token into s))"
| Merge_accounts: "directory_step (out, s) (out, fst (merge_accounts resolve now acc token into s))"
| Erase_account: "erase_account acc s = Some (s', c) \<Longrightarrow> directory_step (out, s) (out, s')"
| Elsewhere: "devices s' = devices s \<Longrightarrow> topics s' = topics s \<Longrightarrow> subscriptions s' = subscriptions s \<Longrightarrow>
    directory_step (out, s) (out, s')"

interpretation directory: invariant_system "\<lambda>(out, s). out = {} \<and> s = empty_db" directory_step "\<lambda>(out, s). directory_ok out s"
proof unfold_locales
  fix st :: "(ident \<times> string) set \<times> db"
  show "(case st of (out, s) \<Rightarrow> out = {} \<and> s = empty_db) \<Longrightarrow> (case st of (out, s) \<Rightarrow> directory_ok out s)"
    by (auto simp: directory_ok_def device_keys_def topic_keys_def covered_def holders_def owners_def pairs_def empty_db_def)
next
  fix st st' :: "(ident \<times> string) set \<times> db"
  show "directory_step st st' \<Longrightarrow> (case st of (out, s) \<Rightarrow> directory_ok out s) \<Longrightarrow> (case st' of (out, s) \<Rightarrow> directory_ok out s)"
    by (induction rule: directory_step.induct)
      (auto intro: register_device_ok update_device_ok delete_device_ok subscribe_device_ok unsubscribe_device_ok create_topic_ok
        patch_topic_ok delete_topic_ok link_identity_ok switch_account_ok merge_accounts_ok erase_account_ok dir_frame[THEN iffD2])
qed

text \<open>C6: No handset is silently left out. From an empty database, after any sequence of registrations,
  releases, topic changes, links, switches, merges and erasures, every device of an account holds a
  subscription to every topic of that account, unless that device unsubscribed from that topic's hash
  and has not subscribed again. Device ids, device tokens, and per account topic names and hashes stay unique.\<close>

theorem handsets_stay_subscribed:
  assumes "directory_step\<^sup>*\<^sup>* ({}, empty_db) (out, s)"
    and "d \<in> set (devices s)" "t \<in> set (topics s)" "d_account_id d = t_account_id t" "(d_id d, t_topic_hash t) \<notin> out"
  shows "\<lparr>s_device_id = d_id d, s_topic_hash = t_topic_hash t\<rparr> \<in> set (subscriptions s) \<and> device_keys s \<and> topic_keys s"
proof -
  have ok: "directory_ok out s" using directory.inv_reachable[OF _ assms(1)] by simp
  have "(d_id d, t_topic_hash t) \<in> holders s O owners s"
    using assms(2-4) by (auto simp: holders_def owners_def intro!: relcompI image_eqI)
  with ok assms(5) have "(d_id d, t_topic_hash t) \<in> pairs s" by (auto simp: directory_ok_def covered_def)
  then obtain x where "x \<in> set (subscriptions s)" "s_device_id x = d_id d" "s_topic_hash x = t_topic_hash t"
    by (auto simp: pairs_def)
  moreover have "x = \<lparr>s_device_id = d_id d, s_topic_hash = t_topic_hash t\<rparr>" using calculation by simp
  ultimately show ?thesis using ok by (simp add: directory_ok_def)
qed


definition demo_registered :: db where
  "demo_registered =
     fst (register_device (\<lambda>x. x) 100 \<lparr>fd_account = ''acc'', fd_token = ''dv_1'', fd_join_token = ''aj_1''\<rparr>
       \<lparr>du_push_token = ''ab'', du_app_version = ''1'', rg_device_id = ''dev'', rg_platform = Ios\<rparr> None None None empty_db)"

definition demo_directory :: db where
  "demo_directory =
     fst (projr (create_topic (\<lambda>x. x) \<lparr>sc_mode = HostedMode, sc_base_url = ''u'', sc_relay_content = ContentNone\<rparr> 101
       \<lparr>ft_id = ''top'', ft_token_id = ''tok'', ft_token = ''tk'', ft_relay_name = []\<rparr> ''acc'' ''t'' False Missing demo_registered))"

theorem handsets_stay_subscribed_witness:
  "\<lparr>s_device_id = ''dev'', s_topic_hash = ''u/t''\<rparr> \<in> set (subscriptions demo_directory) \<and> topic_keys demo_directory"
proof -
  have c: "create_topic (\<lambda>x. x) \<lparr>sc_mode = HostedMode, sc_base_url = ''u'', sc_relay_content = ContentNone\<rparr> 101
      \<lparr>ft_id = ''top'', ft_token_id = ''tok'', ft_token = ''tk'', ft_relay_name = []\<rparr> ''acc'' ''t'' False Missing demo_registered =
      Inr (demo_directory, snd (projr (create_topic (\<lambda>x. x) \<lparr>sc_mode = HostedMode, sc_base_url = ''u'', sc_relay_content = ContentNone\<rparr> 101
      \<lparr>ft_id = ''top'', ft_token_id = ''tok'', ft_token = ''tk'', ft_relay_name = []\<rparr> ''acc'' ''t'' False Missing demo_registered)))"
    by code_simp
  have "directory_step\<^sup>*\<^sup>* ({}, empty_db) ({}, demo_registered)"
    unfolding demo_registered_def by (rule r_into_rtranclp) (rule directory_step.Register)
  then have r: "directory_step\<^sup>*\<^sup>* ({}, empty_db) ({}, demo_directory)"
    using directory_step.Create_topic[OF c] by (rule rtranclp.rtrancl_into_rtrancl)
  have d: "devices demo_directory = [\<lparr>d_id = ''dev'', d_account_id = ''acc'', d_token_hash = ''dv_1'', d_platform = Ios, d_push_token = ''ab'',
      d_last_seen = 100, d_app_version = Some ''1'', d_apns_environment = None, d_last_alarm_push_at = None\<rparr>]"
    and t: "map (\<lambda>t. (t_account_id t, t_topic_hash t)) (topics demo_directory) = [(''acc'', ''u/t'')]" by code_simp+
  obtain top where "topics demo_directory = [top]" "t_account_id top = ''acc''" "t_topic_hash top = ''u/t''" using t by auto
  then show ?thesis using handsets_stay_subscribed[OF r, of "hd (devices demo_directory)" top] d by simp
qed


end
