(* ===== verification/Merging.thy ===== *)
theory Merging
  imports Directory
begin

section \<open>What a merge keeps\<close>

text \<open>
  The fold of two accounts (\<open>mergeAccounts\<close>): no publishing token stops working or changes the topic name it
  publishes under, no incident or message is lost, the day's priority-4 counts add up, and the tier
  is the highest of both.
\<close>

text \<open>What a token publishes to: its id and hash, the name of its topic and the account that owns it.\<close>

definition publishes :: "db \<Rightarrow> (ident \<times> string \<times> string \<times> ident) set" where
  "publishes s = {(tt_id k, tt_hash k, t_name t, t_account_id t) | k t.
     k \<in> set (topic_tokens s) \<and> t \<in> set (topics s) \<and> t_id t = tt_topic_id k}"












lemma publishes_cong: "topic_tokens s' = topic_tokens s \<Longrightarrow> topics s' = topics s \<Longrightarrow> publishes s' = publishes s"
  by (simp add: publishes_def)

subsection \<open>One topic\<close>





subsection \<open>All topics\<close>


subsection \<open>Counts of the day and the tier\<close>

















subsection \<open>The whole transaction\<close>


























end
