(* ===== verification/Json.thy ===== *)
theory Json
  imports Text
begin

section \<open>JSON values\<close>

text \<open>
  What \<open>JSON.parse\<close> returns and what the push payloads are made of. \<open>JInt\<close> is a number that is an integer
  within \<open>2 ^ 53\<close>, so it is exact; every other number is \<open>JReal\<close> with its floor (of an infinite one, some
  integer past \<open>2 ^ 53\<close>) and the text JavaScript prints for it. The fields of an object are in their order, with one entry per name, as \<open>JSON.parse\<close> leaves them.
\<close>

datatype json =
    JNull
  | JBool bool
  | JInt int
  | JReal int string
  | JText string
  | JList "json list"
  | JObj "(string \<times> json) list"

text \<open>\<open>value.name\<close> of an object, with \<^term>\<open>None\<close> for \<open>undefined\<close>; reading a property of another
  value gives no field the server asks for.\<close>

fun json_field :: "string \<Rightarrow> json \<Rightarrow> json option" where
  "json_field k (JObj fs) = map_of fs k"
| "json_field k _ = None"

fun is_object :: "json \<Rightarrow> bool" where
  "is_object (JObj _) = True"
| "is_object _ = False"

text \<open>\<open>typeof value === "object" && value !== null\<close>.\<close>

fun is_record :: "json \<Rightarrow> bool" where
  "is_record (JObj _) = True"
| "is_record (JList _) = True"
| "is_record _ = False"

fun is_number :: "json \<Rightarrow> bool" where
  "is_number (JInt _) = True"
| "is_number (JReal _ _) = True"
| "is_number _ = False"

fun text_of :: "json \<Rightarrow> string option" where
  "text_of (JText x) = Some x"
| "text_of _ = None"

definition text_field :: "string \<Rightarrow> json \<Rightarrow> string option" where
  "text_field k v = Option.bind (json_field k v) text_of"

text \<open>\<open>String(value)\<close>. An object whose own \<open>toString\<close> is there is not a function, and then neither is there a
  primitive value: the conversion throws, which is \<^term>\<open>None\<close>. An array joins its elements with commas, and a
  \<open>null\<close> among them is empty.\<close>

fun js_text :: "json \<Rightarrow> string option" where
  "js_text JNull = Some ''null''"
| "js_text (JBool b) = Some (if b then ''true'' else ''false'')"
| "js_text (JInt n) = Some (int_text n)"
| "js_text (JReal f x) = Some x"
| "js_text (JText x) = Some x"
| "js_text (JList vs) = map_option (join_with '','') (those (map (\<lambda>v. if v = JNull then Some [] else js_text v) vs))"
| "js_text (JObj fs) = (if map_of fs ''toString'' = None then Some ''[object Object]'' else None)"

lemma text_field_Some: "text_field k v = Some x \<longleftrightarrow> json_field k v = Some (JText x)"
  by (auto simp: text_field_def Option.bind_eq_Some_conv elim: text_of.elims)

lemma text_of_Some [simp]: "text_of v = Some x \<longleftrightarrow> v = JText x"
  by (cases v) auto

end
