(* ===== verification/Push.thy ===== *)
theory Push
  imports Checks Json
begin

section \<open>Pushing an alarm: who is rung, through which provider, with what\<close>

text \<open>
  \<open>src/src/push/dispatcher.ts\<close>, \<open>apns.ts\<close>, \<open>apns-token.ts\<close> and \<open>fcm.ts\<close>. The dispatcher finds the account that owns an
  event, the devices of the account that are subscribed to its topic and the tokens of its Live
  Activities, and hands each of them to a sender. The senders build the payloads and talk to Apple and Google.

  What a provider answers, the signing of a token and what other requests write to the database while a
  send is awaited are parameters. The HTTP/2 session behind the transport (its keepalive and its
  reconnects) is outside the model: a transport answers or it throws. A fault of the database itself is not modelled.
\<close>

subsection \<open>Kinds\<close>

fun kind_text :: "event_kind \<Rightarrow> string" where
  "kind_text EvOpen = ''open''"
| "kind_text EvRepeat = ''repeat''"
| "kind_text EvReopen = ''reopen''"
| "kind_text EvP4 = ''p4''"
| "kind_text EvP5 = ''p5''"
| "kind_text EvAck = ''ack''"
| "kind_text EvClose = ''close''"
| "kind_text EvExpire = ''expire''"

definition is_state_kind :: "event_kind \<Rightarrow> bool" where
  "is_state_kind k \<longleftrightarrow> k \<in> {EvAck, EvClose, EvExpire}"

datatype live_action = LiveStart | LiveUpdate | LiveEnd

fun live_action_of :: "event_kind \<Rightarrow> live_action option" where
  "live_action_of EvOpen = Some LiveStart"
| "live_action_of EvReopen = Some LiveUpdate"
| "live_action_of EvAck = Some LiveUpdate"
| "live_action_of EvClose = Some LiveEnd"
| "live_action_of EvExpire = Some LiveEnd"
| "live_action_of _ = None"

fun fallback_state :: "event_kind \<Rightarrow> incident_state" where
  "fallback_state EvAck = Acked"
| "fallback_state EvClose = Closed"
| "fallback_state EvExpire = Expired"
| "fallback_state _ = Open"

subsection \<open>Devices and pushes\<close>

record push_device =
  pd_id :: ident
  pd_account_id :: ident
  pd_platform :: platform
  pd_push_token :: string
  pd_apns_environment :: "apns_environment option"

record live_push =
  lp_token :: string
  lp_event :: live_action
  lp_incident_id :: ident
  lp_topic :: string
  lp_server :: string
  lp_state :: incident_state
  lp_title :: string
  lp_opened_at :: seconds
  lp_apns_environment :: "apns_environment option"

record push_result =
  pr_status :: int
  pr_stale :: bool
  pr_apns_environment :: "apns_environment option"

text \<open>A send returns a result or throws.\<close>

datatype send_answer = SendThrew | SendAnswered push_result

definition accepted_status :: "int \<Rightarrow> bool" where
  "accepted_status n \<longleftrightarrow> 200 \<le> n \<and> n < 300"

text \<open>A sender keeps state of its own (a cached provider token), of any type.\<close>

type_synonym 'w alarm_sender = "push_device \<Rightarrow> delivery_event \<Rightarrow> 'w \<Rightarrow> 'w \<times> send_answer"
type_synonym 'w live_sender = "live_push \<Rightarrow> 'w \<Rightarrow> 'w \<times> send_answer"

section \<open>The dispatcher\<close>

subsection \<open>Whom an event is for\<close>

definition owning_account :: "db \<Rightarrow> delivery_event \<Rightarrow> ident option" where
  "owning_account s ev =
     (case e_account_id ev of Some acc \<Rightarrow> Some acc
      | None \<Rightarrow> (case List.find (\<lambda>m. m_id m = e_message_id ev) (messages s) of None \<Rightarrow> None
         | Some m \<Rightarrow> map_option t_account_id (List.find (\<lambda>t. t_id t = m_topic_id m) (topics s))))"

text \<open>The alarm token of a device: its row in \<open>device_tokens\<close>, or the column it was once kept in.\<close>

definition alarm_push_token :: "db \<Rightarrow> device_row \<Rightarrow> string" where
  "alarm_push_token s d = (case alarm_token_row s d of None \<Rightarrow> d_push_token d | Some k \<Rightarrow> dt_token k)"

definition push_device_of :: "db \<Rightarrow> device_row \<Rightarrow> push_device" where
  "push_device_of s d =
     \<lparr>pd_id = d_id d, pd_account_id = d_account_id d, pd_platform = d_platform d,
      pd_push_token = alarm_push_token s d, pd_apns_environment = d_apns_environment d\<rparr>"

definition subscribed_to :: "db \<Rightarrow> string \<Rightarrow> device_row \<Rightarrow> bool" where
  "subscribed_to s hash d \<longleftrightarrow> list_ex (\<lambda>x. s_device_id x = d_id d \<and> s_topic_hash x = hash) (subscriptions s)"

definition subscribed_devices :: "db \<Rightarrow> string \<Rightarrow> ident \<Rightarrow> push_device list" where
  "subscribed_devices s hash acc =
     map (push_device_of s)
       (filter (\<lambda>d. subscribed_to s hash d \<and> alarm_push_token s d \<noteq> [] \<and> d_account_id d = acc) (devices s))"

text \<open>A state kind goes to Android and macOS only.\<close>

definition alarm_devices :: "db \<Rightarrow> delivery_event \<Rightarrow> ident \<Rightarrow> push_device list" where
  "alarm_devices s ev acc =
     filter (\<lambda>d. \<not> is_state_kind (e_kind ev) \<or> pd_platform d = Android \<or> pd_platform d = Macos)
       (subscribed_devices s (e_topic_hash ev) acc)"

text \<open>A start goes to the push-to-start tokens of the subscribed devices, an update or an end to
  the activities that run for the incident. A Mac has none.\<close>

definition live_targets :: "db \<Rightarrow> live_action \<Rightarrow> delivery_event \<Rightarrow> ident \<Rightarrow> (string \<times> apns_environment option) list" where
  "live_targets s action ev acc =
     (let joined = concat (map (\<lambda>k. case device_of s (dt_device_id k) of None \<Rightarrow> [] | Some d \<Rightarrow> [(k, d)]) (device_tokens s));
          wanted = (\<lambda>(k, d). d_platform d \<noteq> Macos \<and>
             (if action = LiveStart
              then dt_kind k = LaStart \<and> d_id d \<in> pd_id ` set (subscribed_devices s (e_topic_hash ev) acc)
              else dt_kind k = LaUpdate \<and> dt_incident_id k = e_incident_id ev \<and> d_account_id d = acc))
      in map (\<lambda>(k, d). (dt_token k, d_apns_environment d)) (filter wanted joined))"

definition live_title :: "delivery_event \<Rightarrow> string" where
  "live_title ev = (if e_relay_content ev = Some ContentFull then e_title ev else ''Critical alert on '' @ e_topic ev)"

definition live_push_for :: "db \<Rightarrow> seconds \<Rightarrow> live_action \<Rightarrow> delivery_event \<Rightarrow> ident \<Rightarrow> string \<times> apns_environment option \<Rightarrow> live_push" where
  "live_push_for s now action ev inc target =
     \<lparr>lp_token = fst target, lp_event = action, lp_incident_id = inc, lp_topic = e_topic ev, lp_server = e_server ev,
      lp_state = (case incident_of s inc of None \<Rightarrow> fallback_state (e_kind ev) | Some i \<Rightarrow> i_state i),
      lp_title = live_title ev,
      lp_opened_at = (case incident_of s inc of None \<Rightarrow> now | Some i \<Rightarrow> i_opened_at i),
      lp_apns_environment = snd target\<rparr>"

subsection \<open>What an answer changes\<close>

text \<open>Apple's 410 retires the token, unless a newer one has replaced it.\<close>

definition forget_alarm_token :: "push_device \<Rightarrow> db \<Rightarrow> db" where
  "forget_alarm_token d s =
     s\<lparr>devices := upd_where (\<lambda>r. d_id r = pd_id d \<and> d_push_token r = pd_push_token d) (\<lambda>r. r\<lparr>d_push_token := []\<rparr>) (devices s),
       device_tokens := del_where (\<lambda>k. dt_device_id k = pd_id d \<and> dt_kind k = Apns \<and> dt_token k = pd_push_token d) (device_tokens s)\<rparr>"

definition remember_apns_environment :: "push_device \<Rightarrow> push_result \<Rightarrow> db \<Rightarrow> db" where
  "remember_apns_environment d r s =
     (if \<not> uses_apns (pd_platform d) \<or> pr_apns_environment r = None \<or> \<not> accepted_status (pr_status r)
         \<or> pr_apns_environment r = pd_apns_environment d then s
      else s\<lparr>devices := upd_where (\<lambda>x. d_id x = pd_id d) (\<lambda>x. x\<lparr>d_apns_environment := pr_apns_environment r\<rparr>) (devices s)\<rparr>)"

definition forget_live_token :: "string \<Rightarrow> db \<Rightarrow> db" where
  "forget_live_token token s =
     s\<lparr>device_tokens := del_where (\<lambda>k. dt_token k = token \<and> dt_kind k \<in> {LaStart, LaUpdate}) (device_tokens s)\<rparr>"

subsection \<open>Dispatching\<close>

text \<open>The state of a dispatch: the database, the state of the senders, the calls made so far with their
  answers, and the tally.\<close>

datatype push_call = AlarmCall push_device delivery_event send_answer | LiveCall live_push send_answer

record 'w dispatching =
  dp_db :: db
  dp_senders :: 'w
  dp_calls :: "push_call list"
  dp_delivered :: nat
  dp_failed :: nat

text \<open>The senders, the clock the \<open>k\<close>th Live Activity update reads, and what the rest of the server
  writes during the \<open>k\<close>th send.\<close>

record 'w push_env =
  pe_apns :: "'w alarm_sender"
  pe_fcm :: "'w alarm_sender"
  pe_live :: "'w live_sender option"
  pe_now :: "nat \<Rightarrow> seconds"
  pe_meanwhile :: "nat \<Rightarrow> db \<Rightarrow> db"

definition sender_for :: "'w push_env \<Rightarrow> push_device \<Rightarrow> 'w alarm_sender" where
  "sender_for env d = (if uses_apns (pd_platform d) then pe_apns env else pe_fcm env)"

definition settle_alarm :: "push_device \<Rightarrow> send_answer \<Rightarrow> 'w dispatching \<Rightarrow> 'w dispatching" where
  "settle_alarm d a st =
     (case a of
        SendThrew \<Rightarrow> st\<lparr>dp_failed := Suc (dp_failed st)\<rparr>
      | SendAnswered r \<Rightarrow>
          (let s1 = remember_apns_environment d r (dp_db st)
           in st\<lparr>dp_db := (if uses_apns (pd_platform d) \<and> pr_stale r then forget_alarm_token d s1 else s1),
                 dp_delivered := dp_delivered st + (if accepted_status (pr_status r) \<and> \<not> pr_stale r then 1 else 0)\<rparr>))"

definition send_alarm :: "'w push_env \<Rightarrow> delivery_event \<Rightarrow> push_device \<Rightarrow> 'w dispatching \<Rightarrow> 'w dispatching" where
  "send_alarm env ev d st =
     (case sender_for env d d ev (dp_senders st) of (w, a) \<Rightarrow>
        settle_alarm d a (st\<lparr>dp_senders := w, dp_calls := dp_calls st @ [AlarmCall d ev a],
                             dp_db := pe_meanwhile env (length (dp_calls st)) (dp_db st)\<rparr>))"

definition send_to_devices :: "'w push_env \<Rightarrow> delivery_event \<Rightarrow> ident \<Rightarrow> 'w dispatching \<Rightarrow> 'w dispatching" where
  "send_to_devices env ev acc st = fold (send_alarm env ev) (alarm_devices (dp_db st) ev acc) st"

definition send_live :: "'w push_env \<Rightarrow> 'w live_sender \<Rightarrow> live_push \<Rightarrow> 'w dispatching \<Rightarrow> 'w dispatching" where
  "send_live env send p st =
     (case send p (dp_senders st) of (w, a) \<Rightarrow>
        (let st1 = st\<lparr>dp_senders := w, dp_calls := dp_calls st @ [LiveCall p a],
                      dp_db := pe_meanwhile env (length (dp_calls st)) (dp_db st)\<rparr>
         in case a of
              SendThrew \<Rightarrow> st1\<lparr>dp_failed := Suc (dp_failed st1)\<rparr>
            | SendAnswered r \<Rightarrow> if pr_stale r then st1\<lparr>dp_db := forget_live_token (lp_token p) (dp_db st1)\<rparr> else st1))"

definition update_live_activities :: "'w push_env \<Rightarrow> delivery_event \<Rightarrow> ident \<Rightarrow> 'w dispatching \<Rightarrow> 'w dispatching" where
  "update_live_activities env ev acc st =
     (case (live_action_of (e_kind ev), pe_live env, e_incident_id ev) of
        (Some action, Some send, Some inc) \<Rightarrow>
          (let s = dp_db st; now = pe_now env (length (dp_calls st))
           in fold (send_live env send) (map (live_push_for s now action ev inc) (live_targets s action ev acc)) st)
      | _ \<Rightarrow> st)"

definition dispatch_event :: "'w push_env \<Rightarrow> delivery_event \<Rightarrow> 'w dispatching \<Rightarrow> 'w dispatching" where
  "dispatch_event env ev st =
     (case owning_account (dp_db st) ev of
        None \<Rightarrow> st
      | Some acc \<Rightarrow> update_live_activities env ev acc (send_to_devices env ev acc st))"

definition dispatch_events :: "'w push_env \<Rightarrow> delivery_event list \<Rightarrow> 'w dispatching \<Rightarrow> 'w dispatching" where
  "dispatch_events env evs st = fold (dispatch_event env) evs st"

text \<open>\<open>dispatch\<close> as a call: the failed sends are left out of the answer when there are none.\<close>

definition dispatch :: "'w push_env \<Rightarrow> delivery_event list \<Rightarrow> 'w \<Rightarrow> db \<Rightarrow> 'w dispatching \<times> nat \<times> nat option" where
  "dispatch env evs w s =
     (let st = dispatch_events env evs \<lparr>dp_db = s, dp_senders = w, dp_calls = [], dp_delivered = 0, dp_failed = 0\<rparr>
      in (st, dp_delivered st, if dp_failed st = 0 then None else Some (dp_failed st)))"


subsection \<open>Nothing stops the pushes after it\<close>

text \<open>Whom the dispatcher tries for an event, read off the database as it is when the event's turn comes.\<close>

definition alarm_targets :: "db \<Rightarrow> delivery_event \<Rightarrow> push_device list" where
  "alarm_targets s ev = (case owning_account s ev of None \<Rightarrow> [] | Some acc \<Rightarrow> alarm_devices s ev acc)"

fun alarms_asked :: "push_call list \<Rightarrow> (push_device \<times> delivery_event) list" where
  "alarms_asked [] = []"
| "alarms_asked (AlarmCall d ev a # cs) = (d, ev) # alarms_asked cs"
| "alarms_asked (LiveCall p a # cs) = alarms_asked cs"

fun call_accepted :: "push_call \<Rightarrow> bool" where
  "call_accepted (AlarmCall d ev (SendAnswered r)) \<longleftrightarrow> accepted_status (pr_status r) \<and> \<not> pr_stale r"
| "call_accepted _ \<longleftrightarrow> False"

fun call_threw :: "push_call \<Rightarrow> bool" where
  "call_threw (AlarmCall d ev a) \<longleftrightarrow> a = SendThrew"
| "call_threw (LiveCall p a) \<longleftrightarrow> a = SendThrew"

lemma alarms_asked_append [simp]: "alarms_asked (xs @ ys) = alarms_asked xs @ alarms_asked ys"
  by (induction xs rule: alarms_asked.induct) simp_all

text \<open>What a piece of a dispatch does: it adds calls, keeps the tally of them, and the alarms among them are \<open>ds\<close>.\<close>

definition adds_calls :: "(push_device \<times> delivery_event) list \<Rightarrow> 'w dispatching \<Rightarrow> 'w dispatching \<Rightarrow> bool" where
  "adds_calls ds st st' \<longleftrightarrow>
     (\<exists>cs. dp_calls st' = dp_calls st @ cs \<and> alarms_asked cs = ds \<and>
           dp_delivered st' = dp_delivered st + count_where call_accepted cs \<and>
           dp_failed st' = dp_failed st + count_where call_threw cs)"

lemma adds_nothing: "adds_calls [] st st"
  by (simp add: adds_calls_def)

lemma adds_calls_trans: "adds_calls xs st st1 \<Longrightarrow> adds_calls ys st1 st2 \<Longrightarrow> adds_calls (xs @ ys) st st2"
  unfolding adds_calls_def by fastforce

lemma send_alarm_adds: "adds_calls [(d, ev)] st (send_alarm env ev d st)"
  unfolding adds_calls_def send_alarm_def settle_alarm_def Let_def
  by (rule exI[of _ "[AlarmCall d ev (snd (sender_for env d d ev (dp_senders st)))]"])
     (auto split: prod.split send_answer.split)

lemma send_live_adds: "adds_calls [] st (send_live env send p st)"
  unfolding adds_calls_def send_live_def Let_def
  by (rule exI[of _ "[LiveCall p (snd (send p (dp_senders st)))]"])
     (auto split: prod.split send_answer.split)

lemma send_alarms_add: "adds_calls (map (\<lambda>d. (d, ev)) ds) st (fold (send_alarm env ev) ds st)"
proof (induction ds arbitrary: st)
  case (Cons d ds)
  show ?case using adds_calls_trans[OF send_alarm_adds Cons] by simp
qed (simp add: adds_nothing)

lemma send_lives_add: "adds_calls [] st (fold (send_live env send) ps st)"
proof (induction ps arbitrary: st)
  case (Cons p ps)
  show ?case using adds_calls_trans[OF send_live_adds Cons] by simp
qed (simp add: adds_nothing)

lemma update_live_adds: "adds_calls [] st (update_live_activities env ev acc st)"
  by (auto simp: update_live_activities_def Let_def adds_nothing send_lives_add split: option.split)

lemma dispatch_event_adds: "adds_calls (map (\<lambda>d. (d, ev)) (alarm_targets (dp_db st) ev)) st (dispatch_event env ev st)"
proof (cases "owning_account (dp_db st) ev")
  case (Some acc)
  have "adds_calls (map (\<lambda>d. (d, ev)) (alarm_devices (dp_db st) ev acc)) st (send_to_devices env ev acc st)"
    unfolding send_to_devices_def by (rule send_alarms_add)
  from adds_calls_trans[OF this update_live_adds] show ?thesis
    using Some by (simp add: dispatch_event_def alarm_targets_def)
qed (simp add: dispatch_event_def alarm_targets_def adds_nothing)

definition all_targets :: "(push_device \<times> delivery_event) list \<Rightarrow> bool" where
  "all_targets ds \<longleftrightarrow> (\<forall>(d, ev) \<in> set ds. \<exists>s. d \<in> set (alarm_targets s ev))"

lemma all_targets_append [simp]: "all_targets (xs @ ys) \<longleftrightarrow> all_targets xs \<and> all_targets ys"
  unfolding all_targets_def by (simp add: ball_Un)

lemma all_targets_of: "all_targets (map (\<lambda>d. (d, ev)) (alarm_targets s ev))"
  by (auto simp: all_targets_def)

lemma dispatch_events_add:
  "\<exists>ds. snd ` set ds \<subseteq> set evs \<and> all_targets ds \<and> adds_calls ds st (dispatch_events env evs st)"
proof (induction evs arbitrary: st)
  case Nil
  have "all_targets []" by (simp add: all_targets_def)
  then show ?case by (auto simp: dispatch_events_def adds_nothing)
next
  case (Cons ev evs)
  let ?here = "map (\<lambda>d. (d, ev)) (alarm_targets (dp_db st) ev)"
  obtain ds where "snd ` set ds \<subseteq> set evs" "all_targets ds"
      "adds_calls ds (dispatch_event env ev st) (dispatch_events env evs (dispatch_event env ev st))"
    using Cons by blast
  then have "snd ` set (?here @ ds) \<subseteq> set (ev # evs)" "all_targets (?here @ ds)" "adds_calls (?here @ ds) st (dispatch_events env (ev # evs) st)"
    using adds_calls_trans[OF dispatch_event_adds] by (auto simp: dispatch_events_def all_targets_of)
  then show ?case by blast
qed

definition dispatched :: "'w push_env \<Rightarrow> 'w \<Rightarrow> db \<Rightarrow> delivery_event list \<Rightarrow> 'w dispatching" where
  "dispatched env w s evs = fst (dispatch env evs w s)"

text \<open>C5: Pushing a batch of events, no answer and no throw of a sender keeps a later push from being tried:
  when the turn of an event comes, every device of the account that owns it that is subscribed to its topic, has a
  token and may hear its kind is tried exactly once, in order, before anything of a later event; and the
  tally is exact: delivered counts the sends the provider accepted with a token it still knows, failed the sends that threw.\<close>

theorem dispatch_tries_every_target:
  "(\<exists>later. alarms_asked (dp_calls (dispatched env w s (evs1 @ ev # evs2))) =
       alarms_asked (dp_calls (dispatched env w s evs1)) @
       map (\<lambda>d. (d, ev)) (alarm_targets (dp_db (dispatched env w s evs1)) ev) @ later \<and>
       snd ` set later \<subseteq> set evs2) \<and>
   dp_delivered (dispatched env w s evs1) = count_where call_accepted (dp_calls (dispatched env w s evs1)) \<and>
   dp_failed (dispatched env w s evs1) = count_where call_threw (dp_calls (dispatched env w s evs1))"
proof -
  let ?run = "dispatched env w s"
  let ?st0 = "\<lparr>dp_db = s, dp_senders = w, dp_calls = [], dp_delivered = 0, dp_failed = 0\<rparr>"
  have run: "?run evs = dispatch_events env evs ?st0" for evs
    by (simp add: dispatched_def dispatch_def Let_def)
  let ?st1 = "?run evs1" and ?here = "map (\<lambda>d. (d, ev)) (alarm_targets (dp_db (?run evs1)) ev)"
  obtain later where later: "snd ` set later \<subseteq> set evs2"
      "adds_calls later (dispatch_event env ev ?st1) (dispatch_events env evs2 (dispatch_event env ev ?st1))"
    using dispatch_events_add by blast
  have "?run (evs1 @ ev # evs2) = dispatch_events env evs2 (dispatch_event env ev ?st1)"
    by (simp add: run dispatch_events_def)
  then have "adds_calls (?here @ later) ?st1 (?run (evs1 @ ev # evs2))"
    using adds_calls_trans[OF dispatch_event_adds later(2)] by simp
  then have one: "\<exists>later. alarms_asked (dp_calls (?run (evs1 @ ev # evs2))) =
      alarms_asked (dp_calls ?st1) @ ?here @ later \<and> snd ` set later \<subseteq> set evs2"
    using later(1) by (auto simp: adds_calls_def)
  obtain ds where "adds_calls ds ?st0 (?run evs1)"
    using dispatch_events_add run by metis
  then have "dp_delivered ?st1 = count_where call_accepted (dp_calls ?st1)"
    "dp_failed ?st1 = count_where call_threw (dp_calls ?st1)"
    by (auto simp: adds_calls_def)
  with one show ?thesis by blast
qed


section \<open>Apple\<close>

subsection \<open>The provider token\<close>

text \<open>\<open>src/src/push/apns-token.ts\<close>: the signed token with the second it was signed, and how many were signed.
  Signing is a parameter, and it throws on a key that cannot be read.\<close>

record provider_token =
  pt_cached :: "(string \<times> seconds) option"
  pt_minted :: nat

definition provider_token_get :: "(seconds \<Rightarrow> string option) \<Rightarrow> seconds \<Rightarrow> provider_token \<Rightarrow> provider_token \<times> string option" where
  "provider_token_get sign now t =
     (case pt_cached t of
        Some (v, issued) \<Rightarrow>
          if now - issued < 50 * 60 then (t, Some v)
          else (case sign now of None \<Rightarrow> (t, None) | Some x \<Rightarrow> (\<lparr>pt_cached = Some (x, now), pt_minted = Suc (pt_minted t)\<rparr>, Some x))
      | None \<Rightarrow> (case sign now of None \<Rightarrow> (t, None) | Some x \<Rightarrow> (\<lparr>pt_cached = Some (x, now), pt_minted = Suc (pt_minted t)\<rparr>, Some x)))"

subsection \<open>Payloads\<close>

definition optional_field :: "string \<Rightarrow> json option \<Rightarrow> (string \<times> json) list" where
  "optional_field k v = (case v of None \<Rightarrow> [] | Some x \<Rightarrow> [(k, x)])"

definition em_dash :: string where
  "em_dash = [CHR 0xE2, CHR 0x80, CHR 0x94]"

definition is_critical_push :: "delivery_event \<Rightarrow> bool" where
  "is_critical_push ev \<longleftrightarrow> e_priority ev = 5 \<and> e_critical ev \<and> e_incident_id ev \<noteq> None"

definition apns_alert :: "delivery_event \<Rightarrow> json" where
  "apns_alert ev =
     (if e_relay_content ev = Some ContentFull
      then JObj [(''title'', JText (e_title ev)), (''body'', JText (e_body ev))]
      else JObj [(''title'', JText ''Crit Alarm''),
                 (''body'', JText (''Critical alert on '' @ e_topic ev @ '' '' @ em_dash @ '' open to see details''))])"

definition apns_payload :: "delivery_event \<Rightarrow> json" where
  "apns_payload ev =
     JObj ([(''aps'', JObj ([(''alert'', apns_alert ev), (''interruption-level'', JText ''time-sensitive'')] @
              (if e_relay_content ev = Some ContentFull then [] else [(''mutable-content'', JInt 1)]) @
              [(''category'', JText ''INCIDENT'')] @
              (if is_critical_push ev then [(''sound'', JText ''alarm.caf''), (''content-available'', JInt 1)] else [])))] @
           optional_field ''incident_id'' (map_option JText (e_incident_id ev)) @
           [(''topic'', JText (e_topic ev)), (''server'', JText (e_server ev)), (''kind'', JText (kind_text (e_kind ev)))] @
           optional_field ''ring_until'' (map_option JInt (e_ring_until ev)))"

definition background_payload :: "delivery_event \<Rightarrow> json" where
  "background_payload ev =
     JObj ([(''aps'', JObj [(''content-available'', JInt 1)])] @
           optional_field ''incident_id'' (map_option JText (e_incident_id ev)) @
           [(''server'', JText (e_server ev)), (''kind'', JText (kind_text (e_kind ev)))])"

fun state_text :: "incident_state \<Rightarrow> string" where
  "state_text Open = ''open''"
| "state_text Acked = ''acked''"
| "state_text Closed = ''closed''"
| "state_text Expired = ''expired''"

fun live_action_text :: "live_action \<Rightarrow> string" where
  "live_action_text LiveStart = ''start''"
| "live_action_text LiveUpdate = ''update''"
| "live_action_text LiveEnd = ''end''"

definition live_payload :: "live_push \<Rightarrow> seconds \<Rightarrow> json" where
  "live_payload p now =
     JObj [(''aps'', JObj ([(''timestamp'', JInt now), (''event'', JText (live_action_text (lp_event p)))] @
        (if lp_event p = LiveStart
         then [(''attributes-type'', JText ''CritAlarmIncidentAttributes''),
               (''attributes'', JObj [(''incident_id'', JText (lp_incident_id p)), (''topic'', JText (lp_topic p)),
                                      (''server'', JText (lp_server p))])]
         else []) @
        [(''content-state'', JObj [(''state'', JText (state_text (lp_state p))), (''title'', JText (lp_title p)),
                                   (''opened_at'', JInt (lp_opened_at p))])] @
        (if lp_event p = LiveEnd then [(''dismissal-date'', JInt now)] else [])))]"

subsection \<open>Requests\<close>

text \<open>\<open>encodeURIComponent\<close>: every byte but the letters, the digits and \<open>- _ . ! ~ * ' ( )\<close> as two
  hexadecimal digits.\<close>

definition upper_hex :: "nat \<Rightarrow> char" where
  "upper_hex n = (if n < 10 then char_of (48 + n) else char_of (55 + n))"

definition uri_plain :: "char \<Rightarrow> bool" where
  "uri_plain c \<longleftrightarrow> is_word_char c \<or> c \<in> set ''.!~*()'' \<or> c = CHR 0x27"

definition uri_encode :: "string \<Rightarrow> string" where
  "uri_encode x =
     concat (map (\<lambda>c. if uri_plain c then [c] else [CHR ''%'', upper_hex (of_char c div 16), upper_hex (of_char c mod 16)]) x)"

record apns_request =
  aq_path :: string
  aq_headers :: "(string \<times> string) list"
  aq_body :: json

text \<open>The answer of Apple's host: the status with the body, as text and as \<open>JSON.parse\<close> reads it; or no answer at all.\<close>

datatype transport_answer = TransportFailed | TransportReply int string "json option"

definition rejection_reason :: "string \<Rightarrow> json option \<Rightarrow> string" where
  "rejection_reason body parsed =
     (if body = [] then []
      else (case Option.bind parsed (json_field ''reason'') of None \<Rightarrow> body
            | Some r \<Rightarrow> (case js_text r of None \<Rightarrow> body | Some x \<Rightarrow> x)))"

fun wrong_environment :: "transport_answer \<Rightarrow> bool" where
  "wrong_environment (TransportReply status body parsed) \<longleftrightarrow>
     status = 400 \<and> rejection_reason body parsed = ''BadDeviceToken''"
| "wrong_environment TransportFailed \<longleftrightarrow> False"

fun apns_result :: "apns_environment \<Rightarrow> transport_answer \<Rightarrow> send_answer" where
  "apns_result e TransportFailed = SendThrew"
| "apns_result e (TransportReply status body parsed) =
     SendAnswered \<lparr>pr_status = status, pr_stale = (status = 410), pr_apns_environment = Some e\<rparr>"

text \<open>The state of the sender: its token and the requests it has made. \<open>host k\<close> is how Apple answers the \<open>k\<close>th.\<close>

record apns_state =
  as_token :: provider_token
  as_requests :: "(apns_environment \<times> apns_request) list"

type_synonym apns_host = "nat \<Rightarrow> apns_environment \<Rightarrow> apns_request \<Rightarrow> transport_answer"

definition transport_send :: "apns_host \<Rightarrow> apns_environment \<Rightarrow> apns_request \<Rightarrow> apns_state \<Rightarrow> apns_state \<times> transport_answer" where
  "transport_send host e rq w = (w\<lparr>as_requests := as_requests w @ [(e, rq)]\<rparr>, host (length (as_requests w)) e rq)"

text \<open>One retry, and only when the transport threw.\<close>

definition send_with_retry :: "apns_host \<Rightarrow> apns_environment \<Rightarrow> apns_request \<Rightarrow> apns_state \<Rightarrow> apns_state \<times> transport_answer" where
  "send_with_retry host e rq w =
     (case transport_send host e rq w of (w1, a) \<Rightarrow>
        (if a = TransportFailed then transport_send host e rq w1 else (w1, a)))"

text \<open>One host, and the other one when the first says the token is not one of its own.\<close>

definition apns_push :: "apns_host \<Rightarrow> apns_environment \<Rightarrow> apns_request \<Rightarrow> apns_state \<Rightarrow> apns_state \<times> send_answer" where
  "apns_push host e rq w =
     (case send_with_retry host e rq w of (w1, first) \<Rightarrow>
        (if \<not> wrong_environment first then (w1, apns_result e first)
         else (case send_with_retry host (other_environment e) rq w1 of (w2, second) \<Rightarrow>
                 (w2, apns_result (other_environment e) second))))"

record apns_settings =
  ap_bundle_id :: string
  ap_environment :: apns_environment

definition start_environment :: "apns_settings \<Rightarrow> apns_environment option \<Rightarrow> apns_environment" where
  "start_environment cfg known = (case known of None \<Rightarrow> ap_environment cfg | Some e \<Rightarrow> e)"

definition collapse_id :: "delivery_event \<Rightarrow> string" where
  "collapse_id ev = (case e_incident_id ev of None \<Rightarrow> e_message_id ev | Some inc \<Rightarrow> inc)"

definition device_path :: "string \<Rightarrow> string" where
  "device_path token = ''/3/device/'' @ uri_encode token"

definition alert_request :: "apns_settings \<Rightarrow> string \<Rightarrow> seconds \<Rightarrow> push_device \<Rightarrow> delivery_event \<Rightarrow> apns_request" where
  "alert_request cfg token now d ev =
     \<lparr>aq_path = device_path (pd_push_token d),
      aq_headers = [(''authorization'', ''bearer '' @ token), (''apns-topic'', ap_bundle_id cfg),
        (''apns-push-type'', ''alert''), (''apns-priority'', ''10''), (''apns-collapse-id'', collapse_id ev),
        (''apns-expiration'', int_text (now + e_max_ring_s ev)), (''content-type'', ''application/json'')],
      aq_body = apns_payload ev\<rparr>"

definition background_request :: "apns_settings \<Rightarrow> string \<Rightarrow> seconds \<Rightarrow> push_device \<Rightarrow> delivery_event \<Rightarrow> apns_request" where
  "background_request cfg token now d ev =
     \<lparr>aq_path = device_path (pd_push_token d),
      aq_headers = [(''authorization'', ''bearer '' @ token), (''apns-topic'', ap_bundle_id cfg),
        (''apns-push-type'', ''background''), (''apns-priority'', ''5''), (''apns-collapse-id'', collapse_id ev),
        (''apns-expiration'', int_text (now + 60)), (''content-type'', ''application/json'')],
      aq_body = background_payload ev\<rparr>"

definition live_request :: "apns_settings \<Rightarrow> string \<Rightarrow> seconds \<Rightarrow> live_push \<Rightarrow> apns_request" where
  "live_request cfg token now p =
     \<lparr>aq_path = device_path (lp_token p),
      aq_headers = [(''authorization'', ''bearer '' @ token), (''apns-topic'', ap_bundle_id cfg @ ''.push-type.liveactivity''),
        (''apns-push-type'', ''liveactivity''), (''apns-priority'', ''10''), (''content-type'', ''application/json'')],
      aq_body = live_payload p now\<rparr>"

text \<open>Sending with a token of the provider; \<open>clk\<close> is the clock by the number of requests made before.\<close>

definition with_provider_token ::
  "(seconds \<Rightarrow> string option) \<Rightarrow> (nat \<Rightarrow> seconds) \<Rightarrow> (string \<Rightarrow> seconds \<Rightarrow> apns_state \<Rightarrow> apns_state \<times> send_answer)
     \<Rightarrow> apns_state \<Rightarrow> apns_state \<times> send_answer" where
  "with_provider_token sign clk use w =
     (let now = clk (length (as_requests w))
      in case provider_token_get sign now (as_token w) of (t, v) \<Rightarrow>
           (let w1 = w\<lparr>as_token := t\<rparr> in case v of None \<Rightarrow> (w1, SendThrew) | Some token \<Rightarrow> use token now w1))"

definition apns_send ::
  "apns_settings \<Rightarrow> (seconds \<Rightarrow> string option) \<Rightarrow> (nat \<Rightarrow> seconds) \<Rightarrow> apns_host \<Rightarrow> apns_state alarm_sender" where
  "apns_send cfg sign clk host d ev =
     with_provider_token sign clk (\<lambda>token now.
       apns_push host (start_environment cfg (pd_apns_environment d))
         ((if pd_platform d = Macos \<and> is_state_kind (e_kind ev) then background_request else alert_request) cfg token now d ev))"

definition apns_send_live ::
  "apns_settings \<Rightarrow> (seconds \<Rightarrow> string option) \<Rightarrow> (nat \<Rightarrow> seconds) \<Rightarrow> apns_host \<Rightarrow> apns_state live_sender" where
  "apns_send_live cfg sign clk host p =
     with_provider_token sign clk (\<lambda>token now.
       apns_push host (start_environment cfg (lp_apns_environment p)) (live_request cfg token now p))"


section \<open>Google\<close>

text \<open>\<open>src/src/push/fcm.ts\<close>. \<open>ft_token k\<close> is the answer of the token URL to the \<open>k\<close>th request for an access token
  (its JSON body, \<^term>\<open>None\<close> when there is none to read) and \<open>ft_post k\<close> the status of the \<open>k\<close>th message, both
  \<^term>\<open>None\<close> when \<open>fetch\<close> throws.\<close>

record fcm_state =
  fs_token :: "(string \<times> seconds) option"
  fs_token_requests :: nat
  fs_posts :: "(string \<times> json) list"

record fcm_provider =
  ft_sign :: "seconds \<Rightarrow> string option"
  ft_token :: "nat \<Rightarrow> (int \<times> json option) option"
  ft_post :: "nat \<Rightarrow> string \<times> json \<Rightarrow> int option"

definition fcm_payload :: "push_device \<Rightarrow> delivery_event \<Rightarrow> json" where
  "fcm_payload d ev =
     (let state = is_state_kind (e_kind ev)
      in JObj [(''message'', JObj
           [(''token'', JText (pd_push_token d)),
            (''android'', JObj [(''priority'', JText ''high''), (''collapse_key'', JText (collapse_id ev)),
               (''ttl'', JText (if state then ''60s'' else int_text (e_max_ring_s ev) @ ''s''))]),
            (''data'', JObj (optional_field ''incident_id'' (map_option JText (e_incident_id ev)) @
               [(''server'', JText (e_server ev)), (''kind'', JText (kind_text (e_kind ev)))] @
               (if state then [] else [(''priority'', JText (int_text (e_priority ev)))]) @
               optional_field ''ring_until'' (map_option (\<lambda>t. JText (int_text t)) (e_ring_until ev)) @
               (if \<not> state \<and> e_relay_content ev = Some ContentFull
                then [(''title'', JText (e_title ev)), (''body'', JText (e_body ev))] else [])))])])"

text \<open>The seconds a token lives, rounded up: the code compares \<open>now < expiresAt - 60\<close> with a whole \<open>now\<close>.\<close>

fun seconds_up :: "json \<Rightarrow> seconds option" where
  "seconds_up (JInt n) = Some n"
| "seconds_up (JReal f x) = Some (f + 1)"
| "seconds_up _ = None"

definition fcm_token_response :: "json option \<Rightarrow> (string \<times> seconds) option" where
  "fcm_token_response body =
     (case body of None \<Rightarrow> None
      | Some v \<Rightarrow> (case (text_field ''access_token'' v, Option.bind (json_field ''expires_in'' v) seconds_up) of
                    (Some t, Some n) \<Rightarrow> Some (t, n) | _ \<Rightarrow> None))"

fun status_of_number :: "json \<Rightarrow> int option" where
  "status_of_number (JInt n) = Some n"
| "status_of_number (JReal f x) = Some f"
| "status_of_number _ = None"

definition fcm_error_code :: "json option \<Rightarrow> int \<Rightarrow> int" where
  "fcm_error_code body status =
     (case Option.bind body (json_field ''error'') of None \<Rightarrow> status
      | Some e \<Rightarrow>
          if is_record e
             \<and> (case json_field ''code'' e of None \<Rightarrow> True | Some v \<Rightarrow> is_number v)
             \<and> (case json_field ''status'' e of None \<Rightarrow> True | Some v \<Rightarrow> text_of v \<noteq> None)
             \<and> (case json_field ''message'' e of None \<Rightarrow> True | Some v \<Rightarrow> text_of v \<noteq> None)
          then (case Option.bind (json_field ''code'' e) status_of_number of None \<Rightarrow> status | Some c \<Rightarrow> c)
          else status)"

text \<open>\<open>accessToken\<close>: a token, a status to answer with, or a throw.\<close>

datatype fcm_token = FcmToken string | FcmStatus int | FcmThrew

definition fcm_fresh_token :: "fcm_provider \<Rightarrow> seconds \<Rightarrow> fcm_state \<Rightarrow> fcm_state \<times> fcm_token" where
  "fcm_fresh_token pv now w =
     (case ft_sign pv now of
        None \<Rightarrow> (w, FcmThrew)
      | Some assertion \<Rightarrow>
          (let w1 = w\<lparr>fs_token_requests := Suc (fs_token_requests w)\<rparr>
           in case ft_token pv (fs_token_requests w) of
                None \<Rightarrow> (w1, FcmThrew)
              | Some (status, body) \<Rightarrow>
                  if \<not> accepted_status status then (w1, FcmStatus (fcm_error_code body status))
                  else (case fcm_token_response body of
                          None \<Rightarrow> (w1, FcmStatus status)
                        | Some (token, lives) \<Rightarrow> (w1\<lparr>fs_token := Some (token, now + lives)\<rparr>, FcmToken token))))"

definition fcm_access_token :: "fcm_provider \<Rightarrow> seconds \<Rightarrow> fcm_state \<Rightarrow> fcm_state \<times> fcm_token" where
  "fcm_access_token pv now w =
     (case fs_token w of
        Some (v, expires) \<Rightarrow> if now < expires - 60 then (w, FcmToken v) else fcm_fresh_token pv now w
      | None \<Rightarrow> fcm_fresh_token pv now w)"

definition fcm_send :: "fcm_provider \<Rightarrow> (nat \<Rightarrow> seconds) \<Rightarrow> fcm_state alarm_sender" where
  "fcm_send pv clk d ev w =
     (case fcm_access_token pv (clk (fs_token_requests w + length (fs_posts w))) w of
        (w1, FcmThrew) \<Rightarrow> (w1, SendThrew)
      | (w1, FcmStatus n) \<Rightarrow> (w1, SendAnswered \<lparr>pr_status = n, pr_stale = False, pr_apns_environment = None\<rparr>)
      | (w1, FcmToken token) \<Rightarrow>
          (let post = (token, fcm_payload d ev)
           in (w1\<lparr>fs_posts := fs_posts w1 @ [post]\<rparr>,
               (case ft_post pv (length (fs_posts w1)) post of
                  None \<Rightarrow> SendThrew
                | Some n \<Rightarrow> SendAnswered \<lparr>pr_status = n, pr_stale = False, pr_apns_environment = None\<rparr>))))"

text \<open>The sender of a platform with no provider configured (\<open>src/src/main.ts\<close>).\<close>

definition noop_send :: "'w alarm_sender" where
  "noop_send d ev w = (w, SendAnswered \<lparr>pr_status = 501, pr_stale = False, pr_apns_environment = None\<rparr>)"

section \<open>What leaves the server\<close>

subsection \<open>Content that stays\<close>

definition retitled :: "string \<Rightarrow> string \<Rightarrow> delivery_event \<Rightarrow> delivery_event" where
  "retitled title body ev = ev\<lparr>e_title := title, e_body := body\<rparr>"

lemma retitled_simps [simp]:
  "e_kind (retitled t b ev) = e_kind ev" "e_incident_id (retitled t b ev) = e_incident_id ev"
  "e_relay_content (retitled t b ev) = e_relay_content ev" "e_topic (retitled t b ev) = e_topic ev"
  "e_server (retitled t b ev) = e_server ev" "e_ring_until (retitled t b ev) = e_ring_until ev"
  "e_priority (retitled t b ev) = e_priority ev" "e_critical (retitled t b ev) = e_critical ev"
  "e_message_id (retitled t b ev) = e_message_id ev" "e_max_ring_s (retitled t b ev) = e_max_ring_s ev"
  "e_topic_hash (retitled t b ev) = e_topic_hash ev" "e_account_id (retitled t b ev) = e_account_id ev"
  by (simp_all add: retitled_def)

lemma collapse_id_retitled [simp]: "collapse_id (retitled t b ev) = collapse_id ev"
  by (simp add: collapse_id_def split: option.split)

lemma background_request_retitled [simp]:
  "background_request cfg token now d (retitled t b ev) = background_request cfg token now d ev"
  by (simp add: background_request_def background_payload_def)

lemma alert_request_retitled:
  "e_relay_content ev \<noteq> Some ContentFull \<Longrightarrow> alert_request cfg token now d (retitled t b ev) = alert_request cfg token now d ev"
  by (simp add: alert_request_def apns_payload_def apns_alert_def is_critical_push_def)

lemma fcm_payload_retitled:
  "e_relay_content ev \<noteq> Some ContentFull \<or> is_state_kind (e_kind ev) \<Longrightarrow> fcm_payload d (retitled t b ev) = fcm_payload d ev"
  by (auto simp: fcm_payload_def Let_def)

lemma fcm_send_same_payload: "fcm_payload d ev = fcm_payload d ev' \<Longrightarrow> fcm_send pv clk d ev = fcm_send pv clk d ev'"
  by (intro ext) (auto simp: fcm_send_def Let_def split: prod.split fcm_token.split)

text \<open>C19: The title and the body of a message do not leave the server unless the topic's relay content is full: with
  anything else the senders make the very same requests, to Apple, to Google and for Live Activities, whatever the
  two texts are, so nothing about them can be read off the wire.  A state push to a Mac or to Android carries
  neither text even where the content is full.\<close>

theorem withheld_content_stays:
  assumes "e_relay_content ev \<noteq> Some ContentFull \<or> is_state_kind (e_kind ev)"
  shows "fcm_send pv clk d (retitled t b ev) = fcm_send pv clk d ev \<and>
    (e_relay_content ev \<noteq> Some ContentFull \<or> pd_platform d = Macos \<longrightarrow>
       apns_send cfg sign clk host d (retitled t b ev) = apns_send cfg sign clk host d ev) \<and>
    (e_relay_content ev \<noteq> Some ContentFull \<longrightarrow>
       live_push_for s now action (retitled t b ev) inc target = live_push_for s now action ev inc target)"
proof (intro conjI impI)
  show "fcm_send pv clk d (retitled t b ev) = fcm_send pv clk d ev"
    by (rule fcm_send_same_payload[OF fcm_payload_retitled[OF assms]])
next
  assume "e_relay_content ev \<noteq> Some ContentFull \<or> pd_platform d = Macos"
  then show "apns_send cfg sign clk host d (retitled t b ev) = apns_send cfg sign clk host d ev"
    using assms alert_request_retitled by (auto simp: apns_send_def)
next
  assume "e_relay_content ev \<noteq> Some ContentFull"
  then show "live_push_for s now action (retitled t b ev) inc target = live_push_for s now action ev inc target"
    by (simp add: live_push_for_def live_title_def split: option.split)
qed


subsection \<open>State kinds\<close>

lemma alarm_targets_state:
  "d \<in> set (alarm_targets s ev) \<Longrightarrow> is_state_kind (e_kind ev) \<Longrightarrow> pd_platform d = Android \<or> pd_platform d = Macos"
  by (auto simp: alarm_targets_def alarm_devices_def split: option.splits)

lemma asked_are_targets: "(d, ev) \<in> set (alarms_asked (dp_calls (dispatched env w s evs))) \<Longrightarrow> \<exists>s'. d \<in> set (alarm_targets s' ev)"
proof -
  assume asked: "(d, ev) \<in> set (alarms_asked (dp_calls (dispatched env w s evs)))"
  let ?st0 = "\<lparr>dp_db = s, dp_senders = w, dp_calls = [], dp_delivered = 0, dp_failed = 0\<rparr>"
  obtain ds where "all_targets ds" "adds_calls ds ?st0 (dispatch_events env evs ?st0)"
    using dispatch_events_add by blast
  with asked show ?thesis
    by (auto simp: adds_calls_def dispatched_def dispatch_def Let_def all_targets_def)
qed

text \<open>A call of the transport with one retry: the requests it makes and the answer that counts.\<close>

lemma send_with_retry_shape:
  assumes "send_with_retry host e rq w = (w1, a)"
  shows "as_token w1 = as_token w \<and>
    (as_requests w1 = as_requests w @ [(e, rq)] \<and> a = host (length (as_requests w)) e rq \<and> a \<noteq> TransportFailed \<or>
     as_requests w1 = as_requests w @ [(e, rq), (e, rq)] \<and> host (length (as_requests w)) e rq = TransportFailed \<and>
     a = host (Suc (length (as_requests w))) e rq)"
  using assms by (auto simp: send_with_retry_def transport_send_def split: if_splits)

lemma apns_push_same_request:
  assumes "apns_push host e rq w = (w', a)"
  shows "\<exists>es. as_requests w' = as_requests w @ map (\<lambda>x. (x, rq)) es"
proof -
  obtain w1 first where one: "send_with_retry host e rq w = (w1, first)" by fastforce
  obtain w2 second where two: "send_with_retry host (other_environment e) rq w1 = (w2, second)" by fastforce
  have split: "xs @ [(e, rq)] = xs @ map (\<lambda>x. (x, rq)) [e]" "xs @ [(e, rq), (e, rq)] = xs @ map (\<lambda>x. (x, rq)) [e, e]"
    for xs :: "(apns_environment \<times> apns_request) list" and e by simp_all
  have "\<exists>es. as_requests w1 = as_requests w @ map (\<lambda>x. (x, rq)) es"
    using send_with_retry_shape[OF one] split by metis
  moreover have "\<exists>es. as_requests w2 = as_requests w1 @ map (\<lambda>x. (x, rq)) es"
    using send_with_retry_shape[OF two] split by metis
  ultimately have "\<exists>es. as_requests w2 = as_requests w @ map (\<lambda>x. (x, rq)) es"
    by (metis append.assoc map_append)
  then show ?thesis
    using assms \<open>\<exists>es. as_requests w1 = as_requests w @ map (\<lambda>x. (x, rq)) es\<close>
    by (auto simp: apns_push_def one two split: if_splits)
qed

definition silent_request :: "apns_request \<Rightarrow> bool" where
  "silent_request rq \<longleftrightarrow>
     map_of (aq_headers rq) ''apns-push-type'' = Some ''background'' \<and>
     map_of (aq_headers rq) ''apns-priority'' = Some ''5'' \<and>
     json_field ''aps'' (aq_body rq) = Some (JObj [(''content-available'', JInt 1)])"

definition fcm_data :: "json \<Rightarrow> json option" where
  "fcm_data v = Option.bind (json_field ''message'' v) (json_field ''data'')"

definition silent_message :: "json \<Rightarrow> bool" where
  "silent_message v \<longleftrightarrow>
     (case fcm_data v of None \<Rightarrow> False
      | Some data \<Rightarrow> json_field ''priority'' data = None \<and> json_field ''title'' data = None \<and> json_field ''body'' data = None)"

lemma background_request_silent: "silent_request (background_request cfg token now d ev)"
  by (simp add: silent_request_def background_request_def background_payload_def)

lemma map_of_optional_field: "map_of (optional_field k v) k' = (if k' = k then v else None)"
  by (auto simp: optional_field_def split: option.split)

lemma state_message_silent: "is_state_kind (e_kind ev) \<Longrightarrow> silent_message (fcm_payload d ev)"
  by (auto simp: silent_message_def fcm_data_def fcm_payload_def Let_def map_add_def map_of_optional_field split: option.split)

text \<open>C20: An acknowledgement, a close or an expiry never rings.  Whatever batch it is dispatched in, no alarm push for it goes
  to an iPhone; every request it causes for a Mac is a background push of priority 5 whose \<open>aps\<close> holds
  \<open>content-available\<close> and nothing else; and the message for Android has no priority, title or body to ring with.\<close>

theorem state_pushes_are_silent:
  assumes "is_state_kind (e_kind ev)" "(d, ev) \<in> set (alarms_asked (dp_calls (dispatched env w s evs)))"
  shows "(pd_platform d = Macos \<and>
          (\<exists>rqs. as_requests (fst (apns_send cfg sign clk host d ev a)) = as_requests a @ rqs \<and>
                 list_all (\<lambda>(e, rq). silent_request rq) rqs)) \<or>
         (pd_platform d = Android \<and> silent_message (fcm_payload d ev))"
proof -
  obtain s' where "d \<in> set (alarm_targets s' ev)" using asked_are_targets[OF assms(2)] by blast
  from alarm_targets_state[OF this assms(1)] consider "pd_platform d = Macos" | "pd_platform d = Android" by blast
  then show ?thesis
  proof cases
    case 1
    let ?now = "clk (length (as_requests a))"
    obtain t v where tok: "provider_token_get sign ?now (as_token a) = (t, v)" by fastforce
    show ?thesis
    proof (cases v)
      case None
      then show ?thesis using 1 tok by (simp add: apns_send_def with_provider_token_def Let_def)
    next
      case (Some token)
      let ?rq = "background_request cfg token ?now d ev"
      obtain w' b where push: "apns_push host (start_environment cfg (pd_apns_environment d)) ?rq (a\<lparr>as_token := t\<rparr>) = (w', b)"
        by fastforce
      then have "apns_send cfg sign clk host d ev a = (w', b)"
        using 1 assms(1) tok Some by (simp add: apns_send_def with_provider_token_def Let_def)
      moreover obtain es where "as_requests w' = as_requests a @ map (\<lambda>x. (x, ?rq)) es"
        using apns_push_same_request[OF push] by auto
      ultimately show ?thesis using 1 background_request_silent by (auto simp: list_all_iff)
    qed
  next
    case 2
    then show ?thesis using state_message_silent[OF assms(1)] by blast
  qed
qed


subsection \<open>Two hosts and one retry\<close>

fun transport_accepted :: "transport_answer \<Rightarrow> bool" where
  "transport_accepted (TransportReply status body parsed) \<longleftrightarrow> accepted_status status"
| "transport_accepted TransportFailed \<longleftrightarrow> False"

text \<open>No request but the last of a series was accepted; \<open>n\<close> is the number of the first.\<close>

fun refused_until_last :: "apns_host \<Rightarrow> nat \<Rightarrow> apns_request \<Rightarrow> apns_environment list \<Rightarrow> bool" where
  "refused_until_last host n rq (e # e' # es) \<longleftrightarrow>
     \<not> transport_accepted (host n e rq) \<and> refused_until_last host (Suc n) rq (e' # es)"
| "refused_until_last host n rq _ \<longleftrightarrow> True"

lemma wrong_environment_refused: "wrong_environment a \<Longrightarrow> \<not> transport_accepted a"
  by (cases a) (auto simp: accepted_status_def)

text \<open>Why a request was followed by another: the same host is asked again only after the transport threw, the other host only after
  the answer that the token is not one of this host.\<close>

fun followed_up :: "apns_host \<Rightarrow> nat \<Rightarrow> apns_request \<Rightarrow> apns_environment list \<Rightarrow> bool" where
  "followed_up host n rq (e # e' # es) \<longleftrightarrow>
     (if e' = e then host n e rq = TransportFailed else wrong_environment (host n e rq)) \<and> followed_up host (Suc n) rq (e' # es)"
| "followed_up host n rq _ \<longleftrightarrow> True"

text \<open>C21: An APNs push makes one to four requests, all of them the same one: to the host the device is known on, once more
  exactly if the transport threw, and to the other host (with its own retry) exactly if the first said the token is not
  one of its own.  Any other answer, a rejection above all, is the last one.  So a request is followed by another only if
  Apple did not accept it, and the result is the last answer under the name of the host that gave it.\<close>

theorem apns_push_contract:
  assumes push: "apns_push host e rq w = (w', a)"
  shows "\<exists>es. as_requests w' = as_requests w @ map (\<lambda>x. (x, rq)) es \<and>
    es \<in> {[e], [e, e], [e, other_environment e], [e, e, other_environment e], [e, other_environment e, other_environment e],
          [e, e, other_environment e, other_environment e]} \<and>
    a = apns_result (last es) (host (length (as_requests w) + length es - 1) (last es) rq) \<and>
    refused_until_last host (length (as_requests w)) rq es \<and> followed_up host (length (as_requests w)) rq es \<and>
    (host (length (as_requests w) + length es - 1) (last es) rq = TransportFailed \<longrightarrow> 2 \<le> length es \<and> es ! (length es - 2) = last es) \<and>
    (wrong_environment (host (length (as_requests w) + length es - 1) (last es) rq) \<longrightarrow> last es = other_environment e) \<and>
    (other_environment e \<in> set es \<longrightarrow> wrong_environment (host (length (as_requests w)) e rq) \<or>
       wrong_environment (host (Suc (length (as_requests w))) e rq))"
proof -
  let ?n = "length (as_requests w)" and ?o = "other_environment e"
  have o: "?o \<noteq> e" by (cases e) (auto simp: other_environment_def)
  obtain w1 first where one: "send_with_retry host e rq w = (w1, first)" by fastforce
  obtain w2 second where two: "send_with_retry host ?o rq w1 = (w2, second)" by fastforce
  have numbers: "?n + 2 - 1 = Suc ?n" "?n + 3 - 1 = Suc (Suc ?n)" "?n + 4 - 1 = Suc (Suc (Suc ?n))" by simp_all
  note shape1 = send_with_retry_shape[OF one] and shape2 = send_with_retry_shape[OF two]
  show ?thesis
  proof (cases "wrong_environment first")
    case False
    then have "w' = w1" "a = apns_result e first" using push by (auto simp: apns_push_def one)
    note res = this
    show ?thesis using conjunct2[OF shape1]
    proof (elim disjE conjE)
      assume "as_requests w1 = as_requests w @ [(e, rq)]" "first = host ?n e rq" "first \<noteq> TransportFailed"
      then show ?thesis using res False o by (intro exI[of _ "[e]"]) simp
    next
      assume "as_requests w1 = as_requests w @ [(e, rq), (e, rq)]" "host ?n e rq = TransportFailed" "first = host (Suc ?n) e rq"
      then show ?thesis using res False o by (intro exI[of _ "[e, e]"]) simp
    qed
  next
    case True
    then have res: "w' = w2" "a = apns_result ?o second" using push by (auto simp: apns_push_def one two)
    note refused = True wrong_environment_refused[OF True]
    show ?thesis using conjunct2[OF shape1] conjunct2[OF shape2]
    proof (elim disjE conjE)
      assume "as_requests w1 = as_requests w @ [(e, rq)]" "first = host ?n e rq"
        "as_requests w2 = as_requests w1 @ [(?o, rq)]" "second = host (length (as_requests w1)) ?o rq" "second \<noteq> TransportFailed"
      then show ?thesis using res refused o by (intro exI[of _ "[e, ?o]"]) simp
    next
      assume "as_requests w1 = as_requests w @ [(e, rq), (e, rq)]" "host ?n e rq = TransportFailed" "first = host (Suc ?n) e rq"
        "as_requests w2 = as_requests w1 @ [(?o, rq)]" "second = host (length (as_requests w1)) ?o rq" "second \<noteq> TransportFailed"
      then show ?thesis using res refused o by (intro exI[of _ "[e, e, ?o]"]) simp
    next
      assume "as_requests w1 = as_requests w @ [(e, rq)]" "first = host ?n e rq" "as_requests w2 = as_requests w1 @ [(?o, rq), (?o, rq)]"
        "host (length (as_requests w1)) ?o rq = TransportFailed" "second = host (Suc (length (as_requests w1))) ?o rq"
      then show ?thesis using res refused o by (intro exI[of _ "[e, ?o, ?o]"]) simp
    next
      assume "as_requests w1 = as_requests w @ [(e, rq), (e, rq)]" "host ?n e rq = TransportFailed" "first = host (Suc ?n) e rq"
        "as_requests w2 = as_requests w1 @ [(?o, rq), (?o, rq)]" "host (length (as_requests w1)) ?o rq = TransportFailed"
        "second = host (Suc (length (as_requests w1))) ?o rq"
      then show ?thesis using res refused o by (intro exI[of _ "[e, e, ?o, ?o]"]) simp
    qed
  qed
qed


subsection \<open>The provider token over time\<close>

definition fresh_provider_token :: provider_token where
  "fresh_provider_token = \<lparr>pt_cached = None, pt_minted = 0\<rparr>"

definition token_run :: "(seconds \<Rightarrow> string option) \<Rightarrow> seconds list \<Rightarrow> provider_token" where
  "token_run sign ts = foldl (\<lambda>t now. fst (provider_token_get sign now t)) fresh_provider_token ts"

text \<open>What holds between two requests for the token: it was signed at one of the times asked, and every
  signature but the first came at least 50 minutes after the one before it.\<close>

definition token_ok :: "(seconds \<Rightarrow> string option) \<Rightarrow> seconds list \<Rightarrow> provider_token \<Rightarrow> bool" where
  "token_ok sign ts t \<longleftrightarrow>
     (case pt_cached t of None \<Rightarrow> pt_minted t = 0
      | Some (v, i) \<Rightarrow> i \<in> set ts \<and> sign i = Some v \<and> 0 < pt_minted t \<and> hd ts + 3000 * int (pt_minted t - 1) \<le> i)"

lemma sorted_hd_le: "sorted (xs :: int list) \<Longrightarrow> x \<in> set xs \<Longrightarrow> hd xs \<le> x"
  by (cases xs) auto

lemma token_get_ok:
  assumes "token_ok sign ts t" "sorted (ts @ [now])"
  shows "token_ok sign (ts @ [now]) (fst (provider_token_get sign now t)) \<and>
    (case snd (provider_token_get sign now t) of None \<Rightarrow> sign now = None
     | Some v \<Rightarrow> \<exists>i \<in> set (ts @ [now]). sign i = Some v \<and> i \<le> now \<and> now - i < 3000)"
proof -
  have first: "hd (ts @ [now]) \<le> now" using sorted_hd_le[OF assms(2), of now] by simp
  have before: "x \<in> set ts \<Longrightarrow> x \<le> now" for x using assms(2) by (simp add: sorted_append)
  have same: "x \<in> set ts \<Longrightarrow> hd (ts @ [now]) = hd ts" for x by (cases ts) auto
  show ?thesis
  proof (cases "pt_cached t")
    case None
    then show ?thesis using assms(1) first
      by (auto simp: token_ok_def provider_token_get_def split: option.split)
  next
    case (Some c)
    then obtain v i where c: "pt_cached t = Some (v, i)" by (cases c) auto
    then have ok: "i \<in> set ts" "sign i = Some v" "0 < pt_minted t" "hd ts + 3000 * int (pt_minted t - 1) \<le> i"
      using assms(1) by (auto simp: token_ok_def)
    then have more: "\<not> now - i < 3000 \<Longrightarrow> hd ts + 3000 * int (pt_minted t) \<le> now" by (simp add: of_nat_diff)
    show ?thesis using ok before[OF ok(1)] same[OF ok(1)] more c
      by (auto simp: token_ok_def provider_token_get_def split: option.split)
  qed
qed

lemma token_run_ok: "sorted ts \<Longrightarrow> token_ok sign ts (token_run sign ts)"
proof (induction ts rule: rev_induct)
  case Nil
  then show ?case by (simp add: token_run_def token_ok_def fresh_provider_token_def)
next
  case (snoc now ts)
  then have "token_ok sign ts (token_run sign ts)" by (simp add: sorted_append)
  from token_get_ok[OF this snoc.prems] show ?case by (simp add: token_run_def)
qed

text \<open>Whatever senders share the signing key and however often they ask, as long as time does not run backwards: every
  token handed out was signed less than 50 minutes before (so Apple, which refuses one older than an hour, never
  sees an old one), and in any stretch of time at most one token more is signed than it has whole 50 minutes.\<close>

theorem provider_token_is_fresh:
  assumes "sorted (ts @ [now])"
  shows "(case snd (provider_token_get sign now (token_run sign ts)) of
            None \<Rightarrow> sign now = None
          | Some v \<Rightarrow> \<exists>i \<in> set (ts @ [now]). sign i = Some v \<and> i \<le> now \<and> now - i < 3000) \<and>
    int (pt_minted (token_run sign (ts @ [now]))) \<le> 1 + (now - hd (ts @ [now])) div 3000"
proof -
  have "token_ok sign ts (token_run sign ts)" using assms by (simp add: token_run_ok sorted_append)
  from token_get_ok[OF this assms] have one: "case snd (provider_token_get sign now (token_run sign ts)) of
      None \<Rightarrow> sign now = None | Some v \<Rightarrow> \<exists>i \<in> set (ts @ [now]). sign i = Some v \<and> i \<le> now \<and> now - i < 3000" by simp
  let ?t = "token_run sign (ts @ [now])"
  have "int (pt_minted ?t) \<le> 1 + (now - hd (ts @ [now])) div 3000"
  proof (cases "pt_cached ?t")
    case None
    then show ?thesis using token_run_ok[OF assms, of sign] sorted_hd_le[OF assms, of now] by (simp add: token_ok_def)
  next
    case (Some c)
    then obtain v i where c: "pt_cached ?t = Some (v, i)" by (cases c) auto
    then have "i \<in> set (ts @ [now])" "0 < pt_minted ?t" "hd (ts @ [now]) + 3000 * int (pt_minted ?t - 1) \<le> i"
      using token_run_ok[OF assms, of sign] by (auto simp: token_ok_def)
    moreover from this have "i \<le> now" using assms by (auto simp: sorted_append)
    ultimately have "int (pt_minted ?t - 1) * 3000 \<le> now - hd (ts @ [now])" by linarith
    then have "int (pt_minted ?t - 1) \<le> (now - hd (ts @ [now])) div 3000" by linarith
    then show ?thesis using \<open>0 < pt_minted ?t\<close> by linarith
  qed
  with one show ?thesis by simp
qed

subsection \<open>A token answer nobody can read\<close>

text \<open>A token URL that answers 2xx with a body that is not a token: \<open>accessToken\<close> passes the status on, \<open>send\<close>
  returns it as the status of a push, and the dispatcher counts a delivery, although no message was sent.\<close>

theorem unreadable_token_counts_as_delivered:
  assumes "fs_token w = None" "ft_sign pv (clk (fs_token_requests w + length (fs_posts w))) = Some jwt"
    and "ft_token pv (fs_token_requests w) = Some (status, body)" "accepted_status status" "fcm_token_response body = None"
    and "pd_platform d = Android" "fcm_send pv clk d ev w = (w', a)"
  shows "fs_posts w' = fs_posts w \<and> dp_delivered (settle_alarm d a st) = Suc (dp_delivered st)"
  using assms
  by (auto simp: fcm_send_def fcm_access_token_def fcm_fresh_token_def Let_def settle_alarm_def)


section \<open>The weekly check\<close>

text \<open>What the check senders of \<open>src/src/push/check.ts\<close> put on the wire; when they do is \<^const>\<open>send_apns_check\<close> and \<^const>\<open>send_fcm_check\<close>.\<close>

definition apns_check_headers :: "string \<Rightarrow> (string \<times> string) list" where
  "apns_check_headers bundle =
     [(''apns-topic'', bundle), (''apns-push-type'', ''background''), (''apns-priority'', ''5''), (''apns-expiration'', ''0'')]"

definition apns_check_payload :: "planned_check \<Rightarrow> json" where
  "apns_check_payload p =
     JObj [(''aps'', JObj [(''content-available'', JInt 1)]), (''kind'', JText ''check''),
           (''check_id'', JText (pl_check_id p)), (''attempt'', JInt (int (pl_attempt p)))]"

definition apns_check_request :: "string \<Rightarrow> string \<Rightarrow> planned_check \<Rightarrow> apns_request" where
  "apns_check_request bundle token p =
     \<lparr>aq_path = device_path (pl_push_token p),
      aq_headers = [(''authorization'', ''bearer '' @ token)] @ apns_check_headers bundle @ [(''content-type'', ''application/json'')],
      aq_body = apns_check_payload p\<rparr>"

definition fcm_check_message :: "planned_check \<Rightarrow> json" where
  "fcm_check_message p =
     JObj [(''message'', JObj
       [(''token'', JText (pl_push_token p)), (''android'', JObj [(''priority'', JText ''normal''), (''ttl'', JText ''21600s'')]),
        (''data'', JObj [(''kind'', JText ''check''), (''check_id'', JText (pl_check_id p)),
                         (''attempt'', JText (nat_text (pl_attempt p)))])])]"

lemma check_pushes_are_silent: "silent_request (apns_check_request bundle token p)" "silent_message (fcm_check_message p)"
  by (simp_all add: silent_request_def apns_check_request_def apns_check_headers_def apns_check_payload_def silent_message_def
      fcm_data_def fcm_check_message_def)

section \<open>Witnesses\<close>

definition sample_event :: "event_kind \<Rightarrow> delivery_event" where
  "sample_event k =
     \<lparr>e_kind = k, e_topic_hash = ''h'', e_topic = ''t'', e_incident_id = Some ''i'', e_message_id = ''m'', e_priority = 5,
      e_max_ring_s = 1800, e_ring_until = None, e_server = ''s'', e_title = ''secret'', e_body = ''text'', e_critical = True,
      e_relay_content = None, e_account_id = Some ''acc''\<rparr>"

definition sample_push_db :: db where
  "sample_push_db = empty_db
     \<lparr>devices := [\<lparr>d_id = ''dev'', d_account_id = ''acc'', d_token_hash = ''x'', d_platform = Android, d_push_token = ''tok'',
                    d_last_seen = 0, d_app_version = None, d_apns_environment = None, d_last_alarm_push_at = None\<rparr>],
      subscriptions := [\<lparr>s_device_id = ''dev'', s_topic_hash = ''h''\<rparr>]\<rparr>"

definition sample_push_env :: "unit push_env" where
  "sample_push_env = \<lparr>pe_apns = noop_send, pe_fcm = noop_send, pe_live = None, pe_now = (\<lambda>_. 0), pe_meanwhile = (\<lambda>_ s. s)\<rparr>"

definition sample_push_device :: push_device where
  "sample_push_device = \<lparr>pd_id = ''dev'', pd_account_id = ''acc'', pd_platform = Android, pd_push_token = ''tok'', pd_apns_environment = None\<rparr>"

lemmas sample_push_defs = sample_event_def sample_push_db_def sample_push_env_def sample_push_device_def noop_send_def empty_db_def

lemma sample_asked: "(sample_push_device, sample_event EvAck) \<in> set (alarms_asked (dp_calls (dispatched sample_push_env () sample_push_db [sample_event EvAck])))"
  by (simp add: dispatched_def dispatch_def dispatch_events_def dispatch_event_def owning_account_def send_to_devices_def
      alarm_devices_def subscribed_devices_def subscribed_to_def alarm_push_token_def alarm_token_row_def push_device_of_def
      send_alarm_def sender_for_def settle_alarm_def update_live_activities_def sample_push_defs Let_def remember_apns_environment_def
      uses_apns_def alarm_token_kind_def is_state_kind_def)

definition sample_fcm :: fcm_provider where
  "sample_fcm = \<lparr>ft_sign = (\<lambda>_. Some ''jwt''), ft_token = (\<lambda>_. Some (200, Some (JObj []))), ft_post = (\<lambda>_ _. Some 200)\<rparr>"

definition sample_fcm_state :: fcm_state where
  "sample_fcm_state = \<lparr>fs_token = None, fs_token_requests = 0, fs_posts = []\<rparr>"

theorem withheld_content_stays_witness:
  "fcm_send sample_fcm (\<lambda>_. 0) sample_push_device (retitled ''a'' ''b'' (sample_event EvOpen)) =
   fcm_send sample_fcm (\<lambda>_. 0) sample_push_device (sample_event EvOpen)"
  using withheld_content_stays[of "sample_event EvOpen"] by (simp add: sample_event_def)

theorem state_pushes_are_silent_witness:
  "pd_platform sample_push_device = Android \<and> silent_message (fcm_payload sample_push_device (sample_event EvAck))"
  using state_pushes_are_silent[OF _ sample_asked, of "\<lparr>ap_bundle_id = [], ap_environment = Sandbox\<rparr>" "\<lambda>_. None" "\<lambda>_. 0"
      "\<lambda>_ _ _. TransportFailed" "\<lparr>as_token = fresh_provider_token, as_requests = []\<rparr>"]
  by (simp add: sample_event_def sample_push_device_def is_state_kind_def)

definition sample_host :: apns_host where
  "sample_host k e rq =
     (if e = Sandbox then TransportReply 400 ''{}'' (Some (JObj [(''reason'', JText ''BadDeviceToken'')])) else TransportReply 200 [] None)"

definition sample_request :: apns_request where
  "sample_request = \<lparr>aq_path = ''/3/device/t'', aq_headers = [], aq_body = JNull\<rparr>"

definition sample_apns_state :: apns_state where
  "sample_apns_state = \<lparr>as_token = fresh_provider_token, as_requests = []\<rparr>"

lemmas sample_apns_defs = sample_host_def sample_request_def sample_apns_state_def

lemma sample_apns_push:
  "apns_push sample_host Sandbox sample_request sample_apns_state =
     (sample_apns_state\<lparr>as_requests := [(Sandbox, sample_request), (Production, sample_request)]\<rparr>,
      SendAnswered \<lparr>pr_status = 200, pr_stale = False, pr_apns_environment = Some Production\<rparr>)"
  by (simp add: apns_push_def send_with_retry_def transport_send_def sample_apns_defs rejection_reason_def other_environment_def)

theorem apns_push_contract_witness:
  "\<exists>es. as_requests (sample_apns_state\<lparr>as_requests := [(Sandbox, sample_request), (Production, sample_request)]\<rparr>) =
     as_requests sample_apns_state @ map (\<lambda>x. (x, sample_request)) es \<and> transport_accepted (sample_host (length es - 1) (last es) sample_request)"
  using apns_push_contract[OF sample_apns_push]
  by (elim exE conjE) (rule exI[of _ "[Sandbox, Production]"], simp add: sample_apns_defs accepted_status_def)

theorem provider_token_is_fresh_witness:
  "int (pt_minted (token_run (\<lambda>t. Some (int_text t)) ([0, 100] @ [4000]))) \<le> 2"
  using provider_token_is_fresh[of "[0, 100]" 4000 "\<lambda>t. Some (int_text t)"] by simp

theorem unreadable_token_counts_as_delivered_witness:
  "dp_delivered (settle_alarm sample_push_device (SendAnswered \<lparr>pr_status = 200, pr_stale = False, pr_apns_environment = None\<rparr>)
     \<lparr>dp_db = empty_db, dp_senders = (), dp_calls = [], dp_delivered = 0, dp_failed = 0\<rparr>) = 1"
  using unreadable_token_counts_as_delivered[of sample_fcm_state sample_fcm "\<lambda>_. 0" "''jwt''" 200 "Some (JObj [])" sample_push_device
      "sample_event EvOpen" "sample_fcm_state\<lparr>fs_token_requests := 1\<rparr>" "SendAnswered \<lparr>pr_status = 200, pr_stale = False, pr_apns_environment = None\<rparr>"
      "\<lparr>dp_db = empty_db, dp_senders = (), dp_calls = [], dp_delivered = 0, dp_failed = 0\<rparr>"]
  by (simp add: sample_fcm_def sample_fcm_state_def accepted_status_def fcm_token_response_def text_field_def sample_push_device_def
      fcm_send_def fcm_access_token_def fcm_fresh_token_def Let_def)

end
