(* ===== verification/Ingress.thy ===== *)
theory Ingress
  imports Topics Push
begin

section \<open>Publishing and polling\<close>

text \<open>
  \<open>src/src/ingress/\<close>: the ntfy-compatible routes. \<open>headers.ts\<close> turns a request into the fields of a message,
  \<open>auth.ts\<close> finds the topic its token may publish to, \<open>service.ts\<close> stores the message, opens or joins an incident
  and hands the events on, and \<open>router.ts\<close> answers, also to a poll. The two routes of \<open>src/src/v1/router.ts\<close> that
  publish are here too.

  A request is its headers by lower-case name, the decoded parameters of its query, and its body as in
  \<^const>\<open>read_bytes\<close>. Decoding base64 and UTF-8, the SHA-256 of a token and \<open>JSON.parse\<close> are parameters; so are the clock,
  the fresh identifiers and what dispatching the events does.
\<close>

subsection \<open>Requests\<close>

record web_request =
  wr_headers :: "(string \<times> string) list"
  wr_query :: "(string \<times> string) list"
  wr_declared :: "int option"
  wr_body :: "string list option"

record decoders =
  de_base64 :: "string \<Rightarrow> string"
  de_text :: "string \<Rightarrow> string"
  de_json :: "string \<Rightarrow> json option"
  de_sha :: "string \<Rightarrow> string"

definition max_message_bytes :: nat where "max_message_bytes = 4096"

datatype parse_error = TooLarge | BadPublish string | ConversionThrew

subsection \<open>Numbers in text\<close>

text \<open>\<open>Number\<close> of a text, as far as the server asks: whether it is an integer from 1 to 5, and which. The text is a
  numeral in base 2, 8 or 16, or a decimal with fraction and exponent, and its exact value is rounded to the nearest
  binary fraction of 53 digits: to \<open>n\<close> exactly when it is at most half a unit of the last digit away, which is
  \<open>2 ^ - hi\<close> above \<open>n\<close> and \<open>2 ^ - lo\<close> below it (a tie goes to \<open>n\<close>, whose last digit is 0).\<close>

definition half_units :: "(nat \<times> nat \<times> nat) list" where
  "half_units = [(1, 54, 53), (2, 53, 52), (3, 52, 52), (4, 52, 51), (5, 51, 51)]"

definition rounds_to :: "nat \<Rightarrow> nat \<Rightarrow> nat \<times> nat \<times> nat \<Rightarrow> bool" where
  "rounds_to num den u = (case u of (n, lo, hi) \<Rightarrow>
     n * den * 2 ^ lo \<le> num * 2 ^ lo + den \<and> num * 2 ^ hi \<le> n * den * 2 ^ hi + den)"

definition near_integer :: "nat \<Rightarrow> nat \<Rightarrow> nat option" where
  "near_integer num den = map_option fst (List.find (rounds_to num den) half_units)"

definition radix_value :: "nat \<Rightarrow> string \<Rightarrow> nat option" where
  "radix_value base x =
     (case those (map hex_value x) of
        None \<Rightarrow> None
      | Some ds \<Rightarrow> if ds = [] \<or> list_ex (\<lambda>d. base \<le> d) ds then None else Some (foldl (\<lambda>n d. n * base + d) 0 ds))"

definition split_exponent :: "string \<Rightarrow> string \<times> int option" where
  "split_exponent x =
     (let m = takeWhile (\<lambda>c. c \<noteq> CHR ''e'') x; r = drop (length m) x
      in if r = [] then (m, Some 0)
         else (let e = drop 1 r;
                   neg = starts_with ''-'' e;
                   ds = (if neg \<or> starts_with ''+'' e then drop 1 e else e)
               in (m, if ds = [] \<or> \<not> list_all is_digit ds then None
                      else Some (if neg then - int (digits_value ds) else int (digits_value ds)))))"

definition decimal_value :: "string \<Rightarrow> (nat \<times> nat) option" where
  "decimal_value x =
     (case split_exponent x of (m, e) \<Rightarrow>
        (let whole = takeWhile (\<lambda>c. c \<noteq> CHR ''.'') m; frac = drop (Suc (length whole)) m
         in case e of None \<Rightarrow> None
            | Some k \<Rightarrow>
                if whole @ frac = [] \<or> \<not> list_all is_digit (whole @ frac) then None
                else (let n = digits_value (whole @ frac); p = k - int (length frac)
                      in Some (if 0 \<le> p then (n * 10 ^ nat p, 1) else (n, 10 ^ nat (- p))))))"

definition small_integer :: "string \<Rightarrow> nat option" where
  "small_integer text =
     (let x = trim text
      in if starts_with ''0x'' x then Option.bind (radix_value 16 (drop 2 x)) (\<lambda>n. near_integer n 1)
         else if starts_with ''0o'' x then Option.bind (radix_value 8 (drop 2 x)) (\<lambda>n. near_integer n 1)
         else if starts_with ''0b'' x then Option.bind (radix_value 2 (drop 2 x)) (\<lambda>n. near_integer n 1)
         else Option.bind (decimal_value (if starts_with ''+'' x then drop 1 x else x)) (\<lambda>(num, den). near_integer num den))"

subsection \<open>Fields\<close>

definition first_header :: "web_request \<Rightarrow> string list \<Rightarrow> string option" where
  "first_header r aliases =
     Option.bind (List.find (\<lambda>a. case map_of (wr_headers r) a of None \<Rightarrow> False | Some v \<Rightarrow> v \<noteq> []) aliases) (map_of (wr_headers r))"

definition priority_names :: "(string \<times> nat) list" where
  "priority_names = [(''min'', 1), (''low'', 2), (''default'', 3), (''high'', 4), (''urgent'', 5), (''max'', 5)]"

definition parse_priority :: "json \<Rightarrow> parse_error + nat" where
  "parse_priority v =
     (case js_text v of None \<Rightarrow> Inl ConversionThrew
      | Some t \<Rightarrow>
          (let x = lower_text t
           in case (case map_of priority_names x of Some n \<Rightarrow> Some n | None \<Rightarrow> small_integer x) of
                None \<Rightarrow> Inl (BadPublish ''invalid priority'') | Some n \<Rightarrow> Inr n))"

text \<open>\<open>tags\<close>: an array prints every element (\<open>null\<close> as a word), a text is split at its commas.\<close>

definition parse_tags :: "json option \<Rightarrow> parse_error + string list" where
  "parse_tags v =
     (case v of
        Some (JList vs) \<Rightarrow> (case those (map js_text vs) of None \<Rightarrow> Inl ConversionThrew | Some ts \<Rightarrow> Inr ts)
      | Some (JText x) \<Rightarrow> Inr (filter (\<lambda>t. t \<noteq> []) (map trim (split_on (CHR '','') x)))
      | _ \<Rightarrow> Inr [])"

definition parse_markdown :: "json option \<Rightarrow> bool" where
  "parse_markdown v =
     (case v of Some (JBool b) \<Rightarrow> b
      | Some (JText x) \<Rightarrow> lower_text x \<in> {''true'', ''1'', ''yes''}
      | _ \<Rightarrow> False)"

definition rejects_delay :: "web_request \<Rightarrow> bool" where
  "rejects_delay r \<longleftrightarrow> first_header r [''x-delay'', ''delay'', ''x-at'', ''at'', ''x-in'', ''in''] \<noteq> None"

record publish_fields =
  pf_message :: "json option"
  pf_title :: "json option"
  pf_priority :: "json option"
  pf_tags :: "json option"
  pf_click :: "json option"
  pf_markdown :: "json option"

record publish_input =
  pi_message :: string
  pi_title :: "string option"
  pi_priority :: int
  pi_tags :: "string list"
  pi_click :: "string option"
  pi_markdown :: bool

text \<open>The four values whose size is checked; the tags of an array as one text.\<close>

definition sized_values :: "publish_fields \<Rightarrow> parse_error + json option list" where
  "sized_values f =
     (case pf_tags f of
        Some (JList vs) \<Rightarrow>
          (case those (map js_text vs) of None \<Rightarrow> Inl ConversionThrew
           | Some ts \<Rightarrow> Inr [pf_message f, pf_title f, pf_click f, Some (JText (join_with '','' ts))])
      | t \<Rightarrow> Inr [pf_message f, pf_title f, pf_click f, t])"

definition too_long :: "json option \<Rightarrow> bool" where
  "too_long v \<longleftrightarrow> (case Option.bind v text_of of None \<Rightarrow> False | Some x \<Rightarrow> max_message_bytes < length x)"

definition message_text :: "json option \<Rightarrow> string" where
  "message_text v =
     (case Option.bind v text_of of None \<Rightarrow> ''triggered'' | Some x \<Rightarrow> if x = [] then ''triggered'' else x)"

definition normalize :: "publish_fields \<Rightarrow> parse_error + publish_input" where
  "normalize f =
     (case sized_values f of Inl e \<Rightarrow> Inl e
      | Inr vs \<Rightarrow>
          if list_ex too_long vs then Inl TooLarge
          else (case (case pf_priority f of None \<Rightarrow> Inr 3 | Some v \<Rightarrow> parse_priority v) of Inl e \<Rightarrow> Inl e
                | Inr p \<Rightarrow>
                    (case parse_tags (pf_tags f) of Inl e \<Rightarrow> Inl e
                     | Inr ts \<Rightarrow>
                         Inr \<lparr>pi_message = message_text (pf_message f),
                              pi_title = Option.bind (pf_title f) text_of,
                              pi_priority = int p, pi_tags = ts,
                              pi_click = Option.bind (pf_click f) text_of,
                              pi_markdown = parse_markdown (pf_markdown f)\<rparr>)))"

definition text_json :: "string option \<Rightarrow> json option" where
  "text_json x = map_option JText x"

definition or_query :: "string option \<Rightarrow> string \<Rightarrow> web_request \<Rightarrow> string option" where
  "or_query v k r = (case v of None \<Rightarrow> map_of (wr_query r) k | Some x \<Rightarrow> Some x)"

definition parse_publish_request :: "decoders \<Rightarrow> web_request \<Rightarrow> parse_error + publish_input" where
  "parse_publish_request de r =
     (if rejects_delay r then Inl (BadPublish ''scheduled delivery not supported'')
      else (case fst (read_bytes max_message_bytes (wr_declared r) (wr_body r)) of
              None \<Rightarrow> Inl TooLarge
            | Some bytes \<Rightarrow>
                normalize
                  \<lparr>pf_message = text_json (Some (case map_of (wr_query r) ''m'' of Some m \<Rightarrow> m | None \<Rightarrow> de_text de bytes)),
                   pf_title = text_json (or_query (first_header r [''x-title'', ''title'', ''ti'', ''t'']) ''t'' r),
                   pf_priority = text_json (or_query (first_header r [''x-priority'', ''priority'', ''prio'', ''p'']) ''p'' r),
                   pf_tags = text_json (or_query (first_header r [''x-tags'', ''tags'', ''tag'', ''ta'']) ''ta'' r),
                   pf_click = text_json (first_header r [''x-click'', ''click'']),
                   pf_markdown = text_json (first_header r [''x-markdown'', ''markdown'', ''md''])\<rparr>))"

definition json_fields :: "json \<Rightarrow> publish_fields" where
  "json_fields v =
     \<lparr>pf_message = json_field ''message'' v, pf_title = json_field ''title'' v, pf_priority = json_field ''priority'' v,
      pf_tags = json_field ''tags'' v, pf_click = json_field ''click'' v, pf_markdown = json_field ''markdown'' v\<rparr>"

definition parse_json_publish :: "json \<Rightarrow> parse_error + string \<times> publish_input" where
  "parse_json_publish v =
     (if \<not> is_object v then Inl (BadPublish ''invalid JSON publish'')
      else if json_field ''delay'' v \<noteq> None then Inl (BadPublish ''scheduled delivery not supported'')
      else (case text_field ''topic'' v of None \<Rightarrow> Inl (BadPublish ''topic is required'')
            | Some t \<Rightarrow>
                if t = [] then Inl (BadPublish ''topic is required'')
                else (case normalize (json_fields v) of Inl e \<Rightarrow> Inl e | Inr p \<Rightarrow> Inr (t, p))))"


section \<open>Who publishes\<close>

text \<open>\<open>src/src/ingress/auth.ts\<close>. The parameter \<open>auth\<close> of the query is for clients that cannot set headers.\<close>

definition basic_password :: "string \<Rightarrow> string option" where
  "basic_password decoded =
     (let p = join_with '':'' (drop 1 (split_on (CHR '':'') decoded)) in if p = [] then None else Some p)"

definition token_from_request :: "decoders \<Rightarrow> web_request \<Rightarrow> string option" where
  "token_from_request de r =
     (let h = (case map_of (wr_headers r) ''authorization'' of None \<Rightarrow> [] | Some x \<Rightarrow> x)
      in if starts_with ''Bearer '' h then Some (drop 7 h)
         else if starts_with ''Basic '' h then basic_password (de_base64 de (drop 6 h))
         else (case map_of (wr_query r) ''auth'' of None \<Rightarrow> None
               | Some a \<Rightarrow> (let d = de_base64 de a in if starts_with ''Bearer '' d then Some (drop 7 d) else None)))"

definition authenticate_topic :: "decoders \<Rightarrow> db \<Rightarrow> web_request \<Rightarrow> string \<Rightarrow> topic_row option" where
  "authenticate_topic de s r name =
     (case token_from_request de r of None \<Rightarrow> None
      | Some token \<Rightarrow>
          (case concat (map (\<lambda>k. if tt_hash k = de_sha de token
                                 then filter (\<lambda>t. t_id t = tt_topic_id k \<and> t_name t = name) (topics s) else []) (topic_tokens s)) of
             [] \<Rightarrow> None | t # _ \<Rightarrow> Some t))"

section \<open>Publishing\<close>

text \<open>\<open>src/src/ingress/service.ts\<close>. What the dispatch of the events did: it threw, it had nothing to report (a
  server that forwards to a relay), or it reports the sends that were accepted and those that threw.\<close>

datatype dispatch_outcome = DispatchThrew | DispatchVoid | DispatchDone nat "nat option"

type_synonym deliver = "delivery_event list \<Rightarrow> db \<Rightarrow> db \<times> dispatch_outcome"

record publish_response =
  pr_id :: ident
  pr_time :: seconds
  pr_expires :: seconds
  pr_topic :: string
  pr_title :: string
  pr_message :: string
  pr_priority :: int
  pr_tags :: "string list"
  pr_click :: "string option"
  pr_markdown :: bool
  pr_incident_id :: "ident option"

datatype publish_outcome = Published publish_response | CapExceeded | DeliveryFailed

definition is_heads_up :: "topic_row \<Rightarrow> publish_input \<Rightarrow> bool" where
  "is_heads_up t p \<longleftrightarrow> pi_priority p = 4 \<or> (pi_priority p = 5 \<and> \<not> t_critical t)"

definition publish_title :: "topic_row \<Rightarrow> publish_input \<Rightarrow> string" where
  "publish_title t p = (case pi_title p of None \<Rightarrow> t_name t | Some x \<Rightarrow> x)"

definition publish_answer :: "topic_row \<Rightarrow> publish_input \<Rightarrow> ident \<Rightarrow> seconds \<Rightarrow> ident option \<Rightarrow> publish_response" where
  "publish_answer t p mid at inc =
     \<lparr>pr_id = mid, pr_time = at, pr_expires = at + 43200, pr_topic = t_name t, pr_title = publish_title t p,
      pr_message = pi_message p, pr_priority = pi_priority p, pr_tags = pi_tags p, pr_click = pi_click p,
      pr_markdown = pi_markdown p, pr_incident_id = inc\<rparr>"

definition critical_input :: "topic_row \<Rightarrow> publish_input \<Rightarrow> critical_publication" where
  "critical_input t p =
     \<lparr>cp_topic_id = t_id t, cp_topic_hash = t_topic_hash t, cp_topic = t_name t, cp_base_url = t_base_url t,
      cp_repeat_interval_s = t_repeat_interval_s t, cp_max_ring_s = t_max_ring_s t, cp_desk_timer_s = t_desk_timer_s t,
      cp_message = \<lparr>sm_title = publish_title t p, sm_body = pi_message p, sm_priority = 5, sm_tags = pi_tags p,
                    sm_click = pi_click p, sm_markdown = pi_markdown p\<rparr>,
      cp_relay_content = (if t_relay_content t = ContentFull then Some ContentFull else None)\<rparr>"

definition standard_message :: "seconds \<Rightarrow> ident \<Rightarrow> topic_row \<Rightarrow> publish_input \<Rightarrow> message_row" where
  "standard_message now mid t p =
     \<lparr>m_id = mid, m_topic_id = t_id t, m_incident_id = None, m_title = publish_title t p, m_body = pi_message p,
      m_priority = pi_priority p, m_tags = pi_tags p, m_click = pi_click p, m_markdown = pi_markdown p, m_created_at = now\<rparr>"

definition standard_events :: "ident \<Rightarrow> topic_row \<Rightarrow> publish_input \<Rightarrow> delivery_event list" where
  "standard_events mid t p =
     (if pi_priority p < 4 then []
      else [\<lparr>e_kind = (if pi_priority p = 4 then EvP4 else EvP5), e_topic_hash = t_topic_hash t, e_topic = t_name t,
             e_incident_id = None, e_message_id = mid, e_priority = pi_priority p, e_max_ring_s = t_max_ring_s t,
             e_ring_until = None, e_server = t_base_url t, e_title = publish_title t p, e_body = pi_message p,
             e_critical = False,
             e_relay_content = (if t_relay_content t = ContentFull then Some ContentFull else None),
             e_account_id = None\<rparr>])"

definition publish_standard ::
  "seconds \<Rightarrow> ident \<Rightarrow> topic_row \<Rightarrow> publish_input \<Rightarrow> db \<Rightarrow> db \<times> publish_response \<times> delivery_event list" where
  "publish_standard now mid t p s =
     (s\<lparr>messages := messages s @ [standard_message now mid t p]\<rparr>, publish_answer t p mid now None, standard_events mid t p)"

definition publish_alarm ::
  "seconds \<Rightarrow> fresh_ids \<Rightarrow> topic_row \<Rightarrow> publish_input \<Rightarrow> db \<Rightarrow> db \<times> publish_response \<times> delivery_event list" where
  "publish_alarm now ids t p s =
     (case publish_critical now ids (critical_input t p) s of (s', m, inc, evs) \<Rightarrow>
        (s', publish_answer t p (m_id m) (m_created_at m) (Some (i_id inc)), evs))"

definition every_push_failed :: "dispatch_outcome \<Rightarrow> bool" where
  "every_push_failed res \<longleftrightarrow>
     (case res of DispatchThrew \<Rightarrow> True | DispatchVoid \<Rightarrow> False
      | DispatchDone delivered failed \<Rightarrow> 0 < (case failed of None \<Rightarrow> 0 | Some n \<Rightarrow> n) \<and> delivered = 0)"

text \<open>The clock of the charge and of the rest, and the identifiers of the call.\<close>

record publish_env =
  pv_mode :: server_mode
  pv_charged_at :: seconds
  pv_now :: seconds
  pv_ids :: fresh_ids
  pv_deliver :: deliver

definition publish_message :: "publish_env \<Rightarrow> topic_row \<Rightarrow> publish_input \<Rightarrow> db \<Rightarrow> db \<times> publish_outcome" where
  "publish_message env t p s =
     (let charged = (if is_heads_up t p \<and> pv_mode env \<noteq> SelfHostedMode
                     then charge_p4 (pv_charged_at env) (t_account_id t) s else (s, True))
      in if \<not> snd charged then (s, CapExceeded)
         else (case (if pi_priority p = 5 \<and> t_critical t then publish_alarm (pv_now env) (pv_ids env) t p (fst charged)
                     else publish_standard (pv_now env) (n_message (pv_ids env)) t p (fst charged)) of
                 (s1, answer, evs) \<Rightarrow>
                   (if evs = [] then (s1, Published answer)
                    else (case pv_deliver env evs s1 of (s2, res) \<Rightarrow>
                            (s2, if every_push_failed res then DeliveryFailed else Published answer)))))"

subsection \<open>The routes\<close>

datatype publish_reply =
    PublishOk publish_response
  | InvalidTopicName
  | PublishUnauthorized
  | PublishRefused parse_error
  | PublishCapped
  | PublishFault

definition reply_of :: "publish_outcome \<Rightarrow> publish_reply" where
  "reply_of res = (case res of Published a \<Rightarrow> PublishOk a | CapExceeded \<Rightarrow> PublishCapped | DeliveryFailed \<Rightarrow> PublishFault)"

text \<open>A parse error is a 400 or a 413; a conversion that throws is nobody's, and the app answers 500.\<close>

definition reply_of_error :: "parse_error \<Rightarrow> publish_reply" where
  "reply_of_error e = (if e = ConversionThrew then PublishFault else PublishRefused e)"

definition post_topic :: "decoders \<Rightarrow> publish_env \<Rightarrow> string \<Rightarrow> web_request \<Rightarrow> db \<Rightarrow> db \<times> publish_reply" where
  "post_topic de env name r s =
     (if \<not> is_topic_name name then (s, InvalidTopicName)
      else (case authenticate_topic de s r name of
              None \<Rightarrow> (s, PublishUnauthorized)
            | Some t \<Rightarrow>
                (case parse_publish_request de r of
                   Inl e \<Rightarrow> (s, reply_of_error e)
                 | Inr p \<Rightarrow> (case publish_message env t p s of (s', res) \<Rightarrow> (s', reply_of res)))))"

definition json_value :: "decoders \<Rightarrow> web_request \<Rightarrow> parse_error + json" where
  "json_value de r =
     (case fst (read_bytes max_message_bytes (wr_declared r) (wr_body r)) of
        None \<Rightarrow> Inl TooLarge
      | Some bytes \<Rightarrow> (case de_json de (de_text de bytes) of None \<Rightarrow> Inl (BadPublish ''invalid JSON'') | Some v \<Rightarrow> Inr v))"

definition post_root :: "decoders \<Rightarrow> publish_env \<Rightarrow> web_request \<Rightarrow> db \<Rightarrow> db \<times> publish_reply" where
  "post_root de env r s =
     (if rejects_delay r then (s, PublishRefused (BadPublish ''scheduled delivery not supported''))
      else (case json_value de r of Inl e \<Rightarrow> (s, reply_of_error e)
            | Inr v \<Rightarrow>
                (case parse_json_publish v of Inl e \<Rightarrow> (s, reply_of_error e)
                 | Inr (name, p) \<Rightarrow>
                     if \<not> is_topic_name name then (s, InvalidTopicName)
                     else (case authenticate_topic de s r name of
                             None \<Rightarrow> (s, PublishUnauthorized)
                           | Some t \<Rightarrow> (case publish_message env t p s of (s', res) \<Rightarrow> (s', reply_of res))))))"

text \<open>\<open>POST /v1/topics/{name}/send\<close> and \<open>POST /v1/test\<close> of \<open>src/src/v1/router.ts\<close>, for a caller that holds the account. The body of
  the first is what \<open>jsonBody\<close> reads within 65536 bytes: too large, not JSON, or a value.\<close>

datatype json_read = JsonTooLarge | JsonInvalid | JsonRead json

datatype send_reply = SendOk ident "ident option" | SendNotFound | SendInvalid string | SendTooLarge | SendCapped | SendFault

definition send_outcome :: "publish_outcome \<Rightarrow> send_reply" where
  "send_outcome res =
     (case res of Published a \<Rightarrow> SendOk (pr_id a) (pr_incident_id a) | CapExceeded \<Rightarrow> SendCapped | DeliveryFailed \<Rightarrow> SendFault)"

definition present_field :: "string \<Rightarrow> json \<Rightarrow> (string \<times> json) list" where
  "present_field k v = (case json_field k v of None \<Rightarrow> [] | Some x \<Rightarrow> [(k, x)])"

definition post_send :: "publish_env \<Rightarrow> ident \<Rightarrow> string \<Rightarrow> json_read \<Rightarrow> db \<Rightarrow> db \<times> send_reply" where
  "post_send env acc name body s =
     (case owned_topic s acc name of None \<Rightarrow> (s, SendNotFound)
      | Some t \<Rightarrow>
          (case body of
             JsonTooLarge \<Rightarrow> (s, SendTooLarge)
           | JsonInvalid \<Rightarrow> (s, SendInvalid ''invalid request'')
           | JsonRead v \<Rightarrow>
               if \<not> is_object v then (s, SendInvalid ''invalid request'')
               else (case text_field ''message'' v of
                       None \<Rightarrow> (s, SendInvalid ''message is required'')
                     | Some m \<Rightarrow>
                         if max_message_bytes < length m then (s, SendTooLarge)
                         else (case parse_json_publish
                                      (JObj ([(''topic'', JText (t_name t)), (''message'', JText m)] @
                                             present_field ''title'' v @ present_field ''priority'' v @ present_field ''tags'' v)) of
                                 Inl (BadPublish e) \<Rightarrow> (s, SendInvalid e)
                               | Inl TooLarge \<Rightarrow> (s, SendTooLarge)
                               | Inl ConversionThrew \<Rightarrow> (s, SendFault)
                               | Inr (_, p) \<Rightarrow> (case publish_message env t p s of (s', res) \<Rightarrow> (s', send_outcome res))))))"

datatype test_reply = TestOk "ident option" | TestNotFound | TestNotCritical | TestCapped | TestFault

definition post_test :: "publish_env \<Rightarrow> ident \<Rightarrow> string option \<Rightarrow> db \<Rightarrow> db \<times> test_reply" where
  "post_test env acc name s =
     (case owned_topic s acc (case name of None \<Rightarrow> [] | Some x \<Rightarrow> x) of None \<Rightarrow> (s, TestNotFound)
      | Some t \<Rightarrow>
          if \<not> t_critical t then (s, TestNotCritical)
          else (case publish_message env t
                       \<lparr>pi_message = ''triggered'', pi_title = Some ''Crit Alarm test'', pi_priority = 5, pi_tags = [],
                        pi_click = None, pi_markdown = False\<rparr> s of
                  (s', Published a) \<Rightarrow> (s', TestOk (pr_incident_id a))
                | (s', CapExceeded) \<Rightarrow> (s', TestCapped)
                | (s', DeliveryFailed) \<Rightarrow> (s', TestFault)))"


section \<open>Polling\<close>

text \<open>\<open>GET /{topic}/json?poll=1\<close>.\<close>

datatype poll_since = SinceTime int bool | SinceAll | SinceMessage ident

fun unit_seconds :: "char \<Rightarrow> int option" where
  "unit_seconds c =
     (if c = CHR ''s'' then Some 1 else if c = CHR ''m'' then Some 60 else if c = CHR ''h'' then Some 3600
      else if c = CHR ''d'' then Some 86400 else None)"

definition parse_since :: "string option \<Rightarrow> seconds \<Rightarrow> poll_since" where
  "parse_since value now =
     (case value of
        None \<Rightarrow> SinceTime (now - 43200) True
      | Some x \<Rightarrow>
          if x = ''all'' then SinceAll
          else if x \<noteq> [] \<and> list_all is_digit x then SinceTime (int (digits_value x)) False
          else (case (if butlast x \<noteq> [] \<and> list_all is_digit (butlast x) then unit_seconds (last x) else None) of
                  Some u \<Rightarrow> SinceTime (now - int (digits_value (butlast x)) * u) True
                | None \<Rightarrow> SinceMessage x))"

text \<open>The rows of a topic, in the order of \<open>created_at\<close> and then of the table, each with its position in the table.\<close>

definition numbered :: "'r list \<Rightarrow> (nat \<times> 'r) list" where
  "numbered rows = enumerate 0 rows"

definition message_key :: "nat \<times> message_row \<Rightarrow> seconds \<times> nat" where
  "message_key x = (m_created_at (snd x), fst x)"

definition window_of :: "seconds option \<Rightarrow> message_row \<Rightarrow> bool" where
  "window_of cutoff m \<longleftrightarrow> (case cutoff of None \<Rightarrow> True | Some c \<Rightarrow> c < m_created_at m)"

definition select_messages :: "(nat \<times> message_row \<Rightarrow> bool) \<Rightarrow> ident \<Rightarrow> seconds option \<Rightarrow> db \<Rightarrow> message_row list" where
  "select_messages P tid cutoff s =
     map snd (sort_key message_key
       (filter (\<lambda>x. m_topic_id (snd x) = tid \<and> P x \<and> window_of cutoff (snd x)) (numbered (messages s))))"

definition poll_rows :: "poll_since \<Rightarrow> ident \<Rightarrow> seconds option \<Rightarrow> db \<Rightarrow> message_row list" where
  "poll_rows since tid cutoff s =
     (case since of
        SinceAll \<Rightarrow> select_messages (\<lambda>_. True) tid cutoff s
      | SinceMessage mid \<Rightarrow>
          (case List.find (\<lambda>x. m_topic_id (snd x) = tid \<and> m_id (snd x) = mid) (numbered (messages s)) of
             None \<Rightarrow> []
           | Some b \<Rightarrow> select_messages (\<lambda>x. m_created_at (snd b) < m_created_at (snd x) \<or>
                                           (m_created_at (snd x) = m_created_at (snd b) \<and> fst b < fst x)) tid cutoff s)
      | SinceTime at inclusive \<Rightarrow>
          select_messages (\<lambda>x. if inclusive then at \<le> m_created_at (snd x) else at < m_created_at (snd x)) tid cutoff s)"

definition poll_line :: "topic_row \<Rightarrow> message_row \<Rightarrow> publish_response" where
  "poll_line t m =
     \<lparr>pr_id = m_id m, pr_time = m_created_at m, pr_expires = m_created_at m + 43200, pr_topic = t_name t, pr_title = m_title m,
      pr_message = m_body m, pr_priority = m_priority m, pr_tags = m_tags m, pr_click = m_click m, pr_markdown = m_markdown m,
      pr_incident_id = m_incident_id m\<rparr>"

datatype poll_reply = PollInvalidName | PollNotFound | PollUnauthorized | PollStreaming | Polled "publish_response list"

definition poll_topic :: "decoders \<Rightarrow> server_mode \<Rightarrow> seconds \<Rightarrow> seconds \<Rightarrow> db \<Rightarrow> web_request \<Rightarrow> string \<Rightarrow> poll_reply" where
  "poll_topic de md now1 now2 s r name =
     (if \<not> is_topic_name name then PollInvalidName
      else (let reading = (\<lambda>t owner.
                  if map_of (wr_query r) ''poll'' \<noteq> Some ''1'' then PollStreaming
                  else Polled (map (poll_line t)
                    (poll_rows (parse_since (map_of (wr_query r) ''since'') now1) (t_id t) (history_cutoff now2 md owner s) s)))
            in case authenticate_management (de_sha de) s (map_of (wr_headers r) ''authorization'') md of
                 Some ctx \<Rightarrow> (case owned_topic s (ac_account ctx) name of None \<Rightarrow> PollNotFound | Some t \<Rightarrow> reading t (ac_account ctx))
               | None \<Rightarrow> (case authenticate_topic de s r name of None \<Rightarrow> PollUnauthorized
                         | Some t \<Rightarrow> reading t (t_account_id t))))"

subsection \<open>A poll goes on where the last one ended\<close>

lemma message_key_order:
  "message_key b < message_key x \<longleftrightarrow>
     m_created_at (snd b) < m_created_at (snd x) \<or> (m_created_at (snd x) = m_created_at (snd b) \<and> fst b < fst x)"
  by (auto simp: message_key_def less_prod_def)

lemma distinct_numbered: "distinct (map fst (numbered rows))"
  by (simp add: numbered_def)

lemma distinct_message_keys: "distinct (map message_key (filter P (numbered rows)))"
proof -
  have "distinct (map fst (filter P (numbered rows)))"
    by (rule distinct_map_filter[OF distinct_numbered])
  then show ?thesis unfolding distinct_map by (auto simp: inj_on_def message_key_def)
qed

lemma sorted_distinct_strict:
  fixes key :: "'a \<Rightarrow> 'k::linorder"
  assumes "sorted (map key (pre @ x # post))" "distinct (map key (pre @ x # post))"
  shows "filter (\<lambda>y. key x < key y) (pre @ x # post) = post"
proof -
  have "\<not> key x < key y" if "y \<in> set pre" for y using assms(1) that by (auto simp: sorted_append)
  moreover have "key x < key y" if "y \<in> set post" for y
    using assms that by (auto simp: sorted_append order.strict_iff_order)
  ultimately show ?thesis by (simp add: filter_id_conv filter_empty_conv)
qed

lemma numbered_append: "numbered (xs @ ys) = numbered xs @ enumerate (length xs) ys"
  by (simp add: numbered_def enumerate_append_eq)

lemma set_numbered: "(k, y) \<in> set (numbered rows) \<longleftrightarrow> k < length rows \<and> y = rows ! k"
  by (auto simp: numbered_def in_set_enumerate_eq)

lemma map_snd_numbered [simp]: "map snd (numbered rows) = rows"
  by (simp add: numbered_def)

text \<open>The rows every form of \<open>since\<close> selects reach up to the newest message.\<close>

definition upward :: "(nat \<times> message_row \<Rightarrow> bool) \<Rightarrow> bool" where
  "upward P \<longleftrightarrow> (\<forall>x y. P x \<longrightarrow> message_key x \<le> message_key y \<longrightarrow> P y)"

lemma upwardD: "upward P \<Longrightarrow> P x \<Longrightarrow> message_key x \<le> message_key y \<Longrightarrow> P y"
  unfolding upward_def by blast

lemma message_key_le: "message_key x \<le> message_key y \<Longrightarrow> m_created_at (snd x) \<le> m_created_at (snd y)"
  by (auto simp: message_key_def less_eq_prod_def)

lemma upward_since:
  "upward (\<lambda>_. True)"
  "upward (\<lambda>x. message_key b < message_key x)"
  "upward (\<lambda>x. if inclusive then at \<le> m_created_at (snd x) else at < m_created_at (snd x))"
  "upward (\<lambda>x. window_of cutoff (snd x))"
  unfolding upward_def using message_key_le by (force simp: window_of_def split: option.splits)+

lemma poll_rows_select: "\<exists>P. upward P \<and> (poll_rows since tid cutoff s = select_messages P tid cutoff s \<or> poll_rows since tid cutoff s = [])"
proof (cases since)
  case (SinceMessage mid)
  then show ?thesis
    using upward_since(2) by (auto simp: poll_rows_def message_key_order[symmetric] split: option.split)
next
  case (SinceTime at inclusive)
  have "poll_rows since tid cutoff s =
      select_messages (\<lambda>x. if inclusive then at \<le> m_created_at (snd x) else at < m_created_at (snd x)) tid cutoff s"
    by (simp only: SinceTime poll_rows_def poll_since.case)
  then show ?thesis using upward_since(3) by blast
next
  case SinceAll
  then show ?thesis using upward_since(1) by (auto simp: poll_rows_def)
qed

text \<open>The last row of a poll is the newest message of its topic.\<close>

lemma last_selected:
  assumes "upward P" "select_messages P tid cutoff s = rows @ [m]"
  shows "\<exists>k. (k, m) \<in> set (numbered (messages s)) \<and> m_topic_id m = tid \<and> window_of cutoff m \<and>
    (\<forall>x \<in> set (numbered (messages s)). m_topic_id (snd x) = tid \<longrightarrow> message_key x \<le> message_key (k, m))"
proof -
  define Q where "Q x \<longleftrightarrow> m_topic_id (snd x) = tid \<and> P x \<and> window_of cutoff (snd x)" for x :: "nat \<times> message_row"
  define sel where "sel = sort_key message_key (filter Q (numbered (messages s)))"
  have "map snd sel = rows @ [m]" using assms(2) by (simp add: select_messages_def sel_def Q_def[abs_def])
  then obtain xs k where sel: "sel = xs @ [(k, m)]"
    by (auto simp: map_eq_append_conv)
  have sel_in: "set sel = {x \<in> set (numbered (messages s)). Q x}" by (simp add: sel_def)
  then have x_in: "(k, m) \<in> set (numbered (messages s))" and Q: "Q (k, m)" using sel by auto
  have "sorted (map message_key (xs @ [(k, m)]))" unfolding sel[symmetric] sel_def by (rule sorted_sort_key)
  then have max: "message_key y \<le> message_key (k, m)" if "y \<in> set sel" for y
    using that unfolding sel by (auto simp: sorted_append)
  have "message_key y \<le> message_key (k, m)" if y: "y \<in> set (numbered (messages s))" "m_topic_id (snd y) = tid" for y
  proof (rule ccontr)
    assume above: "\<not> message_key y \<le> message_key (k, m)"
    then have le: "message_key (k, m) \<le> message_key y" by simp
    have "P y" using upwardD[OF assms(1) _ le] Q by (simp add: Q_def)
    moreover have "window_of cutoff (snd y)" using upwardD[OF upward_since(4) _ le] Q by (simp add: Q_def)
    ultimately have "y \<in> set sel" using y sel_in by (simp add: Q_def)
    then show False using max above by blast
  qed
  then show ?thesis using x_in Q by (auto simp: Q_def)
qed


lemma find_only:
  assumes "x \<in> set xs" "P x" "\<And>y. y \<in> set xs \<Longrightarrow> P y \<Longrightarrow> y = x"
  shows "List.find P xs = Some x"
proof (cases "List.find P xs")
  case None
  then show ?thesis using find_NoneD[OF None assms(1)] assms(2) by simp
next
  case (Some y)
  then show ?thesis using find_SomeD[OF Some] assms(3) by blast
qed

lemma boundary_found:
  assumes "distinct (map m_id rows)" "(k, m) \<in> set (numbered rows)" "m_topic_id m = tid"
  shows "List.find (\<lambda>x. m_topic_id (snd x) = tid \<and> m_id (snd x) = m_id m) (numbered rows) = Some (k, m)"
proof (rule find_only[OF assms(2)])
  fix x assume x: "x \<in> set (numbered rows)" "m_topic_id (snd x) = tid \<and> m_id (snd x) = m_id m"
  obtain k' m' where p: "x = (k', m')" by (cases x) blast
  have k': "k' < length rows" "m' = rows ! k'" and k: "k < length rows" "m = rows ! k"
    using x(1) assms(2) by (simp_all add: p set_numbered)
  have "map m_id rows ! k' = map m_id rows ! k" using x(2) k k' p by simp
  then have "k' = k" using assms(1) k(1) k'(1) nth_eq_iff_index_eq by fastforce
  then show "x = (k, m)" using p k k' by simp
qed (use assms(3) in simp)

lemma in_enumerate: "x \<in> set (enumerate n rows) \<Longrightarrow> n \<le> fst x \<and> snd x \<in> set rows"
  by (metis in_set_enumerate_eq in_set_conv_nth add.commute less_diff_conv2)

lemma later_keys:
  assumes "(k, m) \<in> set (numbered old)" "list_all (\<lambda>n. m_created_at m \<le> m_created_at n) new" "x \<in> set (enumerate (length old) new)"
  shows "message_key (k, m) < message_key x"
proof -
  have "k < length old" using assms(1) by (simp add: set_numbered)
  then show ?thesis using assms(2) in_enumerate[OF assms(3)] by (auto simp: message_key_def less_prod_def list_all_iff)
qed

lemma sorted_later: "sorted (map m_created_at new) \<Longrightarrow> sorted (map message_key (enumerate n new))"
proof (induction new arbitrary: n)
  case (Cons m new)
  have "message_key (n, m) \<le> message_key x" if "x \<in> set (enumerate (Suc n) new)" for x
    using in_enumerate[OF that] Cons.prems by (fastforce simp: message_key_def less_eq_prod_def)
  then show ?case using Cons by simp
qed simp

lemma map_snd_filter_enumerate: "map snd (filter (\<lambda>x. Q (snd x)) (enumerate n rows)) = filter Q rows"
  by (induction rows arbitrary: n) auto

text \<open>C24: A client that polls with the id of the last message it was given misses nothing and sees nothing twice.  Whatever form
  of \<open>since\<close> the last poll had, whatever the retention window is now, and whatever was published in between (later
  messages are not older, and no two messages share an id): the next poll answers with exactly the messages of the topic published
  since, in the order they were published, less those the retention window hides.\<close>

theorem poll_goes_on:
  assumes last: "poll_rows since tid cutoff s = rows @ [m]"
    and grown: "messages s' = messages s @ new" "distinct (map m_id (messages s'))"
    and later: "list_all (\<lambda>n. list_all (\<lambda>old. m_created_at old \<le> m_created_at n) (messages s)) new" "sorted (map m_created_at new)"
  shows "poll_rows (SinceMessage (m_id m)) tid cutoff' s' = filter (\<lambda>n. m_topic_id n = tid \<and> window_of cutoff' n) new"
proof -
  obtain P where "upward P" "select_messages P tid cutoff s = rows @ [m]"
    using poll_rows_select[of since tid cutoff s] last by auto
  from last_selected[OF this] obtain k where k: "(k, m) \<in> set (numbered (messages s))" "m_topic_id m = tid"
    and max: "\<And>x. x \<in> set (numbered (messages s)) \<Longrightarrow> m_topic_id (snd x) = tid \<Longrightarrow> message_key x \<le> message_key (k, m)"
    by blast
  let ?new = "enumerate (length (messages s)) new" and ?w = "\<lambda>n. m_topic_id n = tid \<and> window_of cutoff' n"
  have all: "numbered (messages s') = numbered (messages s) @ ?new" by (simp add: grown(1) numbered_append)
  have "(k, m) \<in> set (numbered (messages s'))" using k all by simp
  note found = boundary_found[OF grown(2) this k(2)]
  have "m \<in> set (messages s)" using k(1) by (auto simp: set_numbered)
  then have above: "message_key (k, m) < message_key x" if "x \<in> set ?new" for x
    using later_keys[OF k(1) _ that] later(1) by (auto simp: list_all_iff)
  have "filter (\<lambda>x. m_topic_id (snd x) = tid \<and> message_key (k, m) < message_key x \<and> window_of cutoff' (snd x)) (numbered (messages s')) =
      filter (\<lambda>x. ?w (snd x)) ?new"
    unfolding all using max above by (auto simp: filter_empty_conv not_less intro!: filter_cong)
  moreover have "sorted (map message_key (filter (\<lambda>x. ?w (snd x)) ?new))"
    using sorted_later[OF later(2)] by (rule sorted_filter)
  ultimately have "select_messages (\<lambda>x. message_key (k, m) < message_key x) tid cutoff' s' = filter ?w new"
    using map_snd_filter_enumerate[of ?w] by (simp add: select_messages_def sort_key_id_if_sorted)
  then show ?thesis using found by (simp add: poll_rows_def message_key_order)
qed


section \<open>What the parser lets through\<close>

lemma half_units_bounds: "u \<in> set half_units \<Longrightarrow> 1 \<le> fst u \<and> fst u \<le> 5"
  by (auto simp: half_units_def)

lemma near_integer_bounds: "near_integer num den = Some n \<Longrightarrow> 1 \<le> n \<and> n \<le> 5"
  using half_units_bounds by (auto simp: near_integer_def dest!: find_SomeD)

lemma small_integer_bounds: "small_integer x = Some n \<Longrightarrow> 1 \<le> n \<and> n \<le> 5"
  by (auto simp: small_integer_def Let_def Option.bind_eq_Some_conv dest: near_integer_bounds split: if_splits)

lemma parse_priority_bounds: "parse_priority v = Inr n \<Longrightarrow> 1 \<le> n \<and> n \<le> 5"
proof -
  assume p: "parse_priority v = Inr n"
  then obtain t where "js_text v = Some t"
      "(case map_of priority_names (lower_text t) of Some k \<Rightarrow> Some k | None \<Rightarrow> small_integer (lower_text t)) = Some n"
    by (auto simp: parse_priority_def Let_def split: option.splits)
  moreover have "1 \<le> k \<and> k \<le> 5" if "map_of priority_names x = Some k" for x k
    using map_of_SomeD[OF that] by (auto simp: priority_names_def)
  ultimately show ?thesis using small_integer_bounds by (auto split: option.splits)
qed

definition fits :: "string \<Rightarrow> bool" where
  "fits x \<longleftrightarrow> length x \<le> max_message_bytes"

definition fits_option :: "string option \<Rightarrow> bool" where
  "fits_option x \<longleftrightarrow> (case x of None \<Rightarrow> True | Some y \<Rightarrow> fits y)"

lemma not_too_long: "\<not> too_long v \<Longrightarrow> fits_option (Option.bind v text_of)"
  by (auto simp: too_long_def fits_option_def fits_def split: option.splits)

lemma message_text_fits: "\<not> too_long v \<Longrightarrow> message_text v \<noteq> [] \<and> fits (message_text v)"
  using not_too_long[of v]
  by (auto simp: message_text_def fits_option_def fits_def max_message_bytes_def split: option.split)

text \<open>The tags as one text: what the size of an array is taken of, and no longer than the text they were read from.\<close>

lemma length_join: "length (join_with [c] ts) = sum_list (map length ts) + (length ts - 1)"
  by (induction "[c]" ts rule: join_with.induct) simp_all

lemma length_strip: "length (strip n ws x) \<le> length x"
  by (induction n ws x rule: strip.induct) (auto split: option.splits intro: order_trans)

lemma length_trim: "length (trim x) \<le> length x"
  using length_strip[of "length (trim_start x)" "map rev white_spaces" "rev (trim_start x)"] length_strip[of "length x" white_spaces x]
  by (simp add: trim_def trim_end_def trim_start_def)

lemma length_trimmed:
  "sum_list (map length (filter (\<lambda>t. t \<noteq> []) (map trim ts))) \<le> sum_list (map length ts)"
  by (induction ts) (auto intro: add_mono length_trim trans_le_add2)

lemma tags_no_longer: "length (join_with [c] (filter (\<lambda>t. t \<noteq> []) (map trim (split_on c x)))) \<le> length x"
proof -
  have "length (filter (\<lambda>t. t \<noteq> []) (map trim (split_on c x))) - 1 \<le> length (split_on c x) - 1"
    by (intro diff_le_mono) (metis length_filter_le length_map)
  with length_trimmed[of "split_on c x"] show ?thesis
    using arg_cong[OF join_split[of c x], of length] by (simp add: length_join)
qed

lemma tags_fit:
  assumes "sized_values f = Inr vs" "\<not> list_ex too_long vs" "parse_tags (pf_tags f) = Inr ts"
  shows "length (join_with '','' ts) \<le> max_message_bytes"
proof (cases "\<exists>ws. pf_tags f = Some (JList ws)")
  case True
  with assms show ?thesis by (auto simp: sized_values_def parse_tags_def too_long_def split: option.splits)
next
  case False
  then have "vs = [pf_message f, pf_title f, pf_click f, pf_tags f]"
    using assms(1) by (auto simp: sized_values_def split: option.splits json.splits)
  with assms(2) have "\<not> too_long (pf_tags f)" by simp
  with assms(3) False tags_no_longer[of "CHR '',''"] show ?thesis
    by (fastforce simp: parse_tags_def too_long_def split: option.splits json.splits intro: order_trans)
qed

lemma normalize_fits:
  assumes "normalize f = Inr p"
  shows "1 \<le> pi_priority p \<and> pi_priority p \<le> 5 \<and> pi_message p \<noteq> [] \<and> fits (pi_message p) \<and>
    fits_option (pi_title p) \<and> fits_option (pi_click p) \<and> length (join_with '','' (pi_tags p)) \<le> max_message_bytes"
proof -
  obtain vs n ts where parts: "sized_values f = Inr vs" "\<not> list_ex too_long vs"
      "(case pf_priority f of None \<Rightarrow> Inr 3 | Some v \<Rightarrow> parse_priority v) = Inr n" "parse_tags (pf_tags f) = Inr ts"
    using assms by (auto simp: normalize_def split: sum.splits if_splits)
  have "pf_message f \<in> set vs" "pf_title f \<in> set vs" "pf_click f \<in> set vs"
    using parts(1) by (auto simp: sized_values_def split: option.splits json.splits)
  then have "\<not> too_long (pf_message f)" "\<not> too_long (pf_title f)" "\<not> too_long (pf_click f)"
    using parts(2) by (auto simp: list_ex_iff)
  note fit = this[THEN not_too_long]
  have "1 \<le> n \<and> n \<le> 5" using parts(3) parse_priority_bounds by (auto split: option.splits)
  then show ?thesis using assms parts fit
      message_text_fits[OF \<open>\<not> too_long (pf_message f)\<close>] tags_fit[OF parts(1,2,4)] by (auto simp: normalize_def)
qed

text \<open>C38: Whatever the bytes, headers, query and JSON of a publication are, what the parser hands on is well formed: a priority from
  1 to 5, a message that is not empty, no message, title or link of more than 4096 bytes, and tags of no more than 4096 bytes in all
  with the commas between them; a JSON publication names a topic.\<close>

theorem parsed_publication_is_well_formed:
  assumes "parse_publish_request de r = Inr p \<or> parse_json_publish v = Inr (name, p)"
  shows "1 \<le> pi_priority p \<and> pi_priority p \<le> 5 \<and> pi_message p \<noteq> [] \<and> length (pi_message p) \<le> 4096 \<and>
    fits_option (pi_title p) \<and> fits_option (pi_click p) \<and> length (join_with '','' (pi_tags p)) \<le> 4096 \<and>
    (parse_json_publish v = Inr (name, p) \<longrightarrow> name \<noteq> [])"
proof -
  have "\<exists>f. normalize f = Inr p"
    using assms
    by (auto simp: parse_publish_request_def parse_json_publish_def simp del: split_paired_Ex split: if_splits option.splits sum.splits)
  moreover have "parse_json_publish v = Inr (name, p) \<Longrightarrow> name \<noteq> []"
    by (auto simp: parse_json_publish_def split: if_splits option.splits sum.splits)
  ultimately show ?thesis using normalize_fits by (auto simp: fits_def max_message_bytes_def)
qed

definition sample_decoders :: decoders where
  "sample_decoders = \<lparr>de_base64 = (\<lambda>x. x), de_text = (\<lambda>x. x), de_json = (\<lambda>_. None), de_sha = (\<lambda>x. x)\<rparr>"

definition sample_publish_request :: web_request where
  "sample_publish_request =
     \<lparr>wr_headers = [(''title'', ''hi''), (''priority'', ''max'')], wr_query = [], wr_declared = None, wr_body = Some [''on fire'']\<rparr>"

definition sample_input :: publish_input where
  "sample_input = \<lparr>pi_message = ''on fire'', pi_title = Some ''hi'', pi_priority = 5, pi_tags = [], pi_click = None, pi_markdown = False\<rparr>"

lemma sample_parsed: "parse_publish_request sample_decoders sample_publish_request = Inr sample_input"
  by (simp add: parse_publish_request_def sample_publish_request_def sample_decoders_def rejects_delay_def first_header_def read_bytes_def
      max_message_bytes_def text_json_def or_query_def normalize_def sized_values_def too_long_def parse_priority_def Let_def
      priority_names_def lower_text_def lower_char_def is_upper_def parse_tags_def parse_markdown_def message_text_def sample_input_def less_char_def less_eq_char_def)

theorem parsed_publication_is_well_formed_witness:
  "pi_priority sample_input \<le> 5 \<and> fits_option (pi_title sample_input)"
  using parsed_publication_is_well_formed[of sample_decoders sample_publish_request sample_input JNull "[]"] sample_parsed by simp

section \<open>What a publication leaves behind\<close>

text \<open>The message of a publication, and the incident it belongs to.\<close>

definition stores :: "topic_row \<Rightarrow> publish_input \<Rightarrow> ident \<Rightarrow> seconds \<Rightarrow> ident option \<Rightarrow> db \<Rightarrow> db \<Rightarrow> bool" where
  "stores t p mid now inc s s' \<longleftrightarrow>
     messages s' = messages s @
       [\<lparr>m_id = mid, m_topic_id = t_id t, m_incident_id = inc, m_title = publish_title t p, m_body = pi_message p,
         m_priority = pi_priority p, m_tags = pi_tags p, m_click = pi_click p, m_markdown = pi_markdown p, m_created_at = now\<rparr>] \<and>
     inc = (if pi_priority p = 5 \<and> t_critical t then map_option i_id (active_of_topic s' (t_id t)) else None) \<and>
     (pi_priority p = 5 \<and> t_critical t \<longrightarrow> inc \<noteq> None)"

text \<open>The interface of the dispatch the publishing routes rely on: it pushes, and what it writes are the tokens and hosts of
  devices, never a message, an incident or a topic.\<close>

locale delivery =
  fixes deliver :: deliver
  assumes keeps_messages: "messages (fst (deliver evs s)) = messages s"
    and keeps_incidents: "incidents (fst (deliver evs s)) = incidents s"
begin

lemma active_kept: "active_of_topic (fst (deliver evs s)) tid = active_of_topic s tid"
  by (simp add: active_of_topic_def keeps_incidents)

lemma stores_delivered: "stores t p mid now inc s s1 \<Longrightarrow> stores t p mid now inc s (fst (deliver evs s1))"
  unfolding stores_def keeps_messages active_kept .

end



text \<open>The dispatcher provides it, for a dispatch with no other request in between.\<close>

definition quiet :: "'w push_env \<Rightarrow> 'w push_env" where
  "quiet env = env\<lparr>pe_meanwhile := (\<lambda>_ s. s)\<rparr>"

definition local_deliver :: "'w push_env \<Rightarrow> 'w \<Rightarrow> deliver" where
  "local_deliver env w evs s = (case dispatch env evs w s of (st, delivered, failed) \<Rightarrow> (dp_db st, DispatchDone delivered failed))"

definition keeps_alarms :: "db \<Rightarrow> db \<Rightarrow> bool" where
  "keeps_alarms s s' \<longleftrightarrow> messages s' = messages s \<and> incidents s' = incidents s \<and> topics s' = topics s \<and> timers s' = timers s \<and> counters s' = counters s"

lemma keeps_alarms_refl: "keeps_alarms s s"
  by (simp add: keeps_alarms_def)

lemma keeps_alarms_trans: "keeps_alarms s s1 \<Longrightarrow> keeps_alarms s1 s2 \<Longrightarrow> keeps_alarms s s2"
  by (simp add: keeps_alarms_def)

lemma settle_alarm_keeps: "keeps_alarms (dp_db st) (dp_db (settle_alarm d a st))"
  by (auto simp: keeps_alarms_def settle_alarm_def remember_apns_environment_def forget_alarm_token_def Let_def split: send_answer.split)

lemma send_alarm_keeps: "keeps_alarms (dp_db st) (dp_db (send_alarm (quiet env) ev d st))"
proof -
  obtain w a where "sender_for (quiet env) d d ev (dp_senders st) = (w, a)" by fastforce
  then show ?thesis
    using settle_alarm_keeps[of "st\<lparr>dp_senders := w, dp_calls := dp_calls st @ [AlarmCall d ev a], dp_db := dp_db st\<rparr>" d a]
    by (simp add: send_alarm_def quiet_def)
qed

lemma send_live_keeps: "keeps_alarms (dp_db st) (dp_db (send_live (quiet env) send p st))"
  by (auto simp: keeps_alarms_def send_live_def quiet_def forget_live_token_def Let_def split: prod.split send_answer.split)

lemma fold_keeps: "(\<And>x st. keeps_alarms (dp_db st) (dp_db (f x st))) \<Longrightarrow> keeps_alarms (dp_db st) (dp_db (fold f xs st))"
  by (induction xs arbitrary: st) (auto intro: keeps_alarms_refl keeps_alarms_trans)

lemma dispatch_event_keeps: "keeps_alarms (dp_db st) (dp_db (dispatch_event (quiet env) ev st))"
proof (cases "owning_account (dp_db st) ev")
  case (Some acc)
  have "keeps_alarms (dp_db st) (dp_db (send_to_devices (quiet env) ev acc st))"
    unfolding send_to_devices_def by (rule fold_keeps[OF send_alarm_keeps])
  moreover have "keeps_alarms (dp_db st') (dp_db (update_live_activities (quiet env) ev acc st'))" for st'
    by (auto simp: update_live_activities_def Let_def keeps_alarms_refl intro!: fold_keeps[OF send_live_keeps] split: option.split)
  ultimately show ?thesis using Some keeps_alarms_trans by (simp add: dispatch_event_def)
qed (simp add: dispatch_event_def keeps_alarms_refl)

lemma local_deliver_keeps: "keeps_alarms s (fst (local_deliver (quiet env) w evs s))"
proof -
  have "keeps_alarms s (dp_db (dispatch_events (quiet env) evs \<lparr>dp_db = s, dp_senders = w, dp_calls = [], dp_delivered = 0, dp_failed = 0\<rparr>))"
    unfolding dispatch_events_def
    using fold_keeps[OF dispatch_event_keeps, of "\<lparr>dp_db = s, dp_senders = w, dp_calls = [], dp_delivered = 0, dp_failed = 0\<rparr>"] by simp
  then show ?thesis by (simp add: local_deliver_def dispatch_def Let_def)
qed

interpretation pushing: delivery "local_deliver (quiet env) w" for env :: "'w push_env" and w :: 'w
  by unfold_locales (simp_all add: local_deliver_keeps[unfolded keeps_alarms_def])


text \<open>Storing, before the dispatch: the message is the last one, and an alarm's incident is the active one of its topic.\<close>

lemma touch_simps [simp]: "i_topic_id (touch now i) = i_topic_id i" "active (touch now i) = active i" "i_id (touch now i) = i_id i"
  by (simp_all add: touch_def active_def)

lemma active_after_touch:
  "active_of_topic s tid = Some i \<Longrightarrow> active_of_topic (set_incident (i_id i) (touch now) s) tid = Some (touch now i)"
  unfolding active_of_topic_def set_incident_def by (simp add: find_upd_where)

lemma active_after_open:
  assumes "active_of_topic s tid = None" "i_topic_id i = tid" "active i"
  shows "active_of_topic (s\<lparr>incidents := incidents s @ [i]\<rparr>) tid = Some i"
  using assms by (simp add: active_of_topic_def find_append)

text \<open>The events of a publication are about its topic and its message.\<close>

definition events_of :: "topic_row \<Rightarrow> publish_input \<Rightarrow> ident \<Rightarrow> ident option \<Rightarrow> delivery_event list \<Rightarrow> bool" where
  "events_of t p mid inc evs \<longleftrightarrow>
     (if pi_priority p < 4 then evs = []
      else \<exists>e. evs = [e] \<and> e_topic_hash e = t_topic_hash t \<and> e_topic e = t_name t \<and> e_server e = t_base_url t \<and> e_message_id e = mid \<and>
        e_incident_id e = inc \<and> e_priority e = pi_priority p \<and> e_title e = publish_title t p \<and> e_body e = pi_message p \<and> e_account_id e = None \<and>
        (e_relay_content e = Some ContentFull \<longleftrightarrow> t_relay_content t = ContentFull) \<and>
        (e_kind e = EvP4 \<longleftrightarrow> pi_priority p = 4) \<and> (e_kind e = EvOpen \<longrightarrow> inc \<noteq> None \<and> e_critical e) \<and> e_kind e \<in> {EvP4, EvP5, EvOpen})"

text \<open>The step of a publication that is not refused: the charge of a heads-up, and the storing.\<close>

definition charged_for :: "publish_env \<Rightarrow> topic_row \<Rightarrow> publish_input \<Rightarrow> db \<Rightarrow> db" where
  "charged_for env t p s =
     (if is_heads_up t p \<and> pv_mode env \<noteq> SelfHostedMode then fst (charge_p4 (pv_charged_at env) (t_account_id t) s) else s)"

definition stored_by :: "publish_env \<Rightarrow> topic_row \<Rightarrow> publish_input \<Rightarrow> db \<Rightarrow> db \<times> publish_response \<times> delivery_event list" where
  "stored_by env t p s =
     (if pi_priority p = 5 \<and> t_critical t then publish_alarm (pv_now env) (pv_ids env) t p (charged_for env t p s)
      else publish_standard (pv_now env) (n_message (pv_ids env)) t p (charged_for env t p s))"

lemma publish_alarm_stores:
  assumes "publish_alarm now ids t p s = (s', answer, evs)" "pi_priority p = 5" "t_critical t"
  shows "\<exists>inc. stores t p (n_message ids) now inc s s' \<and> answer = publish_answer t p (n_message ids) now inc \<and>
    events_of t p (n_message ids) inc evs"
proof -
  let ?c = "critical_input t p"
  obtain m inc where pub: "publish_critical now ids ?c s = (s', m, inc, evs)"
    using assms(1) by (auto simp: publish_alarm_def split: prod.splits)
  have m: "m = critical_message now ids ?c (i_id inc)" "messages s' = messages s @ [m]"
    using pub by (auto simp: publish_critical_def Let_def set_incident_def insert_timer_def split: option.splits)
  have "active_of_topic s' (t_id t) = Some inc"
  proof (cases "active_of_topic s (t_id t)")
    case None
    have "active (new_incident now ids ?c)" "i_topic_id (new_incident now ids ?c) = t_id t"
      by (simp_all add: new_incident_def active_def critical_input_def)
    from active_after_open[OF None this(2,1)] show ?thesis
      using None pub by (auto simp: publish_critical_def Let_def critical_input_def insert_timer_def active_of_topic_def)
  next
    case (Some i)
    from active_after_touch[OF this, of now] show ?thesis
      using Some pub by (auto simp: publish_critical_def Let_def critical_input_def active_of_topic_def)
  qed
  moreover have "events_of t p (n_message ids) (Some (i_id inc)) evs"
    using pub assms(2) by (auto simp: events_of_def publish_critical_def Let_def make_event_def critical_message_def critical_input_def full_only_def)
  ultimately show ?thesis
    using m assms pub
    by (intro exI[of _ "Some (i_id inc)"]) (simp add: stores_def critical_message_def critical_input_def publish_alarm_def)
qed

lemma publish_standard_stores:
  assumes "publish_standard now mid t p s = (s', answer, evs)" "\<not> (pi_priority p = 5 \<and> t_critical t)"
  shows "stores t p mid now None s s' \<and> answer = publish_answer t p mid now None \<and> events_of t p mid None evs"
  using assms by (auto simp: stores_def events_of_def publish_standard_def standard_message_def standard_events_def)

lemma charge_keeps: "messages (fst (charge_p4 now acc s)) = messages s \<and> incidents (fst (charge_p4 now acc s)) = incidents s"
  by (simp add: charge_p4_def Let_def)

lemma stored_by_usage:
  "stored_by env t p s = (s1, answer, evs) \<Longrightarrow> usage_at s1 acc day = usage_at (charged_for env t p s) acc day"
  by (auto simp: stored_by_def publish_alarm_def publish_standard_def publish_critical_def usage_at_def Let_def set_incident_def insert_timer_def
      split: if_splits option.splits)

lemma stored_by_stores:
  assumes "stored_by env t p s = (s1, answer, evs)"
  shows "\<exists>inc. stores t p (n_message (pv_ids env)) (pv_now env) inc s s1 \<and>
    answer = publish_answer t p (n_message (pv_ids env)) (pv_now env) inc \<and> events_of t p (n_message (pv_ids env)) inc evs"
proof -
  have "messages (charged_for env t p s) = messages s" by (simp add: charged_for_def charge_keeps)
  then have same: "stores t p mid now inc (charged_for env t p s) s1 = stores t p mid now inc s s1" for mid now inc
    by (simp add: stores_def)
  show ?thesis
  proof (cases "pi_priority p = 5 \<and> t_critical t")
    case True
    with assms have "publish_alarm (pv_now env) (pv_ids env) t p (charged_for env t p s) = (s1, answer, evs)" by (simp add: stored_by_def)
    from publish_alarm_stores[OF this] True show ?thesis by (simp add: same)
  next
    case False
    then have "publish_standard (pv_now env) (n_message (pv_ids env)) t p (charged_for env t p s) = (s1, answer, evs)"
      using assms unfolding stored_by_def if_not_P[OF False] by -
    from publish_standard_stores[OF this False] show ?thesis unfolding same by blast
  qed
qed

text \<open>C3: What a publication leaves behind and answers.  It is refused exactly when it is a heads-up on a
  relay or a hosted server whose account has used up its daily allowance, and then nothing has changed; an alarm is never refused.
  In every other case, whatever becomes of the pushes, one message with what was published is stored as the newest, and an alarm's
  message belongs to the incident that is now active for the topic; the account is charged for a heads-up and for nothing else; from
  priority 4 on there is one event about this message, and the database is the one its dispatch leaves, taken after the message was stored.  The
  caller is told that it failed exactly when that dispatch tried some push and none was accepted, and is otherwise answered
  with the stored message and its incident.\<close>

theorem publish_contract:
  assumes deliver: "pv_deliver env = local_deliver (quiet penv) w"
    and result: "publish_message env t p s = (s', out)"
  shows "(out = CapExceeded \<longleftrightarrow> is_heads_up t p \<and> pv_mode env \<noteq> SelfHostedMode \<and>
            p4_cap s (t_account_id t) \<le> usage_at s (t_account_id t) (day_start (pv_charged_at env))) \<and>
    (out = CapExceeded \<longrightarrow> s' = s) \<and>
    (out \<noteq> CapExceeded \<longrightarrow>
       (\<exists>s1 answer evs inc. stored_by env t p s = (s1, answer, evs) \<and>
          stores t p (n_message (pv_ids env)) (pv_now env) inc s s1 \<and> stores t p (n_message (pv_ids env)) (pv_now env) inc s s' \<and>
          events_of t p (n_message (pv_ids env)) inc evs \<and> answer = publish_answer t p (n_message (pv_ids env)) (pv_now env) inc \<and>
          s' = (if evs = [] then s1 else fst (pv_deliver env evs s1)) \<and>
          out = (if evs \<noteq> [] \<and> (\<exists>n > 0. snd (pv_deliver env evs s1) = DispatchDone 0 (Some n)) then DeliveryFailed else Published answer) \<and>
          (\<forall>acc day. usage_at s1 acc day = usage_at s acc day +
             (if is_heads_up t p \<and> pv_mode env \<noteq> SelfHostedMode \<and> acc = t_account_id t \<and> day = day_start (pv_charged_at env) then 1 else 0))))"
  (is "_ \<and> _ \<and> (_ \<longrightarrow> (\<exists>s1 answer evs inc. ?stored s1 answer evs inc))")
proof -
  let ?charge = "is_heads_up t p \<and> pv_mode env \<noteq> SelfHostedMode"
  let ?ok = "?charge \<longrightarrow> snd (charge_p4 (pv_charged_at env) (t_account_id t) s)"
  obtain s1 answer evs where pub: "stored_by env t p s = (s1, answer, evs)" by (metis prod_cases3)
  obtain s2 res where del: "pv_deliver env evs s1 = (s2, res)" by fastforce
  have outs: "publish_message env t p s = (if \<not> ?ok then (s, CapExceeded) else if evs = [] then (s1, Published answer)
      else (s2, if every_push_failed res then DeliveryFailed else Published answer))"
  proof -
    have charged: "(if ?charge then charge_p4 (pv_charged_at env) (t_account_id t) s else (s, True)) = (charged_for env t p s, ?ok)"
      by (auto simp: charged_for_def prod_eq_iff)
    show ?thesis unfolding publish_message_def Let_def charged snd_conv fst_conv using pub[unfolded stored_by_def] del by simp
  qed
  have cap: "\<not> ?ok \<longleftrightarrow> ?charge \<and> p4_cap s (t_account_id t) \<le> usage_at s (t_account_id t) (day_start (pv_charged_at env))"
    using charge_p4_accepts[of "pv_charged_at env" "t_account_id t" s] by auto
  obtain inc where inc: "stores t p (n_message (pv_ids env)) (pv_now env) inc s s1"
    "answer = publish_answer t p (n_message (pv_ids env)) (pv_now env) inc" "events_of t p (n_message (pv_ids env)) inc evs"
    using stored_by_stores[OF pub] by blast
  have s2: "stores t p (n_message (pv_ids env)) (pv_now env) inc s s2"
    using pushing.stores_delivered[OF inc(1), of penv w evs] del deliver by simp
  have failed: "every_push_failed res \<longleftrightarrow> (\<exists>n > 0. res = DispatchDone 0 (Some n))"
    using del deliver by (auto simp: every_push_failed_def local_deliver_def split: option.splits prod.splits)
  have usage: "usage_at s1 acc day = usage_at s acc day + (if ?charge \<and> acc = t_account_id t \<and> day = day_start (pv_charged_at env) then 1 else 0)"
    if ?ok for acc day
    using that usage_charge_p4[of "pv_charged_at env" "t_account_id t" s acc day] stored_by_usage[OF pub, of acc day]
    by (auto simp: charged_for_def)
  show ?thesis
  proof (cases ?ok)
    case True
    with outs result have r: "s' = (if evs = [] then s1 else s2)"
      "out = (if evs \<noteq> [] \<and> every_push_failed res then DeliveryFailed else Published answer)" by (auto split: if_splits)
    with inc(1) s2 have st: "stores t p (n_message (pv_ids env)) (pv_now env) inc s s'" by simp
    have "s' = (if evs = [] then s1 else fst (pv_deliver env evs s1))" using r(1) del by simp
    moreover have "out = (if evs \<noteq> [] \<and> (\<exists>n > 0. snd (pv_deliver env evs s1) = DispatchDone 0 (Some n)) then DeliveryFailed else Published answer)"
      using r(2) del failed by simp
    moreover have "out \<noteq> CapExceeded" using r(2) by simp
    ultimately have "out \<noteq> CapExceeded \<and> ?stored s1 answer evs inc" using pub inc st usage[OF True] by simp
    then have "out \<noteq> CapExceeded \<and> (\<exists>s1 answer evs inc. ?stored s1 answer evs inc)" by blast
    with cap True show ?thesis by simp
  next
    case False
    with outs result have "s' = s" "out = CapExceeded" by simp_all
    with False cap show ?thesis by blast
  qed
qed

subsection \<open>Witnesses\<close>

definition sample_publish_topic :: topic_row where
  "sample_publish_topic =
     \<lparr>t_id = ''top'', t_account_id = ''acc'', t_name = ''t'', t_base_url = ''https://a'', t_topic_hash = ''h'', t_critical = True,
      t_repeat_interval_s = 30, t_max_ring_s = 600, t_desk_timer_s = 900, t_relay_content = ContentNone, t_created_at = 0, t_relay_name = None\<rparr>"

definition sample_publish_env :: publish_env where
  "sample_publish_env =
     \<lparr>pv_mode = HostedMode, pv_charged_at = 10, pv_now = 10,
      pv_ids = \<lparr>n_message = ''m'', n_incident = ''i'', n_timer1 = ''x'', n_timer2 = ''y''\<rparr>,
      pv_deliver = local_deliver (quiet sample_push_env) ()\<rparr>"

theorem publish_contract_witness:
  "\<exists>m. messages (fst (publish_message sample_publish_env sample_publish_topic sample_input sample_push_db)) = [m] \<and> m_body m = ''on fire'' \<and>
     m_incident_id m \<noteq> None"
proof -
  obtain s' out where run: "publish_message sample_publish_env sample_publish_topic sample_input sample_push_db = (s', out)" by fastforce
  have d: "pv_deliver sample_publish_env = local_deliver (quiet sample_push_env) ()" by (simp add: sample_publish_env_def)
  have sample: "\<not> is_heads_up sample_publish_topic sample_input" "messages sample_push_db = []" "pi_message sample_input = ''on fire''"
      "pi_priority sample_input = 5 \<and> t_critical sample_publish_topic"
    by (simp_all add: is_heads_up_def sample_input_def sample_publish_topic_def sample_push_db_def empty_db_def)
  note c = publish_contract[OF d run]
  from c sample(1) have "out \<noteq> CapExceeded" by simp
  with c obtain inc where "stores sample_publish_topic sample_input (n_message (pv_ids sample_publish_env)) (pv_now sample_publish_env) inc sample_push_db s'"
    by blast
  with sample(2-4) run show ?thesis by (auto simp: stores_def)
qed

definition sample_message :: "ident \<Rightarrow> seconds \<Rightarrow> message_row" where
  "sample_message mid at = standard_message at mid sample_publish_topic sample_input"

definition sample_messages :: "message_row list \<Rightarrow> db" where
  "sample_messages ms = empty_db\<lparr>messages := ms\<rparr>"

theorem poll_goes_on_witness:
  "poll_rows (SinceMessage ''a'') ''top'' None (sample_messages [sample_message ''a'' 1, sample_message ''b'' 1]) = [sample_message ''b'' 1]"
proof -
  have "poll_rows SinceAll ''top'' None (sample_messages [sample_message ''a'' 1]) = [] @ [sample_message ''a'' 1]"
    by (simp add: poll_rows_def select_messages_def sample_messages_def numbered_def sample_message_def standard_message_def
        sample_publish_topic_def window_of_def)
  from poll_goes_on[OF this, of "sample_messages [sample_message ''a'' 1, sample_message ''b'' 1]" "[sample_message ''b'' 1]" None]
  show ?thesis by (simp add: sample_messages_def sample_message_def standard_message_def sample_publish_topic_def window_of_def)
qed

subsection \<open>A priority that cannot be printed\<close>

text \<open>\<open>String(value)\<close> of an object with a field \<open>toString\<close> throws a \<open>TypeError\<close>, which no route expects: before any
  token is checked, \<open>POST /\<close> answers 500 to such a body where every other bad priority is a 400.\<close>

theorem unprintable_priority_is_a_fault:
  assumes "\<not> rejects_delay r" "fst (read_bytes max_message_bytes (wr_declared r) (wr_body r)) = Some bytes"
    and "de_json de (de_text de bytes) =
           Some (JObj [(''topic'', JText ''t''), (''priority'', JObj [(''toString'', JInt 1)])])"
  shows "post_root de env r s = (s, PublishFault)"
  using assms
  by (simp add: post_root_def json_value_def parse_json_publish_def text_field_def json_fields_def normalize_def sized_values_def too_long_def
      parse_priority_def reply_of_error_def)

theorem unprintable_priority_is_a_fault_witness:
  "snd (post_root (sample_decoders\<lparr>de_json := (\<lambda>_. Some (JObj [(''topic'', JText ''t''), (''priority'', JObj [(''toString'', JInt 1)])]))\<rparr>)
     sample_publish_env (sample_publish_request\<lparr>wr_headers := []\<rparr>) empty_db) = PublishFault"
  using unprintable_priority_is_a_fault[of "sample_publish_request\<lparr>wr_headers := []\<rparr>" "''on fire''"
      "sample_decoders\<lparr>de_json := (\<lambda>_. Some (JObj [(''topic'', JText ''t''), (''priority'', JObj [(''toString'', JInt 1)])]))\<rparr>"
      sample_publish_env empty_db]
  by (simp add: rejects_delay_def first_header_def sample_publish_request_def read_bytes_def max_message_bytes_def sample_decoders_def)

end
