(* ===== verification/Relay.thy ===== *)
theory Relay
  imports Ingress Address Stats
begin

section \<open>The relay: registration, proof of a base URL, and pushes from other servers\<close>

text \<open>
  \<open>src/src/relay/router.ts\<close>, \<open>challenge.ts\<close>, \<open>hash.ts\<close>, \<open>host.ts\<close> and the answer to a challenge of \<open>src/src/v1/router.ts\<close>.
  A server that wants to push through the relay registers its base URL with a challenge; the relay calls back to that
  address and issues a key when the answer carries the challenge and names this relay. With the key the server
  pushes the topics of its own base URL to the devices subscribed to them.

  SHA-256, name resolution, the HTTPS exchange, the URL parser and the fresh keys and ids are parameters. The registration route awaits the
  confirmation, and other registrations run meanwhile: it is two steps here, with the pending registration in between.
\<close>

subsection \<open>Names\<close>

definition topic_hash :: "(string \<Rightarrow> string) \<Rightarrow> string \<Rightarrow> string \<Rightarrow> string" where
  "topic_hash sha base topic = sha (base @ ''/'' @ topic)"

text \<open>\<open>url_host\<close> is the \<open>host\<close> of \<open>new URL(..)\<close>, \<^term>\<open>None\<close> when the constructor throws.\<close>

definition relay_host :: "(string \<Rightarrow> string option) \<Rightarrow> string \<Rightarrow> string option" where
  "relay_host url_host url = (case url_host url of None \<Rightarrow> None | Some h \<Rightarrow> if h = [] then None else Some (lower_text h))"

text \<open>\<open>length\<close> of a JavaScript string counts UTF-16 units: a character has two when its UTF-8 form has four bytes.\<close>

definition units_of_byte :: "char \<Rightarrow> nat" where
  "units_of_byte c = (if c < CHR 0x80 then 1 else if c < CHR 0xC0 then 0 else if c < CHR 0xF0 then 1 else 2)"

definition utf16_length :: "string \<Rightarrow> nat" where
  "utf16_length x = sum_list (map units_of_byte x)"

subsection \<open>The challenge\<close>

text \<open>What the HTTPS request to the base URL gave: no answer in time (or an error), or a status with a body, as the chunks it came in
  and what \<open>JSON.parse\<close> makes of all of it.\<close>

datatype https_answer = NoHttps | HttpsAnswer int "string list" "json option"

definition max_challenge_body :: nat where "max_challenge_body = 1024"

definition challenge_answered :: "string \<Rightarrow> string list \<Rightarrow> https_answer \<Rightarrow> bool" where
  "challenge_answered challenge hosts a =
     (case a of NoHttps \<Rightarrow> False
      | HttpsAnswer status chunks parsed \<Rightarrow>
          status = 200 \<and> sum_list (map length chunks) \<le> max_challenge_body \<and>
          (case parsed of None \<Rightarrow> False
           | Some v \<Rightarrow> is_record v \<and> text_field ''challenge'' v = Some challenge \<and>
               (case text_field ''relay'' v of None \<Rightarrow> False | Some h \<Rightarrow> h \<in> set hosts)))"

text \<open>\<open>resolve\<close> gives the addresses of a host (\<^term>\<open>None\<close> when it throws), \<open>https\<close> asks one address for a path of
  a host. All addresses must be public, and the connection goes to the first of those that were looked at.\<close>

definition confirm_challenge ::
  "(string \<Rightarrow> string list option) \<Rightarrow> (string \<Rightarrow> nat) \<Rightarrow> (string \<Rightarrow> string \<Rightarrow> nat \<Rightarrow> string \<Rightarrow> https_answer)
     \<Rightarrow> string \<Rightarrow> string \<Rightarrow> string list \<Rightarrow> bool" where
  "confirm_challenge resolve is_ip https base challenge hosts =
     (case parse_base_url base of None \<Rightarrow> False
      | Some u \<Rightarrow>
          if hosts = [] then False
          else (case resolve (pu_host u) of
                  None \<Rightarrow> False
                | Some [] \<Rightarrow> False
                | Some (target # others) \<Rightarrow>
                    list_all (is_public_address is_ip) (target # others) \<and>
                    challenge_answered challenge hosts
                      (https target (pu_host u) (pu_port u) (pu_path u @ ''/v1/relay-challenge/'' @ challenge))))"

text \<open>The other side: the challenge a server has out, and its answer (\<open>isRelayChallenge\<close> and the route). The digests of
  the two values are compared.\<close>

definition is_relay_challenge :: "(string \<Rightarrow> string) \<Rightarrow> int \<Rightarrow> (string \<times> int) option \<Rightarrow> string \<Rightarrow> bool" where
  "is_relay_challenge sha now out value =
     (case out of None \<Rightarrow> False | Some (c, expires) \<Rightarrow> if expires \<le> now then False else sha value = sha c)"

definition challenge_route ::
  "(string \<Rightarrow> string) \<Rightarrow> (string \<Rightarrow> string option) \<Rightarrow> server_mode \<Rightarrow> string \<Rightarrow> int \<Rightarrow> (string \<times> int) option \<Rightarrow> string \<Rightarrow> json option" where
  "challenge_route sha url_host md relay_url now out value =
     (case relay_host url_host relay_url of
        Some relay \<Rightarrow>
          if md = SelfHostedMode \<and> is_relay_challenge sha now out value
          then Some (JObj [(''challenge'', JText value), (''relay'', JText relay)]) else None
      | None \<Rightarrow> None)"

subsection \<open>Registration\<close>

record relay_options =
  ro_secret :: "string option"
  ro_closed :: bool
  ro_trust :: proxy_trust
  ro_public_hosts :: "string list"
  ro_is_ip :: "string \<Rightarrow> nat"
  ro_sha :: "string \<Rightarrow> string"

definition registration_window :: rolling_config where
  "registration_window = \<lparr>rc_limit = 5, rc_window = 60, rc_sweep_above = 10000\<rparr>"

definition started_limit :: rolling_config where
  "started_limit = \<lparr>rc_limit = 60, rc_window = 60, rc_sweep_above = 10000\<rparr>"

definition registration_daily_cap :: int where "registration_daily_cap = 20"
definition max_confirmations :: nat where "max_confirmations = 4"

record pending =
  pg_base_url :: string
  pg_version :: string
  pg_challenge :: string

record relay_state =
  ry_db :: db
  ry_clients :: rolling
  ry_secrets :: rolling
  ry_started :: rolling
  ry_in_flight :: nat

definition attempts_on :: "db \<Rightarrow> string \<Rightarrow> seconds \<Rightarrow> int" where
  "attempts_on s client day =
     (case List.find (\<lambda>r. ra_client r = client \<and> ra_day_start r = day) (relay_registration_attempts s) of None \<Rightarrow> 0 | Some r \<Rightarrow> ra_count r)"

definition daily_registration_allowed :: "seconds \<Rightarrow> string \<Rightarrow> db \<Rightarrow> bool" where
  "daily_registration_allowed now client s \<longleftrightarrow> attempts_on s client (day_start now) < registration_daily_cap"

definition record_daily_registration :: "seconds \<Rightarrow> string \<Rightarrow> db \<Rightarrow> db" where
  "record_daily_registration now client s =
     (let day = day_start now
      in s\<lparr>relay_registration_attempts :=
             del_where (\<lambda>r. ra_day_start r < day)
               (upsert (\<lambda>r. ra_client r = client \<and> ra_day_start r = day) (\<lambda>r. r\<lparr>ra_count := ra_count r + 1\<rparr>)
                  \<lparr>ra_client = client, ra_day_start = day, ra_count = 1\<rparr> (relay_registration_attempts s))\<rparr>)"

definition issue_key :: "(string \<Rightarrow> string) \<Rightarrow> seconds \<Rightarrow> ident \<times> string \<Rightarrow> string \<Rightarrow> string \<Rightarrow> db \<Rightarrow> db" where
  "issue_key sha now fresh base version s =
     s\<lparr>relay_servers :=
         del_where (\<lambda>r. rs_base_url r = base \<and> \<not> rs_legacy r) (relay_servers s) @
         [\<lparr>rs_id = fst fresh, rs_base_url = base, rs_version = version, rs_key_hash = sha (snd fresh), rs_created_at = now, rs_legacy = False\<rparr>]\<rparr>"

datatype registration_reply =
    KeyIssued string
  | RegistrationInvalid string
  | RegistrationUnauthorized
  | RegistrationClosed
  | RegistrationLimited
  | ChallengeFailed

text \<open>A request: the headers and the peer, and the body as \<open>readJson\<close> reads it within 4096 bytes.\<close>

record registration_request =
  rq_source :: client_source
  rq_authorization :: "string option"
  rq_body :: json_read

definition is_challenge_text :: "string \<Rightarrow> bool" where
  "is_challenge_text x \<longleftrightarrow> 32 \<le> length x \<and> length x \<le> 128 \<and> list_all is_word_char x"

definition has_operator_secret :: "relay_options \<Rightarrow> registration_request \<Rightarrow> bool" where
  "has_operator_secret opts rq \<longleftrightarrow>
     (case ro_secret opts of None \<Rightarrow> False | Some s \<Rightarrow> s \<noteq> []) \<and>
     (case rq_authorization rq of None \<Rightarrow> False | Some h \<Rightarrow> starts_with ''Bearer '' h)"

definition operator_secret_right :: "relay_options \<Rightarrow> registration_request \<Rightarrow> bool" where
  "operator_secret_right opts rq \<longleftrightarrow>
     bearer_secret_matches (ro_sha opts) (rq_authorization rq) (case ro_secret opts of None \<Rightarrow> [] | Some s \<Rightarrow> s)"

definition registering_client :: "relay_options \<Rightarrow> registration_request \<Rightarrow> string" where
  "registering_client opts rq = client_key (ro_is_ip opts) (ro_sha opts) (client_ip (ro_is_ip opts) (ro_trust opts) (rq_source rq))"

text \<open>The body's base URL and version, checked.\<close>

definition registration_fields :: "json_read \<Rightarrow> (string \<times> string \<times> json) option" where
  "registration_fields body =
     (case body of
        JsonRead v \<Rightarrow>
          (case (text_field ''base_url'' v, text_field ''version'' v) of
             (Some base, Some version) \<Rightarrow>
               if \<not> is_record v \<or> base = [] \<or> 200 < utf16_length version then None else Some (base, version, v)
           | _ \<Rightarrow> None)
      | _ \<Rightarrow> None)"

text \<open>The part before the confirmation: an answer, or a registration to confirm.\<close>

datatype registration_step = Reply registration_reply | Confirming pending

text \<open>The limits, in the order of the condition that asks them: each is asked only when those before it allow. An allowed
  registration counts in all of them and takes a slot.\<close>

definition confirm_slot :: "relay_options \<Rightarrow> seconds \<Rightarrow> string \<Rightarrow> pending \<Rightarrow> relay_state \<Rightarrow> relay_state \<times> registration_step" where
  "confirm_slot opts now client p st =
     (if max_confirmations \<le> ry_in_flight st then (st, Reply RegistrationLimited)
      else (case rolling_allowed started_limit now ''all'' (ry_started st) of (w1, ok1) \<Rightarrow>
              if \<not> ok1 then (st\<lparr>ry_started := w1\<rparr>, Reply RegistrationLimited)
              else (case rolling_allowed registration_window now client (ry_clients st) of (w2, ok2) \<Rightarrow>
                      if \<not> ok2 \<or> \<not> daily_registration_allowed now client (ry_db st)
                      then (st\<lparr>ry_started := w1, ry_clients := w2\<rparr>, Reply RegistrationLimited)
                      else (st\<lparr>ry_clients := rolling_record registration_window now client w2,
                               ry_db := record_daily_registration now client (ry_db st),
                               ry_started := rolling_record started_limit now ''all'' w1,
                               ry_in_flight := Suc (ry_in_flight st)\<rparr>, Confirming p))))"

definition begin_registration ::
  "relay_options \<Rightarrow> seconds \<Rightarrow> ident \<times> string \<Rightarrow> registration_request \<Rightarrow> relay_state \<Rightarrow> relay_state \<times> registration_step" where
  "begin_registration opts now fresh rq st =
     (if has_operator_secret opts rq \<and> \<not> operator_secret_right opts rq
      then (case rolling_allowed registration_window now (registering_client opts rq) (ry_secrets st) of
              (w, False) \<Rightarrow> (st\<lparr>ry_secrets := w\<rparr>, Reply RegistrationLimited)
            | (w, True) \<Rightarrow>
                (st\<lparr>ry_secrets := rolling_record registration_window now (registering_client opts rq) w\<rparr>, Reply RegistrationUnauthorized))
      else if \<not> has_operator_secret opts rq \<and> ro_closed opts then (st, Reply RegistrationClosed)
      else (case registration_fields (rq_body rq) of
              None \<Rightarrow> (st, Reply (RegistrationInvalid ''invalid request''))
            | Some (base, version, v) \<Rightarrow>
                if has_operator_secret opts rq
                then (if 200 < utf16_length base then (st, Reply (RegistrationInvalid ''invalid base_url''))
                      else (st\<lparr>ry_db := issue_key (ro_sha opts) now fresh base version (ry_db st)\<rparr>, Reply (KeyIssued (snd fresh))))
                else (case text_field ''challenge'' v of
                        None \<Rightarrow> (st, Reply (RegistrationInvalid ''invalid request''))
                      | Some challenge \<Rightarrow>
                          if \<not> is_challenge_text challenge then (st, Reply (RegistrationInvalid ''invalid request''))
                          else if parse_base_url base = None then (st, Reply (RegistrationInvalid ''invalid base_url''))
                          else confirm_slot opts now (registering_client opts rq)
                                 \<lparr>pg_base_url = base, pg_version = version, pg_challenge = challenge\<rparr> st)))"

definition end_registration ::
  "relay_options \<Rightarrow> seconds \<Rightarrow> ident \<times> string \<Rightarrow> pending \<Rightarrow> bool \<Rightarrow> relay_state \<Rightarrow> relay_state \<times> registration_reply" where
  "end_registration opts now fresh p confirmed st =
     (let st1 = st\<lparr>ry_in_flight := ry_in_flight st - 1\<rparr>
      in if \<not> confirmed then (st1, ChallengeFailed)
         else (st1\<lparr>ry_db := issue_key (ro_sha opts) now fresh (pg_base_url p) (pg_version p) (ry_db st1)\<rparr>, KeyIssued (snd fresh)))"


section \<open>Pushes from other servers\<close>

text \<open>The body of a push. \<open>topic_hash\<close>, \<open>kind\<close> and \<open>topic\<close> are checked, so they may be any value; the route trusts the
  rest to be as the pushing server writes it.\<close>

record relay_payload =
  rp_topic_hash :: "json option"
  rp_kind :: "json option"
  rp_topic :: "json option"
  rp_incident_id :: "ident option"
  rp_message_id :: ident
  rp_priority :: int
  rp_ring_until :: "seconds option"
  rp_title :: "string option"
  rp_body :: "string option"

definition all_kinds :: "event_kind list" where
  "all_kinds = [EvOpen, EvRepeat, EvReopen, EvP4, EvP5, EvAck, EvClose, EvExpire]"

definition kind_of_text :: "string \<Rightarrow> event_kind option" where
  "kind_of_text x = List.find (\<lambda>k. kind_text k = x) all_kinds"

definition is_heads_up_push :: "event_kind \<Rightarrow> relay_payload \<Rightarrow> bool" where
  "is_heads_up_push k b \<longleftrightarrow> k = EvP5 \<and> (rp_incident_id b = None \<or> rp_incident_id b = Some [])"

definition is_critical_relayed :: "event_kind \<Rightarrow> relay_payload \<Rightarrow> bool" where
  "is_critical_relayed k b \<longleftrightarrow> \<not> is_heads_up_push k b \<and> rp_priority b = 5"

text \<open>The key of the header, and the server it was issued to.\<close>

definition relay_key_of :: "string option \<Rightarrow> string option" where
  "relay_key_of header =
     (let h = (case header of None \<Rightarrow> [] | Some x \<Rightarrow> x); k = drop 7 h
      in if starts_with ''Bearer rk_'' h \<and> drop 3 k \<noteq> [] \<and> list_all is_word_char (drop 3 k) then Some k else None)"

definition server_of_key :: "(string \<Rightarrow> string) \<Rightarrow> string option \<Rightarrow> db \<Rightarrow> (string \<times> relay_server_row) option" where
  "server_of_key sha header s =
     (case relay_key_of header of None \<Rightarrow> None
      | Some k \<Rightarrow> map_option (\<lambda>r. (sha k, r)) (List.find (\<lambda>r. rs_key_hash r = sha k) (relay_servers s)))"

definition is_sha_text :: "string \<Rightarrow> bool" where
  "is_sha_text x \<longleftrightarrow> length x = 64 \<and> list_all (\<lambda>c. is_digit c \<or> (CHR ''a'' \<le> c \<and> c \<le> CHR ''f'')) x"

text \<open>The accounts a push is for: those with a device subscribed to the hash and no topic of their own that has it.\<close>

definition serves_hash :: "db \<Rightarrow> ident \<Rightarrow> string \<Rightarrow> bool" where
  "serves_hash s acc hash \<longleftrightarrow> list_ex (\<lambda>t. t_account_id t = acc \<and> t_topic_hash t = hash) (topics s)"

definition relay_accounts :: "string \<Rightarrow> db \<Rightarrow> ident list" where
  "relay_accounts hash s =
     remdups (concat (map (\<lambda>x. if s_topic_hash x = hash
         then map d_account_id (filter (\<lambda>d. d_id d = s_device_id x \<and> \<not> serves_hash s (d_account_id d) hash) (devices s))
         else []) (subscriptions s)))"

text \<open>\<open>subscribed.filter(chargeP4)\<close>: each account in turn is charged if it can be, at the clock of its turn.\<close>

fun charge_accounts :: "(nat \<Rightarrow> seconds) \<Rightarrow> nat \<Rightarrow> ident list \<Rightarrow> db \<Rightarrow> db \<times> ident list" where
  "charge_accounts clk k [] s = (s, [])"
| "charge_accounts clk k (acc # accs) s =
     (case charge_p4 (clk k) acc s of (s1, ok) \<Rightarrow>
        (case charge_accounts clk (Suc k) accs s1 of (s2, rest) \<Rightarrow> (s2, if ok then acc # rest else rest)))"

definition relayed_event :: "event_kind \<Rightarrow> string \<Rightarrow> relay_payload \<Rightarrow> ident \<Rightarrow> delivery_event" where
  "relayed_event k hash b acc =
     \<lparr>e_kind = k, e_topic_hash = hash, e_topic = [], e_incident_id = rp_incident_id b, e_message_id = rp_message_id b,
      e_priority = rp_priority b, e_max_ring_s = 1800, e_ring_until = rp_ring_until b, e_server = [],
      e_title = (case rp_title b of None \<Rightarrow> ''Crit Alarm'' | Some x \<Rightarrow> x),
      e_body = (case rp_body b of None \<Rightarrow> ''Critical alert'' | Some x \<Rightarrow> x),
      e_critical = is_critical_relayed k b, e_relay_content = None, e_account_id = Some acc\<rparr>"

text \<open>One dispatch per account, the deliveries added up; a dispatch that throws ends the request.\<close>

fun dispatch_accounts :: "deliver \<Rightarrow> (ident \<Rightarrow> delivery_event) \<Rightarrow> ident list \<Rightarrow> nat \<Rightarrow> db \<Rightarrow> db \<times> nat option" where
  "dispatch_accounts deliver ev [] n s = (s, Some n)"
| "dispatch_accounts deliver ev (acc # accs) n s =
     (case deliver [ev acc] s of (s1, res) \<Rightarrow>
        (case res of DispatchThrew \<Rightarrow> (s1, None)
         | DispatchVoid \<Rightarrow> dispatch_accounts deliver ev accs n s1
         | DispatchDone d f \<Rightarrow> dispatch_accounts deliver ev accs (n + d) s1))"

datatype push_reply = PushAccepted | PushUnauthorized | PushInvalid | PushMismatch | PushCapped | PushFaulted

text \<open>What the checks of a body leave: the kind and the hash of the topic, which is one of the server's own.\<close>

definition checked_push :: "(string \<Rightarrow> string) \<Rightarrow> string \<Rightarrow> relay_payload \<Rightarrow> push_reply + event_kind \<times> string" where
  "checked_push sha base b =
     (case (case rp_topic_hash b of None \<Rightarrow> Some ''undefined'' | Some v \<Rightarrow> js_text v) of
        None \<Rightarrow> Inl PushFaulted
      | Some hash_text \<Rightarrow>
          (case (Option.bind (Option.bind (rp_kind b) text_of) kind_of_text, Option.bind (rp_topic b) text_of) of
             (Some k, Some topic) \<Rightarrow>
               if \<not> is_sha_text hash_text \<or> \<not> is_topic_name topic then Inl PushInvalid
               else if rp_topic_hash b \<noteq> Some (JText (topic_hash sha base topic)) then Inl PushMismatch
               else Inr (k, hash_text)
           | _ \<Rightarrow> Inl PushInvalid))"

text \<open>The request: \<open>clk\<close> is the clock by reading (the charges, then the counters). The body is \<^term>\<open>None\<close> when it is too
  large, not JSON or no object.\<close>

definition relay_push ::
  "(string \<Rightarrow> string) \<Rightarrow> (nat \<Rightarrow> seconds) \<Rightarrow> deliver \<Rightarrow> string option \<Rightarrow> relay_payload option \<Rightarrow> db \<Rightarrow> db \<times> push_reply" where
  "relay_push sha clk deliver header body s =
     (case server_of_key sha header s of
        None \<Rightarrow> (s, PushUnauthorized)
      | Some (key_hash, server) \<Rightarrow>
          (case body of None \<Rightarrow> (s, PushInvalid)
           | Some b \<Rightarrow>
               (case checked_push sha (rs_base_url server) b of
                  Inl e \<Rightarrow> (s, e)
                | Inr (k, hash) \<Rightarrow>
                    (let subscribed = relay_accounts hash s;
                         heads_up = (k = EvP4 \<or> is_heads_up_push k b)
                     in case (if heads_up then charge_accounts clk 0 subscribed s else (s, subscribed)) of
                          (s1, accs) \<Rightarrow>
                            if heads_up \<and> subscribed \<noteq> [] \<and> accs = [] then (s1, PushCapped)
                            else (case dispatch_accounts deliver (relayed_event k hash b) accs 0 s1 of
                                    (s2, None) \<Rightarrow> (s2, PushFaulted)
                                  | (s2, Some delivered) \<Rightarrow>
                                      (counter_add (clk (Suc (length subscribed))) key_hash PushesDelivered (int delivered)
                                         (count_events (clk (length subscribed)) key_hash [relayed_event k hash b []] s2), PushAccepted))))))"


subsection \<open>Whom a push may ring\<close>

lemma relay_accounts_iff:
  "acc \<in> set (relay_accounts hash s) \<longleftrightarrow>
     (\<exists>x \<in> set (subscriptions s). \<exists>d \<in> set (devices s). s_topic_hash x = hash \<and> d_id d = s_device_id x \<and> d_account_id d = acc) \<and>
     \<not> serves_hash s acc hash"
  by (auto simp: relay_accounts_def split: if_splits)

lemma charge_accounts_filter:
  "distinct accs \<Longrightarrow> snd (charge_accounts (\<lambda>_. now) k accs s) = filter (\<lambda>acc. usage_at s acc (day_start now) < p4_cap s acc) accs"
proof (induction accs arbitrary: k s)
  case (Cons acc accs)
  let ?s1 = "fst (charge_p4 now acc s)"
  have "usage_at ?s1 acc' (day_start now) = usage_at s acc' (day_start now)" if "acc' \<in> set accs" for acc'
    using that Cons.prems usage_charge_p4[of now acc s acc' "day_start now"] by auto
  then have "snd (charge_accounts (\<lambda>_. now) (Suc k) accs ?s1) = filter (\<lambda>acc. usage_at s acc (day_start now) < p4_cap s acc) accs"
    using Cons by (auto simp: charge_p4_frame p4_cap_cong[of "fst (charge_p4 now acc s)" s] intro: filter_cong)
  with charge_p4_accepts[of now acc s] show ?case by (auto split: prod.split)
qed simp

lemma relayed_targets:
  "d \<in> set (alarm_targets s (relayed_event k hash b acc)) \<Longrightarrow>
     pd_account_id d = acc \<and> (\<exists>r \<in> set (devices s). d_id r = pd_id d \<and> d_account_id r = acc \<and> subscribed_to s hash r)"
  by (auto simp: alarm_targets_def alarm_devices_def subscribed_devices_def owning_account_def relayed_event_def push_device_of_def)

lemma checked_push_refuses: "checked_push sha base b \<noteq> Inl PushAccepted"
  by (auto simp: checked_push_def split: option.splits)

lemma checked_push_replies: "checked_push sha base b \<noteq> Inl PushUnauthorized"
  by (auto simp: checked_push_def split: option.splits)

lemma checked_push_topic:
  assumes "checked_push sha base b = Inr (k, hash)"
  shows "\<exists>topic. hash = topic_hash sha base topic \<and> rp_topic b = Some (JText topic)"
  using assms
  by (auto simp: checked_push_def Option.bind_eq_Some_conv split: option.splits if_splits)

lemma charge_accounts_fold:
  "fst (charge_accounts (\<lambda>_. now) k accs s) = fold (\<lambda>acc s. fst (charge_p4 now acc s)) (snd (charge_accounts (\<lambda>_. now) k accs s)) s"
proof (induction accs arbitrary: k s)
  case (Cons acc accs)
  have "\<not> snd (charge_p4 now acc s) \<Longrightarrow> fst (charge_p4 now acc s) = s" by (auto simp: charge_p4_def Let_def)
  with Cons[of "Suc k" "fst (charge_p4 now acc s)"] show ?case by (auto split: prod.split)
qed simp

lemma checked_push_kind:
  assumes "checked_push sha base b = Inr (k, hash)"
  shows "rp_kind b = Some (JText (kind_text k)) \<and> rp_topic_hash b = Some (JText hash)"
proof -
  have as_text: "x = JText y" if "text_of x = Some y" for x y using that by (cases x) simp_all
  have of_kind: "kind_text k = y" if "kind_of_text y = Some k" for y using that by (auto simp: kind_of_text_def dest: find_SomeD)
  show ?thesis
    using assms by (auto simp: checked_push_def Option.bind_eq_Some_conv split: option.splits if_splits dest!: as_text of_kind)
qed

text \<open>What one dispatch to each account in turn leaves, and how many pushes were accepted.\<close>

definition accepted_by :: "dispatch_outcome \<Rightarrow> nat" where
  "accepted_by res = (case res of DispatchDone d f \<Rightarrow> d | _ \<Rightarrow> 0)"

definition one_dispatch_each :: "deliver \<Rightarrow> (ident \<Rightarrow> delivery_event) \<Rightarrow> ident list \<Rightarrow> db \<Rightarrow> db \<Rightarrow> nat \<Rightarrow> bool" where
  "one_dispatch_each deliver ev accs s s' n \<longleftrightarrow>
     (\<exists>dbs rs. length dbs = Suc (length accs) \<and> length rs = length accs \<and> dbs ! 0 = s \<and> dbs ! length accs = s' \<and>
        (\<forall>j < length accs. deliver [ev (accs ! j)] (dbs ! j) = (dbs ! Suc j, rs ! j) \<and> rs ! j \<noteq> DispatchThrew) \<and>
        n = sum_list (map accepted_by rs))"

lemma one_dispatch_Cons:
  assumes "deliver [ev acc] s = (s1, res)" "res \<noteq> DispatchThrew" "one_dispatch_each deliver ev accs s1 s' n"
  shows "one_dispatch_each deliver ev (acc # accs) s s' (accepted_by res + n)"
proof -
  from assms(3) obtain dbs rs where d: "length dbs = Suc (length accs)" "length rs = length accs" "dbs ! 0 = s1" "dbs ! length accs = s'"
    "\<And>j. j < length accs \<Longrightarrow> deliver [ev (accs ! j)] (dbs ! j) = (dbs ! Suc j, rs ! j) \<and> rs ! j \<noteq> DispatchThrew"
    "n = sum_list (map accepted_by rs)" unfolding one_dispatch_each_def by blast
  have "deliver [ev ((acc # accs) ! j)] ((s # dbs) ! j) = ((s # dbs) ! Suc j, (res # rs) ! j) \<and> (res # rs) ! j \<noteq> DispatchThrew"
    if "j < length (acc # accs)" for j
    using that assms(1,2) d(3) d(5)[of "j - 1"] by (cases j) auto
  then show ?thesis unfolding one_dispatch_each_def using d by (intro exI[of _ "s # dbs"] exI[of _ "res # rs"]) simp
qed

lemma dispatch_accounts_each:
  "dispatch_accounts deliver ev accs m s = (s', Some n) \<Longrightarrow> m \<le> n \<and> one_dispatch_each deliver ev accs s s' (n - m)"
proof (induction accs arbitrary: m s)
  case Nil
  then show ?case by (auto simp: one_dispatch_each_def intro: exI[of _ "[s]"])
next
  case (Cons acc accs)
  obtain s1 res where r: "deliver [ev acc] s = (s1, res)" by fastforce
  then have res: "res \<noteq> DispatchThrew" and rest: "dispatch_accounts deliver ev accs (m + accepted_by res) s1 = (s', Some n)"
    using Cons.prems by (auto simp: accepted_by_def split: dispatch_outcome.splits)
  from Cons.IH[OF rest] have "m + accepted_by res \<le> n" "one_dispatch_each deliver ev accs s1 s' (n - (m + accepted_by res))" by simp_all
  with one_dispatch_Cons[OF r res this(2)] show ?case by simp
qed

text \<open>C10: A relay key rings nobody it should not, and does nothing else.  A push without the key of a registered server is unauthorized, and one that is
  refused for that, for its body, for its topic or for the daily caps changes nothing.  A push that is accepted is for a topic of
  that server's own base URL; it is dispatched exactly once for each account with a device subscribed to the hash, but for no
  account that has a topic of that hash itself; of a heads-up the accounts hear, and are charged, that are under their daily cap, each on its own;
  the dispatch for an account rings only devices of that account which are subscribed to the hash; and the database is
  the one these dispatches leave, with the pushes that were accepted and the event counted for the key.\<close>

theorem relay_push_reaches_subscribers:
  assumes clock: "\<And>k. clk k = now" and result: "relay_push sha clk deliver header body s = (s', reply)"
  shows "(reply = PushUnauthorized \<longleftrightarrow> \<not> (\<exists>key. relay_key_of header = Some key \<and> (\<exists>server \<in> set (relay_servers s). rs_key_hash server = sha key))) \<and>
    (reply \<noteq> PushAccepted \<and> reply \<noteq> PushFaulted \<longrightarrow> s' = s) \<and>
    (reply = PushAccepted \<longrightarrow>
      (\<exists>b server key k topic accs s1 s2 n.
        body = Some b \<and> server \<in> set (relay_servers s) \<and> relay_key_of header = Some key \<and> rs_key_hash server = sha key \<and>
        (let hash = topic_hash sha (rs_base_url server) topic; heads_up = k = EvP4 \<or> is_heads_up_push k b in
          rp_topic b = Some (JText topic) \<and> rp_topic_hash b = Some (JText hash) \<and> rp_kind b = Some (JText (kind_text k)) \<and>
          distinct accs \<and>
          set accs = {acc. (\<exists>x \<in> set (subscriptions s). \<exists>d \<in> set (devices s). s_topic_hash x = hash \<and> d_id d = s_device_id x \<and> d_account_id d = acc) \<and>
                           \<not> serves_hash s acc hash \<and> (heads_up \<longrightarrow> usage_at s acc (day_start now) < p4_cap s acc)} \<and>
          s1 = (if heads_up then fold (\<lambda>acc s. fst (charge_p4 now acc s)) accs s else s) \<and>
          one_dispatch_each deliver (relayed_event k hash b) accs s1 s2 n \<and>
          s' = counter_add now (sha key) PushesDelivered (int n) (count_events now (sha key) [relayed_event k hash b []] s2) \<and>
          (\<forall>acc \<in> set accs. \<forall>db. \<forall>d \<in> set (alarm_targets db (relayed_event k hash b acc)).
             pd_account_id d = acc \<and>
             (\<exists>r \<in> set (devices db). d_id r = pd_id d \<and> d_account_id r = acc \<and> subscribed_to db hash r)))))"
    (is "?unauthorized \<and> ?kept \<and> (_ \<longrightarrow> (\<exists>b server key k topic accs s1 s2 n. ?accepted b server key k topic accs s1 s2 n))")
proof -
  have clk: "clk = (\<lambda>_. now)" using clock by (rule ext)
  have key: "server_of_key sha header s = None \<longleftrightarrow>
      \<not> (\<exists>key. relay_key_of header = Some key \<and> (\<exists>server \<in> set (relay_servers s). rs_key_hash server = sha key))"
    by (auto simp: server_of_key_def find_None_iff split: option.splits)
  show ?thesis
  proof (cases "server_of_key sha header s")
    case None
    then have "s' = s" "reply = PushUnauthorized" using result by (simp_all add: relay_push_def)
    with key None show ?thesis by simp
  next
    case (Some found)
    then obtain key server where server: "server_of_key sha header s = Some (sha key, server)" "server \<in> set (relay_servers s)"
        "relay_key_of header = Some key" "rs_key_hash server = sha key"
      by (auto simp: server_of_key_def split: option.splits dest: find_SomeD)
    have no: "reply \<noteq> PushUnauthorized" "reply = PushAccepted \<Longrightarrow> body \<noteq> None"
      using result checked_push_replies by (auto simp: relay_push_def server(1) Let_def split: option.splits sum.splits prod.splits if_splits)
    then have unauthorized: ?unauthorized using key server(1) by simp
    show ?thesis
    proof (cases "\<exists>b k hash. body = Some b \<and> checked_push sha (rs_base_url server) b = Inr (k, hash)")
      case False
      then have "s' = s" "reply \<noteq> PushAccepted"
        using result checked_push_refuses by (auto simp: relay_push_def server(1) split: option.splits sum.splits)
      with unauthorized show ?thesis by simp
    next
      case True
      then obtain b k hash where b: "body = Some b" "checked_push sha (rs_base_url server) b = Inr (k, hash)" by blast
      obtain topic where topic: "hash = topic_hash sha (rs_base_url server) topic" "rp_topic b = Some (JText topic)"
        using checked_push_topic[OF b(2)] by blast
      define heads_up where "heads_up \<longleftrightarrow> k = EvP4 \<or> is_heads_up_push k b"
      obtain s1 accs where charged: "(if heads_up then charge_accounts clk 0 (relay_accounts hash s) s else (s, relay_accounts hash s)) = (s1, accs)"
        by fastforce
      have "accs = (if heads_up then filter (\<lambda>acc. usage_at s acc (day_start now) < p4_cap s acc) (relay_accounts hash s) else relay_accounts hash s)"
        using charged charge_accounts_filter[of "relay_accounts hash s" now 0 s] by (auto simp: clk relay_accounts_def split: if_splits)
      then have accs: "distinct accs" "set accs = {acc \<in> set (relay_accounts hash s). heads_up \<longrightarrow> usage_at s acc (day_start now) < p4_cap s acc}"
        by (auto simp: relay_accounts_def)
      have s1: "s1 = (if heads_up then fold (\<lambda>acc s. fst (charge_p4 now acc s)) accs s else s)"
        using charged charge_accounts_fold[of now 0 "relay_accounts hash s" s] by (auto simp: clk split: if_splits)
      have run: "(s', reply) = (if heads_up \<and> relay_accounts hash s \<noteq> [] \<and> accs = [] then (s1, PushCapped)
          else (case dispatch_accounts deliver (relayed_event k hash b) accs 0 s1 of
                  (s2, None) \<Rightarrow> (s2, PushFaulted)
                | (s2, Some n) \<Rightarrow> (counter_add now (sha key) PushesDelivered (int n)
                    (count_events now (sha key) [relayed_event k hash b []] s2), PushAccepted)))"
      proof -
        have "(s', reply) = (case (if heads_up then charge_accounts clk 0 (relay_accounts hash s) s else (s, relay_accounts hash s)) of (s1, accs) \<Rightarrow>
            if heads_up \<and> relay_accounts hash s \<noteq> [] \<and> accs = [] then (s1, PushCapped)
            else (case dispatch_accounts deliver (relayed_event k hash b) accs 0 s1 of
                    (s2, None) \<Rightarrow> (s2, PushFaulted)
                  | (s2, Some n) \<Rightarrow> (counter_add now (sha key) PushesDelivered (int n)
                      (count_events now (sha key) [relayed_event k hash b []] s2), PushAccepted)))"
          using result[symmetric] by (simp add: relay_push_def server(1) b Let_def heads_up_def clk)
        then show ?thesis unfolding charged by simp
      qed
      have kept: ?kept using run s1 by (auto split: if_splits prod.splits option.splits)
      have "\<exists>b server key k topic accs s1 s2 n. ?accepted b server key k topic accs s1 s2 n" if acc: "reply = PushAccepted"
      proof -
        obtain s2 n where "dispatch_accounts deliver (relayed_event k hash b) accs 0 s1 = (s2, Some n)"
          and s': "s' = counter_add now (sha key) PushesDelivered (int n) (count_events now (sha key) [relayed_event k hash b []] s2)"
          using run acc by (auto split: if_splits prod.splits option.splits)
        then have "one_dispatch_each deliver (relayed_event k hash b) accs s1 s2 n" using dispatch_accounts_each by fastforce
        moreover have "set accs = {acc. (\<exists>x \<in> set (subscriptions s). \<exists>d \<in> set (devices s). s_topic_hash x = hash \<and> d_id d = s_device_id x \<and> d_account_id d = acc) \<and>
            \<not> serves_hash s acc hash \<and> (heads_up \<longrightarrow> usage_at s acc (day_start now) < p4_cap s acc)}"
          unfolding accs(2) relay_accounts_iff by blast
        moreover have "\<forall>acc \<in> set accs. \<forall>db. \<forall>d \<in> set (alarm_targets db (relayed_event k hash b acc)). pd_account_id d = acc \<and>
            (\<exists>r \<in> set (devices db). d_id r = pd_id d \<and> d_account_id r = acc \<and> subscribed_to db hash r)"
          using relayed_targets by blast
        ultimately have "?accepted b server key k topic accs s1 s2 n"
          using server(2-) b(1) topic(2) accs(1) s1 s' checked_push_kind[OF b(2)]
          unfolding Let_def topic(1)[symmetric] heads_up_def[symmetric] by (intro conjI) simp_all
        then show ?thesis by blast
      qed
      with unauthorized kept show ?thesis by blast
    qed
  qed
qed


definition sample_sha :: "string \<Rightarrow> string" where
  "sample_sha x = replicate 64 (if starts_with ''rk_'' x then CHR ''b'' else CHR ''a'')"

definition sample_relay_db :: db where
  "sample_relay_db = empty_db\<lparr>
     relay_servers := [\<lparr>rs_id = ''rly_1'', rs_base_url = ''https://a.example'', rs_version = ''1'', rs_key_hash = sample_sha ''rk_1'',
                        rs_created_at = 0, rs_legacy = False\<rparr>],
     devices := [\<lparr>d_id = ''dev'', d_account_id = ''acc'', d_token_hash = [], d_platform = Ios, d_push_token = ''t'', d_last_seen = 0,
                  d_app_version = None, d_apns_environment = None, d_last_alarm_push_at = None\<rparr>],
     subscriptions := [\<lparr>s_device_id = ''dev'', s_topic_hash = sample_sha []\<rparr>]\<rparr>"

definition sample_push :: relay_payload where
  "sample_push = \<lparr>rp_topic_hash = Some (JText (sample_sha [])), rp_kind = Some (JText ''open''), rp_topic = Some (JText ''alerts''),
     rp_incident_id = Some ''inc'', rp_message_id = ''m'', rp_priority = 5, rp_ring_until = Some 90, rp_title = Some ''disk'',
     rp_body = Some ''full''\<rparr>"

definition sample_push_result :: "db \<times> push_reply" where
  "sample_push_result =
     relay_push sample_sha (\<lambda>_. 60) (\<lambda>evs s. (s, DispatchDone 1 None)) (Some ''Bearer rk_1'') (Some sample_push) sample_relay_db"

lemma sample_server:
  "server_of_key sample_sha (Some ''Bearer rk_1'') sample_relay_db =
     Some (sample_sha ''rk_1'', hd (relay_servers sample_relay_db))"
  by code_simp

lemma sample_checked:
  "checked_push sample_sha ''https://a.example'' sample_push = Inr (EvOpen, sample_sha [])"
  by code_simp

lemma sample_push_accepted:
  "relay_push sample_sha (\<lambda>_. 60) (\<lambda>evs s. (s, DispatchDone 1 None)) (Some ''Bearer rk_1'') (Some sample_push) sample_relay_db =
     (fst sample_push_result, PushAccepted)"
proof -
  have "rs_base_url (hd (relay_servers sample_relay_db)) = ''https://a.example''" by (simp add: sample_relay_db_def)
  moreover have "relay_accounts (sample_sha []) sample_relay_db = [''acc'']"
    by (simp add: relay_accounts_def serves_hash_def sample_relay_db_def empty_db_def)
  ultimately show ?thesis
    by (simp add: sample_push_result_def relay_push_def sample_server sample_checked is_heads_up_push_def)
qed

theorem relay_push_reaches_subscribers_witness:
  "\<exists>server topic. server \<in> set (relay_servers sample_relay_db) \<and> rp_topic sample_push = Some (JText topic) \<and> topic = ''alerts''"
proof -
  note accepted = relay_push_reaches_subscribers[of "\<lambda>_. 60" 60, OF refl sample_push_accepted, THEN conjunct2, THEN conjunct2, THEN mp, OF refl]
  then obtain b server topic where "Some sample_push = Some b" "server \<in> set (relay_servers sample_relay_db)" "rp_topic b = Some (JText topic)"
    unfolding Let_def by (elim exE conjE) simp
  moreover from this(1,3) have "topic = ''alerts''" by (auto simp: sample_push_def)
  ultimately show ?thesis by blast
qed


subsection \<open>Content a server sends along\<close>

lemma relayed_event_retitled:
  "relayed_event k hash (b\<lparr>rp_title := title, rp_body := body\<rparr>) acc =
     retitled (case title of None \<Rightarrow> ''Crit Alarm'' | Some x \<Rightarrow> x) (case body of None \<Rightarrow> ''Critical alert'' | Some x \<Rightarrow> x)
       (relayed_event k hash b acc)"
  by (simp add: relayed_event_def retitled_def is_critical_relayed_def is_heads_up_push_def)

text \<open>A server with \<open>relay-content: full\<close> puts the title and the body into its pushes. The relay names no relay content on
  the event it dispatches, so what reaches the phone is the same whatever the two texts are.\<close>

theorem relayed_content_is_not_shown:
  "fcm_send pv clk d (relayed_event k hash (b\<lparr>rp_title := title, rp_body := body\<rparr>) acc) = fcm_send pv clk d (relayed_event k hash b acc) \<and>
   apns_send cfg sign clk host d (relayed_event k hash (b\<lparr>rp_title := title, rp_body := body\<rparr>) acc) =
     apns_send cfg sign clk host d (relayed_event k hash b acc)"
proof
  have none: "e_relay_content (relayed_event k hash b acc) \<noteq> Some ContentFull" by (simp add: relayed_event_def)
  then show "fcm_send pv clk d (relayed_event k hash (b\<lparr>rp_title := title, rp_body := body\<rparr>) acc) = fcm_send pv clk d (relayed_event k hash b acc)"
    unfolding relayed_event_retitled by (intro fcm_send_same_payload fcm_payload_retitled disjI1)
  show "apns_send cfg sign clk host d (relayed_event k hash (b\<lparr>rp_title := title, rp_body := body\<rparr>) acc) =
      apns_send cfg sign clk host d (relayed_event k hash b acc)"
    unfolding relayed_event_retitled using alert_request_retitled[OF none] by (auto simp: apns_send_def)
qed

end
