(* ===== verification/Registration.thy ===== *)
theory Registration
  imports Relay
begin

section \<open>Registrations over time\<close>

text \<open>
  The steps of \<open>POST /relay/v1/servers\<close> as a system: requests start, confirmations end in any order, and other
  components change the database in between. What holds in every state reached: the bound on running
  confirmations, one live key per base URL, and for each live key the proof that was given for it. Then both sides of a challenge put together: the
  relay that asks (\<open>src/src/relay/challenge.ts\<close>) and the server that answers (\<open>src/src/v1/router.ts\<close>, \<open>src/src/relay/client.ts\<close>).
\<close>

subsection \<open>The network of a confirmation\<close>

text \<open>Name resolution and the HTTPS exchange, as they are at the moment of one confirmation.\<close>

record network =
  nw_resolve :: "string \<Rightarrow> string list option"
  nw_https :: "string \<Rightarrow> string \<Rightarrow> nat \<Rightarrow> string \<Rightarrow> https_answer"

definition confirmed_over :: "relay_options \<Rightarrow> network \<Rightarrow> pending \<Rightarrow> bool" where
  "confirmed_over opts nw p =
     confirm_challenge (nw_resolve nw) (ro_is_ip opts) (nw_https nw) (pg_base_url p) (pg_challenge p) (ro_public_hosts opts)"

text \<open>Why a key was issued.\<close>

datatype grant = BySecret registration_request | ByChallenge pending network

record registrations =
  rg_state :: relay_state
  rg_pending :: "pending list"
  rg_grants :: "(string \<times> string \<times> grant) list"

text \<open>One step: a request that is answered at once (with a grant when it carried the operator's secret), a request that
  starts a confirmation, a confirmation that ends, and any write elsewhere.\<close>

inductive registration_moves :: "relay_options \<Rightarrow> registrations \<Rightarrow> registrations \<Rightarrow> bool" for opts where
  Answered: "begin_registration opts now fresh rq (rg_state w) = (st, Reply r) \<Longrightarrow>
     (\<forall>key. r \<noteq> KeyIssued key) \<Longrightarrow> registration_moves opts w (w\<lparr>rg_state := st\<rparr>)"
| Trusted: "begin_registration opts now fresh rq (rg_state w) = (st, Reply (KeyIssued key)) \<Longrightarrow>
     registration_fields (rq_body rq) = Some (base, version, v) \<Longrightarrow>
     registration_moves opts w (w\<lparr>rg_state := st, rg_grants := (base, ro_sha opts key, BySecret rq) # rg_grants w\<rparr>)"
| Started: "begin_registration opts now fresh rq (rg_state w) = (st, Confirming p) \<Longrightarrow>
     registration_moves opts w (w\<lparr>rg_state := st, rg_pending := p # rg_pending w\<rparr>)"
| Failed: "p \<in> set (rg_pending w) \<Longrightarrow> \<not> confirmed_over opts nw p \<Longrightarrow>
     end_registration opts now fresh p (confirmed_over opts nw p) (rg_state w) = (st, r) \<Longrightarrow>
     registration_moves opts w (w\<lparr>rg_state := st, rg_pending := remove1 p (rg_pending w)\<rparr>)"
| Proved: "p \<in> set (rg_pending w) \<Longrightarrow> confirmed_over opts nw p \<Longrightarrow>
     end_registration opts now fresh p (confirmed_over opts nw p) (rg_state w) = (st, KeyIssued key) \<Longrightarrow>
     registration_moves opts w (w\<lparr>rg_state := st, rg_pending := remove1 p (rg_pending w),
        rg_grants := (pg_base_url p, ro_sha opts key, ByChallenge p nw) # rg_grants w\<rparr>)"
| Elsewhere: "relay_servers db = relay_servers (ry_db (rg_state w)) \<Longrightarrow>
     registration_moves opts w (w\<lparr>rg_state := (rg_state w)\<lparr>ry_db := db\<rparr>\<rparr>)"

text \<open>A relay that has just started: whatever keys the migration left it are legacy ones, and no confirmation runs.\<close>

definition relay_started :: "registrations \<Rightarrow> bool" where
  "relay_started w \<longleftrightarrow> list_all rs_legacy (relay_servers (ry_db (rg_state w))) \<and> rg_pending w = [] \<and> rg_grants w = [] \<and>
     ry_in_flight (rg_state w) = 0"

text \<open>What counts as a proof for a base URL.\<close>

fun proves :: "relay_options \<Rightarrow> string \<Rightarrow> grant \<Rightarrow> bool" where
  "proves opts base (BySecret rq) \<longleftrightarrow>
     has_operator_secret opts rq \<and> operator_secret_right opts rq \<and> (\<exists>version v. registration_fields (rq_body rq) = Some (base, version, v))"
| "proves opts base (ByChallenge p nw) \<longleftrightarrow>
     base = pg_base_url p \<and> is_challenge_text (pg_challenge p) \<and> \<not> ro_closed opts \<and> confirmed_over opts nw p"

definition live_servers :: "db \<Rightarrow> relay_server_row list" where
  "live_servers s = filter (\<lambda>r. \<not> rs_legacy r) (relay_servers s)"

definition registrations_ok :: "relay_options \<Rightarrow> registrations \<Rightarrow> bool" where
  "registrations_ok opts w \<longleftrightarrow>
     ry_in_flight (rg_state w) = length (rg_pending w) \<and> length (rg_pending w) \<le> max_confirmations \<and>
     (\<forall>p \<in> set (rg_pending w). is_challenge_text (pg_challenge p) \<and> \<not> ro_closed opts) \<and>
     distinct (map rs_base_url (live_servers (ry_db (rg_state w)))) \<and>
     (\<forall>r \<in> set (live_servers (ry_db (rg_state w))).
        \<exists>g. (rs_base_url r, rs_key_hash r, g) \<in> set (rg_grants w) \<and> proves opts (rs_base_url r) g)"

subsection \<open>What each step does\<close>

lemma confirm_slot_cases:
  assumes "confirm_slot opts now client p st = (st', step)"
  shows "relay_servers (ry_db st') = relay_servers (ry_db st) \<and>
        ((\<exists>r. step = Reply r \<and> ry_in_flight st' = ry_in_flight st \<and> (\<forall>key. r \<noteq> KeyIssued key)) \<or>
         (step = Confirming p \<and> ry_in_flight st < max_confirmations \<and> ry_in_flight st' = Suc (ry_in_flight st)))"
  using assms
  by (auto simp: confirm_slot_def record_daily_registration_def Let_def split: if_splits prod.splits)

lemma begin_answered:
  assumes "begin_registration opts now fresh rq st = (st', Reply r)" "\<forall>key. r \<noteq> KeyIssued key"
  shows "relay_servers (ry_db st') = relay_servers (ry_db st)" "ry_in_flight st' = ry_in_flight st"
  using assms
  by (auto simp: begin_registration_def split: if_splits option.splits prod.splits bool.splits dest!: confirm_slot_cases)

lemma begin_trusted:
  assumes "begin_registration opts now fresh rq st = (st', Reply (KeyIssued key))" "registration_fields (rq_body rq) = Some (base, version, v)"
  shows "st' = st\<lparr>ry_db := issue_key (ro_sha opts) now fresh base version (ry_db st)\<rparr>" "key = snd fresh"
    "has_operator_secret opts rq" "operator_secret_right opts rq"
  using assms
  by (auto simp: begin_registration_def split: if_splits option.splits prod.splits bool.splits dest: confirm_slot_cases)

lemma begin_started:
  assumes "begin_registration opts now fresh rq st = (st', Confirming p)"
  shows "relay_servers (ry_db st') = relay_servers (ry_db st)" "ry_in_flight st < max_confirmations"
    "ry_in_flight st' = Suc (ry_in_flight st)" "is_challenge_text (pg_challenge p)" "\<not> ro_closed opts"
  using assms
  by (auto simp: begin_registration_def split: if_splits option.splits prod.splits bool.splits dest!: confirm_slot_cases)

lemma live_issue_key:
  "live_servers (issue_key sha now fresh base version s) =
     del_where (\<lambda>r. rs_base_url r = base) (live_servers s) @
     [\<lparr>rs_id = fst fresh, rs_base_url = base, rs_version = version, rs_key_hash = sha (snd fresh), rs_created_at = now, rs_legacy = False\<rparr>]"
  by (simp add: live_servers_def issue_key_def del_where_def conj_commute) (rule filter_cong; auto)

lemma live_servers_cong: "relay_servers s = relay_servers s' \<Longrightarrow> live_servers s = live_servers s'"
  by (simp add: live_servers_def)

text \<open>A key issued with a proof keeps what is said of the live keys.\<close>

lemma issue_key_keeps:
  assumes "distinct (map rs_base_url (live_servers s))"
    and "\<forall>r \<in> set (live_servers s). \<exists>g. (rs_base_url r, rs_key_hash r, g) \<in> set grants \<and> proves opts (rs_base_url r) g"
    and "proves opts base g"
  shows "distinct (map rs_base_url (live_servers (issue_key (ro_sha opts) now fresh base version s)))"
    and "\<forall>r \<in> set (live_servers (issue_key (ro_sha opts) now fresh base version s)).
      \<exists>g'. (rs_base_url r, rs_key_hash r, g') \<in> set ((base, ro_sha opts (snd fresh), g) # grants) \<and> proves opts (rs_base_url r) g'"
  using assms by (auto simp: live_issue_key table_simps distinct_map_del_where)

lemma registration_moves_ok:
  "registration_moves opts w w' \<Longrightarrow> registrations_ok opts w \<Longrightarrow> registrations_ok opts w'"
proof (induction rule: registration_moves.induct)
  case (Answered now fresh rq w st r)
  with begin_answered[OF Answered(1,2)] show ?case by (auto simp: registrations_ok_def dest: live_servers_cong)
next
  case (Trusted now fresh rq w st key base version v)
  note t = begin_trusted[OF Trusted(1,2)]
  have "proves opts base (BySecret rq)" using t Trusted(2) by simp
  with issue_key_keeps[of "ry_db (rg_state w)" "rg_grants w" opts base "BySecret rq" now fresh version] Trusted(3) t(1,2) show ?case
    by (simp add: registrations_ok_def)
next
  case (Started now fresh rq w st p)
  with begin_started[OF Started(1)] show ?case by (auto simp: registrations_ok_def dest: live_servers_cong)
next
  case (Failed p w nw now fresh st r)
  then show ?case
    by (auto simp: registrations_ok_def end_registration_def Let_def length_remove1 dest!: set_remove1_subset[THEN subsetD])
next
  case (Proved p w nw now fresh st key)
  then have st: "st = (rg_state w)\<lparr>ry_in_flight := ry_in_flight (rg_state w) - 1,
      ry_db := issue_key (ro_sha opts) now fresh (pg_base_url p) (pg_version p) (ry_db (rg_state w))\<rparr>" "key = snd fresh"
    by (auto simp: end_registration_def Let_def)
  have "proves opts (pg_base_url p) (ByChallenge p nw)" using Proved by (simp add: registrations_ok_def)
  with issue_key_keeps[of "ry_db (rg_state w)" "rg_grants w" opts "pg_base_url p" "ByChallenge p nw" now fresh "pg_version p"] Proved st show ?case
    by (auto simp: registrations_ok_def length_remove1 dest!: set_remove1_subset[THEN subsetD])
next
  case (Elsewhere db w)
  then show ?case by (auto simp: registrations_ok_def dest: live_servers_cong)
qed

lemma started_ok: "relay_started w \<Longrightarrow> registrations_ok opts w"
  by (auto simp: relay_started_def registrations_ok_def live_servers_def list_all_iff filter_empty_conv)

interpretation registering: invariant_system relay_started "registration_moves opts" "registrations_ok opts"
  by unfold_locales (rule started_ok, assumption, rule registration_moves_ok)

text \<open>C9: However registrations interleave, from a fresh start on: the relay confirms at most four at once, holds at most one live key per
  base URL, and every live key was issued on a proof, for that base URL and with that hash: the caller held the
  operator's secret, or registration was open and the address, asked over the network of that moment, gave back the very
  challenge of the pending registration together with a host name of this relay.\<close>

theorem registrations_are_proved:
  assumes "relay_started w" "(registration_moves opts)\<^sup>*\<^sup>* w w'"
  shows "length (rg_pending w') \<le> max_confirmations \<and> ry_in_flight (rg_state w') = length (rg_pending w') \<and>
    distinct (map rs_base_url (live_servers (ry_db (rg_state w')))) \<and>
    (\<forall>r \<in> set (live_servers (ry_db (rg_state w'))).
       \<exists>g. (rs_base_url r, rs_key_hash r, g) \<in> set (rg_grants w') \<and> proves opts (rs_base_url r) g)"
  using registering.inv_reachable[OF assms] by (simp add: registrations_ok_def)

section \<open>Both sides of a challenge\<close>

text \<open>What a request to a Crit Alarm server gives: 404 without a body that is looked at, or the two fields, printed by \<open>JSON.stringify\<close>.\<close>

record crit_alarm_server =
  sv_mode :: server_mode
  sv_relay_url :: string
  sv_now :: int
  sv_challenge :: "(string \<times> int) option"

definition served_challenge ::
  "(string \<Rightarrow> string) \<Rightarrow> (string \<Rightarrow> string option) \<Rightarrow> (json \<Rightarrow> string) \<Rightarrow> crit_alarm_server \<Rightarrow> string \<Rightarrow> https_answer" where
  "served_challenge sha url_host print srv value =
     (case challenge_route sha url_host (sv_mode srv) (sv_relay_url srv) (sv_now srv) (sv_challenge srv) value of
        None \<Rightarrow> HttpsAnswer 404 [] None
      | Some v \<Rightarrow> HttpsAnswer 200 [print v] (Some v))"

lemma challenge_body_fields:
  "text_field ''challenge'' (JObj [(''challenge'', JText c), (''relay'', JText h)]) = Some c"
  "text_field ''relay'' (JObj [(''challenge'', JText c), (''relay'', JText h)]) = Some h"
  "is_record (JObj fs)"
  by (simp_all add: text_field_def)

text \<open>C29: The two halves of a registration meet. Let the base URL resolve, and let whatever answers there over HTTPS be a Crit
  Alarm server, at any path it is asked for. Then the relay takes the challenge for answered exactly when the base URL is one the relay
  accepts and all its addresses are public, and that server is self-hosted, has a challenge with the same
  digest out whose 60 seconds are not over, is configured for a relay that is this one, and the answer fits 1024 bytes. A server that
  did not ask to register cannot be registered by somebody else.\<close>

theorem challenge_handshake:
  assumes resolves: "\<And>u. parse_base_url base = Some u \<Longrightarrow> resolve (pu_host u) = Some (target # others)"
    and answers: "\<And>u. parse_base_url base = Some u \<Longrightarrow>
      https target (pu_host u) (pu_port u) (pu_path u @ ''/v1/relay-challenge/'' @ challenge) = served_challenge sha url_host print srv challenge"
  shows "confirm_challenge resolve is_ip https base challenge hosts \<longleftrightarrow>
    parse_base_url base \<noteq> None \<and> list_all (is_public_address is_ip) (target # others) \<and> sv_mode srv = SelfHostedMode \<and>
    (\<exists>c expires. sv_challenge srv = Some (c, expires) \<and> sv_now srv < expires \<and> sha challenge = sha c) \<and>
    (\<exists>relay \<in> set hosts. relay_host url_host (sv_relay_url srv) = Some relay \<and>
       length (print (JObj [(''challenge'', JText challenge), (''relay'', JText relay)])) \<le> 1024)"
proof (cases "parse_base_url base")
  case None
  then show ?thesis by (simp add: confirm_challenge_def)
next
  case (Some u)
  have ans: "challenge_answered challenge hosts (served_challenge sha url_host print srv challenge) \<longleftrightarrow>
    sv_mode srv = SelfHostedMode \<and>
    (\<exists>c expires. sv_challenge srv = Some (c, expires) \<and> sv_now srv < expires \<and> sha challenge = sha c) \<and>
    (\<exists>relay \<in> set hosts. relay_host url_host (sv_relay_url srv) = Some relay \<and>
       length (print (JObj [(''challenge'', JText challenge), (''relay'', JText relay)])) \<le> 1024)"
    by (auto simp: challenge_answered_def served_challenge_def challenge_route_def challenge_body_fields is_relay_challenge_def
        max_challenge_body_def not_le split: option.splits if_splits)
  show ?thesis
    using Some resolves[OF Some] answers[OF Some] by (auto simp: confirm_challenge_def ans)
qed

theorem challenge_handshake_witness:
  "\<not> confirm_challenge (\<lambda>_. Some [''8.8.8.8'']) (\<lambda>_. 4)
       (\<lambda>_ _ _ _. served_challenge id (\<lambda>_. Some ''relay.example'') (\<lambda>_. [])
          \<lparr>sv_mode = SelfHostedMode, sv_relay_url = [], sv_now = 60000, sv_challenge = Some (''abc'', 60000)\<rparr> ''abc'')
       ''https://a.example'' ''abc'' [''relay.example''] \<and>
   confirm_challenge (\<lambda>_. Some [''8.8.8.8'']) (\<lambda>_. 4)
       (\<lambda>_ _ _ _. served_challenge id (\<lambda>_. Some ''relay.example'') (\<lambda>_. [])
          \<lparr>sv_mode = SelfHostedMode, sv_relay_url = [], sv_now = 59999, sv_challenge = Some (''abc'', 60000)\<rparr> ''abc'')
       ''https://a.example'' ''abc'' [''relay.example'']"
proof -
  have url: "parse_base_url ''https://a.example'' \<noteq> None" by code_simp
  have public: "is_public_address (\<lambda>_. 4) ''8.8.8.8''" by code_simp
  have host: "relay_host (\<lambda>_. Some ''relay.example'') [] = Some ''relay.example''" by code_simp
  show ?thesis
    by (subst (1 2) challenge_handshake[where target = "''8.8.8.8''" and others = "[]", OF refl refl])
       (simp_all add: url public host)
qed

definition sample_relay_options :: relay_options where
  "sample_relay_options = \<lparr>ro_secret = Some ''s'', ro_closed = False, ro_trust = TrustNobody, ro_public_hosts = [], ro_is_ip = (\<lambda>_. 4),
     ro_sha = (\<lambda>x. x)\<rparr>"

definition fresh_registrations :: registrations where
  "fresh_registrations = \<lparr>rg_state = \<lparr>ry_db = empty_db, ry_clients = fresh_rolling, ry_secrets = fresh_rolling, ry_started = fresh_rolling,
     ry_in_flight = 0\<rparr>, rg_pending = [], rg_grants = []\<rparr>"

definition sample_registration :: registration_request where
  "sample_registration = \<lparr>rq_source = \<lparr>cs_peer = None, cs_header = (\<lambda>_. None)\<rparr>, rq_authorization = Some ''Bearer s'',
     rq_body = JsonRead (JObj [(''base_url'', JText ''https://a.example''), (''version'', JText ''1'')])\<rparr>"

lemma sample_registration_begins:
  "begin_registration sample_relay_options 0 (''rly_1'', ''rk_1'') sample_registration (rg_state fresh_registrations) =
     ((rg_state fresh_registrations)\<lparr>ry_db := issue_key id 0 (''rly_1'', ''rk_1'') ''https://a.example'' ''1'' empty_db\<rparr>, Reply (KeyIssued ''rk_1''))"
  "registration_fields (rq_body sample_registration) =
     Some (''https://a.example'', ''1'', JObj [(''base_url'', JText ''https://a.example''), (''version'', JText ''1'')])"
proof -
  have secret: "has_operator_secret sample_relay_options sample_registration" "operator_secret_right sample_relay_options sample_registration"
    by (code_simp, code_simp)
  show fields: "registration_fields (rq_body sample_registration) =
     Some (''https://a.example'', ''1'', JObj [(''base_url'', JText ''https://a.example''), (''version'', JText ''1'')])"
    by code_simp
  have "\<not> 200 < utf16_length ''https://a.example''" by code_simp
  with secret fields show "begin_registration sample_relay_options 0 (''rly_1'', ''rk_1'') sample_registration (rg_state fresh_registrations) =
     ((rg_state fresh_registrations)\<lparr>ry_db := issue_key id 0 (''rly_1'', ''rk_1'') ''https://a.example'' ''1'' empty_db\<rparr>, Reply (KeyIssued ''rk_1''))"
    by (simp add: begin_registration_def fresh_registrations_def sample_relay_options_def id_def)
qed

theorem registrations_are_proved_witness:
  "\<exists>w'. (registration_moves sample_relay_options)\<^sup>*\<^sup>* fresh_registrations w' \<and> live_servers (ry_db (rg_state w')) \<noteq> [] \<and>
     distinct (map rs_base_url (live_servers (ry_db (rg_state w'))))"
proof -
  note move = Trusted[OF sample_registration_begins]
  then obtain w' where w': "registration_moves sample_relay_options fresh_registrations w'"
    "rg_state w' = (rg_state fresh_registrations)\<lparr>ry_db := issue_key id 0 (''rly_1'', ''rk_1'') ''https://a.example'' ''1'' empty_db\<rparr>"
    by simp
  have "relay_started fresh_registrations" by (simp add: relay_started_def fresh_registrations_def empty_db_def)
  from registrations_are_proved[OF this r_into_rtranclp[of "registration_moves sample_relay_options", OF w'(1)]] w'
  show ?thesis by (intro exI[of _ w']) (auto simp: live_issue_key)
qed

end
