(* ===== verification/RelayClient.thy ===== *)
theory RelayClient
  imports Relay
begin

section \<open>The relay client of a self-hosted server\<close>

text \<open>
  \<open>src/src/relay/client.ts\<close>, and the dispatch of \<open>src/src/main.ts\<close> and the start of \<open>src/src/relay/startup.ts\<close> that use it. The client holds a key of the relay,
  registers when it has none (with a growing wait after a failure), and forwards every event as one or two pushes.

  Each request is a wait, and while it is out other forwards of the same server run. Everything the outside does is a
  parameter, by the number of waits of this call so far: the answers of the relay, the clock (one reading per section between two waits), the fresh
  challenges, what the other forwards make of the shared state, and whether one of them has a registration out that this
  call then shares.
\<close>

subsection \<open>Options, state and answers\<close>

record client_options =
  co_relay_url :: string
  co_base_url :: string
  co_full_content :: bool
  co_secret :: "string option"
  co_plain_hash :: bool
  co_version :: string
  co_sha :: "string \<Rightarrow> string"

datatype client_log =
    KeyPresent
  | KeyRegistered "nat option"
  | RegistrationFailed string "int option" "nat option"
  | KeyReplaced
  | TopicMismatched
  | OtherBaseUrl string

record client_state =
  cl_db :: db
  cl_challenge :: "(string \<times> int) option"
  cl_backoff :: int
  cl_next_at :: int
  cl_last_reason :: "string option"
  cl_warned :: "string list"
  cl_skipped :: nat
  cl_log :: "client_log list"

text \<open>A request that throws, because of a redirect or otherwise, or an answer with its status and, where it is JSON, its body.\<close>

datatype relay_reply = RelayDown bool | RelayReply int "json option"

record client_payload =
  cp_hash :: string
  cp_topic_name :: string
  cp_incident_id :: "ident option"
  cp_message_id :: ident
  cp_priority :: int
  cp_kind :: event_kind
  cp_ring_until :: "seconds option"
  cp_content :: "(string \<times> string) option"

text \<open>\<open>RelayKeyError\<close>, which the client has logged and backed off from, and every other error.\<close>

datatype client_error = KeyError string | PushFailed string

record registration_call =
  rx_base_url :: string
  rx_version :: string
  rx_challenge :: string
  rx_secret :: "string option"

record outside =
  ou_register :: "nat \<Rightarrow> registration_call \<Rightarrow> relay_reply"
  ou_push :: "nat \<Rightarrow> string \<Rightarrow> client_payload \<Rightarrow> relay_reply"
  ou_clock :: "nat \<Rightarrow> int"
  ou_challenge :: "nat \<Rightarrow> string"
  ou_shared :: "nat \<Rightarrow> (string + string) option"
  ou_meanwhile :: "nat \<Rightarrow> client_state \<Rightarrow> client_state"

text \<open>A call in progress: the shared state, the waits made, and the pushes sent with their answers.\<close>

record client_run =
  cr_client :: client_state
  cr_waits :: nat
  cr_sent :: "(string \<times> client_payload \<times> relay_reply) list"

definition waited :: "outside \<Rightarrow> client_run \<Rightarrow> client_run" where
  "waited env f = f\<lparr>cr_client := ou_meanwhile env (cr_waits f) (cr_client f), cr_waits := Suc (cr_waits f)\<rparr>"

definition on_client :: "(client_state \<Rightarrow> client_state) \<Rightarrow> client_run \<Rightarrow> client_run" where
  "on_client g f = f\<lparr>cr_client := g (cr_client f)\<rparr>"

definition now_of :: "outside \<Rightarrow> client_run \<Rightarrow> int" where
  "now_of env f = ou_clock env (cr_waits f)"

definition client_logs :: "client_log \<Rightarrow> client_state \<Rightarrow> client_state" where
  "client_logs line st = st\<lparr>cl_log := cl_log st @ [line]\<rparr>"

text \<open>An awaited call, then the rest; a call that throws ends it.\<close>

definition and_then :: "client_run \<times> (client_error + 'a) \<Rightarrow> (client_run \<Rightarrow> 'a \<Rightarrow> client_run \<times> (client_error + 'b)) \<Rightarrow> client_run \<times> (client_error + 'b)" where
  "and_then r rest = (case r of (f, Inl e) \<Rightarrow> (f, Inl e) | (f, Inr x) \<Rightarrow> rest f x)"

subsection \<open>Answers\<close>

definition reply_ok :: "int \<Rightarrow> bool" where
  "reply_ok status \<longleftrightarrow> 200 \<le> status \<and> status \<le> 299"

definition error_text :: "json option \<Rightarrow> string option" where
  "error_text body = (case body of None \<Rightarrow> None | Some v \<Rightarrow> if is_record v then text_field ''error'' v else None)"

definition is_topic_mismatch :: "int \<Rightarrow> json option \<Rightarrow> bool" where
  "is_topic_mismatch status body \<longleftrightarrow> status = 403 \<and> error_text body = Some ''topic mismatch''"

definition reason_for :: "int \<Rightarrow> json option \<Rightarrow> string" where
  "reason_for status body =
     (if status = 400 \<and> error_text body = Some ''invalid base_url'' then ''invalid_base_url''
      else if status = 422 \<and> error_text body = Some ''challenge failed'' then ''challenge_failed''
      else if status = 403 \<and> error_text body = Some ''registration closed'' then ''registration_closed''
      else if status = 429 then ''rate_limited''
      else ''status_'' @ int_text status)"

subsection \<open>The key\<close>

definition stored_key :: "client_options \<Rightarrow> client_state \<Rightarrow> string option" where
  "stored_key opts st =
     map_option rc_relay_key (List.find (\<lambda>r. rc_relay_url r = co_relay_url opts) (relay_client_credentials (cl_db st)))"

definition drop_key :: "client_options \<Rightarrow> string \<Rightarrow> client_state \<Rightarrow> client_state" where
  "drop_key opts key st =
     st\<lparr>cl_db := (cl_db st)\<lparr>relay_client_credentials :=
         del_where (\<lambda>r. rc_relay_url r = co_relay_url opts \<and> rc_relay_key r = key) (relay_client_credentials (cl_db st))\<rparr>\<rparr>"

definition store_key :: "client_options \<Rightarrow> int \<Rightarrow> string \<Rightarrow> client_state \<Rightarrow> client_state" where
  "store_key opts now key st =
     st\<lparr>cl_db := (cl_db st)\<lparr>relay_client_credentials :=
         upsert (\<lambda>r. rc_relay_url r = co_relay_url opts) (\<lambda>r. r\<lparr>rc_relay_key := key\<rparr>)
           \<lparr>rc_relay_url = co_relay_url opts, rc_relay_key = key, rc_created_at = now div 1000\<rparr> (relay_client_credentials (cl_db st))\<rparr>\<rparr>"

text \<open>\<open>takeSkipped\<close>: the count for the next line, and back to zero.\<close>

definition take_skipped :: "client_state \<Rightarrow> nat option \<times> client_state" where
  "take_skipped st = (if cl_skipped st = 0 then None else Some (cl_skipped st), st\<lparr>cl_skipped := 0\<rparr>)"

definition challenge_window :: int where "challenge_window = 60000"
definition backoff_first :: int where "backoff_first = 30000"
definition backoff_cap :: "string \<Rightarrow> int" where
  "backoff_cap reason = (if reason = ''rate_limited'' then 300000 else 3600000)"

definition client_fail :: "int \<Rightarrow> string \<Rightarrow> int option \<Rightarrow> client_state \<Rightarrow> client_state" where
  "client_fail now reason status st =
     (let backoff = min (if cl_backoff st = 0 then backoff_first else cl_backoff st * 2) (backoff_cap reason);
          st1 = st\<lparr>cl_backoff := backoff, cl_next_at := now + backoff\<rparr>
      in if cl_last_reason st = Some reason then st1
         else (case take_skipped (st1\<lparr>cl_last_reason := Some reason\<rparr>) of
                 (skipped, st2) \<Rightarrow> client_logs (RegistrationFailed reason status skipped) st2))"

definition key_arrived :: "client_options \<Rightarrow> int \<Rightarrow> string \<Rightarrow> client_state \<Rightarrow> client_state" where
  "key_arrived opts now key st =
     (case take_skipped ((store_key opts now key st)\<lparr>cl_backoff := 0, cl_next_at := 0, cl_last_reason := None\<rparr>) of
        (skipped, st1) \<Rightarrow> client_logs (KeyRegistered skipped) st1)"

text \<open>What a registration's answer leads to: the new state, and the key or the reason of the failure.\<close>

definition registration_answered :: "client_options \<Rightarrow> int \<Rightarrow> relay_reply \<Rightarrow> client_state \<Rightarrow> client_state \<times> (string + string)" where
  "registration_answered opts now a st =
     (let failed = (\<lambda>reason status. (client_fail now reason status st, Inl reason))
      in case a of
           RelayDown redirected \<Rightarrow> failed (if redirected then ''redirect'' else ''network'') None
         | RelayReply status body \<Rightarrow>
             if \<not> reply_ok status then failed (reason_for status body) (Some status)
             else (case (case body of None \<Rightarrow> None | Some v \<Rightarrow> if is_record v then text_field ''relay_key'' v else None) of
                     None \<Rightarrow> failed ''bad_answer'' (Some status)
                   | Some key \<Rightarrow> (key_arrived opts now key st, Inr key)))"

definition client_register :: "client_options \<Rightarrow> outside \<Rightarrow> client_run \<Rightarrow> client_run \<times> (client_error + string)" where
  "client_register opts env f =
     (if now_of env f < cl_next_at (cr_client f) then (f, Inl (KeyError ''backing off''))
      else (let k = cr_waits f; challenge = ou_challenge env k;
                call = \<lparr>rx_base_url = co_base_url opts, rx_version = co_version opts, rx_challenge = challenge, rx_secret = co_secret opts\<rparr>;
                f1 = waited env (on_client (\<lambda>st. st\<lparr>cl_challenge := Some (challenge, now_of env f + challenge_window)\<rparr>) f)
            in case registration_answered opts (now_of env f1) (ou_register env k call) (cr_client f1) of
                 (st, res) \<Rightarrow> (f1\<lparr>cr_client := st\<lparr>cl_challenge := None\<rparr>\<rparr>, map_sum KeyError id res)))"

definition note_skipped :: "client_run \<times> (client_error + string) \<Rightarrow> client_run \<times> (client_error + string)" where
  "note_skipped r =
     (case r of (f, Inl (KeyError reason)) \<Rightarrow> (on_client (\<lambda>st. st\<lparr>cl_skipped := Suc (cl_skipped st)\<rparr>) f, Inl (KeyError reason)) | _ \<Rightarrow> r)"

definition relay_key_for :: "client_options \<Rightarrow> outside \<Rightarrow> client_run \<Rightarrow> client_run \<times> (client_error + string)" where
  "relay_key_for opts env f =
     (case stored_key opts (cr_client f) of
        Some key \<Rightarrow> (f, Inr key)
      | None \<Rightarrow>
          note_skipped
            (case ou_shared env (cr_waits f) of
               Some res \<Rightarrow> (waited env f, map_sum KeyError id res)
             | None \<Rightarrow> client_register opts env f))"

definition register_at_startup :: "client_options \<Rightarrow> outside \<Rightarrow> client_run \<Rightarrow> client_run" where
  "register_at_startup opts env f =
     (if stored_key opts (cr_client f) \<noteq> None then on_client (client_logs KeyPresent) f else fst (relay_key_for opts env f))"


subsection \<open>Pushes\<close>

definition client_push :: "outside \<Rightarrow> string \<Rightarrow> client_payload \<Rightarrow> client_run \<Rightarrow> client_run \<times> (client_error + int \<times> json option)" where
  "client_push env key payload f =
     (let a = ou_push env (cr_waits f) key payload;
          f1 = (waited env f)\<lparr>cr_sent := cr_sent f @ [(key, payload, a)]\<rparr>
      in case a of
           RelayDown redirected \<Rightarrow> (f1, Inl (PushFailed (if redirected then ''redirect'' else ''network'')))
         | RelayReply status body \<Rightarrow> (f1, Inr (status, body)))"

text \<open>A key, and a push with it.\<close>

definition keyed_push :: "client_options \<Rightarrow> outside \<Rightarrow> client_payload \<Rightarrow> client_run \<Rightarrow> client_run \<times> (client_error + string \<times> int \<times> json option)" where
  "keyed_push opts env payload f =
     and_then (relay_key_for opts env f) (\<lambda>f1 key.
       and_then (client_push env key payload f1) (\<lambda>f2 (status, body). (f2, Inr (key, status, body))))"

text \<open>After a 401 the key is dropped and the push made once more with another.\<close>

definition push_once_more :: "client_options \<Rightarrow> outside \<Rightarrow> client_payload \<Rightarrow> client_run \<Rightarrow> client_run \<times> (client_error + string \<times> int \<times> json option)" where
  "push_once_more opts env payload f =
     and_then (keyed_push opts env payload f) (\<lambda>f1 (key, status, body).
       if status = 401 then keyed_push opts env payload (on_client (drop_key opts key) f1) else (f1, Inr (key, status, body)))"

text \<open>The key was registered under an older base URL: another key, one more push.\<close>

definition push_reregistered ::
  "client_options \<Rightarrow> outside \<Rightarrow> client_payload \<Rightarrow> string \<Rightarrow> client_run \<Rightarrow> client_run \<times> (client_error + int)" where
  "push_reregistered opts env payload key f =
     and_then (keyed_push opts env payload (on_client (client_logs KeyReplaced \<circ> drop_key opts key) f)) (\<lambda>f1 (key', status, body).
       if is_topic_mismatch status body
       then (on_client (client_logs TopicMismatched) f1, Inl (KeyError ''topic mismatch''))
       else (f1, Inr status))"

definition push_settled :: "client_run \<Rightarrow> int \<Rightarrow> client_run \<times> (client_error + int)" where
  "push_settled f status = (f, if reply_ok status then Inr status else Inl (PushFailed (''status '' @ int_text status)))"

definition push_secret :: "client_options \<Rightarrow> outside \<Rightarrow> client_payload \<Rightarrow> client_run \<Rightarrow> client_run \<times> (client_error + int)" where
  "push_secret opts env payload f =
     and_then (push_once_more opts env payload f) (\<lambda>f1 (key, status, body).
       and_then (if is_topic_mismatch status body then push_reregistered opts env payload key f1 else (f1, Inr status)) push_settled)"

text \<open>One line per topic that was created under another base URL.\<close>

definition warn_foreign_topic :: "string \<Rightarrow> client_state \<Rightarrow> client_state" where
  "warn_foreign_topic topic st =
     (if topic \<in> set (cl_warned st) then st
      else client_logs (OtherBaseUrl topic) (st\<lparr>cl_warned := topic # cl_warned st\<rparr>))"

definition push_plain :: "client_options \<Rightarrow> outside \<Rightarrow> client_payload \<Rightarrow> client_run \<Rightarrow> client_run \<times> (client_error + int)" where
  "push_plain opts env payload f =
     and_then (push_once_more opts env payload f) (\<lambda>f1 (key, status, body).
       and_then
         (if is_topic_mismatch status body
          then (if topic_hash (co_sha opts) (co_base_url opts) (cp_topic_name payload) \<noteq> cp_hash payload
                then (on_client (warn_foreign_topic (cp_topic_name payload)) f1, Inl (KeyError ''other base URL''))
                else push_reregistered opts env payload key f1)
          else (f1, Inr status)) push_settled)"

subsection \<open>Forwarding\<close>

definition relay_name_of :: "db \<Rightarrow> delivery_event \<Rightarrow> string option" where
  "relay_name_of s ev =
     (case List.find (\<lambda>t. t_topic_hash t = e_topic_hash ev \<and> t_name t = e_topic ev) (topics s) of None \<Rightarrow> None | Some t \<Rightarrow> t_relay_name t)"

definition client_payload_for :: "client_options \<Rightarrow> delivery_event \<Rightarrow> string \<Rightarrow> string \<Rightarrow> client_payload" where
  "client_payload_for opts ev hash topic =
     \<lparr>cp_hash = hash, cp_topic_name = topic, cp_incident_id = e_incident_id ev, cp_message_id = e_message_id ev,
      cp_priority = e_priority ev, cp_kind = e_kind ev, cp_ring_until = e_ring_until ev,
      cp_content = (if co_full_content opts then Some (e_title ev, e_body ev) else None)\<rparr>"

definition secret_payload :: "client_options \<Rightarrow> delivery_event \<Rightarrow> string \<Rightarrow> client_payload" where
  "secret_payload opts ev name = client_payload_for opts ev (topic_hash (co_sha opts) (co_base_url opts) name) name"

definition plain_payload :: "client_options \<Rightarrow> delivery_event \<Rightarrow> client_payload" where
  "plain_payload opts ev = client_payload_for opts ev (e_topic_hash ev) (e_topic ev)"

text \<open>The one event that stays home: priority 5 that joins an acknowledged incident.\<close>

definition stays_home :: "delivery_event \<Rightarrow> bool" where
  "stays_home ev \<longleftrightarrow> e_kind ev = EvP5 \<and> e_incident_id ev \<noteq> None \<and> \<not> e_critical ev"

text \<open>The secret push where the topic has a relay name, the plain one where it has none or both are on. Both are tried; the
  first error is the answer's, else the last status.\<close>

definition owes_plain :: "client_options \<Rightarrow> string option \<Rightarrow> bool" where
  "owes_plain opts name \<longleftrightarrow> name = None \<or> co_plain_hash opts"

definition forward_one :: "client_options \<Rightarrow> outside \<Rightarrow> delivery_event \<Rightarrow> client_run \<Rightarrow> client_run \<times> (client_error + int option)" where
  "forward_one opts env ev f =
     (if stays_home ev then (f, Inr None)
      else (let name = relay_name_of (cl_db (cr_client f)) ev
            in case (case name of None \<Rightarrow> (f, Inr None)
                     | Some n \<Rightarrow> (case push_secret opts env (secret_payload opts ev n) f of (f1, res) \<Rightarrow> (f1, map_sum id Some res))) of
                 (f1, first) \<Rightarrow>
                   (case (if owes_plain opts name
                          then (case push_plain opts env (plain_payload opts ev) f1 of (f2, res) \<Rightarrow> (f2, map_sum id Some res))
                          else (f1, first)) of
                      (f2, second) \<Rightarrow> (f2, case first of Inl e \<Rightarrow> Inl e | Inr _ \<Rightarrow> second))))"

text \<open>\<open>forward\<close>: the events in turn, up to the first that fails. What it leaves is the dispatch of a self-hosted server: the error is
  logged or was already, and the publisher is told of none.\<close>

fun forward_events :: "client_options \<Rightarrow> outside \<Rightarrow> delivery_event list \<Rightarrow> client_run \<Rightarrow> client_run \<times> client_error option" where
  "forward_events opts env [] f = (f, None)"
| "forward_events opts env (ev # evs) f =
     (case forward_one opts env ev f of (f1, Inl e) \<Rightarrow> (f1, Some e) | (f1, Inr _) \<Rightarrow> forward_events opts env evs f1)"

definition self_hosted_dispatch :: "client_options \<Rightarrow> outside \<Rightarrow> delivery_event list \<Rightarrow> client_run \<Rightarrow> client_run \<times> dispatch_outcome" where
  "self_hosted_dispatch opts env evs f = (fst (forward_events opts env evs f), DispatchVoid)"



section \<open>What a forward sends\<close>

text \<open>A push that was accepted; what one payload may cost; and that it got through.\<close>

fun taken :: "string \<times> client_payload \<times> relay_reply \<Rightarrow> bool" where
  "taken (key, p, RelayReply status body) \<longleftrightarrow> reply_ok status"
| "taken (key, p, RelayDown r) \<longleftrightarrow> False"

definition tries :: "client_payload \<Rightarrow> (string \<times> client_payload \<times> relay_reply) list \<Rightarrow> bool" where
  "tries p xs \<longleftrightarrow> length xs \<le> 3 \<and> (\<forall>x \<in> set xs. fst (snd x) = p) \<and> (\<forall>x \<in> set (butlast xs). \<not> taken x)"

definition got_through :: "(string \<times> client_payload \<times> relay_reply) list \<Rightarrow> bool" where
  "got_through xs \<longleftrightarrow> xs \<noteq> [] \<and> taken (last xs)"

lemma on_client_simps [simp]: "cr_sent (on_client g f) = cr_sent f" "cr_waits (on_client g f) = cr_waits f"
  "cr_client (on_client g f) = g (cr_client f)"
  by (simp_all add: on_client_def)

lemma waited_sent [simp]: "cr_sent (waited env f) = cr_sent f"
  by (simp add: waited_def)

lemma map_sum_Inl: "map_sum g h r = Inl e \<longleftrightarrow> (\<exists>x. r = Inl x \<and> e = g x)" and map_sum_Inr: "map_sum g h r = Inr y \<longleftrightarrow> (\<exists>x. r = Inr x \<and> y = h x)"
  by (cases r; auto)+

lemma relay_key_for_sent:
  assumes "relay_key_for opts env f = (f', res)"
  shows "cr_sent f' = cr_sent f" "res = Inl e \<Longrightarrow> \<exists>reason. e = KeyError reason"
  using assms
  by (auto simp: relay_key_for_def note_skipped_def client_register_def Let_def map_sum_Inl map_sum_Inr
      split: option.splits sum.splits prod.splits client_error.splits if_splits)

lemma and_then_cases:
  assumes "and_then r rest = (f', res)"
  obtains (failed) e where "r = (f', Inl e)" "res = Inl e" | (went_on) f x where "r = (f, Inr x)" "rest f x = (f', res)"
  using assms by (auto simp: and_then_def split: prod.splits sum.splits)

lemma client_push_cases:
  assumes "client_push env key payload f = (f', res)"
  obtains (threw) r e where "cr_sent f' = cr_sent f @ [(key, payload, RelayDown r)]" "res = Inl e"
    | (answered) status body where "cr_sent f' = cr_sent f @ [(key, payload, RelayReply status body)]" "res = Inr (status, body)"
  using assms by (auto simp: client_push_def Let_def split: relay_reply.splits)

text \<open>The pushes of one payload, as a call's result sees them: without a result none of them was taken, and with a status the last of
  them was answered with it.\<close>

definition sends :: "nat \<Rightarrow> client_payload \<Rightarrow> client_run \<Rightarrow> client_run \<Rightarrow> (client_error + int) \<Rightarrow> bool" where
  "sends n p f f' res \<longleftrightarrow>
     (\<exists>xs. cr_sent f' = cr_sent f @ xs \<and> length xs \<le> n \<and> (\<forall>x \<in> set xs. fst (snd x) = p) \<and>
        (case res of Inl e \<Rightarrow> (\<forall>x \<in> set xs. \<not> taken x) \<and> (xs = [] \<longrightarrow> (\<exists>reason. e = KeyError reason))
         | Inr status \<Rightarrow> xs \<noteq> [] \<and> (\<forall>x \<in> set (butlast xs). \<not> taken x) \<and> (taken (last xs) \<longleftrightarrow> reply_ok status)))"

abbreviation status_of :: "client_error + string \<times> int \<times> json option \<Rightarrow> client_error + int" where
  "status_of \<equiv> map_sum id (\<lambda>(key, status, body). status)"

lemma none_of_butlast: "xs \<noteq> [] \<Longrightarrow> (\<forall>x \<in> set xs. \<not> P x) \<longleftrightarrow> (\<forall>x \<in> set (butlast xs). \<not> P x) \<and> \<not> P (last xs)"
  by (induction xs) auto

text \<open>An answer that is no success says the same as an error once a push was made.\<close>

lemma sends_failed: "sends n p f f' (Inr status) \<Longrightarrow> \<not> reply_ok status \<Longrightarrow> sends n p f f' (Inl e)"
  by (fastforce simp: sends_def none_of_butlast)

lemma sends_on_client [simp]:
  "sends n p (on_client g f) f' res \<longleftrightarrow> sends n p f f' res" "sends n p f (on_client g f') res \<longleftrightarrow> sends n p f f' res"
  by (simp_all add: sends_def)

lemma sends_again:
  assumes "sends n p f f1 (Inr status)" "\<not> reply_ok status" "sends m p f1 f' res"
  shows "sends (n + m) p f f' res"
proof -
  obtain xs where xs: "cr_sent f1 = cr_sent f @ xs" "length xs \<le> n" "\<forall>x \<in> set xs. fst (snd x) = p" "xs \<noteq> []"
    "\<forall>x \<in> set (butlast xs). \<not> taken x" "\<not> taken (last xs)"
    using assms(1,2) by (auto simp: sends_def)
  then have none: "\<forall>x \<in> set xs. \<not> taken x" by (simp add: none_of_butlast)
  obtain ys where "cr_sent f' = cr_sent f1 @ ys" "length ys \<le> m" "\<forall>x \<in> set ys. fst (snd x) = p"
    "case res of Inl e \<Rightarrow> (\<forall>x \<in> set ys. \<not> taken x) \<and> (ys = [] \<longrightarrow> (\<exists>reason. e = KeyError reason))
     | Inr status \<Rightarrow> ys \<noteq> [] \<and> (\<forall>x \<in> set (butlast ys). \<not> taken x) \<and> (taken (last ys) \<longleftrightarrow> reply_ok status)"
    using assms(3) by (auto simp: sends_def)
  with xs none show ?thesis
    unfolding sends_def by (intro exI[of _ "xs @ ys"]) (auto simp: butlast_append split: sum.splits)
qed

lemma keyed_push_sends:
  assumes "keyed_push opts env payload f = (f', res)"
  shows "sends 1 payload f f' (status_of res)"
  using assms unfolding keyed_push_def
proof (cases rule: and_then_cases)
  case (failed e)
  then show ?thesis using relay_key_for_sent[OF failed(1)] by (auto simp: sends_def)
next
  case (went_on f1 key)
  note f1 = relay_key_for_sent(1)[OF went_on(1)]
  from went_on(2) show ?thesis
  proof (cases rule: and_then_cases)
    case (failed e)
    from failed(1) show ?thesis
      by (cases rule: client_push_cases) (use failed(2) f1 in \<open>auto simp: sends_def\<close>)
  next
    case (went_on f2 a)
    from went_on(1) show ?thesis
      by (cases rule: client_push_cases) (use went_on(2) f1 in \<open>auto simp: sends_def\<close>)
  qed
qed

lemma push_once_more_sends:
  assumes "push_once_more opts env payload f = (f', res)"
  shows "sends 2 payload f f' (status_of res)"
  using assms unfolding push_once_more_def
proof (cases rule: and_then_cases)
  case (failed e)
  then show ?thesis using keyed_push_sends[OF failed(1)] by (auto simp: sends_def)
next
  case (went_on f1 a)
  obtain key status body where a: "a = (key, status, body)" by (cases a) auto
  have first: "sends 1 payload f f1 (Inr status)" using keyed_push_sends[OF went_on(1)] a by simp
  show ?thesis
  proof (cases "status = 401")
    case True
    then have "keyed_push opts env payload (on_client (drop_key opts key) f1) = (f', res)" using went_on(2) a by simp
    from keyed_push_sends[OF this] have "sends 1 payload f1 f' (status_of res)" by simp
    from sends_again[OF first _ this] True show ?thesis by (simp add: reply_ok_def numeral_2_eq_2)
  next
    case False
    with went_on(2) a first show ?thesis by (auto simp: sends_def)
  qed
qed

lemma push_reregistered_sends:
  assumes "push_reregistered opts env payload key f = (f', res)"
  shows "sends 1 payload f f' res"
  using assms unfolding push_reregistered_def
proof (cases rule: and_then_cases)
  case (failed e)
  then show ?thesis using keyed_push_sends[OF failed(1)] by (simp add: sends_def)
next
  case (went_on f1 a)
  then show ?thesis
    using keyed_push_sends[OF went_on(1)]
    by (auto simp: is_topic_mismatch_def reply_ok_def split: if_splits prod.splits intro: sends_failed)
qed


lemma push_settled_sends:
  assumes "sends n p f f1 res1" "and_then (f1, res1) push_settled = (f', res)"
  shows "sends n p f f' res"
  using assms by (auto simp: and_then_def push_settled_def split: sum.splits if_splits intro: sends_failed)

text \<open>What follows the first part of a payload: it is over, or there is a mismatch, and then one more try or none.\<close>

lemma push_rest_sends:
  assumes first: "sends 2 p f f1 (Inr status)"
    and rest: "(if is_topic_mismatch status body then r else (f1, Inr status)) = (f2, res)"
    and mismatch: "r = (f2, res) \<Longrightarrow> sends 1 p f1 f2 res \<or> (cr_sent f2 = cr_sent f1 \<and> (\<exists>e. res = Inl e))"
  shows "sends 3 p f f2 res"
proof (cases "is_topic_mismatch status body")
  case True
  then have no: "\<not> reply_ok status" by (simp add: is_topic_mismatch_def reply_ok_def)
  from True rest mismatch consider "sends 1 p f1 f2 res" | e where "cr_sent f2 = cr_sent f1" "res = Inl e" by auto
  then show ?thesis
  proof cases
    case 1
    from sends_again[OF first no 1] show ?thesis by (simp add: numeral_3_eq_3)
  next
    case 2
    with sends_failed[OF first no, of e] show ?thesis by (auto simp: sends_def)
  qed
next
  case False
  with first rest show ?thesis by (auto simp: sends_def)
qed

lemma push_secret_sends:
  assumes "push_secret opts env p f = (f', res)"
  shows "sends 3 p f f' res"
  using assms unfolding push_secret_def
proof (cases rule: and_then_cases)
  case (failed e)
  then show ?thesis using push_once_more_sends[OF failed(1)] by (auto simp: sends_def)
next
  case (went_on f1 a)
  obtain key status body where a: "a = (key, status, body)" by (cases a) auto
  obtain f2 res2 where r: "(if is_topic_mismatch status body then push_reregistered opts env p key f1 else (f1, Inr status)) = (f2, res2)"
    by fastforce
  have "sends 3 p f f2 res2"
    by (rule push_rest_sends[OF _ r]) (use push_once_more_sends[OF went_on(1)] a push_reregistered_sends in auto)
  from push_settled_sends[OF this] went_on(2) a r show ?thesis by simp
qed

lemma push_plain_sends:
  assumes "push_plain opts env p f = (f', res)"
  shows "sends 3 p f f' res"
  using assms unfolding push_plain_def
proof (cases rule: and_then_cases)
  case (failed e)
  then show ?thesis using push_once_more_sends[OF failed(1)] by (auto simp: sends_def)
next
  case (went_on f1 a)
  obtain key status body where a: "a = (key, status, body)" by (cases a) auto
  define mismatched where "mismatched =
     (if topic_hash (co_sha opts) (co_base_url opts) (cp_topic_name p) \<noteq> cp_hash p
      then (on_client (warn_foreign_topic (cp_topic_name p)) f1, Inl (KeyError ''other base URL''))
      else push_reregistered opts env p key f1)"
  obtain f2 res2 where r: "(if is_topic_mismatch status body then mismatched else (f1, Inr status)) = (f2, res2)" by fastforce
  have "sends 3 p f f2 res2"
    by (rule push_rest_sends[OF _ r])
       (use push_once_more_sends[OF went_on(1)] a push_reregistered_sends in \<open>auto simp: mismatched_def split: if_splits\<close>)
  moreover have "and_then (f2, res2) push_settled = (f', res)"
    using went_on(2) a by (simp add: r[unfolded mismatched_def])
  ultimately show ?thesis by (rule push_settled_sends)
qed

lemma sends_split:
  "sends n p f f' res \<Longrightarrow> \<exists>xs. cr_sent f' = cr_sent f @ xs \<and> length xs \<le> n \<and> (\<forall>x \<in> set xs. fst (snd x) = p) \<and>
     (\<forall>x \<in> set (butlast xs). \<not> taken x) \<and> (got_through xs \<longleftrightarrow> (\<exists>status. res = Inr status \<and> reply_ok status)) \<and>
     (xs = [] \<longrightarrow> (\<exists>reason. res = Inl (KeyError reason)))"
  by (cases res) (auto simp: sends_def got_through_def none_of_butlast, blast dest: in_set_butlastD)

lemma settled_status: "push_secret opts env p f = (f', Inr status) \<Longrightarrow> reply_ok status" "push_plain opts env p f = (f', Inr status) \<Longrightarrow> reply_ok status"
  unfolding push_secret_def push_plain_def
  by (auto simp: and_then_def push_settled_def split: prod.splits sum.splits if_splits)

text \<open>Whether anything is sent for a payload is decided by the key alone.\<close>

lemma sends_grows: "sends n p f f' res \<Longrightarrow> length (cr_sent f) \<le> length (cr_sent f')"
  by (auto simp: sends_def)

lemma keyed_push_key:
  assumes "keyed_push opts env p f = (f', res)"
  shows "case snd (relay_key_for opts env f) of Inl e \<Rightarrow> f' = fst (relay_key_for opts env f) \<and> res = Inl e
     | Inr key \<Rightarrow> length (cr_sent f) < length (cr_sent f')"
proof (cases "relay_key_for opts env f")
  case (Pair f0 k)
  show ?thesis
  proof (cases k)
    case (Inl e)
    with assms Pair show ?thesis by (simp add: keyed_push_def and_then_def)
  next
    case (Inr key)
    with assms Pair relay_key_for_sent(1)[of opts env f f0 k] show ?thesis
      by (auto simp: keyed_push_def and_then_def client_push_def Let_def split: relay_reply.splits)
  qed
qed

lemma push_once_more_key:
  assumes "push_once_more opts env p f = (f', res)"
  shows "case snd (relay_key_for opts env f) of Inl e \<Rightarrow> f' = fst (relay_key_for opts env f) \<and> res = Inl e
     | Inr key \<Rightarrow> length (cr_sent f) < length (cr_sent f')"
  using assms unfolding push_once_more_def
proof (cases rule: and_then_cases)
  case (failed e)
  then show ?thesis using keyed_push_key[OF failed(1)] by (auto split: sum.splits)
next
  case (went_on f1 a)
  obtain key status body where a: "a = (key, status, body)" by (cases a) auto
  have "length (cr_sent f1) \<le> length (cr_sent f')"
    using went_on(2) a sends_grows[OF keyed_push_sends, of opts env p "on_client (drop_key opts key) f1" f' res] by (auto split: if_splits)
  with keyed_push_key[OF went_on(1)] show ?thesis by (auto split: sum.splits)
qed

lemma after_once_more:
  assumes "and_then (push_once_more opts env p f) g = (f', res)" "\<And>f1 a. g f1 a = (f', res) \<Longrightarrow> length (cr_sent f1) \<le> length (cr_sent f')"
  shows "(cr_sent f' = cr_sent f) = (\<exists>e. snd (relay_key_for opts env f) = Inl e)"
  using assms(1)
proof (cases rule: and_then_cases)
  case (failed e)
  have "cr_sent (fst (relay_key_for opts env f)) = cr_sent f"
    using relay_key_for_sent(1)[of opts env f "fst (relay_key_for opts env f)" "snd (relay_key_for opts env f)"] by simp
  with push_once_more_key[OF failed(1)] failed(2) show ?thesis by (auto split: sum.splits)
next
  case (went_on f1 a)
  from assms(2)[OF went_on(2)] push_once_more_key[OF went_on(1)] show ?thesis by (auto split: sum.splits)
qed

lemma settled_grows: "and_then (f1, r) push_settled = (f', res) \<Longrightarrow> f' = f1"
  by (auto simp: and_then_def push_settled_def split: sum.splits)

lemma push_secret_key:
  assumes "push_secret opts env p f = (f', res)"
  shows "(cr_sent f' = cr_sent f) = (\<exists>e. snd (relay_key_for opts env f) = Inl e)"
  using assms unfolding push_secret_def
proof (rule after_once_more)
  fix f1 :: client_run and a :: "string \<times> int \<times> json option"
  obtain key status body where a: "a = (key, status, body)" by (cases a) auto
  assume "(case a of (key, status, body) \<Rightarrow>
      and_then (if is_topic_mismatch status body then push_reregistered opts env p key f1 else (f1, Inr status)) push_settled) = (f', res)"
  moreover obtain f2 r2 where r: "(if is_topic_mismatch status body then push_reregistered opts env p key f1 else (f1, Inr status)) = (f2, r2)"
    by fastforce
  ultimately have "f' = f2" using a settled_grows by auto
  with r show "length (cr_sent f1) \<le> length (cr_sent f')"
    using sends_grows[OF push_reregistered_sends] by (fastforce split: if_splits)
qed

lemma push_plain_key:
  assumes "push_plain opts env p f = (f', res)"
  shows "(cr_sent f' = cr_sent f) = (\<exists>e. snd (relay_key_for opts env f) = Inl e)"
  using assms unfolding push_plain_def
proof (rule after_once_more)
  fix f1 :: client_run and a :: "string \<times> int \<times> json option"
  obtain key status body where a: "a = (key, status, body)" by (cases a) auto
  define next_try where "next_try =
      (if is_topic_mismatch status body
       then (if topic_hash (co_sha opts) (co_base_url opts) (cp_topic_name p) \<noteq> cp_hash p
             then (on_client (warn_foreign_topic (cp_topic_name p)) f1, Inl (KeyError ''other base URL''))
             else push_reregistered opts env p key f1)
       else (f1, Inr status))"
  assume "(case a of (key, status, body) \<Rightarrow> and_then
      (if is_topic_mismatch status body
       then (if topic_hash (co_sha opts) (co_base_url opts) (cp_topic_name p) \<noteq> cp_hash p
             then (on_client (warn_foreign_topic (cp_topic_name p)) f1, Inl (KeyError ''other base URL''))
             else push_reregistered opts env p key f1)
       else (f1, Inr status)) push_settled) = (f', res)"
  then have run: "and_then next_try push_settled = (f', res)" by (simp add: a next_try_def)
  obtain f2 r2 where r: "next_try = (f2, r2)" by fastforce
  with run have "f' = f2" using settled_grows by auto
  with r show "length (cr_sent f1) \<le> length (cr_sent f')"
    using sends_grows[OF push_reregistered_sends] unfolding next_try_def by (fastforce split: if_splits)
qed

text \<open>C11: What forwarding one event costs and promises, whatever the relay answers and whatever the other forwards of the server
  do to the key meanwhile. An event that stays home sends nothing. Of any other the secret payload goes first, when the topic has a
  relay name, and the plain one next, when it is owed: each at most three times, and never again after the relay took it. Each of the two
  is tried unless there is no key when its turn comes, so that a payload that got nowhere does not keep the other from being tried, and when
  nothing was sent at all there was no key. The forward succeeds exactly when each payload it owes was taken.\<close>

theorem forward_contract:
  assumes run: "forward_one opts env ev f = (f', res)"
  defines "name \<equiv> relay_name_of (cl_db (cr_client f)) ev"
  defines "between \<equiv> (case name of None \<Rightarrow> f | Some n \<Rightarrow> fst (push_secret opts env (secret_payload opts ev n) f))"
  shows "(stays_home ev \<longrightarrow> f' = f \<and> res = Inr None) \<and>
    (\<not> stays_home ev \<longrightarrow>
      (\<exists>ss ps. cr_sent f' = cr_sent f @ ss @ ps \<and> cr_sent between = cr_sent f @ ss \<and>
        (case name of None \<Rightarrow> ss = []
         | Some n \<Rightarrow> tries (secret_payload opts ev n) ss \<and> (ss = [] \<longleftrightarrow> (\<exists>e. snd (relay_key_for opts env f) = Inl e))) \<and>
        (if owes_plain opts name
         then tries (plain_payload opts ev) ps \<and> (ps = [] \<longleftrightarrow> (\<exists>e. snd (relay_key_for opts env between) = Inl e)) else ps = []) \<and>
        ((\<exists>status. res = Inr status) \<longleftrightarrow> (name \<noteq> None \<longrightarrow> got_through ss) \<and> (owes_plain opts name \<longrightarrow> got_through ps)) \<and>
        (ss @ ps = [] \<longrightarrow> (\<exists>reason. res = Inl (KeyError reason)))))"
    (is "_ \<and> (_ \<longrightarrow> (\<exists>ss ps. ?sent ss ps))")
proof (cases "stays_home ev")
  case True
  with run show ?thesis by (simp add: forward_one_def)
next
  case away: False
  show ?thesis
  proof (cases name)
    case None
    obtain f1 r where plain: "push_plain opts env (plain_payload opts ev) f = (f1, r)" by fastforce
    with run away None have out: "f' = f1" "res = map_sum id Some r" by (auto simp: forward_one_def owes_plain_def name_def)
    from sends_split[OF push_plain_sends[OF plain]] obtain ps where p: "cr_sent f1 = cr_sent f @ ps" "tries (plain_payload opts ev) ps"
      "got_through ps \<longleftrightarrow> (\<exists>status. r = Inr status \<and> reply_ok status)" "ps = [] \<longrightarrow> (\<exists>reason. r = Inl (KeyError reason))"
      by (auto simp: tries_def)
    have "ps = [] \<longleftrightarrow> (\<exists>e. snd (relay_key_for opts env f) = Inl e)" using push_plain_key[OF plain] p(1) by simp
    moreover have "(\<exists>status. r = Inr status \<and> reply_ok status) \<longleftrightarrow> (\<exists>status. r = Inr status)" using settled_status(2) plain by auto
    ultimately have "?sent [] ps" using p None out by (auto simp: between_def owes_plain_def map_sum_Inr map_sum_Inl)
    with away show ?thesis by blast
  next
    case (Some n)
    obtain f1 r1 where secret: "push_secret opts env (secret_payload opts ev n) f = (f1, r1)" by fastforce
    obtain f2 r2 where plain: "push_plain opts env (plain_payload opts ev) f1 = (f2, r2)" by fastforce
    have between: "between = f1" by (simp add: between_def Some secret)
    from sends_split[OF push_secret_sends[OF secret]] obtain ss where s: "cr_sent f1 = cr_sent f @ ss" "tries (secret_payload opts ev n) ss"
      "got_through ss \<longleftrightarrow> (\<exists>status. r1 = Inr status \<and> reply_ok status)" "ss = [] \<longrightarrow> (\<exists>reason. r1 = Inl (KeyError reason))"
      by (auto simp: tries_def)
    from sends_split[OF push_plain_sends[OF plain]] obtain ps where p: "cr_sent f2 = cr_sent f1 @ ps" "tries (plain_payload opts ev) ps"
      "got_through ps \<longleftrightarrow> (\<exists>status. r2 = Inr status \<and> reply_ok status)"
      by (auto simp: tries_def)
    have ok: "(\<exists>status. r1 = Inr status \<and> reply_ok status) \<longleftrightarrow> (\<exists>status. r1 = Inr status)"
      "(\<exists>status. r2 = Inr status \<and> reply_ok status) \<longleftrightarrow> (\<exists>status. r2 = Inr status)"
      using settled_status secret plain by auto
    have keys: "ss = [] \<longleftrightarrow> (\<exists>e. snd (relay_key_for opts env f) = Inl e)" "ps = [] \<longleftrightarrow> (\<exists>e. snd (relay_key_for opts env f1) = Inl e)"
      using push_secret_key[OF secret] push_plain_key[OF plain] s(1) p(1) by simp_all
    show ?thesis
    proof (cases "co_plain_hash opts")
      case True
      then have "f' = f2" "res = (case map_sum id Some r1 of Inl e \<Rightarrow> Inl e | Inr _ \<Rightarrow> map_sum id Some r2)"
        using run away Some secret plain by (auto simp: forward_one_def owes_plain_def name_def)
      then have "?sent ss ps"
        using s p True Some between keys unfolding ok
        by (auto simp: owes_plain_def map_sum_Inr map_sum_Inl split: sum.splits)
      with away show ?thesis by blast
    next
      case False
      then have "f' = f1" "res = map_sum id Some r1"
        using run away Some secret by (auto simp: forward_one_def owes_plain_def name_def split: sum.splits)
      then have "?sent ss []"
        using s False Some between keys(1) unfolding ok by (auto simp: owes_plain_def map_sum_Inr map_sum_Inl)
      with away show ?thesis by blast
    qed
  qed
qed



section \<open>Waiting after a failed registration\<close>

text \<open>Why an answer to a registration is a failure; \<^term>\<open>None\<close> when it brought a key.\<close>

definition failure_reason :: "relay_reply \<Rightarrow> string option" where
  "failure_reason a =
     (case a of RelayDown redirected \<Rightarrow> Some (if redirected then ''redirect'' else ''network'')
      | RelayReply status body \<Rightarrow>
          if \<not> reply_ok status then Some (reason_for status body)
          else if (case body of None \<Rightarrow> None | Some v \<Rightarrow> if is_record v then text_field ''relay_key'' v else None) = None
          then Some ''bad_answer'' else None)"

text \<open>The registrations a client starts: each call with the time it starts, the time its answer is there, and the answer. A call that comes
  too early makes no request.\<close>

type_synonym registration_try = "int \<times> int \<times> relay_reply"

definition quiet_outside :: "int \<Rightarrow> int \<Rightarrow> relay_reply \<Rightarrow> outside" where
  "quiet_outside start done_at a =
     \<lparr>ou_register = (\<lambda>_ _. a), ou_push = (\<lambda>_ _ _. RelayDown False), ou_clock = (\<lambda>k. if k = 0 then start else done_at),
      ou_challenge = (\<lambda>_. []), ou_shared = (\<lambda>_. None), ou_meanwhile = (\<lambda>_ st. st)\<rparr>"

definition try_registration ::
  "client_options \<Rightarrow> client_state \<times> registration_try list \<Rightarrow> registration_try \<Rightarrow> client_state \<times> registration_try list" where
  "try_registration opts acc call =
     (case acc of (st, made) \<Rightarrow> (case call of (start, done_at, a) \<Rightarrow>
        (case client_register opts (quiet_outside start done_at a) \<lparr>cr_client = st, cr_waits = 0, cr_sent = []\<rparr> of
           (f, res) \<Rightarrow> (cr_client f, if cr_waits f = 0 then made else made @ [call]))))"

definition fresh_client :: "db \<Rightarrow> client_state" where
  "fresh_client s = \<lparr>cl_db = s, cl_challenge = None, cl_backoff = 0, cl_next_at = 0, cl_last_reason = None, cl_warned = [], cl_skipped = 0,
     cl_log = []\<rparr>"

definition registration_tries :: "client_options \<Rightarrow> db \<Rightarrow> registration_try list \<Rightarrow> client_state \<times> registration_try list" where
  "registration_tries opts s calls = foldl (try_registration opts) (fresh_client s, []) calls"

text \<open>The wait the code is meant to make: nothing after a key, else doubling from 30 seconds, cut at the cap of the reason.\<close>

fun next_wait :: "int \<Rightarrow> relay_reply \<Rightarrow> int" where
  "next_wait w a = (case failure_reason a of None \<Rightarrow> 0 | Some r \<Rightarrow> min (if w = 0 then 30000 else w * 2) (backoff_cap r))"

definition wait_after :: "registration_try list \<Rightarrow> int" where
  "wait_after made = foldl (\<lambda>w (start, done_at, a). next_wait w a) 0 made"

lemma answered_backoff:
  "cl_backoff (fst (registration_answered opts now a st)) = next_wait (cl_backoff st) a \<and>
   cl_next_at (fst (registration_answered opts now a st)) = (if failure_reason a = None then 0 else now + next_wait (cl_backoff st) a)"
  by (auto simp: registration_answered_def Let_def failure_reason_def client_fail_def take_skipped_def client_logs_def key_arrived_def store_key_def
      backoff_first_def split: relay_reply.splits option.splits prod.splits)

lemma answered_challenge:
  "registration_answered opts now a (st\<lparr>cl_challenge := c\<rparr>) =
     (case registration_answered opts now a st of (st', res) \<Rightarrow> (st'\<lparr>cl_challenge := c\<rparr>, res))"
  by (auto simp: registration_answered_def Let_def client_fail_def take_skipped_def client_logs_def key_arrived_def store_key_def
      split: relay_reply.splits option.splits)

lemma try_registration_cases:
  "try_registration opts (st, made) (start, done_at, a) =
     (if start < cl_next_at st then (st, made)
      else ((fst (registration_answered opts done_at a st))\<lparr>cl_challenge := None\<rparr>, made @ [(start, done_at, a)]))"
  by (auto simp: try_registration_def client_register_def quiet_outside_def now_of_def waited_def on_client_def answered_challenge
      split: prod.splits)

declare next_wait.simps [simp del]

lemma wait_after_snoc: "wait_after (made @ [(start, done_at, a)]) = next_wait (wait_after made) a"
  by (simp add: wait_after_def)

lemma next_wait_bounds:
  "w = 0 \<or> 30000 \<le> w \<Longrightarrow> failure_reason a = Some r \<Longrightarrow> 30000 \<le> next_wait w a \<and> next_wait w a \<le> backoff_cap r"
  by (auto simp: next_wait.simps backoff_cap_def)

lemma wait_after_bounds: "wait_after made = 0 \<or> 30000 \<le> wait_after made"
proof (induction made rule: rev_induct)
  case (snoc x made)
  then show ?case using next_wait_bounds by (cases x; cases "failure_reason (snd (snd x))") (auto simp: wait_after_snoc next_wait.simps)
qed (simp add: wait_after_def)

lemma wait_doubles:
  assumes "xs \<noteq> []" "\<forall>x \<in> set xs. \<exists>r. failure_reason (snd (snd x)) = Some r \<and> r \<noteq> ''rate_limited''" "wait_after pre = 0"
  shows "wait_after (pre @ xs) = min (30000 * 2 ^ (length xs - 1)) 3600000"
  using assms(1,2)
proof (induction xs rule: rev_nonempty_induct)
  case (single x)
  then show ?case using assms(3) by (cases x) (auto simp: wait_after_snoc next_wait.simps backoff_cap_def)
next
  case (snoc x xs)
  obtain start done_at a r where x: "x = (start, done_at, a)" "failure_reason a = Some r" "r \<noteq> ''rate_limited''"
    using snoc.prems by (cases x) auto
  have "wait_after (pre @ xs @ [x]) = next_wait (wait_after (pre @ xs)) a" using wait_after_snoc[of "pre @ xs"] x(1) by simp
  also have "\<dots> = min (2 * min (30000 * 2 ^ (length xs - 1)) 3600000) 3600000"
  proof -
    define m :: int where "m = min (30000 * 2 ^ (length xs - 1)) 3600000"
    then have "m \<noteq> 0" by (simp add: min_def)
    moreover have "wait_after (pre @ xs) = m" using snoc by (simp add: m_def)
    ultimately show ?thesis using x unfolding m_def[symmetric] by (simp add: next_wait.simps backoff_cap_def mult.commute)
  qed
  also have "\<dots> = min (30000 * 2 ^ length xs) 3600000"
    using snoc.hyps by (cases xs) (auto simp: min_def)
  finally show ?case by simp
qed

text \<open>When the next registration may start.\<close>

definition due_after :: "registration_try list \<Rightarrow> int" where
  "due_after made =
     (if made = [] then 0
      else (case last made of (start, done_at, a) \<Rightarrow> if failure_reason a = None then 0 else done_at + wait_after made))"

definition spaced :: "registration_try list \<Rightarrow> bool" where
  "spaced made \<longleftrightarrow> (\<forall>i. Suc i < length made \<longrightarrow> due_after (take (Suc i) made) \<le> fst (made ! Suc i))"

lemma due_after_snoc: "due_after (made @ [(start, done_at, a)]) =
    (if failure_reason a = None then 0 else done_at + next_wait (wait_after made) a)"
  by (simp add: due_after_def wait_after_snoc)

lemma spaced_snoc: "spaced (made @ [x]) \<longleftrightarrow> spaced made \<and> (made \<noteq> [] \<longrightarrow> due_after made \<le> fst x)"
proof -
  have "(\<forall>i. Suc i < length (made @ [x]) \<longrightarrow> P i) \<longleftrightarrow> (\<forall>i. Suc i < length made \<longrightarrow> P i) \<and> (made \<noteq> [] \<longrightarrow> P (length made - 1))" for P
    by (cases made) (auto simp: less_Suc_eq)
  then show ?thesis by (auto simp: spaced_def nth_append)
qed

lemma registration_tries_ok:
  "cl_backoff (fst (registration_tries opts s calls)) = wait_after (snd (registration_tries opts s calls)) \<and>
   cl_next_at (fst (registration_tries opts s calls)) = due_after (snd (registration_tries opts s calls)) \<and>
   spaced (snd (registration_tries opts s calls))"
proof (induction calls rule: rev_induct)
  case (snoc call calls)
  obtain st made where run: "registration_tries opts s calls = (st, made)" by fastforce
  obtain start done_at a where call: "call = (start, done_at, a)" by (cases call) auto
  have "registration_tries opts s (calls @ [call]) = try_registration opts (st, made) call"
    using run by (simp add: registration_tries_def)
  with snoc run show ?case
    using answered_backoff[of opts done_at a st]
    by (auto simp: try_registration_cases call wait_after_snoc due_after_snoc spaced_snoc)
qed (simp add: registration_tries_def fresh_client_def wait_after_def due_after_def spaced_def)

text \<open>The registrations of a client, whenever it is asked for a key and whatever the relay answers. After a failure the next one starts no
  sooner than the wait after it: 30 seconds at first, doubled by every failure in a row, never more than an hour, and never
  more than five minutes after a failure that is a rate limit. Once the wait is over, or after a success, a call does make its request: the client
  never stops trying.\<close>

theorem registration_backs_off:
  "let made = snd (registration_tries opts s calls) in
     (\<forall>i. Suc i < length made \<longrightarrow> due_after (take (Suc i) made) \<le> fst (made ! Suc i)) \<and>
     (\<forall>start done_at a. snd (registration_tries opts s (calls @ [(start, done_at, a)])) =
        (if due_after made \<le> start then made @ [(start, done_at, a)] else made)) \<and>
     (\<forall>pre start done_at a r. made = pre @ [(start, done_at, a)] \<and> failure_reason a = Some r \<longrightarrow>
        done_at + 30000 \<le> due_after made \<and> due_after made \<le> done_at + backoff_cap r) \<and>
     (\<forall>pre xs start done_at a. made = pre @ xs @ [(start, done_at, a)] \<and> due_after pre = 0 \<and> wait_after pre = 0 \<and>
        (\<forall>x \<in> set (xs @ [(start, done_at, a)]). \<exists>r. failure_reason (snd (snd x)) = Some r \<and> r \<noteq> ''rate_limited'') \<longrightarrow>
        due_after made = done_at + min (30000 * 2 ^ length xs) 3600000)"
proof -
  obtain st made where run: "registration_tries opts s calls = (st, made)" by fastforce
  note ok = registration_tries_ok[of opts s calls, unfolded run fst_conv snd_conv]
  have "snd (registration_tries opts s (calls @ [(start, done_at, a)])) =
      (if due_after made \<le> start then made @ [(start, done_at, a)] else made)" for start done_at a
    using ok run by (simp add: registration_tries_def try_registration_cases)
  moreover have "done_at + 30000 \<le> due_after made \<and> due_after made \<le> done_at + backoff_cap r"
    if "made = pre @ [(start, done_at, a)]" "failure_reason a = Some r" for pre start done_at a r
    using next_wait_bounds[OF wait_after_bounds that(2), of pre] that by (simp add: due_after_snoc)
  moreover have "due_after made = done_at + min (30000 * 2 ^ length xs) 3600000"
    if "made = pre @ xs @ [(start, done_at, a)]" "wait_after pre = 0"
      "\<forall>x \<in> set (xs @ [(start, done_at, a)]). \<exists>r. failure_reason (snd (snd x)) = Some r \<and> r \<noteq> ''rate_limited''"
    for pre xs start done_at a
    using wait_doubles[OF _ that(3,2)] that by (auto simp: due_after_def)
  ultimately show ?thesis using ok by (auto simp: Let_def run spaced_def)
qed



section \<open>The rest of a batch\<close>

text \<open>One scan of the timers hands over all its events at once. When the relay refuses the plain push of a topic that
  was created under another base URL, which no key can mend, the forward of the batch ends there: no event after it is sent, for any
  topic, although the scan has already moved their timers on.\<close>

theorem foreign_topic_silences_the_rest:
  assumes "\<not> stays_home ev" "relay_name_of (cl_db (cr_client f)) ev = None" "stored_key opts (cr_client f) = Some key"
    and "ou_push env (cr_waits f) key (plain_payload opts ev) = RelayReply 403 body" "error_text body = Some ''topic mismatch''"
    and "topic_hash (co_sha opts) (co_base_url opts) (e_topic ev) \<noteq> e_topic_hash ev"
  shows "cr_sent (fst (self_hosted_dispatch opts env (ev # evs) f)) = cr_sent f @ [(key, plain_payload opts ev, RelayReply 403 body)]"
proof -
  obtain f' e where "push_plain opts env (plain_payload opts ev) f = (f', Inl e)"
    "cr_sent f' = cr_sent f @ [(key, plain_payload opts ev, RelayReply 403 body)]"
    using assms(3-)
    by (fastforce simp: push_plain_def push_once_more_def keyed_push_def and_then_def relay_key_for_def client_push_def Let_def
        is_topic_mismatch_def plain_payload_def client_payload_for_def)
  with assms(1,2) show ?thesis
    by (auto simp: self_hosted_dispatch_def forward_one_def owes_plain_def)
qed


section \<open>Over the wire\<close>

text \<open>What the relay reads of a push: \<open>JSON.parse\<close> of \<open>JSON.stringify\<close>.\<close>

definition on_the_wire :: "client_payload \<Rightarrow> relay_payload" where
  "on_the_wire p =
     \<lparr>rp_topic_hash = Some (JText (cp_hash p)), rp_kind = Some (JText (kind_text (cp_kind p))), rp_topic = Some (JText (cp_topic_name p)),
      rp_incident_id = cp_incident_id p, rp_message_id = cp_message_id p, rp_priority = cp_priority p, rp_ring_until = cp_ring_until p,
      rp_title = map_option fst (cp_content p), rp_body = map_option snd (cp_content p)\<rparr>"



text \<open>An event as the server makes it while the switch of its topic stays as it is: an alarm is critical exactly when it has an incident,
  a heads-up has none and is not, and a message that joins an acknowledged incident is not.\<close>

definition home_event :: "delivery_event \<Rightarrow> bool" where
  "home_event ev \<longleftrightarrow>
     (if e_incident_id ev = None then \<not> e_critical ev \<and> (e_kind ev = EvP4 \<and> e_priority ev = 4 \<or> e_kind ev = EvP5 \<and> e_priority ev = 5)
      else e_incident_id ev \<noteq> Some [] \<and> e_priority ev = 5 \<and> e_kind ev \<noteq> EvP4 \<and> (e_critical ev \<or> e_kind ev = EvP5))"



text \<open>The events of the publish routes are such events.\<close>

lemma published_events_at_home:
  "pi_priority p \<le> 5 \<Longrightarrow> ev \<in> set (standard_events mid t p) \<Longrightarrow> home_event ev"
  "publish_critical now ids q s = (s', m, i, evs) \<Longrightarrow> i_id i \<noteq> [] \<Longrightarrow> ev \<in> set evs \<Longrightarrow> home_event ev"
  by (auto simp: standard_events_def home_event_def publish_critical_def Let_def make_event_def split: if_splits)

subsection \<open>A topic whose switch went off\<close>

text \<open>A repeat of an incident whose topic's critical switch has gone off since is not critical, and the server's own push
  senders give it no sound. The wire has no field for the flag, and the relay takes every push of priority 5 with an incident for critical.\<close>

theorem switched_off_alarm_rings_through_the_relay:
  assumes "\<not> t_critical t" "i_id i \<noteq> []"
  shows "\<not> is_critical_push (timer_event EvRepeat (i, t) opened s) \<and>
    is_critical_push (relayed_event EvRepeat hash (on_the_wire (plain_payload opts (timer_event EvRepeat (i, t) opened s))) acc)"
  using assms
  by (simp add: is_critical_push_def timer_event_def make_event_def Let_def relayed_event_def on_the_wire_def plain_payload_def
      client_payload_for_def is_critical_relayed_def is_heads_up_push_def split: option.split)

subsection \<open>Concrete runs\<close>

definition sample_client_options :: client_options where
  "sample_client_options = \<lparr>co_relay_url = ''https://relay.example'', co_base_url = ''https://a.example'', co_full_content = False,
     co_secret = None, co_plain_hash = True, co_version = ''1'', co_sha = sample_sha\<rparr>"

definition sample_client :: client_state where
  "sample_client = fresh_client (empty_db\<lparr>relay_client_credentials :=
     [\<lparr>rc_relay_url = ''https://relay.example'', rc_relay_key = ''rk_1'', rc_created_at = 0\<rparr>]\<rparr>)"

definition answering :: "relay_reply \<Rightarrow> outside" where
  "answering a = (quiet_outside 0 0 (RelayDown False))\<lparr>ou_push := (\<lambda>_ _ _. a)\<rparr>"

definition sample_heads_up :: delivery_event where
  "sample_heads_up = \<lparr>e_kind = EvP4, e_topic_hash = sample_sha [], e_topic = ''alerts'', e_incident_id = None, e_message_id = ''m'',
     e_priority = 4, e_max_ring_s = 1800, e_ring_until = None, e_server = ''https://a.example'', e_title = ''t'', e_body = ''b'',
     e_critical = False, e_relay_content = None, e_account_id = None\<rparr>"

theorem forward_contract_witness:
  "\<exists>ps. cr_sent (fst (forward_one sample_client_options (answering (RelayReply 202 None)) sample_heads_up
       \<lparr>cr_client = sample_client, cr_waits = 0, cr_sent = []\<rparr>)) = ps \<and> tries (plain_payload sample_client_options sample_heads_up) ps"
proof -
  let ?f = "\<lparr>cr_client = sample_client, cr_waits = 0, cr_sent = []\<rparr>"
  let ?r = "forward_one sample_client_options (answering (RelayReply 202 None)) sample_heads_up ?f"
  have "\<not> stays_home sample_heads_up" by (simp add: stays_home_def sample_heads_up_def)
  moreover have "relay_name_of (cl_db (cr_client ?f)) sample_heads_up = None"
    by (simp add: relay_name_of_def sample_client_def fresh_client_def empty_db_def)
  ultimately show ?thesis
    using forward_contract[of sample_client_options "answering (RelayReply 202 None)" sample_heads_up ?f "fst ?r" "snd ?r"]
    by (auto simp: owes_plain_def)
qed

theorem registration_backs_off_witness:
  "due_after (snd (registration_tries sample_client_options empty_db [(0, 5, RelayReply 429 None)])) = 30005"
proof -
  have made: "snd (registration_tries sample_client_options empty_db [(0, 5, RelayReply 429 None)]) = [(0, 5, RelayReply 429 None)]"
    by (simp add: registration_tries_def try_registration_cases fresh_client_def)
  have reason: "failure_reason (RelayReply 429 None) = Some ''rate_limited''"
    by (simp add: failure_reason_def reply_ok_def reason_for_def)
  have "5 + 30000 \<le> due_after (snd (registration_tries sample_client_options empty_db [(0, 5, RelayReply 429 None)]))"
    using registration_backs_off[of sample_client_options empty_db "[(0, 5, RelayReply 429 None)]"] reason by (auto simp: made Let_def)
  moreover have "due_after [(0, 5, RelayReply 429 None)] = 30005"
    using reason by (simp add: due_after_def wait_after_def next_wait.simps backoff_cap_def)
  ultimately show ?thesis by (simp add: made)
qed


end
