(* ===== verification/Retention.thy ===== *)
theory Retention
  imports Incidents Tiers
begin

section \<open>Retention\<close>

text \<open>
  \<open>src/src/retention/prune.ts\<close>. A relay or hosted server deletes, once an hour, the ended incidents and the messages that are
  older than the window of the account that owns their topic, the closed rounds of the weekly check after 90 days, and the
  cancel answers after a year. Each of the three parts runs whether or not another threw.
\<close>

definition ended :: "incident_row \<Rightarrow> bool" where
  "ended i \<longleftrightarrow> i_state i = Closed \<or> i_state i = Expired"

text \<open>\<open>incident_id IS NULL OR incident_id IN (SELECT id FROM incidents WHERE state IN ('closed', 'expired'))\<close>.\<close>

definition message_ended :: "db \<Rightarrow> message_row \<Rightarrow> bool" where
  "message_ended s m \<longleftrightarrow>
     (case m_incident_id m of None \<Rightarrow> True | Some inc \<Rightarrow> list_ex (\<lambda>i. i_id i = inc \<and> ended i) (incidents s))"

definition old_message :: "ident \<Rightarrow> seconds \<Rightarrow> db \<Rightarrow> message_row \<Rightarrow> bool" where
  "old_message acc cutoff s m \<longleftrightarrow> m_created_at m < cutoff \<and> topic_owned_by s acc (m_topic_id m) \<and> message_ended s m"

definition old_incident :: "ident \<Rightarrow> seconds \<Rightarrow> db \<Rightarrow> incident_row \<Rightarrow> bool" where
  "old_incident acc cutoff s i \<longleftrightarrow> ended i \<and> i_opened_at i < cutoff \<and> topic_owned_by s acc (i_topic_id i)"

definition prune_account :: "seconds \<Rightarrow> account_row \<Rightarrow> db \<Rightarrow> db \<times> nat \<times> nat" where
  "prune_account now a s =
     (let cutoff = now - cap_history_days (caps_for (a_tier a)) * 86400;
          s1 = s\<lparr>messages := del_where (old_message (a_id a) cutoff s) (messages s)\<rparr>
      in (delete_incidents (old_incident (a_id a) cutoff s1) s1,
          count_where (old_incident (a_id a) cutoff s1) (incidents s1), count_where (old_message (a_id a) cutoff s) (messages s)))"

record prune_result =
  pn_accounts :: nat
  pn_incidents :: nat
  pn_messages :: nat

definition prune_history :: "seconds \<Rightarrow> server_mode \<Rightarrow> db \<Rightarrow> db \<times> prune_result" where
  "prune_history now md s =
     (if md = SelfHostedMode then (s, \<lparr>pn_accounts = 0, pn_incidents = 0, pn_messages = 0\<rparr>)
      else (case fold (\<lambda>a (s, incs, msgs). case prune_account now a s of (s1, i, m) \<Rightarrow> (s1, incs + i, msgs + m)) (accounts s) (s, 0, 0) of
              (s1, incs, msgs) \<Rightarrow> (s1, \<lparr>pn_accounts = length (accounts s), pn_incidents = incs, pn_messages = msgs\<rparr>)))"

definition round_retention :: int where "round_retention = 90 * 86400"

definition prune_check_rounds :: "seconds \<Rightarrow> server_mode \<Rightarrow> db \<Rightarrow> db \<times> nat" where
  "prune_check_rounds now md s =
     (if md = SelfHostedMode then (s, 0)
      else (let old = (\<lambda>r. cr_result r \<noteq> None \<and> cr_opened_at r < now - round_retention);
                gone = (\<lambda>rid. list_ex (\<lambda>r. old r \<and> cr_id r = rid) (check_rounds s))
            in (s\<lparr>check_rounds := del_where old (check_rounds s), check_attempts := del_where (\<lambda>a. gone (ca_round_id a)) (check_attempts s)\<rparr>,
                count_where old (check_rounds s))))"

definition cancel_answer_retention :: int where "cancel_answer_retention = 365 * 86400"

definition prune_cancel_answers :: "seconds \<Rightarrow> server_mode \<Rightarrow> db \<Rightarrow> db \<times> nat" where
  "prune_cancel_answers now md s =
     (if md \<noteq> HostedMode then (s, 0)
      else (let old = (\<lambda>a. an_created_at a < now - cancel_answer_retention)
            in (s\<lparr>cancel_answers := del_where old (cancel_answers s)\<rparr>, count_where old (cancel_answers s))))"

text \<open>One run of the timer. \<open>clk\<close> is the clock of each part.\<close>

definition prune_run :: "(nat \<Rightarrow> seconds) \<Rightarrow> server_mode \<Rightarrow> db \<Rightarrow> db" where
  "prune_run clk md s =
     fst (prune_cancel_answers (clk 2) md (fst (prune_check_rounds (clk 1) md (fst (prune_history (clk 0) md s)))))"

section \<open>What a prune takes\<close>

definition window_start :: "seconds \<Rightarrow> account_row \<Rightarrow> seconds" where
  "window_start now a = now - cap_history_days (caps_for (a_tier a)) * 86400"

text \<open>What goes for a list of accounts, said of the tables before.\<close>

definition incident_goes :: "seconds \<Rightarrow> account_row list \<Rightarrow> db \<Rightarrow> incident_row \<Rightarrow> bool" where
  "incident_goes now as s i \<longleftrightarrow> (\<exists>a \<in> set as. old_incident (a_id a) (window_start now a) s i)"

definition message_goes :: "seconds \<Rightarrow> account_row list \<Rightarrow> db \<Rightarrow> message_row \<Rightarrow> bool" where
  "message_goes now as s m \<longleftrightarrow> (\<exists>a \<in> set as. old_message (a_id a) (window_start now a) s m)"

definition incident_gone :: "seconds \<Rightarrow> account_row list \<Rightarrow> db \<Rightarrow> ident \<Rightarrow> bool" where
  "incident_gone now as s inc \<longleftrightarrow> (\<exists>i \<in> set (incidents s). i_id i = inc \<and> incident_goes now as s i)"

definition detach :: "(ident \<Rightarrow> bool) \<Rightarrow> message_row \<Rightarrow> message_row" where
  "detach gone m = (case m_incident_id m of None \<Rightarrow> m | Some inc \<Rightarrow> if gone inc then m\<lparr>m_incident_id := None\<rparr> else m)"

lemma detach_simps [simp]:
  "m_created_at (detach g m) = m_created_at m" "m_topic_id (detach g m) = m_topic_id m" "m_id (detach g m) = m_id m"
  "m_incident_id (detach g m) = (case m_incident_id m of None \<Rightarrow> None | Some inc \<Rightarrow> if g inc then None else Some inc)"
  by (auto simp: detach_def split: option.split)

lemma detach_detach: "detach g (detach h m) = detach (\<lambda>inc. h inc \<or> g inc) m"
  by (auto simp: detach_def split: option.split)

lemma upd_where_detach:
  "upd_where (\<lambda>m. case m_incident_id m of None \<Rightarrow> False | Some inc \<Rightarrow> gone inc) (\<lambda>m. m\<lparr>m_incident_id := None\<rparr>) rows = map (detach gone) rows"
  by (induction rows) (auto simp: detach_def split: option.split)

definition pruned_tables :: "seconds \<Rightarrow> account_row list \<Rightarrow> db \<Rightarrow> db" where
  "pruned_tables now as s = s\<lparr>incidents := filter (\<lambda>i. \<not> incident_goes now as s i) (incidents s),
      timers := filter (\<lambda>t. \<not> incident_gone now as s (tm_incident_id t)) (timers s),
      messages := map (detach (incident_gone now as s)) (filter (\<lambda>m. \<not> message_goes now as s m) (messages s))\<rparr>"

lemma old_incident_messages: "old_incident acc cutoff (s\<lparr>messages := ms\<rparr>) = old_incident acc cutoff s"
  by (intro ext) (simp add: old_incident_def topic_owned_by_def)

lemma prune_account_tables: "fst (prune_account now a s) = pruned_tables now [a] s"
proof -
  have "list_ex (\<lambda>i. old_incident (a_id a) (window_start now a) s i \<and> i_id i = inc) (incidents s) = incident_gone now [a] s inc" for inc
    by (auto simp: list_ex_iff incident_gone_def incident_goes_def)
  then show ?thesis
    by (simp add: prune_account_def Let_def delete_incidents_def pruned_tables_def upd_where_detach del_where_def incident_goes_def
        message_goes_def old_incident_messages window_start_def[symmetric])
qed

lemma pruned_rows:
  "incidents (pruned_tables now as s) = filter (\<lambda>i. \<not> incident_goes now as s i) (incidents s)"
  "timers (pruned_tables now as s) = filter (\<lambda>t. \<not> incident_gone now as s (tm_incident_id t)) (timers s)"
  "messages (pruned_tables now as s) = map (detach (incident_gone now as s)) (filter (\<lambda>m. \<not> message_goes now as s m) (messages s))"
  by (simp_all add: pruned_tables_def)

text \<open>Deleting for one account and then for others is deleting for all of them at once: an incident that is gone had ended, so a message
  that lost it goes as it would have gone before.\<close>

lemma pruned_tables_Cons:
  assumes "distinct (map i_id (incidents s))"
  shows "pruned_tables now as (pruned_tables now [a] s) = pruned_tables now (a # as) s"
proof -
  let ?s = "pruned_tables now [a] s"
  have owned: "topic_owned_by ?s = topic_owned_by s" by (intro ext) (simp add: pruned_tables_def topic_owned_by_def)
  have goes: "incident_goes now as ?s i = incident_goes now as s i" for i
    by (simp add: incident_goes_def old_incident_def owned)
  have both: "incident_goes now (a # as) s i \<longleftrightarrow> incident_goes now [a] s i \<or> incident_goes now as s i" for i
    by (auto simp: incident_goes_def)
  have unique: "i = j" if "i \<in> set (incidents s)" "j \<in> set (incidents s)" "i_id i = i_id j" for i j
    using distinct_map_unique[OF assms that] .
  have gone: "incident_gone now (a # as) s = (\<lambda>inc. incident_gone now [a] s inc \<or> incident_gone now as ?s inc)"
    using unique by (intro ext, auto simp: incident_gone_def both goes) (simp add: pruned_tables_def; blast)+
  have "message_ended ?s (detach (incident_gone now [a] s) m) = message_ended s m" for m
    by (auto simp: message_ended_def pruned_tables_def list_ex_iff incident_gone_def incident_goes_def old_incident_def split: option.split)
  then have msg: "message_goes now as ?s (detach (incident_gone now [a] s) m) = message_goes now as s m" for m
    by (simp add: message_goes_def old_message_def owned)
  have "message_goes now (a # as) s m \<longleftrightarrow> message_goes now [a] s m \<or> message_goes now as s m" for m
    by (auto simp: message_goes_def)
  then have "messages (pruned_tables now as ?s) = messages (pruned_tables now (a # as) s)"
    by (simp add: pruned_rows gone filter_map comp_def msg detach_detach conj_commute)
  moreover have "incidents (pruned_tables now as ?s) = incidents (pruned_tables now (a # as) s)"
    by (simp add: pruned_rows goes both conj_commute)
  moreover have "timers (pruned_tables now as ?s) = timers (pruned_tables now (a # as) s)"
    by (simp add: pruned_rows gone conj_commute)
  ultimately show ?thesis by (simp add: pruned_tables_def)
qed

lemma prune_fold:
  "distinct (map i_id (incidents s)) \<Longrightarrow>
   fst (fold (\<lambda>a (s, incs, msgs). case prune_account now a s of (s1, i, m) \<Rightarrow> (s1, incs + i, msgs + m)) as (s, k, n)) = pruned_tables now as s"
proof (induction as arbitrary: s k n)
  case Nil
  have none: "incident_gone now [] s = (\<lambda>_. False)" "incident_goes now [] s = (\<lambda>_. False)" "message_goes now [] s = (\<lambda>_. False)"
    by (auto simp: incident_goes_def message_goes_def incident_gone_def)
  have "detach (\<lambda>_. False) = id" by (auto simp: detach_def split: option.split)
  with none show ?case by (simp add: pruned_tables_def)
next
  case (Cons a as)
  have "distinct (map i_id (incidents (pruned_tables now [a] s)))"
    using Cons.prems by (simp add: pruned_tables_def distinct_map_filter)
  with Cons show ?case
    using prune_account_tables[of now a s] pruned_tables_Cons[of s now as a] by (simp split: prod.split) (metis fst_conv)
qed

text \<open>C23: What the hourly prune of the history takes, exactly. On a self-hosted server nothing. Elsewhere an incident goes when it is closed
  or expired, lies before the window of the account that owns its topic, and with it its timers; a message goes when it lies before that
  window and has no incident or an ended one. All other rows stay as they are, except that a message younger than its incident
  loses the reference to it; in particular nothing of an open or acknowledged incident goes, nothing inside the window does, and no
  other table changes.\<close>

theorem prune_history_exact:
  assumes "distinct (map i_id (incidents s))"
  shows "fst (prune_history now md s) =
    (if md = SelfHostedMode then s
     else s\<lparr>incidents := filter (\<lambda>i. \<not> incident_goes now (accounts s) s i) (incidents s),
            timers := filter (\<lambda>t. \<not> incident_gone now (accounts s) s (tm_incident_id t)) (timers s),
            messages := map (detach (incident_gone now (accounts s) s)) (filter (\<lambda>m. \<not> message_goes now (accounts s) s m) (messages s))\<rparr>)"
  using prune_fold[OF assms, of now "accounts s" 0 0]
  by (auto simp: prune_history_def pruned_tables_def split: prod.splits)

subsection \<open>A concrete prune\<close>

definition sample_topic :: topic_row where
  "sample_topic = \<lparr>t_id = ''t1'', t_account_id = ''a1'', t_name = ''alerts'', t_base_url = [], t_topic_hash = [], t_critical = True,
     t_repeat_interval_s = 30, t_max_ring_s = 1800, t_desk_timer_s = 600, t_relay_content = ContentNone, t_created_at = 0, t_relay_name = None\<rparr>"

definition sample_incident :: "ident \<Rightarrow> incident_state \<Rightarrow> incident_row" where
  "sample_incident inc state = \<lparr>i_id = inc, i_topic_id = ''t1'', i_state = state, i_opened_at = 0, i_acked_at = None, i_closed_at = Some 5,
     i_last_message_at = 0, i_updated_at = 5, i_max_ring_s = 1800\<rparr>"

definition sample_history :: db where
  "sample_history = empty_db\<lparr>
     accounts := [\<lparr>a_id = ''a1'', a_tier = Free, a_created_at = 0, a_join_token_hash = None, a_merged_into = None\<rparr>],
     topics := [sample_topic], incidents := [sample_incident ''i1'' Closed, sample_incident ''i2'' Acked]\<rparr>"

theorem prune_history_exact_witness:
  "map i_id (incidents (fst (prune_history 604801 RelayMode sample_history))) = [''i2''] \<and>
   incidents (fst (prune_history 604800 RelayMode sample_history)) = incidents sample_history"
proof -
  have ids: "distinct (map i_id (incidents sample_history))" by (simp add: sample_history_def sample_incident_def)
  show ?thesis
    by (simp add: prune_history_exact[OF ids])
       (simp add: sample_history_def empty_db_def sample_incident_def sample_topic_def incident_goes_def old_incident_def ended_def
         window_start_def topic_owned_by_def)
qed

end
