(* ===== verification/CancelAnswers.thy ===== *)
theory CancelAnswers
  imports Topics Limits Json Stats "HOL-Library.Multiset"
begin

section \<open>Cancel answers\<close>

text \<open>
  \<open>src/src/v1/cancel-answers.ts\<close>, the answer to "What made you cancel?", at most one per account in any 30 days, and the report of
  \<open>src/src/admin/cancel-answers-report.ts\<close>. Reasons are a closed list, so a column holds its text; platforms are the three of
  \<open>src/src/platform.ts\<close>.
\<close>

subsection \<open>The body\<close>

definition cancel_reasons :: "string list" where
  "cancel_reasons = [''price'', ''unused'', ''selfhost'', ''missing'', ''broken'', ''other'']"

definition answer_window :: int where "answer_window = 30 * 86400"
definition max_answer_characters :: nat where "max_answer_characters = 500"
definition max_answer_body :: nat where "max_answer_body = 8192"
definition answers_per_hour :: rolling_config where
  "answers_per_hour = \<lparr>rc_limit = 30, rc_window = 3600, rc_sweep_above = 10000\<rparr>"

definition platform_names :: "(string \<times> platform) list" where
  "platform_names = [(''ios'', Ios), (''android'', Android), (''macos'', Macos)]"

record answer_input =
  ai_reason :: string
  ai_text :: "string option"
  ai_app_version :: string
  ai_platform :: platform

definition is_version_char :: "char \<Rightarrow> bool" where
  "is_version_char c \<longleftrightarrow> is_word_char c \<or> c = CHR ''.'' \<or> c = CHR ''+''"

definition is_app_version :: "string \<Rightarrow> bool" where
  "is_app_version x \<longleftrightarrow> 1 \<le> length x \<and> length x \<le> 32 \<and> list_all is_version_char x"

text \<open>The code points of a text in UTF-8: the bytes that do not continue a character.\<close>

definition code_points :: "string \<Rightarrow> nat" where
  "code_points x = length (filter (\<lambda>c. c < CHR 0x80 \<or> CHR 0xC0 \<le> c) x)"

definition invalid_answer :: "string + answer_input" where
  "invalid_answer = Inl ''invalid request''"

text \<open>The text field: missing, null, or a text; everything else is refused.\<close>

fun answer_text :: "json option \<Rightarrow> string option option" where
  "answer_text None = Some None"
| "answer_text (Some JNull) = Some None"
| "answer_text (Some (JText x)) = Some (Some x)"
| "answer_text (Some _) = None"

definition parse_answer :: "json \<Rightarrow> string + answer_input" where
  "parse_answer body =
     (if \<not> is_object body then invalid_answer
      else (case (text_field ''reason'' body, answer_text (json_field ''text'' body), text_field ''app_version'' body,
                  Option.bind (text_field ''platform'' body) (map_of platform_names)) of
              (Some reason, Some text, Some app_version, Some pf) \<Rightarrow>
                if \<not> is_app_version app_version then invalid_answer
                else if reason \<notin> set cancel_reasons then Inl ''invalid reason''
                else (case text of
                        None \<Rightarrow> Inr \<lparr>ai_reason = reason, ai_text = None, ai_app_version = app_version, ai_platform = pf\<rparr>
                      | Some x \<Rightarrow>
                          if max_answer_characters < code_points (trim x) then Inl ''text too long''
                          else Inr \<lparr>ai_reason = reason, ai_text = (if trim x = [] then None else Some (trim x)),
                                    ai_app_version = app_version, ai_platform = pf\<rparr>)
            | _ \<Rightarrow> invalid_answer))"

subsection \<open>Who may answer\<close>

text \<open>The recursive query. Its queue starts with the account; each account taken from it adds those merged into it
  that were not in the result yet, which is what \<open>UNION\<close> says. A chain of \<open>merged_into\<close> that runs in a circle adds nothing the second time.\<close>

definition merged_directly :: "account_row list \<Rightarrow> ident \<Rightarrow> ident list" where
  "merged_directly rows x = remdups (map a_id (filter (\<lambda>a. a_merged_into a = Some x) rows))"

function family_walk :: "account_row list \<Rightarrow> ident list \<Rightarrow> ident list \<Rightarrow> ident list" where
  "family_walk rows seen [] = seen"
| "family_walk rows seen (x # queue) =
     (let new = filter (\<lambda>y. y \<notin> set seen) (merged_directly rows x) in family_walk rows (seen @ new) (queue @ new))"
  by pat_completeness auto

text \<open>Each turn either adds an account to the result or takes one off the queue.\<close>

termination
proof (relation "measures [\<lambda>(rows, seen, queue). card (a_id ` set rows - set seen), \<lambda>(rows, seen, queue). length queue]")
  fix rows :: "account_row list" and seen queue new :: "ident list" and x
  assume new: "new = filter (\<lambda>y. y \<notin> set seen) (merged_directly rows x)"
  show "((rows, seen @ new, queue @ new), rows, seen, x # queue)
      \<in> measures [\<lambda>(rows, seen, queue). card (a_id ` set rows - set seen), \<lambda>(rows, seen, queue). length queue]"
  proof (cases "new = []")
    case False
    then obtain y where "y \<in> set new" by (cases new) auto
    with new have "y \<in> a_id ` set rows - set seen" "y \<notin> a_id ` set rows - set (seen @ new)" by (auto simp: merged_directly_def)
    then have "a_id ` set rows - set (seen @ new) \<subset> a_id ` set rows - set seen" by auto
    then have "card (a_id ` set rows - set (seen @ new)) < card (a_id ` set rows - set seen)" by (intro psubset_card_mono) auto
    then show ?thesis by simp
  qed simp
qed simp

definition merge_family :: "db \<Rightarrow> ident \<Rightarrow> ident list" where
  "merge_family s acc = family_walk (accounts s) [acc] [acc]"

definition holds_or_held_hosted :: "db \<Rightarrow> ident \<Rightarrow> bool" where
  "holds_or_held_hosted s acc \<longleftrightarrow>
     tier_of s acc = Some Hosted \<or> list_ex (\<lambda>c. tc_to c = Hosted \<and> tc_account_id c \<in> set (merge_family s acc)) (tier_changes s)"

subsection \<open>Storing\<close>

datatype answer_stored = AnswerStored | AnswerKept

definition current_answer :: "seconds \<Rightarrow> ident \<Rightarrow> db \<Rightarrow> cancel_answer_row option" where
  "current_answer now acc s =
     last_by an_created_at (filter (\<lambda>r. an_account_id r = acc \<and> now - answer_window < an_created_at r) (cancel_answers s))"

definition fill_text :: "seconds \<Rightarrow> ident \<Rightarrow> string option \<Rightarrow> seconds \<Rightarrow> db \<Rightarrow> db" where
  "fill_text now acc text created s =
     (case text of None \<Rightarrow> s
      | Some x \<Rightarrow> s\<lparr>cancel_answers :=
          upd_where (\<lambda>r. an_account_id r = acc \<and> an_created_at r = created \<and> an_text r = None)
            (\<lambda>r. r\<lparr>an_text := Some x, an_updated_at := now\<rparr>) (cancel_answers s)\<rparr>)"

definition answer_row :: "seconds \<Rightarrow> ident \<Rightarrow> answer_input \<Rightarrow> cancel_answer_row" where
  "answer_row now acc p =
     \<lparr>an_account_id = acc, an_created_at = now, an_reason = ai_reason p, an_text = ai_text p, an_app_version = ai_app_version p,
      an_platform = ai_platform p, an_updated_at = now\<rparr>"

definition store_cancel_answer :: "seconds \<Rightarrow> ident \<Rightarrow> answer_input \<Rightarrow> db \<Rightarrow> db \<times> answer_stored" where
  "store_cancel_answer now acc p s =
     (case current_answer now acc s of
        Some r \<Rightarrow> (fill_text now acc (ai_text p) (an_created_at r) s, AnswerKept)
      | None \<Rightarrow>
          if list_ex (\<lambda>r. an_account_id r = acc \<and> an_created_at r = now) (cancel_answers s)
          then (fill_text now acc (ai_text p) now s, AnswerKept)
          else (s\<lparr>cancel_answers := cancel_answers s @ [answer_row now acc p]\<rparr>, AnswerStored))"

subsection \<open>The route\<close>

datatype answer_reply =
    AnswerUnsupported | AnswerUnauthorized | AnswerLimited | AnswerNeedsHosted | AnswerTooLarge | AnswerRefused string | AnswerTaken

record answer_request =
  ay_authorization :: "string option"
  ay_declared :: "int option"
  ay_chunks :: "string list option"

text \<open>\<open>parse\<close> is \<open>JSON.parse\<close>; \<open>clk\<close> is the clock of the limit and of the store.\<close>

definition post_cancel_reason ::
  "(string \<Rightarrow> string) \<Rightarrow> (string \<Rightarrow> json option) \<Rightarrow> (nat \<Rightarrow> seconds) \<Rightarrow> server_mode \<Rightarrow> answer_request \<Rightarrow> rolling \<times> db \<Rightarrow> (rolling \<times> db) \<times> answer_reply" where
  "post_cancel_reason sha parse clk md rq st =
     (case st of (limit, s) \<Rightarrow>
        if md \<noteq> HostedMode then (st, AnswerUnsupported)
        else (case authenticate_management sha s (ay_authorization rq) md of
                None \<Rightarrow> (st, AnswerUnauthorized)
              | Some ctx \<Rightarrow>
                  (case rolling_allow answers_per_hour (clk 0) (ac_account ctx) limit of
                     (limit', False) \<Rightarrow> ((limit', s), AnswerLimited)
                   | (limit', True) \<Rightarrow>
                       if \<not> holds_or_held_hosted s (ac_account ctx) then ((limit', s), AnswerNeedsHosted)
                       else (case fst (read_bytes max_answer_body (ay_declared rq) (ay_chunks rq)) of
                               None \<Rightarrow> ((limit', s), AnswerTooLarge)
                             | Some bytes \<Rightarrow>
                                 (case parse bytes of
                                    None \<Rightarrow> ((limit', s), AnswerRefused ''invalid request'')
                                  | Some body \<Rightarrow>
                                      (case parse_answer body of
                                         Inl e \<Rightarrow> ((limit', s), AnswerRefused e)
                                       | Inr p \<Rightarrow> ((limit', fst (store_cancel_answer (clk 1) (ac_account ctx) p s)), AnswerTaken)))))))"



section \<open>The family of an account\<close>

definition merged_to :: "db \<Rightarrow> (ident \<times> ident) set" where
  "merged_to s = {(x, y). \<exists>a \<in> set (accounts s). a_id a = x \<and> a_merged_into a = Some y}"

lemma merged_directly_iff: "x \<in> set (merged_directly (accounts s) y) \<longleftrightarrow> (x, y) \<in> merged_to s"
  by (auto simp: merged_directly_def merged_to_def)

lemma family_walk_sound:
  assumes "\<forall>x \<in> set seen. (x, acc) \<in> (merged_to s)\<^sup>*" "set queue \<subseteq> set seen"
  shows "\<forall>x \<in> set (family_walk (accounts s) seen queue). (x, acc) \<in> (merged_to s)\<^sup>*"
  using assms
proof (induction "accounts s" seen queue rule: family_walk.induct)
  case (2 seen x queue)
  let ?new = "filter (\<lambda>y. y \<notin> set seen) (merged_directly (accounts s) x)"
  have x: "(x, acc) \<in> (merged_to s)\<^sup>*" using 2(2,3) by simp
  have "(y, acc) \<in> (merged_to s)\<^sup>*" if "y \<in> set ?new" for y
    using that converse_rtrancl_into_rtrancl[OF _ x] by (simp add: merged_directly_iff)
  then have seen: "\<forall>y \<in> set (seen @ ?new). (y, acc) \<in> (merged_to s)\<^sup>*" using 2(2) by auto
  have queue: "set (queue @ ?new) \<subseteq> set (seen @ ?new)" using 2(3) by auto
  show ?case using 2(1)[OF refl seen queue] by (simp add: Let_def)
qed simp

definition merge_closed :: "db \<Rightarrow> ident list \<Rightarrow> bool" where
  "merge_closed s xs \<longleftrightarrow> (\<forall>y \<in> set xs. \<forall>x. (x, y) \<in> merged_to s \<longrightarrow> x \<in> set xs)"

lemma family_walk_complete:
  assumes "set queue \<subseteq> set seen" "\<forall>y \<in> set seen - set queue. \<forall>x. (x, y) \<in> merged_to s \<longrightarrow> x \<in> set seen"
  shows "set seen \<subseteq> set (family_walk (accounts s) seen queue) \<and> merge_closed s (family_walk (accounts s) seen queue)"
  using assms
proof (induction "accounts s" seen queue rule: family_walk.induct)
  case (1 seen)
  then show ?case by (simp add: merge_closed_def)
next
  case (2 seen x queue)
  define new where "new = filter (\<lambda>y. y \<notin> set seen) (merged_directly (accounts s) x)"
  have queue: "set (queue @ new) \<subseteq> set (seen @ new)" using 2(2) by auto
  have closed: "\<forall>y \<in> set (seen @ new) - set (queue @ new). \<forall>z. (z, y) \<in> merged_to s \<longrightarrow> z \<in> set (seen @ new)"
  proof (intro ballI allI impI)
    fix y z assume y: "y \<in> set (seen @ new) - set (queue @ new)" and z: "(z, y) \<in> merged_to s"
    show "z \<in> set (seen @ new)"
    proof (cases "y = x")
      case True
      with z have "z \<in> set (merged_directly (accounts s) x)" by (simp add: merged_directly_iff)
      then show ?thesis by (simp add: new_def)
    next
      case False
      with y have "y \<in> set seen - set (x # queue)" by auto
      with 2(3) z have "z \<in> set seen" by blast
      then show ?thesis by simp
    qed
  qed
  from 2(1)[OF new_def queue closed] show ?case by (simp add: Let_def new_def)
qed

text \<open>C39: The recursive query ends for every table of accounts, also one whose \<open>merged_into\<close> runs in a circle, and its result is exactly
  the account itself and every account that was merged into it, over any number of merges.\<close>

theorem merge_family_is_the_closure:
  "set (merge_family s acc) = {x. (x, acc) \<in> (merged_to s)\<^sup>*}"
proof
  show "set (merge_family s acc) \<subseteq> {x. (x, acc) \<in> (merged_to s)\<^sup>*}"
    using family_walk_sound[of "[acc]" acc s "[acc]"] by (auto simp: merge_family_def)
next
  have closed: "acc \<in> set (merge_family s acc)" "merge_closed s (merge_family s acc)"
    using family_walk_complete[of "[acc]" "[acc]" s, folded merge_family_def] by auto
  show "{x. (x, acc) \<in> (merged_to s)\<^sup>*} \<subseteq> set (merge_family s acc)"
  proof clarify
    fix x assume "(x, acc) \<in> (merged_to s)\<^sup>*"
    then show "x \<in> set (merge_family s acc)"
      by (induction rule: converse_rtrancl_induct) (use closed in \<open>auto simp: merge_closed_def\<close>)
  qed
qed


section \<open>One answer in thirty days\<close>

text \<open>The answers of one account, in the order they were stored, are 30 days apart.\<close>

definition answers_apart :: "cancel_answer_row list \<Rightarrow> bool" where
  "answers_apart = sorted_wrt (\<lambda>r r'. an_account_id r = an_account_id r' \<longrightarrow> an_created_at r + answer_window \<le> an_created_at r')"

text \<open>What a later table keeps of a row: everything but a text that was missing, and the time of change.\<close>

definition answer_kept :: "cancel_answer_row \<Rightarrow> cancel_answer_row \<Rightarrow> bool" where
  "answer_kept r r' \<longleftrightarrow>
     r' = r \<or> (an_text r = None \<and> an_text r' \<noteq> None \<and> r'\<lparr>an_text := None, an_updated_at := an_updated_at r\<rparr> = r)"

definition answers_grow :: "cancel_answer_row list \<Rightarrow> cancel_answer_row list \<Rightarrow> bool" where
  "answers_grow rows rows' \<longleftrightarrow> length rows \<le> length rows' \<and> list_all2 answer_kept rows (take (length rows) rows')"

lemma answer_kept_refl [simp]: "answer_kept r r"
  by (simp add: answer_kept_def)

lemma answer_kept_key: "answer_kept r r' \<Longrightarrow> an_account_id r' = an_account_id r \<and> an_created_at r' = an_created_at r"
  by (cases r; cases r') (auto simp: answer_kept_def)

lemma answer_kept_trans: "answer_kept r r' \<Longrightarrow> answer_kept r' r'' \<Longrightarrow> answer_kept r r''"
  by (cases r; cases r'; cases r'') (auto simp: answer_kept_def)

lemma answers_grow_trans:
  assumes "answers_grow xs ys" "answers_grow ys zs"
  shows "answers_grow xs zs"
proof -
  have "list_all2 answer_kept (take (length xs) ys) (take (length xs) zs)"
    using assms list_all2_takeI[of answer_kept ys "take (length ys) zs" "length xs"] by (simp add: answers_grow_def min_def)
  with assms show ?thesis
    unfolding answers_grow_def by (auto intro: list_all2_trans[of answer_kept answer_kept answer_kept, OF answer_kept_trans])
qed

lemma fill_text_grows: "answers_grow (cancel_answers s) (cancel_answers (fill_text now acc x created s))"
  by (auto simp: answers_grow_def fill_text_def upd_where_def list_all2_map2 answer_kept_def list.rel_refl
      intro!: list_all2_refl split: option.split)

lemma answers_apart_map:
  "list_all2 answer_kept rows rows' \<Longrightarrow> answers_apart rows' \<longleftrightarrow> answers_apart rows"
proof (induction rule: list_all2_induct)
  case (Cons r rows r' rows')
  have "(\<forall>x \<in> set rows'. P (an_account_id x) (an_created_at x)) \<longleftrightarrow> (\<forall>x \<in> set rows. P (an_account_id x) (an_created_at x))" for P
    using Cons(2) by (induction rule: list_all2_induct) (auto dest: answer_kept_key)
  from this[of "\<lambda>a c. an_account_id r = a \<longrightarrow> an_created_at r + answer_window \<le> c"] Cons answer_kept_key[OF Cons(1)]
  show ?case by (simp add: answers_apart_def)
qed simp


lemma last_by_filter_in: "last_by k (filter P xs) = Some r \<Longrightarrow> r \<in> set xs \<and> P r"
  using last_by_Some_in by fastforce

definition answers_ok :: "seconds \<Rightarrow> db \<Rightarrow> bool" where
  "answers_ok now s \<longleftrightarrow> answers_apart (cancel_answers s) \<and> (\<forall>r \<in> set (cancel_answers s). an_created_at r \<le> now)"

lemma answers_ok_grow:
  assumes "list_all2 answer_kept (cancel_answers s) (cancel_answers s')" "answers_ok now s"
  shows "answers_ok now s'"
proof -
  have "\<forall>r \<in> set (cancel_answers s'). \<exists>r0 \<in> set (cancel_answers s). an_created_at r = an_created_at r0"
    using assms(1) answer_kept_key by (fastforce simp: in_set_conv_nth list_all2_conv_all_nth)
  with assms answers_apart_map[OF assms(1)] show ?thesis by (fastforce simp: answers_ok_def)
qed

lemma fill_text_kept: "list_all2 answer_kept (cancel_answers s) (cancel_answers (fill_text now acc x created s))"
  using fill_text_grows[of s now acc x created]
  by (auto simp: answers_grow_def fill_text_def split: option.splits)

lemma store_cancel_answer_step:
  assumes "answers_ok now s"
  shows "answers_ok now (fst (store_cancel_answer now acc p s))"
    and "answers_grow (cancel_answers s) (cancel_answers (fst (store_cancel_answer now acc p s)))"
    and "snd (store_cancel_answer now acc p s) = AnswerStored \<longleftrightarrow>
      (\<forall>r \<in> set (cancel_answers s). an_account_id r = acc \<longrightarrow> an_created_at r + answer_window \<le> now)"
    and "snd (store_cancel_answer now acc p s) = AnswerStored \<Longrightarrow>
      cancel_answers (fst (store_cancel_answer now acc p s)) = cancel_answers s @ [answer_row now acc p]"
proof -
  have none: "current_answer now acc s = None \<longleftrightarrow> (\<forall>r \<in> set (cancel_answers s). an_account_id r = acc \<longrightarrow> an_created_at r + answer_window \<le> now)"
    by (auto simp: current_answer_def filter_empty_conv)
  have fresh: "\<not> list_ex (\<lambda>r. an_account_id r = acc \<and> an_created_at r = now) (cancel_answers s)" if "current_answer now acc s = None"
    using that none by (auto simp: list_ex_iff answer_window_def)
  have new: "answers_ok now (s\<lparr>cancel_answers := cancel_answers s @ [answer_row now acc p]\<rparr>)" if "current_answer now acc s = None"
    using that none assms by (auto simp: answers_ok_def answers_apart_def sorted_wrt_append answer_row_def)
  show "answers_ok now (fst (store_cancel_answer now acc p s))"
    using answers_ok_grow[OF fill_text_kept assms] fresh new by (auto simp: store_cancel_answer_def split: option.split)
  show "answers_grow (cancel_answers s) (cancel_answers (fst (store_cancel_answer now acc p s)))"
    using fill_text_grows fresh by (auto simp: store_cancel_answer_def answers_grow_def list_all2_refl split: option.split)
  show "snd (store_cancel_answer now acc p s) = AnswerStored \<longleftrightarrow>
      (\<forall>r \<in> set (cancel_answers s). an_account_id r = acc \<longrightarrow> an_created_at r + answer_window \<le> now)"
    using none fresh by (auto simp: store_cancel_answer_def split: option.split)
  show "cancel_answers (fst (store_cancel_answer now acc p s)) = cancel_answers s @ [answer_row now acc p]"
    if "snd (store_cancel_answer now acc p s) = AnswerStored"
    using that fresh by (auto simp: store_cancel_answer_def split: option.splits if_splits)
qed

definition store_cancel_answers :: "(seconds \<times> ident \<times> answer_input) list \<Rightarrow> db \<Rightarrow> db" where
  "store_cancel_answers calls s = fold (\<lambda>(now, acc, p) s. fst (store_cancel_answer now acc p s)) calls s"

lemma answers_ok_later: "answers_ok now s \<Longrightarrow> now \<le> now' \<Longrightarrow> answers_ok now' s"
  by (force simp: answers_ok_def)

lemma store_cancel_answers_run:
  "answers_ok t0 s \<Longrightarrow> sorted (t0 # map fst calls) \<Longrightarrow>
   answers_apart (cancel_answers (store_cancel_answers calls s)) \<and> answers_grow (cancel_answers s) (cancel_answers (store_cancel_answers calls s))"
proof (induction calls arbitrary: t0 s)
  case Nil
  then show ?case by (simp add: store_cancel_answers_def answers_ok_def answers_grow_def list_all2_refl)
next
  case (Cons call calls)
  obtain now acc p where call: "call = (now, acc, p)" by (cases call) auto
  have ok: "answers_ok now s" using Cons.prems call by (auto intro: answers_ok_later)
  note step = store_cancel_answer_step[OF ok, of acc p]
  have "sorted (now # map fst calls)" using Cons.prems call by simp
  from Cons.IH[OF step(1) this] step(2) show ?case
    by (auto simp: store_cancel_answers_def call intro: answers_grow_trans)
qed

text \<open>Over any run of calls in time order, of any accounts: the answers of one account lie at least 30 days apart, and no call ever
  takes back or changes an answer that is there, its account, time, reason, version or platform, nor a text once it has one. The next
  call then stores a new row exactly when the account's last 30 days hold none, and otherwise adds no row at all.\<close>

theorem one_answer_per_window:
  assumes "answers_ok t0 s" "sorted (t0 # map fst calls)" and "\<forall>call \<in> set calls. fst call \<le> now" "t0 \<le> now"
  shows "answers_apart (cancel_answers (store_cancel_answers calls s)) \<and>
    answers_grow (cancel_answers s) (cancel_answers (store_cancel_answers calls s)) \<and>
    length (cancel_answers (fst (store_cancel_answer now acc p (store_cancel_answers calls s)))) =
      length (cancel_answers (store_cancel_answers calls s)) +
        (if \<forall>r \<in> set (cancel_answers (store_cancel_answers calls s)). an_account_id r = acc \<longrightarrow> an_created_at r + answer_window \<le> now then 1 else 0)"
proof -
  let ?s = "store_cancel_answers calls s"
  have "answers_ok now ?s"
    using assms
  proof (induction calls arbitrary: t0 s)
    case (Cons call calls)
    obtain t1 acc p where call: "call = (t1, acc, p)" by (cases call) auto
    have "answers_ok t1 s" using Cons.prems call by (auto intro: answers_ok_later)
    with Cons.IH[OF store_cancel_answer_step(1)] Cons.prems call show ?case by (simp add: store_cancel_answers_def)
  qed (auto simp: store_cancel_answers_def intro: answers_ok_later)
  note step = store_cancel_answer_step[OF this, of acc p]
  have "length (cancel_answers (fst (store_cancel_answer now acc p ?s))) = length (cancel_answers ?s)"
    if "snd (store_cancel_answer now acc p ?s) \<noteq> AnswerStored"
    using that by (auto simp: store_cancel_answer_def fill_text_def split: option.splits if_splits)
  with step(3,4) store_cancel_answers_run[OF assms(1,2)] show ?thesis by (auto split: if_splits)
qed



section \<open>The operator's report\<close>

text \<open>Lines of text. \<open>quote\<close> is \<open>JSON.stringify\<close> of a text.\<close>

definition reason_counts :: "cancel_answer_row list \<Rightarrow> (string \<times> nat) list" where
  "reason_counts rows =
     sort_key (\<lambda>(reason, n). (- int n, reason)) (map (\<lambda>reason. (reason, count_where (\<lambda>r. an_reason r = reason) rows)) (remdups (map an_reason rows)))"

definition platform_text :: "platform \<Rightarrow> string" where
  "platform_text p = (case p of Ios \<Rightarrow> ''ios'' | Android \<Rightarrow> ''android'' | Macos \<Rightarrow> ''macos'')"

definition tab :: string where "tab = [CHR 0x09]"

definition report_cancel_answers :: "(string \<Rightarrow> string) \<Rightarrow> seconds option \<Rightarrow> db \<Rightarrow> string list" where
  "report_cancel_answers quote since s =
     (let rows = filter (\<lambda>r. case since of None \<Rightarrow> True | Some t \<Rightarrow> t \<le> an_created_at r) (cancel_answers s);
          texts = sort_key (\<lambda>r. (- an_created_at r, an_reason r)) (filter (\<lambda>r. an_text r \<noteq> None) rows)
      in [nat_text (sum_list (map snd (reason_counts rows))) @ '' answers''] @
         map (\<lambda>(reason, n). reason @ tab @ nat_text n) (reason_counts rows) @
         (if texts = [] then []
          else [] # map (\<lambda>r. day_key (an_created_at r) @ tab @ an_reason r @ tab @ platform_text (an_platform r) @ tab @ an_app_version r @ tab @
                   quote (case an_text r of None \<Rightarrow> [] | Some x \<Rightarrow> x)) texts))"

text \<open>\<open>--since YYYY-MM-DD\<close>. The day is the one whose civil date prints as the text given, so a date that does not exist is refused.\<close>

definition day_of_civil :: "int \<Rightarrow> int \<Rightarrow> int \<Rightarrow> int" where
  "day_of_civil y m d =
     (let y1 = y - (if m \<le> 2 then 1 else 0); yoe = y1 mod 400;
          doy = (153 * (m + (if m > 2 then -3 else 9)) + 2) div 5 + d - 1
      in y1 div 400 * 146097 + (yoe * 365 + yoe div 4 - yoe div 100 + doy) - 719468)"

definition parse_since_date :: "string \<Rightarrow> seconds option" where
  "parse_since_date x =
     (if length x = 10 \<and> x ! 4 = CHR ''-'' \<and> x ! 7 = CHR ''-'' \<and> list_all is_digit (take 4 x @ take 2 (drop 5 x) @ drop 8 x)
      then (let t = day_of_civil (int (digits_value (take 4 x))) (int (digits_value (take 2 (drop 5 x)))) (int (digits_value (drop 8 x))) * 86400
            in if day_key t = x then Some t else None)
      else None)"

lemma reason_counts_total: "sum_list (map snd (reason_counts rows)) = length rows"
proof -
  have "sum_list (map snd (reason_counts rows)) = (\<Sum>reason \<leftarrow> remdups (map an_reason rows). count_where (\<lambda>r. an_reason r = reason) rows)"
  proof -
    have "mset (map snd (reason_counts rows)) = mset (map (\<lambda>reason. count_where (\<lambda>r. an_reason r = reason) rows) (remdups (map an_reason rows)))"
      by (simp add: reason_counts_def multiset.map_comp comp_def)
    then show ?thesis by (metis sum_mset_sum_list)
  qed
  also have "\<dots> = (\<Sum>reason \<in> set (map an_reason rows). count_where (\<lambda>r. an_reason r = reason) rows)"
    by (simp add: sum_list_distinct_conv_sum_set)
  also have "\<dots> = length rows"
    using sum_count_set[of "map an_reason rows" "set (map an_reason rows)"]
    by (simp add: count_where_def count_list_eq_length_filter filter_map comp_def eq_commute)
  finally show ?thesis .
qed

subsection \<open>Concrete answers\<close>

definition sample_answer :: "string option \<Rightarrow> answer_input" where
  "sample_answer x = \<lparr>ai_reason = ''price'', ai_text = x, ai_app_version = ''1.0'', ai_platform = Ios\<rparr>"

theorem one_answer_per_window_witness:
  "length (cancel_answers (fst (store_cancel_answer 2592000 ''a'' (sample_answer None)
     (store_cancel_answers [(0, ''a'', sample_answer None), (5, ''a'', sample_answer (Some ''too dear''))] empty_db)))) =
   length (cancel_answers (store_cancel_answers [(0, ''a'', sample_answer None), (5, ''a'', sample_answer (Some ''too dear''))] empty_db)) + 1"
proof -
  let ?calls = "[(0, ''a'', sample_answer None), (5, ''a'', sample_answer (Some ''too dear''))]"
  have ok: "answers_ok 0 empty_db" by (simp add: answers_ok_def answers_apart_def empty_db_def)
  have rows: "cancel_answers (store_cancel_answers ?calls empty_db) = [(answer_row 0 ''a'' (sample_answer (Some ''too dear'')))\<lparr>an_updated_at := 5\<rparr>]"
    by (simp add: store_cancel_answers_def store_cancel_answer_def current_answer_def last_by_def empty_db_def answer_row_def sample_answer_def answer_window_def
        fill_text_def)
  have "sorted ((0 :: int) # map fst ?calls)" "\<forall>call \<in> set ?calls. fst call \<le> (2592000 :: int)" "(0 :: int) \<le> 2592000" by simp_all
  from one_answer_per_window[OF ok this, of "''a''" "sample_answer None"] show ?thesis
    by (simp add: rows answer_row_def answer_window_def)
qed

end
