(* ===== verification/Settings.thy ===== *)
theory Settings
  imports Relay Packs Billing
begin

section \<open>The configuration\<close>

text \<open>
  \<open>src/src/config.ts\<close>: what the server makes of its environment and its configuration file at startup, or the field it stops
  with. The YAML parser gives a value of the shape of JSON, so the file is a parameter: it cannot be read, or it is that value.
  Parameters are also the URL parser (the protocol and host of a text, \<^term>\<open>None\<close> where the constructor throws), the contents of a key file and
  the check of an Apple key. A configuration error is \<open>Inl\<close> of the field it names.
\<close>

type_synonym 'a configured = "string + 'a"

definition on_ok :: "'a configured \<Rightarrow> ('a \<Rightarrow> 'b configured) \<Rightarrow> 'b configured" where
  "on_ok r rest = (case r of Inl e \<Rightarrow> Inl e | Inr x \<Rightarrow> rest x)"

definition unless :: "bool \<Rightarrow> string \<Rightarrow> 'a configured \<Rightarrow> 'a configured" where
  "unless bad field rest = (if bad then Inl field else rest)"

lemma on_ok_Inr: "on_ok r rest = Inr y \<longleftrightarrow> (\<exists>x. r = Inr x \<and> rest x = Inr y)"
  by (auto simp: on_ok_def split: sum.split)

lemma unless_Inr: "unless bad field rest = Inr y \<longleftrightarrow> \<not> bad \<and> rest = Inr y"
  by (simp add: unless_def)

type_synonym environment = "string \<Rightarrow> string option"

record system =
  sy_env :: environment
  sy_url :: "string \<Rightarrow> (string \<times> string) option"
  sy_read_file :: "string \<Rightarrow> string option"
  sy_apple_key_error :: "string \<Rightarrow> string option"

subsection \<open>The file\<close>

text \<open>Without a path set and without a file there, the file is empty; a file that cannot be read or parsed stops the start.\<close>

datatype config_file = FileAbsent | FileBroken | FileParsed json

record provider_file =
  pf_team_id :: "string option"
  pf_key_id :: "string option"
  pf_private_key :: "string option"
  pf_bundle_id :: "string option"
  pf_environment :: "string option"

record fcm_file =
  ff_project_id :: "string option"
  ff_client_email :: "string option"
  ff_private_key :: "string option"
  ff_token_url :: "string option"

record file_config =
  fl_mode :: "string option"
  fl_base_url :: "string option"
  fl_relay_url :: "string option"
  fl_relay_content :: "string option"
  fl_relay_plain_hash :: "string option"
  fl_listen :: "string option"
  fl_data_dir :: "string option"
  fl_behind_proxy :: "json option"
  fl_apns :: provider_file
  fl_fcm :: fcm_file
  fl_shared_secret :: "string option"
  fl_entitlements :: "(string \<times> tier) list option"

definition tier_names :: "(string \<times> tier) list" where
  "tier_names = [(''free'', Free), (''relay'', Relay), (''hosted'', Hosted)]"

text \<open>\<open>z.string().optional()\<close>, with \<open>min(1)\<close>, and one of a list; the field is missing or of the type.\<close>

definition opt_text :: "string \<Rightarrow> json \<Rightarrow> string option configured" where
  "opt_text k v = (case json_field k v of None \<Rightarrow> Inr None | Some (JText x) \<Rightarrow> Inr (Some x) | Some _ \<Rightarrow> Inl ''file'')"

definition opt_nonempty :: "string \<Rightarrow> json \<Rightarrow> string option configured" where
  "opt_nonempty k v = on_ok (opt_text k v) (\<lambda>x. unless (x = Some []) ''file'' (Inr x))"

definition opt_object :: "string \<Rightarrow> json \<Rightarrow> json configured" where
  "opt_object k v =
     (case json_field k v of None \<Rightarrow> Inr (JObj []) | Some w \<Rightarrow> if is_object w then Inr w else Inl ''file'')"

definition parse_provider_file :: "json \<Rightarrow> provider_file configured" where
  "parse_provider_file v =
     on_ok (opt_nonempty ''team-id'' v) (\<lambda>team. on_ok (opt_nonempty ''key-id'' v) (\<lambda>key.
     on_ok (opt_nonempty ''private-key'' v) (\<lambda>pkey. on_ok (opt_nonempty ''bundle-id'' v) (\<lambda>bundle.
     on_ok (opt_text ''environment'' v) (\<lambda>env.
     unless (env \<notin> {None, Some ''sandbox'', Some ''production''}) ''file''
       (Inr \<lparr>pf_team_id = team, pf_key_id = key, pf_private_key = pkey, pf_bundle_id = bundle, pf_environment = env\<rparr>))))))"

definition parse_fcm_file :: "json \<Rightarrow> fcm_file configured" where
  "parse_fcm_file v =
     on_ok (opt_nonempty ''project-id'' v) (\<lambda>project. on_ok (opt_nonempty ''client-email'' v) (\<lambda>email.
     on_ok (opt_nonempty ''private-key'' v) (\<lambda>pkey. on_ok (opt_nonempty ''token-url'' v) (\<lambda>url.
       Inr \<lparr>ff_project_id = project, ff_client_email = email, ff_private_key = pkey, ff_token_url = url\<rparr>))))"

fun tier_record :: "(string \<times> json) list \<Rightarrow> (string \<times> tier) list configured" where
  "tier_record [] = Inr []"
| "tier_record ((k, v) # fs) =
     on_ok (tier_record fs) (\<lambda>rest.
       case Option.bind (text_of v) (map_of tier_names) of None \<Rightarrow> Inl ''file'' | Some t \<Rightarrow> Inr ((k, t) # rest))"

definition file_entitlements :: "json \<Rightarrow> (string \<times> tier) list option configured" where
  "file_entitlements v =
     (case json_field ''entitlements'' v of None \<Rightarrow> Inr None
      | Some (JObj fs) \<Rightarrow> on_ok (tier_record fs) (\<lambda>m. Inr (Some m))
      | Some _ \<Rightarrow> Inl ''file'')"

definition file_schema :: "json \<Rightarrow> file_config configured" where
  "file_schema v =
     unless (\<not> is_object v) ''file''
     (on_ok (opt_text ''mode'' v) (\<lambda>mode. on_ok (opt_text ''base-url'' v) (\<lambda>base.
      on_ok (opt_text ''relay-url'' v) (\<lambda>relay. on_ok (opt_text ''relay-content'' v) (\<lambda>content.
      on_ok (opt_text ''relay-plain-hash'' v) (\<lambda>plain. on_ok (opt_text ''listen'' v) (\<lambda>listen.
      on_ok (opt_text ''data-dir'' v) (\<lambda>dir.
      unless (\<not> (case json_field ''behind-proxy'' v of None \<Rightarrow> True | Some (JBool _) \<Rightarrow> True | Some (JText _) \<Rightarrow> True | Some w \<Rightarrow> is_number w)) ''file''
      (on_ok (opt_object ''apns'' v) (\<lambda>apns. on_ok (parse_provider_file apns) (\<lambda>apns'.
      on_ok (opt_object ''fcm'' v) (\<lambda>fcm. on_ok (parse_fcm_file fcm) (\<lambda>fcm'.
      on_ok (opt_object ''revenuecat'' v) (\<lambda>rc. on_ok (opt_nonempty ''shared-secret'' rc) (\<lambda>secret.
      on_ok (file_entitlements rc) (\<lambda>ents.
        Inr \<lparr>fl_mode = mode, fl_base_url = base, fl_relay_url = relay, fl_relay_content = content, fl_relay_plain_hash = plain,
             fl_listen = listen, fl_data_dir = dir, fl_behind_proxy = json_field ''behind-proxy'' v, fl_apns = apns', fl_fcm = fcm',
             fl_shared_secret = secret, fl_entitlements = ents\<rparr>))))))))))))))))"

definition read_configuration :: "config_file \<Rightarrow> file_config configured" where
  "read_configuration file =
     (case file of FileAbsent \<Rightarrow> file_schema (JObj []) | FileBroken \<Rightarrow> Inl ''file''
      | FileParsed v \<Rightarrow> file_schema (if v = JNull then JObj [] else v))"

subsection \<open>Single values\<close>

definition string_value :: "environment \<Rightarrow> string \<Rightarrow> string option \<Rightarrow> string option" where
  "string_value env name value = (case env name of Some x \<Rightarrow> Some x | None \<Rightarrow> value)"

definition set_value :: "string option \<Rightarrow> string option" where
  "set_value value = (if value = Some [] then None else value)"

definition url_value :: "system \<Rightarrow> string \<Rightarrow> string option \<Rightarrow> string configured" where
  "url_value sys field value =
     (case value of None \<Rightarrow> Inl field
      | Some x \<Rightarrow> (case sy_url sys x of None \<Rightarrow> Inl field
          | Some (protocol, host) \<Rightarrow> unless (protocol \<noteq> ''http:'' \<and> protocol \<noteq> ''https:'') field (Inr x)))"

definition all_digits :: "string \<Rightarrow> bool" where
  "all_digits x \<longleftrightarrow> x \<noteq> [] \<and> list_all is_digit x"

definition port_value :: "string \<Rightarrow> nat configured" where
  "port_value x =
     unless (\<not> all_digits x) ''port''
       (unless (digits_value x < 1 \<or> 65535 < digits_value x) ''port'' (Inr (digits_value x)))"

fun unescape_newlines :: "string \<Rightarrow> string" where
  "unescape_newlines (c # d # cs) =
     (if c = CHR 0x5C \<and> d = CHR ''n'' then CHR 0x0A # unescape_newlines cs else c # unescape_newlines (d # cs))"
| "unescape_newlines cs = cs"

definition pem_newlines :: "string option \<Rightarrow> string option" where
  "pem_newlines value = (case value of None \<Rightarrow> None | Some x \<Rightarrow> Some (if CHR 0x0A \<in> set x then x else unescape_newlines x))"

subsection \<open>Push providers\<close>

record apns_config =
  ag_team_id :: string
  ag_key_id :: string
  ag_private_key :: string
  ag_bundle_id :: string
  ag_environment :: apns_environment

definition apns_config :: "environment \<Rightarrow> provider_file \<Rightarrow> apns_config option configured" where
  "apns_config env file =
     (let team = string_value env ''APNS_TEAM_ID'' (pf_team_id file); key = string_value env ''APNS_KEY_ID'' (pf_key_id file);
          pkey = pem_newlines (string_value env ''APNS_PRIVATE_KEY'' (pf_private_key file));
          bundle = string_value env ''APNS_BUNDLE_ID'' (pf_bundle_id file);
          environment = (case string_value env ''APNS_ENVIRONMENT'' (pf_environment file) of None \<Rightarrow> ''production'' | Some x \<Rightarrow> x)
      in if \<forall>v \<in> {team, key, pkey, bundle, Some environment}. v = None \<or> v = Some ''production'' then Inr None
         else (case (team, key, pkey, bundle) of
                 (Some team, Some key, Some pkey, Some bundle) \<Rightarrow>
                   (let found = (\<lambda>e. Inr (Some \<lparr>ag_team_id = team, ag_key_id = key, ag_private_key = pkey, ag_bundle_id = bundle, ag_environment = e\<rparr>))
                    in if environment = ''sandbox'' then found Sandbox
                       else if environment = ''production'' then found Production else Inl ''APNs environment'')
               | _ \<Rightarrow> Inl ''APNs provider''))"

record fcm_config =
  fg_project_id :: string
  fg_client_email :: string
  fg_private_key :: string
  fg_token_url :: string

definition fcm_config :: "system \<Rightarrow> fcm_file \<Rightarrow> fcm_config option configured" where
  "fcm_config sys file =
     (let env = sy_env sys; project = string_value env ''FCM_PROJECT_ID'' (ff_project_id file);
          email = string_value env ''FCM_CLIENT_EMAIL'' (ff_client_email file);
          pkey = pem_newlines (string_value env ''FCM_PRIVATE_KEY'' (ff_private_key file));
          url = (case string_value env ''FCM_TOKEN_URL'' (ff_token_url file) of None \<Rightarrow> ''https://oauth2.googleapis.com/token'' | Some x \<Rightarrow> x)
      in if project = None \<and> email = None \<and> pkey = None then Inr None
         else (case (project, email, pkey) of
                 (Some project, Some email, Some pkey) \<Rightarrow>
                   unless (sy_url sys url = None) ''FCM token URL''
                     (Inr (Some \<lparr>fg_project_id = project, fg_client_email = email, fg_private_key = pkey, fg_token_url = url\<rparr>))
               | _ \<Rightarrow> Inl ''FCM provider''))"


subsection \<open>Maps in one variable\<close>

text \<open>A comma separated list of \<open>key=value\<close> pairs: the segments that are not blank, each cut at its first equals sign.\<close>

definition pair_segments :: "string \<Rightarrow> string list" where
  "pair_segments x = filter (\<lambda>p. trim p \<noteq> []) (split_on (CHR '','') x)"

definition cut_pair :: "string \<Rightarrow> (string \<times> string) option" where
  "cut_pair p =
     (if CHR ''='' \<in> set p
      then Some (trim (takeWhile (\<lambda>c. c \<noteq> CHR ''='') p), trim (tl (dropWhile (\<lambda>c. c \<noteq> CHR ''='') p))) else None)"

text \<open>\<open>m[key] = value\<close> on an object literal: a text cannot become its prototype, so that one name is not stored.\<close>

definition set_entry :: "string \<Rightarrow> 'a \<Rightarrow> (string \<times> 'a) list \<Rightarrow> (string \<times> 'a) list" where
  "set_entry k v m = (if k = ''__proto__'' then m else AList.update k v m)"

fun tier_pairs :: "string list \<Rightarrow> (string \<times> tier) list \<Rightarrow> (string \<times> tier) list configured" where
  "tier_pairs [] m = Inr m"
| "tier_pairs (p # ps) m =
     (case cut_pair p of None \<Rightarrow> Inl ''RevenueCat entitlements''
      | Some (key, value) \<Rightarrow>
          if key = [] then Inl ''RevenueCat entitlements''
          else (case map_of tier_names value of None \<Rightarrow> Inl ''RevenueCat entitlements''
                | Some t \<Rightarrow> tier_pairs ps (set_entry key t m)))"

definition entitlements_value :: "string option \<Rightarrow> (string \<times> tier) list option configured" where
  "entitlements_value value =
     (case value of None \<Rightarrow> Inr None
      | Some x \<Rightarrow> if trim x = [] then Inr None else on_ok (tier_pairs (pair_segments x) []) (\<lambda>m. Inr (Some m)))"

fun pack_pairs :: "string list \<Rightarrow> (string \<times> string) list \<Rightarrow> (string \<times> string) list configured" where
  "pack_pairs [] m = Inr m"
| "pack_pairs (p # ps) m =
     (case cut_pair p of None \<Rightarrow> Inl ''RevenueCat pack entitlements''
      | Some (key, value) \<Rightarrow>
          if key = [] \<or> \<not> is_pack_id value then Inl ''RevenueCat pack entitlements'' else pack_pairs ps (set_entry key value m))"

definition text_or_empty :: "string option \<Rightarrow> string" where
  "text_or_empty value = (case value of None \<Rightarrow> [] | Some x \<Rightarrow> x)"

definition pack_entitlements_value :: "string option \<Rightarrow> (string \<times> string) list configured" where
  "pack_entitlements_value value = pack_pairs (pair_segments (text_or_empty value)) []"

definition add_include :: "tier \<Rightarrow> string \<Rightarrow> (tier \<times> string list) list \<Rightarrow> (tier \<times> string list) list" where
  "add_include t pack m =
     (let listed = (case map_of m t of None \<Rightarrow> [] | Some ps \<Rightarrow> ps)
      in AList.update t (if pack \<in> set listed then listed else listed @ [pack]) m)"

fun include_pairs :: "string list \<Rightarrow> (tier \<times> string list) list \<Rightarrow> (tier \<times> string list) list configured" where
  "include_pairs [] m = Inr m"
| "include_pairs (p # ps) m =
     (case cut_pair p of None \<Rightarrow> Inl ''PACK_INCLUDES''
      | Some (key, pack) \<Rightarrow>
          if \<not> is_pack_id pack then Inl ''PACK_INCLUDES''
          else (case map_of tier_names key of None \<Rightarrow> Inl ''PACK_INCLUDES'' | Some t \<Rightarrow> include_pairs ps (add_include t pack m)))"

definition pack_includes_value :: "string option \<Rightarrow> (tier \<times> string list) list configured" where
  "pack_includes_value value = include_pairs (pair_segments (text_or_empty value)) []"

subsection \<open>Words and hosts\<close>

datatype reads_setting = ReadsNever | ReadsBeside | ReadsDecide

definition reads_value :: "string option \<Rightarrow> reads_setting configured" where
  "reads_value value =
     (if value = None \<or> value = Some [] \<or> value = Some ''off'' then Inr ReadsNever
      else if value = Some ''shadow'' then Inr ReadsBeside
      else if value = Some ''on'' then Inr ReadsDecide else Inl ''REVENUECAT_READS'')"

definition weekly_checks_value :: "string option \<Rightarrow> bool configured" where
  "weekly_checks_value value =
     (if value = None \<or> value = Some [] \<or> value = Some ''on'' then Inr True
      else unless (value \<noteq> Some ''off'') ''WEEKLY_CHECKS'' (Inr False))"

definition is_public_host_char :: "char \<Rightarrow> bool" where
  "is_public_host_char c \<longleftrightarrow> is_lower c \<or> is_digit c \<or> c = CHR ''.'' \<or> c = CHR ''-''"

definition is_public_host :: "string \<Rightarrow> bool" where
  "is_public_host h \<longleftrightarrow>
     (let rest = dropWhile is_public_host_char h
      in takeWhile is_public_host_char h \<noteq> [] \<and>
         (rest = [] \<or> (hd rest = CHR '':'' \<and> all_digits (tl rest) \<and> length (tl rest) \<le> 5)))"

definition url_host :: "system \<Rightarrow> string \<Rightarrow> string option" where
  "url_host sys x = map_option snd (sy_url sys x)"

fun public_hosts_from :: "system \<Rightarrow> string list \<Rightarrow> string list configured" where
  "public_hosts_from sys [] = Inr []"
| "public_hosts_from sys (h # hs) =
     (case relay_host (url_host sys) (''https://'' @ h) of None \<Rightarrow> Inl ''RELAY_PUBLIC_HOSTS''
      | Some x \<Rightarrow> unless (\<not> is_public_host h) ''RELAY_PUBLIC_HOSTS'' (on_ok (public_hosts_from sys hs) (\<lambda>xs. Inr (x # xs))))"

definition relay_public_hosts :: "system \<Rightarrow> string option \<Rightarrow> string list configured" where
  "relay_public_hosts sys value =
     public_hosts_from sys (filter (\<lambda>h. h \<noteq> []) (map (\<lambda>h. lower_text (trim h)) (split_on (CHR '','') (text_or_empty value))))"

definition relay_registration_closed :: "string option \<Rightarrow> bool configured" where
  "relay_registration_closed value =
     (if value = None \<or> value = Some [] \<or> value = Some ''open'' then Inr False
      else unless (value \<noteq> Some ''closed'') ''RELAY_REGISTRATION'' (Inr True))"

text \<open>\<open>String(value)\<close> of the three types the schema lets through always gives a text.\<close>

definition proxy_trust_value :: "json option \<Rightarrow> proxy_trust configured" where
  "proxy_trust_value value =
     (if value = None \<or> value = Some (JBool False) then Inr TrustNobody
      else (let x = lower_text (trim (text_or_empty (Option.bind value js_text)))
            in if x \<in> {[], ''false'', ''off'', ''0''} then Inr TrustNobody
               else if x = ''cloudflare'' \<or> x = ''true'' then Inr TrustCloudflare
               else if all_digits x \<and> 1 \<le> digits_value x \<and> digits_value x \<le> 10 then Inr (TrustHops (digits_value x))
               else Inl ''behind-proxy''))"

subsection \<open>Sign-in\<close>

datatype apple_credential = AppleSecret string | AppleKey string string string

record apple_config =
  al_client_id :: string
  al_credential :: apple_credential
  al_bundle :: "string option"

record auth_config =
  au_secret :: string
  au_apple :: "apple_config option"
  au_google :: "(string list \<times> string) option"

definition apple_private_key :: "system \<Rightarrow> string option configured" where
  "apple_private_key sys =
     (case set_value (sy_env sys ''AUTH_APPLE_PRIVATE_KEY_FILE'') of
        None \<Rightarrow> Inr (pem_newlines (set_value (sy_env sys ''AUTH_APPLE_PRIVATE_KEY'')))
      | Some path \<Rightarrow>
          (case sy_read_file sys path of None \<Rightarrow> Inl (''AUTH_APPLE_PRIVATE_KEY_FILE: cannot read '' @ path) | Some x \<Rightarrow> Inr (Some x)))"

definition apple_auth_config :: "system \<Rightarrow> apple_config option configured" where
  "apple_auth_config sys =
     (let var = (\<lambda>name. set_value (sy_env sys name)); client = var ''AUTH_APPLE_CLIENT_ID''; secret = var ''AUTH_APPLE_CLIENT_SECRET'';
          team = var ''AUTH_APPLE_TEAM_ID''; kid = var ''AUTH_APPLE_KEY_ID''; half = ''AUTH_APPLE sign-in credentials''
      in on_ok (apple_private_key sys) (\<lambda>pkey.
           if client = None \<and> secret = None \<and> team = None \<and> kid = None \<and> pkey = None then Inr None
           else (case client of None \<Rightarrow> Inl half
                 | Some client \<Rightarrow>
                     (let found = (\<lambda>c. Inr (Some \<lparr>al_client_id = client, al_credential = c, al_bundle = var ''AUTH_APPLE_APP_BUNDLE_IDENTIFIER''\<rparr>))
                      in case secret of Some secret \<Rightarrow> found (AppleSecret secret)
                         | None \<Rightarrow>
                             (case (team, kid, pkey) of
                                (Some team, Some kid, Some pkey) \<Rightarrow>
                                  (case sy_apple_key_error sys pkey of None \<Rightarrow> found (AppleKey team kid pkey)
                                   | Some e \<Rightarrow> Inl (''AUTH_APPLE_PRIVATE_KEY: '' @ e))
                              | _ \<Rightarrow> Inl half)))))"

definition google_auth_config :: "system \<Rightarrow> (string list \<times> string) option configured" where
  "google_auth_config sys =
     (let ids = filter (\<lambda>x. x \<noteq> []) (map trim (split_on (CHR '','') (text_or_empty (sy_env sys ''AUTH_GOOGLE_CLIENT_ID''))));
          secret = set_value (sy_env sys ''AUTH_GOOGLE_CLIENT_SECRET'')
      in if ids = [] \<and> secret = None then Inr None
         else (case secret of None \<Rightarrow> Inl ''AUTH_GOOGLE sign-in credentials''
               | Some s \<Rightarrow> unless (ids = []) ''AUTH_GOOGLE sign-in credentials'' (Inr (Some (ids, s)))))"

definition auth_config :: "system \<Rightarrow> auth_config option configured" where
  "auth_config sys =
     on_ok (apple_auth_config sys) (\<lambda>apple. on_ok (google_auth_config sys) (\<lambda>google.
       if apple = None \<and> google = None then Inr None
       else (case set_value (sy_env sys ''AUTH_SECRET'') of None \<Rightarrow> Inl ''AUTH_SECRET''
             | Some secret \<Rightarrow> Inr (Some \<lparr>au_secret = secret, au_apple = apple, au_google = google\<rparr>))))"

subsection \<open>All of it\<close>

record config =
  cf_mode :: server_mode
  cf_base_url :: string
  cf_relay_url :: string
  cf_relay_url_explicit :: bool
  cf_full_content :: bool
  cf_plain_hash :: bool
  cf_listen :: string
  cf_port :: nat
  cf_data_dir :: string
  cf_behind_proxy :: proxy_trust
  cf_allow_noop :: bool
  cf_stats_key :: "string option"
  cf_registration_secret :: "string option"
  cf_registration_closed :: bool
  cf_public_hosts :: "string list"
  cf_apns :: "apns_config option"
  cf_fcm :: "fcm_config option"
  cf_revenuecat :: "(string \<times> (string \<times> tier) list) option"
  cf_store_api :: "(string \<times> string \<times> (string \<times> tier) list) option"
  cf_reads :: reads_setting
  cf_pack_entitlements :: "(string \<times> string) list"
  cf_pack_includes :: "(tier \<times> string list) list"
  cf_weekly_checks :: bool
  cf_auth :: "auth_config option"

definition is_listen :: "string \<Rightarrow> bool" where
  "is_listen x \<longleftrightarrow> x \<noteq> [] \<and> hd x = CHR '':'' \<and> all_digits (tl x)"

definition mode_names :: "(string \<times> server_mode) list" where
  "mode_names = [(''selfhosted'', SelfHostedMode), (''relay'', RelayMode), (''hosted'', HostedMode)]"

text \<open>The mode that is set, else the guess from the providers and the relay URL.\<close>

definition config_mode :: "string option \<Rightarrow> bool \<Rightarrow> bool \<Rightarrow> server_mode configured" where
  "config_mode configured has_provider relay_url_explicit =
     (case configured of
        None \<Rightarrow> Inr (if has_provider then (if relay_url_explicit then HostedMode else RelayMode) else SelfHostedMode)
      | Some x \<Rightarrow> (case map_of mode_names x of None \<Rightarrow> Inl ''mode'' | Some m \<Rightarrow> Inr m))"

text \<open>The checks of the billing settings: the shared secret, the map, and the key that reads the store with its project.\<close>

definition billing_settings ::
  "bool \<Rightarrow> server_mode \<Rightarrow> string option \<Rightarrow> (string \<times> tier) list \<Rightarrow> string option \<Rightarrow> string option
     \<Rightarrow> ((string \<times> (string \<times> tier) list) option \<times> (string \<times> string \<times> (string \<times> tier) list) option) configured" where
  "billing_settings production md secret entitlements api_key project =
     unless (secret = Some []) ''RevenueCat shared secret''
     (unless (production \<and> md \<noteq> SelfHostedMode \<and> secret = None) ''RevenueCat shared secret''
     (unless (production \<and> md \<noteq> SelfHostedMode \<and> entitlements = []) ''RevenueCat entitlements''
     (unless (api_key = Some []) ''RevenueCat secret API key''
     (unless (api_key \<noteq> None \<and> (project = None \<or> project = Some [])) ''RevenueCat project id''
     (unless (api_key \<noteq> None \<and> entitlements = []) ''RevenueCat entitlements''
       (Inr (map_option (\<lambda>s. (s, entitlements)) secret,
             (case (api_key, project) of (Some k, Some p) \<Rightarrow> Some (k, p, entitlements) | _ \<Rightarrow> None))))))))"

definition config_from_file :: "system \<Rightarrow> file_config \<Rightarrow> config configured" where
  "config_from_file sys file =
     (let env = sy_env sys; production = (env ''NODE_ENV'' = Some ''production'');
          listen = (case string_value env ''LISTEN'' (fl_listen file) of None \<Rightarrow> '':8080'' | Some x \<Rightarrow> x);
          content = (case string_value env ''RELAY_CONTENT'' (fl_relay_content file) of None \<Rightarrow> ''none'' | Some x \<Rightarrow> x);
          plain = (case string_value env ''RELAY_PLAIN_HASH'' (fl_relay_plain_hash file) of None \<Rightarrow> ''on'' | Some x \<Rightarrow> x);
          allow_noop = (\<not> production \<and> env ''ALLOW_NOOP_PUSH'' = Some ''true'');
          relay_url = string_value env ''RELAY_URL'' (fl_relay_url file)
      in unless (\<not> is_listen listen) ''listen''
     (on_ok (port_value (case env ''PORT'' of None \<Rightarrow> tl listen | Some x \<Rightarrow> x)) (\<lambda>port.
      unless (content \<noteq> ''none'' \<and> content \<noteq> ''full'') ''relay-content''
     (unless (plain \<noteq> ''on'' \<and> plain \<noteq> ''off'') ''relay-plain-hash''
     (on_ok (apns_config env (fl_apns file)) (\<lambda>apns.
      on_ok (fcm_config sys (fl_fcm file)) (\<lambda>fcm.
      on_ok (entitlements_value (env ''REVENUECAT_ENTITLEMENTS'')) (\<lambda>env_ents.
     (let ents = (case env_ents of Some m \<Rightarrow> m | None \<Rightarrow> (case fl_entitlements file of Some m \<Rightarrow> m | None \<Rightarrow> []))
      in unless (apns = None \<and> fcm = None \<and> \<not> allow_noop \<and> \<not> production) ''push provider''
     (on_ok (config_mode (string_value env ''MODE'' (fl_mode file)) (apns \<noteq> None \<or> fcm \<noteq> None) (relay_url \<noteq> None)) (\<lambda>md.
      on_ok (billing_settings production md (string_value env ''REVENUECAT_SHARED_SECRET'' (fl_shared_secret file)) ents
               (env ''REVENUECAT_SECRET_API_KEY'') (env ''REVENUECAT_PROJECT_ID'')) (\<lambda>billing.
      on_ok (reads_value (env ''REVENUECAT_READS'')) (\<lambda>reads.
      on_ok (pack_entitlements_value (env ''REVENUECAT_PACK_ENTITLEMENTS'')) (\<lambda>pack_ents.
      on_ok (pack_includes_value (env ''PACK_INCLUDES'')) (\<lambda>includes.
      on_ok (auth_config sys) (\<lambda>auth.
      on_ok (weekly_checks_value (env ''WEEKLY_CHECKS'')) (\<lambda>weekly.
      on_ok (url_value sys ''base-url'' (string_value env ''BASE_URL'' (fl_base_url file))) (\<lambda>base.
      on_ok (url_value sys ''relay-url'' (Some (case relay_url of None \<Rightarrow> ''https://relay.critalarm.app'' | Some x \<Rightarrow> x))) (\<lambda>relay.
      on_ok (proxy_trust_value
               (if env ''BEHIND_PROXY'' = None \<or> env ''BEHIND_PROXY'' = Some [] then fl_behind_proxy file
                else map_option JText (env ''BEHIND_PROXY''))) (\<lambda>proxy.
      on_ok (relay_registration_closed (env ''RELAY_REGISTRATION'')) (\<lambda>closed.
      on_ok (relay_public_hosts sys (env ''RELAY_PUBLIC_HOSTS'')) (\<lambda>hosts.
        Inr \<lparr>cf_mode = md, cf_base_url = base, cf_relay_url = relay, cf_relay_url_explicit = (relay_url \<noteq> None),
             cf_full_content = (content = ''full''), cf_plain_hash = (plain = ''on''), cf_listen = listen, cf_port = port,
             cf_data_dir = (case string_value env ''DATA_DIR'' (fl_data_dir file) of None \<Rightarrow> ''/data'' | Some x \<Rightarrow> x),
             cf_behind_proxy = proxy, cf_allow_noop = allow_noop, cf_stats_key = set_value (env ''STATS_KEY''),
             cf_registration_secret = set_value (env ''RELAY_REGISTRATION_SECRET''), cf_registration_closed = closed, cf_public_hosts = hosts,
             cf_apns = apns, cf_fcm = fcm, cf_revenuecat = fst billing, cf_store_api = snd billing, cf_reads = reads,
             cf_pack_entitlements = pack_ents, cf_pack_includes = includes, cf_weekly_checks = weekly, cf_auth = auth\<rparr>))))))))))))))))))))))"

definition load_config :: "system \<Rightarrow> config_file \<Rightarrow> config configured" where
  "load_config sys file = on_ok (read_configuration file) (config_from_file sys)"

section \<open>What a configuration is once the server has started\<close>

text \<open>Only the path of a value tells a setting from the next, so a proof walks the checks once and keeps what each of them said.\<close>

lemmas configured_Inr = on_ok_Inr unless_Inr

lemma port_value_Inr: "port_value x = Inr n \<longleftrightarrow> all_digits x \<and> 1 \<le> n \<and> n \<le> 65535 \<and> n = digits_value x"
  by (auto simp: port_value_def unless_def)

lemma url_value_Inr: "url_value sys field value = Inr x \<longleftrightarrow> value = Some x \<and> (\<exists>h. sy_url sys x = Some (''http:'', h) \<or> sy_url sys x = Some (''https:'', h))"
  by (auto simp: url_value_def unless_def split: option.splits if_splits)

lemma proxy_trust_value_Inr: "proxy_trust_value v = Inr (TrustHops n) \<Longrightarrow> 1 \<le> n \<and> n \<le> 10"
  by (auto simp: proxy_trust_value_def Let_def split: if_splits)

lemma billing_settings_Inr:
  "billing_settings production md secret ents key project = Inr (rc, api) \<longleftrightarrow>
     secret \<noteq> Some [] \<and> (production \<and> md \<noteq> SelfHostedMode \<longrightarrow> secret \<noteq> None \<and> ents \<noteq> []) \<and> key \<noteq> Some [] \<and>
     (key \<noteq> None \<longrightarrow> project \<noteq> None \<and> project \<noteq> Some [] \<and> ents \<noteq> []) \<and>
     rc = map_option (\<lambda>s. (s, ents)) secret \<and> api = (case (key, project) of (Some k, Some p) \<Rightarrow> Some (k, p, ents) | _ \<Rightarrow> None)"
  by (auto simp: billing_settings_def unless_def)


lemma set_value_Some: "set_value v = Some x \<longleftrightarrow> v = Some x \<and> x \<noteq> []"
  by (auto simp: set_value_def)

lemma google_auth_config_Inr: "google_auth_config sys = Inr (Some (ids, s)) \<Longrightarrow> ids \<noteq> [] \<and> s \<noteq> []"
  by (auto simp: google_auth_config_def Let_def unless_Inr set_value_Some split: if_splits option.splits)

lemma auth_config_Inr:
  "auth_config sys = Inr (Some a) \<Longrightarrow> au_secret a \<noteq> [] \<and> (au_apple a \<noteq> None \<or> au_google a \<noteq> None) \<and>
     (\<forall>ids s. au_google a = Some (ids, s) \<longrightarrow> ids \<noteq> [] \<and> s \<noteq> [])"
proof -
  assume "auth_config sys = Inr (Some a)"
  then obtain apple google where parts: "google_auth_config sys = Inr google"
    "(if apple = None \<and> google = None then Inr None
      else (case set_value (sy_env sys ''AUTH_SECRET'') of None \<Rightarrow> Inl ''AUTH_SECRET''
            | Some secret \<Rightarrow> Inr (Some \<lparr>au_secret = secret, au_apple = apple, au_google = google\<rparr>))) = Inr (Some a)"
    unfolding auth_config_def on_ok_Inr by blast
  then obtain secret where "set_value (sy_env sys ''AUTH_SECRET'') = Some secret" "apple \<noteq> None \<or> google \<noteq> None"
    "a = \<lparr>au_secret = secret, au_apple = apple, au_google = google\<rparr>"
    by (cases "set_value (sy_env sys ''AUTH_SECRET'')") (simp_all split: if_splits)
  with parts(1) google_auth_config_Inr[of sys] show ?thesis by (auto simp: set_value_Some)
qed

text \<open>The settings the environment and the file decide alone, before any check.\<close>

definition is_production :: "system \<Rightarrow> bool" where
  "is_production sys \<longleftrightarrow> sy_env sys ''NODE_ENV'' = Some ''production''"

definition wanted_mode :: "system \<Rightarrow> file_config \<Rightarrow> string option" where
  "wanted_mode sys file = string_value (sy_env sys) ''MODE'' (fl_mode file)"

text \<open>What the checks of one load said, for the settings that are properties' business.\<close>

definition checks_passed :: "system \<Rightarrow> file_config \<Rightarrow> config \<Rightarrow> bool" where
  "checks_passed sys file cf \<longleftrightarrow>
     (\<exists>x. port_value x = Inr (cf_port cf)) \<and>
     (\<exists>v. url_value sys ''base-url'' v = Inr (cf_base_url cf)) \<and> (\<exists>v. url_value sys ''relay-url'' v = Inr (cf_relay_url cf)) \<and>
     (\<exists>v. proxy_trust_value v = Inr (cf_behind_proxy cf)) \<and>
     config_mode (wanted_mode sys file) (cf_apns cf \<noteq> None \<or> cf_fcm cf \<noteq> None) (cf_relay_url_explicit cf) = Inr (cf_mode cf) \<and>
     (\<exists>ents. billing_settings (is_production sys) (cf_mode cf) (string_value (sy_env sys) ''REVENUECAT_SHARED_SECRET'' (fl_shared_secret file)) ents
        (sy_env sys ''REVENUECAT_SECRET_API_KEY'') (sy_env sys ''REVENUECAT_PROJECT_ID'') = Inr (cf_revenuecat cf, cf_store_api cf)) \<and>
     auth_config sys = Inr (cf_auth cf) \<and>
     (is_production sys \<or> cf_apns cf \<noteq> None \<or> cf_fcm cf \<noteq> None \<or> cf_allow_noop cf) \<and>
     (cf_allow_noop cf \<longrightarrow> \<not> is_production sys) \<and>
     cf_registration_secret cf = set_value (sy_env sys ''RELAY_REGISTRATION_SECRET'') \<and>
     cf_stats_key cf = set_value (sy_env sys ''STATS_KEY'') \<and>
     relay_public_hosts sys (sy_env sys ''RELAY_PUBLIC_HOSTS'') = Inr (cf_public_hosts cf)"

lemma config_from_file_checks: "config_from_file sys file = Inr cf \<Longrightarrow> checks_passed sys file cf"
  unfolding config_from_file_def Let_def configured_Inr checks_passed_def is_production_def wanted_mode_def
  by (elim exE conjE, drule sym[of "Inr _"], simp, ((intro conjI)?; blast?)+)

text \<open>C37: A server that starts has a configuration it can keep. Its port is one, its two addresses are http or https URLs, and it believes at most ten
  proxies. The mode is the one that is set, in the environment or the file, and only when none is, the guess from push credentials and relay
  URL. In production a server that is not self-hosted knows the store's shared secret and a non-empty map of entitlements; a shared
  secret is never empty, and a key that reads the store comes with its project and such a map. Outside production there are push credentials or
  pushes are switched off in so many words, which production ignores. No secret that is optional is ever the empty text, and sign-in
  has a secret and a provider with all its parts.\<close>

theorem config_contract:
  assumes "load_config sys file = Inr cf"
  shows "1 \<le> cf_port cf \<and> cf_port cf \<le> 65535 \<and>
    (\<forall>url \<in> {cf_base_url cf, cf_relay_url cf}. \<exists>protocol host. sy_url sys url = Some (protocol, host) \<and> protocol \<in> {''http:'', ''https:''}) \<and>
    (\<forall>n. cf_behind_proxy cf = TrustHops n \<longrightarrow> 1 \<le> n \<and> n \<le> 10) \<and>
    (\<exists>fl. read_configuration file = Inr fl \<and>
       (case wanted_mode sys fl of
          Some x \<Rightarrow> map_of mode_names x = Some (cf_mode cf)
        | None \<Rightarrow> cf_mode cf =
            (if cf_apns cf = None \<and> cf_fcm cf = None then SelfHostedMode else if cf_relay_url_explicit cf then HostedMode else RelayMode))) \<and>
    (is_production sys \<and> cf_mode cf \<noteq> SelfHostedMode \<longrightarrow> (\<exists>s m. cf_revenuecat cf = Some (s, m) \<and> m \<noteq> [])) \<and>
    (\<forall>s m. cf_revenuecat cf = Some (s, m) \<longrightarrow> s \<noteq> []) \<and>
    (\<forall>k p m. cf_store_api cf = Some (k, p, m) \<longrightarrow> k \<noteq> [] \<and> p \<noteq> [] \<and> m \<noteq> []) \<and>
    (sy_env sys ''REVENUECAT_SECRET_API_KEY'' \<noteq> None \<longrightarrow> cf_store_api cf \<noteq> None) \<and>
    (is_production sys \<or> cf_apns cf \<noteq> None \<or> cf_fcm cf \<noteq> None \<or> cf_allow_noop cf) \<and> (cf_allow_noop cf \<longrightarrow> \<not> is_production sys) \<and>
    cf_registration_secret cf \<noteq> Some [] \<and> cf_stats_key cf \<noteq> Some [] \<and>
    (\<forall>a. cf_auth cf = Some a \<longrightarrow> au_secret a \<noteq> [] \<and> (au_apple a \<noteq> None \<or> au_google a \<noteq> None) \<and>
       (\<forall>ids s. au_google a = Some (ids, s) \<longrightarrow> ids \<noteq> [] \<and> s \<noteq> []))"
proof -
  obtain fl where fl: "read_configuration file = Inr fl" "config_from_file sys fl = Inr cf"
    using assms by (auto simp: load_config_def on_ok_Inr)
  note c = config_from_file_checks[OF fl(2), unfolded checks_passed_def]
  obtain ents where billing: "billing_settings (is_production sys) (cf_mode cf)
      (string_value (sy_env sys) ''REVENUECAT_SHARED_SECRET'' (fl_shared_secret fl)) ents
      (sy_env sys ''REVENUECAT_SECRET_API_KEY'') (sy_env sys ''REVENUECAT_PROJECT_ID'') = Inr (cf_revenuecat cf, cf_store_api cf)"
    using c by blast
  have "1 \<le> cf_port cf \<and> cf_port cf \<le> 65535" using c by (auto simp: port_value_Inr)
  moreover have "\<forall>url \<in> {cf_base_url cf, cf_relay_url cf}. \<exists>protocol host. sy_url sys url = Some (protocol, host) \<and> protocol \<in> {''http:'', ''https:''}"
    using c by (auto simp: url_value_Inr)
  moreover have "\<forall>n. cf_behind_proxy cf = TrustHops n \<longrightarrow> 1 \<le> n \<and> n \<le> 10" using c proxy_trust_value_Inr by metis
  moreover have "case wanted_mode sys fl of
          Some x \<Rightarrow> map_of mode_names x = Some (cf_mode cf)
        | None \<Rightarrow> cf_mode cf =
            (if cf_apns cf = None \<and> cf_fcm cf = None then SelfHostedMode else if cf_relay_url_explicit cf then HostedMode else RelayMode)"
    using c by (auto simp: config_mode_def split: option.splits)
  moreover have "is_production sys \<and> cf_mode cf \<noteq> SelfHostedMode \<longrightarrow> (\<exists>s m. cf_revenuecat cf = Some (s, m) \<and> m \<noteq> [])"
    "\<forall>s m. cf_revenuecat cf = Some (s, m) \<longrightarrow> s \<noteq> []"
    "\<forall>k p m. cf_store_api cf = Some (k, p, m) \<longrightarrow> k \<noteq> [] \<and> p \<noteq> [] \<and> m \<noteq> []"
    "sy_env sys ''REVENUECAT_SECRET_API_KEY'' \<noteq> None \<longrightarrow> cf_store_api cf \<noteq> None"
    using billing unfolding billing_settings_Inr by (auto split: option.splits)
  moreover have "cf_registration_secret cf \<noteq> Some []" "cf_stats_key cf \<noteq> Some []" using c by (auto simp: set_value_def)
  moreover have "\<forall>a. cf_auth cf = Some a \<longrightarrow> au_secret a \<noteq> [] \<and> (au_apple a \<noteq> None \<or> au_google a \<noteq> None) \<and>
       (\<forall>ids s. au_google a = Some (ids, s) \<longrightarrow> ids \<noteq> [] \<and> s \<noteq> [])"
    using c auth_config_Inr by metis
  ultimately show ?thesis using c fl(1) by blast
qed


section \<open>The map of entitlements, written and read\<close>

definition tier_text :: "tier \<Rightarrow> string" where
  "tier_text t = (case t of Free \<Rightarrow> ''free'' | Relay \<Rightarrow> ''relay'' | Hosted \<Rightarrow> ''hosted'')"

definition entitlements_text :: "(string \<times> tier) list \<Rightarrow> string" where
  "entitlements_text m = join_with '','' (map (\<lambda>(k, t). k @ ''='' @ tier_text t) m)"

text \<open>A name that can be written: not empty, without the two separators or white space at its ends, and not the one name an object does not take.\<close>

definition is_entitlement_name :: "string \<Rightarrow> bool" where
  "is_entitlement_name k \<longleftrightarrow> k \<noteq> [] \<and> CHR '','' \<notin> set k \<and> CHR ''='' \<notin> set k \<and> trim k = k \<and> k \<noteq> ''__proto__''"

lemma strip_keeps: "\<forall>w \<in> set ws. c \<notin> set w \<Longrightarrow> c \<in> set x \<Longrightarrow> c \<in> set (strip n ws x)"
proof (induction n ws x rule: strip.induct)
  case (2 n ws x)
  show ?case
  proof (cases "List.find (\<lambda>w. starts_with w x) ws")
    case None
    with 2 show ?thesis by simp
  next
    case (Some w)
    then have "w \<in> set ws" "x = w @ drop (length w) x" using find_SomeD[OF Some] by (auto simp: starts_with_iff)
    with 2(2,3) have "c \<in> set (drop (length w) x)" by (metis Un_iff set_append)
    with 2(1)[OF Some 2(2)] Some show ?thesis by simp
  qed
qed simp

lemma trim_keeps: "\<forall>w \<in> set white_spaces. c \<notin> set w \<Longrightarrow> c \<in> set x \<Longrightarrow> c \<in> set (trim x)"
  using strip_keeps[of white_spaces c x "length x"] strip_keeps[of "map rev white_spaces" c "rev (trim_start x)" "length (trim_start x)"]
  by (simp add: trim_def trim_end_def trim_start_def)

lemma equals_stays: "CHR ''='' \<in> set x \<Longrightarrow> trim x \<noteq> []"
  using trim_keeps[of "CHR ''=''" x] by (auto simp: white_spaces_def)

lemma tier_text_read: "trim (tier_text t) = tier_text t" "map_of tier_names (tier_text t) = Some t" "CHR '','' \<notin> set (tier_text t)"
proof -
  have trims: "trim ''free'' = ''free''" "trim ''relay'' = ''relay''" "trim ''hosted'' = ''hosted''" by (code_simp, code_simp, code_simp)
  show "trim (tier_text t) = tier_text t" "map_of tier_names (tier_text t) = Some t" "CHR '','' \<notin> set (tier_text t)"
    by (cases t; simp add: tier_text_def tier_names_def trims)+
qed

lemma cut_written: "is_entitlement_name k \<Longrightarrow> cut_pair (k @ ''='' @ tier_text t) = Some (k, tier_text t)"
proof -
  assume k: "is_entitlement_name k"
  then have "takeWhile (\<lambda>c. c \<noteq> CHR ''='') (k @ ''='' @ tier_text t) = k" "dropWhile (\<lambda>c. c \<noteq> CHR ''='') (k @ ''='' @ tier_text t) = ''='' @ tier_text t"
    by (subst takeWhile_append2 dropWhile_append2; auto simp: is_entitlement_name_def)+
  with k show ?thesis by (simp add: cut_pair_def is_entitlement_name_def tier_text_read)
qed

lemma update_fresh: "k \<notin> fst ` set m \<Longrightarrow> AList.update k v m = m @ [(k, v)]"
  by (induction m) auto

lemma tier_pairs_written:
  "list_all (\<lambda>(k, t). is_entitlement_name k) m \<Longrightarrow> distinct (map fst (m0 @ m)) \<Longrightarrow>
   tier_pairs (map (\<lambda>(k, t). k @ ''='' @ tier_text t) m) m0 = Inr (m0 @ m)"
proof (induction m arbitrary: m0)
  case (Cons e m)
  obtain k t where e: "e = (k, t)" by fastforce
  with Cons.prems have k: "is_entitlement_name k" "k \<notin> fst ` set m0" by auto
  have "tier_pairs (map (\<lambda>(k, t). k @ ''='' @ tier_text t) m) (m0 @ [(k, t)]) = Inr ((m0 @ [(k, t)]) @ m)"
    by (rule Cons.IH) (use Cons.prems e in auto)
  with k show ?case
    by (simp add: e cut_written[simplified] tier_text_read set_entry_def update_fresh) (simp add: is_entitlement_name_def)
qed simp

text \<open>The map of entitlements survives the trip through one environment variable: what is written as comma separated pairs is read back as it was,
  for every map that is not empty and whose names can be written. No pair is dropped and no tier changed.\<close>

theorem entitlements_round_trip:
  assumes "m \<noteq> []" "distinct (map fst m)" "list_all (\<lambda>(k, t). is_entitlement_name k) m"
  shows "entitlements_value (Some (entitlements_text m)) = Inr (Some m)"
proof -
  let ?ps = "map (\<lambda>(k, t). k @ ''='' @ tier_text t) m"
  have "list_all (\<lambda>p. CHR '','' \<notin> set p) ?ps" using assms(3) tier_text_read(3) by (auto simp: list_all_iff is_entitlement_name_def)
  then have split: "split_on (CHR '','') (entitlements_text m) = ?ps" using split_join[of ?ps] assms(1) by (simp add: entitlements_text_def)
  have "\<forall>p \<in> set ?ps. trim p \<noteq> []" using equals_stays by auto
  then have segs: "pair_segments (entitlements_text m) = ?ps" unfolding pair_segments_def split by (simp add: filter_id_conv)
  obtain p ps where "?ps = p # ps" using assms(1) by (cases m) auto
  then have "set p \<subseteq> set (entitlements_text m)" by (cases ps) (auto simp: entitlements_text_def)
  moreover have "CHR ''='' \<in> set p" using \<open>?ps = p # ps\<close> by (cases m) auto
  ultimately have "trim (entitlements_text m) \<noteq> []" using equals_stays by blast
  with segs tier_pairs_written[of m "[]"] assms(2,3) show ?thesis by (simp add: entitlements_value_def on_ok_def)
qed

theorem entitlements_round_trip_witness:
  "entitlements_value (Some ''plan=hosted,basic=relay'') = Inr (Some [(''plan'', Hosted), (''basic'', Relay)])"
proof -
  have trims: "trim ''plan'' = ''plan''" "trim ''basic'' = ''basic''" by (code_simp, code_simp)
  have "entitlements_value (Some (entitlements_text [(''plan'', Hosted), (''basic'', Relay)])) = Inr (Some [(''plan'', Hosted), (''basic'', Relay)])"
    by (rule entitlements_round_trip) (simp_all add: is_entitlement_name_def trims)
  then show ?thesis by (simp add: entitlements_text_def tier_text_def)
qed

definition sample_system :: system where
  "sample_system = \<lparr>sy_env = map_of [(''BASE_URL'', ''https://a.example''), (''ALLOW_NOOP_PUSH'', ''true'')],
     sy_url = (\<lambda>_. Some (''https:'', ''a.example'')), sy_read_file = (\<lambda>_. None), sy_apple_key_error = (\<lambda>_. None)\<rparr>"

definition sample_config :: config where
  "sample_config = (case load_config sample_system FileAbsent of Inr cf \<Rightarrow> cf)"

definition no_file :: file_config where
  "no_file = \<lparr>fl_mode = None, fl_base_url = None, fl_relay_url = None, fl_relay_content = None, fl_relay_plain_hash = None, fl_listen = None,
     fl_data_dir = None, fl_behind_proxy = None,
     fl_apns = \<lparr>pf_team_id = None, pf_key_id = None, pf_private_key = None, pf_bundle_id = None, pf_environment = None\<rparr>,
     fl_fcm = \<lparr>ff_project_id = None, ff_client_email = None, ff_private_key = None, ff_token_url = None\<rparr>,
     fl_shared_secret = None, fl_entitlements = None\<rparr>"

lemma no_file_fields:
  "fl_mode no_file = None" "fl_base_url no_file = None" "fl_relay_url no_file = None" "fl_relay_content no_file = None"
  "fl_relay_plain_hash no_file = None" "fl_listen no_file = None" "fl_data_dir no_file = None" "fl_behind_proxy no_file = None"
  "fl_shared_secret no_file = None" "fl_entitlements no_file = None"
  by (simp_all add: no_file_def)

lemma absent_file: "read_configuration FileAbsent = Inr no_file"
  by (simp add: read_configuration_def file_schema_def no_file_def opt_text_def opt_object_def opt_nonempty_def parse_provider_file_def
      parse_fcm_file_def file_entitlements_def on_ok_def unless_def)

lemma sample_config_loads: "load_config sample_system FileAbsent = Inr sample_config"
proof -
  have port: "port_value ''8080'' = Inr 8080" "is_listen '':8080''"
    by (simp_all add: port_value_def unless_def all_digits_def is_digit_def digits_value_def digit_value_def is_listen_def)
  have trim: "trim [] = []" by code_simp
  have url: "sy_url sample_system x = Some (''https:'', ''a.example'')" for x by (simp add: sample_system_def)
  have env: "sy_env sample_system ''BASE_URL'' = Some ''https://a.example''" "sy_env sample_system ''ALLOW_NOOP_PUSH'' = Some ''true''"
    and unset: "\<And>name. name \<noteq> ''BASE_URL'' \<Longrightarrow> name \<noteq> ''ALLOW_NOOP_PUSH'' \<Longrightarrow> sy_env sample_system name = None"
    by (simp_all add: sample_system_def)
  have parts: "apns_config (sy_env sample_system) (fl_apns no_file) = Inr None" "fcm_config sample_system (fl_fcm no_file) = Inr None"
    "auth_config sample_system = Inr None" "relay_public_hosts sample_system None = Inr []"
    by (simp_all add: apns_config_def fcm_config_def auth_config_def apple_auth_config_def google_auth_config_def apple_private_key_def
        relay_public_hosts_def string_value_def set_value_def pem_newlines_def no_file_def on_ok_def Let_def text_or_empty_def lower_text_def unset trim)
  have "\<exists>cf. config_from_file sample_system no_file = Inr cf"
    by (simp add: config_from_file_def Let_def on_ok_def unless_def parts port env unset string_value_def config_mode_def billing_settings_def
        entitlements_value_def reads_value_def pack_entitlements_value_def pack_includes_value_def pair_segments_def text_or_empty_def trim
        weekly_checks_value_def url_value_def proxy_trust_value_def relay_registration_closed_def no_file_fields url)
  then show ?thesis by (auto simp: sample_config_def load_config_def on_ok_def absent_file)
qed

theorem config_contract_witness: "1 \<le> cf_port sample_config \<and> cf_port sample_config \<le> 65535"
  using config_contract[OF sample_config_loads] by simp

end
