(* ===== verification/Connection.thy ===== *)
theory Connection
  imports Push
begin

section \<open>The connection to Apple\<close>

text \<open>
  \<open>Http2ApnsTransport\<close> of \<open>src/src/push/apns.ts\<close>: one HTTP/2 session that is held and reused, its keepalive pings, and
  the pushes in flight on it. What Node and the network do is the list of events they raise, in any order and number; the
  class answers each with the listener it has registered for it.

  A session is the index of its \<open>connect\<close>, a push the index of its \<open>send\<close>. An interval timer is named by the session its
  closure watches, for every session starts exactly one.
\<close>

subsection \<open>State\<close>

text \<open>\<open>closed\<close> and \<open>destroyed\<close> are the flags Node keeps, \<open>waiting\<close> the variable in the closure of the keepalive.\<close>

record http2_session =
  hs_closed :: bool
  hs_destroyed :: bool
  hs_waiting :: bool

text \<open>How a push ends: with the answer, which is a status and the text of the body, or rejected. \<open>listening\<close> says whether its
  \<open>onSessionError\<close> is registered on the session.\<close>

datatype settlement = Resolved int string | Rejected

record push_stream =
  st_session :: nat
  st_status :: int
  st_body :: string
  st_settled :: "settlement option"
  st_listening :: bool

record transport =
  tr_sessions :: "http2_session list"
  tr_current :: "nat option"
  tr_timers :: "nat list"
  tr_keepalive :: "nat option"
  tr_streams :: "push_stream list"

definition fresh_transport :: transport where
  "fresh_transport = \<lparr>tr_sessions = [], tr_current = None, tr_timers = [], tr_keepalive = None, tr_streams = []\<rparr>"

subsection \<open>Operations\<close>

definition upd_session :: "nat \<Rightarrow> (http2_session \<Rightarrow> http2_session) \<Rightarrow> transport \<Rightarrow> transport" where
  "upd_session i f t =
     (if i < length (tr_sessions t) then t\<lparr>tr_sessions := (tr_sessions t)[i := f (tr_sessions t ! i)]\<rparr> else t)"

definition upd_stream :: "nat \<Rightarrow> (push_stream \<Rightarrow> push_stream) \<Rightarrow> transport \<Rightarrow> transport" where
  "upd_stream k f t =
     (if k < length (tr_streams t) then t\<lparr>tr_streams := (tr_streams t)[k := f (tr_streams t ! k)]\<rparr> else t)"

definition usable :: "transport \<Rightarrow> nat \<Rightarrow> bool" where
  "usable t i \<longleftrightarrow> \<not> hs_closed (tr_sessions t ! i) \<and> \<not> hs_destroyed (tr_sessions t ! i)"

definition start_keepalive :: "nat \<Rightarrow> transport \<Rightarrow> transport" where
  "start_keepalive i t = t\<lparr>tr_timers := tr_timers t @ [i], tr_keepalive := Some i\<rparr>"

definition stop_keepalive :: "transport \<Rightarrow> transport" where
  "stop_keepalive t =
     (case tr_keepalive t of None \<Rightarrow> t
      | Some i \<Rightarrow> t\<lparr>tr_timers := filter (\<lambda>j. j \<noteq> i) (tr_timers t), tr_keepalive := None\<rparr>)"

definition drop_session :: "nat \<Rightarrow> transport \<Rightarrow> transport" where
  "drop_session i t =
     (if tr_current t \<noteq> Some i then t
      else upd_session i (\<lambda>h. h\<lparr>hs_destroyed := True\<rparr>) (stop_keepalive (t\<lparr>tr_current := None\<rparr>)))"

definition open_session :: "transport \<Rightarrow> transport \<times> nat" where
  "open_session t =
     (let i = length (tr_sessions t)
      in (start_keepalive i (t\<lparr>tr_sessions := tr_sessions t @ [\<lparr>hs_closed = False, hs_destroyed = False, hs_waiting = False\<rparr>],
                               tr_current := Some i\<rparr>), i))"

definition session_for :: "transport \<Rightarrow> transport \<times> nat" where
  "session_for t =
     (case tr_current t of None \<Rightarrow> open_session t
      | Some i \<Rightarrow> if usable t i then (t, i) else open_session t)"

text \<open>\<open>send\<close> up to \<open>stream.end\<close>. When \<open>session.request\<close> throws, the promise is rejected before any listener is there.\<close>

definition send_push :: "bool \<Rightarrow> transport \<Rightarrow> transport" where
  "send_push throws t =
     (case session_for t of (t', i) \<Rightarrow>
        t'\<lparr>tr_streams := tr_streams t' @
             [\<lparr>st_session = i, st_status = 0, st_body = [], st_settled = (if throws then Some Rejected else None),
               st_listening = \<not> throws\<rparr>]\<rparr>)"

text \<open>\<open>fail\<close>, the handler of \<open>close\<close> on the stream, and the two that only note what came in.\<close>

definition fail_stream :: "nat \<Rightarrow> transport \<Rightarrow> transport" where
  "fail_stream k t =
     (if k < length (tr_streams t) \<and> st_settled (tr_streams t ! k) = None
      then upd_stream k (\<lambda>x. x\<lparr>st_settled := Some Rejected, st_listening := False\<rparr>) (drop_session (st_session (tr_streams t ! k)) t)
      else t)"

definition stream_closed :: "nat \<Rightarrow> transport \<Rightarrow> transport" where
  "stream_closed k t =
     (if k < length (tr_streams t) \<and> st_settled (tr_streams t ! k) = None
      then if st_status (tr_streams t ! k) = 0
           then upd_stream k (\<lambda>x. x\<lparr>st_settled := Some Rejected, st_listening := False\<rparr>) (drop_session (st_session (tr_streams t ! k)) t)
           else upd_stream k (\<lambda>x. x\<lparr>st_settled := Some (Resolved (st_status x) (st_body x)), st_listening := False\<rparr>) t
      else t)"

definition note_response :: "nat \<Rightarrow> int option \<Rightarrow> transport \<Rightarrow> transport" where
  "note_response k status = upd_stream k (\<lambda>x. x\<lparr>st_status := (case status of None \<Rightarrow> 0 | Some n \<Rightarrow> n)\<rparr>)"

definition note_chunk :: "nat \<Rightarrow> string \<Rightarrow> transport \<Rightarrow> transport" where
  "note_chunk k chunk = upd_stream k (\<lambda>x. x\<lparr>st_body := st_body x @ chunk\<rparr>)"

text \<open>An \<open>error\<close> of a session: the listener of \<open>sessionFor\<close> was registered first, then come those of the pushes in the order
  they were sent. Node removes a \<open>once\<close> listener as it calls it, which \<open>fail\<close> does as well.\<close>

definition session_error :: "nat \<Rightarrow> transport \<Rightarrow> transport" where
  "session_error i t =
     fold fail_stream (filter (\<lambda>k. st_session (tr_streams t ! k) = i \<and> st_listening (tr_streams t ! k)) [0..<length (tr_streams t)])
       (drop_session i t)"

text \<open>A run of the interval timer of session \<open>i\<close>; the flag says whether \<open>session.ping\<close> throws.\<close>

definition keepalive_tick :: "nat \<Rightarrow> bool \<Rightarrow> transport \<Rightarrow> transport" where
  "keepalive_tick i throws t =
     (if i \<notin> set (tr_timers t) \<or> tr_current t \<noteq> Some i \<or> hs_destroyed (tr_sessions t ! i) then t
      else if hs_waiting (tr_sessions t ! i) then drop_session i t
      else if throws then drop_session i t
      else upd_session i (\<lambda>h. h\<lparr>hs_waiting := True\<rparr>) t)"

definition ping_answered :: "nat \<Rightarrow> bool \<Rightarrow> transport \<Rightarrow> transport" where
  "ping_answered i fails t =
     (let t' = upd_session i (\<lambda>h. h\<lparr>hs_waiting := False\<rparr>) t in if fails then drop_session i t' else t')"

definition close_transport :: "transport \<Rightarrow> transport" where
  "close_transport t =
     (let t' = (stop_keepalive t)\<lparr>tr_current := None\<rparr>
      in case tr_current t of None \<Rightarrow> t'
         | Some i \<Rightarrow> if hs_destroyed (tr_sessions t ! i) then t' else upd_session i (\<lambda>h. h\<lparr>hs_closed := True\<rparr>) t')"

text \<open>Every entry point. \<open>SessionDies\<close> and \<open>SessionEnds\<close> are Node setting its own flags, which it does before it raises
  the events of the session; \<open>SessionGone\<close> is \<open>close\<close> or \<open>goaway\<close>; \<open>StreamFails\<close> is the time limit or an \<open>error\<close>.\<close>

datatype transport_event =
    Send bool
  | Response nat "int option"
  | Chunk nat string
  | StreamFails nat
  | StreamCloses nat
  | SessionDies nat
  | SessionEnds nat
  | SessionErrs nat
  | SessionGone nat
  | Tick nat bool
  | PingAnswered nat bool
  | CloseTransport

fun on_event :: "transport_event \<Rightarrow> transport \<Rightarrow> transport" where
  "on_event (Send throws) t = send_push throws t"
| "on_event (Response k status) t = note_response k status t"
| "on_event (Chunk k chunk) t = note_chunk k chunk t"
| "on_event (StreamFails k) t = fail_stream k t"
| "on_event (StreamCloses k) t = stream_closed k t"
| "on_event (SessionDies i) t = upd_session i (\<lambda>h. h\<lparr>hs_destroyed := True\<rparr>) t"
| "on_event (SessionEnds i) t = upd_session i (\<lambda>h. h\<lparr>hs_closed := True\<rparr>) t"
| "on_event (SessionErrs i) t = session_error i t"
| "on_event (SessionGone i) t = drop_session i t"
| "on_event (Tick i throws) t = keepalive_tick i throws t"
| "on_event (PingAnswered i fails) t = ping_answered i fails t"
| "on_event CloseTransport t = close_transport t"

definition transport_run :: "transport_event list \<Rightarrow> transport \<Rightarrow> transport" where
  "transport_run evs t = fold on_event evs t"

subsection \<open>What each operation touches\<close>

named_theorems transport_frame \<open>what an operation of the transport leaves as it was\<close>

text \<open>The session each push was given.\<close>

definition origins :: "transport \<Rightarrow> nat list" where
  "origins t = map st_session (tr_streams t)"

lemma upd_session_frame [transport_frame]:
  "tr_current (upd_session i f t) = tr_current t" "tr_timers (upd_session i f t) = tr_timers t"
  "tr_keepalive (upd_session i f t) = tr_keepalive t" "tr_streams (upd_session i f t) = tr_streams t"
  "length (tr_sessions (upd_session i f t)) = length (tr_sessions t)"
  by (simp_all add: upd_session_def)


lemma upd_stream_frame [transport_frame]:
  "tr_current (upd_stream k g t) = tr_current t" "tr_timers (upd_stream k g t) = tr_timers t"
  "tr_keepalive (upd_stream k g t) = tr_keepalive t" "tr_sessions (upd_stream k g t) = tr_sessions t"
  "length (tr_streams (upd_stream k g t)) = length (tr_streams t)"
  by (simp_all add: upd_stream_def)

lemma upd_stream_nth:
  "j < length (tr_streams t) \<Longrightarrow> tr_streams (upd_stream k g t) ! j = (if j = k then g (tr_streams t ! j) else tr_streams t ! j)"
  by (auto simp: upd_stream_def)

lemma origins_upd_stream: "(\<And>x. st_session (g x) = st_session x) \<Longrightarrow> origins (upd_stream k g t) = origins t"
  unfolding origins_def by (rule nth_equalityI) (auto simp: upd_stream_nth transport_frame)


lemma stop_keepalive_frame [transport_frame]:
  "tr_current (stop_keepalive t) = tr_current t" "tr_sessions (stop_keepalive t) = tr_sessions t"
  "tr_streams (stop_keepalive t) = tr_streams t" "tr_keepalive (stop_keepalive t) = None"
  by (simp_all add: stop_keepalive_def split: option.split)

lemma drop_session_frame [transport_frame]:
  "tr_streams (drop_session i t) = tr_streams t" "length (tr_sessions (drop_session i t)) = length (tr_sessions t)"
  "tr_current (drop_session i t) = (if tr_current t = Some i then None else tr_current t)"
  by (simp_all add: drop_session_def transport_frame)

lemma origins_drop [transport_frame]: "origins (drop_session i t) = origins t"
  by (simp add: origins_def transport_frame)

lemma close_transport_frame [transport_frame]:
  "tr_streams (close_transport t) = tr_streams t" "length (tr_sessions (close_transport t)) = length (tr_sessions t)"
  "tr_current (close_transport t) = None"
  by (simp_all add: close_transport_def Let_def transport_frame split: option.split)

lemma fail_stream_frame [transport_frame]:
  "length (tr_sessions (fail_stream k t)) = length (tr_sessions t)" "length (tr_streams (fail_stream k t)) = length (tr_streams t)"
  "origins (fail_stream k t) = origins t"
  by (simp_all add: fail_stream_def transport_frame origins_upd_stream)

lemma fold_fail_frame [transport_frame]:
  "length (tr_sessions (fold fail_stream ks t)) = length (tr_sessions t)"
  "length (tr_streams (fold fail_stream ks t)) = length (tr_streams t)" "origins (fold fail_stream ks t) = origins t"
  by (induction ks arbitrary: t) (simp_all add: transport_frame)

lemma session_error_frame [transport_frame]:
  "length (tr_sessions (session_error i t)) = length (tr_sessions t)" "length (tr_streams (session_error i t)) = length (tr_streams t)"
  "origins (session_error i t) = origins t"
  by (simp_all add: session_error_def transport_frame)

lemma keepalive_frame [transport_frame]:
  "tr_streams (keepalive_tick i throws t) = tr_streams t" "length (tr_sessions (keepalive_tick i throws t)) = length (tr_sessions t)"
  "tr_streams (ping_answered i fails t) = tr_streams t" "length (tr_sessions (ping_answered i fails t)) = length (tr_sessions t)"
  by (simp_all add: keepalive_tick_def ping_answered_def Let_def transport_frame)



subsection \<open>A session that is left is left for good\<close>

definition retired :: "transport \<Rightarrow> nat \<Rightarrow> bool" where
  "retired t i \<longleftrightarrow> i < length (tr_sessions t) \<and> (tr_current t = Some i \<longrightarrow> \<not> usable t i)"




lemma retired_upd_stream [simp]: "retired (upd_stream k g t) i \<longleftrightarrow> retired t i"
  by (simp add: retired_def usable_def transport_frame)









lemma transport_run_simps [simp]:
  "transport_run [] t = t" "transport_run (ev # evs) t = transport_run evs (on_event ev t)"
  "transport_run (evs @ evs') t = transport_run evs' (transport_run evs t)"
  by (simp_all add: transport_run_def)


subsection \<open>A push is settled once\<close>









subsection \<open>The invariant\<close>



















































text \<open>
  One thing is not kept: an interval timer is not always cleared. A push that finds the held session closed or destroyed before the
  \<open>close\<close> event of that session has been handled opens a new one, and \<open>startKeepalive\<close> overwrites the handle of the old timer. Nothing
  clears that timer again, whatever happens later; it does nothing when it runs, for its session is never the held one again.
\<close>

definition leaked :: "transport \<Rightarrow> nat \<Rightarrow> bool" where
  "leaked t i \<longleftrightarrow> i \<in> set (tr_timers t) \<and> tr_keepalive t \<noteq> Some i \<and> i < length (tr_sessions t)"

lemma leaked_upd [simp]: "leaked (upd_session j f t) i \<longleftrightarrow> leaked t i" "leaked (upd_stream k g t) i \<longleftrightarrow> leaked t i"
  by (simp_all add: leaked_def transport_frame)

lemma leaked_drop: "leaked t i \<Longrightarrow> leaked (drop_session j t) i"
  unfolding drop_session_def by (auto simp: leaked_def stop_keepalive_def transport_frame split: option.split)

lemma leaked_close: "leaked t i \<Longrightarrow> leaked (close_transport t) i"
  unfolding close_transport_def Let_def by (auto simp: leaked_def stop_keepalive_def transport_frame split: option.split)

lemma leaked_fold_fail: "leaked t i \<Longrightarrow> leaked (fold fail_stream ks t) i"
  by (induction ks arbitrary: t) (simp_all add: fail_stream_def leaked_drop)

lemma leaked_step: "leaked t i \<Longrightarrow> leaked (on_event ev t) i"
proof (induction ev)
  case (Send throws)
  then show ?case
    by (auto simp: send_push_def session_for_def open_session_def start_keepalive_def Let_def leaked_def split: option.split prod.split)
qed (auto simp: note_response_def note_chunk_def stream_closed_def session_error_def keepalive_tick_def ping_answered_def Let_def
    fail_stream_def leaked_drop leaked_close leaked_fold_fail)

theorem replaced_timer_is_never_cleared:
  "0 \<in> set (tr_timers (transport_run later (transport_run [Send False, SessionDies 0, Send False] fresh_transport)))"
proof -
  have "leaked (transport_run [Send False, SessionDies 0, Send False] fresh_transport) 0"
    by (simp add: leaked_def fresh_transport_def send_push_def session_for_def open_session_def start_keepalive_def usable_def upd_session_def)
  then have "leaked (transport_run later (transport_run [Send False, SessionDies 0, Send False] fresh_transport)) 0"
    unfolding transport_run_def[of later] by (induction later rule: rev_induct) (simp_all add: leaked_step)
  then show ?thesis by (simp add: leaked_def)
qed

end
