(* ===== verification/Identity.thy ===== *)
theory Identity
  imports Accounts Settings
begin

section \<open>Sign-in sessions, provider tokens and the admin token\<close>

text \<open>
  The files under \<open>src/src/auth\<close> that are the server's own: the identity behind an \<open>identity_token\<close> (\<open>identity.ts\<close>), Apple's client
  secret (\<open>apple-client-secret.ts\<close>, \<open>better-auth.ts\<close>) and the revocation of the providers' tokens (\<open>revoke.ts\<close>); and the admin token
  of a self-hosted server (\<open>src/src/admin/credentials.ts\<close>). The tables \<open>session\<close> and \<open>account\<close> belong to better-auth and are arguments here.
\<close>

subsection \<open>The identity behind a token\<close>

text \<open>The \<open>expiresAt\<close> of a session, as the driver hands it over. \<open>Date.parse\<close> is a parameter, \<^term>\<open>None\<close> for \<open>NaN\<close>.\<close>

datatype expiry = NoExpiry | ExpiryNumber int | ExpiryText string

record session_row =
  sn_token :: string
  sn_user_id :: ident
  sn_expires_at :: expiry

fun expiry_millis :: "(string \<Rightarrow> int option) \<Rightarrow> expiry \<Rightarrow> int option" where
  "expiry_millis date_parse NoExpiry = None"
| "expiry_millis date_parse (ExpiryNumber n) = Some (if n < 1000000000000 then n * 1000 else n)"
| "expiry_millis date_parse (ExpiryText x) = date_parse x"

definition session_identity :: "(string \<Rightarrow> int option) \<Rightarrow> seconds \<Rightarrow> session_row list \<Rightarrow> string \<Rightarrow> ident option" where
  "session_identity date_parse now sessions token =
     (if token = [] then None
      else (case List.find (\<lambda>r. sn_token r = token) sessions of None \<Rightarrow> None
            | Some r \<Rightarrow>
                (case expiry_millis date_parse (sn_expires_at r) of None \<Rightarrow> None
                 | Some expires \<Rightarrow> if expires \<le> now * 1000 then None else Some (sn_user_id r))))"

subsection \<open>Apple's client secret\<close>

text \<open>\<open>mint\<close> is the signed JWT with its \<open>iat\<close>; \<open>exp\<close> lies a lifetime later. The state is the \<open>held\<close> of the closure.\<close>

definition client_secret_lifetime :: int where "client_secret_lifetime = 2592000"
definition client_secret_refresh :: int where "client_secret_refresh = 86400"
definition apple_max_lifetime :: int where "apple_max_lifetime = 15777000"

type_synonym held_secret = "(string \<times> seconds) option"

definition client_secret_get :: "(seconds \<Rightarrow> string) \<Rightarrow> seconds \<Rightarrow> held_secret \<Rightarrow> held_secret \<times> string" where
  "client_secret_get mint now held =
     (let fresh = (Some (mint now, now + client_secret_lifetime), mint now)
      in case held of None \<Rightarrow> fresh
         | Some (v, expires) \<Rightarrow> if now < expires - client_secret_refresh then (held, v) else fresh)"

text \<open>\<open>appleProvider\<close>: the client, the audience without repeats, and the getter of its secret.\<close>

record apple_provider =
  ap_client_id :: string
  ap_audience :: "string list"
  ap_bundle :: "string option"
  ap_secret :: "seconds \<Rightarrow> held_secret \<Rightarrow> held_secret \<times> string"

definition apple_provider_of :: "(string \<Rightarrow> string \<Rightarrow> string \<Rightarrow> string \<Rightarrow> seconds \<Rightarrow> string) \<Rightarrow> apple_config \<Rightarrow> apple_provider" where
  "apple_provider_of sign c =
     \<lparr>ap_client_id = al_client_id c,
      ap_audience = (case al_bundle c of None \<Rightarrow> [al_client_id c]
                     | Some b \<Rightarrow> if b = al_client_id c then [al_client_id c] else [al_client_id c, b]),
      ap_bundle = al_bundle c,
      ap_secret = (case al_credential c of AppleSecret x \<Rightarrow> (\<lambda>_ held. (held, x))
                   | AppleKey team kid pkey \<Rightarrow> client_secret_get (sign (al_client_id c) team kid pkey))\<rparr>"

definition auth_is_configured :: "auth_config option \<Rightarrow> bool" where
  "auth_is_configured auth \<longleftrightarrow> (case auth of None \<Rightarrow> False | Some a \<Rightarrow> au_apple a \<noteq> None \<or> au_google a \<noteq> None)"

subsection \<open>Revoking the tokens of the providers\<close>

record provider_row =
  pw_user_id :: ident
  pw_provider :: string
  pw_refresh :: "string option"
  pw_access :: "string option"

datatype revoke_request =
    AppleRevoke string string string string
  | GoogleRevoke string

definition token_to_revoke :: "provider_row \<Rightarrow> string option" where
  "token_to_revoke r =
     (case (case pw_refresh r of Some x \<Rightarrow> Some x | None \<Rightarrow> pw_access r) of Some x \<Rightarrow> if x = [] then None else Some x | None \<Rightarrow> None)"

definition token_hint :: "provider_row \<Rightarrow> string" where
  "token_hint r = (if pw_refresh r = None then ''access_token'' else ''refresh_token'')"

text \<open>One row: the request it causes, at the time the secret is asked for. What the provider answers changes nothing, so it
  does not appear.\<close>

definition revoke_row :: "apple_provider option \<Rightarrow> seconds \<Rightarrow> provider_row \<Rightarrow> held_secret \<Rightarrow> held_secret \<times> revoke_request option" where
  "revoke_row apple now r held =
     (case token_to_revoke r of None \<Rightarrow> (held, None)
      | Some token \<Rightarrow>
          if pw_provider r = ''google'' then (held, Some (GoogleRevoke token))
          else (case apple of Some p \<Rightarrow>
                  if pw_provider r = ''apple''
                  then (case ap_secret p now held of (held', secret) \<Rightarrow>
                          (held', Some (AppleRevoke (ap_client_id p) secret token (token_hint r))))
                  else (held, None)
                | None \<Rightarrow> (held, None)))"

fun revoke_rows :: "apple_provider option \<Rightarrow> seconds list \<Rightarrow> provider_row list \<Rightarrow> held_secret \<Rightarrow> held_secret \<times> revoke_request list" where
  "revoke_rows apple (now # clk) (r # rows) held =
     (case revoke_row apple now r held of (held', request) \<Rightarrow>
        (case revoke_rows apple clk rows held' of (held'', requests) \<Rightarrow> (held'', (case request of None \<Rightarrow> [] | Some x \<Rightarrow> [x]) @ requests)))"
| "revoke_rows apple _ _ held = (held, [])"

text \<open>\<open>providerTokenRevoker\<close> for one user. Without sign-in there is nothing to revoke.\<close>

definition revoke_user ::
  "(string \<Rightarrow> string \<Rightarrow> string \<Rightarrow> string \<Rightarrow> seconds \<Rightarrow> string) \<Rightarrow> auth_config option \<Rightarrow> (nat \<Rightarrow> seconds) \<Rightarrow> provider_row list \<Rightarrow> ident \<Rightarrow>
   held_secret \<Rightarrow> held_secret \<times> revoke_request list" where
  "revoke_user sign auth clk provider_rows user held =
     (case auth of None \<Rightarrow> (held, [])
      | Some a \<Rightarrow>
          (let rows = filter (\<lambda>r. pw_user_id r = user) provider_rows
           in revoke_rows (map_option (apple_provider_of sign) (au_apple a)) (map clk [0..<length rows]) rows held))"

subsection \<open>The admin token\<close>

definition admin_account :: ident where "admin_account = ''acc_selfhosted''"

definition ensure_account :: "seconds \<Rightarrow> db \<Rightarrow> db" where
  "ensure_account now s =
     s\<lparr>accounts := insert_or_ignore (\<lambda>a. a_id a = admin_account)
        \<lparr>a_id = admin_account, a_tier = Hosted, a_created_at = now, a_join_token_hash = None, a_merged_into = None\<rparr> (accounts s)\<rparr>"

text \<open>The second result is the token with \<open>firstBoot\<close>.\<close>

definition ensure_self_hosted_identity :: "seconds \<Rightarrow> string \<Rightarrow> db \<Rightarrow> db \<times> string \<times> bool" where
  "ensure_self_hosted_identity now fresh s =
     (case show_admin_token s of
        Some token \<Rightarrow> (ensure_account now s, token, False)
      | None \<Rightarrow> ((ensure_account now s)\<lparr>server_settings := server_settings s @ [(''admin_token'', fresh)]\<rparr>, fresh, True))"

definition rotate_admin_token :: "string \<Rightarrow> db \<Rightarrow> db" where
  "rotate_admin_token fresh s =
     s\<lparr>server_settings := upsert (\<lambda>r. fst r = ''admin_token'') (\<lambda>r. (fst r, fresh)) (''admin_token'', fresh) (server_settings s)\<rparr>"

section \<open>Who is let in\<close>

lemma session_identity_Some:
  "session_identity date_parse now sessions token = Some user \<longleftrightarrow>
     token \<noteq> [] \<and> (\<exists>r expires. List.find (\<lambda>r. sn_token r = token) sessions = Some r \<and> sn_user_id r = user \<and>
       expiry_millis date_parse (sn_expires_at r) = Some expires \<and> now * 1000 < expires)"
  by (auto simp: session_identity_def split: option.split)

lemma account_route_keeps:
  "(\<And>ctx b. authenticate_management sha s header m = Some ctx \<Longrightarrow> body = Some b \<Longrightarrow> fst (act (ac_account ctx) b s) = s) \<Longrightarrow>
     fst (account_route sha m header body act s) = s"
  by (fastforce simp: account_route_def split: option.split prod.split)

text \<open>C17: Only a live session acts. A token that is empty, unknown, past its end or with an end that cannot be read changes nothing through any of
  the account routes, whatever the request asks for: link, switch and merge leave the database as it was, and so does the deletion of an account that
  somebody has claimed, which asks no provider to revoke anything either.\<close>

theorem only_a_live_session_acts:
  assumes dead: "\<forall>r expires. token \<noteq> [] \<and> List.find (\<lambda>r. sn_token r = token) sessions = Some r \<and>
      expiry_millis date_parse (sn_expires_at r) = Some expires \<longrightarrow> expires \<le> now * 1000"
    and resolve: "resolve = session_identity date_parse now sessions"
  shows "fst (link_route sha resolve now m header (Some (token, intent)) s) = s \<and>
    fst (switch_route sha resolve m header (Some (token, into)) s) = s \<and>
    fst (merge_route sha resolve now m header (Some (token, into)) s) = s \<and>
    (\<forall>ctx. authenticate_management sha s header m = Some ctx \<and> identities_of s (live_account s (ac_account ctx)) \<noteq> [] \<longrightarrow>
       fst (delete_route sha resolve meanwhile m header (Some (Some token)) s) = s \<and>
       (\<forall>revoked outcome. snd (delete_route sha resolve meanwhile m header (Some (Some token)) s) = Answered (revoked, outcome) \<longrightarrow> revoked = []))"
proof -
  have none: "resolve token = None"
    using dead unfolding resolve by (cases "session_identity date_parse now sessions token") (auto simp: session_identity_Some not_le[symmetric])
  then have acts: "fst (link_identity resolve now acc token i s) = s" "fst (switch_account resolve acc token into s) = s"
      "fst (merge_accounts resolve now acc token into s) = s" for acc i
    by (simp_all add: link_identity_def switch_account_def merge_accounts_def)
  have delete: "delete_account_request resolve meanwhile acc (Some token) s = (s, [], DeleteUnauthorized)"
    if "identities_of s (live_account s acc) \<noteq> []" for acc
    using that none by (simp add: delete_account_request_def delete_refusal_def Let_def)
  have "fst (link_route sha resolve now m header (Some (token, intent)) s) = s"
    "fst (switch_route sha resolve m header (Some (token, into)) s) = s"
    "fst (merge_route sha resolve now m header (Some (token, into)) s) = s"
    unfolding link_route_def switch_route_def merge_route_def
    by (rule account_route_keeps, auto simp: acts split: if_splits)+
  moreover have "fst (delete_route sha resolve meanwhile m header (Some (Some token)) s) = s \<and>
      (\<forall>revoked outcome. snd (delete_route sha resolve meanwhile m header (Some (Some token)) s) = Answered (revoked, outcome) \<longrightarrow> revoked = [])"
    if "authenticate_management sha s header m = Some ctx \<and> identities_of s (live_account s (ac_account ctx)) \<noteq> []" for ctx
    using that delete[of "ac_account ctx"] by (simp add: delete_route_def account_route_def)
  ultimately show ?thesis by blast
qed

definition expired_session :: session_row where
  "expired_session = \<lparr>sn_token = ''t'', sn_user_id = ''u'', sn_expires_at = ExpiryNumber 1700000000\<rparr>"

definition claimed_device :: db where
  "claimed_device = demo_one_device\<lparr>account_identities := [\<lparr>id_user_id = ''u'', id_account_id = ''acc'', id_linked_at = 0\<rparr>]\<rparr>"

theorem only_a_live_session_acts_witness:
  "fst (link_route (\<lambda>x. x) (session_identity (\<lambda>_. None) 1700000000 [expired_session]) 1700000000 HostedMode (Some ''Bearer dv_1'') (Some (''t'', None)) claimed_device) = claimed_device \<and>
   fst (delete_route (\<lambda>x. x) (session_identity (\<lambda>_. None) 1700000000 [expired_session]) (\<lambda>s. s) HostedMode (Some ''Bearer dv_1'') (Some (Some ''t'')) claimed_device) = claimed_device"
proof -
  have dead: "\<forall>r expires. ''t'' \<noteq> [] \<and> List.find (\<lambda>r. sn_token r = ''t'') [expired_session] = Some r \<and>
      expiry_millis (\<lambda>_. None) (sn_expires_at r) = Some expires \<longrightarrow> expires \<le> 1700000000 * 1000"
    by (auto simp: expired_session_def)
  have "authenticate_management (\<lambda>x. x) claimed_device (Some ''Bearer dv_1'') HostedMode = Some \<lparr>ac_account = ''acc'', ac_device = ''dev''\<rparr>"
    "identities_of claimed_device (live_account claimed_device ''acc'') \<noteq> []"
    by code_simp+
  then have claimed: "authenticate_management (\<lambda>x. x) claimed_device (Some ''Bearer dv_1'') HostedMode = Some \<lparr>ac_account = ''acc'', ac_device = ''dev''\<rparr> \<and>
      identities_of claimed_device (live_account claimed_device (ac_account \<lparr>ac_account = ''acc'', ac_device = ''dev''\<rparr>)) \<noteq> []" by simp
  note live = only_a_live_session_acts[where token = "''t''" and sessions = "[expired_session]" and date_parse = "\<lambda>_. None" and now = 1700000000
      and sha = "\<lambda>x. x" and m = HostedMode and header = "Some ''Bearer dv_1''" and intent = None and s = claimed_device and into = "''x''"
      and meanwhile = "\<lambda>s. s", OF dead refl]
  show ?thesis
    by (rule conjI[OF conjunct1[OF live] live[THEN conjunct2, THEN conjunct2, THEN conjunct2, THEN spec, THEN mp, OF claimed, THEN conjunct1]])
qed

section \<open>Apple's client secret over time\<close>

definition secret_run :: "(seconds \<Rightarrow> string) \<Rightarrow> seconds list \<Rightarrow> held_secret" where
  "secret_run mint ts = foldl (\<lambda>held now. fst (client_secret_get mint now held)) None ts"

definition held_ok :: "(seconds \<Rightarrow> string) \<Rightarrow> seconds list \<Rightarrow> held_secret \<Rightarrow> bool" where
  "held_ok mint ts held \<longleftrightarrow>
     (case held of None \<Rightarrow> True | Some (v, expires) \<Rightarrow> \<exists>i \<in> set ts. v = mint i \<and> expires = i + client_secret_lifetime)"

lemma held_ok_step: "held_ok mint ts held \<Longrightarrow> held_ok mint (ts @ [now]) (fst (client_secret_get mint now held))"
  by (auto simp: held_ok_def client_secret_get_def Let_def split: option.splits)

lemma secret_run_ok: "held_ok mint ts (secret_run mint ts)"
proof (induction ts rule: rev_induct)
  case (snoc now ts)
  from held_ok_step[OF this, of now] show ?case by (simp add: secret_run_def)
qed (simp add: secret_run_def held_ok_def)

text \<open>However often and whenever the secret is asked for, as long as time does not run backwards, the one handed out is good for more than a day and
  was made for no longer than Apple accepts.\<close>

theorem client_secret_is_live:
  assumes "sorted (ts @ [now])"
  shows "\<exists>i \<in> set (ts @ [now]). snd (client_secret_get mint now (secret_run mint ts)) = mint i \<and>
    i \<le> now \<and> now + client_secret_refresh < i + client_secret_lifetime \<and> client_secret_lifetime < apple_max_lifetime"
proof -
  have "x \<in> set ts \<Longrightarrow> x \<le> now" for x using assms by (simp add: sorted_append)
  then show ?thesis using secret_run_ok[of mint ts]
    by (auto simp: held_ok_def client_secret_get_def Let_def client_secret_refresh_def client_secret_lifetime_def apple_max_lifetime_def
        split: option.splits)
qed

section \<open>The admin token in use\<close>

lemma show_admin_token_app: "show_admin_token s = None \<Longrightarrow> map_of (server_settings s @ [(''admin_token'', x)]) ''admin_token'' = Some x"
  by (simp add: show_admin_token_def map_add_def)

lemma show_after_rotate [simp]: "show_admin_token (rotate_admin_token fresh s) = Some fresh"
proof -
  have present: "map_of (upd_where (\<lambda>r. fst r = k) (\<lambda>r. (fst r, v)) rows) k = Some v" if "list_ex (\<lambda>r. fst r = k) rows" for k v and rows :: "(string \<times> string) list"
    using that by (induction rows) auto
  have absent: "map_of rows k = None" if "\<not> list_ex (\<lambda>r. fst r = k) rows" for k and rows :: "(string \<times> string) list"
    using that by (induction rows) auto
  show ?thesis
    using present absent by (auto simp: rotate_admin_token_def show_admin_token_def upsert_def map_add_def)
qed

lemma show_after_ensure:
  "ensure_self_hosted_identity now fresh s = (s', token, first) \<Longrightarrow> show_admin_token s' = Some token"
  using show_admin_token_app[of s fresh]
  by (auto simp: ensure_self_hosted_identity_def show_admin_token_def ensure_account_def simp del: map_of_append split: option.splits)

lemma login_after_rotate:
  assumes "is_credential ''ad_'' new"
  shows "authenticate_management sha (rotate_admin_token new s) (Some (''Bearer '' @ given)) SelfHostedMode \<noteq> None \<longleftrightarrow>
    is_credential ''ad_'' given \<and> sha given = sha new"
proof -
  have word: "\<not> is_word_char (CHR 0x0A)" "\<not> is_word_char (CHR 0x0D)"
    by (auto simp: is_word_char_def is_letter_def is_digit_def is_upper_def is_lower_def less_eq_char_def)
  have "is_credential ''ad_'' x \<Longrightarrow> x \<noteq> [] \<and> no_line_break x" for x
    using word by (auto simp: is_credential_def starts_with_iff no_line_break_def list_all_iff)
  then show ?thesis
    using assms by (auto simp: authenticate_management_def is_admin_header_def bearer_secret_matches_def Let_def starts_with_def)
qed

text \<open>The admin token of a self-hosted server: a start makes one only when there is none and keeps it ever after, with the account it manages; and after a
  rotation the credentials that are let in are exactly those with the digest of the new token.\<close>

theorem admin_token_contract:
  assumes start: "ensure_self_hosted_identity now fresh s = (s1, token, first)"
  shows "(first \<longleftrightarrow> show_admin_token s = None) \<and> account_of s1 admin_account \<noteq> None \<and>
    ensure_self_hosted_identity now' fresh' s1 = (s1, token, False) \<and>
    (is_credential ''ad_'' new \<longrightarrow>
       (authenticate_management sha (rotate_admin_token new s1) (Some (''Bearer '' @ given)) SelfHostedMode \<noteq> None \<longleftrightarrow>
          is_credential ''ad_'' given \<and> sha given = sha new))"
proof -
  have account: "account_of (ensure_account now s) admin_account \<noteq> None"
    by (auto simp: account_of_def ensure_account_def insert_or_ignore_def find_append list_ex_iff find_None_iff split: option.split)
  have first: "first \<longleftrightarrow> show_admin_token s = None" "account_of s1 admin_account \<noteq> None"
    using start account by (auto simp: ensure_self_hosted_identity_def account_of_def split: option.splits)
  have "list_ex (\<lambda>a. a_id a = admin_account) (accounts s1)"
    using first(2) by (auto simp: account_of_def find_None_iff list_ex_iff)
  then have "ensure_account now' s1 = s1" by (simp add: ensure_account_def insert_or_ignore_def)
  then have again: "ensure_self_hosted_identity now' fresh' s1 = (s1, token, False)"
    using show_after_ensure[OF start] by (simp add: ensure_self_hosted_identity_def)
  then show ?thesis using first login_after_rotate by blast
qed

end
