(* ===== verification/Webhook.thy ===== *)
theory Webhook
  imports BillingReads Settings
begin

section \<open>The billing webhook and the three reading paths\<close>

text \<open>
  \<open>POST /webhooks/revenuecat\<close> of \<open>src/src/tier/router.ts\<close>, with the schemas that read its body (\<open>src/src/tier/revenuecat.ts\<close>,
  \<open>src/src/tier/revenuecat-trigger.ts\<close>), and \<open>src/src/tier/billing-startup.ts\<close>, which decides from the configuration which of three paths an event
  and the daily pass take. The three paths are those of the setting: never read the store, read it beside the old path, or let the read decide.
\<close>

subsection \<open>What a schema accepts\<close>

text \<open>An optional field: absent, or present and of the right kind. \<^term>\<open>None\<close> is the refusal of the schema; a nullable field may be \<open>null\<close> as well.\<close>

definition optional :: "(json \<Rightarrow> 'a option) \<Rightarrow> json option \<Rightarrow> 'a option option" where
  "optional kind field = (case field of None \<Rightarrow> Some None | Some v \<Rightarrow> map_option Some (kind v))"

definition nullable :: "(json \<Rightarrow> 'a option) \<Rightarrow> json option \<Rightarrow> 'a option option" where
  "nullable kind field = (if field = Some JNull then Some None else optional kind field)"

fun nonempty_text :: "json \<Rightarrow> string option" where
  "nonempty_text (JText x) = (if x = [] then None else Some x)"
| "nonempty_text _ = None"

text \<open>A finite number: its floor and its ceiling.\<close>

fun finite_number :: "json \<Rightarrow> (int \<times> int) option" where
  "finite_number (JInt n) = Some (n, n)"
| "finite_number (JReal f x) = (if x = ''Infinity'' \<or> x = ''-Infinity'' then None else Some (f, f + 1))"
| "finite_number _ = None"

definition list_of :: "(json \<Rightarrow> 'a option) \<Rightarrow> json \<Rightarrow> 'a list option" where
  "list_of kind v = (case v of JList vs \<Rightarrow> those (map kind vs) | _ \<Rightarrow> None)"

definition list_or_empty :: "'a list option \<Rightarrow> 'a list" where
  "list_or_empty x = (case x of None \<Rightarrow> [] | Some vs \<Rightarrow> vs)"

text \<open>\<open>eventSchema\<close>. Only the floor of the time of the event is used, and of its end whether it has come, for which
  the ceiling is as good as the number.\<close>

definition parse_revenuecat_event :: "json \<Rightarrow> rc_event option" where
  "parse_revenuecat_event v =
     Option.bind (json_field ''event'' v) (\<lambda>e.
     Option.bind (optional nonempty_text (json_field ''id'' e)) (\<lambda>eid.
     Option.bind (optional finite_number (json_field ''event_timestamp_ms'' e)) (\<lambda>at.
     Option.bind (Option.bind (json_field ''app_user_id'' e) nonempty_text) (\<lambda>user.
     Option.bind (Option.bind (json_field ''type'' e) nonempty_text) (\<lambda>typ.
     Option.bind (nullable nonempty_text (json_field ''entitlement_id'' e)) (\<lambda>one.
     Option.bind (nullable (list_of nonempty_text) (json_field ''entitlement_ids'' e)) (\<lambda>many.
     Option.bind (nullable finite_number (json_field ''expiration_at_ms'' e)) (\<lambda>ends.
       Some (rc_event.make eid (map_option fst at) user typ one (list_or_empty many) (map_option snd ends))))))))))"

text \<open>The customers an event names, whichever path it takes: what is no text is passed over.\<close>

definition texts_in :: "json option \<Rightarrow> string list" where
  "texts_in field = (case field of Some (JList vs) \<Rightarrow> List.map_filter text_of vs | _ \<Rightarrow> [])"

definition customers_of :: "json \<Rightarrow> ident list" where
  "customers_of e = named_customers (text_field ''app_user_id'' e) (texts_in (json_field ''transferred_from'' e)) (texts_in (json_field ''transferred_to'' e))"

definition parse_read_trigger :: "json \<Rightarrow> trigger_event option" where
  "parse_read_trigger v =
     Option.bind (json_field ''event'' v) (\<lambda>e.
     Option.bind (optional nonempty_text (json_field ''id'' e)) (\<lambda>eid.
     Option.bind (optional finite_number (json_field ''event_timestamp_ms'' e)) (\<lambda>at.
     Option.bind (nullable nonempty_text (json_field ''app_user_id'' e)) (\<lambda>user.
     Option.bind (Option.bind (json_field ''type'' e) nonempty_text) (\<lambda>typ.
     Option.bind (nullable (list_of text_of) (json_field ''transferred_from'' e)) (\<lambda>from.
     Option.bind (nullable (list_of text_of) (json_field ''transferred_to'' e)) (\<lambda>to.
       if customers_of e = [] then None
       else Some \<lparr>te_id = eid, te_type = typ, te_event_at_ms = map_option fst at, te_app_user_ids = customers_of e\<rparr>)))))))"

subsection \<open>The route\<close>

datatype webhook_reply = HookMissing | HookUnauthorized | HookInvalid | HookTaken

text \<open>A body that is too large or no JSON is \<^term>\<open>None\<close>. The last result is for whom a shadow read is started. The route does not exist without
  a secret.\<close>

definition webhook ::
  "(string \<Rightarrow> string) \<Rightarrow> string \<Rightarrow> reads_setting \<Rightarrow> tier_map \<Rightarrow> seconds \<Rightarrow> string option \<Rightarrow> json option \<Rightarrow> reads_world \<Rightarrow>
   reads_world \<times> webhook_reply \<times> ident list" where
  "webhook sha secret mode tiers now header body w =
     (if secret = [] then (w, HookMissing, [])
      else if \<not> bearer_secret_matches sha header secret then (w, HookUnauthorized, [])
      else if mode = ReadsDecide
      then (case Option.bind body parse_read_trigger of None \<Rightarrow> (w, HookInvalid, [])
            | Some ev \<Rightarrow> (queue_reads_for_event now ev w, HookTaken, []))
      else (case Option.bind body parse_revenuecat_event of None \<Rightarrow> (w, HookInvalid, [])
            | Some ev \<Rightarrow>
                (let s' = apply_revenuecat_event tiers now ev (w_db w);
                     named = (case Option.bind body (json_field ''event'') of None \<Rightarrow> [] | Some e \<Rightarrow> customers_of e)
                 in (w\<lparr>w_db := s'\<rparr>, HookTaken,
                     if mode = ReadsBeside then filter (\<lambda>u. resolve_account s' u \<noteq> None) named else []))))"

subsection \<open>Which path runs\<close>

definition reads_mode :: "config \<Rightarrow> reads_setting" where
  "reads_mode cf = (if cf_store_api cf = None then ReadsNever else cf_reads cf)"

text \<open>The warning at startup, with what was asked for.\<close>

definition reads_warning :: "config \<Rightarrow> reads_setting option" where
  "reads_warning cf =
     (if cf_mode cf = SelfHostedMode then None else if cf_store_api cf \<noteq> None then None else Some (cf_reads cf))"

text \<open>The store as a pass meets it: what it answers and when, and what other requests do while a read is awaited. When a read of the customer is
  running already, the pass waits for the one after it, and \<open>meanwhile\<close> holds the end of the first.\<close>

record store_env =
  se_fetch :: "ident \<Rightarrow> nat \<Rightarrow> string \<Rightarrow> page_answer"
  se_path :: "ident \<Rightarrow> string"
  se_clock :: "ident \<Rightarrow> seconds"
  se_tiers :: tier_map
  se_packs :: pack_map
  se_meanwhile :: "ident \<Rightarrow> reads_world \<Rightarrow> reads_world"

datatype shadow_line = ShadowFailed ident tier | ShadowSaw ident tier tier bool

definition shadow_read :: "store_env \<Rightarrow> db \<Rightarrow> ident \<Rightarrow> shadow_line" where
  "shadow_read env s u =
     (case read_store (se_fetch env u) (se_path env u) of
        StoreFailed _ _ \<Rightarrow> ShadowFailed u (case billing_row_of s u of None \<Rightarrow> Free | Some b \<Rightarrow> b_entitled_tier b)
      | StoreOk _ items \<Rightarrow> (case shadow_tiers (se_tiers env) (se_packs env) items u s of (r, stored, agrees) \<Rightarrow> ShadowSaw u r stored agrees))"

definition awaited_read :: "store_env \<Rightarrow> read_trigger \<Rightarrow> ident \<Rightarrow> reads_world \<Rightarrow> reads_world" where
  "awaited_read env trig u w =
     finish_read (se_tiers env) (se_packs env) (se_clock env u) u (read_store (se_fetch env u) (se_path env u))
       (se_meanwhile env u (request_read (se_clock env u) u trig w))"

text \<open>The customers a pass is over: all that are linked, or after a merge those of one account.\<close>

definition linked_ids :: "ident option \<Rightarrow> db \<Rightarrow> ident list" where
  "linked_ids who s = (case who of None \<Rightarrow> reconcile_ids s | Some acc \<Rightarrow> reconcile_account_ids acc s)"

definition reconcile_pass :: "store_env \<Rightarrow> ident option \<Rightarrow> db \<Rightarrow> db" where
  "reconcile_pass env who =
     (case who of None \<Rightarrow> reconcile_all (se_tiers env) (se_fetch env) (se_path env) (se_clock env)
      | Some acc \<Rightarrow> reconcile_account (se_tiers env) (se_fetch env) (se_path env) (se_clock env) acc)"

text \<open>\<open>createBilling\<close>: its \<open>sweep\<close> and its \<open>afterMerge\<close>. Without a key the old path has nobody to ask and does nothing.\<close>

definition billing_pass :: "config \<Rightarrow> store_env \<Rightarrow> ident option \<Rightarrow> reads_world \<Rightarrow> reads_world \<times> shadow_line list" where
  "billing_pass cf env who w =
     (case reads_mode cf of
        ReadsNever \<Rightarrow> (if cf_store_api cf = None then w else w\<lparr>w_db := reconcile_pass env who (w_db w)\<rparr>, [])
      | ReadsBeside \<Rightarrow>
          (let s = reconcile_pass env who (w_db w) in (w\<lparr>w_db := s\<rparr>, map (shadow_read env s) (linked_ids who s)))
      | ReadsDecide \<Rightarrow> (fold (awaited_read env BySweep) (linked_ids who (w_db w)) w, []))"

section \<open>What an event can do\<close>

text \<open>The tier a billing id pays for, and what no trigger may touch.\<close>

definition stored_tier :: "db \<Rightarrow> ident \<Rightarrow> tier" where
  "stored_tier s u = (case billing_row_of s u of None \<Rightarrow> Free | Some b \<Rightarrow> b_entitled_tier b)"

definition decides_nothing :: "db \<Rightarrow> db \<Rightarrow> bool" where
  "decides_nothing s s' \<longleftrightarrow> accounts s' = accounts s \<and> tier_changes s' = tier_changes s \<and> billing_packs s' = billing_packs s \<and>
     account_pack_grants s' = account_pack_grants s \<and> stored_tier s' = stored_tier s"

lemma decides_nothing_trans: "decides_nothing s s1 \<Longrightarrow> decides_nothing s1 s2 \<Longrightarrow> decides_nothing s s2"
  by (simp add: decides_nothing_def)

lemma decides_nothing_refl: "decides_nothing s s"
  by (simp add: decides_nothing_def)

definition queued :: "seconds \<Rightarrow> ident \<Rightarrow> db \<Rightarrow> bool" where
  "queued now u s \<longleftrightarrow> u \<in> br_app_user_id ` set (due_reads now s)"

lemma queued_iff: "queued now u s \<longleftrightarrow> list_ex (\<lambda>r. br_app_user_id r = u \<and> (br_due_at r \<le> now \<or> br_dirty r)) (billing_reads s)"
  by (auto simp: queued_def due_reads_def list_ex_iff)

lemma upsert_ex_keeps: "(\<And>r. Q r \<Longrightarrow> Q (f r)) \<Longrightarrow> list_ex Q rows \<Longrightarrow> list_ex Q (upsert P f new rows)"
proof -
  assume f: "\<And>r. Q r \<Longrightarrow> Q (f r)" and rows: "list_ex Q rows"
  have "list_ex Q (upd_where P f rows)" using rows by (induction rows) (auto intro: f)
  with rows show ?thesis by (simp add: upsert_def)
qed

lemma upsert_ex_made: "(\<And>r. P r \<Longrightarrow> Q (f r)) \<Longrightarrow> Q new \<Longrightarrow> list_ex Q (upsert P f new rows)"
proof -
  assume f: "\<And>r. P r \<Longrightarrow> Q (f r)" and "Q new"
  moreover have "list_ex P rows \<Longrightarrow> list_ex Q (upd_where P f rows)" by (induction rows) (auto intro: f)
  ultimately show ?thesis by (simp add: upsert_def)
qed

text \<open>One turn of the loop of \<open>queueReadsForEvent\<close>.\<close>

definition trigger_one :: "seconds \<Rightarrow> seconds \<Rightarrow> ident \<times> ident \<Rightarrow> reads_world \<Rightarrow> reads_world" where
  "trigger_one now at p w =
     (case p of (u, acc) \<Rightarrow> enqueue now u (let w' = link_row now u acc w in w'\<lparr>w_db := raise_event_mark u at (w_db w')\<rparr>))"

lemma stored_tier_rows:
  "stored_tier s = (\<lambda>u. case List.find (\<lambda>b. b_app_user_id b = u) (account_billing_ids s) of None \<Rightarrow> Free | Some b \<Rightarrow> b_entitled_tier b)"
  by (rule ext) (simp add: stored_tier_def billing_row_of_def)

lemma stored_tier_upd:
  assumes f: "\<And>r. b_app_user_id (f r) = b_app_user_id r \<and> b_entitled_tier (f r) = b_entitled_tier r"
  shows "stored_tier (s\<lparr>account_billing_ids := upd_where P f (account_billing_ids s)\<rparr>) = stored_tier s"
proof -
  have "(case List.find (\<lambda>b. b_app_user_id b = u) (upd_where P f rows) of None \<Rightarrow> Free | Some b \<Rightarrow> b_entitled_tier b) =
      (case List.find (\<lambda>b. b_app_user_id b = u) rows of None \<Rightarrow> Free | Some b \<Rightarrow> b_entitled_tier b)" for u rows
    using f by (induction rows) auto
  then show ?thesis by (simp add: stored_tier_rows)
qed

lemma stored_tier_new:
  "billing_row_of s (b_app_user_id b) = None \<Longrightarrow> b_entitled_tier b = Free \<Longrightarrow>
     stored_tier (s\<lparr>account_billing_ids := account_billing_ids s @ [b]\<rparr>) = stored_tier s"
  by (rule ext) (auto simp: stored_tier_def billing_row_of_def find_append split: option.split)

lemma link_decides_nothing: "decides_nothing (w_db w) (w_db (link_row now u acc w))"
  by (auto simp: link_row_def decides_nothing_def stored_tier_upd stored_tier_new split: option.split)

lemma mark_decides_nothing: "decides_nothing s (raise_event_mark u at s)"
  by (simp add: raise_event_mark_def decides_nothing_def stored_tier_upd)

lemma enqueue_decides_nothing: "decides_nothing (w_db w) (w_db (enqueue now u w))"
  by (simp add: enqueue_def mark_dirty_def decides_nothing_def stored_tier_rows)

lemma trigger_decides_nothing: "decides_nothing (w_db w) (w_db (trigger_one now at p w))"
proof (cases p)
  case (Pair u acc)
  let ?w = "link_row now u acc w"
  have "decides_nothing (w_db w) (w_db (?w\<lparr>w_db := raise_event_mark u at (w_db ?w)\<rparr>))"
    using decides_nothing_trans[OF link_decides_nothing mark_decides_nothing] by simp
  then show ?thesis using decides_nothing_trans[OF _ enqueue_decides_nothing] by (simp add: trigger_one_def Pair Let_def)
qed

lemma link_reads [simp]: "billing_reads (w_db (link_row now u acc w)) = billing_reads (w_db w)"
  by (simp add: link_row_def split: option.split)

lemma mark_reads [simp]: "billing_reads (raise_event_mark u at s) = billing_reads s"
  by (simp add: raise_event_mark_def)

lemma enqueue_queued: "queued now u (w_db (enqueue now u w))"
  by (simp add: queued_iff enqueue_def mark_dirty_def upsert_ex_made)

lemma enqueue_keeps_queued: "queued now v (w_db w) \<Longrightarrow> queued now v (w_db (enqueue now u w))"
  by (auto simp: queued_iff enqueue_def mark_dirty_def intro: upsert_ex_keeps)

lemma trigger_queued:
  assumes "queued now v (w_db w) \<or> v = fst p"
  shows "queued now v (w_db (trigger_one now at p w))"
proof (cases p)
  case (Pair u acc)
  let ?w = "link_row now u acc w"
  have "queued now v (w_db w) \<Longrightarrow> queued now v (w_db (?w\<lparr>w_db := raise_event_mark u at (w_db ?w)\<rparr>))" by (simp add: queued_iff)
  then show ?thesis using assms enqueue_queued[of now u] enqueue_keeps_queued[of now v] by (auto simp: trigger_one_def Pair Let_def)
qed

lemma triggers: "decides_nothing (w_db w) (w_db (fold (trigger_one now at) ps w))"
proof (induction ps arbitrary: w)
  case (Cons p ps)
  show ?case using decides_nothing_trans[OF trigger_decides_nothing Cons.IH] by simp
qed (simp add: decides_nothing_refl)

lemma triggers_queued:
  "queued now v (w_db w) \<or> v \<in> fst ` set ps \<Longrightarrow> queued now v (w_db (fold (trigger_one now at) ps w))"
proof (induction ps arbitrary: w)
  case (Cons p ps)
  have "queued now v (w_db (trigger_one now at p w)) \<or> v \<in> fst ` set ps" using Cons.prems trigger_queued[of now v w p at] by auto
  from Cons.IH[OF this] show ?case by simp
qed simp

lemma triggers_events: "billing_events (w_db (fold (trigger_one now at) ps w)) = billing_events (w_db w)"
proof (induction ps arbitrary: w)
  case (Cons p ps)
  have "billing_events (w_db (trigger_one now at p w)) = billing_events (w_db w)"
    by (simp add: trigger_one_def Let_def enqueue_def mark_dirty_def raise_event_mark_def link_row_def split: prod.split option.split)
  with Cons show ?case by simp
qed simp

lemma queue_reads_eq:
  "queue_reads_for_event now ev w =
     (let at = event_at now (te_event_at_ms ev); first = (case te_app_user_ids ev of [] \<Rightarrow> [] | u # _ \<Rightarrow> u);
          eid = event_id (te_id ev) first (te_type ev) at; resolved = resolved_customers (w_db w) (te_app_user_ids ev)
      in if event_seen (w_db w) eid then w
         else fold (trigger_one now at) resolved
                (w\<lparr>w_db := (w_db w)\<lparr>billing_events := billing_events (w_db w) @
                     [\<lparr>be_event_id = eid, be_app_user_id = first, be_account_id = map_of resolved first, be_type = te_type ev,
                       be_event_at = at, be_applied = (resolved \<noteq> []), be_received_at = now\<rparr>]\<rparr>\<rparr>))"
proof -
  have "trigger_one now at = (\<lambda>(u, acc) w. enqueue now u (let w' = link_row now u acc w in w'\<lparr>w_db := raise_event_mark u at (w_db w')\<rparr>))" for at
    by (intro ext) (simp add: trigger_one_def split: prod.split)
  then show ?thesis by (simp add: queue_reads_for_event_def Let_def)
qed

lemma logged_decides_nothing:
  "decides_nothing (w_db w) (w_db (fold (trigger_one now at) ps (w\<lparr>w_db := (w_db w)\<lparr>billing_events := es\<rparr>\<rparr>)))"
proof (rule decides_nothing_trans)
  show "decides_nothing (w_db w) (w_db (w\<lparr>w_db := (w_db w)\<lparr>billing_events := es\<rparr>\<rparr>))" by (simp add: decides_nothing_def stored_tier_rows)
qed (rule triggers)

lemma queue_decides_nothing: "decides_nothing (w_db w) (w_db (queue_reads_for_event now ev w))"
  unfolding queue_reads_eq Let_def by (simp add: decides_nothing_refl logged_decides_nothing)

lemma queue_seen:
  "event_seen (w_db (queue_reads_for_event now ev w))
     (event_id (te_id ev) (case te_app_user_ids ev of [] \<Rightarrow> [] | u # _ \<Rightarrow> u) (te_type ev) (event_at now (te_event_at_ms ev)))"
  by (simp add: queue_reads_eq Let_def event_seen_def triggers_events)

lemma queue_again:
  "te_id ev = Some x \<Longrightarrow> queue_reads_for_event now' ev (queue_reads_for_event now ev w) = queue_reads_for_event now ev w"
  using queue_seen[of now ev w] by (simp add: queue_reads_eq[of now' ev "queue_reads_for_event now ev w"] Let_def event_id_def)

lemma queue_reads_named:
  assumes "\<not> event_seen (w_db w) (event_id (te_id ev) (case te_app_user_ids ev of [] \<Rightarrow> [] | u # _ \<Rightarrow> u) (te_type ev) (event_at now (te_event_at_ms ev)))"
    and "u \<in> set (te_app_user_ids ev)" "resolve_account (w_db w) u \<noteq> None"
  shows "queued now u (w_db (queue_reads_for_event now ev w))"
proof -
  obtain acc where "resolve_account (w_db w) u = Some acc" using assms(3) by blast
  then have "u \<in> fst ` set (resolved_customers (w_db w) (te_app_user_ids ev))"
    using assms(2) by (force simp: resolved_customers_def)
  then show ?thesis using assms(1) by (simp add: queue_reads_eq Let_def triggers_queued)
qed

lemma parsed_ids:
  "parse_revenuecat_event v = Some ev \<Longrightarrow> json_field ''event'' v = Some e \<Longrightarrow> text_field ''id'' e = Some x \<Longrightarrow> rc_event.rv_id ev = Some x"
  "parse_read_trigger v = Some te \<Longrightarrow> json_field ''event'' v = Some e \<Longrightarrow> text_field ''id'' e = Some x \<Longrightarrow> te_id te = Some x"
  by (auto simp: parse_revenuecat_event_def parse_read_trigger_def text_field_Some optional_def rc_event.make_def bind_eq_Some_conv split: if_splits)

text \<open>C13: What the billing webhook lets an event do. Without the shared secret, or with a body the schema refuses, nothing at all. With reading switched on an
  event decides nothing: no account, no stored tier, no pack and no tier log changes; but every customer it names that belongs to an account is queued
  for a read. Beside the old path it changes exactly what the old path would. And an event with an id of its own that is
  delivered again, any time later, changes nothing more on either path.\<close>

theorem webhook_contract:
  assumes hook: "webhook sha secret mode tiers now header body w = (w', reply, shadow)"
  shows "(reply = HookTaken \<longrightarrow> secret \<noteq> [] \<and> bearer_secret_matches sha header secret) \<and> (reply \<noteq> HookTaken \<longrightarrow> w' = w \<and> shadow = []) \<and>
    (mode = ReadsDecide \<longrightarrow> decides_nothing (w_db w) (w_db w') \<and>
       (\<forall>v ev u. body = Some v \<and> parse_read_trigger v = Some ev \<and> reply = HookTaken \<and> u \<in> set (te_app_user_ids ev) \<and>
          resolve_account (w_db w) u \<noteq> None \<and>
          \<not> event_seen (w_db w) (event_id (te_id ev) (hd (te_app_user_ids ev)) (te_type ev) (event_at now (te_event_at_ms ev))) \<longrightarrow>
          u \<in> br_app_user_id ` set (due_reads now (w_db w')))) \<and>
    (mode = ReadsBeside \<longrightarrow> webhook sha secret ReadsNever tiers now header body w = (w', reply, [])) \<and>
    (\<forall>v e x now' tiers'. body = Some v \<and> json_field ''event'' v = Some e \<and> text_field ''id'' e = Some x \<longrightarrow>
       fst (webhook sha secret mode tiers' now' header body w') = w')"
proof -
  have queued: "u \<in> br_app_user_id ` set (due_reads now (w_db (queue_reads_for_event now ev w)))"
    if "u \<in> set (te_app_user_ids ev)" "resolve_account (w_db w) u \<noteq> None"
      "\<not> event_seen (w_db w) (event_id (te_id ev) (hd (te_app_user_ids ev)) (te_type ev) (event_at now (te_event_at_ms ev)))" for u ev
    using queue_reads_named[of w ev now u] that by (cases "te_app_user_ids ev") (simp_all add: queued_def)
  have again: "apply_revenuecat_event tiers' now' ev (apply_revenuecat_event tiers now ev s) = apply_revenuecat_event tiers now ev s"
    if "rc_event.rv_id ev = Some x" for ev x s tiers' now'
    by (rule apply_seen) (simp add: event_seen_apply event_key_def event_id_def that)
  note [simp] = webhook_def Let_def decides_nothing_refl
  show ?thesis
  proof (intro conjI impI allI)
    fix v e x now' tiers'
    assume body: "body = Some v \<and> json_field ''event'' v = Some e \<and> text_field ''id'' e = Some x"
    show "fst (webhook sha secret mode tiers' now' header body w') = w'"
      using hook body again parsed_ids(1)[of v _ e x] queue_again[of _ x now'] parsed_ids(2)[of v _ e x]
      by (auto split: if_splits option.splits)
  qed (use hook queued queue_decides_nothing in \<open>auto split: if_splits option.splits\<close>)
qed

definition sample_event :: json where
  "sample_event = JObj [(''event'', JObj [(''id'', JText ''e1''), (''type'', JText ''RENEWAL''), (''app_user_id'', JText ''acc1'')])]"

definition sample_reads :: reads_world where
  "sample_reads = \<lparr>w_db = demo_customers, w_flights = (\<lambda>_. None), w_unlinked = (\<lambda>_. None)\<rparr>"

lemma sample_trigger:
  "parse_read_trigger sample_event = Some \<lparr>te_id = Some ''e1'', te_type = ''RENEWAL'', te_event_at_ms = None, te_app_user_ids = [''acc1'']\<rparr>"
  by (simp add: parse_read_trigger_def sample_event_def optional_def nullable_def customers_of_def texts_in_def text_field_def named_customers_def)

theorem webhook_contract_witness:
  "''acc1'' \<in> br_app_user_id ` set (due_reads 5
      (w_db (fst (webhook (\<lambda>x. x) ''k'' ReadsDecide demo_map 5 (Some ''Bearer k'') (Some sample_event) sample_reads))))"
proof -
  obtain w' reply shadow where hook:
    "webhook (\<lambda>x. x) ''k'' ReadsDecide demo_map 5 (Some ''Bearer k'') (Some sample_event) sample_reads = (w', reply, shadow)"
    using prod_cases3 by blast
  have taken: "reply = HookTaken"
    using hook by (auto simp: webhook_def sample_trigger bearer_secret_matches_def starts_with_def no_line_break_def Let_def split: if_splits)
  have "resolve_account (w_db sample_reads) ''acc1'' \<noteq> None"
    by (simp add: sample_reads_def demo_resolves)
  moreover have "\<not> event_seen (w_db sample_reads) (event_id (Some ''e1'') ''acc1'' ''RENEWAL'' (event_at 5 None))"
    by (simp add: sample_reads_def event_seen_def demo_customers_def empty_db_def)
  ultimately show ?thesis
    using webhook_contract[OF hook] taken sample_trigger hook by simp
qed

end
