(* ===== verification/Routes.thy ===== *)
theory Routes
  imports Ingress Checks Stats Identity
begin

section \<open>The routes of the app\<close>

text \<open>
  What the HTTP layer adds to the components: the routes on incidents and topics of \<open>src/src/v1/router.ts\<close>, those of the weekly check
  (\<open>src/src/check/router.ts\<close>) and of the statistics (\<open>src/src/stats/router.ts\<close>), and the app they are mounted in (\<open>src/src/index.ts\<close>) with the
  dispatch that counts. An answer is its JSON, or a refusal with status and text; an exception that no route catches is the 500 of \<open>app.onError\<close>.
\<close>

datatype 'a answer = Answer 'a | Refused_with nat string | NoContent

definition internal_error :: "'a answer" where "internal_error = Refused_with 500 ''internal error''"
definition invalid_request :: "'a answer" where "invalid_request = Refused_with 400 ''invalid request''"
definition not_found :: "'a answer" where "not_found = Refused_with 404 ''not found''"
definition unauthorized_answer :: "'a answer" where "unauthorized_answer = Refused_with 401 ''unauthorized''"

text \<open>The middleware of every path under \<open>/v1/topics\<close> and \<open>/v1/incidents\<close>.\<close>

definition require_device ::
  "(string \<Rightarrow> string) \<Rightarrow> server_mode \<Rightarrow> string option \<Rightarrow> (ident \<Rightarrow> db \<Rightarrow> db \<times> 'a answer) \<Rightarrow> db \<Rightarrow> db \<times> 'a answer" where
  "require_device sha md header act s =
     (case authenticate_management sha s header md of None \<Rightarrow> (s, unauthorized_answer) | Some ctx \<Rightarrow> act (ac_account ctx) s)"

subsection \<open>The dispatch that counts\<close>

text \<open>\<open>localDispatch\<close>: the events count before they are pushed, the accepted pushes after. The clock is read for each.\<close>

definition local_dispatch :: "(nat \<Rightarrow> seconds) \<Rightarrow> deliver \<Rightarrow> deliver" where
  "local_dispatch clk deliver evs s =
     (case deliver evs (count_events (clk 0) local_key evs s) of
        (s', DispatchThrew) \<Rightarrow> (s', DispatchThrew)
      | (s', DispatchVoid) \<Rightarrow> (counter_add (clk 1) local_key PushesDelivered 0 s', DispatchVoid)
      | (s', DispatchDone delivered failed) \<Rightarrow>
          (counter_add (clk 1) local_key PushesDelivered (int delivered) s', DispatchDone delivered failed))"

subsection \<open>Incidents\<close>

text \<open>An incident as it is shown: its row, the name of its topic and its messages, which expire twelve hours after they came.\<close>

fun state_word :: "incident_state \<Rightarrow> string" where
  "state_word Open = ''open''"
| "state_word Acked = ''acked''"
| "state_word Closed = ''closed''"
| "state_word Expired = ''expired''"

definition opt_int :: "int option \<Rightarrow> json" where
  "opt_int x = (case x of None \<Rightarrow> JNull | Some n \<Rightarrow> JInt n)"

definition message_json :: "string \<Rightarrow> message_row \<Rightarrow> json" where
  "message_json topic m = JObj
     ([(''id'', JText (m_id m)), (''time'', JInt (m_created_at m)), (''expires'', JInt (m_created_at m + 43200)), (''event'', JText ''message''),
       (''topic'', JText topic), (''title'', JText (m_title m)), (''message'', JText (m_body m)), (''priority'', JInt (m_priority m)),
       (''tags'', JList (map JText (m_tags m)))] @
      (case m_click m of None \<Rightarrow> [] | Some x \<Rightarrow> [(''click'', JText x)]) @
      (if m_markdown m then [(''markdown'', JBool True)] else []) @
      (case m_incident_id m of None \<Rightarrow> [] | Some x \<Rightarrow> [(''incident_id'', JText x)]))"

definition incident_fields :: "incident_row \<times> string \<times> message_row list \<Rightarrow> (string \<times> json) list" where
  "incident_fields v =
     (case v of (i, topic, ms) \<Rightarrow>
        [(''id'', JText (i_id i)), (''topic'', JText topic), (''state'', JText (state_word (i_state i))), (''opened_at'', JInt (i_opened_at i)),
         (''acked_at'', opt_int (i_acked_at i)), (''closed_at'', opt_int (i_closed_at i)), (''last_message_at'', JInt (i_last_message_at i)),
         (''updated_at'', JInt (i_updated_at i)), (''messages'', JList (map (message_json topic) ms))])"

definition incident_json :: "incident_row \<times> string \<times> message_row list \<Rightarrow> json" where
  "incident_json v = JObj (incident_fields v)"

text \<open>The query of the list. A number is read from digits alone.\<close>

record list_query =
  lq_limit :: "string option"
  lq_state :: "string option"
  lq_since :: "string option"
  lq_topic :: "string option"

definition state_of_word :: "string \<Rightarrow> incident_state option" where
  "state_of_word x = List.find (\<lambda>st. state_word st = x) [Open, Acked, Closed, Expired]"

definition digits :: "string \<Rightarrow> nat option" where
  "digits x = (if x \<noteq> [] \<and> list_all is_digit x then Some (digits_value x) else None)"

definition limit_of :: "nat \<Rightarrow> nat \<Rightarrow> string option \<Rightarrow> nat option" where
  "limit_of default_limit max_limit x =
     (case x of None \<Rightarrow> Some default_limit
      | Some t \<Rightarrow> (case digits t of None \<Rightarrow> None | Some n \<Rightarrow> if n < 1 then None else Some (min n max_limit)))"

definition list_filter :: "list_query \<Rightarrow> seconds option \<Rightarrow> incident_filter option" where
  "list_filter q cutoff =
     (case limit_of default_incident_limit max_incident_limit (lq_limit q) of None \<Rightarrow> None
      | Some limit \<Rightarrow>
          if (case lq_state q of None \<Rightarrow> False | Some x \<Rightarrow> state_of_word x = None) then None
          else if (case lq_since q of None \<Rightarrow> False | Some x \<Rightarrow> digits x = None) then None
          else Some \<lparr>f_state = Option.bind (lq_state q) state_of_word, f_topic = lq_topic q, f_limit = Some limit,
                     f_since = map_option int (Option.bind (lq_since q) digits), f_opened_after = cutoff\<rparr>)"

definition list_route :: "server_mode \<Rightarrow> seconds \<Rightarrow> list_query \<Rightarrow> ident \<Rightarrow> db \<Rightarrow> db \<times> json answer" where
  "list_route md now q acc s =
     (case list_filter q (history_cutoff now md acc s) of None \<Rightarrow> (s, invalid_request)
      | Some f \<Rightarrow> (s, Answer (JList (map incident_json (list_incidents s acc f)))))"

definition get_route :: "ident \<Rightarrow> ident \<Rightarrow> db \<Rightarrow> db \<times> json answer" where
  "get_route inc acc s = (s, case get_incident s acc inc of None \<Rightarrow> not_found | Some v \<Rightarrow> Answer (incident_json v))"

text \<open>\<open>incidentFailure\<close>, and the two routes that move an incident on. The timer of the desk is read before the dispatch; after it the incident is
  read once more, and one that is gone by then is the exception of reading a property of \<open>null\<close>.\<close>

definition incident_failure :: "incident_error \<Rightarrow> 'a answer" where
  "incident_failure e = (case e of IncidentConflict \<Rightarrow> Refused_with 409 ''incident state conflict'' | IncidentNotFound \<Rightarrow> not_found)"

definition desk_timer :: "db \<Rightarrow> ident \<Rightarrow> seconds option" where
  "desk_timer s inc = map_option tm_fire_at (List.find (\<lambda>t. tm_incident_id t = inc \<and> tm_kind t = DeskT) (timers s))"

definition ack_route :: "deliver \<Rightarrow> seconds \<Rightarrow> ident \<Rightarrow> ident \<Rightarrow> ident \<Rightarrow> db \<Rightarrow> db \<times> json answer" where
  "ack_route deliver now timer_id inc acc s =
     (case acknowledge now timer_id acc inc s of Inl e \<Rightarrow> (s, incident_failure e)
      | Inr (s1, i, evs) \<Rightarrow>
          (let timer = desk_timer s1 (i_id i) in
           case deliver evs s1 of
             (s2, DispatchThrew) \<Rightarrow> (s2, internal_error)
           | (s2, _) \<Rightarrow>
               (s2, case get_incident s2 acc (i_id i) of None \<Rightarrow> internal_error
                    | Some v \<Rightarrow> (case timer of None \<Rightarrow> internal_error
                                 | Some fire_at \<Rightarrow> Answer (JObj (incident_fields v @ [(''desk_timer_fires_at'', JInt fire_at)]))))))"

definition close_route :: "deliver \<Rightarrow> seconds \<Rightarrow> ident \<Rightarrow> ident \<Rightarrow> db \<Rightarrow> db \<times> json answer" where
  "close_route deliver now inc acc s =
     (case close_incident now acc inc s of Inl e \<Rightarrow> (s, incident_failure e)
      | Inr (s1, i, evs) \<Rightarrow>
          (case deliver evs s1 of
             (s2, DispatchThrew) \<Rightarrow> (s2, internal_error)
           | (s2, _) \<Rightarrow> (s2, case get_incident s2 acc (i_id i) of None \<Rightarrow> internal_error | Some v \<Rightarrow> Answer (incident_json v))))"

subsection \<open>Topics\<close>

text \<open>A field of a body for the operations on topics. A number past \<open>2 ^ 53\<close> is an integer, for doubles have no others there.\<close>

definition field_of :: "json option \<Rightarrow> field" where
  "field_of v =
     (case v of None \<Rightarrow> Missing
      | Some (JText x) \<Rightarrow> FText x
      | Some (JBool b) \<Rightarrow> FBool b
      | Some (JInt n) \<Rightarrow> FNumber (Some n)
      | Some (JReal f x) \<Rightarrow> FNumber (if 2 ^ 53 \<le> \<bar>f\<bar> \<and> x \<noteq> ''Infinity'' \<and> x \<noteq> ''-Infinity'' then Some f else None)
      | Some _ \<Rightarrow> FOther)"

definition relay_content_word :: "relay_content \<Rightarrow> string" where
  "relay_content_word c = (case c of ContentFull \<Rightarrow> ''full'' | ContentNone \<Rightarrow> ''none'')"

definition topic_fields :: "topic_row \<Rightarrow> (string \<times> json) list" where
  "topic_fields t =
     [(''name'', JText (t_name t)), (''critical'', JBool (t_critical t)), (''repeat_interval_s'', JInt (t_repeat_interval_s t)),
      (''max_ring_s'', JInt (t_max_ring_s t)), (''desk_timer_s'', JInt (t_desk_timer_s t)),
      (''relay_content'', JText (relay_content_word (t_relay_content t))), (''created_at'', JInt (t_created_at t))] @
     (case t_relay_name t of None \<Rightarrow> [] | Some x \<Rightarrow> [(''relay_name'', JText x)])"

definition topic_refusal :: "topic_error \<Rightarrow> 'a answer" where
  "topic_refusal e =
     (case e of InvalidName \<Rightarrow> invalid_request | Duplicate \<Rightarrow> Refused_with 409 ''topic already exists'' | CriticalCap \<Rightarrow> Refused_with 429 ''cap''
      | TopicMissing \<Rightarrow> not_found | TopicConstraint \<Rightarrow> internal_error | AccountMissing \<Rightarrow> internal_error)"

definition get_topics :: "server_config \<Rightarrow> ident \<Rightarrow> db \<Rightarrow> db \<times> json answer" where
  "get_topics cfg acc s = (s, Answer (JList (map (\<lambda>t. JObj (topic_fields t)) (list_topics cfg acc s))))"

definition create_topic_route ::
  "(string \<Rightarrow> string) \<Rightarrow> server_config \<Rightarrow> seconds \<Rightarrow> fresh_topic \<Rightarrow> json_read \<Rightarrow> ident \<Rightarrow> db \<Rightarrow> db \<times> json answer" where
  "create_topic_route sha cfg now new body acc s =
     (case body of
        JsonRead b \<Rightarrow>
          (case create_topic sha cfg now new acc (case text_field ''name'' b of None \<Rightarrow> [] | Some x \<Rightarrow> x)
                  (json_field ''critical'' b = Some (JBool True)) (field_of (json_field ''token_name'' b)) s of
             Inl e \<Rightarrow> (s, topic_refusal e)
           | Inr (s', t, chosen) \<Rightarrow>
               (s', Answer (JObj (topic_fields t @ [(''token'', JText (fresh_topic.ft_token new)), (''token_id'', JText (ft_token_id new)), (''token_name'', JText chosen)]))))
      | _ \<Rightarrow> (s, invalid_request))"

definition token_json :: "topic_token_row \<Rightarrow> json" where
  "token_json k = JObj [(''token_id'', JText (tt_id k)), (''name'', JText (tt_name k)), (''created_at'', JInt (tt_created_at k))]"

definition get_topic_tokens :: "string \<Rightarrow> ident \<Rightarrow> db \<Rightarrow> db \<times> json answer" where
  "get_topic_tokens name acc s =
     (s, case list_tokens acc name s of None \<Rightarrow> not_found | Some ks \<Rightarrow> Answer (JList (map token_json ks)))"

text \<open>The body of a new token is optional: one that is no JSON names nothing, only one that is too large is refused.\<close>

definition add_token_route ::
  "(string \<Rightarrow> string) \<Rightarrow> seconds \<Rightarrow> fresh_topic \<Rightarrow> string \<Rightarrow> json_read \<Rightarrow> ident \<Rightarrow> db \<Rightarrow> db \<times> json answer" where
  "add_token_route sha now new name body acc s =
     (if body = JsonTooLarge then (s, invalid_request)
      else (case add_token sha now new acc name (field_of (case body of JsonRead b \<Rightarrow> json_field ''name'' b | _ \<Rightarrow> None)) s of
              Inl e \<Rightarrow> (s, topic_refusal e)
            | Inr (s', chosen) \<Rightarrow>
                (s', Answer (JObj [(''token'', JText (fresh_topic.ft_token new)), (''token_id'', JText (ft_token_id new)), (''name'', JText chosen)]))))"

definition rename_token_route :: "string \<Rightarrow> ident \<Rightarrow> json_read \<Rightarrow> ident \<Rightarrow> db \<Rightarrow> db \<times> json answer" where
  "rename_token_route name tok body acc s =
     (case (case body of JsonRead b \<Rightarrow> text_field ''name'' b | _ \<Rightarrow> None) of
        None \<Rightarrow> (s, invalid_request)
      | Some n \<Rightarrow>
          if trim n = [] then (s, invalid_request)
          else (case rename_token acc name tok n s of
                  Inl e \<Rightarrow> (s, topic_refusal e)
                | Inr (s', k) \<Rightarrow> (s', Answer (case k of None \<Rightarrow> JNull | Some k \<Rightarrow> token_json k))))"

definition delete_token_of_topic :: "string \<Rightarrow> ident \<Rightarrow> ident \<Rightarrow> db \<Rightarrow> db \<times> json answer" where
  "delete_token_of_topic name tok acc s =
     (case delete_token acc name tok s of
        (s', Deleted) \<Rightarrow> (s', NoContent)
      | (s', Final) \<Rightarrow> (s', Refused_with 409 ''topic must retain a token'')
      | (s', MissingToken) \<Rightarrow> (s', not_found))"

text \<open>A body that is JSON but no object or array is answered as if there were no such topic.\<close>

definition patch_topic_route :: "server_config \<Rightarrow> string \<Rightarrow> json_read \<Rightarrow> ident \<Rightarrow> db \<Rightarrow> db \<times> json answer" where
  "patch_topic_route cfg name body acc s =
     (case body of
        JsonRead b \<Rightarrow>
          if \<not> is_record b then (s, not_found)
          else (case patch_topic cfg acc name
                       \<lparr>tp_critical = field_of (json_field ''critical'' b), tp_repeat_interval_s = field_of (json_field ''repeat_interval_s'' b),
                        tp_max_ring_s = field_of (json_field ''max_ring_s'' b), tp_desk_timer_s = field_of (json_field ''desk_timer_s'' b)\<rparr> s of
                  Inl e \<Rightarrow> (s, topic_refusal e)
                | Inr (s', t) \<Rightarrow> (s', Answer (JObj (topic_fields (topic_view cfg t)))))
      | _ \<Rightarrow> (s, invalid_request))"

definition delete_topic_route :: "string \<Rightarrow> ident \<Rightarrow> db \<Rightarrow> db \<times> json answer" where
  "delete_topic_route name acc s = (case delete_topic acc name s of (s', gone) \<Rightarrow> (s', if gone then NoContent else not_found))"

subsection \<open>The weekly check\<close>

text \<open>The answer of \<open>ownDevice\<close>, then the handler.\<close>

definition with_own_device ::
  "(string \<Rightarrow> string) \<Rightarrow> string option \<Rightarrow> ident \<Rightarrow> (account_context \<Rightarrow> db \<Rightarrow> db \<times> 'a answer) \<Rightarrow> db \<Rightarrow> db \<times> 'a answer" where
  "with_own_device sha header dev act s =
     (case own_device sha s header dev of Inl Unauthorized \<Rightarrow> (s, unauthorized_answer) | Inl _ \<Rightarrow> (s, not_found) | Inr ctx \<Rightarrow> act ctx s)"

definition put_check :: "check_env \<Rightarrow> (string \<Rightarrow> string) \<Rightarrow> seconds \<Rightarrow> string option \<Rightarrow> ident \<Rightarrow> json_read \<Rightarrow> db \<Rightarrow> db \<times> check_view answer" where
  "put_check env sha now header dev body =
     with_own_device sha header dev (\<lambda>ctx s.
       let shown = (\<lambda>s. case view_check env now (ac_device ctx) (ac_account ctx) s of (s', v) \<Rightarrow> (s', Answer v))
       in case (case body of JsonRead b \<Rightarrow> json_field ''enabled'' b | _ \<Rightarrow> None) of
            Some (JBool True) \<Rightarrow>
              if \<not> gets_checks s (ac_account ctx) then (s, Refused_with 403 ''tier'') else shown (enable_check now (ac_device ctx) s)
          | Some (JBool False) \<Rightarrow> shown (disable_check now (ac_device ctx) s)
          | _ \<Rightarrow> (s, invalid_request))"

definition get_check :: "check_env \<Rightarrow> (string \<Rightarrow> string) \<Rightarrow> seconds \<Rightarrow> string option \<Rightarrow> ident \<Rightarrow> db \<Rightarrow> db \<times> check_view answer" where
  "get_check env sha now header dev =
     with_own_device sha header dev (\<lambda>ctx s. case view_check env now (ac_device ctx) (ac_account ctx) s of (s', v) \<Rightarrow> (s', Answer v))"

definition whole_number :: "json option \<Rightarrow> int option" where
  "whole_number v = (case v of Some (JInt n) \<Rightarrow> Some n | _ \<Rightarrow> None)"

definition post_receipt ::
  "check_env \<Rightarrow> (string \<Rightarrow> string) \<Rightarrow> seconds \<Rightarrow> string option \<Rightarrow> ident \<Rightarrow> string \<Rightarrow> json_read \<Rightarrow> db \<Rightarrow> db \<times> receipt_answer answer" where
  "post_receipt env sha now header dev chk body =
     with_own_device sha header dev (\<lambda>ctx s.
       let note = (\<lambda>k. case body of JsonRead b \<Rightarrow> whole_number (json_field k b) | _ \<Rightarrow> None)
       in case receive_check env now (ac_device ctx) (ac_account ctx) chk (note ''attempt'') (note ''received_at'') s of
            (s', None) \<Rightarrow> (s', not_found) | (s', Some a) \<Rightarrow> (s', Answer a))"

definition default_rounds_limit :: nat where "default_rounds_limit = 20"
definition max_rounds_limit :: nat where "max_rounds_limit = 200"

definition get_rounds :: "(string \<Rightarrow> string) \<Rightarrow> seconds \<Rightarrow> string option \<Rightarrow> ident \<Rightarrow> string option \<Rightarrow> db \<Rightarrow> db \<times> round_view list answer" where
  "get_rounds sha now header dev limit =
     with_own_device sha header dev (\<lambda>ctx s.
       case limit_of default_rounds_limit max_rounds_limit limit of None \<Rightarrow> (s, invalid_request)
       | Some n \<Rightarrow> (case list_rounds now (ac_device ctx) n s of (s', rs) \<Rightarrow> (s', Answer rs)))"

subsection \<open>Statistics\<close>

definition stats_route :: "(string \<Rightarrow> string) \<Rightarrow> string \<Rightarrow> seconds \<Rightarrow> string option \<Rightarrow> string option \<Rightarrow> db \<Rightarrow> server_stats answer" where
  "stats_route sha stats_key now header by_what s =
     (if \<not> bearer_secret_matches sha header stats_key then unauthorized_answer
      else if by_what \<noteq> None \<and> by_what \<noteq> Some ''key'' then invalid_request
      else Answer (read_stats now (by_what = Some ''key'') s))"

subsection \<open>The scanner\<close>

text \<open>One tick of \<open>startTimerScanner\<close> with the dispatch of \<open>src/src/main.ts\<close>, which is the one that does not count.\<close>

definition scanner_tick :: "deliver \<Rightarrow> (nat \<Rightarrow> seconds) \<Rightarrow> (nat \<Rightarrow> ident \<times> ident) \<Rightarrow> db \<Rightarrow> db" where
  "scanner_tick deliver clk ids s = (case scan_due clk ids s of (s', evs) \<Rightarrow> if evs = [] then s' else fst (deliver evs s'))"

subsection \<open>The app\<close>

text \<open>The routers in the order they are mounted, and the headers of every answer. A relay answers to the hosts of its two URLs and those it is told.\<close>

datatype router = HealthRoute | SignInRoutes | DeviceRoutes | CheckRoutes | V1Routes | RelayRoutes | StatsRoutes | PublishRoutes

definition mounted :: "config \<Rightarrow> router list" where
  "mounted cf =
     (let relay = cf_mode cf \<noteq> SelfHostedMode
      in [HealthRoute] @ (if relay \<and> auth_is_configured (cf_auth cf) then [SignInRoutes] else []) @
         (if relay then [DeviceRoutes, CheckRoutes] else []) @ [V1Routes] @
         (if relay then [RelayRoutes] @ (if cf_stats_key cf \<noteq> None then [StatsRoutes] else []) else []) @ [PublishRoutes])"

definition security_headers :: "string \<Rightarrow> (string \<times> string) list" where
  "security_headers base_url =
     [(''X-Content-Type-Options'', ''nosniff'')] @
     (if starts_with ''https://'' base_url then [(''Strict-Transport-Security'', ''max-age=31536000'')] else [])"

definition relay_answers_to :: "(string \<Rightarrow> string option) \<Rightarrow> config \<Rightarrow> string list" where
  "relay_answers_to host_of cf =
     foldl add_new [] (List.map_filter id [relay_host host_of (cf_base_url cf), relay_host host_of (cf_relay_url cf)] @ cf_public_hosts cf)"

definition create_app_db :: "config \<Rightarrow> (ident \<Rightarrow> string) \<Rightarrow> db \<Rightarrow> db" where
  "create_app_db cf fresh s = (if cf_mode cf = SelfHostedMode then ensure_relay_names fresh s else s)"

definition info_route :: "string \<Rightarrow> config \<Rightarrow> json" where
  "info_route version cf =
     JObj [(''name'', JText ''critalarm''), (''version'', JText version), (''base_url'', JText (cf_base_url cf)), (''relay_url'', JText (cf_relay_url cf)),
       (''relay_content'', JText (if cf_full_content cf then ''full'' else ''none'')),
       (''mode'', JText (case cf_mode cf of SelfHostedMode \<Rightarrow> ''selfhosted'' | RelayMode \<Rightarrow> ''relay'' | HostedMode \<Rightarrow> ''hosted''))]"

section \<open>What an acknowledgement does\<close>

text \<open>The dispatch as these routes need it: on top of what publishing needs, it leaves topics and timers alone.\<close>

locale quiet_delivery = delivery +
  assumes keeps_topics: "topics (fst (deliver evs s)) = topics s"
    and keeps_timers: "timers (fst (deliver evs s)) = timers s"
    and never_throws: "snd (deliver evs s) \<noteq> DispatchThrew"
begin

lemma get_kept: "get_incident (fst (deliver evs s)) acc inc = get_incident s acc inc"
  by (simp add: get_incident_def scoped_incident_or_null_def topic_of_def with_messages_def[abs_def] messages_of_def
      keeps_messages keeps_incidents keeps_topics cong: option.case_cong)

end

lemma counting_keeps:
  "messages (count_events now key evs s) = messages s" "incidents (count_events now key evs s) = incidents s"
  "topics (count_events now key evs s) = topics s" "timers (count_events now key evs s) = timers s"
  "messages (counter_add now key m n s) = messages s" "incidents (counter_add now key m n s) = incidents s"
  "topics (counter_add now key m n s) = topics s" "timers (counter_add now key m n s) = timers s"
proof -
  show add: "messages (counter_add now key m n s) = messages s" "incidents (counter_add now key m n s) = incidents s"
    "topics (counter_add now key m n s) = topics s" "timers (counter_add now key m n s) = timers s" for m n s
    by (simp_all add: counter_add_def)
  have "messages (count_event now key e s) = messages s \<and> incidents (count_event now key e s) = incidents s \<and>
      topics (count_event now key e s) = topics s \<and> timers (count_event now key e s) = timers s" for e s
    by (simp add: count_event_def add split: event_kind.split)
  then have "messages (count_events now key evs s) = messages s \<and> incidents (count_events now key evs s) = incidents s \<and>
      topics (count_events now key evs s) = topics s \<and> timers (count_events now key evs s) = timers s"
    unfolding count_events_def by (induction evs arbitrary: s) simp_all
  then show "messages (count_events now key evs s) = messages s" "incidents (count_events now key evs s) = incidents s"
    "topics (count_events now key evs s) = topics s" "timers (count_events now key evs s) = timers s" by simp_all
qed

lemma local_dispatch_fst:
  "\<exists>n. fst (local_dispatch clk (local_deliver env w) evs s) =
     counter_add (clk 1) local_key PushesDelivered n (fst (local_deliver env w evs (count_events (clk 0) local_key evs s)))"
  by (auto simp: local_dispatch_def local_deliver_def split: prod.split)

interpretation counting: quiet_delivery "local_dispatch clk (local_deliver (quiet env) w)" for clk and env :: "'w push_env" and w :: 'w
proof unfold_locales
  fix evs :: "delivery_event list" and s :: db
  obtain n where fst: "fst (local_dispatch clk (local_deliver (quiet env) w) evs s) =
     counter_add (clk 1) local_key PushesDelivered n (fst (local_deliver (quiet env) w evs (count_events (clk 0) local_key evs s)))"
    using local_dispatch_fst[of clk "quiet env" w evs s] by (elim exE)
  show "messages (fst (local_dispatch clk (local_deliver (quiet env) w) evs s)) = messages s"
    "incidents (fst (local_dispatch clk (local_deliver (quiet env) w) evs s)) = incidents s"
    "topics (fst (local_dispatch clk (local_deliver (quiet env) w) evs s)) = topics s"
    "timers (fst (local_dispatch clk (local_deliver (quiet env) w) evs s)) = timers s"
    unfolding fst using local_deliver_keeps[of "count_events (clk 0) local_key evs s" env w evs]
    by (simp_all add: counting_keeps keeps_alarms_def)
  show "snd (local_dispatch clk (local_deliver (quiet env) w) evs s) \<noteq> DispatchThrew"
    by (simp add: local_dispatch_def local_deliver_def split: prod.split)
qed

context quiet_delivery
begin

lemma get_after: "scoped_incident s acc inc = Inr (i, t) \<Longrightarrow> incidents s' = upd_where (\<lambda>x. i_id x = inc) f (incidents s) \<Longrightarrow>
    topics s' = topics s \<Longrightarrow> messages s' = messages s \<Longrightarrow> (\<And>x. i_id (f x) = i_id x \<and> i_topic_id (f x) = i_topic_id x) \<Longrightarrow>
    get_incident s' acc inc = Some (f i, t_name t, messages_of s inc)"
proof -
  assume scoped: "scoped_incident s acc inc = Inr (i, t)" and rows: "incidents s' = upd_where (\<lambda>x. i_id x = inc) f (incidents s)"
    "topics s' = topics s" "messages s' = messages s" and f: "\<And>x. i_id (f x) = i_id x \<and> i_topic_id (f x) = i_topic_id x"
  from scoped have i: "List.find (\<lambda>x. i_id x = inc) (incidents s) = Some i" and t: "topic_of s i = Some t" "t_account_id t = acc"
    by (auto simp: scoped_incident_def scoped_incident_or_null_def split: option.splits if_splits)
  have "List.find (\<lambda>x. i_id x = inc) (upd_where (\<lambda>x. i_id x = inc) f rows) = map_option f (List.find (\<lambda>x. i_id x = inc) rows)" for rows
    using f by (induction rows) auto
  moreover have "i_id i = inc" using i by (auto simp: find_Some_iff)
  ultimately show ?thesis
    using i t f rows by (simp add: get_incident_def scoped_incident_or_null_def topic_of_def with_messages_def messages_of_def)
qed

text \<open>Acknowledging, on every branch.\<close>

lemma ack_answers:
  assumes "ack_route deliver now tid inc acc s = (s', a)"
  shows "case scoped_incident s acc inc of
      Inl _ \<Rightarrow> s' = s \<and> a = not_found
    | Inr (i, t) \<Rightarrow>
        if i_state i \<noteq> Open then s' = s \<and> a = Refused_with 409 ''incident state conflict''
        else (\<exists>s1 ev. acknowledge now tid acc inc s = Inr (s1, i\<lparr>i_state := Acked, i_acked_at := Some now\<rparr>, [ev]) \<and>
               s' = fst (deliver [ev] s1) \<and> e_kind ev = EvAck \<and> incidents s' = upd_where (\<lambda>x. i_id x = inc) (ack_row now) (incidents s) \<and>
               timers s' = del_where (\<lambda>x. tm_incident_id x = inc) (timers s) @
                 [\<lparr>tm_id = tid, tm_incident_id = inc, tm_kind = DeskT, tm_fire_at = now + t_desk_timer_s t\<rparr>] \<and>
               a = Answer (JObj (incident_fields (ack_row now i, t_name t, messages_of s inc) @
                     [(''desk_timer_fires_at'', JInt (now + t_desk_timer_s t))])))"
proof (cases "scoped_incident s acc inc")
  case (Inl e)
  then have "e = IncidentNotFound" by (auto simp: scoped_incident_def split: option.splits)
  then show ?thesis using Inl assms by (simp add: ack_route_def acknowledge_def incident_failure_def)
next
  case (Inr r)
  obtain i t where r: "r = (i, t)" by fastforce
  show ?thesis
  proof (cases "i_state i = Open")
    case False
    then show ?thesis using Inr r assms by (simp add: ack_route_def acknowledge_def incident_failure_def)
  next
    case True
    have inc: "i_id i = inc"
      using Inr r by (auto simp: scoped_incident_def scoped_incident_or_null_def find_Some_iff split: option.splits if_splits)
    let ?s1 = "insert_timer tid inc DeskT (now + t_desk_timer_s t) (clear_timers inc (set_incident inc (ack_row now) s))"
    let ?ev = "timer_event EvAck (i, t) (i_opened_at i) ?s1"
    have ack: "acknowledge now tid acc inc s = Inr (?s1, i\<lparr>i_state := Acked, i_acked_at := Some now\<rparr>, [?ev])"
      using Inr r True by (simp add: acknowledge_def Let_def)
    have rows: "incidents ?s1 = upd_where (\<lambda>x. i_id x = inc) (ack_row now) (incidents s)" "topics ?s1 = topics s" "messages ?s1 = messages s"
      "timers ?s1 = del_where (\<lambda>x. tm_incident_id x = inc) (timers s) @
         [\<lparr>tm_id = tid, tm_incident_id = inc, tm_kind = DeskT, tm_fire_at = now + t_desk_timer_s t\<rparr>]"
      by (simp_all add: insert_timer_def clear_timers_def set_incident_def)
    have timer: "desk_timer ?s1 inc = Some (now + t_desk_timer_s t)"
    proof -
      have "List.find (\<lambda>x. tm_incident_id x = inc \<and> tm_kind x = DeskT) (del_where (\<lambda>x. tm_incident_id x = inc) (timers s)) = None"
        by (auto simp: find_None_iff set_del_where)
      then show ?thesis unfolding desk_timer_def rows(4) by (simp add: find_append)
    qed
    have got: "get_incident (fst (deliver [?ev] ?s1)) acc inc = Some (ack_row now i, t_name t, messages_of s inc)"
      unfolding get_kept by (rule get_after[OF _ rows(1-3)]) (use Inr r in \<open>simp_all add: ack_row_def\<close>)
    obtain s2 res where res: "deliver [?ev] ?s1 = (s2, res)" by fastforce
    then have "res \<noteq> DispatchThrew" using never_throws[of "[?ev]" ?s1] by simp
    then have "s' = s2" "a = Answer (JObj (incident_fields (ack_row now i, t_name t, messages_of s inc) @
                     [(''desk_timer_fires_at'', JInt (now + t_desk_timer_s t))]))"
      using assms got timer inc res by (cases res; simp add: ack_route_def ack Let_def)+
    then show ?thesis
      using Inr r True ack rows res keeps_incidents[of "[?ev]" ?s1] keeps_timers[of "[?ev]" ?s1]
      by (auto simp: timer_event_def make_event_def Let_def)
  qed
qed

end

text \<open>C4: What the acknowledgement of an alarm does, from the credential to the answer. A caller without a credential, or whose account does not own the
  incident, is refused and nothing changes; so is one that comes when the incident is no longer open. Otherwise the incident is acknowledged now, its
  timers are gone but for the one of the desk, exactly one event is dispatched, an acknowledgement, and the answer
  shows the incident as it is stored with the second the desk timer fires, whatever the push providers say.\<close>

theorem ack_route_contract:
  assumes "require_device sha md header (ack_route (local_dispatch clk (local_deliver (quiet env) w)) now tid inc) s = (s', a)"
  shows "case authenticate_management sha s header md of
      None \<Rightarrow> s' = s \<and> a = Refused_with 401 ''unauthorized''
    | Some ctx \<Rightarrow>
       (case scoped_incident s (ac_account ctx) inc of
          Inl _ \<Rightarrow> s' = s \<and> a = Refused_with 404 ''not found''
        | Inr (i, t) \<Rightarrow>
            if i_state i \<noteq> Open then s' = s \<and> a = Refused_with 409 ''incident state conflict''
            else (\<exists>s1 ev. acknowledge now tid (ac_account ctx) inc s = Inr (s1, i\<lparr>i_state := Acked, i_acked_at := Some now\<rparr>, [ev]) \<and>
                   s' = fst (local_dispatch clk (local_deliver (quiet env) w) [ev] s1) \<and> e_kind ev = EvAck \<and>
                   incidents s' = upd_where (\<lambda>x. i_id x = inc) (ack_row now) (incidents s) \<and>
                   timers s' = del_where (\<lambda>x. tm_incident_id x = inc) (timers s) @
                     [\<lparr>tm_id = tid, tm_incident_id = inc, tm_kind = DeskT, tm_fire_at = now + t_desk_timer_s t\<rparr>] \<and>
                   a = Answer (JObj (incident_fields (ack_row now i, t_name t, messages_of s inc) @
                         [(''desk_timer_fires_at'', JInt (now + t_desk_timer_s t))]))))"
proof (cases "authenticate_management sha s header md")
  case None
  then show ?thesis using assms by (simp add: require_device_def unauthorized_answer_def)
next
  case (Some ctx)
  then have "ack_route (local_dispatch clk (local_deliver (quiet env) w)) now tid inc (ac_account ctx) s = (s', a)"
    using assms by (simp add: require_device_def)
  from counting.ack_answers[OF this, unfolded not_found_def] show ?thesis unfolding Some option.case .
qed

definition acking_db :: db where
  "acking_db = (case publish_critical 100 demo_fresh demo_publication
       (empty_db\<lparr>topics := [demo_topic\<lparr>t_account_id := ''acc_selfhosted''\<rparr>], server_settings := [(''admin_token'', ''ad_1'')]\<rparr>) of (s, _) \<Rightarrow> s)"

theorem ack_route_contract_witness:
  "timers (fst (require_device (\<lambda>x. x) SelfHostedMode (Some ''Bearer ad_1'')
      (ack_route (local_dispatch (\<lambda>_. 110) (local_deliver (quiet sample_push_env) ())) 110 ''tm3'' ''i1'') acking_db)) =
    [\<lparr>tm_id = ''tm3'', tm_incident_id = ''i1'', tm_kind = DeskT, tm_fire_at = 410\<rparr>]"
proof -
  have auth: "authenticate_management (\<lambda>x. x) acking_db (Some ''Bearer ad_1'') SelfHostedMode = Some \<lparr>ac_account = ''acc_selfhosted'', ac_device = ''admin''\<rparr>"
    by code_simp
  obtain i where scoped: "scoped_incident acking_db ''acc_selfhosted'' ''i1'' = Inr (i, demo_topic\<lparr>t_account_id := ''acc_selfhosted''\<rparr>)" "i_state i = Open"
    by (simp add: acking_db_def publish_critical_def active_of_topic_def demo_topic_def demo_publication_def demo_fresh_def empty_db_def new_incident_def
        insert_timer_def scoped_incident_def scoped_incident_or_null_def topic_of_def Let_def)
  have cleared: "del_where (\<lambda>x. tm_incident_id x = ''i1'') (timers acking_db) = []"
    by (simp add: acking_db_def publish_critical_def active_of_topic_def demo_topic_def demo_publication_def demo_fresh_def empty_db_def new_incident_def
        insert_timer_def Let_def del_where_def)
  from ack_route_contract[where clk = "\<lambda>_. 110" and env = sample_push_env and w = "()" and sha = "\<lambda>x. x" and md = SelfHostedMode
      and header = "Some ''Bearer ad_1''" and now = 110 and tid = "''tm3''" and inc = "''i1''" and s = acking_db, OF surjective_pairing]
  show ?thesis by (auto simp: auth scoped cleared demo_topic_def)
qed

section \<open>What the statistics do not see\<close>

lemma process_timer_counters: "counters (fst (process_timer now ids r s)) = counters s"
  by (auto simp: process_timer_def Let_def delete_timer_def clear_timers_def set_incident_def insert_timer_def split: option.split timer_kind.split)

lemma process_due_counters: "counters (fst (process_due clk ids k rs s)) = counters s"
proof (induction rs arbitrary: k s)
  case (Cons r rs)
  then show ?case using process_timer_counters[of "clk k" "ids k" r s] by (simp split: prod.splits) (metis fst_conv)
qed simp

text \<open>The scanner pushes over the dispatch that does not count, so an alarm that is reopened by its desk timer, and every push of a
  repeat or a reopening that a provider accepts, is missing from the statistics, whatever is due and whatever is sent.\<close>

theorem scanner_pushes_are_not_counted:
  "counters (scanner_tick (local_deliver (quiet env) w) clk ids s) = counters s"
proof -
  obtain s' evs where scan: "scan_due clk ids s = (s', evs)" by fastforce
  then have "counters s' = counters s" using process_due_counters[of clk ids 1 "due_rows (clk 0) s" s] by (simp add: scan_due_def)
  then show ?thesis using local_deliver_keeps[of s' env w evs] by (simp add: scanner_tick_def scan keeps_alarms_def)
qed

end
