(* ===== verification/CheckSending.thy ===== *)
theory CheckSending
  imports Push Checks Settings
begin

section \<open>The senders of the weekly check\<close>

text \<open>
  The senders of \<open>src/src/push/check.ts\<close> down to the requests they make: the access token FCM checks are sent with, which this sender keeps for
  itself, the answers of both providers as they are read, and how \<open>src/src/check/startup.ts\<close> puts them together. \<^const>\<open>send_fcm_check\<close> and
  \<^const>\<open>send_apns_check\<close>, which the scan is proved with, are what they come to.
\<close>

subsection \<open>FCM\<close>

text \<open>What Google answers, by the number of the request: \<^term>\<open>None\<close> when it threw or ran out of time, else the status with the body when that is JSON.\<close>

record check_fcm =
  kf_sign :: "seconds \<Rightarrow> string option"
  kf_token :: "nat \<Rightarrow> (int \<times> json option) option"
  kf_post :: "nat \<Rightarrow> string \<times> json \<Rightarrow> (int \<times> json option) option"

record check_fcm_state =
  ks_token :: "(string \<times> seconds) option"
  ks_requests :: nat
  ks_posts :: "(string \<times> json) list"

definition fresh_check_token :: "check_fcm \<Rightarrow> seconds \<Rightarrow> check_fcm_state \<Rightarrow> check_fcm_state \<times> string option" where
  "fresh_check_token pv now w =
     (if kf_sign pv now = None then (w, None)
      else (let w1 = w\<lparr>ks_requests := Suc (ks_requests w)\<rparr>
            in case kf_token pv (ks_requests w) of None \<Rightarrow> (w1, None)
               | Some (status, body) \<Rightarrow>
                   if \<not> accepted_status status then (w1, None)
                   else (case fcm_token_response body of None \<Rightarrow> (w1, None)
                         | Some (token, lives) \<Rightarrow> (w1\<lparr>check_fcm_state.ks_token := Some (token, now + lives)\<rparr>, Some token))))"

definition check_access_token :: "check_fcm \<Rightarrow> seconds \<Rightarrow> check_fcm_state \<Rightarrow> check_fcm_state \<times> string option" where
  "check_access_token pv now w =
     (case check_fcm_state.ks_token w of
        Some (v, expires) \<Rightarrow> if now < expires - 60 then (w, Some v) else fresh_check_token pv now w
      | None \<Rightarrow> fresh_check_token pv now w)"

text \<open>\<open>fcmUnregistered\<close>: the only answer that says the token is refused.\<close>

definition fcm_unregistered :: "json option \<Rightarrow> bool" where
  "fcm_unregistered body \<longleftrightarrow>
     (case Option.bind (Option.bind body (json_field ''error'')) (json_field ''details'') of
        Some (JList ds) \<Rightarrow> list_ex (\<lambda>d. json_field ''errorCode'' d = Some (JText ''UNREGISTERED'')) ds
      | _ \<Rightarrow> False)"

definition check_post_answer :: "(int \<times> json option) option \<Rightarrow> (int \<times> bool) option" where
  "check_post_answer reply = map_option (\<lambda>(status, body). (status, fcm_unregistered body)) reply"

text \<open>\<open>FcmCheckSender.sendCheck\<close>: \<open>t1\<close> is when the token is asked for, \<open>t2\<close> when the check is about to leave.\<close>

definition fcm_check_send ::
  "check_fcm \<Rightarrow> seconds \<Rightarrow> seconds \<Rightarrow> planned_check \<Rightarrow> check_fcm_state \<times> db \<Rightarrow> (check_fcm_state \<times> db) \<times> check_answer" where
  "fcm_check_send pv t1 t2 p st =
     (case st of (w, s) \<Rightarrow>
        (case check_access_token pv t1 w of
           (w1, None) \<Rightarrow> ((w1, s), AttemptFailed, 0)
         | (w1, Some token) \<Rightarrow>
             (case confirm_check t2 p s of (s1, wanted) \<Rightarrow>
                if \<not> wanted then ((w1, s1), AttemptCancelled, 0)
                else (let post = (token, fcm_check_message p); w2 = w1\<lparr>ks_posts := ks_posts w1 @ [post]\<rparr>
                      in case kf_post pv (length (ks_posts w1)) post of
                           None \<Rightarrow> ((w2, s1), AttemptFailed, 0)
                         | Some (status, body) \<Rightarrow>
                             if accepted_status status then ((w2, s1), AttemptAccepted, status)
                             else ((w2, s1), if fcm_unregistered body then AttemptRefused else AttemptFailed, status)))))"

subsection \<open>APNs\<close>

text \<open>The reason Apple names, empty when there is none to read. A check reads it more strictly than an alarm: a body that is no JSON names none.\<close>

definition check_reason :: "json option \<Rightarrow> string" where
  "check_reason body =
     (case body of Some (JObj fs) \<Rightarrow>
        (case map_of fs ''reason'' of None \<Rightarrow> [] | Some v \<Rightarrow> (case js_text v of None \<Rightarrow> [] | Some x \<Rightarrow> x))
      | _ \<Rightarrow> [])"

fun check_reply :: "transport_answer \<Rightarrow> (int \<times> string) option" where
  "check_reply TransportFailed = None"
| "check_reply (TransportReply status raw body) = Some (status, check_reason body)"

definition apns_check_send ::
  "(apns_environment \<Rightarrow> transport_answer) \<Rightarrow> apns_environment \<Rightarrow> seconds \<Rightarrow> seconds \<Rightarrow> check_sender" where
  "apns_check_send host default_environment t1 t2 = send_apns_check (\<lambda>e. check_reply (host e)) default_environment t1 t2"

subsection \<open>Starting the checks\<close>

definition checks_enabled :: "config \<Rightarrow> bool" where
  "checks_enabled cf \<longleftrightarrow> (cf_mode cf = RelayMode \<or> cf_mode cf = HostedMode) \<and> cf_weekly_checks cf"

definition checks_senders :: "config \<Rightarrow> check_sender \<Rightarrow> check_sender \<Rightarrow> check_senders" where
  "checks_senders cf apns fcm =
     \<lparr>sn_ios = (if cf_apns cf = None then None else Some apns), sn_android = (if cf_fcm cf = None then None else Some fcm)\<rparr>"

text \<open>A minute's tick of the scan, which a server without checks never runs.\<close>

definition checks_tick :: "config \<Rightarrow> scan_world \<Rightarrow> seconds \<Rightarrow> nat \<Rightarrow> bool \<Rightarrow> alarm_notes \<Rightarrow> db \<Rightarrow> nat \<times> alarm_notes \<times> db" where
  "checks_tick cf w now batch running notes s =
     (if checks_enabled cf then scan_checks w now batch running notes s else (0, notes, s))"

section \<open>What they come to\<close>

lemma accepted_status_iff: "accepted_status n \<longleftrightarrow> 200 \<le> n \<and> n < 300"
  by (simp add: accepted_status_def)

text \<open>The sender with its token and its requests refines the one the scan is proved with, and what it posts is the check and nothing but the check, after the last
  question whether it is still wanted, at most once.\<close>

theorem fcm_check_refines:
  assumes "fcm_check_send pv t1 t2 p (w, s) = ((w', s'), a)" and "check_access_token pv t1 w = (w1, token)"
  shows "send_fcm_check (token \<noteq> None) (case token of None \<Rightarrow> None | Some t \<Rightarrow> check_post_answer (kf_post pv (length (ks_posts w1)) (t, fcm_check_message p))) t2 p s = (s', a) \<and>
    ks_posts w' = ks_posts w @ (case token of Some t \<Rightarrow> if snd (confirm_check t2 p s) then [(t, fcm_check_message p)] else [] | None \<Rightarrow> [])"
proof -
  have "ks_posts w1 = ks_posts w"
    using assms(2) by (auto simp: check_access_token_def fresh_check_token_def Let_def split: option.splits if_splits prod.splits)
  then show ?thesis
    using assms
    by (auto simp: fcm_check_send_def send_fcm_check_def check_post_answer_def accepted_status_iff Let_def split: option.splits prod.splits if_splits)
qed

end
