(* ===== verification/Upgrade.thy ===== *)
theory Upgrade
  imports Prelude
begin

section \<open>Bringing a database to the newest schema\<close>

text \<open>
  \<open>src/src/store/migrations.ts\<close>: the list of migrations and the runner that applies those a database has not seen. The statements the migrations are
  made of are a datatype with an interpreter, so that a migration reads as its SQL does. Of a table the model has the columns, which of them
  are \<open>NOT NULL\<close>, the \<open>CHECK\<close> lists, the keys (\<open>PRIMARY KEY\<close>, \<open>UNIQUE\<close> and unique indexes), the foreign keys and the rows; column types and plain indexes
  decide nothing here. What \<open>DROP TABLE\<close> deletes elsewhere while foreign keys are enforced is the parameter \<open>wipe\<close>: the runner sees to it that no
  migration gets there.
\<close>

subsection \<open>Tables\<close>

datatype cell = Null | Num int | Txt string

type_synonym row = "(string \<times> cell) list"

datatype on_delete = Refuses | Cascades | SetsNull

record foreign_key =
  fk_column :: string
  fk_parent :: string
  fk_parent_column :: string
  fk_on_delete :: on_delete

text \<open>The columns of a key, and for a partial index the column and the values its rows have there.\<close>

type_synonym key = "string list \<times> (string \<times> cell list) option"

record sql_table =
  tb_name :: string
  tb_columns :: "string list"
  tb_primary :: "string list"
  tb_required :: "string list"
  tb_checks :: "(string \<times> cell list) list"
  tb_keys :: "key list"
  tb_foreign :: "foreign_key list"
  tb_rows :: "row list"

type_synonym sql_db = "sql_table list"

definition cell :: "row \<Rightarrow> string \<Rightarrow> cell" where
  "cell r c = (case map_of r c of None \<Rightarrow> Null | Some v \<Rightarrow> v)"

definition table_named :: "string \<Rightarrow> sql_db \<Rightarrow> sql_table option" where
  "table_named n db = List.find (\<lambda>t. tb_name t = n) db"

definition rows_of :: "string \<Rightarrow> sql_db \<Rightarrow> row list" where
  "rows_of n db = (case table_named n db of None \<Rightarrow> [] | Some t \<Rightarrow> tb_rows t)"

text \<open>What a row has to meet, and the rows of a key: those without a \<open>NULL\<close> in it, for a partial index those it covers.\<close>

definition row_ok :: "sql_table \<Rightarrow> row \<Rightarrow> bool" where
  "row_ok t r \<longleftrightarrow> list_all (\<lambda>c. cell r c \<noteq> Null) (tb_required t) \<and>
     list_all (\<lambda>(c, vs). cell r c = Null \<or> cell r c \<in> set vs) (tb_checks t)"

definition keyed_cells :: "key \<Rightarrow> row list \<Rightarrow> cell list list" where
  "keyed_cells k rs =
     (case k of (cs, part) \<Rightarrow>
        filter (\<lambda>vs. Null \<notin> set vs)
          (map (\<lambda>r. map (cell r) cs) (filter (\<lambda>r. case part of None \<Rightarrow> True | Some (c, vs) \<Rightarrow> cell r c \<in> set vs) rs)))"

definition rows_ok :: "sql_table \<Rightarrow> bool" where
  "rows_ok t \<longleftrightarrow> list_all (row_ok t) (tb_rows t) \<and>
     list_all (\<lambda>k. distinct (keyed_cells k (tb_rows t))) ((tb_primary t, None) # tb_keys t)"

text \<open>\<open>PRAGMA foreign_key_check\<close>: the rows that name a row that is not there.\<close>

definition column :: "string \<Rightarrow> string \<Rightarrow> sql_db \<Rightarrow> cell list" where
  "column n c db = map (\<lambda>r. cell r c) (rows_of n db)"

definition parent_has :: "sql_db \<Rightarrow> foreign_key \<Rightarrow> cell \<Rightarrow> bool" where
  "parent_has db k v \<longleftrightarrow> v \<in> set (column (fk_parent k) (fk_parent_column k) db)"

definition dangling :: "sql_db \<Rightarrow> foreign_key \<Rightarrow> row \<Rightarrow> bool" where
  "dangling db k r \<longleftrightarrow> cell r (fk_column k) \<noteq> Null \<and> \<not> parent_has db k (cell r (fk_column k))"

definition foreign_key_check :: "sql_db \<Rightarrow> (string \<times> row) list" where
  "foreign_key_check db =
     concat (map (\<lambda>t. concat (map (\<lambda>k. map (Pair (tb_name t)) (filter (dangling db k) (tb_rows t))) (tb_foreign t))) db)"

text \<open>\<open>referencingTables\<close>: which tables name \<open>n\<close> in a \<open>REFERENCES\<close> clause.\<close>

definition referencing_tables :: "string \<Rightarrow> sql_db \<Rightarrow> string list" where
  "referencing_tables n db = map tb_name (filter (\<lambda>t. list_ex (\<lambda>k. fk_parent k = n) (tb_foreign t)) db)"

subsection \<open>Statements\<close>

datatype statement =
    CreateTable sql_table
  | CreateUniqueIndex string key
  | AddColumn string string bool "foreign_key list" cell
  | DropColumn string string
  | DropTable string
  | RenameTable string string
  | CopyRows string "string list" string
  | InsertRows string "sql_db \<Rightarrow> row list"
  | UpdateColumn string string "sql_db \<Rightarrow> nat \<Rightarrow> row \<Rightarrow> cell"

definition change_table :: "string \<Rightarrow> (sql_table \<Rightarrow> sql_table) \<Rightarrow> sql_db \<Rightarrow> sql_db" where
  "change_table n f db = map (\<lambda>t. if tb_name t = n then f t else t) db"

definition put :: "string \<Rightarrow> cell \<Rightarrow> row \<Rightarrow> row" where
  "put c v r = map (\<lambda>(x, w). (x, if x = c then v else w)) r"

definition updated_rows :: "string \<Rightarrow> (nat \<Rightarrow> row \<Rightarrow> cell) \<Rightarrow> row list \<Rightarrow> row list" where
  "updated_rows c f rs = map (\<lambda>(i, r). put c (f i r) r) (enumerate 0 rs)"

definition project :: "string list \<Rightarrow> row \<Rightarrow> row" where
  "project cs r = map (\<lambda>c. (c, cell r c)) cs"

text \<open>\<open>ALTER TABLE ... RENAME\<close> takes the clauses of all tables along.\<close>

definition retarget :: "string \<Rightarrow> string \<Rightarrow> sql_table \<Rightarrow> sql_table" where
  "retarget old new t = t\<lparr>tb_foreign := map (\<lambda>k. if fk_parent k = old then k\<lparr>fk_parent := new\<rparr> else k) (tb_foreign t)\<rparr>"

text \<open>What a statement makes of the database when nothing stands in its way.\<close>

fun effect_of :: "statement \<Rightarrow> sql_db \<Rightarrow> sql_db" where
  "effect_of (CreateTable t) db = db @ [t]"
| "effect_of (CreateUniqueIndex n k) db = change_table n (\<lambda>t. t\<lparr>tb_keys := tb_keys t @ [k]\<rparr>) db"
| "effect_of (AddColumn n c required ks v) db =
     change_table n (\<lambda>t. t\<lparr>tb_columns := tb_columns t @ [c], tb_required := tb_required t @ (if required then [c] else []),
        tb_foreign := tb_foreign t @ ks, tb_rows := map (\<lambda>r. r @ [(c, v)]) (tb_rows t)\<rparr>) db"
| "effect_of (DropColumn n c) db =
     change_table n (\<lambda>t. t\<lparr>tb_columns := filter (\<lambda>x. x \<noteq> c) (tb_columns t), tb_required := filter (\<lambda>x. x \<noteq> c) (tb_required t),
        tb_foreign := filter (\<lambda>k. fk_column k \<noteq> c) (tb_foreign t), tb_rows := map (filter (\<lambda>(x, v). x \<noteq> c)) (tb_rows t)\<rparr>) db"
| "effect_of (DropTable n) db = filter (\<lambda>t. tb_name t \<noteq> n) db"
| "effect_of (RenameTable old new) db = map (retarget old new) (change_table old (\<lambda>t. t\<lparr>tb_name := new\<rparr>) db)"
| "effect_of (CopyRows into cs source) db = change_table into (\<lambda>t. t\<lparr>tb_rows := tb_rows t @ map (project cs) (rows_of source db)\<rparr>) db"
| "effect_of (InsertRows n f) db = change_table n (\<lambda>t. t\<lparr>tb_rows := tb_rows t @ f db\<rparr>) db"
| "effect_of (UpdateColumn n c f) db = change_table n (\<lambda>t. t\<lparr>tb_rows := updated_rows c (f db) (tb_rows t)\<rparr>) db"

text \<open>The rows a statement writes, whose foreign keys are looked at while they are enforced.\<close>

fun written_rows :: "statement \<Rightarrow> sql_db \<Rightarrow> row list" where
  "written_rows (CopyRows into cs source) db = map (project cs) (rows_of source db)"
| "written_rows (InsertRows n f) db = f db"
| "written_rows (UpdateColumn n c f) db = updated_rows c (f db) (rows_of n db)"
| "written_rows _ db = []"

text \<open>A statement on the rows of a table fails when a constraint of the table does not hold afterwards, and with enforcement on when one of the
  rows written names a row that is not there.\<close>

definition accepted :: "bool \<Rightarrow> string \<Rightarrow> row list \<Rightarrow> sql_db \<Rightarrow> bool" where
  "accepted enforcing n rs db \<longleftrightarrow>
     (case table_named n db of None \<Rightarrow> False
      | Some t \<Rightarrow> rows_ok t \<and> (enforcing \<longrightarrow> list_all (\<lambda>k. list_all (\<lambda>r. \<not> dangling db k r) rs) (tb_foreign t)))"

fun statement_ok :: "bool \<Rightarrow> statement \<Rightarrow> sql_db \<Rightarrow> bool" where
  "statement_ok enforcing (CreateTable t) db \<longleftrightarrow> table_named (tb_name t) db = None"
| "statement_ok enforcing (DropTable n) db \<longleftrightarrow> table_named n db \<noteq> None"
| "statement_ok enforcing (RenameTable old new) db \<longleftrightarrow> table_named old db \<noteq> None \<and> table_named new db = None"
| "statement_ok enforcing (CopyRows into cs source) db \<longleftrightarrow>
     table_named source db \<noteq> None \<and> accepted enforcing into (written_rows (CopyRows into cs source) db) (effect_of (CopyRows into cs source) db)"
| "statement_ok enforcing (InsertRows n f) db \<longleftrightarrow> accepted enforcing n (f db) (effect_of (InsertRows n f) db)"
| "statement_ok enforcing (UpdateColumn n c f) db \<longleftrightarrow>
     accepted enforcing n (written_rows (UpdateColumn n c f) db) (effect_of (UpdateColumn n c f) db)"
| "statement_ok enforcing (CreateUniqueIndex n k) db \<longleftrightarrow> accepted enforcing n [] (effect_of (CreateUniqueIndex n k) db)"
| "statement_ok enforcing (AddColumn n c required ks v) db \<longleftrightarrow> accepted enforcing n [] (effect_of (AddColumn n c required ks v) db)"
| "statement_ok enforcing (DropColumn n c) db \<longleftrightarrow> accepted enforcing n [] (effect_of (DropColumn n c) db)"

fun exec_statement :: "(string \<Rightarrow> sql_db \<Rightarrow> sql_db option) \<Rightarrow> bool \<Rightarrow> statement \<Rightarrow> sql_db \<Rightarrow> sql_db option" where
  "exec_statement wipe enforcing (DropTable n) db =
     (if \<not> statement_ok enforcing (DropTable n) db then None
      else map_option (effect_of (DropTable n)) (if enforcing then wipe n db else Some db))"
| "exec_statement wipe enforcing x db = (if statement_ok enforcing x db then Some (effect_of x db) else None)"

fun exec_all :: "(string \<Rightarrow> sql_db \<Rightarrow> sql_db option) \<Rightarrow> bool \<Rightarrow> statement list \<Rightarrow> sql_db \<Rightarrow> sql_db option" where
  "exec_all wipe enforcing [] db = Some db"
| "exec_all wipe enforcing (x # xs) db = Option.bind (exec_statement wipe enforcing x db) (exec_all wipe enforcing xs)"

text \<open>A table as it is created.\<close>

definition new_table ::
  "string \<Rightarrow> string list \<Rightarrow> string list \<Rightarrow> string list \<Rightarrow> (string \<times> cell list) list \<Rightarrow> key list \<Rightarrow> foreign_key list \<Rightarrow> sql_table" where
  "new_table n cs nullable primary checks keys fks =
     \<lparr>tb_name = n, tb_columns = cs, tb_primary = primary, tb_required = filter (\<lambda>c. c \<notin> set nullable) cs, tb_checks = checks, tb_keys = keys,
      tb_foreign = fks, tb_rows = []\<rparr>"

definition references :: "string \<Rightarrow> string \<Rightarrow> on_delete \<Rightarrow> foreign_key" where
  "references c parent a = \<lparr>fk_column = c, fk_parent = parent, fk_parent_column = ''id'', fk_on_delete = a\<rparr>"

definition unique :: "string list \<Rightarrow> key" where
  "unique cs = (cs, None)"

definition flags :: "cell list" where
  "flags = [Num 0, Num 1]"

subsection \<open>The tables the migrations create\<close>

definition accounts_1 :: sql_table where
  "accounts_1 = new_table ''accounts''
     [''id'', ''tier'', ''rc_app_user_id'', ''created_at'']
     [''id'', ''rc_app_user_id''] [''id'']
     [(''tier'', map Txt [''free'', ''relay'', ''hosted''])] [unique [''rc_app_user_id'']]
     []"

definition devices_1 :: sql_table where
  "devices_1 = new_table ''devices''
     [''id'', ''account_id'', ''device_token_hash'', ''platform'', ''push_token'', ''last_seen'']
     [''id''] [''id'']
     [(''platform'', map Txt [''ios'', ''android''])] [unique [''device_token_hash'']]
     [references ''account_id'' ''accounts'' Cascades]"

definition subscriptions_1 :: sql_table where
  "subscriptions_1 = new_table ''subscriptions''
     [''account_id'', ''device_id'', ''topic_hash'']
     [] [''device_id'', ''topic_hash'']
     [] []
     [references ''account_id'' ''accounts'' Cascades, references ''device_id'' ''devices'' Cascades]"

definition topics_1 :: sql_table where
  "topics_1 = new_table ''topics''
     [''id'', ''account_id'', ''name'', ''base_url'', ''topic_hash'', ''critical'', ''repeat_interval_s'', ''max_ring_s'', ''desk_timer_s'', ''relay_content'', ''created_at'']
     [''id''] [''id'']
     [(''critical'', flags), (''relay_content'', map Txt [''none'', ''full''])] [unique [''account_id'', ''name''], unique [''account_id'', ''topic_hash'']]
     [references ''account_id'' ''accounts'' Cascades]"

definition topic_tokens_1 :: sql_table where
  "topic_tokens_1 = new_table ''topic_tokens''
     [''id'', ''topic_id'', ''hash'', ''created_at'']
     [''id''] [''id'']
     [] [unique [''hash'']]
     [references ''topic_id'' ''topics'' Cascades]"

definition incidents_1 :: sql_table where
  "incidents_1 = new_table ''incidents''
     [''id'', ''topic_id'', ''state'', ''opened_at'', ''acked_at'', ''closed_at'', ''last_message_at'']
     [''id'', ''acked_at'', ''closed_at''] [''id'']
     [(''state'', map Txt [''open'', ''acked'', ''closed'', ''expired''])] [([''topic_id''], Some (''state'', map Txt [''open'', ''acked'']))]
     [references ''topic_id'' ''topics'' Cascades]"

definition messages_1 :: sql_table where
  "messages_1 = new_table ''messages''
     [''id'', ''topic_id'', ''incident_id'', ''title'', ''body'', ''priority'', ''tags'', ''click'', ''markdown'', ''created_at'']
     [''id'', ''incident_id'', ''click''] [''id'']
     [(''priority'', map Num [1, 2, 3, 4, 5]), (''markdown'', flags)] []
     [references ''topic_id'' ''topics'' Cascades, references ''incident_id'' ''incidents'' SetsNull]"

definition timers_1 :: sql_table where
  "timers_1 = new_table ''timers''
     [''id'', ''incident_id'', ''kind'', ''fire_at'']
     [''id''] [''id'']
     [(''kind'', map Txt [''repeat'', ''expire'', ''desk''])] [unique [''incident_id'', ''kind'']]
     [references ''incident_id'' ''incidents'' Cascades]"

definition server_settings_3 :: sql_table where
  "server_settings_3 = new_table ''server_settings''
     [''key'', ''value'']
     [''key''] [''key'']
     [] []
     []"

definition relay_servers_3 :: sql_table where
  "relay_servers_3 = new_table ''relay_servers''
     [''id'', ''base_url'', ''version'', ''relay_key_hash'', ''created_at'']
     [''id''] [''id'']
     [] [unique [''relay_key_hash'']]
     []"

definition relay_client_credentials_3 :: sql_table where
  "relay_client_credentials_3 = new_table ''relay_client_credentials''
     [''relay_url'', ''relay_key'', ''created_at'']
     [''relay_url''] [''relay_url'']
     [] []
     []"

definition relay_p4_usage_3 :: sql_table where
  "relay_p4_usage_3 = new_table ''relay_p4_usage''
     [''account_id'', ''day_start'', ''count'']
     [] [''account_id'', ''day_start'']
     [] []
     [references ''account_id'' ''accounts'' Cascades]"

definition device_tokens_4 :: sql_table where
  "device_tokens_4 = new_table ''device_tokens''
     [''device_id'', ''kind'', ''activity_id'', ''incident_id'', ''token'', ''updated_at'']
     [''incident_id''] [''device_id'', ''kind'', ''activity_id'']
     [(''kind'', map Txt [''apns'', ''fcm'', ''la_start'', ''la_update''])] []
     [references ''device_id'' ''devices'' Cascades]"

definition counters_5 :: sql_table where
  "counters_5 = new_table ''counters''
     [''day'', ''relay_key'', ''metric'', ''count'']
     [] [''day'', ''relay_key'', ''metric'']
     [] []
     []"

definition counters_zeroed_5 :: sql_table where
  "counters_zeroed_5 = new_table ''counters_zeroed''
     [''relay_key'', ''zeroed_at'']
     [''relay_key''] [''relay_key'']
     [] []
     []"

definition account_billing_ids_11 :: sql_table where
  "account_billing_ids_11 = new_table ''account_billing_ids''
     [''app_user_id'', ''account_id'', ''linked_at'', ''last_event_at'', ''entitled_tier'']
     [''app_user_id'', ''last_event_at''] [''app_user_id'']
     [(''entitled_tier'', map Txt [''free'', ''relay'', ''hosted''])] []
     [references ''account_id'' ''accounts'' Cascades]"

definition billing_events_11 :: sql_table where
  "billing_events_11 = new_table ''billing_events''
     [''event_id'', ''app_user_id'', ''account_id'', ''type'', ''event_at'', ''applied'', ''received_at'']
     [''event_id'', ''account_id''] [''event_id'']
     [] []
     [references ''account_id'' ''accounts'' Refuses]"

definition tier_changes_11 :: sql_table where
  "tier_changes_11 = new_table ''tier_changes''
     [''id'', ''account_id'', ''from_tier'', ''to_tier'', ''reason'', ''event_id'', ''changed_at'']
     [''id'', ''from_tier'', ''event_id''] [''id'']
     [] []
     [references ''account_id'' ''accounts'' Refuses]"

definition account_merges_11 :: sql_table where
  "account_merges_11 = new_table ''account_merges''
     [''id'', ''from_account'', ''into_account'', ''merged_at'', ''detail'']
     [''id''] [''id'']
     [] []
     []"

definition user_14 :: sql_table where
  "user_14 = new_table ''user''
     [''id'', ''name'', ''email'', ''emailVerified'', ''image'', ''createdAt'', ''updatedAt'']
     [''image''] [''id'']
     [] [unique [''email'']]
     []"

definition session_14 :: sql_table where
  "session_14 = new_table ''session''
     [''id'', ''expiresAt'', ''token'', ''createdAt'', ''updatedAt'', ''ipAddress'', ''userAgent'', ''userId'']
     [''ipAddress'', ''userAgent''] [''id'']
     [] [unique [''token'']]
     [references ''userId'' ''user'' Cascades]"

definition account_14 :: sql_table where
  "account_14 = new_table ''account''
     [''id'', ''accountId'', ''providerId'', ''userId'', ''accessToken'', ''refreshToken'', ''idToken'', ''accessTokenExpiresAt'', ''refreshTokenExpiresAt'', ''scope'', ''password'', ''createdAt'', ''updatedAt'']
     [''accessToken'', ''refreshToken'', ''idToken'', ''accessTokenExpiresAt'', ''refreshTokenExpiresAt'', ''scope'', ''password''] [''id'']
     [] []
     [references ''userId'' ''user'' Cascades]"

definition verification_14 :: sql_table where
  "verification_14 = new_table ''verification''
     [''id'', ''identifier'', ''value'', ''expiresAt'', ''createdAt'', ''updatedAt'']
     [] [''id'']
     [] []
     []"

definition account_identities_14 :: sql_table where
  "account_identities_14 = new_table ''account_identities''
     [''user_id'', ''account_id'', ''linked_at'']
     [''user_id''] [''user_id'']
     [] [unique [''account_id'']]
     [references ''account_id'' ''accounts'' Cascades]"

definition billing_packs_19 :: sql_table where
  "billing_packs_19 = new_table ''billing_packs''
     [''app_user_id'', ''pack'', ''expires_at'']
     [''expires_at''] [''app_user_id'', ''pack'']
     [] []
     [\<lparr>fk_column = ''app_user_id'', fk_parent = ''account_billing_ids'', fk_parent_column = ''app_user_id'', fk_on_delete = Cascades\<rparr>]"

definition account_pack_grants_19 :: sql_table where
  "account_pack_grants_19 = new_table ''account_pack_grants''
     [''account_id'', ''pack'', ''expires_at'', ''reason'', ''granted_at'']
     [''expires_at''] [''account_id'', ''pack'']
     [] []
     [references ''account_id'' ''accounts'' Cascades]"

definition billing_reads_19 :: sql_table where
  "billing_reads_19 = new_table ''billing_reads''
     [''app_user_id'', ''due_at'', ''attempts'', ''dirty'']
     [''app_user_id''] [''app_user_id'']
     [] []
     []"

definition check_secret_20 :: sql_table where
  "check_secret_20 = new_table ''check_secret''
     [''id'', ''secret'']
     [''id''] [''id'']
     [(''id'', [Num 1])] []
     []"

definition device_checks_20 :: sql_table where
  "device_checks_20 = new_table ''device_checks''
     [''device_id'', ''enabled'', ''enrolled_at'', ''next_attempt_at'', ''next_due_at'', ''round_id'', ''misses'', ''last_result'', ''second_miss_at'', ''last_sent_at'', ''last_received_at'']
     [''device_id'', ''next_attempt_at'', ''round_id'', ''last_result'', ''second_miss_at'', ''last_sent_at'', ''last_received_at''] [''device_id'']
     [(''enabled'', flags), (''last_result'', map Txt [''received'', ''missed'', ''refused''])] []
     [references ''device_id'' ''devices'' Cascades]"

definition check_rounds_20 :: sql_table where
  "check_rounds_20 = new_table ''check_rounds''
     [''id'', ''device_id'', ''nonce_hash'', ''opened_at'', ''closes_at'', ''closed_at'', ''attempts'', ''result'', ''reason'', ''held_until'', ''attempt_received'', ''receipt_at'', ''device_received_at'', ''late_receipt_at'']
     [''id'', ''closed_at'', ''result'', ''reason'', ''held_until'', ''attempt_received'', ''receipt_at'', ''device_received_at'', ''late_receipt_at''] [''id'']
     [(''result'', map Txt [''received'', ''missed'', ''refused'', ''skipped'']), (''reason'', map Txt [''pack'', ''no_token'', ''disabled'', ''held'', ''unsent''])] [unique [''nonce_hash'']]
     [references ''device_id'' ''devices'' Cascades]"

definition check_attempts_20 :: sql_table where
  "check_attempts_20 = new_table ''check_attempts''
     [''round_id'', ''attempt'', ''recorded_at'', ''outcome'', ''status'']
     [''outcome'', ''status''] [''round_id'', ''attempt'']
     [(''attempt'', map Num [1, 2, 3]), (''outcome'', map Txt [''accepted'', ''refused'', ''failed'', ''cancelled''])] []
     [references ''round_id'' ''check_rounds'' Cascades]"

definition registration_attempts_22 :: sql_table where
  "registration_attempts_22 = new_table ''relay_registration_attempts''
     [''client'', ''day_start'', ''count'']
     [] [''client'', ''day_start'']
     [] []
     []"

definition cancel_answers_24 :: sql_table where
  "cancel_answers_24 = new_table ''cancel_answers''
     [''account_id'', ''created_at'', ''reason'', ''text'', ''app_version'', ''platform'', ''updated_at'']
     [''text''] [''account_id'', ''created_at'']
     [(''reason'', map Txt [''price'', ''unused'', ''selfhost'', ''missing'', ''broken'', ''other'']), (''platform'', map Txt [''ios'', ''android''])] []
     [references ''account_id'' ''accounts'' Cascades]"

text \<open>Those the rebuilding migrations create, under the names they have while the old table is still there.\<close>

definition accounts_s16_new :: sql_table where
  "accounts_s16_new = new_table ''accounts_s16_new''
     [''id'', ''tier'', ''created_at'', ''join_token_hash'', ''merged_into'']
     [''id'', ''join_token_hash'', ''merged_into''] [''id'']
     [(''tier'', map Txt [''free'', ''relay'', ''hosted''])] []
     [references ''merged_into'' ''accounts'' Refuses]"

definition account_identities_s30_new :: sql_table where
  "account_identities_s30_new = new_table ''account_identities_s30_new''
     [''user_id'', ''account_id'', ''linked_at'']
     [''user_id''] [''user_id'']
     [] []
     [references ''account_id'' ''accounts'' Cascades]"

definition check_rounds_s42_new :: sql_table where
  "check_rounds_s42_new = new_table ''check_rounds_s42_new''
     [''id'', ''device_id'', ''nonce_hash'', ''opened_at'', ''closes_at'', ''closed_at'', ''attempts'', ''result'', ''reason'', ''held_until'', ''attempt_received'', ''receipt_at'', ''device_received_at'', ''late_receipt_at'']
     [''id'', ''closed_at'', ''result'', ''reason'', ''held_until'', ''attempt_received'', ''receipt_at'', ''device_received_at'', ''late_receipt_at''] [''id'']
     [(''result'', map Txt [''received'', ''missed'', ''refused'', ''skipped'']), (''reason'', map Txt [''tier'', ''pack'', ''no_token'', ''disabled'', ''held'', ''unsent''])] [unique [''nonce_hash'']]
     [references ''device_id'' ''devices'' Cascades]"

definition devices_s50_new :: sql_table where
  "devices_s50_new = new_table ''devices_s50_new''
     [''id'', ''account_id'', ''device_token_hash'', ''platform'', ''push_token'', ''last_seen'', ''app_version'', ''apns_environment'', ''last_alarm_push_at'']
     [''id'', ''app_version'', ''apns_environment'', ''last_alarm_push_at''] [''id'']
     [(''platform'', map Txt [''ios'', ''android'', ''macos''])] [unique [''device_token_hash'']]
     [references ''account_id'' ''accounts'' Cascades]"

definition cancel_answers_s50_new :: sql_table where
  "cancel_answers_s50_new = new_table ''cancel_answers_s50_new''
     [''account_id'', ''created_at'', ''reason'', ''text'', ''app_version'', ''platform'', ''updated_at'']
     [''text''] [''account_id'', ''created_at'']
     [(''reason'', map Txt [''price'', ''unused'', ''selfhost'', ''missing'', ''broken'', ''other'']), (''platform'', map Txt [''ios'', ''android'', ''macos''])] []
     [references ''account_id'' ''accounts'' Cascades]"

subsection \<open>What the migrations fill in\<close>

text \<open>\<open>SELECT column FROM t WHERE id = v\<close>, \<open>NULL\<close> when there is no row.\<close>

definition looked_up :: "string \<Rightarrow> string \<Rightarrow> cell \<Rightarrow> sql_db \<Rightarrow> cell" where
  "looked_up n c v db =
     (case List.find (\<lambda>t. cell t ''id'' = v \<and> v \<noteq> Null) (rows_of n db) of None \<Rightarrow> Null | Some t \<Rightarrow> cell t c)"

definition ring_of_topic :: "sql_db \<Rightarrow> nat \<Rightarrow> row \<Rightarrow> cell" where
  "ring_of_topic db i r = (if cell r ''max_ring_s'' = Num 0 then looked_up ''topics'' ''max_ring_s'' (cell r ''topic_id'') db else cell r ''max_ring_s'')"

definition alarm_tokens :: "sql_db \<Rightarrow> row list" where
  "alarm_tokens db =
     map (\<lambda>r. [(''device_id'', cell r ''id''), (''kind'', if cell r ''platform'' = Txt ''ios'' then Txt ''apns'' else Txt ''fcm''),
               (''activity_id'', Txt []), (''incident_id'', Null), (''token'', cell r ''push_token''), (''updated_at'', cell r ''last_seen'')])
       (filter (\<lambda>r. cell r ''push_token'' \<notin> {Null, Txt []}) (rows_of ''devices'' db))"

definition billing_ids_of_accounts :: "sql_db \<Rightarrow> row list" where
  "billing_ids_of_accounts db =
     map (\<lambda>r. [(''app_user_id'', cell r ''rc_app_user_id''), (''account_id'', cell r ''id''), (''linked_at'', cell r ''created_at''),
               (''last_event_at'', Null), (''entitled_tier'', cell r ''tier'')])
       (filter (\<lambda>r. cell r ''rc_app_user_id'' \<noteq> Null) (rows_of ''accounts'' db))"

text \<open>The place of a token among those of its topic by \<open>(created_at, rowid)\<close>, the rowid being the place in the table.\<close>

fun not_after :: "cell \<times> nat \<Rightarrow> cell \<times> nat \<Rightarrow> bool" where
  "not_after (Num a, i) (Num b, j) = (a < b \<or> a = b \<and> i \<le> j)"
| "not_after _ _ = False"

definition token_place :: "row list \<Rightarrow> nat \<Rightarrow> row \<Rightarrow> nat" where
  "token_place rs i r =
     length (filter (\<lambda>(j, e). cell e ''topic_id'' = cell r ''topic_id'' \<and> not_after (cell e ''created_at'', j) (cell r ''created_at'', i)) (enumerate 0 rs))"

definition token_label :: "sql_db \<Rightarrow> nat \<Rightarrow> row \<Rightarrow> cell" where
  "token_label db i r = Txt (''Token '' @ nat_text (token_place (rows_of ''topic_tokens'' db) i r))"

definition last_change :: "sql_db \<Rightarrow> nat \<Rightarrow> row \<Rightarrow> cell" where
  "last_change db i r =
     (case filter (\<lambda>v. v \<noteq> Null) [cell r ''closed_at'', cell r ''acked_at'', cell r ''last_message_at'', cell r ''opened_at''] of
        [] \<Rightarrow> Null | v # _ \<Rightarrow> v)"

subsection \<open>The rebuilding migrations\<close>

text \<open>The checks at the end of each: a failing one throws.\<close>

definition still_named :: "string \<Rightarrow> sql_db \<Rightarrow> sql_db \<Rightarrow> bool" where
  "still_named n old new \<longleftrightarrow> list_all (\<lambda>x. x \<in> set (referencing_tables n new)) (referencing_tables n old)"

definition count_of :: "string \<Rightarrow> sql_db \<Rightarrow> nat" where
  "count_of n db = length (rows_of n db)"

definition checked :: "bool \<Rightarrow> sql_db \<Rightarrow> sql_db option" where
  "checked ok db = (if ok \<and> foreign_key_check db = [] then Some db else None)"

type_synonym executor = "statement list \<Rightarrow> sql_db \<Rightarrow> sql_db option"

definition account_columns :: "string list" where
  "account_columns = [''id'', ''tier'', ''created_at'', ''join_token_hash'', ''merged_into'']"

definition rebuild_accounts :: "executor \<Rightarrow> sql_db \<Rightarrow> sql_db option" where
  "rebuild_accounts run db =
     Option.bind (run
       [RenameTable ''accounts'' ''accounts_s16_old'', CreateTable accounts_s16_new,
        CopyRows ''accounts_s16_new'' account_columns ''accounts_s16_old'', DropTable ''accounts_s16_old'',
        RenameTable ''accounts_s16_new'' ''accounts_s16_old'', RenameTable ''accounts_s16_old'' ''accounts'',
        CreateUniqueIndex ''accounts'' (unique [''join_token_hash''])] db)
       (\<lambda>new. checked (still_named ''accounts'' db new) new)"

definition rebuild_identities :: "executor \<Rightarrow> sql_db \<Rightarrow> sql_db option" where
  "rebuild_identities run db =
     Option.bind (run
       [CreateTable account_identities_s30_new,
        CopyRows ''account_identities_s30_new'' (tb_columns account_identities_s30_new) ''account_identities'',
        DropTable ''account_identities'', RenameTable ''account_identities_s30_new'' ''account_identities''] db)
       (\<lambda>new. checked (count_of ''account_identities'' new = count_of ''account_identities'' db \<and>
          (case table_named ''account_identities'' new of None \<Rightarrow> False | Some t \<Rightarrow> tb_primary t = [''user_id''])) new)"

definition rebuild_check_rounds :: "executor \<Rightarrow> sql_db \<Rightarrow> sql_db option" where
  "rebuild_check_rounds run db =
     Option.bind (run
       [CreateTable check_rounds_s42_new, CopyRows ''check_rounds_s42_new'' (tb_columns check_rounds_s42_new) ''check_rounds'',
        DropTable ''check_rounds'', RenameTable ''check_rounds_s42_new'' ''check_rounds''] db)
       (\<lambda>new. checked (list_all (\<lambda>n. count_of n new = count_of n db) [''check_rounds'', ''check_attempts''] \<and>
          still_named ''check_rounds'' db new) new)"

definition carried_tables :: "string list" where
  "carried_tables = [''devices'', ''cancel_answers'', ''subscriptions'', ''device_tokens'', ''device_checks'', ''check_rounds'', ''check_attempts'']"

definition rebuild_platforms :: "executor \<Rightarrow> sql_db \<Rightarrow> sql_db option" where
  "rebuild_platforms run db =
     Option.bind (run
       [CreateTable devices_s50_new, CopyRows ''devices_s50_new'' (tb_columns devices_s50_new) ''devices'',
        DropTable ''devices'', RenameTable ''devices_s50_new'' ''devices'',
        CreateTable cancel_answers_s50_new, CopyRows ''cancel_answers_s50_new'' (tb_columns cancel_answers_s50_new) ''cancel_answers'',
        DropTable ''cancel_answers'', RenameTable ''cancel_answers_s50_new'' ''cancel_answers''] db)
       (\<lambda>new. checked (list_all (\<lambda>n. count_of n new = count_of n db) carried_tables \<and> still_named ''devices'' db new) new)"

subsection \<open>The migrations and their runner\<close>

datatype migration = Plain "statement list" | ForeignKeysOff "executor \<Rightarrow> sql_db \<Rightarrow> sql_db option"

text \<open>Migrations that only add an index without \<open>UNIQUE\<close> have no statement here. \<open>free_column\<close> is a column that may be \<open>NULL\<close> and starts so.\<close>

definition free_column :: "string \<Rightarrow> string \<Rightarrow> statement" where
  "free_column n c = AddColumn n c False [] Null"

definition migrations :: "migration list" where
  "migrations =
    [Plain (map CreateTable [accounts_1, devices_1, subscriptions_1, topics_1, topic_tokens_1, incidents_1, messages_1, timers_1]),
     Plain [AddColumn ''incidents'' ''max_ring_s'' True [] (Num 0), UpdateColumn ''incidents'' ''max_ring_s'' ring_of_topic],
     Plain (map CreateTable [server_settings_3, relay_servers_3, relay_client_credentials_3, relay_p4_usage_3]),
     Plain [CreateTable device_tokens_4, InsertRows ''device_tokens'' alarm_tokens],
     Plain (map CreateTable [counters_5, counters_zeroed_5]),
     Plain [free_column ''devices'' ''app_version''],
     Plain [],
     Plain [free_column ''accounts'' ''join_token_hash'', CreateUniqueIndex ''accounts'' (unique [''join_token_hash''])],
     Plain [AddColumn ''accounts'' ''merged_into'' False [references ''merged_into'' ''accounts'' Refuses] Null],
     Plain [],
     Plain [CreateTable account_billing_ids_11, CreateTable billing_events_11, CreateTable tier_changes_11, CreateTable account_merges_11,
            InsertRows ''account_billing_ids'' billing_ids_of_accounts],
     Plain [DropColumn ''subscriptions'' ''account_id''],
     ForeignKeysOff rebuild_accounts,
     Plain (map CreateTable [user_14, session_14, account_14, verification_14, account_identities_14]),
     ForeignKeysOff rebuild_identities,
     Plain [free_column ''topic_tokens'' ''name'', UpdateColumn ''topic_tokens'' ''name'' token_label],
     Plain [free_column ''devices'' ''apns_environment''],
     Plain [AddColumn ''incidents'' ''updated_at'' True [] (Num 0), UpdateColumn ''incidents'' ''updated_at'' last_change],
     Plain [CreateTable billing_packs_19, CreateTable account_pack_grants_19, free_column ''account_billing_ids'' ''checked_at'',
            AddColumn ''account_billing_ids'' ''read_seq'' True [] (Num 0), AddColumn ''account_billing_ids'' ''applied_seq'' True [] (Num 0),
            CreateTable billing_reads_19],
     Plain (free_column ''devices'' ''last_alarm_push_at'' # map CreateTable [check_secret_20, device_checks_20, check_rounds_20, check_attempts_20]),
     ForeignKeysOff rebuild_check_rounds,
     Plain [AddColumn ''relay_servers'' ''legacy'' True [] (Num 0), UpdateColumn ''relay_servers'' ''legacy'' (\<lambda>_ _ _. Num 1),
            CreateUniqueIndex ''relay_servers'' ([''base_url''], Some (''legacy'', [Num 0])), CreateTable registration_attempts_22],
     Plain [free_column ''topics'' ''relay_name''],
     Plain [CreateTable cancel_answers_24],
     ForeignKeysOff rebuild_platforms]"

text \<open>The database as the runner meets it: its tables, the versions it has seen, whether foreign keys are enforced and whether the caller holds a transaction
  open, in which \<open>PRAGMA foreign_keys\<close> does nothing.\<close>

record upgrade_state =
  up_tables :: sql_db
  up_versions :: "nat list"
  up_enforcing :: bool
  up_in_transaction :: bool

datatype upgrade_result = Upgraded | StoppedAt nat

definition set_enforcing :: "bool \<Rightarrow> upgrade_state \<Rightarrow> upgrade_state" where
  "set_enforcing on st = (if up_in_transaction st then st else st\<lparr>up_enforcing := on\<rparr>)"

fun step_up :: "(string \<Rightarrow> sql_db \<Rightarrow> sql_db option) \<Rightarrow> bool \<Rightarrow> migration \<Rightarrow> sql_db \<Rightarrow> sql_db option" where
  "step_up wipe enforcing (Plain xs) db = exec_all wipe enforcing xs db"
| "step_up wipe enforcing (ForeignKeysOff up) db = up (exec_all wipe enforcing) db"

fun needs_off :: "migration \<Rightarrow> bool" where
  "needs_off (Plain _) = False"
| "needs_off (ForeignKeysOff _) = True"

text \<open>One migration: its statements and the note of its version are one transaction, which an error takes back as a whole.\<close>

definition apply_migration :: "(string \<Rightarrow> sql_db \<Rightarrow> sql_db option) \<Rightarrow> nat \<Rightarrow> migration \<Rightarrow> upgrade_state \<Rightarrow> upgrade_state \<times> bool" where
  "apply_migration wipe version m st =
     (let was_enforcing = needs_off m \<and> up_enforcing st;
          st1 = (if was_enforcing then set_enforcing False st else st)
      in if needs_off m \<and> up_enforcing st1 then (st1, False)
         else (let (st2, ok) = (case step_up wipe (up_enforcing st1) m (up_tables st1) of
                 None \<Rightarrow> (st1, False)
               | Some db \<Rightarrow> (st1\<lparr>up_tables := db, up_versions := up_versions st1 @ [version]\<rparr>, True))
               in (if was_enforcing then set_enforcing True st2 else st2, ok)))"

fun migrate_from :: "(string \<Rightarrow> sql_db \<Rightarrow> sql_db option) \<Rightarrow> nat \<Rightarrow> nat \<Rightarrow> migration list \<Rightarrow> upgrade_state \<Rightarrow> upgrade_state \<times> upgrade_result" where
  "migrate_from wipe index up_to [] st = (st, Upgraded)"
| "migrate_from wipe index up_to (m # ms) st =
     (if Suc index > up_to then (st, Upgraded)
      else if Suc index \<in> set (up_versions st) then migrate_from wipe (Suc index) up_to ms st
      else (case apply_migration wipe (Suc index) m st of
              (st', True) \<Rightarrow> migrate_from wipe (Suc index) up_to ms st'
            | (st', False) \<Rightarrow> (st', StoppedAt (Suc index))))"

definition migrate :: "(string \<Rightarrow> sql_db \<Rightarrow> sql_db option) \<Rightarrow> nat \<Rightarrow> upgrade_state \<Rightarrow> upgrade_state \<times> upgrade_result" where
  "migrate wipe up_to st = migrate_from wipe 0 up_to migrations st"

section \<open>The runner\<close>

text \<open>Outside a transaction enforcement is what it was before, and a migration happens as a whole or not at all.\<close>

lemma apply_migration_eq:
  assumes "\<not> up_in_transaction st"
  shows "apply_migration wipe v m st =
    (case step_up wipe (up_enforcing st \<and> \<not> needs_off m) m (up_tables st) of
       None \<Rightarrow> (st, False)
     | Some db \<Rightarrow> (st\<lparr>up_tables := db, up_versions := up_versions st @ [v]\<rparr>, True))"
  using assms by (cases st) (auto simp: apply_migration_def set_enforcing_def Let_def split: option.splits)

lemma apply_migration_inside:
  assumes "up_in_transaction st" "needs_off m" "up_enforcing st"
  shows "apply_migration wipe v m st = (st, False)"
  using assms by (simp add: apply_migration_def set_enforcing_def)

text \<open>The migrations of the versions given, one after the other.\<close>

fun run_versions :: "(string \<Rightarrow> sql_db \<Rightarrow> sql_db option) \<Rightarrow> bool \<Rightarrow> migration list \<Rightarrow> nat list \<Rightarrow> sql_db \<Rightarrow> sql_db option" where
  "run_versions wipe enforcing ms [] db = Some db"
| "run_versions wipe enforcing ms (v # vs) db =
     Option.bind (step_up wipe (enforcing \<and> \<not> needs_off (ms ! (v - 1))) (ms ! (v - 1)) db) (run_versions wipe enforcing ms vs)"

lemma migrate_from_run:
  assumes "\<not> up_in_transaction st" "migrate_from wipe i up_to (drop i ms) st = (st', r)"
  shows "\<exists>new. up_versions st' = up_versions st @ new \<and> sorted_wrt (<) new \<and> set new \<inter> set (up_versions st) = {} \<and>
      set new \<subseteq> {Suc i..min up_to (length ms)} \<and> run_versions wipe (up_enforcing st) ms new (up_tables st) = Some (up_tables st') \<and>
      up_enforcing st' = up_enforcing st \<and> \<not> up_in_transaction st' \<and>
      (r = Upgraded \<longrightarrow> {Suc i..min up_to (length ms)} \<subseteq> set (up_versions st')) \<and>
      (\<forall>v. r = StoppedAt v \<longrightarrow> v \<in> {Suc i..min up_to (length ms)} \<and> v \<notin> set (up_versions st') \<and> {Suc i..<v} \<subseteq> set (up_versions st') \<and>
         step_up wipe (up_enforcing st \<and> \<not> needs_off (ms ! (v - 1))) (ms ! (v - 1)) (up_tables st') = None)"
    (is "\<exists>new. ?goal i new st")
  using assms
proof (induction "length ms - i" arbitrary: i st)
  case 0
  then show ?case by (intro exI[of _ "[]"]) auto
next
  case (Suc k)
  then have i: "i < length ms" by simp
  then have d: "drop i ms = ms ! i # drop (Suc i) ms" by (simp add: Cons_nth_drop_Suc)
  show ?case
  proof (cases "Suc i > up_to")
    case True
    with Suc.prems show ?thesis by (intro exI[of _ "[]"]) (auto simp: d)
  next
    case False
    show ?thesis
    proof (cases "Suc i \<in> set (up_versions st)")
      case True
      with Suc.prems False have "migrate_from wipe (Suc i) up_to (drop (Suc i) ms) st = (st', r)" by (simp add: d)
      with Suc.hyps Suc.prems(1) obtain new where n: "?goal (Suc i) new st" by fastforce
      have split: "{Suc i..min up_to (length ms)} = insert (Suc i) {Suc (Suc i)..min up_to (length ms)}" using False i by auto
      have below: "v \<ge> Suc (Suc i) \<Longrightarrow> {Suc i..<v} = insert (Suc i) {Suc (Suc i)..<v}" for v by auto
      show ?thesis by (rule exI[of _ new]) (use n True in \<open>auto simp: split below subset_iff\<close>)
    next
      case new: False
      let ?e = "up_enforcing st \<and> \<not> needs_off (ms ! i)"
      show ?thesis
      proof (cases "step_up wipe ?e (ms ! i) (up_tables st)")
        case None
        with Suc.prems False new have "st' = st \<and> r = StoppedAt (Suc i)" by (simp add: d apply_migration_eq)
        with None new False i Suc.prems(1) show ?thesis by (intro exI[of _ "[]"]) auto
      next
        case (Some db)
        let ?st = "st\<lparr>up_tables := db, up_versions := up_versions st @ [Suc i]\<rparr>"
        from Some Suc.prems False new have "migrate_from wipe (Suc i) up_to (drop (Suc i) ms) ?st = (st', r)" by (simp add: d apply_migration_eq)
        moreover have "k = length ms - Suc i" using Suc.hyps(2) by simp
        ultimately obtain more where n: "?goal (Suc i) more ?st"
          using Suc.hyps(1)[of "Suc i" ?st] Suc.prems(1) by auto
        have below: "v \<ge> Suc (Suc i) \<Longrightarrow> {Suc i..<v} = insert (Suc i) {Suc (Suc i)..<v}" for v by auto
        have above: "\<forall>x \<in> set more. Suc i < x" using n by fastforce
        show ?thesis
          by (rule exI[of _ "Suc i # more"]) (use n Some False i new above in \<open>auto simp: below Suc_le_eq subset_iff; metis Suc_lessI\<close>)
      qed
    qed
  qed
qed

text \<open>No migration drops a table while foreign keys are enforced, so what that would delete elsewhere never matters.\<close>

fun drops_table :: "statement \<Rightarrow> bool" where
  "drops_table (DropTable _) = True"
| "drops_table _ = False"

lemma exec_all_off: "exec_all wipe False xs db = exec_all wipe' False xs db"
proof (induction xs arbitrary: db)
  case (Cons x xs)
  have "exec_statement wipe False x db = exec_statement wipe' False x db" by (cases x) simp_all
  with Cons show ?case by (cases "exec_statement wipe' False x db") auto
qed simp

lemma exec_all_no_drop:
  "\<not> list_ex drops_table xs \<Longrightarrow> exec_all wipe e xs db = exec_all wipe' e xs db"
proof (induction xs arbitrary: db)
  case (Cons x xs)
  then have "exec_statement wipe e x db = exec_statement wipe' e x db" by (cases x) simp_all
  with Cons show ?case by (cases "exec_statement wipe' e x db") auto
qed simp

fun drops_only_unenforced :: "migration \<Rightarrow> bool" where
  "drops_only_unenforced (Plain xs) \<longleftrightarrow> \<not> list_ex drops_table xs"
| "drops_only_unenforced (ForeignKeysOff _) \<longleftrightarrow> True"

lemma step_up_wipe:
  assumes "drops_only_unenforced m" "needs_off m \<longrightarrow> \<not> e"
  shows "step_up wipe e m db = step_up wipe' e m db"
proof (cases m)
  case (ForeignKeysOff up)
  have "exec_all wipe False = exec_all wipe' False" by (intro ext exec_all_off)
  with ForeignKeysOff assms(2) show ?thesis by simp
qed (use assms exec_all_no_drop in auto)

lemma apply_migration_wipe:
  "drops_only_unenforced m \<Longrightarrow> apply_migration wipe v m st = apply_migration wipe' v m st"
  using step_up_wipe[of m "up_enforcing (if needs_off m \<and> up_enforcing st then set_enforcing False st else st)" wipe _ wipe']
  by (auto simp: apply_migration_def Let_def)

lemma migrate_from_wipe:
  "list_all drops_only_unenforced ms \<Longrightarrow> migrate_from wipe i up_to ms st = migrate_from wipe' i up_to ms st"
proof (induction ms arbitrary: i st)
  case (Cons m ms)
  then show ?case using apply_migration_wipe[of m wipe "Suc i" st wipe'] by (auto split: prod.split bool.split)
qed simp

lemma migrations_drop_unenforced: "list_all drops_only_unenforced migrations"
  by (simp add: migrations_def free_column_def)

lemma length_migrations [simp]: "length migrations = 25"
  by (simp add: migrations_def)

text \<open>Stopping at a version and going on later comes to the same.\<close>

lemma apply_migration_versions:
  "apply_migration wipe v m st = (st', ok) \<Longrightarrow> up_versions st' = up_versions st @ (if ok then [v] else [])"
  by (auto simp: apply_migration_def set_enforcing_def Let_def split: option.splits if_splits prod.splits)

lemma migrate_from_versions:
  "migrate_from wipe i n ms st = (st', r) \<Longrightarrow> set (up_versions st) \<subseteq> set (up_versions st')"
proof (induction ms arbitrary: i st)
  case (Cons m ms)
  obtain st1 ok where a: "apply_migration wipe (Suc i) m st = (st1, ok)" by fastforce
  have "set (up_versions st) \<subseteq> set (up_versions st1)" using apply_migration_versions[OF a] by auto
  with Cons a show ?case by (cases ok) (auto split: if_splits dest!: Cons.IH)
qed simp

lemma migrate_from_resume:
  assumes "migrate_from wipe i n ms st = (st1, Upgraded)" "n \<le> n'"
  shows "migrate_from wipe i n' ms st1 = migrate_from wipe i n' ms st"
  using assms(1)
proof (induction ms arbitrary: i st)
  case (Cons m ms)
  show ?case
  proof (cases "Suc i > n \<or> Suc i \<in> set (up_versions st)")
    case True
    show ?thesis
    proof (cases "Suc i > n")
      case False
      with True Cons.prems have st: "Suc i \<in> set (up_versions st)" "migrate_from wipe (Suc i) n ms st = (st1, Upgraded)" by simp_all
      then have "Suc i \<in> set (up_versions st1)" using migrate_from_versions by blast
      with st False assms(2) Cons.IH[OF st(2)] show ?thesis by simp
    qed (use Cons.prems in simp)
  next
    case False
    obtain st2 ok where a: "apply_migration wipe (Suc i) m st = (st2, ok)" by fastforce
    with False Cons.prems have r: "ok" "migrate_from wipe (Suc i) n ms st2 = (st1, Upgraded)" by (auto split: bool.splits)
    then have "Suc i \<in> set (up_versions st1)"
      using apply_migration_versions[OF a] migrate_from_versions[OF r(2)] by auto
    with False a r Cons.IH[OF r(2)] assms(2) show ?thesis by auto
  qed
qed simp

text \<open>C15: What an upgrade does to a database nobody else has a transaction open on, whatever version it is at and wherever it stops. The versions it adds are new
  ones, in rising order; the tables are what exactly these migrations make of them, each a whole or not at all; and foreign keys are enforced
  afterwards as they were before. When it does not stop, every version asked for is there, and going on to a later version from
  there is the same as going to it at once. When it stops, it stops at the first version whose migration fails, with every
  version before it in place. No migration ever deletes through the foreign keys of a table that it drops.\<close>

theorem migrate_contract:
  assumes "\<not> up_in_transaction st" "migrate wipe up_to st = (st', r)"
  shows "(\<exists>new. up_versions st' = up_versions st @ new \<and> sorted_wrt (<) new \<and> set new \<inter> set (up_versions st) = {} \<and>
        run_versions wipe (up_enforcing st) migrations new (up_tables st) = Some (up_tables st')) \<and>
    up_enforcing st' = up_enforcing st \<and>
    (r = Upgraded \<longrightarrow> {1..min up_to 25} \<subseteq> set (up_versions st') \<and> (\<forall>later \<ge> up_to. migrate wipe later st' = migrate wipe later st)) \<and>
    (\<forall>v. r = StoppedAt v \<longrightarrow> 1 \<le> v \<and> v \<le> 25 \<and> v \<notin> set (up_versions st') \<and> {1..<v} \<subseteq> set (up_versions st') \<and>
       step_up wipe (up_enforcing st \<and> \<not> needs_off (migrations ! (v - 1))) (migrations ! (v - 1)) (up_tables st') = None) \<and>
    (\<forall>wipe'. migrate wipe' up_to st = (st', r))"
proof -
  have m: "migrate_from wipe 0 up_to (drop 0 migrations) st = (st', r)" using assms(2) by (simp add: migrate_def)
  have "migrate wipe' up_to st = (st', r)" for wipe'
    using assms(2) migrate_from_wipe[OF migrations_drop_unenforced, of wipe] unfolding migrate_def by metis
  moreover have "migrate wipe later st' = migrate wipe later st" if "r = Upgraded" "up_to \<le> later" for later
    using migrate_from_resume[of wipe 0 up_to migrations st st' later] assms(2) that by (simp add: migrate_def)
  ultimately show ?thesis using migrate_from_run[OF assms(1) m] by auto
qed

definition fresh_upgrade :: upgrade_state where
  "fresh_upgrade = \<lparr>up_tables = [], up_versions = [], up_enforcing = True, up_in_transaction = False\<rparr>"

theorem migrate_contract_witness: "up_enforcing (fst (migrate (\<lambda>_ _. None) 25 fresh_upgrade))"
  using migrate_contract[of fresh_upgrade "\<lambda>_ _. None" 25 "fst (migrate (\<lambda>_ _. None) 25 fresh_upgrade)" "snd (migrate (\<lambda>_ _. None) 25 fresh_upgrade)"]
  by (simp add: fresh_upgrade_def)

end
