(* ===== verification/Upgrading.thy ===== *)
theory Upgrading
  imports Upgrade
begin

section \<open>Every database upgrades\<close>

text \<open>
  A database at any of the versions, with any rows that meet its constraints, goes through the remaining migrations without an error and keeps its data. The
  shape of a database is its tables without their rows. A statement is looked at twice: what it needs of the shape is computed once for the whole list of
  migrations, and what it needs of the rows (that a column filled in is never \<open>NULL\<close>, that a new key is one) is proved for the few that fill
  something in.
\<close>

subsection \<open>Shapes and sound databases\<close>

definition shape :: "sql_table \<Rightarrow> sql_table" where
  "shape t = t\<lparr>tb_rows := []\<rparr>"

definition shapes :: "sql_db \<Rightarrow> sql_db" where
  "shapes db = map shape db"

definition key_columns :: "key \<Rightarrow> string list" where
  "key_columns k = (case k of (cs, part) \<Rightarrow> cs @ (case part of None \<Rightarrow> [] | Some (c, vs) \<Rightarrow> [c]))"

definition guarded_columns :: "sql_table \<Rightarrow> string list" where
  "guarded_columns t = tb_primary t @ map fst (tb_checks t) @ concat (map key_columns (tb_keys t))"

definition parent_columns :: "string \<Rightarrow> sql_db \<Rightarrow> string list" where
  "parent_columns n db = map fk_parent_column (filter (\<lambda>k. fk_parent k = n) (concat (map tb_foreign db)))"

definition shape_ok :: "sql_db \<Rightarrow> bool" where
  "shape_ok sh \<longleftrightarrow> distinct (map tb_name sh) \<and>
     list_all (\<lambda>t. distinct (tb_columns t) \<and> list_all (\<lambda>c. c \<in> set (tb_columns t)) (guarded_columns t @ tb_required t @ map fk_column (tb_foreign t)) \<and>
       list_all (\<lambda>k. case table_named (fk_parent k) sh of None \<Rightarrow> False | Some p \<Rightarrow> fk_parent_column k \<in> set (tb_columns p)) (tb_foreign t)) sh"

definition full_row :: "sql_table \<Rightarrow> row \<Rightarrow> bool" where
  "full_row t r \<longleftrightarrow> map fst r = tb_columns t \<and> list_all (\<lambda>c. cell r c \<noteq> Null) (tb_primary t)"

definition table_sound :: "sql_table \<Rightarrow> bool" where
  "table_sound t \<longleftrightarrow> rows_ok t \<and> list_all (full_row t) (tb_rows t)"

definition sound :: "sql_db \<Rightarrow> bool" where
  "sound db \<longleftrightarrow> shape_ok (shapes db) \<and> list_all table_sound db \<and> foreign_key_check db = []"

subsection \<open>Tables by name\<close>

lemma table_named_Some: "table_named n db = Some t \<Longrightarrow> t \<in> set db \<and> tb_name t = n"
  by (auto simp: table_named_def find_Some_iff)

lemma table_named_None: "table_named n db = None \<longleftrightarrow> n \<notin> tb_name ` set db"
  by (auto simp: table_named_def find_None_iff)

lemma table_named_append: "table_named n (db @ db') = (case table_named n db of None \<Rightarrow> table_named n db' | Some t \<Rightarrow> Some t)"
  unfolding table_named_def find_append by (rule refl)

lemma table_named_in: "distinct (map tb_name db) \<Longrightarrow> t \<in> set db \<Longrightarrow> table_named (tb_name t) db = Some t"
  by (induction db) (auto simp: table_named_def)

lemma shape_simps [simp]:
  "tb_name (shape t) = tb_name t" "tb_columns (shape t) = tb_columns t" "tb_primary (shape t) = tb_primary t" "tb_required (shape t) = tb_required t"
  "tb_checks (shape t) = tb_checks t" "tb_keys (shape t) = tb_keys t" "tb_foreign (shape t) = tb_foreign t" "tb_rows (shape t) = []"
  "guarded_columns (shape t) = guarded_columns t" "shape (shape t) = shape t"
  by (simp_all add: shape_def guarded_columns_def)

lemma table_named_shapes [simp]: "table_named n (shapes db) = map_option shape (table_named n db)"
  by (induction db) (auto simp: shapes_def table_named_def)

lemma names_shapes [simp]: "map tb_name (shapes db) = map tb_name db"
  by (simp add: shapes_def)

lemma parent_columns_shapes [simp]: "parent_columns n (shapes db) = parent_columns n db"
  by (simp add: parent_columns_def shapes_def o_def)

lemma sound_names: "sound db \<Longrightarrow> distinct (map tb_name db)"
  by (simp add: sound_def shape_ok_def)

lemma sound_table:
  assumes "sound db" "t \<in> set db"
  shows "table_sound t" "distinct (tb_columns t)" "set (guarded_columns t) \<subseteq> set (tb_columns t)" "set (tb_required t) \<subseteq> set (tb_columns t)"
    "k \<in> set (tb_foreign t) \<Longrightarrow> fk_column k \<in> set (tb_columns t)"
    "k \<in> set (tb_foreign t) \<Longrightarrow> \<exists>p. table_named (fk_parent k) db = Some p \<and> fk_parent_column k \<in> set (tb_columns p)"
    "k \<in> set (tb_foreign t) \<Longrightarrow> fk_parent_column k \<in> set (parent_columns (fk_parent k) db)"
proof -
  have t: "shape t \<in> set (shapes db)" using assms(2) by (simp add: shapes_def)
  have all: "table_sound t" "distinct (tb_columns t) \<and> list_all (\<lambda>c. c \<in> set (tb_columns t)) (guarded_columns t @ tb_required t @ map fk_column (tb_foreign t)) \<and>
       list_all (\<lambda>k. case table_named (fk_parent k) (shapes db) of None \<Rightarrow> False | Some p \<Rightarrow> fk_parent_column k \<in> set (tb_columns p)) (tb_foreign t)"
    using assms t by (auto simp: sound_def shape_ok_def list_all_iff)
  then show "table_sound t" "distinct (tb_columns t)" "set (guarded_columns t) \<subseteq> set (tb_columns t)" "set (tb_required t) \<subseteq> set (tb_columns t)"
    "k \<in> set (tb_foreign t) \<Longrightarrow> fk_column k \<in> set (tb_columns t)"
    by (auto simp: list_all_iff)
  show "k \<in> set (tb_foreign t) \<Longrightarrow> \<exists>p. table_named (fk_parent k) db = Some p \<and> fk_parent_column k \<in> set (tb_columns p)"
    using all(2) by (fastforce simp: list_all_iff split: option.splits)
  show "k \<in> set (tb_foreign t) \<Longrightarrow> fk_parent_column k \<in> set (parent_columns (fk_parent k) db)"
    using assms(2) by (force simp: parent_columns_def)
qed

lemma no_dangling: "foreign_key_check db = [] \<longleftrightarrow> (\<forall>t \<in> set db. \<forall>k \<in> set (tb_foreign t). \<forall>r \<in> set (tb_rows t). \<not> dangling db k r)"
  by (auto simp: foreign_key_check_def filter_empty_conv)

lemma table_named_change:
  assumes "\<And>t. tb_name (f t) = tb_name t"
  shows "table_named m (change_table n f db) = (if m = n then map_option f (table_named n db) else table_named m db)"
  using assms by (induction db) (auto simp: change_table_def table_named_def)

lemma column_change:
  assumes "\<And>t. tb_name (f t) = tb_name t" "table_named n db = Some t"
  shows "column m c (change_table n f db) = (if m = n then map (\<lambda>r. cell r c) (tb_rows (f t)) else column m c db)"
  using assms by (simp add: column_def rows_of_def table_named_change)

lemma set_change: "set (change_table n f db) = (\<lambda>t. if tb_name t = n then f t else t) ` set db"
  by (simp add: change_table_def)

text \<open>A change of one table that keeps its rows in order and takes no value from a column that others point to.\<close>

lemma sound_change:
  assumes s: "sound db" and t: "table_named n db = Some t" and f: "\<And>t. tb_name (f t) = tb_name t"
    and sh: "shape_ok (shapes (change_table n f db))" and ok: "table_sound (f t)"
    and fk: "\<And>k r. k \<in> set (tb_foreign (f t)) \<Longrightarrow> r \<in> set (tb_rows (f t)) \<Longrightarrow> \<not> dangling (change_table n f db) k r"
    and parent: "\<And>c. c \<in> set (parent_columns n db) \<Longrightarrow> set (column n c db) \<subseteq> set (column n c (change_table n f db))"
  shows "sound (change_table n f db)"
proof -
  note tn = table_named_Some[OF t]
  have only: "u = t" if "u \<in> set db" "tb_name u = n" for u
    using table_named_in[OF sound_names[OF s] that(1)] that(2) t by simp
  have "table_sound u" if "u \<in> set (change_table n f db)" for u
    using that only ok s sound_table(1)[OF s] by (auto simp: set_change)
  moreover have "\<not> dangling (change_table n f db) k r" if u: "u \<in> set (change_table n f db)" and k: "k \<in> set (tb_foreign u)" and r: "r \<in> set (tb_rows u)" for u k r
  proof -
    obtain u0 where u0: "u0 \<in> set db" "u = (if tb_name u0 = n then f u0 else u0)" using u by (auto simp: set_change)
    show ?thesis
    proof (cases "tb_name u0 = n")
      case True
      with u0 only k r fk show ?thesis by auto
    next
      case False
      with u0 have "u = u0" by simp
      with k r u0 s have "\<not> dangling db k r" "fk_parent_column k \<in> set (parent_columns (fk_parent k) db)"
        using sound_table(7)[OF s, of u0 k] by (auto simp: sound_def no_dangling)
      then show ?thesis
        using parent[of "fk_parent_column k"] column_change[OF f t, of "fk_parent k" "fk_parent_column k"]
        by (cases "fk_parent k = n") (auto simp: dangling_def parent_has_def)
    qed
  qed
  ultimately show ?thesis using sh by (auto simp: sound_def no_dangling list_all_iff)
qed


subsection \<open>One statement\<close>

lemma cell_append: "cell (r @ [(c, v)]) x = (if x \<in> fst ` set r then cell r x else if x = c then v else Null)"
  by (induction r) (auto simp: cell_def)

lemma cell_filter: "cell (filter (\<lambda>(y, w). y \<noteq> c) r) x = (if x = c then Null else cell r x)"
  by (induction r) (auto simp: cell_def)

lemma map_of_put: "map_of (put c v r) x = (if x = c then map_option (\<lambda>_. v) (map_of r x) else map_of r x)"
  by (induction r) (auto simp: put_def)

lemma cell_put: "cell (put c v r) x = (if x = c \<and> c \<in> fst ` set r then v else cell r x)"
proof (cases "map_of r x")
  case None
  then have "x \<notin> fst ` set r" by (simp add: map_of_eq_None_iff)
  with None show ?thesis by (auto simp: cell_def map_of_put)
next
  case (Some w)
  then have "x \<in> fst ` set r" by (metis map_of_eq_None_iff option.distinct(1))
  with Some show ?thesis by (auto simp: cell_def map_of_put)
qed

lemma cell_project: "cell (project cs r) x = (if x \<in> set cs then cell r x else Null)"
  by (induction cs) (auto simp: cell_def project_def)

lemmas cell_simps = cell_append cell_filter cell_put cell_project

lemma fst_rows [simp]:
  "map fst (put c v r) = map fst r" "map fst (project cs r) = cs"
  "map fst (filter (\<lambda>(y, w). y \<noteq> c) r) = filter (\<lambda>x. x \<noteq> c) (map fst r)"
  by (induction r) (auto simp: put_def project_def o_def)

text \<open>Rows that agree on some columns, one by one.\<close>

definition same_on :: "string set \<Rightarrow> row list \<Rightarrow> row list \<Rightarrow> bool" where
  "same_on C rs rs' \<longleftrightarrow> list_all2 (\<lambda>r r'. \<forall>c \<in> C. cell r' c = cell r c) rs rs'"

lemma same_on_column: "same_on C rs rs' \<Longrightarrow> c \<in> C \<Longrightarrow> map (\<lambda>r. cell r c) rs' = map (\<lambda>r. cell r c) rs"
  unfolding same_on_def by (induction rule: list_all2_induct) auto

lemma same_on_mono: "same_on C rs rs' \<Longrightarrow> D \<subseteq> C \<Longrightarrow> same_on D rs rs'"
  unfolding same_on_def by (erule list_all2_mono) auto

lemma same_on_keyed:
  assumes "same_on C rs rs'" "set (key_columns k) \<subseteq> C"
  shows "keyed_cells k rs' = keyed_cells k rs"
  using assms(1) unfolding same_on_def
proof (induction rule: list_all2_induct)
  case (Cons r rs r' rs')
  obtain cs part where k: "k = (cs, part)" by fastforce
  have eq: "map (cell r') cs = map (cell r) cs" "part = Some (c, vs) \<Longrightarrow> cell r' c = cell r c" for c vs
    using Cons.hyps(1) assms(2) by (auto simp: k key_columns_def)
  show ?case using Cons.IH eq by (cases part) (auto simp: keyed_cells_def k)
qed (simp add: keyed_cells_def split: prod.split)

lemma same_on_row: "same_on C rs rs' \<Longrightarrow> r' \<in> set rs' \<Longrightarrow> \<exists>r \<in> set rs. \<forall>c \<in> C. cell r' c = cell r c"
  unfolding same_on_def by (induction rule: list_all2_induct) auto

lemma key_columns_guarded: "k \<in> set ((tb_primary t, None) # tb_keys t) \<Longrightarrow> set (key_columns k) \<subseteq> set (guarded_columns t)"
  by (auto simp: guarded_columns_def key_columns_def)

lemma table_sound_agree:
  assumes t: "table_sound t" and same: "same_on (set (guarded_columns t)) (tb_rows t) (tb_rows t')"
    and eqs: "tb_primary t' = tb_primary t" "tb_checks t' = tb_checks t" "tb_keys t' = tb_keys t"
    and rows: "\<And>r'. r' \<in> set (tb_rows t') \<Longrightarrow> map fst r' = tb_columns t' \<and> (\<forall>c \<in> set (tb_required t'). cell r' c \<noteq> Null)"
  shows "table_sound t'"
proof -
  have keys: "keyed_cells k (tb_rows t') = keyed_cells k (tb_rows t)" if "k \<in> set ((tb_primary t, None) # tb_keys t)" for k
    by (rule same_on_keyed[OF same key_columns_guarded[OF that]])
  have row: "row_ok t' r' \<and> full_row t' r'" if r': "r' \<in> set (tb_rows t')" for r'
  proof -
    obtain r where r: "r \<in> set (tb_rows t)" "\<forall>c \<in> set (guarded_columns t). cell r' c = cell r c" using same_on_row[OF same r'] by blast
    have ok: "full_row t r" "row_ok t r" using t r(1) by (simp_all add: table_sound_def rows_ok_def list_all_iff)
    have "cell r' c = Null \<or> cell r' c \<in> set vs" if "(c, vs) \<in> set (tb_checks t)" for c vs
    proof -
      have "c \<in> set (guarded_columns t)" using that by (force simp: guarded_columns_def)
      with r(2) ok(2) that show ?thesis by (auto simp: row_ok_def list_all_iff)
    qed
    then have "row_ok t' r'" using rows[OF r'] eqs by (auto simp: row_ok_def list_all_iff)
    moreover have "cell r' c \<noteq> Null" if "c \<in> set (tb_primary t)" for c
      using r(2) ok(1) that by (simp add: full_row_def guarded_columns_def list_all_iff)
    ultimately show ?thesis using rows[OF r'] eqs by (simp add: full_row_def list_all_iff)
  qed
  have "list_all (\<lambda>k. distinct (keyed_cells k (tb_rows t))) ((tb_primary t, None) # tb_keys t)"
    using t unfolding table_sound_def rows_ok_def by (elim conjE)
  with keys have "list_all (\<lambda>k. distinct (keyed_cells k (tb_rows t'))) ((tb_primary t, None) # tb_keys t)"
    unfolding list_all_iff by metis
  moreover have "list_all (row_ok t') (tb_rows t')" "list_all (full_row t') (tb_rows t')" using row unfolding list_all_iff by blast+
  ultimately show ?thesis unfolding table_sound_def rows_ok_def eqs by (intro conjI)
qed


lemma accepted_sound:
  assumes "sound db" "table_named n db = Some t" "set rs \<subseteq> set (tb_rows t)"
  shows "accepted e n rs db"
  using assms table_named_Some[OF assms(2)]
  by (auto simp: accepted_def sound_def table_sound_def no_dangling list_all_iff)

text \<open>Changes that touch one column only, which no key, check or other table speaks of.\<close>

lemma sound_column_change:
  assumes s: "sound db" and t: "table_named n db = Some t" and f: "\<And>t. tb_name (f t) = tb_name t"
    and sh: "shape_ok (shapes (change_table n f db))" and same: "same_on (- {c}) (tb_rows t) (tb_rows (f t))"
    and c: "c \<notin> set (guarded_columns t)" "c \<notin> set (parent_columns n db)"
    and eqs: "tb_primary (f t) = tb_primary t" "tb_checks (f t) = tb_checks t" "tb_keys (f t) = tb_keys t"
    and rows: "\<And>r'. r' \<in> set (tb_rows (f t)) \<Longrightarrow> map fst r' = tb_columns (f t) \<and> (\<forall>c \<in> set (tb_required (f t)). cell r' c \<noteq> Null)"
    and fk: "\<And>k. k \<in> set (tb_foreign (f t)) \<Longrightarrow>
      k \<in> set (tb_foreign t) \<and> fk_column k \<noteq> c \<or> (\<forall>r \<in> set (tb_rows (f t)). cell r (fk_column k) = Null)"
  shows "sound (change_table n f db)"
proof (rule sound_change[OF s t f sh])
  note tn = table_named_Some[OF t]
  show "table_sound (f t)"
    by (rule table_sound_agree[OF _ _ eqs rows]) (use sound_table(1)[OF s] tn c(1) same in \<open>auto elim: same_on_mono\<close>)
  show col: "set (column n x db) \<subseteq> set (column n x (change_table n f db))" if "x \<in> set (parent_columns n db)" for x
  proof -
    have "column n x (change_table n f db) = map (\<lambda>r. cell r x) (tb_rows (f t))" by (simp add: column_change[OF f t])
    also have "\<dots> = map (\<lambda>r. cell r x) (tb_rows t)" by (rule same_on_column[OF same]) (use that c(2) in auto)
    also have "\<dots> = column n x db" by (simp add: column_def rows_of_def t)
    finally show ?thesis by simp
  qed
  show "\<not> dangling (change_table n f db) k r" if k: "k \<in> set (tb_foreign (f t))" and r: "r \<in> set (tb_rows (f t))" for k r
  proof (cases "cell r (fk_column k) = Null")
    case False
    with fk[OF k] r have old: "k \<in> set (tb_foreign t)" "fk_column k \<noteq> c" by auto
    obtain r0 where r0: "r0 \<in> set (tb_rows t)" "cell r (fk_column k) = cell r0 (fk_column k)" using same_on_row[OF same r] old(2) by auto
    have "\<not> dangling db k r0" using s tn old(1) r0(1) by (auto simp: sound_def no_dangling)
    moreover have "set (column (fk_parent k) (fk_parent_column k) db) \<subseteq> set (column (fk_parent k) (fk_parent_column k) (change_table n f db))"
      using col sound_table(7)[OF s _ old(1)] tn column_change[OF f t, of "fk_parent k"] by (cases "fk_parent k = n") auto
    ultimately show ?thesis using r0(2) by (auto simp: dangling_def parent_has_def)
  qed (simp add: dangling_def)
qed

lemma table_sound_row:
  assumes "table_sound t" "r \<in> set (tb_rows t)"
  shows "map fst r = tb_columns t" "fst ` set r = set (tb_columns t)" "x \<in> set (tb_required t) \<Longrightarrow> cell r x \<noteq> Null"
    "x \<in> set (tb_primary t) \<Longrightarrow> cell r x \<noteq> Null" "(x, vs) \<in> set (tb_checks t) \<Longrightarrow> cell r x = Null \<or> cell r x \<in> set vs"
proof -
  show eq: "map fst r = tb_columns t" using assms by (simp add: table_sound_def full_row_def list_all_iff)
  show "fst ` set r = set (tb_columns t)" unfolding eq[symmetric] by simp
  show "x \<in> set (tb_required t) \<Longrightarrow> cell r x \<noteq> Null" "x \<in> set (tb_primary t) \<Longrightarrow> cell r x \<noteq> Null"
    "(x, vs) \<in> set (tb_checks t) \<Longrightarrow> cell r x = Null \<or> cell r x \<in> set vs"
    using assms by (auto simp: table_sound_def rows_ok_def row_ok_def full_row_def list_all_iff)
qed

lemma keyed_cells_Nil: "keyed_cells k [] = []"
  by (cases k) (simp add: keyed_cells_def)

lemma cell_absent: "x \<notin> fst ` set r \<Longrightarrow> cell r x = Null"
  by (simp add: cell_def map_of_eq_None_iff[THEN iffD2])

lemma same_on_map: "(\<And>r x. r \<in> set rs \<Longrightarrow> x \<in> C \<Longrightarrow> cell (g r) x = cell r x) \<Longrightarrow> same_on C rs (map g rs)"
  by (auto simp: same_on_def list_all2_conv_all_nth)

lemma same_on_append: "same_on (- {c}) rs (map (\<lambda>r. r @ [(c, v)]) rs)"
  by (rule same_on_map) (auto simp: cell_append cell_absent)

lemma same_on_filter: "same_on (- {c}) rs (map (filter (\<lambda>(x, v). x \<noteq> c)) rs)"
  by (rule same_on_map) (simp add: cell_filter)

lemma length_updated_rows [simp]: "length (updated_rows c f rs) = length rs"
  by (simp add: updated_rows_def)

lemma nth_updated_rows: "i < length rs \<Longrightarrow> updated_rows c f rs ! i = put c (f i (rs ! i)) (rs ! i)"
  by (simp add: updated_rows_def nth_enumerate_eq)

lemma same_on_updated: "same_on (- {c}) rs (updated_rows c f rs)"
  by (auto simp: same_on_def list_all2_conv_all_nth nth_updated_rows cell_put)

fun fits :: "statement \<Rightarrow> sql_db \<Rightarrow> bool" where
  "fits (CreateTable t) sh \<longleftrightarrow> table_named (tb_name t) sh = None \<and> tb_rows t = []"
| "fits (CreateUniqueIndex n k) sh \<longleftrightarrow> table_named n sh \<noteq> None"
| "fits (AddColumn n c required ks v) sh \<longleftrightarrow>
     (case table_named n sh of None \<Rightarrow> False | Some t \<Rightarrow> c \<notin> set (tb_columns t)) \<and> (required \<longrightarrow> v \<noteq> Null) \<and> (ks = [] \<or> v = Null) \<and>
     list_all (\<lambda>k. fk_column k = c) ks"
| "fits (DropColumn n c) sh \<longleftrightarrow>
     (case table_named n sh of None \<Rightarrow> False | Some t \<Rightarrow> c \<notin> set (guarded_columns t)) \<and> c \<notin> set (parent_columns n sh)"
| "fits (UpdateColumn n c f) sh \<longleftrightarrow>
     (case table_named n sh of None \<Rightarrow> False
      | Some t \<Rightarrow> c \<in> set (tb_columns t) \<and> c \<notin> set (guarded_columns t) \<and> c \<notin> set (map fk_column (tb_foreign t))) \<and> c \<notin> set (parent_columns n sh)"
| "fits (InsertRows n f) sh \<longleftrightarrow> table_named n sh \<noteq> None"
| "fits _ _ \<longleftrightarrow> False"

text \<open>What the few statements that fill something in need of the rows.\<close>

definition insertable :: "sql_db \<Rightarrow> sql_table \<Rightarrow> row list \<Rightarrow> bool" where
  "insertable db t rs \<longleftrightarrow> table_sound (t\<lparr>tb_rows := tb_rows t @ rs\<rparr>) \<and> (\<forall>k \<in> set (tb_foreign t). \<forall>r \<in> set rs. \<not> dangling db k r)"

fun obliged :: "statement \<Rightarrow> sql_db \<Rightarrow> bool" where
  "obliged (CreateUniqueIndex n k) db \<longleftrightarrow> distinct (keyed_cells k (rows_of n db))"
| "obliged (UpdateColumn n c f) db \<longleftrightarrow>
     (\<forall>t. table_named n db = Some t \<and> c \<in> set (tb_required t) \<longrightarrow> (\<forall>i < length (tb_rows t). f db i (tb_rows t ! i) \<noteq> Null))"
| "obliged (InsertRows n f) db \<longleftrightarrow> (\<forall>t. table_named n db = Some t \<longrightarrow> insertable db t (f db))"
| "obliged _ db \<longleftrightarrow> True"

lemma statement_upgrades:
  assumes s: "sound db" and fits: "fits x (shapes db)" and ob: "obliged x db" and sh: "shape_ok (shapes (effect_of x db))"
  shows "exec_statement wipe e x db = Some (effect_of x db) \<and> sound (effect_of x db)"
proof (cases x)
  case (CreateTable t)
  have new: "table_named (tb_name t) db = None" using fits CreateTable by simp
  have dang: "dangling db k r" if "dangling (db @ [t]) k r" for k r
    using that by (auto simp: dangling_def parent_has_def column_def rows_of_def table_named_def find_append split: option.splits)
  have "\<forall>u \<in> set (db @ [t]). \<forall>k \<in> set (tb_foreign u). \<forall>r \<in> set (tb_rows u). \<not> dangling (db @ [t]) k r"
    using s fits CreateTable unfolding sound_def no_dangling by (auto dest: dang)
  moreover have "table_sound t" using fits CreateTable by (simp add: table_sound_def rows_ok_def keyed_cells_Nil list_all_iff)
  ultimately have "sound (db @ [t])" using s sh CreateTable by (simp add: sound_def no_dangling)
  with CreateTable new show ?thesis by simp
next
  case (AddColumn n c required ks v)
  let ?f = "\<lambda>t. t\<lparr>tb_columns := tb_columns t @ [c], tb_required := tb_required t @ (if required then [c] else []),
        tb_foreign := tb_foreign t @ ks, tb_rows := map (\<lambda>r. r @ [(c, v)]) (tb_rows t)\<rparr>"
  obtain t where t: "table_named n db = Some t" "c \<notin> set (tb_columns t)" using fits AddColumn by (auto split: option.splits)
  note tn = table_named_Some[OF t(1)]
  have ts: "table_sound t" using sound_table(1)[OF s] tn by blast
  note fst_eq = table_sound_row(2,1)[OF ts]
  have "sound (change_table n ?f db)"
  proof (rule sound_column_change[OF s t(1), where c = c])
    show "shape_ok (shapes (change_table n ?f db))" using sh AddColumn by simp
    show "same_on (- {c}) (tb_rows t) (tb_rows (?f t))" by (simp add: same_on_append)
    show "c \<notin> set (guarded_columns t)" using t sound_table(3)[OF s] tn by blast
    show "c \<notin> set (parent_columns n db)"
    proof
      assume "c \<in> set (parent_columns n db)"
      then obtain u k where "u \<in> set db" "k \<in> set (tb_foreign u)" "fk_parent k = n" "fk_parent_column k = c" by (auto simp: parent_columns_def)
      with sound_table(6)[OF s] t show False by fastforce
    qed
    show "map fst r' = tb_columns (?f t) \<and> (\<forall>x \<in> set (tb_required (?f t)). cell r' x \<noteq> Null)" if r': "r' \<in> set (tb_rows (?f t))" for r'
    proof -
      obtain r where r: "r \<in> set (tb_rows t)" "r' = r @ [(c, v)]" using r' by auto
      have "cell r x \<noteq> Null" "x \<in> set (tb_columns t)" if "x \<in> set (tb_required t)" for x
        using table_sound_row(3)[OF ts r(1) that] that sound_table(4)[OF s] tn by auto
      with r fst_eq[OF r(1)] fits AddColumn t(2) show ?thesis by (auto simp: cell_append)
    qed
    show "k \<in> set (tb_foreign t) \<and> fk_column k \<noteq> c \<or> (\<forall>r \<in> set (tb_rows (?f t)). cell r (fk_column k) = Null)"
      if "k \<in> set (tb_foreign (?f t))" for k
      using that sound_table(5)[OF s, of t k] tn fst_eq t(2) fits AddColumn by (auto simp: cell_append list_all_iff)
  qed simp_all
  moreover have "table_named n (change_table n ?f db) = Some (?f t)" using t by (simp add: table_named_change)
  ultimately show ?thesis using AddColumn accepted_sound[of "change_table n ?f db" n "?f t" "[]" e] by simp
next
  case (DropColumn n c)
  let ?f = "\<lambda>t. t\<lparr>tb_columns := filter (\<lambda>x. x \<noteq> c) (tb_columns t), tb_required := filter (\<lambda>x. x \<noteq> c) (tb_required t),
        tb_foreign := filter (\<lambda>k. fk_column k \<noteq> c) (tb_foreign t), tb_rows := map (filter (\<lambda>(x, v). x \<noteq> c)) (tb_rows t)\<rparr>"
  obtain t where t: "table_named n db = Some t" "c \<notin> set (guarded_columns t)" "c \<notin> set (parent_columns n db)"
    using fits DropColumn by (auto split: option.splits)
  note tn = table_named_Some[OF t(1)]
  have "sound (change_table n ?f db)"
  proof (rule sound_column_change[OF s t(1), where c = c])
    show "shape_ok (shapes (change_table n ?f db))" using sh DropColumn by simp
    show "same_on (- {c}) (tb_rows t) (tb_rows (?f t))" by (simp add: same_on_filter)
    show "map fst r' = tb_columns (?f t) \<and> (\<forall>x \<in> set (tb_required (?f t)). cell r' x \<noteq> Null)" if r': "r' \<in> set (tb_rows (?f t))" for r'
      using r' table_sound_row(1,3)[OF sound_table(1)[OF s, of t]] tn by (auto simp: cell_filter)
  qed (use t in auto)
  moreover have "table_named n (change_table n ?f db) = Some (?f t)" using t by (simp add: table_named_change)
  ultimately show ?thesis using DropColumn accepted_sound[of "change_table n ?f db" n "?f t" "[]" e] by simp
next
  case (UpdateColumn n c g)
  let ?f = "\<lambda>t. t\<lparr>tb_rows := updated_rows c (g db) (tb_rows t)\<rparr>"
  obtain t where t: "table_named n db = Some t" "c \<in> set (tb_columns t)" "c \<notin> set (guarded_columns t)" "c \<notin> set (map fk_column (tb_foreign t))"
      "c \<notin> set (parent_columns n db)"
    using fits UpdateColumn by (auto split: option.splits)
  note tn = table_named_Some[OF t(1)]
  have full: "map fst (tb_rows t ! i) = tb_columns t" "c \<in> fst ` set (tb_rows t ! i)" "x \<in> set (tb_required t) \<Longrightarrow> cell (tb_rows t ! i) x \<noteq> Null"
    if "i < length (tb_rows t)" for i x
    using table_sound_row(1-3)[OF sound_table(1)[OF s, of t] nth_mem[OF that]] tn t(2) by simp_all
  have "sound (change_table n ?f db)"
  proof (rule sound_column_change[OF s t(1), where c = c])
    show "shape_ok (shapes (change_table n ?f db))" using sh UpdateColumn by simp
    show "same_on (- {c}) (tb_rows t) (tb_rows (?f t))" by (simp add: same_on_updated)
    show "map fst r' = tb_columns (?f t) \<and> (\<forall>x \<in> set (tb_required (?f t)). cell r' x \<noteq> Null)" if r': "r' \<in> set (tb_rows (?f t))" for r'
    proof -
      obtain i where i: "i < length (tb_rows t)" "r' = put c (g db i (tb_rows t ! i)) (tb_rows t ! i)"
        using r' by (auto simp: in_set_conv_nth nth_updated_rows)
      with full[OF i(1)] ob t(1) UpdateColumn show ?thesis by (auto simp: cell_put)
    qed
  qed (use t in auto)
  moreover have "table_named n (change_table n ?f db) = Some (?f t)" using t by (simp add: table_named_change)
  ultimately show ?thesis
    using UpdateColumn t accepted_sound[of "change_table n ?f db" n "?f t" "updated_rows c (g db) (tb_rows t)" e] by (simp add: rows_of_def)
next
  case (CreateUniqueIndex n k)
  let ?f = "\<lambda>t. t\<lparr>tb_keys := tb_keys t @ [k]\<rparr>"
  obtain t where t: "table_named n db = Some t" using fits CreateUniqueIndex by auto
  note tn = table_named_Some[OF t]
  have "sound (change_table n ?f db)"
  proof (rule sound_change[OF s t])
    show "shape_ok (shapes (change_table n ?f db))" using sh CreateUniqueIndex by simp
    have "distinct (keyed_cells k (tb_rows t))" using ob t CreateUniqueIndex by (simp add: rows_of_def)
    moreover have "row_ok (?f t) = row_ok t" "full_row (?f t) = full_row t" by (simp_all add: fun_eq_iff row_ok_def full_row_def)
    ultimately show "table_sound (?f t)" using sound_table(1)[OF s, of t] tn by (simp add: table_sound_def rows_ok_def)
    show col: "set (column n c db) \<subseteq> set (column n c (change_table n ?f db))" for c
      using t by (simp add: column_def rows_of_def table_named_change)
    have cols: "column m c (change_table n ?f db) = column m c db" for m c
      using t column_change[of ?f n db t m c] by (simp add: column_def rows_of_def)
    show "\<not> dangling (change_table n ?f db) k' r" if "k' \<in> set (tb_foreign (?f t))" "r \<in> set (tb_rows (?f t))" for k' r
    proof -
      have "\<not> dangling db k' r" using that s tn by (auto simp: sound_def no_dangling)
      then show ?thesis by (simp add: dangling_def parent_has_def cols)
    qed
  qed simp
  moreover have "table_named n (change_table n ?f db) = Some (?f t)" using t by (simp add: table_named_change)
  ultimately show ?thesis using CreateUniqueIndex accepted_sound[of "change_table n ?f db" n "?f t" "[]" e] by simp
next
  case (InsertRows n g)
  let ?f = "\<lambda>t. t\<lparr>tb_rows := tb_rows t @ g db\<rparr>"
  obtain t where t: "table_named n db = Some t" using fits InsertRows by auto
  note tn = table_named_Some[OF t]
  have ins: "insertable db t (g db)" using ob t InsertRows by simp
  have "sound (change_table n ?f db)"
  proof (rule sound_change[OF s t])
    show "shape_ok (shapes (change_table n ?f db))" using sh InsertRows by simp
    show "table_sound (?f t)" using ins by (simp add: insertable_def)
    have more: "set (column m c db) \<subseteq> set (column m c (change_table n ?f db))" for m c
      using t column_change[of ?f n db t m c] by (auto simp: column_def rows_of_def)
    then show "set (column n c db) \<subseteq> set (column n c (change_table n ?f db))" for c .
    show "\<not> dangling (change_table n ?f db) k r" if "k \<in> set (tb_foreign (?f t))" "r \<in> set (tb_rows (?f t))" for k r
    proof -
      have "\<not> dangling db k r" using that ins s tn by (auto simp: sound_def no_dangling insertable_def)
      then show ?thesis using more by (auto simp: dangling_def parent_has_def)
    qed
  qed simp
  moreover have "table_named n (change_table n ?f db) = Some (?f t)" using t by (simp add: table_named_change)
  ultimately show ?thesis using InsertRows accepted_sound[of "change_table n ?f db" n "?f t" "g db" e] by simp
qed (use fits in auto)


subsection \<open>The statements of a migration\<close>

text \<open>The columns that migrations take away. Every other column of a table keeps its values, row for row.\<close>

definition dropped_columns :: "(string \<times> string) list" where
  "dropped_columns = [(''subscriptions'', ''account_id''), (''accounts'', ''rc_app_user_id'')]"

definition holds :: "sql_db \<Rightarrow> string \<Rightarrow> string \<Rightarrow> bool" where
  "holds base n c \<longleftrightarrow> (n, c) \<notin> set dropped_columns \<and> (case table_named n base of None \<Rightarrow> False | Some t \<Rightarrow> c \<in> set (tb_columns t))"

definition same_data :: "sql_db \<Rightarrow> sql_db \<Rightarrow> sql_db \<Rightarrow> bool" where
  "same_data base db db' \<longleftrightarrow> (\<forall>n c. holds base n c \<longrightarrow> column n c db' = column n c db)"

lemma same_data_trans: "same_data base db1 db2 \<Longrightarrow> same_data base db2 db3 \<Longrightarrow> same_data base db1 db3"
  by (simp add: same_data_def)

lemma same_data_refl [simp]: "same_data base db db"
  by (auto simp: same_data_def)

fun leaves :: "sql_db \<Rightarrow> statement \<Rightarrow> bool" where
  "leaves base (AddColumn n c required ks v) \<longleftrightarrow> \<not> holds base n c"
| "leaves base (DropColumn n c) \<longleftrightarrow> \<not> holds base n c"
| "leaves base (UpdateColumn n c f) \<longleftrightarrow> \<not> holds base n c"
| "leaves base (InsertRows n f) \<longleftrightarrow> table_named n base = None"
| "leaves base (CreateTable t) \<longleftrightarrow> True"
| "leaves base (CreateUniqueIndex n k) \<longleftrightarrow> True"
| "leaves base _ \<longleftrightarrow> False"

lemma shapes_change:
  assumes "\<And>t. shape (f t) = shape (f' (shape t))"
  shows "shapes (change_table n f db) = shapes (change_table n f' (shapes db))"
  using assms by (simp add: shapes_def change_table_def)

lemma shapes_effect:
  assumes "fits x sh"
  shows "shapes (effect_of x db) = shapes (effect_of x (shapes db))"
proof (cases x)
  case (CreateTable t)
  then show ?thesis by (simp add: shapes_def)
qed (use assms in \<open>auto intro!: shapes_change simp: shape_def\<close>)

lemma column_same:
  assumes "table_named n db = Some t" "\<And>t. tb_name (f t) = tb_name t" "same_on C (tb_rows t) (tb_rows (f t))" "m = n \<Longrightarrow> c \<in> C"
  shows "column m c (change_table n f db) = column m c db"
  using assms same_on_column[OF assms(3), of c] by (simp add: column_change[OF assms(2,1)]) (simp add: column_def rows_of_def)

lemma same_on_refl: "same_on C rs rs"
  by (simp add: same_on_def list_all2_same)

lemma effect_same_data:
  assumes "fits x (shapes db)" "leaves base x"
  shows "same_data base db (effect_of x db)"
  unfolding same_data_def
proof (intro allI impI)
  fix m c assume b: "holds base m c"
  show "column m c (effect_of x db) = column m c db"
  proof (cases x)
    case (CreateTable t)
    then show ?thesis using assms by (auto simp: column_def rows_of_def table_named_def find_append split: option.splits)
  next
    case (AddColumn n a required ks v)
    then obtain t where t: "table_named n db = Some t" using assms by (auto split: option.splits)
    show ?thesis unfolding AddColumn effect_of.simps
      by (rule column_same[OF t, where C = "- {a}"]) (use AddColumn assms b in \<open>auto simp: same_on_append\<close>)
  next
    case (DropColumn n a)
    then obtain t where t: "table_named n db = Some t" using assms by (auto split: option.splits)
    show ?thesis unfolding DropColumn effect_of.simps
      by (rule column_same[OF t, where C = "- {a}"]) (use DropColumn assms b in \<open>auto simp: same_on_filter\<close>)
  next
    case (UpdateColumn n a f)
    then obtain t where t: "table_named n db = Some t" using assms by (auto split: option.splits)
    show ?thesis unfolding UpdateColumn effect_of.simps
      by (rule column_same[OF t, where C = "- {a}"]) (use UpdateColumn assms b in \<open>auto simp: same_on_updated\<close>)
  next
    case (CreateUniqueIndex n k)
    then obtain t where t: "table_named n db = Some t" using assms by auto
    show ?thesis unfolding CreateUniqueIndex effect_of.simps by (rule column_same[OF t, where C = UNIV]) (simp_all add: same_on_refl)
  next
    case (InsertRows n f)
    then obtain t where t: "table_named n db = Some t" using assms by auto
    then show ?thesis using InsertRows assms b column_change[OF _ t, of "\<lambda>t. t\<lparr>tb_rows := tb_rows t @ f db\<rparr>"]
      by (auto simp: holds_def split: option.splits)
  qed (use assms in auto)
qed

text \<open>What keeps a shape whole.\<close>

definition parent_there :: "sql_db \<Rightarrow> foreign_key \<Rightarrow> bool" where
  "parent_there sh k \<longleftrightarrow> (case table_named (fk_parent k) sh of None \<Rightarrow> False | Some p \<Rightarrow> fk_parent_column k \<in> set (tb_columns p))"

definition table_whole :: "sql_db \<Rightarrow> sql_table \<Rightarrow> bool" where
  "table_whole sh t \<longleftrightarrow> distinct (tb_columns t) \<and>
     list_all (\<lambda>c. c \<in> set (tb_columns t)) (guarded_columns t @ tb_required t @ map fk_column (tb_foreign t)) \<and> list_all (parent_there sh) (tb_foreign t)"

lemma shape_ok_iff: "shape_ok sh \<longleftrightarrow> distinct (map tb_name sh) \<and> list_all (table_whole sh) sh"
  by (simp add: shape_ok_def table_whole_def parent_there_def[abs_def] list_all_iff)

lemma shape_ok_shapes: "shape_ok (shapes db) \<longleftrightarrow> distinct (map tb_name db) \<and> list_all (table_whole (shapes db)) db"
  by (simp add: shape_ok_iff) (simp add: shapes_def list_all_iff table_whole_def)

fun keeps_whole :: "statement \<Rightarrow> sql_db \<Rightarrow> bool" where
  "keeps_whole (CreateTable t) sh \<longleftrightarrow> table_whole (sh @ [t]) t"
| "keeps_whole (CreateUniqueIndex n k) sh \<longleftrightarrow>
     (case table_named n sh of None \<Rightarrow> False | Some t \<Rightarrow> list_all (\<lambda>c. c \<in> set (tb_columns t)) (key_columns k))"
| "keeps_whole (AddColumn n c required ks v) sh \<longleftrightarrow> list_all (parent_there sh) ks"
| "keeps_whole _ sh \<longleftrightarrow> True"

lemma parent_there_mono:
  assumes "parent_there sh k"
    "\<And>p. table_named (fk_parent k) sh = Some p \<Longrightarrow> fk_parent_column k \<in> set (tb_columns p) \<Longrightarrow>
       \<exists>p'. table_named (fk_parent k) sh' = Some p' \<and> fk_parent_column k \<in> set (tb_columns p')"
  shows "parent_there sh' k"
  using assms by (fastforce simp: parent_there_def split: option.splits)

lemma names_change [simp]: "(\<And>t. tb_name (f t) = tb_name t) \<Longrightarrow> map tb_name (change_table n f db) = map tb_name db"
  by (simp add: change_table_def)

lemma shape_ok_change:
  assumes ok: "shape_ok (shapes db)" and t: "table_named n db = Some t" and f: "\<And>t. tb_name (f t) = tb_name t"
    and whole: "distinct (tb_columns (f t))"
      "set (guarded_columns (f t) @ tb_required (f t) @ map fk_column (tb_foreign (f t))) \<subseteq> set (tb_columns (f t))"
    and fks: "\<And>k. k \<in> set (tb_foreign (f t)) \<Longrightarrow>
      k \<in> set (tb_foreign t) \<or> parent_there (shapes db) k \<and> set (tb_columns t) \<subseteq> set (tb_columns (f t))"
    and cols: "\<And>c. c \<in> set (parent_columns n db) \<Longrightarrow> c \<in> set (tb_columns t) \<Longrightarrow> c \<in> set (tb_columns (f t))"
  shows "shape_ok (shapes (change_table n f db))"
proof -
  note tn = table_named_Some[OF t]
  let ?sh = "shapes (change_table n f db)"
  have only: "u = t" if "u \<in> set db" "tb_name u = n" for u
    using table_named_in[of db u] ok that t by (simp add: shape_ok_shapes)
  have there: "parent_there ?sh k" if "parent_there (shapes db) k" "fk_parent k = n \<longrightarrow> fk_parent_column k \<in> set (tb_columns t) \<longrightarrow> fk_parent_column k \<in> set (tb_columns (f t))" for k
    by (rule parent_there_mono[OF that(1)]) (use that(2) t f in \<open>auto simp: table_named_change split: if_splits\<close>)
  have old: "parent_there (shapes db) k" "fk_parent k = n \<longrightarrow> fk_parent_column k \<in> set (parent_columns n db)" if "u \<in> set db" "k \<in> set (tb_foreign u)" for u k
    using ok that by (auto simp: shape_ok_shapes table_whole_def list_all_iff parent_columns_def)
  have "table_whole ?sh u'" if u': "u' \<in> set (change_table n f db)" for u'
  proof -
    obtain u where u: "u \<in> set db" "u' = (if tb_name u = n then f u else u)" using u' by (auto simp: set_change)
    show ?thesis
    proof (cases "tb_name u = n")
      case True
      then have "u' = f t" using u only by auto
      moreover have "parent_there ?sh k" if k: "k \<in> set (tb_foreign (f t))" for k
        by (rule there) (use fks[OF k] old[of t k] tn cols in auto)
      ultimately show ?thesis using whole by (auto simp: table_whole_def list_all_iff)
    next
      case False
      with u have "u' = u" by simp
      moreover have "parent_there ?sh k" if k: "k \<in> set (tb_foreign u)" for k
        by (rule there) (use old[OF u(1) k] cols in auto)
      moreover have "table_whole (shapes db) u" using ok u(1) by (simp add: shape_ok_shapes list_all_iff)
      ultimately show ?thesis by (simp add: table_whole_def list_all_iff)
    qed
  qed
  moreover have "distinct (map tb_name (change_table n f db))" using ok f by (simp add: shape_ok_shapes)
  ultimately show ?thesis by (simp add: shape_ok_shapes list_all_iff)
qed

lemma shape_id: "tb_rows t = [] \<Longrightarrow> shape t = t"
  by (simp add: shape_def)

lemma shape_ok_effect:
  assumes ok: "shape_ok (shapes db)" and fits: "fits x (shapes db)" "keeps_whole x (shapes db)"
  shows "shape_ok (shapes (effect_of x db))"
proof -
  have whole: "distinct (tb_columns t)" "set (guarded_columns t @ tb_required t @ map fk_column (tb_foreign t)) \<subseteq> set (tb_columns t)"
    if "table_named n db = Some t" for n t
    using ok table_named_Some[OF that] by (auto simp: shape_ok_shapes table_whole_def list_all_iff)
  show ?thesis
  proof (cases x)
    case (CreateTable t)
    then have eq: "shapes (db @ [t]) = shapes db @ [t]" using fits(1) by (simp add: shapes_def shape_id)
    have "parent_there (shapes db @ [t]) k" if "parent_there (shapes db) k" for k
      by (rule parent_there_mono[OF that]) (auto simp: table_named_append)
    then have "table_whole (shapes db @ [t]) u" if "u \<in> set db" for u
      using that ok by (auto simp: shape_ok_shapes table_whole_def list_all_iff)
    moreover have "table_whole (shapes db @ [t]) t" "tb_name t \<notin> tb_name ` set db" "distinct (map tb_name db)"
      using CreateTable fits ok by (simp_all add: table_named_None shape_ok_shapes)
    ultimately have "distinct (map tb_name (db @ [t])) \<and> list_all (table_whole (shapes (db @ [t]))) (db @ [t])"
      unfolding eq by (simp add: list_all_iff)
    then show ?thesis unfolding CreateTable effect_of.simps shape_ok_shapes .
  next
    case (AddColumn n c required ks v)
    then obtain t where t: "table_named n db = Some t" "c \<notin> set (tb_columns t)" using fits(1) by (auto split: option.splits)
    show ?thesis unfolding AddColumn effect_of.simps
      by (rule shape_ok_change[OF ok t(1)]) (use AddColumn fits t whole[OF t(1)] in \<open>auto simp: list_all_iff guarded_columns_def\<close>)
  next
    case (DropColumn n c)
    then obtain t where t: "table_named n db = Some t" using fits(1) by (auto split: option.splits)
    show ?thesis unfolding DropColumn effect_of.simps
      by (rule shape_ok_change[OF ok t]) (use DropColumn fits t whole[OF t] in \<open>auto simp: list_all_iff guarded_columns_def\<close>)
  next
    case (UpdateColumn n c f)
    then obtain t where t: "table_named n db = Some t" using fits(1) by (auto split: option.splits)
    show ?thesis unfolding UpdateColumn effect_of.simps
      by (rule shape_ok_change[OF ok t]) (use whole[OF t] in \<open>auto simp: guarded_columns_def\<close>)
  next
    case (InsertRows n f)
    then obtain t where t: "table_named n db = Some t" using fits(1) by auto
    show ?thesis unfolding InsertRows effect_of.simps
      by (rule shape_ok_change[OF ok t]) (use whole[OF t] in \<open>auto simp: guarded_columns_def\<close>)
  next
    case (CreateUniqueIndex n k)
    then obtain t where t: "table_named n db = Some t" using fits(1) by auto
    show ?thesis unfolding CreateUniqueIndex effect_of.simps
      by (rule shape_ok_change[OF ok t]) (use CreateUniqueIndex fits t whole[OF t] in \<open>auto simp: guarded_columns_def list_all_iff\<close>)
  qed (use fits in auto)
qed

fun fits_all :: "sql_db \<Rightarrow> statement list \<Rightarrow> sql_db \<Rightarrow> bool" where
  "fits_all base [] sh \<longleftrightarrow> True"
| "fits_all base (x # xs) sh \<longleftrightarrow>
     fits x sh \<and> leaves base x \<and> keeps_whole x sh \<and> fits_all base xs (shapes (effect_of x sh))"

fun obliged_all :: "statement list \<Rightarrow> sql_db \<Rightarrow> bool" where
  "obliged_all [] db \<longleftrightarrow> True"
| "obliged_all (x # xs) db \<longleftrightarrow> obliged x db \<and> obliged_all xs (effect_of x db)"

definition shapes_after :: "statement list \<Rightarrow> sql_db \<Rightarrow> sql_db" where
  "shapes_after xs sh = fold (\<lambda>x sh. shapes (effect_of x sh)) xs sh"

lemma statements_upgrade:
  assumes "sound db" "fits_all base xs (shapes db)" "obliged_all xs db"
  shows "exec_all wipe e xs db = Some (fold effect_of xs db) \<and> sound (fold effect_of xs db) \<and>
    shapes (fold effect_of xs db) = shapes_after xs (shapes db) \<and> same_data base db (fold effect_of xs db)"
  using assms
proof (induction xs arbitrary: db)
  case (Cons x xs)
  let ?db = "effect_of x db"
  have sh: "shapes ?db = shapes (effect_of x (shapes db))" using Cons.prems(2) by (auto intro: shapes_effect)
  have step: "exec_statement wipe e x db = Some ?db \<and> sound ?db"
    using Cons.prems by (intro statement_upgrades shape_ok_effect) (simp_all add: sound_def)
  moreover have "same_data base db ?db" using Cons.prems by (intro effect_same_data) simp_all
  ultimately show ?case using Cons.IH[of ?db] Cons.prems sh same_data_trans by (auto simp: shapes_after_def)
qed (simp add: shapes_after_def)

lemma fits_all_append: "fits_all base (xs @ ys) sh \<longleftrightarrow> fits_all base xs sh \<and> fits_all base ys (shapes_after xs sh)"
  by (induction xs arbitrary: sh) (auto simp: shapes_after_def)


subsection \<open>A rebuilt table\<close>

definition swapped :: "string \<Rightarrow> sql_table \<Rightarrow> sql_db \<Rightarrow> sql_db" where
  "swapped n nt db = filter (\<lambda>t. tb_name t \<noteq> n) db @ [nt\<lparr>tb_name := n, tb_rows := map (project (tb_columns nt)) (rows_of n db)\<rparr>]"

definition no_clause :: "string \<Rightarrow> sql_db \<Rightarrow> bool" where
  "no_clause n db \<longleftrightarrow> list_all (\<lambda>t. list_all (\<lambda>k. fk_parent k \<noteq> n) (tb_foreign t)) db"

text \<open>A new table that asks no more of a row than the old one.\<close>

definition swap_fits :: "sql_db \<Rightarrow> string \<Rightarrow> sql_table \<Rightarrow> sql_db \<Rightarrow> bool" where
  "swap_fits base n nt sh \<longleftrightarrow>
     (case table_named n sh of None \<Rightarrow> False
      | Some t \<Rightarrow> tb_rows nt = [] \<and> list_all (\<lambda>c. c \<in> set (tb_columns t)) (tb_columns nt) \<and> tb_primary nt = tb_primary t \<and>
          list_all (\<lambda>c. c \<in> set (tb_required t)) (tb_required nt) \<and>
          list_all (\<lambda>(c, vs). list_ex (\<lambda>(c', ws). c' = c \<and> list_all (\<lambda>v. v \<in> set vs) ws) (tb_checks t)) (tb_checks nt) \<and>
          list_all (\<lambda>k. k \<in> set (tb_keys t)) (tb_keys nt) \<and> list_all (\<lambda>k. k \<in> set (tb_foreign t)) (tb_foreign nt)) \<and>
     list_all (\<lambda>c. c \<in> set (tb_columns nt)) (parent_columns n sh) \<and>
     (case table_named n base of None \<Rightarrow> True | Some t \<Rightarrow> list_all (\<lambda>c. holds base n c \<longrightarrow> c \<in> set (tb_columns nt)) (tb_columns t)) \<and>
     distinct (tb_columns nt) \<and> list_all (\<lambda>c. c \<in> set (tb_columns nt)) (guarded_columns nt @ tb_required nt @ map fk_column (tb_foreign nt))"

lemma rows_of_shapes [simp]: "rows_of n (shapes db) = []"
  by (simp add: rows_of_def split: option.split)

lemma shapes_swapped: "shapes (swapped n nt db) = shapes (swapped n nt (shapes db))"
  by (simp add: swapped_def shapes_def filter_map o_def shape_def)

lemma table_named_swapped:
  "table_named m (swapped n nt db) =
     (if m = n then Some (nt\<lparr>tb_name := n, tb_rows := map (project (tb_columns nt)) (rows_of n db)\<rparr>) else table_named m db)"
proof -
  have "List.find (\<lambda>t. tb_name t = m) (filter (\<lambda>t. tb_name t \<noteq> n) db) = (if m = n then None else List.find (\<lambda>t. tb_name t = m) db)" for db :: sql_db
    by (induction db) auto
  then show ?thesis by (auto simp: table_named_def swapped_def find_append split: option.split)
qed

lemma column_swapped: "m = n \<longrightarrow> c \<in> set (tb_columns nt) \<Longrightarrow> column m c (swapped n nt db) = column m c db"
  by (auto simp: column_def rows_of_def table_named_swapped cell_project)

lemma same_on_project: "same_on (set cs) rs (map (project cs) rs)"
  by (rule same_on_map) (simp add: cell_project)

lemma swapped_shape_ok:
  assumes ok: "shape_ok (shapes db)" and fits: "swap_fits base n nt (shapes db)"
  shows "shape_ok (shapes (swapped n nt db))"
proof -
  let ?nt = "nt\<lparr>tb_name := n, tb_rows := map (project (tb_columns nt)) (rows_of n db)\<rparr>"
  obtain t where t: "table_named n db = Some t" "set (tb_foreign nt) \<subseteq> set (tb_foreign t)"
    using fits by (auto simp: swap_fits_def list_all_iff subset_iff split: option.splits)
  have there: "parent_there (shapes (swapped n nt db)) k" if k: "u \<in> set db" "k \<in> set (tb_foreign u)" for u k
  proof (rule parent_there_mono)
    show "parent_there (shapes db) k" using ok k by (auto simp: shape_ok_shapes table_whole_def list_all_iff)
    have "fk_parent k = n \<longrightarrow> fk_parent_column k \<in> set (parent_columns n db)"
      using k by (auto simp: parent_columns_def)
    then have "fk_parent k = n \<longrightarrow> fk_parent_column k \<in> set (tb_columns nt)"
      using fits by (simp add: swap_fits_def list_all_iff)
    then show "table_named (fk_parent k) (shapes db) = Some p \<Longrightarrow> fk_parent_column k \<in> set (tb_columns p) \<Longrightarrow>
        \<exists>p'. table_named (fk_parent k) (shapes (swapped n nt db)) = Some p' \<and> fk_parent_column k \<in> set (tb_columns p')" for p
      by (auto simp: table_named_swapped)
  qed
  have "table_whole (shapes (swapped n nt db)) u" if "u \<in> set db" for u
    using that ok there by (auto simp: shape_ok_shapes table_whole_def list_all_iff)
  moreover have "table_whole (shapes (swapped n nt db)) ?nt"
    using fits there[of t] t table_named_Some[OF t(1)] by (auto simp: table_whole_def swap_fits_def list_all_iff guarded_columns_def)
  moreover have "distinct (map tb_name (swapped n nt db))"
    using ok by (auto simp: shape_ok_shapes swapped_def distinct_map_filter)
  ultimately show ?thesis by (auto simp: shape_ok_shapes swapped_def list_all_iff)
qed

lemma swap_sound:
  assumes s: "sound db" and fits: "swap_fits base n nt (shapes db)"
  shows "sound (swapped n nt db)" "same_data base db (swapped n nt db)"
    "rows_ok (nt\<lparr>tb_rows := map (project (tb_columns nt)) (rows_of n db)\<rparr>)"
proof -
  obtain t where t: "table_named n db = Some t"
      "set (tb_columns nt) \<subseteq> set (tb_columns t)" "tb_primary nt = tb_primary t" "set (tb_required nt) \<subseteq> set (tb_required t)"
      "\<And>c vs. (c, vs) \<in> set (tb_checks nt) \<Longrightarrow> \<exists>ws. (c, ws) \<in> set (tb_checks t) \<and> set ws \<subseteq> set vs"
      "set (tb_keys nt) \<subseteq> set (tb_keys t)" "set (tb_foreign nt) \<subseteq> set (tb_foreign t)"
    using fits by (fastforce simp: swap_fits_def list_all_iff list_ex_iff split: option.splits)
  note tn = table_named_Some[OF t(1)]
  let ?nt = "nt\<lparr>tb_name := n, tb_rows := map (project (tb_columns nt)) (rows_of n db)\<rparr>"
  have cols: "set (guarded_columns nt) \<subseteq> set (tb_columns nt)" "set (tb_required nt) \<subseteq> set (tb_columns nt)"
      "\<forall>k \<in> set (tb_foreign nt). fk_column k \<in> set (tb_columns nt)"
    using fits by (auto simp: swap_fits_def list_all_iff)
  have sh: "shape_ok (shapes (swapped n nt db))" using s fits by (intro swapped_shape_ok) (simp_all add: sound_def)
  have ts: "table_sound t" using sound_table(1)[OF s] tn by blast
  have rows: "rows_of n db = tb_rows t" using t(1) by (simp add: rows_of_def)
  have keys: "distinct (keyed_cells k (map (project (tb_columns nt)) (tb_rows t)))" if k: "k \<in> set ((tb_primary nt, None) # tb_keys nt)" for k
  proof -
    have "keyed_cells k (map (project (tb_columns nt)) (tb_rows t)) = keyed_cells k (tb_rows t)"
      by (rule same_on_keyed[OF same_on_project]) (use key_columns_guarded[OF k] cols(1) in blast)
    with ts k t(3,6) show ?thesis by (auto simp: table_sound_def rows_ok_def list_all_iff)
  qed
  have row: "row_ok nt (project (tb_columns nt) r)" if r: "r \<in> set (tb_rows t)" for r
  proof -
    have "cell r c = Null \<or> cell r c \<in> set vs" if c: "(c, vs) \<in> set (tb_checks nt)" for c vs
      using t(5)[OF c] table_sound_row(5)[OF ts r, of c] by blast
    then have "cell (project (tb_columns nt) r) c = Null \<or> cell (project (tb_columns nt) r) c \<in> set vs" if "(c, vs) \<in> set (tb_checks nt)" for c vs
      using that by (auto simp: cell_project)
    moreover have "cell (project (tb_columns nt) r) c \<noteq> Null" if "c \<in> set (tb_required nt)" for c
      using table_sound_row(3)[OF ts r, of c] t(4) cols(2) that by (auto simp: cell_project)
    ultimately show ?thesis by (auto simp: row_ok_def list_all_iff)
  qed
  have full: "full_row nt (project (tb_columns nt) r)" if r: "r \<in> set (tb_rows t)" for r
    using table_sound_row(4)[OF ts r] t(3) cols(1) by (auto simp: full_row_def list_all_iff cell_project guarded_columns_def)
  show ok: "rows_ok (nt\<lparr>tb_rows := map (project (tb_columns nt)) (rows_of n db)\<rparr>)"
    using keys row unfolding rows by (auto simp: rows_ok_def row_ok_def list_all_iff)
  have "table_sound ?nt"
    using ok full unfolding rows by (auto simp: table_sound_def rows_ok_def row_ok_def full_row_def list_all_iff)
  then have "list_all table_sound (swapped n nt db)" using s by (auto simp: swapped_def sound_def list_all_iff)
  moreover have "\<not> dangling (swapped n nt db) k r"
    if u: "u \<in> set (swapped n nt db)" and k: "k \<in> set (tb_foreign u)" and r: "r \<in> set (tb_rows u)" for u k r
  proof -
    obtain u0 r0 where u0: "u0 \<in> set db" "k \<in> set (tb_foreign u0)" "r0 \<in> set (tb_rows u0)" "cell r (fk_column k) = cell r0 (fk_column k)"
    proof (cases "u \<in> set db")
      case True
      with that k r show ?thesis by blast
    next
      case False
      with u have "u = ?nt" by (auto simp: swapped_def)
      with k r rows obtain r0 where "r0 \<in> set (tb_rows t)" "r = project (tb_columns nt) r0" "k \<in> set (tb_foreign nt)" by auto
      with that t(7) tn cols(3) show ?thesis by (auto simp: cell_project)
    qed
    then have "\<not> dangling db k r0" using s by (auto simp: sound_def no_dangling)
    moreover have "fk_parent k = n \<longrightarrow> fk_parent_column k \<in> set (tb_columns nt)"
      using sound_table(7)[OF s u0(1,2)] fits by (auto simp: swap_fits_def list_all_iff)
    ultimately show ?thesis using u0(4) by (simp add: dangling_def parent_has_def column_swapped)
  qed
  ultimately show "sound (swapped n nt db)" using sh by (auto simp: sound_def no_dangling)
  show "same_data base db (swapped n nt db)"
    unfolding same_data_def
  proof (intro allI impI column_swapped)
    show "c \<in> set (tb_columns nt)" if "holds base m c" "m = n" for m c
      using that fits by (auto simp: swap_fits_def holds_def list_all_iff split: option.splits)
  qed
qed


text \<open>The statements of a rebuild come to a swap.\<close>

lemma retarget_none: "no_clause n db \<Longrightarrow> map (retarget n m) db = db"
  by (intro map_idI) (auto simp: no_clause_def list_all_iff retarget_def intro!: sql_table.equality map_idI)

lemma retarget_back: "no_clause m [t] \<Longrightarrow> retarget m n (retarget n m t) = t"
  by (auto simp: no_clause_def list_all_iff retarget_def o_def intro!: sql_table.equality map_idI)

lemma retarget_back_all: "no_clause m db \<Longrightarrow> map (retarget m n) (map (retarget n m) db) = db"
  using retarget_back by (auto simp: no_clause_def list_all_iff intro!: map_idI)

lemma change_table_other: "n \<notin> tb_name ` set db \<Longrightarrow> change_table n f db = db"
  by (auto simp: change_table_def intro!: map_idI)

lemma change_table_append: "change_table n f (db @ db') = change_table n f db @ change_table n f db'"
  by (simp add: change_table_def)

lemma no_clause_append [simp]: "no_clause n (db @ db') \<longleftrightarrow> no_clause n db \<and> no_clause n db'"
  by (simp add: no_clause_def)

lemma no_clause_shapes [simp]: "no_clause n (shapes db) = no_clause n db"
  by (simp add: no_clause_def shapes_def list_all_iff)

lemma rows_of_append: "table_named n db \<noteq> None \<Longrightarrow> rows_of n (db @ db') = rows_of n db"
  by (auto simp: rows_of_def table_named_append)

definition unused :: "string \<Rightarrow> sql_db \<Rightarrow> bool" where
  "unused n db \<longleftrightarrow> table_named n db = None \<and> no_clause n db"

lemma unused_shapes [simp]: "unused n (shapes db) = unused n db"
  by (simp add: unused_def)

lemma filter_unused: "table_named n db = None \<Longrightarrow> filter (\<lambda>t. tb_name t \<noteq> n) db = db"
  by (auto simp: table_named_None intro!: filter_True)

lemma exec_swap:
  assumes s: "sound db" and fits: "swap_fits base n nt (shapes db)" and new: "unused (tb_name nt) db" "tb_name nt \<noteq> n" "no_clause (tb_name nt) [nt]"
  shows "exec_all wipe False [CreateTable nt, CopyRows (tb_name nt) (tb_columns nt) n, DropTable n, RenameTable (tb_name nt) n] db = Some (swapped n nt db)"
proof -
  let ?rs = "map (project (tb_columns nt)) (rows_of n db)" and ?rest = "filter (\<lambda>t. tb_name t \<noteq> n) db"
  let ?nt = "nt\<lparr>tb_rows := ?rs\<rparr>"
  have nt: "tb_rows nt = []" and n: "table_named n db \<noteq> None" using fits by (auto simp: swap_fits_def split: option.splits)
  have absent: "tb_name nt \<notin> tb_name ` set db" "table_named (tb_name nt) db = None" using new(1) by (simp_all add: unused_def flip: table_named_None)
  have create: "exec_statement wipe False (CreateTable nt) db = Some (db @ [nt])" using absent by simp
  have copied: "change_table (tb_name nt) (\<lambda>t. t\<lparr>tb_rows := tb_rows t @ ?rs\<rparr>) (db @ [nt]) = db @ [?nt]"
    using absent(1) nt by (simp add: change_table_append change_table_other) (simp add: change_table_def)
  have copy: "exec_statement wipe False (CopyRows (tb_name nt) (tb_columns nt) n) (db @ [nt]) = Some (db @ [?nt])"
    using copied n absent swap_sound(3)[OF s fits]
    by (simp add: rows_of_append table_named_append accepted_def split: option.split) (simp add: table_named_def)
  have "exec_statement wipe False (DropTable n) (db @ [?nt]) = Some (?rest @ [?nt])"
    using n new(2) by (auto simp: table_named_append split: option.split)
  moreover have "table_named n (?rest @ [?nt]) = None" "table_named (tb_name nt) (?rest @ [?nt]) \<noteq> None"
    using new(2) by (auto simp: table_named_None)
  moreover have "map (retarget (tb_name nt) n) (change_table (tb_name nt) (\<lambda>t. t\<lparr>tb_name := n\<rparr>) (?rest @ [?nt])) = swapped n nt db"
  proof -
    have "change_table (tb_name nt) (\<lambda>t. t\<lparr>tb_name := n\<rparr>) (?rest @ [?nt]) = swapped n nt db"
    proof -
      have "tb_name nt \<notin> tb_name ` set ?rest" using absent(1) by auto
      then have "change_table (tb_name nt) (\<lambda>t. t\<lparr>tb_name := n\<rparr>) ?rest = ?rest" by (rule change_table_other)
      moreover have "change_table (tb_name nt) (\<lambda>t. t\<lparr>tb_name := n\<rparr>) [?nt] = [?nt\<lparr>tb_name := n\<rparr>]" by (simp add: change_table_def)
      ultimately show ?thesis by (simp add: change_table_append swapped_def)
    qed
    moreover have "no_clause (tb_name nt) (swapped n nt db)"
      using new by (auto simp: unused_def no_clause_def swapped_def list_all_iff)
    ultimately show ?thesis using retarget_none by metis
  qed
  ultimately show ?thesis using create copy by simp
qed

lemma count_swapped: "count_of m (swapped n nt db) = count_of m db"
  by (simp add: count_of_def rows_of_def table_named_swapped)

lemma referencing_shapes [simp]: "referencing_tables n (shapes db) = referencing_tables n db"
  by (simp add: referencing_tables_def shapes_def filter_map o_def)

lemma still_named_shapes: "still_named n (shapes db) (shapes db') = still_named n db db'"
  by (simp add: still_named_def)

lemma checked_sound: "sound db \<Longrightarrow> ok \<Longrightarrow> checked ok db = Some db"
  by (simp add: checked_def sound_def)


text \<open>The accounts, whose clauses follow the old table to its temporary name and come back with the new one.\<close>

lemma retarget_name [simp]: "tb_name (retarget a b t) = tb_name t" "tb_rows (retarget a b t) = tb_rows t"
  by (simp_all add: retarget_def)

lemma table_named_map_retarget: "table_named n (map (retarget a b) db) = map_option (retarget a b) (table_named n db)"
  by (induction db) (auto simp: table_named_def)

lemma renamed_away:
  assumes "other \<notin> tb_name ` set db"
  shows "table_named other (change_table n (\<lambda>t. t\<lparr>tb_name := other\<rparr>) db) = map_option (\<lambda>t. t\<lparr>tb_name := other\<rparr>) (table_named n db)"
    "filter (\<lambda>t. tb_name t \<noteq> other) (change_table n (\<lambda>t. t\<lparr>tb_name := other\<rparr>) db) = filter (\<lambda>t. tb_name t \<noteq> n) db"
    "m \<noteq> other \<Longrightarrow> m \<notin> tb_name ` set db \<Longrightarrow> m \<notin> tb_name ` set (change_table n (\<lambda>t. t\<lparr>tb_name := other\<rparr>) db)"
  using assms by (induction db) (auto simp: table_named_def change_table_def)

lemma filter_name_retarget: "filter (\<lambda>t. tb_name t \<noteq> n) (map (retarget a b) db) = map (retarget a b) (filter (\<lambda>t. tb_name t \<noteq> n) db)"
  by (simp add: filter_map o_def)

lemma change_last:
  assumes "n \<notin> tb_name ` set db" "tb_name t = n"
  shows "change_table n f (db @ [t]) = db @ [f t]"
  using assms by (simp add: change_table_append change_table_other) (simp add: change_table_def)

lemma table_named_last: "n \<notin> tb_name ` set db \<Longrightarrow> tb_name t = n \<Longrightarrow> table_named n (db @ [t]) = Some t"
  using table_named_None[of n db] by (simp add: table_named_append) (simp add: table_named_def)

lemma exec_swap_renaming:
  assumes s: "sound db" and fits: "swap_fits base n (nt\<lparr>tb_keys := tb_keys nt @ [k]\<rparr>) (shapes db)"
    and new: "unused (tb_name nt) db" "unused old db" "no_clause (tb_name nt) [nt]" "no_clause old [nt]" and names: "distinct [n, old, tb_name nt]"
  shows "exec_all wipe False
       [RenameTable n old, CreateTable nt, CopyRows (tb_name nt) (tb_columns nt) old, DropTable old, RenameTable (tb_name nt) old, RenameTable old n,
        CreateUniqueIndex n k] db = Some (swapped n (nt\<lparr>tb_keys := tb_keys nt @ [k]\<rparr>) db)"
proof -
  let ?rs = "map (project (tb_columns nt)) (rows_of n db)" and ?rest = "filter (\<lambda>t. tb_name t \<noteq> n) db" and ?N = "tb_name nt"
  let ?away = "map (retarget n old)" and ?nt = "nt\<lparr>tb_rows := ?rs\<rparr>"
  let ?db1 = "?away (change_table n (\<lambda>t. t\<lparr>tb_name := old\<rparr>) db)"
  obtain t where t: "table_named n db = Some t" and empty: "tb_rows nt = []" using fits by (auto simp: swap_fits_def split: option.splits)
  have absent: "old \<notin> tb_name ` set db" "?N \<notin> tb_name ` set db" and clauses: "no_clause old db" "no_clause ?N db"
    using new by (simp_all add: unused_def flip: table_named_None)
  have ok: "rows_ok (nt\<lparr>tb_keys := tb_keys nt @ [k], tb_rows := ?rs\<rparr>)" using swap_sound(3)[OF s fits] by simp
  then have ok': "rows_ok ?nt" by (auto simp: rows_ok_def row_ok_def list_all_iff)
  have e1: "exec_statement wipe False (RenameTable n old) db = Some ?db1" using t new by (simp add: unused_def)
  have n1: "?N \<notin> tb_name ` set ?db1" using renamed_away(3)[OF absent(1), of ?N n] absent(2) names by (auto simp: image_image)
  have old1: "table_named old ?db1 \<noteq> None" "rows_of old ?db1 = rows_of n db"
    using t renamed_away(1)[OF absent(1), of n] by (simp_all add: table_named_map_retarget rows_of_def)
  have e2: "exec_statement wipe False (CreateTable nt) ?db1 = Some (?db1 @ [nt])" using n1 by (simp add: table_named_None[THEN iffD2])
  have e3: "exec_statement wipe False (CopyRows ?N (tb_columns nt) old) (?db1 @ [nt]) = Some (?db1 @ [?nt])"
    using change_last[OF n1 refl, where f = "\<lambda>t. t\<lparr>tb_rows := tb_rows t @ ?rs\<rparr>"] old1 empty ok' table_named_last[OF n1, of ?nt]
    by (simp add: rows_of_append accepted_def) (auto simp: table_named_append split: option.split)
  have rest: "filter (\<lambda>t. tb_name t \<noteq> old) ?db1 = ?away ?rest" by (simp add: filter_name_retarget renamed_away(2)[OF absent(1)])
  have e4: "exec_statement wipe False (DropTable old) (?db1 @ [?nt]) = Some (?away ?rest @ [?nt])"
    using old1(1) rest names by (auto simp: table_named_append split: option.split)
  have nr: "?N \<notin> tb_name ` set (?away ?rest)" "old \<notin> tb_name ` set (?away ?rest)" "n \<notin> tb_name ` set (?away ?rest)"
    using absent by (auto simp: image_image)
  have "no_clause ?N (?away ?rest @ [?nt\<lparr>tb_name := old\<rparr>])"
    using clauses(2) new(3) names by (auto simp: no_clause_def list_all_iff retarget_def)
  then have e5: "exec_statement wipe False (RenameTable ?N old) (?away ?rest @ [?nt]) = Some (?away ?rest @ [?nt\<lparr>tb_name := old\<rparr>])"
    using change_last[OF nr(1), of ?nt "\<lambda>t. t\<lparr>tb_name := old\<rparr>"] nr names retarget_none[of ?N "?away ?rest @ [?nt\<lparr>tb_name := old\<rparr>]" old]
      table_named_last[OF nr(1), of ?nt] table_named_None[of old "?away ?rest @ [?nt]"]
    by auto
  have "retarget old n (?nt\<lparr>tb_name := n\<rparr>) = ?nt\<lparr>tb_name := n\<rparr>"
    using new(4) retarget_none[of old "[?nt\<lparr>tb_name := n\<rparr>]" n] by (simp add: no_clause_def)
  moreover have "map (retarget old n) (?away ?rest) = ?rest"
    using clauses(1) by (intro retarget_back_all) (auto simp: no_clause_def list_all_iff)
  ultimately have e6: "exec_statement wipe False (RenameTable old n) (?away ?rest @ [?nt\<lparr>tb_name := old\<rparr>]) = Some (?rest @ [?nt\<lparr>tb_name := n\<rparr>])"
    using change_last[OF nr(2), of "?nt\<lparr>tb_name := old\<rparr>" "\<lambda>t. t\<lparr>tb_name := n\<rparr>"] nr names
      table_named_last[OF nr(2), of "?nt\<lparr>tb_name := old\<rparr>"] table_named_None[of n "?away ?rest @ [?nt\<lparr>tb_name := old\<rparr>]"]
    by auto
  have nn: "n \<notin> tb_name ` set ?rest" by auto
  have "row_ok (?nt\<lparr>tb_name := n, tb_keys := tb_keys nt @ [k]\<rparr>) = row_ok (nt\<lparr>tb_keys := tb_keys nt @ [k], tb_rows := ?rs\<rparr>)"
    by (simp add: fun_eq_iff row_ok_def)
  then have "rows_ok (?nt\<lparr>tb_name := n, tb_keys := tb_keys nt @ [k]\<rparr>)" using ok by (simp add: rows_ok_def)
  then have e7: "exec_statement wipe False (CreateUniqueIndex n k) (?rest @ [?nt\<lparr>tb_name := n\<rparr>]) =
      Some (swapped n (nt\<lparr>tb_keys := tb_keys nt @ [k]\<rparr>) db)"
    using change_last[OF nn, of "?nt\<lparr>tb_name := n\<rparr>" "\<lambda>t. t\<lparr>tb_keys := tb_keys t @ [k]\<rparr>"]
      table_named_last[OF nn, of "?nt\<lparr>tb_name := n, tb_keys := tb_keys nt @ [k]\<rparr>"]
    by (simp add: accepted_def swapped_def)
  show ?thesis using e1 e2 e3 e4 e5 e6 e7 by simp
qed


subsection \<open>The rebuilding migrations\<close>

text \<open>A rebuild by swaps of one or two tables, with what the checks at its end look at.\<close>

definition rebuilt :: "sql_db \<Rightarrow> string \<Rightarrow> sql_table \<Rightarrow> sql_db \<Rightarrow> bool" where
  "rebuilt base n nt sh \<longleftrightarrow> swap_fits base n nt sh \<and> still_named n sh (shapes (swapped n nt sh))"

lemma rebuilt_sound:
  assumes "sound db" "rebuilt base n nt (shapes db)"
  shows "sound (swapped n nt db)" "same_data base db (swapped n nt db)" "still_named n db (swapped n nt db)"
    "shapes (swapped n nt db) = shapes (swapped n nt (shapes db))"
  using swap_sound[OF assms(1)] assms(2) still_named_shapes[of n db "swapped n nt db"] shapes_swapped[of n nt db]
  by (auto simp: rebuilt_def)

lemma checked_swapped:
  assumes "sound db" "rebuilt base n nt (shapes db)" "ok"
  shows "checked ok (swapped n nt db) = Some (swapped n nt db)"
  using rebuilt_sound(1)[OF assms(1,2)] assms(3) by (rule checked_sound)

definition accounts_rebuilt :: sql_table where
  "accounts_rebuilt = accounts_s16_new\<lparr>tb_keys := tb_keys accounts_s16_new @ [unique [''join_token_hash'']]\<rparr>"

lemmas new_tables =
  accounts_s16_new_def account_identities_s30_new_def check_rounds_s42_new_def devices_s50_new_def cancel_answers_s50_new_def
  new_table_def references_def no_clause_def

lemma rebuild_accounts_swaps:
  assumes "sound db" "rebuilt base ''accounts'' accounts_rebuilt (shapes db)" "unused ''accounts_s16_new'' db" "unused ''accounts_s16_old'' db"
  shows "rebuild_accounts (exec_all wipe False) db = Some (swapped ''accounts'' accounts_rebuilt db)"
proof -
  have "exec_all wipe False
       [RenameTable ''accounts'' ''accounts_s16_old'', CreateTable accounts_s16_new, CopyRows (tb_name accounts_s16_new) (tb_columns accounts_s16_new) ''accounts_s16_old'',
        DropTable ''accounts_s16_old'', RenameTable (tb_name accounts_s16_new) ''accounts_s16_old'', RenameTable ''accounts_s16_old'' ''accounts'',
        CreateUniqueIndex ''accounts'' (unique [''join_token_hash''])] db = Some (swapped ''accounts'' accounts_rebuilt db)"
    unfolding accounts_rebuilt_def
    by (rule exec_swap_renaming[OF assms(1), where base = base]) (use assms in \<open>simp_all add: rebuilt_def accounts_rebuilt_def new_tables\<close>)
  moreover have "tb_name accounts_s16_new = ''accounts_s16_new''" "tb_columns accounts_s16_new = account_columns"
    by (simp_all add: new_tables account_columns_def)
  ultimately show ?thesis
    using checked_swapped[OF assms(1,2)] rebuilt_sound(3)[OF assms(1,2)] by (simp add: rebuild_accounts_def)
qed

lemma rebuild_identities_swaps:
  assumes "sound db" "rebuilt base ''account_identities'' account_identities_s30_new (shapes db)" "unused ''account_identities_s30_new'' db"
  shows "rebuild_identities (exec_all wipe False) db = Some (swapped ''account_identities'' account_identities_s30_new db)"
proof -
  have "tb_name account_identities_s30_new = ''account_identities_s30_new''" by (simp add: new_tables)
  moreover from this have "exec_all wipe False [CreateTable account_identities_s30_new,
      CopyRows (tb_name account_identities_s30_new) (tb_columns account_identities_s30_new) ''account_identities'',
      DropTable ''account_identities'', RenameTable (tb_name account_identities_s30_new) ''account_identities''] db =
      Some (swapped ''account_identities'' account_identities_s30_new db)"
    by (intro exec_swap[OF assms(1), where base = base]) (use assms in \<open>simp_all add: rebuilt_def new_tables\<close>)
  ultimately show ?thesis
    using checked_swapped[OF assms(1,2)] by (simp add: rebuild_identities_def count_swapped table_named_swapped new_tables)
qed

lemma rebuild_check_rounds_swaps:
  assumes "sound db" "rebuilt base ''check_rounds'' check_rounds_s42_new (shapes db)" "unused ''check_rounds_s42_new'' db"
  shows "rebuild_check_rounds (exec_all wipe False) db = Some (swapped ''check_rounds'' check_rounds_s42_new db)"
proof -
  have "tb_name check_rounds_s42_new = ''check_rounds_s42_new''" by (simp add: new_tables)
  moreover from this have "exec_all wipe False [CreateTable check_rounds_s42_new,
      CopyRows (tb_name check_rounds_s42_new) (tb_columns check_rounds_s42_new) ''check_rounds'',
      DropTable ''check_rounds'', RenameTable (tb_name check_rounds_s42_new) ''check_rounds''] db =
      Some (swapped ''check_rounds'' check_rounds_s42_new db)"
    by (intro exec_swap[OF assms(1), where base = base]) (use assms in \<open>simp_all add: rebuilt_def new_tables\<close>)
  ultimately show ?thesis
    using checked_swapped[OF assms(1,2)] rebuilt_sound(3)[OF assms(1,2)] by (simp add: rebuild_check_rounds_def count_swapped)
qed

lemma exec_all_append: "exec_all wipe e (xs @ ys) db = Option.bind (exec_all wipe e xs db) (exec_all wipe e ys)"
proof (induction xs arbitrary: db)
  case (Cons x xs)
  then show ?case by (cases "exec_statement wipe e x db") simp_all
qed simp

lemma rebuild_platforms_swaps:
  assumes s: "sound db" and d: "rebuilt base ''devices'' devices_s50_new (shapes db)" "unused ''devices_s50_new'' db"
    and c: "rebuilt base ''cancel_answers'' cancel_answers_s50_new (shapes (swapped ''devices'' devices_s50_new (shapes db)))"
      "unused ''cancel_answers_s50_new'' (shapes (swapped ''devices'' devices_s50_new (shapes db)))"
    and still: "still_named ''devices'' (shapes db)
      (shapes (swapped ''cancel_answers'' cancel_answers_s50_new (shapes (swapped ''devices'' devices_s50_new (shapes db)))))"
  shows "rebuild_platforms (exec_all wipe False) db =
      Some (swapped ''cancel_answers'' cancel_answers_s50_new (swapped ''devices'' devices_s50_new db))"
    "sound (swapped ''cancel_answers'' cancel_answers_s50_new (swapped ''devices'' devices_s50_new db))"
    "same_data base db (swapped ''cancel_answers'' cancel_answers_s50_new (swapped ''devices'' devices_s50_new db))"
proof -
  let ?d = "swapped ''devices'' devices_s50_new db" and ?c = "swapped ''cancel_answers'' cancel_answers_s50_new (swapped ''devices'' devices_s50_new db)"
  have sh: "shapes (swapped ''devices'' devices_s50_new (shapes db)) = shapes ?d" by (rule shapes_swapped[symmetric])
  note ds = rebuilt_sound[OF s d(1)] and cs = rebuilt_sound[OF rebuilt_sound(1)[OF s d(1)] c(1)[unfolded sh]]
  have names: "tb_name devices_s50_new = ''devices_s50_new''" "tb_name cancel_answers_s50_new = ''cancel_answers_s50_new''" by (simp_all add: new_tables)
  have first: "exec_all wipe False [CreateTable devices_s50_new, CopyRows (tb_name devices_s50_new) (tb_columns devices_s50_new) ''devices'',
      DropTable ''devices'', RenameTable (tb_name devices_s50_new) ''devices''] db = Some ?d"
    by (intro exec_swap[OF s, where base = base]) (use d in \<open>simp_all add: rebuilt_def new_tables\<close>)
  have second: "exec_all wipe False [CreateTable cancel_answers_s50_new,
      CopyRows (tb_name cancel_answers_s50_new) (tb_columns cancel_answers_s50_new) ''cancel_answers'',
      DropTable ''cancel_answers'', RenameTable (tb_name cancel_answers_s50_new) ''cancel_answers''] ?d = Some ?c"
    by (intro exec_swap[OF ds(1), where base = base]) (use c[unfolded sh] in \<open>simp_all add: rebuilt_def new_tables\<close>)
  have run: "exec_all wipe False [CreateTable devices_s50_new, CopyRows ''devices_s50_new'' (tb_columns devices_s50_new) ''devices'',
        DropTable ''devices'', RenameTable ''devices_s50_new'' ''devices'',
        CreateTable cancel_answers_s50_new, CopyRows ''cancel_answers_s50_new'' (tb_columns cancel_answers_s50_new) ''cancel_answers'',
        DropTable ''cancel_answers'', RenameTable ''cancel_answers_s50_new'' ''cancel_answers''] db = Some ?c"
    using exec_all_append[of wipe False "[CreateTable devices_s50_new, CopyRows ''devices_s50_new'' (tb_columns devices_s50_new) ''devices'',
        DropTable ''devices'', RenameTable ''devices_s50_new'' ''devices'']" "[CreateTable cancel_answers_s50_new,
      CopyRows ''cancel_answers_s50_new'' (tb_columns cancel_answers_s50_new) ''cancel_answers'',
      DropTable ''cancel_answers'', RenameTable ''cancel_answers_s50_new'' ''cancel_answers'']" db]
    unfolding first[unfolded names] append.simps Option.bind.simps second[unfolded names] .
  have "still_named ''devices'' db ?c"
    using still still_named_shapes[of "''devices''" db ?c] shapes_swapped[of "''cancel_answers''" cancel_answers_s50_new ?d] sh by simp
  then show "rebuild_platforms (exec_all wipe False) db = Some ?c"
    using checked_sound[OF cs(1)] unfolding rebuild_platforms_def run by (simp add: count_swapped list_all_iff)
  show "sound ?c" by (rule cs(1))
  show "same_data base db ?c" using ds(2) cs(2) by (rule same_data_trans)
qed


subsection \<open>What the migrations that fill something in need\<close>

definition requires :: "string \<Rightarrow> string \<Rightarrow> sql_db \<Rightarrow> bool" where
  "requires n c sh \<longleftrightarrow> (case table_named n sh of None \<Rightarrow> False | Some t \<Rightarrow> c \<in> set (tb_required t))"

definition identified :: "string \<Rightarrow> sql_db \<Rightarrow> bool" where
  "identified n sh \<longleftrightarrow> (case table_named n sh of None \<Rightarrow> False | Some t \<Rightarrow> tb_primary t = [''id''])"

definition points :: "string \<Rightarrow> string \<Rightarrow> string \<Rightarrow> sql_db \<Rightarrow> bool" where
  "points n c p sh \<longleftrightarrow>
     (case table_named n sh of None \<Rightarrow> False
      | Some t \<Rightarrow> list_ex (\<lambda>k. fk_column k = c \<and> fk_parent k = p \<and> fk_parent_column k = ''id'') (tb_foreign t))"

lemma requires_cell:
  assumes "sound db" "requires n c (shapes db)" "r \<in> set (rows_of n db)"
  shows "cell r c \<noteq> Null"
proof -
  obtain t where t: "table_named n db = Some t" "c \<in> set (tb_required t)" using assms(2) by (auto simp: requires_def split: option.splits)
  with assms(3) show ?thesis using table_sound_row(3)[OF sound_table(1)[OF assms(1)]] table_named_Some[OF t(1)] by (auto simp: rows_of_def)
qed

lemma identified_cells:
  assumes "sound db" "identified n (shapes db)"
  shows "r \<in> set (rows_of n db) \<Longrightarrow> cell r ''id'' \<noteq> Null" "distinct (map (\<lambda>r. cell r ''id'') (rows_of n db))"
proof -
  obtain t where t: "table_named n db = Some t" "tb_primary t = [''id'']" using assms(2) by (auto simp: identified_def split: option.splits)
  have ts: "table_sound t" using sound_table(1)[OF assms(1)] table_named_Some[OF t(1)] by blast
  have rows: "rows_of n db = tb_rows t" using t(1) by (simp add: rows_of_def)
  have no_null: "cell r ''id'' \<noteq> Null" if "r \<in> set (tb_rows t)" for r using table_sound_row(4)[OF ts that] t(2) by simp
  then show "r \<in> set (rows_of n db) \<Longrightarrow> cell r ''id'' \<noteq> Null" by (simp add: rows)
  have "keyed_cells ([''id''], None) (tb_rows t) = map (\<lambda>r. [cell r ''id'']) (tb_rows t)"
    using no_null no_null[THEN not_sym] by (auto simp: keyed_cells_def intro!: filter_True)
  moreover have "distinct (keyed_cells ([''id''], None) (tb_rows t))" using ts t(2) by (simp add: table_sound_def rows_ok_def)
  ultimately show "distinct (map (\<lambda>r. cell r ''id'') (rows_of n db))" by (simp add: rows distinct_map inj_on_def)
qed

lemma looked_up_there:
  assumes s: "sound db" and p: "points n c p (shapes db)" and req: "requires n c (shapes db)" "requires p x (shapes db)" and r: "r \<in> set (rows_of n db)"
  shows "looked_up p x (cell r c) db \<noteq> Null"
proof -
  obtain t k where t: "table_named n db = Some t" "k \<in> set (tb_foreign t)" "fk_column k = c" "fk_parent k = p" "fk_parent_column k = ''id''"
    using p by (auto simp: points_def list_ex_iff split: option.splits)
  have c: "cell r c \<noteq> Null" by (rule requires_cell[OF s req(1) r])
  have "\<not> dangling db k r" using s table_named_Some[OF t(1)] t(1,2) r by (auto simp: sound_def no_dangling rows_of_def)
  with c t have "cell r c \<in> set (column p ''id'' db)" by (simp add: dangling_def parent_has_def)
  then obtain u where u: "List.find (\<lambda>u. cell u ''id'' = cell r c \<and> cell r c \<noteq> Null) (rows_of p db) = Some u"
    using c by (cases "List.find (\<lambda>u. cell u ''id'' = cell r c \<and> cell r c \<noteq> Null) (rows_of p db)") (auto simp: column_def find_None_iff)
  then have "u \<in> set (rows_of p db)" by (auto simp: find_Some_iff)
  with requires_cell[OF s req(2)] show ?thesis unfolding looked_up_def u by simp
qed

lemma added_column:
  assumes "table_named n db = Some t" "table_sound t" "c \<notin> set (tb_columns t)" "r \<in> set (rows_of n (effect_of (AddColumn n c required ks v) db))"
  shows "cell r c = v \<and> c \<in> fst ` set r"
proof -
  obtain r0 where "r0 \<in> set (tb_rows t)" "r = r0 @ [(c, v)]" using assms(1,4) by (auto simp: rows_of_def table_named_change)
  with table_sound_row(2)[OF assms(2)] assms(3) show ?thesis by (simp add: cell_append)
qed

lemma fits_add:
  assumes "sound db" "fits (AddColumn n c required ks v) (shapes db)"
  obtains t where "table_named n db = Some t" "table_sound t" "c \<notin> set (tb_columns t)"
  using assms sound_table(1)[OF assms(1)] table_named_Some by (fastforce split: option.splits)

lemma after_statement:
  assumes "sound db" "fits x (shapes db)" "keeps_whole x (shapes db)" "obliged x db"
  shows "sound (effect_of x db)" "shapes (effect_of x db) = shapes (effect_of x (shapes db))"
  using statement_upgrades[OF assms(1,2,4)] shape_ok_effect[OF _ assms(2,3)] assms(1) shapes_effect[OF assms(2)] by (auto simp: sound_def)

text \<open>A column that is added and filled in at once.\<close>

lemma obliged_fill:
  assumes s: "sound db" and fits: "fits_all base (AddColumn n c required ks v # UpdateColumn n c f # xs) (shapes db)"
    and filled: "\<And>db1 i r. sound db1 \<Longrightarrow> shapes db1 = shapes (effect_of (AddColumn n c required ks v) (shapes db)) \<Longrightarrow> r \<in> set (rows_of n db1) \<Longrightarrow> f db1 i r \<noteq> Null"
  shows "obliged (UpdateColumn n c f) (effect_of (AddColumn n c required ks v) db)"
proof -
  have "sound (effect_of (AddColumn n c required ks v) db)" "shapes (effect_of (AddColumn n c required ks v) db) = shapes (effect_of (AddColumn n c required ks v) (shapes db))"
    using fits by (intro after_statement[OF s]; simp)+
  from filled[OF this] show ?thesis by (auto simp: rows_of_def)
qed

lemma obliged_new_index:
  assumes s: "sound db" and fits: "fits (AddColumn n c False ks Null) (shapes db)"
  shows "obliged (CreateUniqueIndex n (unique [c])) (effect_of (AddColumn n c False ks Null) db)"
proof -
  obtain t where t: "table_named n db = Some t" "table_sound t" "c \<notin> set (tb_columns t)" using fits_add[OF s fits] by metis
  then have "keyed_cells (unique [c]) (rows_of n (effect_of (AddColumn n c False ks Null) db)) = []"
    using added_column[OF t] by (auto simp: keyed_cells_def unique_def filter_empty_conv simp del: effect_of.simps)
  then show ?thesis by simp
qed


fun static :: "statement \<Rightarrow> bool" where
  "static (CreateTable t) \<longleftrightarrow> True"
| "static (AddColumn n c required ks v) \<longleftrightarrow> True"
| "static (DropColumn n c) \<longleftrightarrow> True"
| "static _ \<longleftrightarrow> False"

lemma static_obliged: "list_all static xs \<Longrightarrow> obliged_all xs db"
proof (induction xs arbitrary: db)
  case (Cons y ys db)
  then show ?case by (cases y) simp_all
qed simp

lemma obliged_all_append: "obliged_all (xs @ ys) db \<longleftrightarrow> obliged_all xs db \<and> obliged_all ys (fold effect_of xs db)"
  by (induction xs arbitrary: db) auto

text \<open>Rows that go into a table that is still empty.\<close>

lemma insertable_empty:
  assumes "table_named n db = Some t" "tb_rows t = []" "tb_keys t = []" "tb_foreign t = [k]"
    and "\<And>r. r \<in> set rs \<Longrightarrow> row_ok t r \<and> full_row t r \<and> \<not> dangling db k r" "distinct (map (\<lambda>r. map (cell r) (tb_primary t)) rs)"
  shows "insertable db t rs"
proof -
  have "row_ok (t\<lparr>tb_rows := rs\<rparr>) = row_ok t" "full_row (t\<lparr>tb_rows := rs\<rparr>) = full_row t" by (simp_all add: fun_eq_iff row_ok_def full_row_def)
  with assms show ?thesis
    by (auto simp: insertable_def table_sound_def rows_ok_def list_all_iff keyed_cells_def intro: distinct_filter)
qed

lemma parent_id: "r \<in> set (rows_of n db) \<Longrightarrow> parent_has db (references c n a) (cell r ''id'')"
  by (auto simp: parent_has_def references_def column_def)

lemma obliged_alarm_tokens:
  assumes s: "sound db" and new: "fits (CreateTable device_tokens_4) (shapes db)"
    and dev: "identified ''devices'' (shapes db)" "requires ''devices'' ''last_seen'' (shapes db)"
  shows "obliged (InsertRows ''device_tokens'' alarm_tokens) (db @ [device_tokens_4])"
proof -
  let ?db = "db @ [device_tokens_4]"
  let ?rs = "filter (\<lambda>r. cell r ''push_token'' \<notin> {Null, Txt []}) (rows_of ''devices'' db)"
  have name: "tb_name device_tokens_4 = ''device_tokens''" by (simp add: device_tokens_4_def new_table_def)
  have t: "table_named ''device_tokens'' ?db = Some device_tokens_4" using new name by (simp add: table_named_append) (simp add: table_named_def name)
  have "table_named ''devices'' db \<noteq> None" using dev by (auto simp: identified_def split: option.splits)
  then have rows: "rows_of ''devices'' ?db = rows_of ''devices'' db" by (rule rows_of_append)
  have "insertable ?db device_tokens_4 (alarm_tokens ?db)"
  proof (rule insertable_empty[OF t])
    show "tb_foreign device_tokens_4 = [references ''device_id'' ''devices'' Cascades]" by (simp add: device_tokens_4_def new_table_def)
    show "row_ok device_tokens_4 x \<and> full_row device_tokens_4 x \<and> \<not> dangling ?db (references ''device_id'' ''devices'' Cascades) x"
      if x: "x \<in> set (alarm_tokens ?db)" for x
    proof -
      obtain r where r: "r \<in> set (rows_of ''devices'' db)" "cell r ''push_token'' \<noteq> Null"
        and eq: "x = [(''device_id'', cell r ''id''), (''kind'', if cell r ''platform'' = Txt ''ios'' then Txt ''apns'' else Txt ''fcm''),
               (''activity_id'', Txt []), (''incident_id'', Null), (''token'', cell r ''push_token''), (''updated_at'', cell r ''last_seen'')]"
        using x unfolding alarm_tokens_def rows by auto
      have c: "cell x ''device_id'' = cell r ''id''" by (simp add: eq cell_def)
      have "\<not> dangling ?db (references ''device_id'' ''devices'' Cascades) x"
        using parent_id[of r "''devices''" ?db] r(1) rows c by (simp add: dangling_def references_def)
      moreover have "row_ok device_tokens_4 x \<and> full_row device_tokens_4 x"
        using r(2) identified_cells(1)[OF s dev(1) r(1)] requires_cell[OF s dev(2) r(1)]
        by (simp add: row_ok_def full_row_def device_tokens_4_def new_table_def eq cell_def)
      ultimately show ?thesis by blast
    qed
    have "map hd (map (\<lambda>x. map (cell x) (tb_primary device_tokens_4)) (alarm_tokens ?db)) = map (\<lambda>r. cell r ''id'') ?rs"
      unfolding alarm_tokens_def rows by (simp add: device_tokens_4_def new_table_def o_def) (simp add: cell_def)
    moreover have "distinct (map (\<lambda>r. cell r ''id'') ?rs)" using identified_cells(2)[OF s dev(1)] by (rule distinct_map_filter)
    ultimately show "distinct (map (\<lambda>x. map (cell x) (tb_primary device_tokens_4)) (alarm_tokens ?db))" by (metis distinct_map)
  qed (simp_all add: device_tokens_4_def new_table_def)
  with t show ?thesis by simp
qed

definition account_rows_ok :: "sql_db \<Rightarrow> bool" where
  "account_rows_ok sh \<longleftrightarrow> identified ''accounts'' sh \<and> requires ''accounts'' ''created_at'' sh \<and> requires ''accounts'' ''tier'' sh \<and>
     (case table_named ''accounts'' sh of None \<Rightarrow> False
      | Some t \<Rightarrow> unique [''rc_app_user_id''] \<in> set (tb_keys t) \<and> (''tier'', map Txt [''free'', ''relay'', ''hosted'']) \<in> set (tb_checks t))"

lemma obliged_billing_ids:
  assumes s: "sound db" and t: "table_named ''account_billing_ids'' db = Some account_billing_ids_11" and acc: "account_rows_ok (shapes db)"
  shows "obliged (InsertRows ''account_billing_ids'' billing_ids_of_accounts) db"
proof -
  let ?rs = "filter (\<lambda>r. cell r ''rc_app_user_id'' \<noteq> Null) (rows_of ''accounts'' db)"
  obtain a where a: "table_named ''accounts'' db = Some a" "unique [''rc_app_user_id''] \<in> set (tb_keys a)"
      "(''tier'', map Txt [''free'', ''relay'', ''hosted'']) \<in> set (tb_checks a)"
    using acc by (auto simp: account_rows_ok_def split: option.splits)
  note as = sound_table(1)[OF s, of a]
  have rows: "rows_of ''accounts'' db = tb_rows a" using a(1) by (simp add: rows_of_def)
  have req: "identified ''accounts'' (shapes db)" "requires ''accounts'' ''created_at'' (shapes db)" "requires ''accounts'' ''tier'' (shapes db)"
    using acc by (simp_all add: account_rows_ok_def)
  have "insertable db account_billing_ids_11 (billing_ids_of_accounts db)"
  proof (rule insertable_empty[OF t])
    show "tb_foreign account_billing_ids_11 = [references ''account_id'' ''accounts'' Cascades]" by (simp add: account_billing_ids_11_def new_table_def)
    show "row_ok account_billing_ids_11 x \<and> full_row account_billing_ids_11 x \<and> \<not> dangling db (references ''account_id'' ''accounts'' Cascades) x"
      if x: "x \<in> set (billing_ids_of_accounts db)" for x
    proof -
      obtain r where r: "r \<in> set (rows_of ''accounts'' db)" "cell r ''rc_app_user_id'' \<noteq> Null"
        and eq: "x = [(''app_user_id'', cell r ''rc_app_user_id''), (''account_id'', cell r ''id''), (''linked_at'', cell r ''created_at''),
               (''last_event_at'', Null), (''entitled_tier'', cell r ''tier'')]"
        using x unfolding billing_ids_of_accounts_def by auto
      have c: "cell x ''account_id'' = cell r ''id''" by (simp add: eq cell_def)
      have "\<not> dangling db (references ''account_id'' ''accounts'' Cascades) x"
        using parent_id[OF r(1)] c by (simp add: dangling_def references_def)
      moreover have "cell r ''tier'' \<in> set (map Txt [''free'', ''relay'', ''hosted''])"
        using table_sound_row(5)[OF as _ a(3), of r] r(1) rows table_named_Some[OF a(1)] requires_cell[OF s req(3) r(1)] by auto
      then have "row_ok account_billing_ids_11 x \<and> full_row account_billing_ids_11 x"
        using r(2) identified_cells(1)[OF s req(1) r(1)] requires_cell[OF s req(2) r(1)] requires_cell[OF s req(3) r(1)]
        by (simp add: row_ok_def full_row_def account_billing_ids_11_def new_table_def eq cell_def)
      ultimately show ?thesis by blast
    qed
    have "keyed_cells (unique [''rc_app_user_id'']) (tb_rows a) = map (\<lambda>r. [cell r ''rc_app_user_id'']) ?rs"
      by (simp add: keyed_cells_def unique_def rows filter_map o_def)
        (metis (no_types, lifting))
    moreover have "distinct (keyed_cells (unique [''rc_app_user_id'']) (tb_rows a))"
      using as table_named_Some[OF a(1)] a(2) by (auto simp: table_sound_def rows_ok_def list_all_iff)
    ultimately have "distinct (map (\<lambda>r. [cell r ''rc_app_user_id'']) ?rs)" by simp
    then show "distinct (map (\<lambda>x. map (cell x) (tb_primary account_billing_ids_11)) (billing_ids_of_accounts db))"
      by (simp add: billing_ids_of_accounts_def account_billing_ids_11_def new_table_def o_def cell_def)
  qed (simp_all add: account_billing_ids_11_def new_table_def)
  with t show ?thesis by simp
qed


subsection \<open>All migrations\<close>

text \<open>What a migration needs of the shape it meets, by its place in the list, and the shape it leaves.\<close>

definition needs :: "nat \<Rightarrow> sql_db \<Rightarrow> bool" where
  "needs i sh =
     (if i = 1 then
        (let sh' = shapes (effect_of (AddColumn ''incidents'' ''max_ring_s'' True [] (Num 0)) sh)
         in points ''incidents'' ''topic_id'' ''topics'' sh' \<and> requires ''incidents'' ''topic_id'' sh' \<and> requires ''incidents'' ''max_ring_s'' sh' \<and>
            requires ''topics'' ''max_ring_s'' sh')
      else if i = 3 then identified ''devices'' sh \<and> requires ''devices'' ''last_seen'' sh
      else if i = 10 then
        account_rows_ok (sh @ [account_billing_ids_11, billing_events_11, tier_changes_11, account_merges_11])
      else if i = 12 then rebuilt sh ''accounts'' accounts_rebuilt sh \<and> unused ''accounts_s16_new'' sh \<and> unused ''accounts_s16_old'' sh
      else if i = 14 then rebuilt sh ''account_identities'' account_identities_s30_new sh \<and> unused ''account_identities_s30_new'' sh
      else if i = 17 then requires ''incidents'' ''opened_at'' (shapes (effect_of (AddColumn ''incidents'' ''updated_at'' True [] (Num 0)) sh))
      else if i = 20 then rebuilt sh ''check_rounds'' check_rounds_s42_new sh \<and> unused ''check_rounds_s42_new'' sh
      else if i = 24 then
        (let sh' = shapes (swapped ''devices'' devices_s50_new sh)
         in rebuilt sh ''devices'' devices_s50_new sh \<and> unused ''devices_s50_new'' sh \<and>
            rebuilt sh ''cancel_answers'' cancel_answers_s50_new sh' \<and> unused ''cancel_answers_s50_new'' sh' \<and>
            still_named ''devices'' sh (shapes (swapped ''cancel_answers'' cancel_answers_s50_new sh')))
      else True)"

definition fits_at :: "nat \<Rightarrow> migration \<Rightarrow> sql_db \<Rightarrow> bool" where
  "fits_at i m sh \<longleftrightarrow> (case m of Plain xs \<Rightarrow> fits_all sh xs sh | ForeignKeysOff up \<Rightarrow> True) \<and> needs i sh"

definition next_shape :: "nat \<Rightarrow> migration \<Rightarrow> sql_db \<Rightarrow> sql_db" where
  "next_shape i m sh =
     (case m of Plain xs \<Rightarrow> shapes_after xs sh
      | ForeignKeysOff up \<Rightarrow>
          if i = 12 then shapes (swapped ''accounts'' accounts_rebuilt sh)
          else if i = 14 then shapes (swapped ''account_identities'' account_identities_s30_new sh)
          else if i = 20 then shapes (swapped ''check_rounds'' check_rounds_s42_new sh)
          else shapes (swapped ''cancel_answers'' cancel_answers_s50_new (shapes (swapped ''devices'' devices_s50_new sh))))"

definition step_fine :: "nat \<Rightarrow> migration \<Rightarrow> bool" where
  "step_fine i m \<longleftrightarrow>
     (\<forall>db wipe e. sound db \<and> fits_at i m (shapes db) \<and> (needs_off m \<longrightarrow> \<not> e) \<longrightarrow>
        (\<exists>db'. step_up wipe e m db = Some db' \<and> sound db' \<and> shapes db' = next_shape i m (shapes db) \<and> same_data (shapes db) db db'))"

lemma plain_fine:
  assumes "\<And>db. sound db \<Longrightarrow> fits_all (shapes db) xs (shapes db) \<Longrightarrow> needs i (shapes db) \<Longrightarrow> obliged_all xs db"
  shows "step_fine i (Plain xs)"
  unfolding step_fine_def
proof (intro allI impI, elim conjE)
  fix db wipe e assume a: "sound db" "fits_at i (Plain xs) (shapes db)"
  then have "fits_all (shapes db) xs (shapes db)" "needs i (shapes db)" by (simp_all add: fits_at_def)
  with a(1) show "\<exists>db'. step_up wipe e (Plain xs) db = Some db' \<and> sound db' \<and> shapes db' = next_shape i (Plain xs) (shapes db) \<and> same_data (shapes db) db db'"
    using statements_upgrade[OF a(1), where base = "shapes db" and xs = xs and e = e and wipe = wipe] assms by (simp add: next_shape_def)
qed

lemma static_fine: "list_all static xs \<Longrightarrow> step_fine i (Plain xs)"
  by (rule plain_fine) (rule static_obliged)

lemma fill_fine:
  assumes "\<And>db1 db k r. sound db1 \<Longrightarrow> needs i (shapes db) \<Longrightarrow> shapes db1 = shapes (effect_of (AddColumn n c required ks v) (shapes db)) \<Longrightarrow>
      r \<in> set (rows_of n db1) \<Longrightarrow> f db1 k r \<noteq> Null"
  shows "step_fine i (Plain [AddColumn n c required ks v, UpdateColumn n c f])"
proof (rule plain_fine)
  fix db assume a: "sound db" "fits_all (shapes db) [AddColumn n c required ks v, UpdateColumn n c f] (shapes db)" "needs i (shapes db)"
  have "obliged (UpdateColumn n c f) (effect_of (AddColumn n c required ks v) db)"
    by (rule obliged_fill[OF a(1,2)]) (rule assms[OF _ a(3)])
  then show "obliged_all [AddColumn n c required ks v, UpdateColumn n c f] db" by simp
qed

lemma fine_1: "step_fine 1 (Plain [AddColumn ''incidents'' ''max_ring_s'' True [] (Num 0), UpdateColumn ''incidents'' ''max_ring_s'' ring_of_topic])"
proof (rule fill_fine)
  fix db1 db k r
  assume a: "sound db1" "needs 1 (shapes db)" "shapes db1 = shapes (effect_of (AddColumn ''incidents'' ''max_ring_s'' True [] (Num 0)) (shapes db))"
    "r \<in> set (rows_of ''incidents'' db1)"
  then have "points ''incidents'' ''topic_id'' ''topics'' (shapes db1)" "requires ''incidents'' ''topic_id'' (shapes db1)"
      "requires ''incidents'' ''max_ring_s'' (shapes db1)" "requires ''topics'' ''max_ring_s'' (shapes db1)"
    by (simp_all add: needs_def Let_def)
  then show "ring_of_topic db1 k r \<noteq> Null"
    using looked_up_there[OF a(1)] requires_cell[OF a(1)] a(4) by (simp add: ring_of_topic_def)
qed

lemma fine_15: "step_fine 15 (Plain [free_column ''topic_tokens'' ''name'', UpdateColumn ''topic_tokens'' ''name'' token_label])"
  unfolding free_column_def by (rule fill_fine) (simp add: token_label_def)

lemma fine_17: "step_fine 17 (Plain [AddColumn ''incidents'' ''updated_at'' True [] (Num 0), UpdateColumn ''incidents'' ''updated_at'' last_change])"
proof (rule fill_fine)
  fix db1 db k r
  assume a: "sound db1" "needs 17 (shapes db)" "shapes db1 = shapes (effect_of (AddColumn ''incidents'' ''updated_at'' True [] (Num 0)) (shapes db))"
    "r \<in> set (rows_of ''incidents'' db1)"
  then have "cell r ''opened_at'' \<noteq> Null" by (intro requires_cell[OF a(1) _ a(4)]) (simp add: needs_def)
  then show "last_change db1 k r \<noteq> Null" by (simp add: last_change_def)
qed

lemma fine_3: "step_fine 3 (Plain [CreateTable device_tokens_4, InsertRows ''device_tokens'' alarm_tokens])"
proof (rule plain_fine)
  fix db assume "sound db" "fits_all (shapes db) [CreateTable device_tokens_4, InsertRows ''device_tokens'' alarm_tokens] (shapes db)" "needs 3 (shapes db)"
  then show "obliged_all [CreateTable device_tokens_4, InsertRows ''device_tokens'' alarm_tokens] db"
    using obliged_alarm_tokens[of db] by (simp add: needs_def del: obliged.simps fits.simps) simp
qed

lemma fine_7: "step_fine 7 (Plain [free_column ''accounts'' ''join_token_hash'', CreateUniqueIndex ''accounts'' (unique [''join_token_hash''])])"
proof (rule plain_fine)
  fix db assume "sound db"
    "fits_all (shapes db) [free_column ''accounts'' ''join_token_hash'', CreateUniqueIndex ''accounts'' (unique [''join_token_hash''])] (shapes db)"
  then show "obliged_all [free_column ''accounts'' ''join_token_hash'', CreateUniqueIndex ''accounts'' (unique [''join_token_hash''])] db"
    using obliged_new_index[of db "''accounts''" "''join_token_hash''" "[]"] by (simp add: free_column_def del: obliged.simps fits.simps effect_of.simps) simp
qed

lemma fine_10:
  "step_fine 10 (Plain [CreateTable account_billing_ids_11, CreateTable billing_events_11, CreateTable tier_changes_11, CreateTable account_merges_11,
     InsertRows ''account_billing_ids'' billing_ids_of_accounts])"
proof (rule plain_fine)
  let ?new = "map CreateTable [account_billing_ids_11, billing_events_11, tier_changes_11, account_merges_11]"
  let ?ins = "[InsertRows ''account_billing_ids'' billing_ids_of_accounts]"
  fix db
  assume s: "sound db" and n: "needs 10 (shapes db)"
    and f: "fits_all (shapes db) [CreateTable account_billing_ids_11, CreateTable billing_events_11, CreateTable tier_changes_11, CreateTable account_merges_11,
      InsertRows ''account_billing_ids'' billing_ids_of_accounts] (shapes db)"
  then have fs: "fits_all (shapes db) ?new (shapes db)" using fits_all_append[of "shapes db" ?new ?ins "shapes db"] by simp
  have names: "tb_name account_billing_ids_11 = ''account_billing_ids''"
      "map tb_rows [account_billing_ids_11, billing_events_11, tier_changes_11, account_merges_11] = [[], [], [], []]"
    by (simp_all add: account_billing_ids_11_def billing_events_11_def tier_changes_11_def account_merges_11_def new_table_def)
  have ob: "obliged_all ?new db" by (rule static_obliged) simp
  let ?db = "db @ [account_billing_ids_11, billing_events_11, tier_changes_11, account_merges_11]"
  have "sound (fold effect_of ?new db)" using statements_upgrade[OF s fs ob] by blast
  then have "sound ?db" by simp
  moreover have "table_named ''account_billing_ids'' ?db = Some account_billing_ids_11"
    using fs names(1) by (simp add: table_named_append) (simp add: table_named_def)
  moreover have "shapes ?db = shapes db @ [account_billing_ids_11, billing_events_11, tier_changes_11, account_merges_11]"
    using names(2) by (simp add: shapes_def shape_id)
  then have "account_rows_ok (shapes ?db)" using n by (simp add: needs_def)
  ultimately have "obliged (InsertRows ''account_billing_ids'' billing_ids_of_accounts) ?db" by (rule obliged_billing_ids)
  then show "obliged_all [CreateTable account_billing_ids_11, CreateTable billing_events_11, CreateTable tier_changes_11, CreateTable account_merges_11,
      InsertRows ''account_billing_ids'' billing_ids_of_accounts] db"
    by (simp del: obliged.simps(3))
qed

lemma fine_21:
  "step_fine 21 (Plain [AddColumn ''relay_servers'' ''legacy'' True [] (Num 0), UpdateColumn ''relay_servers'' ''legacy'' (\<lambda>_ _ _. Num 1),
     CreateUniqueIndex ''relay_servers'' ([''base_url''], Some (''legacy'', [Num 0])), CreateTable registration_attempts_22])"
proof (rule plain_fine)
  let ?n = "''relay_servers''" and ?c = "''legacy''"
  fix db
  let ?db1 = "effect_of (AddColumn ?n ?c True [] (Num 0)) db"
  let ?db2 = "effect_of (UpdateColumn ?n ?c (\<lambda>_ _ _. Num 1)) ?db1"
  assume s: "sound db" and f: "fits_all (shapes db) [AddColumn ?n ?c True [] (Num 0), UpdateColumn ?n ?c (\<lambda>_ _ _. Num 1),
     CreateUniqueIndex ?n ([''base_url''], Some (?c, [Num 0])), CreateTable registration_attempts_22] (shapes db)"
  then obtain t where t: "table_named ?n db = Some t" "table_sound t" "?c \<notin> set (tb_columns t)"
    using fits_add[OF s, of ?n ?c True "[]" "Num 0"] by (simp only: fits_all.simps) metis
  have "cell r ?c = Num 1" if r: "r \<in> set (rows_of ?n ?db2)" for r
  proof -
    have "rows_of ?n ?db2 = updated_rows ?c (\<lambda>_ _. Num 1) (rows_of ?n ?db1)" using t(1) by (simp add: rows_of_def table_named_change)
    with r obtain i where i: "i < length (rows_of ?n ?db1)" "r = put ?c (Num 1) (rows_of ?n ?db1 ! i)"
      by (auto simp: in_set_conv_nth nth_updated_rows simp del: effect_of.simps)
    with added_column[OF t, of "rows_of ?n ?db1 ! i" True "[]" "Num 0"] show ?thesis by (simp add: cell_put del: effect_of.simps)
  qed
  then have "keyed_cells ([''base_url''], Some (?c, [Num 0])) (rows_of ?n ?db2) = []"
    by (auto simp: keyed_cells_def filter_empty_conv simp del: effect_of.simps)
  then have "obliged (CreateUniqueIndex ?n ([''base_url''], Some (?c, [Num 0]))) ?db2" by (simp del: effect_of.simps)
  then show "obliged_all [AddColumn ?n ?c True [] (Num 0), UpdateColumn ?n ?c (\<lambda>_ _ _. Num 1),
     CreateUniqueIndex ?n ([''base_url''], Some (?c, [Num 0])), CreateTable registration_attempts_22] db"
    by (simp del: effect_of.simps obliged.simps(1))
qed

lemma rebuild_fine:
  assumes "\<And>db wipe. sound db \<Longrightarrow> needs i (shapes db) \<Longrightarrow> \<exists>db'. up (exec_all wipe False) db = Some db' \<and> sound db' \<and>
      shapes db' = next_shape i (ForeignKeysOff up) (shapes db) \<and> same_data (shapes db) db db'"
  shows "step_fine i (ForeignKeysOff up)"
  using assms by (auto simp: step_fine_def fits_at_def)

lemma fine_rebuilds:
  "step_fine 12 (ForeignKeysOff rebuild_accounts)" "step_fine 14 (ForeignKeysOff rebuild_identities)"
  "step_fine 20 (ForeignKeysOff rebuild_check_rounds)" "step_fine 24 (ForeignKeysOff rebuild_platforms)"
proof -
  show "step_fine 12 (ForeignKeysOff rebuild_accounts)"
    by (rule rebuild_fine) (auto simp: needs_def next_shape_def rebuild_accounts_swaps rebuilt_sound)
  show "step_fine 14 (ForeignKeysOff rebuild_identities)"
    by (rule rebuild_fine) (auto simp: needs_def next_shape_def rebuild_identities_swaps rebuilt_sound)
  show "step_fine 20 (ForeignKeysOff rebuild_check_rounds)"
    by (rule rebuild_fine) (auto simp: needs_def next_shape_def rebuild_check_rounds_swaps rebuilt_sound)
  show "step_fine 24 (ForeignKeysOff rebuild_platforms)"
  proof (rule rebuild_fine)
    fix db wipe assume s: "sound db" and n: "needs 24 (shapes db)"
    let ?d = "swapped ''devices'' devices_s50_new db" and ?c = "swapped ''cancel_answers'' cancel_answers_s50_new (swapped ''devices'' devices_s50_new db)"
    have sh: "shapes (swapped ''devices'' devices_s50_new (shapes db)) = shapes ?d" by (rule shapes_swapped[symmetric])
    have "rebuild_platforms (exec_all wipe False) db = Some ?c" "sound ?c" "same_data (shapes db) db ?c"
      by (rule rebuild_platforms_swaps[OF s, where base = "shapes db"]; use n in \<open>simp add: needs_def Let_def shapes_swapped[symmetric] unused_shapes\<close>)+
    moreover have "shapes ?c = next_shape 24 (ForeignKeysOff rebuild_platforms) (shapes db)"
      using shapes_swapped[of "''cancel_answers''" cancel_answers_s50_new ?d] by (simp add: next_shape_def sh)
    ultimately show "\<exists>db'. rebuild_platforms (exec_all wipe False) db = Some db' \<and> sound db' \<and>
        shapes db' = next_shape 24 (ForeignKeysOff rebuild_platforms) (shapes db) \<and> same_data (shapes db) db db'" by blast
  qed
qed


subsection \<open>From any version to the last\<close>

lemma holds_shapes [simp]: "holds (shapes db) n c = holds db n c"
  by (auto simp: holds_def split: option.splits)

lemma holds_effect:
  assumes "fits x sh" "leaves base x" "holds base n c" "holds sh n c"
  shows "holds (effect_of x sh) n c"
  using assms by (cases x) (auto simp: holds_def table_named_change table_named_append split: option.splits if_splits)

lemma holds_statements:
  assumes "fits_all base xs sh" "holds base n c" "holds sh n c"
  shows "holds (shapes_after xs sh) n c"
  using assms
proof (induction xs arbitrary: sh)
  case (Cons x xs)
  then have "holds (shapes (effect_of x sh)) n c" using holds_effect by auto
  with Cons show ?case by (simp add: shapes_after_def)
qed (simp add: shapes_after_def)

lemma holds_swapped: "swap_fits base m nt sh \<Longrightarrow> holds base n c \<Longrightarrow> holds sh n c \<Longrightarrow> holds (swapped m nt sh) n c"
  by (auto simp: holds_def table_named_swapped swap_fits_def list_all_iff split: option.splits)

lemma holds_next:
  assumes "fits_at i m sh" "holds sh n c" "needs_off m \<longrightarrow> i \<in> {12, 14, 20, 24}"
  shows "holds (next_shape i m sh) n c"
proof (cases m)
  case (Plain xs)
  with assms holds_statements[of sh xs sh] show ?thesis by (simp add: fits_at_def next_shape_def)
next
  case (ForeignKeysOff up)
  with assms show ?thesis
    by (auto simp: fits_at_def next_shape_def needs_def rebuilt_def Let_def intro!: holds_swapped)
qed

fun fit_from :: "migration list \<Rightarrow> nat \<Rightarrow> sql_db \<Rightarrow> bool" where
  "fit_from [] i sh \<longleftrightarrow> True"
| "fit_from (m # ms) i sh \<longleftrightarrow> fits_at i m sh \<and> fit_from ms (Suc i) (next_shape i m sh)"

lemma migrations_fit: "fit_from migrations 0 []"
  by code_simp


lemma migrations_fine: "list_all (\<lambda>(i, m). step_fine i m \<and> (needs_off m \<longrightarrow> i \<in> {12, 14, 20, 24})) (enumerate 0 migrations)"
proof -
  have s: "step_fine i (Plain xs)" if "list_all static xs" for i xs using that by (rule static_fine)
  show ?thesis
    using fine_1 fine_3 fine_7 fine_10 fine_15 fine_17 fine_21 fine_rebuilds
    unfolding migrations_def by (simp add: s free_column_def numeral_eq_Suc)
qed

text \<open>The shapes a fresh database has at each version.\<close>

definition schema_at :: "nat \<Rightarrow> sql_db" where
  "schema_at v = shapes (up_tables (fst (migrate (\<lambda>_ _. None) v fresh_upgrade)))"

fun shape_from :: "migration list \<Rightarrow> nat \<Rightarrow> nat \<Rightarrow> sql_db \<Rightarrow> sql_db" where
  "shape_from [] i n sh = sh"
| "shape_from (m # ms) i n sh = (if Suc i > n then sh else shape_from ms (Suc i) n (next_shape i m sh))"

lemma step_fineD:
  "step_fine i m \<Longrightarrow> sound db \<Longrightarrow> fits_at i m (shapes db) \<Longrightarrow> needs_off m \<longrightarrow> \<not> e \<Longrightarrow>
    \<exists>db'. step_up wipe e m db = Some db' \<and> sound db' \<and> shapes db' = next_shape i m (shapes db) \<and> same_data (shapes db) db db'"
  unfolding step_fine_def by (erule allE[of _ db], erule allE[of _ wipe], erule allE[of _ e]) blast

lemma upgrade_run:
  assumes "sound (up_tables st)" "\<not> up_in_transaction st" "shapes (up_tables st) = sh" "fit_from ms i sh"
    "list_all (\<lambda>(i, m). step_fine i m \<and> (needs_off m \<longrightarrow> i \<in> {12, 14, 20, 24})) (enumerate i ms)" "set (up_versions st) \<inter> {Suc i..} = {}"
  shows "\<exists>st'. migrate_from wipe i n ms st = (st', Upgraded) \<and> sound (up_tables st') \<and> shapes (up_tables st') = shape_from ms i n sh \<and>
    same_data sh (up_tables st) (up_tables st')"
  using assms
proof (induction ms arbitrary: i st sh)
  case (Cons m ms)
  show ?case
  proof (cases "Suc i > n")
    case False
    let ?e = "up_enforcing st \<and> \<not> needs_off m"
    have fine: "step_fine i m" "fits_at i m sh" "needs_off m \<longrightarrow> i \<in> {12, 14, 20, 24}" using Cons.prems by auto
    then obtain db where db: "step_up wipe ?e m (up_tables st) = Some db" "sound db" "shapes db = next_shape i m sh" "same_data sh (up_tables st) db"
      using step_fineD[OF fine(1) Cons.prems(1), of ?e wipe] Cons.prems(3) by auto
    let ?st = "st\<lparr>up_tables := db, up_versions := up_versions st @ [Suc i]\<rparr>"
    have "apply_migration wipe (Suc i) m st = (?st, True)" using apply_migration_eq[OF Cons.prems(2)] db(1) by simp
    moreover have "Suc i \<notin> set (up_versions st)" using Cons.prems(6) by auto
    ultimately have go: "migrate_from wipe i n (m # ms) st = migrate_from wipe (Suc i) n ms ?st" using False by simp
    have later: "set (up_versions ?st) \<inter> {Suc (Suc i)..} = {}" using Cons.prems(6) by (auto simp: disjoint_iff)
    obtain st' where st': "migrate_from wipe (Suc i) n ms ?st = (st', Upgraded)" "sound (up_tables st')"
        "shapes (up_tables st') = shape_from ms (Suc i) n (next_shape i m sh)" "same_data (next_shape i m sh) db (up_tables st')"
      using Cons.IH[of ?st "next_shape i m sh" "Suc i"] Cons.prems db later by auto
    have "same_data sh (up_tables st) (up_tables st')"
      using db(4) st'(4) holds_next[OF fine(2) _ fine(3)] by (auto simp: same_data_def)
    with go st' False show ?thesis by auto
  qed (use Cons.prems in auto)
qed auto

lemma fit_from_drop:
  "fit_from ms i sh \<Longrightarrow> k \<le> length ms \<Longrightarrow> fit_from (drop k ms) (i + k) (shape_from ms i (i + k) sh)"
proof (induction ms arbitrary: i sh k)
  case (Cons m ms)
  show ?case
  proof (cases k)
    case (Suc j)
    with Cons.IH[of "Suc i" "next_shape i m sh" j] Cons.prems show ?thesis by simp
  qed (use Cons.prems in simp)
qed simp

lemma shape_from_drop:
  "k \<le> length ms \<Longrightarrow> i + k \<le> n \<Longrightarrow> shape_from (drop k ms) (i + k) n (shape_from ms i (i + k) sh) = shape_from ms i n sh"
proof (induction ms arbitrary: i sh k)
  case (Cons m ms)
  show ?case
  proof (cases k)
    case (Suc j)
    with Cons.IH[of j "Suc i" "next_shape i m sh"] Cons.prems show ?thesis by simp
  qed (use Cons.prems in simp)
qed simp

lemma migrate_skip:
  "{Suc i..v} \<subseteq> set (up_versions st) \<Longrightarrow> i \<le> v \<Longrightarrow> v \<le> n \<Longrightarrow> v \<le> i + length ms \<Longrightarrow>
    migrate_from wipe i n ms st = migrate_from wipe v n (drop (v - i) ms) st"
proof (induction ms arbitrary: i)
  case (Cons m ms)
  show ?case
  proof (cases "i = v")
    case False
    with Cons.prems have "Suc i \<in> set (up_versions st)" "{Suc (Suc i)..v} \<subseteq> set (up_versions st)" by auto
    moreover have "drop (v - i) (m # ms) = drop (v - Suc i) ms" using False Cons.prems(2) by (simp add: drop_Cons' )
    ultimately show ?thesis using Cons.IH[of "Suc i"] Cons.prems False by simp
  qed simp
qed simp

lemma schema_at_eq: "schema_at v = shape_from migrations 0 v []"
proof -
  have "sound []" by (simp add: sound_def shape_ok_def shapes_def foreign_key_check_def)
  then obtain st' where "migrate (\<lambda>_ _. None) v fresh_upgrade = (st', Upgraded)" "shapes (up_tables st') = shape_from migrations 0 v []"
    using upgrade_run[of fresh_upgrade "[]" migrations 0 "\<lambda>_ _. None" v] migrations_fit migrations_fine
    by (auto simp: fresh_upgrade_def migrate_def shapes_def)
  then show ?thesis by (simp add: schema_at_def)
qed

text \<open>C14: No database gets stuck. Whatever rows it holds, as long as they meet the constraints of its version, a database at any version goes through all the
  remaining migrations, with foreign keys enforced or not, none of them failing; it ends with the schema of a fresh database, its rows meet the
  constraints of that schema with no foreign key dangling, and every column it had keeps the value it had in every row, in order, save for
  the two columns that migrations drop.\<close>

theorem every_database_upgrades:
  assumes "sound (up_tables st)" "shapes (up_tables st) = schema_at v" "set (up_versions st) = {1..v}" "v \<le> 25" "\<not> up_in_transaction st"
  shows "\<exists>st'. migrate wipe 25 st = (st', Upgraded) \<and> sound (up_tables st') \<and> shapes (up_tables st') = schema_at 25 \<and>
    foreign_key_check (up_tables st') = [] \<and> (\<forall>t \<in> set (up_tables st'). rows_ok t) \<and>
    (\<forall>t \<in> set (up_tables st). \<forall>c \<in> set (tb_columns t). (tb_name t, c) \<notin> {(''subscriptions'', ''account_id''), (''accounts'', ''rc_app_user_id'')} \<longrightarrow>
       column (tb_name t) c (up_tables st') = map (\<lambda>r. cell r c) (tb_rows t))"
proof -
  let ?sh = "shape_from migrations 0 v []"
  have sh: "shapes (up_tables st) = ?sh" using assms(2) schema_at_eq by simp
  have "list_all (\<lambda>(i, m). step_fine i m \<and> (needs_off m \<longrightarrow> i \<in> {12, 14, 20, 24})) (enumerate v (drop v migrations))"
    using migrations_fine assms(4) by (auto simp: list_all_length nth_enumerate_eq)
  moreover have "fit_from (drop v migrations) v ?sh" using fit_from_drop[OF migrations_fit, of v] assms(4) by simp
  ultimately obtain st' where st': "migrate_from wipe v 25 (drop v migrations) st = (st', Upgraded)" "sound (up_tables st')"
      "shapes (up_tables st') = shape_from (drop v migrations) v 25 ?sh" "same_data ?sh (up_tables st) (up_tables st')"
    using upgrade_run[OF assms(1,5) sh, of "drop v migrations" v wipe 25] assms(3) by auto
  have "migrate wipe 25 st = (st', Upgraded)"
    using st'(1) migrate_skip[of 0 v st 25 migrations wipe] assms(3,4) by (simp add: migrate_def)
  moreover have "shapes (up_tables st') = schema_at 25"
    using st'(3) shape_from_drop[of v migrations 0 25 "[]"] assms(4) by (simp add: schema_at_eq)
  moreover have "column (tb_name t) c (up_tables st') = map (\<lambda>r. cell r c) (tb_rows t)"
    if t: "t \<in> set (up_tables st)" and c: "c \<in> set (tb_columns t)" "(tb_name t, c) \<notin> {(''subscriptions'', ''account_id''), (''accounts'', ''rc_app_user_id'')}" for t c
  proof -
    have tn: "table_named (tb_name t) (up_tables st) = Some t" by (rule table_named_in[OF sound_names[OF assms(1)] t])
    then have "holds (shapes (up_tables st)) (tb_name t) c" using c by (simp add: holds_def dropped_columns_def)
    with st'(4) sh tn show ?thesis by (simp add: same_data_def column_def rows_of_def)
  qed
  ultimately show ?thesis using st'(2) by (auto simp: sound_def list_all_iff table_sound_def)
qed


text \<open>The backfilled names of the tokens: within a topic they count up from 1 without a gap or a repetition.\<close>

lemma token_place_set:
  "token_place rs i r = card {j. j < length rs \<and> cell (rs ! j) ''topic_id'' = cell r ''topic_id'' \<and> not_after (cell (rs ! j) ''created_at'', j) (cell r ''created_at'', i)}"
  unfolding token_place_def length_filter_conv_card by (rule arg_cong[where f = card]) (auto simp: nth_enumerate_eq)

lemma not_after_Num: "not_after p q \<longleftrightarrow> (\<exists>a i b j. p = (Num a, i) \<and> q = (Num b, j) \<and> (a < b \<or> a = b \<and> i \<le> j))"
  by (cases "(p, q)" rule: not_after.cases) auto

lemma not_after_trans: "not_after p q \<Longrightarrow> not_after q r \<Longrightarrow> not_after p r"
  by (auto simp: not_after_Num)

theorem tokens_are_numbered:
  assumes times: "\<forall>r \<in> set rs. \<exists>x. cell r ''created_at'' = Num x" and i: "i < length rs"
  defines "peers \<equiv> {j. j < length rs \<and> cell (rs ! j) ''topic_id'' = cell (rs ! i) ''topic_id''}"
  shows "(\<lambda>j. token_place rs j (rs ! j)) ` peers = {1..card peers} \<and> inj_on (\<lambda>j. token_place rs j (rs ! j)) peers"
proof -
  let ?p = "\<lambda>j. token_place rs j (rs ! j)"
  let ?below = "\<lambda>j. {k \<in> peers. not_after (cell (rs ! k) ''created_at'', k) (cell (rs ! j) ''created_at'', j)}"
  have fin: "finite peers" by (simp add: peers_def)
  have time: "\<exists>x. cell (rs ! k) ''created_at'' = Num x" if "k \<in> peers" for k using that times by (auto simp: peers_def)
  have place: "?p j = card (?below j)" if "j \<in> peers" for j
    using that by (auto simp: token_place_set peers_def intro!: arg_cong[where f = card])
  have self: "j \<in> ?below j" if "j \<in> peers" for j using that time[OF that] by auto
  have less: "?p j < ?p k" if j: "j \<in> peers" and k: "k \<in> peers" and "j \<noteq> k" "not_after (cell (rs ! j) ''created_at'', j) (cell (rs ! k) ''created_at'', k)" for j k
  proof -
    have "?below j \<subset> ?below k"
    proof
      show "?below j \<subseteq> ?below k" using not_after_trans[OF _ that(4)] by blast
      have "k \<notin> ?below j" using that time[OF j] time[OF k] by auto
      with self[OF k] show "?below j \<noteq> ?below k" by blast
    qed
    then show ?thesis using fin by (simp add: place[OF j] place[OF k] psubset_card_mono)
  qed
  have inj: "inj_on ?p peers"
  proof (rule inj_onI, rule ccontr)
    fix j k assume jk: "j \<in> peers" "k \<in> peers" "?p j = ?p k" "j \<noteq> k"
    then have "not_after (cell (rs ! j) ''created_at'', j) (cell (rs ! k) ''created_at'', k) \<or> not_after (cell (rs ! k) ''created_at'', k) (cell (rs ! j) ''created_at'', j)"
      using time[of j] time[of k] by auto
    with less[of j k] less[of k j] jk show False by auto
  qed
  moreover have "?p ` peers \<subseteq> {1..card peers}"
  proof
    fix n assume "n \<in> ?p ` peers"
    then obtain j where j: "j \<in> peers" "n = ?p j" by blast
    have "0 < card (?below j)" using self[OF j(1)] fin by (auto simp: card_gt_0_iff)
    moreover have "card (?below j) \<le> card peers" using fin by (auto intro: card_mono)
    ultimately show "n \<in> {1..card peers}" using j place by auto
  qed
  ultimately show ?thesis using card_subset_eq[of "{1..card peers}" "?p ` peers"] by (simp add: card_image)
qed

definition demo_first_version :: sql_db where
  "demo_first_version =
     [accounts_1\<lparr>tb_rows := [[(''id'', Txt ''a''), (''tier'', Txt ''hosted''), (''rc_app_user_id'', Txt ''u''), (''created_at'', Num 1)]]\<rparr>,
      devices_1\<lparr>tb_rows := [[(''id'', Txt ''d''), (''account_id'', Txt ''a''), (''device_token_hash'', Txt ''h''), (''platform'', Txt ''ios''),
        (''push_token'', Txt ''p''), (''last_seen'', Num 2)]]\<rparr>,
      subscriptions_1, topics_1, topic_tokens_1, incidents_1, messages_1, timers_1]"

lemma demo_first_version_sound: "sound demo_first_version"
  unfolding sound_def by (intro conjI) code_simp+

lemma first_rows:
  "map tb_rows [accounts_1, devices_1, subscriptions_1, topics_1, topic_tokens_1, incidents_1, messages_1, timers_1] = [[], [], [], [], [], [], [], []]"
  by (simp add: new_table_def accounts_1_def devices_1_def subscriptions_1_def topics_1_def topic_tokens_1_def incidents_1_def messages_1_def timers_1_def)

lemma schema_at_1: "schema_at 1 = [accounts_1, devices_1, subscriptions_1, topics_1, topic_tokens_1, incidents_1, messages_1, timers_1]"
  using first_rows by (simp add: schema_at_eq migrations_def next_shape_def shapes_after_def shapes_def shape_id)

theorem every_database_upgrades_witness:
  "\<exists>st'. migrate (\<lambda>_ _. None) 25 \<lparr>up_tables = demo_first_version, up_versions = [1], up_enforcing = True, up_in_transaction = False\<rparr> = (st', Upgraded) \<and>
     column ''accounts'' ''tier'' (up_tables st') = [Txt ''hosted'']"
proof -
  let ?st = "\<lparr>up_tables = demo_first_version, up_versions = [1], up_enforcing = True, up_in_transaction = False\<rparr>"
  have "shapes (up_tables ?st) = schema_at 1"
    unfolding schema_at_1 using first_rows shape_id[of accounts_1] shape_id[of devices_1]
    by (simp add: demo_first_version_def shapes_def shape_def)
  then obtain st' where "migrate (\<lambda>_ _. None) 25 ?st = (st', Upgraded)"
    "\<forall>t \<in> set (up_tables ?st). \<forall>c \<in> set (tb_columns t). (tb_name t, c) \<notin> {(''subscriptions'', ''account_id''), (''accounts'', ''rc_app_user_id'')} \<longrightarrow>
       column (tb_name t) c (up_tables st') = map (\<lambda>r. cell r c) (tb_rows t)"
    using every_database_upgrades[of ?st 1 "\<lambda>_ _. None"] demo_first_version_sound by auto
  then show ?thesis by (auto simp: demo_first_version_def accounts_1_def new_table_def cell_def)
qed

end
