(* ===== verification/Scanning.thy ===== *)
theory Scanning
  imports Webhook
begin

section \<open>One scan of the queue at a time\<close>

text \<open>
  The scan loop of \<open>src/src/tier/billing-reads.ts\<close>: \<open>scan\<close>, \<open>wake\<close> and \<open>scanOnce\<close> as a machine beside everything else that touches the queue. A pass
  holds the rows it picked and waits for one read at a time; a call during a pass asks for one more pass. When the loop is done its promise is cleared
  only in a later microtask, and \<open>Leaving\<close> is the time until then. A turn of the loop is one step, with its pause before it.
\<close>

datatype scan_stage = Idle | Passing "billing_read_row list" "ident option" | Leaving

record scanner =
  sc_world :: reads_world
  sc_clock :: seconds
  sc_stage :: scan_stage
  sc_again :: bool

definition begin_pass :: "scanner \<Rightarrow> scanner" where
  "begin_pass st = st\<lparr>sc_stage := Passing (due_reads (sc_clock st) (w_db (sc_world st))) None, sc_again := False\<rparr>"

definition call_scan :: "scanner \<Rightarrow> scanner" where
  "call_scan st = (if sc_stage st = Idle then begin_pass st else st\<lparr>sc_again := True\<rparr>)"

definition scan_turn :: "scanner \<Rightarrow> scanner" where
  "scan_turn st =
     (case sc_stage st of
        Idle \<Rightarrow> st
      | Leaving \<Rightarrow> st\<lparr>sc_stage := Idle\<rparr>
      | Passing rows (Some _) \<Rightarrow> st
      | Passing [] None \<Rightarrow> if sc_again st then begin_pass st else st\<lparr>sc_stage := Leaving\<rparr>
      | Passing (r # rows) None \<Rightarrow>
          if w_flights (sc_world st) (br_app_user_id r) \<noteq> None then st\<lparr>sc_stage := Passing rows None\<rparr>
          else st\<lparr>sc_world := scan_row_read r (sc_world st), sc_stage := Passing rows (Some (br_app_user_id r))\<rparr>)"

text \<open>A read ends. When it is the one the scan waits for, the scan goes on, whether or not one more read follows it.\<close>

definition read_ends :: "tier_map \<Rightarrow> pack_map \<Rightarrow> ident \<Rightarrow> store_answer \<Rightarrow> scanner \<Rightarrow> scanner" where
  "read_ends tiers packs u answer st =
     st\<lparr>sc_world := finish_read tiers packs (sc_clock st) u answer (sc_world st),
        sc_stage := (case sc_stage st of Passing rows (Some v) \<Rightarrow> Passing rows (if v = u then None else Some v) | stage \<Rightarrow> stage)\<rparr>"

inductive scan_step :: "scanner \<Rightarrow> scanner \<Rightarrow> bool" where
  called: "scan_step st (call_scan st)"
| turned: "scan_step st (scan_turn st)"
| ended: "scan_step st (read_ends tiers packs u answer st)"
| ticked: "sc_clock st \<le> t \<Longrightarrow> scan_step st (st\<lparr>sc_clock := t\<rparr>)"
| enqueued: "scan_step st (st\<lparr>sc_world := enqueue (sc_clock st) u (sc_world st)\<rparr>)"
| requested: "scan_step st (st\<lparr>sc_world := request_read (sc_clock st) u trig (sc_world st)\<rparr>)"
| event: "scan_step st (st\<lparr>sc_world := queue_reads_for_event (sc_clock st) ev (sc_world st)\<rparr>)"

fun scan_path :: "scanner list \<Rightarrow> bool" where
  "scan_path (x # y # zs) = (scan_step x y \<and> scan_path (y # zs))"
| "scan_path _ = True"

subsection \<open>Other customers leave a row alone\<close>

lemma queued_reads: "queued now v s \<longleftrightarrow> list_ex (\<lambda>r. br_due_at r \<le> now \<or> br_dirty r) (reads_of v s)"
  by (auto simp: queued_iff reads_of_def list_ex_iff)

lemma event_queued: "queued now v (w_db w) \<Longrightarrow> queued now v (w_db (queue_reads_for_event now ev w))"
  by (auto simp: queue_reads_eq Let_def intro!: triggers_queued) (simp add: queued_iff)

lemma queued_same: "reads_of v s' = reads_of v s \<Longrightarrow> queued now v s' = queued now v s"
  by (simp add: queued_reads)

lemma queued_later: "queued now v s \<Longrightarrow> now \<le> now' \<Longrightarrow> queued now' v s"
  by (fastforce simp: queued_iff list_ex_iff)

section \<open>No queued row is passed over\<close>

text \<open>While no read of \<open>u\<close> has started, the row stays queued, and either this pass or the next one still has it before it.\<close>

definition comes_to :: "ident \<Rightarrow> scanner \<Rightarrow> bool" where
  "comes_to u st \<longleftrightarrow>
     queued (sc_clock st) u (w_db (sc_world st)) \<and>
     (case sc_stage st of Passing rows _ \<Rightarrow> sc_again st \<or> u \<in> br_app_user_id ` set rows | _ \<Rightarrow> False)"

lemma comes_to_world:
  "comes_to u st \<Longrightarrow> (queued (sc_clock st) u (w_db (sc_world st)) \<Longrightarrow> queued (sc_clock st) u (w_db w)) \<Longrightarrow> comes_to u (st\<lparr>sc_world := w\<rparr>)"
  by (simp add: comes_to_def split: scan_stage.splits)

lemma begin_comes_to: "queued (sc_clock st) u (w_db (sc_world st)) \<Longrightarrow> comes_to u (begin_pass st)"
  by (simp add: comes_to_def begin_pass_def queued_def)

lemma call_comes_to:
  "sc_stage st \<noteq> Leaving \<Longrightarrow> queued (sc_clock st) u (w_db (sc_world st)) \<Longrightarrow> comes_to u (call_scan st)"
  by (auto simp: call_scan_def begin_comes_to) (auto simp: comes_to_def split: scan_stage.split)

lemma turn_comes_to:
  assumes "comes_to u st" "w_flights (sc_world st) u = None" "w_flights (sc_world (scan_turn st)) u = None"
  shows "comes_to u (scan_turn st)"
proof -
  obtain rows aw where stage: "sc_stage st = Passing rows aw" and q: "queued (sc_clock st) u (w_db (sc_world st))"
    and more: "sc_again st \<or> u \<in> br_app_user_id ` set rows"
    using assms(1) by (auto simp: comes_to_def split: scan_stage.splits)
  consider (waits) v where "aw = Some v" | (over) "aw = None" "rows = []" | (next_row) r rs where "aw = None" "rows = r # rs"
    by (cases aw; cases rows) auto
  then show ?thesis
  proof cases
    case waits
    then have "scan_turn st = st" using stage by (cases rows) (simp_all add: scan_turn_def)
    then show ?thesis using assms(1) by simp
  next
    case over
    then show ?thesis using stage more begin_comes_to[OF q] by (simp add: scan_turn_def)
  next
    case next_row
    show ?thesis
    proof (cases "br_app_user_id r = u")
      case True
      then show ?thesis
        using assms(2,3) stage next_row by (simp add: scan_turn_def scan_row_read_def Let_def start_read_simps)
    next
      case False
      then show ?thesis
        using q more stage next_row queued_same[OF scan_row_reads[OF False]] by (auto simp: scan_turn_def comes_to_def)
    qed
  qed
qed

lemma step_comes_to:
  assumes "scan_step st st'" "comes_to u st" "w_flights (sc_world st) u = None" "w_flights (sc_world st') u = None"
  shows "comes_to u st'"
  using assms(1)
proof cases
  case called
  then show ?thesis using assms(2) by (auto simp: comes_to_def call_scan_def split: scan_stage.splits)
next
  case turned
  then show ?thesis using turn_comes_to assms by simp
next
  case (ended tiers packs v answer)
  have "queued (sc_clock st) u (w_db (finish_read tiers packs (sc_clock st) v answer (sc_world st))) = queued (sc_clock st) u (w_db (sc_world st))"
    using assms(3) by (cases "v = u") (simp add: finish_read_def, rule queued_same[OF finish_read_reads])
  then show ?thesis using assms(2) ended by (auto simp: comes_to_def read_ends_def split: scan_stage.splits option.splits)
next
  case (ticked t)
  then show ?thesis using assms(2) queued_later by (auto simp: comes_to_def split: scan_stage.splits)
next
  case (enqueued v)
  then show ?thesis using comes_to_world[OF assms(2)] enqueue_keeps_queued by simp
next
  case (requested v trig)
  have "v \<noteq> u" using assms(3,4) requested by (auto simp: request_read_def start_read_simps)
  from queued_same[OF request_read_reads[OF this]] show ?thesis using comes_to_world[OF assms(2)] requested by simp
next
  case (event ev)
  then show ?thesis using comes_to_world[OF assms(2)] event_queued by simp
qed

lemma path_comes_to:
  "scan_path (st # sts) \<Longrightarrow> comes_to u st \<Longrightarrow> \<forall>x \<in> set (st # sts). w_flights (sc_world x) u = None \<Longrightarrow> comes_to u (last (st # sts))"
proof (induction sts arbitrary: st)
  case (Cons x sts)
  then have "comes_to u x" using step_comes_to[of st x u] by auto
  with Cons show ?case by simp
qed simp

section \<open>A scan comes to its end\<close>

text \<open>The scan only ever waits for a read that is in flight.\<close>

definition awaited_ok :: "scanner \<Rightarrow> bool" where
  "awaited_ok st \<longleftrightarrow> (\<forall>rows v. sc_stage st = Passing rows (Some v) \<longrightarrow> w_flights (sc_world st) v \<noteq> None)"

lemma turn_awaited: "awaited_ok st \<Longrightarrow> awaited_ok (scan_turn st)"
  by (auto simp: awaited_ok_def scan_turn_def begin_pass_def scan_row_read_def Let_def start_read_simps
      split: scan_stage.splits list.splits option.splits if_splits)

lemma request_keeps_flight: "w_flights w v \<noteq> None \<Longrightarrow> w_flights (request_read now u trig w) v \<noteq> None"
  by (auto simp: request_read_def start_read_simps split: option.split)

interpretation scans: invariant_system "\<lambda>st. sc_stage st = Idle" scan_step awaited_ok
proof
  show "awaited_ok st" if "sc_stage st = Idle" for st using that by (simp add: awaited_ok_def)
  show "awaited_ok st'" if "scan_step st st'" "awaited_ok st" for st st'
    using that(1)
  proof cases
    case called
    then show ?thesis using that(2) by (simp add: awaited_ok_def call_scan_def begin_pass_def)
  next
    case turned
    then show ?thesis using turn_awaited[OF that(2)] by simp
  next
    case (ended tiers packs u answer)
    then show ?thesis
      using that(2) finish_read_flights by (fastforce simp: awaited_ok_def read_ends_def split: scan_stage.splits option.splits if_splits)
  next
    case (requested u trig)
    then show ?thesis using that(2) request_keeps_flight by (simp add: awaited_ok_def)
  qed (use that(2) trigger_event_flights in \<open>auto simp: awaited_ok_def\<close>)
qed

text \<open>The scan left to itself: what it waits for ends, otherwise it takes its next turn.\<close>

definition scan_alone :: "tier_map \<Rightarrow> pack_map \<Rightarrow> (ident \<Rightarrow> store_answer) \<Rightarrow> scanner \<Rightarrow> scanner" where
  "scan_alone tiers packs answers st =
     (case sc_stage st of Passing _ (Some v) \<Rightarrow> read_ends tiers packs v (answers v) st | _ \<Rightarrow> scan_turn st)"

lemma alone_steps: "scan_step st (scan_alone tiers packs answers st)"
  by (auto simp: scan_alone_def intro: scan_step.intros split: scan_stage.split option.split)

lemma alone_over_rows:
  "sc_stage st = Passing rows aw \<Longrightarrow>
     \<exists>n. sc_stage ((scan_alone tiers packs answers ^^ n) st) = Passing [] None \<and> sc_again ((scan_alone tiers packs answers ^^ n) st) = sc_again st"
proof (induction "2 * length rows + (if aw = None then 0 else 1)" arbitrary: rows aw st rule: less_induct)
  case less
  show ?case
  proof (cases "rows = [] \<and> aw = None")
    case True
    with less.prems show ?thesis by (intro exI[of _ 0]) simp
  next
    case False
    let ?st = "scan_alone tiers packs answers st"
    have "\<exists>rows' aw'. sc_stage ?st = Passing rows' aw' \<and> sc_again ?st = sc_again st \<and>
        2 * length rows' + (if aw' = None then 0 else 1) < 2 * length rows + (if aw = None then 0 else 1 :: nat)"
      using False less.prems
      by (cases rows; cases aw) (auto simp: scan_alone_def read_ends_def scan_turn_def)
    then obtain rows' aw' where st: "sc_stage ?st = Passing rows' aw'" "sc_again ?st = sc_again st"
      "2 * length rows' + (if aw' = None then 0 else 1) < 2 * length rows + (if aw = None then 0 else 1 :: nat)" by blast
    from less.hyps[OF st(3) st(1)] st(2) obtain n where
      "sc_stage ((scan_alone tiers packs answers ^^ n) ?st) = Passing [] None" "sc_again ((scan_alone tiers packs answers ^^ n) ?st) = sc_again st" by auto
    then show ?thesis by (intro exI[of _ "Suc n"]) (simp add: funpow_swap1)
  qed
qed

lemma alone_leaves:
  assumes "sc_stage st = Passing rows aw" "\<not> sc_again st"
  shows "\<exists>n. sc_stage ((scan_alone tiers packs answers ^^ n) st) = Idle"
proof -
  obtain n where n: "sc_stage ((scan_alone tiers packs answers ^^ n) st) = Passing [] None" "\<not> sc_again ((scan_alone tiers packs answers ^^ n) st)"
    using alone_over_rows[OF assms(1)] assms(2) by metis
  let ?st = "(scan_alone tiers packs answers ^^ n) st"
  have "sc_stage (scan_alone tiers packs answers (scan_alone tiers packs answers ?st)) = Idle"
    using n by (simp add: scan_alone_def scan_turn_def)
  then show ?thesis by (intro exI[of _ "Suc (Suc n)"]) simp
qed

lemma alone_ends: "\<exists>n. sc_stage ((scan_alone tiers packs answers ^^ n) st) = Idle"
proof (cases "sc_stage st")
  case Idle
  then show ?thesis by (intro exI[of _ 0]) simp
next
  case Leaving
  then show ?thesis by (intro exI[of _ 1]) (simp add: scan_alone_def scan_turn_def)
next
  case (Passing rows aw)
  obtain n where n: "sc_stage ((scan_alone tiers packs answers ^^ n) st) = Passing [] None"
    using alone_over_rows[OF Passing] by metis
  let ?st = "scan_alone tiers packs answers ((scan_alone tiers packs answers ^^ n) st)"
  have "\<exists>m. sc_stage ((scan_alone tiers packs answers ^^ m) ?st) = Idle"
  proof (cases "sc_again ((scan_alone tiers packs answers ^^ n) st)")
    case True
    then have "sc_stage ?st = Passing (due_reads (sc_clock ((scan_alone tiers packs answers ^^ n) st)) (w_db (sc_world ((scan_alone tiers packs answers ^^ n) st)))) None"
      "\<not> sc_again ?st" using n by (simp_all add: scan_alone_def scan_turn_def begin_pass_def)
    then show ?thesis by (rule alone_leaves)
  next
    case False
    then show ?thesis using n by (intro exI[of _ 1]) (simp add: scan_alone_def scan_turn_def)
  qed
  then obtain m where "sc_stage ((scan_alone tiers packs answers ^^ m) ?st) = Idle" by blast
  then have "sc_stage ((scan_alone tiers packs answers ^^ (m + Suc n)) st) = Idle" by (simp add: funpow_add funpow_swap1)
  then show ?thesis by blast
qed

text \<open>C25: A scan reaches every row that was due when it was asked for, also when it was asked for in the middle of another one, and whatever other triggers,
  requests and answers come in between: before the scan is over a read of that customer has started. The scan never waits for a read that is
  not in flight, and left to itself it comes to an end. The one moment a call gets nothing for is after the last pass, before the promise of the
  scan is cleared: such a call runs no pass at all.\<close>

theorem scan_reaches_every_due_row:
  assumes "sc_stage st0 = Idle" "scan_step\<^sup>*\<^sup>* st0 st"
  shows "(\<forall>u sts. sc_stage st \<noteq> Leaving \<longrightarrow> queued (sc_clock st) u (w_db (sc_world st)) \<longrightarrow> w_flights (sc_world st) u = None \<longrightarrow>
         scan_path (call_scan st # sts) \<longrightarrow> sc_stage (last (call_scan st # sts)) = Idle \<longrightarrow> (\<exists>x \<in> set sts. w_flights (sc_world x) u \<noteq> None)) \<and>
    (\<forall>rows v. sc_stage st = Passing rows (Some v) \<longrightarrow> w_flights (sc_world st) v \<noteq> None) \<and>
    (\<exists>n. sc_stage ((scan_alone tiers packs answers ^^ n) st) = Idle) \<and>
    (sc_stage st = Leaving \<longrightarrow> sc_stage (scan_turn (call_scan st)) = Idle \<and> sc_world (scan_turn (call_scan st)) = sc_world st)"
proof (intro conjI allI impI)
  fix u sts
  assume h: "sc_stage st \<noteq> Leaving" "queued (sc_clock st) u (w_db (sc_world st))" "w_flights (sc_world st) u = None"
    and path: "scan_path (call_scan st # sts)" and idle: "sc_stage (last (call_scan st # sts)) = Idle"
  have "comes_to u (call_scan st)" by (rule call_comes_to[OF h(1,2)])
  moreover have "\<not> comes_to u (last (call_scan st # sts))" using idle by (simp add: comes_to_def)
  moreover have "w_flights (sc_world (call_scan st)) u = None" using h(3) by (simp add: call_scan_def begin_pass_def)
  ultimately show "\<exists>x \<in> set sts. w_flights (sc_world x) u \<noteq> None" using path_comes_to[OF path, of u] by (metis set_ConsD)
next
  show "w_flights (sc_world st) v \<noteq> None" if "sc_stage st = Passing rows (Some v)" for rows v
    using scans.inv_reachable[OF assms] that by (simp add: awaited_ok_def)
qed (simp_all add: alone_ends call_scan_def scan_turn_def)

definition demo_scanner :: scanner where
  "demo_scanner =
     \<lparr>sc_world = \<lparr>w_db = empty_db\<lparr>billing_reads := [\<lparr>br_app_user_id = ''u1'', br_due_at = 5, br_attempts = 0, br_dirty = False\<rparr>]\<rparr>,
        w_flights = (\<lambda>_. None), w_unlinked = (\<lambda>_. None)\<rparr>,
      sc_clock = 7, sc_stage = Idle, sc_again = False\<rparr>"

theorem scan_reaches_every_due_row_witness:
  "\<exists>x \<in> set [scan_turn (call_scan demo_scanner), read_ends (\<lambda>_. None) (\<lambda>_. None) ''u1'' (StoreFailed None FailPages) (scan_turn (call_scan demo_scanner)),
       scan_turn (read_ends (\<lambda>_. None) (\<lambda>_. None) ''u1'' (StoreFailed None FailPages) (scan_turn (call_scan demo_scanner))),
       scan_turn (scan_turn (read_ends (\<lambda>_. None) (\<lambda>_. None) ''u1'' (StoreFailed None FailPages) (scan_turn (call_scan demo_scanner))))].
     w_flights (sc_world x) ''u1'' \<noteq> None"
proof -
  let ?a = "scan_turn (call_scan demo_scanner)"
  let ?b = "read_ends (\<lambda>_. None) (\<lambda>_. None) ''u1'' (StoreFailed None FailPages) ?a"
  have idle: "sc_stage demo_scanner = Idle" "scan_step\<^sup>*\<^sup>* demo_scanner demo_scanner" by (simp_all add: demo_scanner_def)
  have due: "queued (sc_clock demo_scanner) ''u1'' (w_db (sc_world demo_scanner))" "w_flights (sc_world demo_scanner) ''u1'' = None"
    by (simp_all add: demo_scanner_def queued_iff)
  have a: "sc_stage ?a = Passing [] (Some ''u1'')" "\<not> sc_again ?a"
    by (simp_all add: demo_scanner_def call_scan_def begin_pass_def scan_turn_def due_reads_def)
  then have "sc_stage ?b = Passing [] None" "\<not> sc_again ?b" by (simp_all add: read_ends_def)
  then have "sc_stage (scan_turn (scan_turn ?b)) = Idle" by (simp add: scan_turn_def)
  moreover have "scan_path [call_scan demo_scanner, ?a, ?b, scan_turn ?b, scan_turn (scan_turn ?b)]"
    by (simp add: scan_step.turned scan_step.ended)
  ultimately show ?thesis
    using due idle(1)
    by (intro scan_reaches_every_due_row[OF idle, THEN conjunct1, rule_format, of "''u1''"]) simp_all
qed

end
