(* ===== verification/Signing.thy ===== *)
theory Signing
  imports Text Push Identity
begin

section \<open>Signed tokens\<close>

text \<open>
  \<open>src/src/push/jwt.ts\<close> and the claims signed with it: the provider token of Apple's push service (\<open>push/apns-token.ts\<close>), Apple's client secret
  (\<open>auth/apple-client-secret.ts\<close>) and the assertion for Google (\<open>push/fcm.ts\<close>). The text that is signed is built here byte by byte; the signature itself
  is a parameter, \<^term>\<open>None\<close> for a key that cannot be read.
\<close>

subsection \<open>Base64url\<close>

definition base64url_alphabet :: string where
  "base64url_alphabet = ''ABCDEFGHIJKLMNOPQRSTUVWXYZabcdefghijklmnopqrstuvwxyz0123456789-_''"

definition sextet :: "nat \<Rightarrow> char" where
  "sextet n = base64url_alphabet ! (n mod 64)"

fun base64url :: "string \<Rightarrow> string" where
  "base64url [] = []"
| "base64url [a] = [sextet (of_char a div 4), sextet (of_char a * 16)]"
| "base64url [a, b] = [sextet (of_char a div 4), sextet (of_char a * 16 + of_char b div 16), sextet (of_char b * 4)]"
| "base64url (a # b # c # rest) =
     [sextet (of_char a div 4), sextet (of_char a * 16 + of_char b div 16), sextet (of_char b * 4 + of_char c div 64), sextet (of_char c)] @ base64url rest"

subsection \<open>A flat object as text\<close>

datatype claim = ClaimText string | ClaimNumber int

definition hex_digit :: "nat \<Rightarrow> char" where
  "hex_digit n = ''0123456789abcdef'' ! n"

text \<open>A character inside the quotes, as \<open>JSON.stringify\<close> writes it; the bytes of longer characters stay as they are.\<close>

definition quoted_char :: "char \<Rightarrow> string" where
  "quoted_char c =
     (if c = CHR 0x22 then [CHR 0x5C, CHR 0x22] else if c = CHR 0x5C then [CHR 0x5C, CHR 0x5C]
      else if c = CHR 0x08 then [CHR 0x5C, CHR ''b''] else if c = CHR 0x09 then [CHR 0x5C, CHR ''t''] else if c = CHR 0x0A then [CHR 0x5C, CHR ''n'']
      else if c = CHR 0x0C then [CHR 0x5C, CHR ''f''] else if c = CHR 0x0D then [CHR 0x5C, CHR ''r'']
      else if of_char c < (32 :: nat) then [CHR 0x5C, CHR ''u'', CHR ''0'', CHR ''0'', hex_digit (of_char c div 16), hex_digit (of_char c mod 16)]
      else [c])"

definition quoted :: "string \<Rightarrow> string" where
  "quoted x = CHR 0x22 # concat (map quoted_char x) @ [CHR 0x22]"

fun claim_text :: "claim \<Rightarrow> string" where
  "claim_text (ClaimText x) = quoted x"
| "claim_text (ClaimNumber n) = int_text n"

definition claims_text :: "(string \<times> claim) list \<Rightarrow> string" where
  "claims_text cs = ''{'' @ join_with '','' (map (\<lambda>(k, v). quoted k @ '':'' @ claim_text v) cs) @ ''}''"

subsection \<open>Tokens\<close>

definition sign_jwt :: "(string \<Rightarrow> string option) \<Rightarrow> (string \<times> claim) list \<Rightarrow> (string \<times> claim) list \<Rightarrow> string option" where
  "sign_jwt signature header claims =
     (let compact = base64url (claims_text header) @ ''.'' @ base64url (claims_text claims)
      in map_option (\<lambda>sig. compact @ ''.'' @ base64url sig) (signature compact))"

definition apns_jwt :: "(string \<Rightarrow> string option) \<Rightarrow> string \<Rightarrow> string \<Rightarrow> seconds \<Rightarrow> string option" where
  "apns_jwt signature team_id key_id now =
     sign_jwt signature [(''alg'', ClaimText ''ES256''), (''kid'', ClaimText key_id)] [(''iss'', ClaimText team_id), (''iat'', ClaimNumber now)]"

definition client_secret_claims :: "string \<Rightarrow> string \<Rightarrow> seconds \<Rightarrow> (string \<times> claim) list" where
  "client_secret_claims client_id team_id now =
     [(''iss'', ClaimText team_id), (''aud'', ClaimText ''https://appleid.apple.com''), (''sub'', ClaimText client_id), (''iat'', ClaimNumber now),
      (''exp'', ClaimNumber (now + client_secret_lifetime))]"

definition mint_client_secret :: "(string \<Rightarrow> string option) \<Rightarrow> string \<Rightarrow> string \<Rightarrow> string \<Rightarrow> seconds \<Rightarrow> string option" where
  "mint_client_secret signature client_id team_id key_id now =
     sign_jwt signature [(''alg'', ClaimText ''ES256''), (''kid'', ClaimText key_id)] (client_secret_claims client_id team_id now)"

definition fcm_assertion :: "(string \<Rightarrow> string option) \<Rightarrow> string \<Rightarrow> string \<Rightarrow> string \<Rightarrow> seconds \<Rightarrow> string option" where
  "fcm_assertion signature email token_url fcm_scope now =
     sign_jwt signature [(''alg'', ClaimText ''RS256''), (''typ'', ClaimText ''JWT'')]
       [(''iss'', ClaimText email), (''sub'', ClaimText email), (''aud'', ClaimText token_url), (''scope'', ClaimText fcm_scope),
        (''iat'', ClaimNumber now), (''exp'', ClaimNumber (now + 3600))]"

section \<open>What the other side reads\<close>

subsection \<open>Out of base64url\<close>

definition sextet_value :: "char \<Rightarrow> nat option" where
  "sextet_value c = (let n = length (takeWhile (\<lambda>x. x \<noteq> c) base64url_alphabet) in if n < 64 then Some n else None)"

fun from_sextets :: "nat list \<Rightarrow> string option" where
  "from_sextets [] = Some []"
| "from_sextets [_] = None"
| "from_sextets [a, b] = Some [char_of (a * 4 + b div 16)]"
| "from_sextets [a, b, c] = Some [char_of (a * 4 + b div 16), char_of (b mod 16 * 16 + c div 4)]"
| "from_sextets (a # b # c # d # rest) =
     map_option ((@) [char_of (a * 4 + b div 16), char_of (b mod 16 * 16 + c div 4), char_of (c mod 4 * 64 + d)]) (from_sextets rest)"

definition from_base64url :: "string \<Rightarrow> string option" where
  "from_base64url x = Option.bind (those (map sextet_value x)) from_sextets"

lemma sextet_values: "list_all (\<lambda>n. sextet_value (base64url_alphabet ! n) = Some n \<and> base64url_alphabet ! n \<noteq> CHR ''.'') [0..<64]"
  by code_simp

lemma sextet_back [simp]: "sextet_value (sextet n) = Some (n mod 64)" "sextet n \<noteq> CHR ''.''"
  using sextet_values by (auto simp: list_all_iff sextet_def)

lemma of_char_less: "(of_char c :: nat) < 256"
  by (metis of_char_mod_256 mod_less_divisor zero_less_numeral)

lemma over_64: "x < 64 \<Longrightarrow> n = 64 * q + x \<Longrightarrow> n mod 64 = (x :: nat)"
  by simp

lemma sextet_first: assumes "a < 256" "b < 16" shows "a div 4 * 4 + (a * 16 + b) mod 64 div 16 = (a :: nat)"
proof -
  have "(a * 16 + b) mod 64 = a mod 4 * 16 + b"
  proof (rule over_64)
    show "a * 16 + b = 64 * (a div 4) + (a mod 4 * 16 + b)" using div_mult_mod_eq[of a 4] by linarith
    have "a mod 4 < 4" by simp
    then show "a mod 4 * 16 + b < 64" using assms(2) by linarith
  qed
  then show ?thesis using assms(2) by simp
qed

lemma sextet_second: assumes "b < 256" "c < 4" shows "(a * 16 + b div 16) mod 64 mod 16 * 16 + (b * 4 + c) mod 64 div 4 = (b :: nat)"
proof -
  have "(a * 16 + b div 16) mod 64 mod 16 = (a * 16 + b div 16) mod 16" by (rule mod_mod_cancel) simp
  moreover have "\<dots> = b div 16" using assms(1) by simp
  moreover have "(b * 4 + c) mod 64 = b mod 16 * 4 + c"
  proof (rule over_64)
    show "b * 4 + c = 64 * (b div 16) + (b mod 16 * 4 + c)" using div_mult_mod_eq[of b 16] by linarith
    have "b mod 16 < 16" by simp
    then show "b mod 16 * 4 + c < 64" using assms(2) by linarith
  qed
  ultimately show ?thesis using assms(2) by simp
qed

lemma sextet_third: assumes "c < 256" shows "(b * 4 + c div 64) mod 64 mod 4 * 64 + c mod 64 = (c :: nat)"
proof -
  have "(b * 4 + c div 64) mod 64 mod 4 = (b * 4 + c div 64) mod 4" by (rule mod_mod_cancel) simp
  moreover have "\<dots> = c div 64" using assms by simp
  ultimately show ?thesis by simp
qed

lemmas sextets = sextet_first sextet_second sextet_third sextet_first[where b = 0, simplified] sextet_second[where c = 0, simplified]

lemma of_char_div [simp]: "of_char c div 4 < (64 :: nat)" "of_char c div 16 < (16 :: nat)" "of_char c div 64 < (4 :: nat)"
  using of_char_less[of c] by (auto intro!: less_mult_imp_div_less)

lemma from_base64url_back [simp]: "from_base64url (base64url x) = Some x"
proof -
  have "\<exists>ns. those (map sextet_value (base64url x)) = Some ns \<and> from_sextets ns = Some x"
  proof (induction x rule: base64url.induct)
    case (2 a)
    have "char_of (of_char a div 4 * 4 + of_char a * 16 mod 64 div 16 :: nat) = a" using sextets(4)[OF of_char_less] by simp
    then show ?case by simp
  next
    case (3 a b)
    have "char_of (of_char a div 4 * 4 + (of_char a * 16 + of_char b div 16) mod 64 div 16 :: nat) = a"
      "char_of ((of_char a * 16 + of_char b div 16) mod 64 mod 16 * 16 + of_char b * 4 mod 64 div 4 :: nat) = b"
      using sextets(1)[OF of_char_less[of a], of "of_char b div 16"] sextets(5)[OF of_char_less] by simp_all
    then show ?case by simp
  next
    case (4 a b c rest)
    have "char_of (of_char a div 4 * 4 + (of_char a * 16 + of_char b div 16) mod 64 div 16 :: nat) = a"
      "char_of ((of_char a * 16 + of_char b div 16) mod 64 mod 16 * 16 + (of_char b * 4 + of_char c div 64) mod 64 div 4 :: nat) = b"
      "char_of ((of_char b * 4 + of_char c div 64) mod 64 mod 4 * 64 + of_char c mod 64 :: nat) = c"
      using sextets(1)[OF of_char_less[of a], of "of_char b div 16"] sextets(2)[OF of_char_less[of b], of "of_char c div 64"]
        sextets(3)[OF of_char_less[of c]] by simp_all
    with 4 show ?case by auto
  qed simp
  then show ?thesis by (auto simp: from_base64url_def)
qed

lemma no_dot: "CHR ''.'' \<notin> set (base64url x)"
  by (induction x rule: base64url.induct) (auto dest: sym)

text \<open>Quotes can be taken off again.\<close>

fun unquoted :: "string \<Rightarrow> (string \<times> string) option" where
  "unquoted [] = None"
| "unquoted (c # xs) =
     (if c = CHR 0x22 then Some ([], xs)
      else if c = CHR 0x5C then
        (case xs of [] \<Rightarrow> None
         | d # ys \<Rightarrow>
             if d = CHR ''u'' then
               (case ys of _ # _ # h # l # zs \<Rightarrow>
                  map_option (\<lambda>(t, r). (char_of (length (takeWhile (\<lambda>x. x \<noteq> h) ''0123456789abcdef'') * 16 + length (takeWhile (\<lambda>x. x \<noteq> l) ''0123456789abcdef'')) # t, r))
                    (unquoted zs)
                | _ \<Rightarrow> None)
             else map_option (\<lambda>(t, r).
                 ((if d = CHR ''b'' then CHR 0x08 else if d = CHR ''t'' then CHR 0x09 else if d = CHR ''n'' then CHR 0x0A
                   else if d = CHR ''f'' then CHR 0x0C else if d = CHR ''r'' then CHR 0x0D else d) # t, r)) (unquoted ys))
      else map_option (\<lambda>(t, r). (c # t, r)) (unquoted xs))"

lemma hex_digits: "list_all (\<lambda>n. length (takeWhile (\<lambda>x. x \<noteq> hex_digit n) ''0123456789abcdef'') = n) [0..<16]"
  by code_simp

lemma hex_back: "n < 16 \<Longrightarrow> length (takeWhile (\<lambda>x. x \<noteq> hex_digit n) ''0123456789abcdef'') = n"
  using hex_digits by (simp add: list_all_iff)

lemma unquoted_char: "unquoted (quoted_char c @ xs) = map_option (\<lambda>(t, r). (c # t, r)) (unquoted xs)"
proof -
  have "of_char c < (32 :: nat) \<Longrightarrow> char_of (of_char c div 16 * 16 + of_char c mod 16 :: nat) = c" by simp
  then show ?thesis
    using hex_back[of "of_char c div 16"] hex_back[of "of_char c mod 16"]
    by (simp add: quoted_char_def del: takeWhile.simps)
qed

lemma unquoted_back: "unquoted (concat (map quoted_char x) @ CHR 0x22 # rest) = Some (x, rest)"
  by (induction x) (simp_all add: unquoted_char)

text \<open>Whatever the texts in them are, a token has three parts, split at its two dots: the header, the claims and the signature come out of them again byte for
  byte, and what was signed is the token up to the second dot. A text among the claims stands between quotes that nothing in it closes.\<close>

theorem signed_token_reads_back:
  assumes "sign_jwt signature header claims = Some token"
  shows "\<exists>h c x sig. split_on (CHR ''.'') token = [h, c, x] \<and> from_base64url h = Some (claims_text header) \<and>
    from_base64url c = Some (claims_text claims) \<and> from_base64url x = Some sig \<and> signature (h @ ''.'' @ c) = Some sig"
    and "unquoted (tl (quoted v) @ rest) = Some (v, rest)"
proof -
  let ?h = "base64url (claims_text header)" and ?c = "base64url (claims_text claims)"
  obtain sig where sig: "signature (?h @ ''.'' @ ?c) = Some sig" "token = (?h @ ''.'' @ ?c) @ ''.'' @ base64url sig"
    using assms by (auto simp: sign_jwt_def Let_def)
  have "split_on (CHR ''.'') token = [?h, ?c, base64url sig]"
    using split_on_append[OF no_dot[of "claims_text header"], of "?c @ ''.'' @ base64url sig"]
      split_on_append[OF no_dot[of "claims_text claims"], of "base64url sig"] no_dot[of sig]
    by (simp add: sig(2))
  then show "\<exists>h c x sig. split_on (CHR ''.'') token = [h, c, x] \<and> from_base64url h = Some (claims_text header) \<and>
    from_base64url c = Some (claims_text claims) \<and> from_base64url x = Some sig \<and> signature (h @ ''.'' @ c) = Some sig"
    using sig(1) by auto
qed (simp add: quoted_def unquoted_back)

text \<open>Apple's client secret, handed out by the provider of \<open>appleProvider\<close> on a key: whenever it is asked for, its claims end later than that and no later than
  Apple allows.\<close>

theorem client_secret_ends_in_time:
  assumes "\<And>t. mint_client_secret signature client team kid t = Some (mint t)" "sorted (ts @ [now])"
  shows "\<exists>i h c x. split_on (CHR ''.'') (snd (client_secret_get mint now (secret_run mint ts))) = [h, c, x] \<and>
    from_base64url c = Some (claims_text (client_secret_claims client team i)) \<and>
    i \<le> now \<and> now < i + client_secret_lifetime \<and> i + client_secret_lifetime < i + apple_max_lifetime"
proof -
  obtain i where i: "snd (client_secret_get mint now (secret_run mint ts)) = mint i" "i \<le> now"
    "now + client_secret_refresh < i + client_secret_lifetime" "client_secret_lifetime < apple_max_lifetime"
    using client_secret_is_live[OF assms(2), of mint] by blast
  have "sign_jwt signature [(''alg'', ClaimText ''ES256''), (''kid'', ClaimText kid)] (client_secret_claims client team i) = Some (mint i)"
    using assms(1)[of i] by (simp add: mint_client_secret_def)
  from signed_token_reads_back(1)[OF this] i show ?thesis
    by (fastforce simp: client_secret_refresh_def)
qed

end
