(* ===== verification/Operator.thy ===== *)
theory Operator
  imports Erasing CancelAnswers Stats Identity
begin

section \<open>The operator's command line\<close>

text \<open>
  \<open>src/src/cli.ts\<close>, the command \<open>critalarm\<close> on the database of a server: the admin token, a server's key that is left out of the statistics, the erase
  asked for by mail and the report on cancel answers. A run ends in what it prints, in one of two refusals with exit code 2, or in an uncaught
  exception of the database. The configuration and the migrations that come first have theories of their own.
\<close>

subsection \<open>One run\<close>

record cli_env =
  ce_fresh_token :: string
  ce_key_hash :: "string \<Rightarrow> string"
  ce_quote :: "string \<Rightarrow> string"

datatype cli_end = Printed "string list" | ShowsUsage | NoAccount string | Crashed

definition exit_code :: "cli_end \<Rightarrow> nat" where
  "exit_code r = (case r of Printed _ \<Rightarrow> 0 | ShowsUsage \<Rightarrow> 2 | NoAccount _ \<Rightarrow> 2 | Crashed \<Rightarrow> 1)"

text \<open>The \<open>n\<close>th argument, empty when there is none.\<close>

definition argument :: "nat \<Rightarrow> string list \<Rightarrow> string" where
  "argument n args = (case drop n args of [] \<Rightarrow> [] | x # _ \<Rightarrow> x)"

definition deleted_line :: "ident \<Rightarrow> delete_counts \<Rightarrow> string" where
  "deleted_line acc c =
     ''deleted '' @ acc @ '': '' @ nat_text (dl_accounts c) @ '' accounts, '' @ nat_text (dl_devices c) @ '' devices, '' @
     nat_text (dl_topics c) @ '' topics, '' @ nat_text (dl_incidents c) @ '' incidents, '' @ nat_text (dl_messages c) @ '' messages, '' @
     nat_text (dl_identities c) @ '' identities, '' @ nat_text (dl_events_cleared c) @ '' billing events cleared''"

definition account_command :: "string list \<Rightarrow> db \<Rightarrow> db \<times> cli_end" where
  "account_command args s =
     (let given = argument 2 args; by_mail = given = ''--email''; email = argument 3 args
      in if given = [] \<or> by_mail \<and> email = [] then (s, ShowsUsage)
         else case find_account (if by_mail then ByEmail email else ById given) s of
                None \<Rightarrow> (s, NoAccount (if by_mail then email else given))
              | Some target \<Rightarrow>
                  (case erase_account target s of None \<Rightarrow> (s, Crashed)
                   | Some (s', counts) \<Rightarrow> (s', Printed [deleted_line target counts])))"

definition zeroed_line :: "string \<Rightarrow> nat \<Rightarrow> string" where
  "zeroed_line key rows = ''zeroed '' @ key @ '' ('' @ nat_text rows @ '' counter rows kept, excluded from totals)''"

definition stats_command :: "cli_env \<Rightarrow> string list \<Rightarrow> db \<Rightarrow> db \<times> cli_end" where
  "stats_command env args s =
     (let given = argument 2 args
      in if given = [] then (s, ShowsUsage)
         else let key = (if starts_with ''rk_'' given then ce_key_hash env given else given)
              in case zero_key key s of (s', rows) \<Rightarrow> (s', Printed [zeroed_line key rows]))"

definition cancel_command :: "cli_env \<Rightarrow> string list \<Rightarrow> db \<Rightarrow> db \<times> cli_end" where
  "cancel_command env args s =
     (let rest = drop 1 args;
          since = (if length rest = 2 \<and> argument 0 rest = ''--since'' then parse_since_date (argument 1 rest) else None)
      in (s, if rest \<noteq> [] \<and> since = None then ShowsUsage else Printed (report_cancel_answers (ce_quote env) since s)))"

definition token_command :: "cli_env \<Rightarrow> string list \<Rightarrow> db \<Rightarrow> db \<times> cli_end" where
  "token_command env args s =
     (let command = argument (if argument 0 args = ''token'' then 1 else 0) args
      in if command = ''rotate'' then (rotate_admin_token (ce_fresh_token env) s, Printed [ce_fresh_token env])
         else case (if command = ''show'' then show_admin_token s else None) of
                None \<Rightarrow> (s, ShowsUsage) | Some token \<Rightarrow> (s, Printed [token]))"

definition cli :: "cli_env \<Rightarrow> string list \<Rightarrow> db \<Rightarrow> db \<times> cli_end" where
  "cli env args s =
     (if argument 0 args = ''account'' \<and> argument 1 args = ''delete'' then account_command args s
      else if argument 0 args = ''stats'' \<and> argument 1 args = ''zero-key'' then stats_command env args s
      else if argument 0 args = ''cancel-answers'' then cancel_command env args s
      else token_command env args s)"

section \<open>Lemmas\<close>

lemma argument_simps [simp]:
  "argument n [] = []" "argument 0 (x # xs) = x" "argument (Suc n) (x # xs) = argument n xs"
  "argument (numeral k) (x # xs) = argument (pred_numeral k) xs"
  by (simp_all add: argument_def numeral_eq_Suc)

text \<open>An erase that goes through took everybody with it who was led to the erased account.\<close>

lemma whole_live: "whole s F \<Longrightarrow> live_hops n s x \<in> set F \<Longrightarrow> x \<in> set F"
proof (induction n s x rule: live_hops.induct)
  case (2 n s x)
  then show ?case
    by (fastforce simp: whole_def dest!: account_of_in split: option.splits)
qed simp

definition merges_end :: "db \<Rightarrow> bool" where
  "merges_end s \<longleftrightarrow> distinct (map a_id (accounts s)) \<and> distinct (map us_email (users s)) \<and>
     list_all (\<lambda>i. account_of s (id_account_id i) \<noteq> None) (account_identities s) \<and>
     list_all (\<lambda>a. merged_into s (live_account s (a_id a)) = None \<and> account_of s (live_account s (a_id a)) \<noteq> None) (accounts s)"

lemma found_target:
  assumes "merges_end s" "find_account q s = Some target"
  obtains x a where "account_of s x \<noteq> None" "target = live_account s x"
    "case q of ById g \<Rightarrow> x = g
     | ByEmail e \<Rightarrow> \<exists>i \<in> set (account_identities s). id_account_id i = x \<and> (\<exists>u \<in> set (users s). us_id u = id_user_id i \<and> us_email u = e)"
    "account_of s target = Some a" "a_merged_into a = None" "live_account s target = target"
proof -
  have "\<exists>x. account_of s x \<noteq> None \<and> target = live_account s x \<and>
      (case q of ById g \<Rightarrow> x = g | ByEmail e \<Rightarrow> \<exists>i \<in> set (account_identities s). id_account_id i = x \<and> (\<exists>u \<in> set (users s). us_id u = id_user_id i \<and> us_email u = e))"
    using assms
    by (fastforce simp: find_account_def merges_end_def list_all_iff list_ex_iff account_of_in dest!: find_SomeD split: account_query.splits)
  then obtain x where x: "account_of s x \<noteq> None" "target = live_account s x"
    "case q of ById g \<Rightarrow> x = g | ByEmail e \<Rightarrow> \<exists>i \<in> set (account_identities s). id_account_id i = x \<and> (\<exists>u \<in> set (users s). us_id u = id_user_id i \<and> us_email u = e)"
    by blast
  obtain a where a: "account_of s target = Some a" "a_merged_into a = None"
    using assms(1) x(1,2) account_of_in by (fastforce simp: merges_end_def merged_into_def list_all_iff)
  have "live_account s target = target"
    using a live_hops.simps(2)[of 7 s target] by (simp add: live_account_def)
  with x a that show ?thesis by blast
qed

lemma erased_for_good:
  assumes "merges_end s" "find_account q s = Some target"
  defines "family \<equiv> account_family s target"
  shows "if whole s family
         then \<exists>c. erase_account target s = Some (erased (set family) s, c) \<and> counts_rows c s (erased (set family) s) \<and>
           find_account q (erased (set family) s) = None
         else erase_account target s = None"
proof -
  obtain x a where x: "account_of s x \<noteq> None" "target = live_account s x"
      "case q of ById g \<Rightarrow> x = g
       | ByEmail e \<Rightarrow> \<exists>i \<in> set (account_identities s). id_account_id i = x \<and> (\<exists>u \<in> set (users s). us_id u = id_user_id i \<and> us_email u = e)"
      "account_of s target = Some a" "a_merged_into a = None" "live_account s target = target"
    by (rule found_target[OF assms(1,2)])
  have d: "distinct (map a_id (accounts s))" using assms(1) by (simp add: merges_end_def)
  note e = erase_effect[OF d, of target a, unfolded x(6), OF x(4,5), folded family_def]
  let ?s = "erased (set family) s"
  have "find_account q ?s = None" if w: "whole s family"
  proof -
    have "target \<in> set family" unfolding family_def by (rule account_family_rooted(2)[OF d])
    with x(2) have xF: "x \<in> set family" using whole_live[OF w] by (simp add: live_account_def)
    have g: "accounts ?s = del_where (\<lambda>a. a_id a \<in> set family) (accounts s)" "users ?s = del_where (\<lambda>u. user_in s (set family) (us_id u)) (users s)"
      by (simp_all add: erased_def without_fields)
    show ?thesis
    proof (cases q)
      case (ById g')
      with x(3) xF g(1) have "account_of ?s g' = None" by (auto simp: account_of_def find_None_iff table_simps)
      with ById show ?thesis by (simp add: find_account_def)
    next
      case (ByEmail mail)
      with x(3) obtain i u where iu: "i \<in> set (account_identities s)" "id_account_id i = x" "u \<in> set (users s)" "us_id u = id_user_id i" "us_email u = mail"
        by auto
      have "user_in s (set family) (us_id u)" using iu xF by (auto simp: user_in_def)
      moreover have "v = u" if "v \<in> set (users s)" "us_email v = mail" for v
        using that iu(3,5) assms(1) by (auto simp: merges_end_def distinct_map inj_on_def)
      ultimately have "us_email v \<noteq> mail" if "v \<in> set (users ?s)" for v
        using that by (auto simp: g(2) table_simps)
      then show ?thesis by (auto simp: ByEmail find_account_def list_ex_iff find_None_iff)
    qed
  qed
  moreover have "erase_account target s = None \<longleftrightarrow> \<not> whole s family" using e by blast
  ultimately show ?thesis using e by (cases "erase_account target s") auto
qed

text \<open>Whom the words after \<open>account delete\<close> ask for.\<close>

definition asked_for :: "string list \<Rightarrow> account_query option" where
  "asked_for who =
     (if argument 0 who = ''--email'' then (if argument 1 who = [] then None else Some (ByEmail (argument 1 who)))
      else if argument 0 who = [] then None else Some (ById (argument 0 who)))"

text \<open>What the command answers and the database it leaves, for every way to call it.\<close>

definition erase_run :: "string list \<Rightarrow> db \<Rightarrow> db \<times> cli_end \<Rightarrow> bool" where
  "erase_run who s out \<longleftrightarrow>
     (case asked_for who of None \<Rightarrow> out = (s, ShowsUsage)
      | Some q \<Rightarrow>
          (case find_account q s of None \<Rightarrow> out = (s, NoAccount (case q of ById g \<Rightarrow> g | ByEmail e \<Rightarrow> e))
           | Some target \<Rightarrow>
               (let family = account_family s target; s1 = erased (set family) s
                in if whole s family then \<exists>c. out = (s1, Printed [deleted_line target c]) \<and> counts_rows c s s1 \<and> find_account q s1 = None
                   else out = (s, Crashed))))"

lemma argument_Suc: "argument n (x # xs) = (case n of 0 \<Rightarrow> x | Suc m \<Rightarrow> argument m xs)"
  by (simp add: argument_def split: nat.split)

lemma erase_command:
  assumes "merges_end s"
  shows "erase_run who s (cli env (''account'' # ''delete'' # who) s)"
proof -
  have run: "cli env (''account'' # ''delete'' # who) s =
      (case asked_for who of None \<Rightarrow> (s, ShowsUsage)
       | Some q \<Rightarrow> (case find_account q s of None \<Rightarrow> (s, NoAccount (case q of ById g \<Rightarrow> g | ByEmail e \<Rightarrow> e))
                   | Some target \<Rightarrow> (case erase_account target s of None \<Rightarrow> (s, Crashed)
                                    | Some (s', c) \<Rightarrow> (s', Printed [deleted_line target c]))))"
    by (auto simp: cli_def account_command_def asked_for_def Let_def argument_Suc numeral_eq_Suc split: option.split)
  show ?thesis
  proof (cases "asked_for who")
    case asked: (Some q)
    show ?thesis
    proof (cases "find_account q s")
      case (Some target)
      with erased_for_good[OF assms Some] asked show ?thesis by (auto simp: run erase_run_def Let_def split: if_splits)
    qed (simp add: run erase_run_def asked)
  qed (simp add: run erase_run_def)
qed

lemma erased_once:
  assumes "erase_run who s (cli env (''account'' # ''delete'' # who) s)" "cli env (''account'' # ''delete'' # who) s = (s1, Printed ls)"
  shows "\<exists>w. cli env' (''account'' # ''delete'' # who) s1 = (s1, NoAccount w)"
proof -
  obtain q where q: "asked_for who = Some q" "find_account q s1 = None"
    using assms by (auto simp: erase_run_def Let_def split: option.splits if_splits)
  then show ?thesis
    by (auto simp: cli_def account_command_def asked_for_def Let_def argument_Suc numeral_eq_Suc split: if_splits)
qed

lemma zero_again: "zero_key k (fst (zero_key k s)) = zero_key k s"
  by (auto simp: zero_key_def insert_or_ignore_def)

lemma zeroed_keys: "set (counters_zeroed (fst (zero_key k s))) = insert k (set (counters_zeroed s))"
  by (auto simp: zero_key_def insert_or_ignore_def list_ex_iff)

text \<open>The first word of the token commands can be left out, and whatever follows is not looked at.\<close>

lemma bare_words_act:
  "cli env (''rotate'' # rest) s = cli env [''token'', ''rotate''] s"
  "cli env (''show'' # rest) s = cli env [''token'', ''show''] s"
  by (simp_all add: cli_def token_command_def)

section \<open>What a run leaves behind\<close>

text \<open>C18: What the operator's commands do. A run that ends with an exit code other than 0 has changed nothing, and neither has \<open>token show\<close> or the report. The erase
  removes the family of the account the address or the id leads to, and all that is theirs in every table, and nothing else; it prints the rows that went, and the same request
  then finds nobody; it leaves the database alone when it finds nobody, was asked for nobody, or the family is longer than the walk. A key left out of the statistics keeps its rows and is missing from every
  total, the key a server was issued counts as its hash, and leaving it out twice is leaving it out once. After a rotation exactly the holders of the
  token it printed are let in, and \<open>show\<close> prints it.\<close>

theorem operator_contract:
  assumes "merges_end s"
  shows "(\<forall>args s1 r. cli env args s = (s1, r) \<longrightarrow> exit_code r \<noteq> 0 \<or> argument 0 args = ''cancel-answers'' \<or> argument 0 args = ''token'' \<and> argument 1 args = ''show'' \<longrightarrow> s1 = s) \<and>
    (\<forall>who. erase_run who s (cli env (''account'' # ''delete'' # who) s)) \<and>
    (\<forall>who s1 ls. cli env (''account'' # ''delete'' # who) s = (s1, Printed ls) \<longrightarrow>
       (\<exists>w. cli env' (''account'' # ''delete'' # who) s1 = (s1, NoAccount w))) \<and>
    (\<forall>k s1 r. k \<noteq> [] \<longrightarrow> cli env [''stats'', ''zero-key'', k] s = (s1, r) \<longrightarrow>
       (let h = (if starts_with ''rk_'' k then ce_key_hash env k else k)
        in exit_code r = 0 \<and> counters s1 = counters s \<and> cli env [''stats'', ''zero-key'', k] s1 = (s1, r) \<and>
           (h \<noteq> [] \<longrightarrow> \<not> starts_with ''rk_'' h \<longrightarrow> cli env [''stats'', ''zero-key'', h] s = (s1, r)) \<and>
           (\<forall>now by_key m. ss_totals (read_stats now by_key s1) m =
              sum_list (map c_count (filter (\<lambda>c. c_metric c = metric_text m \<and> c_relay_key c \<notin> insert h (set (counters_zeroed s))) (counters s)))))) \<and>
    (\<forall>s1 r. cli env [''token'', ''rotate''] s = (s1, r) \<longrightarrow>
       r = Printed [ce_fresh_token env] \<and> cli env' [''token'', ''show''] s1 = (s1, r) \<and>
       (is_credential ''ad_'' (ce_fresh_token env) \<longrightarrow>
          (authenticate_management sha s1 (Some (''Bearer '' @ given)) SelfHostedMode \<noteq> None \<longleftrightarrow>
             is_credential ''ad_'' given \<and> sha given = sha (ce_fresh_token env))))"
proof (intro conjI allI impI)
  fix args s1 r
  assume "cli env args s = (s1, r)" "exit_code r \<noteq> 0 \<or> argument 0 args = ''cancel-answers'' \<or> argument 0 args = ''token'' \<and> argument 1 args = ''show''"
  then show "s1 = s"
    by (auto simp: cli_def account_command_def stats_command_def cancel_command_def token_command_def Let_def exit_code_def split: if_splits option.splits prod.splits)
next
  fix who show "erase_run who s (cli env (''account'' # ''delete'' # who) s)" by (rule erase_command[OF assms])
next
  fix who s1 ls
  assume "cli env (''account'' # ''delete'' # who) s = (s1, Printed ls)"
  with erase_command[OF assms, of who env] show "\<exists>w. cli env' (''account'' # ''delete'' # who) s1 = (s1, NoAccount w)"
    by (rule erased_once)
next
  fix k s1 r
  assume k: "k \<noteq> []" and run: "cli env [''stats'', ''zero-key'', k] s = (s1, r)"
  let ?h = "if starts_with ''rk_'' k then ce_key_hash env k else k"
  have s1: "s1 = fst (zero_key ?h s)" "r = Printed [zeroed_line ?h (snd (zero_key ?h s))]"
    using k run by (auto simp: cli_def stats_command_def Let_def split: prod.splits)
  have again: "cli env [''stats'', ''zero-key'', k] s1 = (s1, r)"
    using k s1 zero_again[of ?h s] by (simp add: cli_def stats_command_def Let_def split: prod.split)
  have hashed: "?h \<noteq> [] \<Longrightarrow> \<not> starts_with ''rk_'' ?h \<Longrightarrow> cli env [''stats'', ''zero-key'', ?h] s = (s1, r)"
    using s1 by (auto simp: cli_def stats_command_def Let_def split: prod.split)
  have "counters s1 = counters s" "set (counters_zeroed s1) = insert ?h (set (counters_zeroed s))"
    using s1(1) zeroed_keys[of ?h s] by (simp_all add: zero_key_def)
  with again hashed s1(2) show "let h = ?h in exit_code r = 0 \<and> counters s1 = counters s \<and> cli env [''stats'', ''zero-key'', k] s1 = (s1, r) \<and>
           (h \<noteq> [] \<longrightarrow> \<not> starts_with ''rk_'' h \<longrightarrow> cli env [''stats'', ''zero-key'', h] s = (s1, r)) \<and>
           (\<forall>now by_key m. ss_totals (read_stats now by_key s1) m =
              sum_list (map c_count (filter (\<lambda>c. c_metric c = metric_text m \<and> c_relay_key c \<notin> insert h (set (counters_zeroed s))) (counters s))))"
    by (simp add: Let_def exit_code_def read_stats_total total_of_def del: insert_iff)
next
  fix s1 r
  assume "cli env [''token'', ''rotate''] s = (s1, r)"
  then have s1: "s1 = rotate_admin_token (ce_fresh_token env) s" "r = Printed [ce_fresh_token env]"
    by (simp_all add: cli_def token_command_def)
  then show "r = Printed [ce_fresh_token env]" "cli env' [''token'', ''show''] s1 = (s1, r)"
    by (simp_all add: cli_def token_command_def)
  show "authenticate_management sha s1 (Some (''Bearer '' @ given)) SelfHostedMode \<noteq> None \<longleftrightarrow>
      is_credential ''ad_'' given \<and> sha given = sha (ce_fresh_token env)" if "is_credential ''ad_'' (ce_fresh_token env)"
    using s1(1) login_after_rotate[OF that] by simp
qed

theorem operator_contract_witness:
  "\<exists>s1 c. cli \<lparr>ce_fresh_token = ''ad_new'', ce_key_hash = id, ce_quote = id\<rparr> [''account'', ''delete'', ''b''] demo_family = (s1, Printed [c]) \<and>
    cli \<lparr>ce_fresh_token = ''ad_new'', ce_key_hash = id, ce_quote = id\<rparr> [''account'', ''delete'', ''b''] s1 = (s1, NoAccount ''b'')"
proof -
  let ?env = "\<lparr>ce_fresh_token = ''ad_new'', ce_key_hash = id, ce_quote = id\<rparr>"
  have ok: "merges_end demo_family" by code_simp
  have "snd (cli ?env [''account'', ''delete'', ''b''] demo_family) =
      Printed [''deleted a: 2 accounts, 0 devices, 0 topics, 0 incidents, 0 messages, 0 identities, 0 billing events cleared'']"
    by code_simp
  then obtain s1 c where run: "cli ?env [''account'', ''delete'', ''b''] demo_family = (s1, Printed [c])"
    by (cases "cli ?env [''account'', ''delete'', ''b''] demo_family") auto
  then obtain w where "cli ?env [''account'', ''delete'', ''b''] s1 = (s1, NoAccount w)"
    using operator_contract[OF ok, of ?env ?env] by blast
  moreover from this have "w = ''b''"
    by (auto simp: cli_def account_command_def Let_def split: if_splits option.splits)
  ultimately show ?thesis using run by blast
qed

end
