(* ===== verification/Startup.thy ===== *)
theory Startup
  imports Routes RelayClient CheckSending Retention
begin

section \<open>How a process is put together\<close>

text \<open>
  \<open>src/src/main.ts\<close> with \<open>startup-warnings.ts\<close>, \<open>relay/startup.ts\<close> and \<open>request-log.ts\<close>: from a configuration to the senders, the client of the relay, the
  order of the first steps, and the line a request leaves in the log. The intervals, the signals and the listener are calls from outside.
\<close>

subsection \<open>Senders\<close>

text \<open>Where a provider has no credentials, every push gets the answer 501 of \<open>noop_send\<close>, which the dispatcher does not take for a delivery.\<close>

definition push_senders :: "config \<Rightarrow> 'w push_env \<Rightarrow> 'w push_env" where
  "push_senders cf env =
     env\<lparr>pe_apns := (if cf_apns cf = None then noop_send else pe_apns env),
         pe_fcm := (if cf_fcm cf = None then noop_send else pe_fcm env),
         pe_live := (if cf_apns cf = None then None else pe_live env)\<rparr>"

subsection \<open>The relay and the identity\<close>

definition relay_client_options :: "string \<Rightarrow> (string \<Rightarrow> string) \<Rightarrow> config \<Rightarrow> client_options option" where
  "relay_client_options version sha cf =
     (if cf_mode cf = SelfHostedMode
      then Some \<lparr>co_relay_url = cf_relay_url cf, co_base_url = cf_base_url cf, co_full_content = cf_full_content cf,
                 co_secret = cf_registration_secret cf, co_plain_hash = cf_plain_hash cf, co_version = version, co_sha = sha\<rparr>
      else None)"

text \<open>What a start writes before it serves: the token and account of a self-hosted server, and the names its topics have at the relay. The second
  result is the token, when it is to be printed.\<close>

definition start_db :: "config \<Rightarrow> seconds \<Rightarrow> string \<Rightarrow> (ident \<Rightarrow> string) \<Rightarrow> db \<Rightarrow> db \<times> string option" where
  "start_db cf now fresh_token fresh_names s =
     (if cf_mode cf = SelfHostedMode
      then case ensure_self_hosted_identity now fresh_token s of
             (s', token, first) \<Rightarrow> (create_app_db cf fresh_names s', if first then Some token else None)
      else (create_app_db cf fresh_names s, None))"

definition warns_plain_hash :: "config \<Rightarrow> bool" where
  "warns_plain_hash cf \<longleftrightarrow> cf_mode cf = SelfHostedMode \<and> cf_plain_hash cf"

subsection \<open>After listening\<close>

datatype start_step = Listens | Registers | ScansDue

text \<open>\<open>listens\<close> is whether the listener ever came up; nothing that needs it runs before.\<close>

definition run_after_listen :: "bool \<Rightarrow> bool \<Rightarrow> start_step list" where
  "run_after_listen listens registers = (if listens then [Listens] @ (if registers then [Registers] else []) @ [ScansDue] else [])"

subsection \<open>The request log\<close>

text \<open>The check id of a receipt route gets a placeholder: the last three segments of the path decide.\<close>

definition logged_path :: "string \<Rightarrow> string" where
  "logged_path path =
     (case rev (split_on (CHR ''/'') path) of
        final # check # checks # front # rest \<Rightarrow>
          if final = ''receipt'' \<and> check \<noteq> [] \<and> checks = ''checks''
          then join_with ''/'' (rev (final # ''-'' # checks # front # rest)) else path
      | _ \<Rightarrow> path)"

definition request_line :: "string \<Rightarrow> string \<Rightarrow> nat \<Rightarrow> nat \<Rightarrow> string" where
  "request_line verb path status millis = join_with '' '' [verb, logged_path path, nat_text status, nat_text millis @ ''ms'']"

section \<open>What a start amounts to\<close>

lemma split_on_slash: "split_on (CHR ''/'') (x @ CHR ''/'' # y) = split_on (CHR ''/'') x @ split_on (CHR ''/'') y"
proof (induction x)
  case (Cons c x)
  then show ?case by (cases "split_on (CHR ''/'') x") auto
qed simp

lemma join_append: "xs \<noteq> [] \<Longrightarrow> ys \<noteq> [] \<Longrightarrow> join_with sep (xs @ ys) = join_with sep xs @ sep @ join_with sep ys"
  by (induction sep xs rule: join_with.induct) (auto simp: neq_Nil_conv)

lemma no_slash_in_parts: "x \<in> set (split_on c xs) \<Longrightarrow> c \<notin> set x"
  by (induction c xs arbitrary: x rule: split_on.induct) (auto split: if_splits list.splits)

text \<open>The check id of a receipt never reaches the log, and every other path is logged as it came: the line is the same for any two ids.\<close>

theorem logged_path_contract:
  assumes "check \<noteq> []" "CHR ''/'' \<notin> set check"
  shows "logged_path (front @ ''/checks/'' @ check @ ''/receipt'') = front @ ''/checks/-/receipt''"
    and "(\<nexists>front c. c \<noteq> [] \<and> CHR ''/'' \<notin> set c \<and> path = front @ ''/checks/'' @ c @ ''/receipt'') \<Longrightarrow> logged_path path = path"
proof -
  have split: "split_on (CHR ''/'') (front @ ''/checks/'' @ c @ ''/receipt'') = split_on (CHR ''/'') front @ [''checks'', c, ''receipt'']"
    if "CHR ''/'' \<notin> set c" for front c
    using split_on_slash[of front "''checks/'' @ c @ ''/receipt''"] split_on_append[of "CHR ''/''" "''checks''" "c @ ''/receipt''"]
      split_on_append[OF that, of "''receipt''"] by simp
  obtain w ws where front: "rev (split_on (CHR ''/'') front) = w # ws" by (cases "rev (split_on (CHR ''/'') front)") auto
  then have "split_on (CHR ''/'') front = rev ws @ [w]" by (metis rev.simps(2) rev_rev_ident)
  then have "join_with ''/'' (rev ws @ [w, ''checks'', ''-'', ''receipt'']) = front @ ''/checks/-/receipt''"
    using join_append[of "rev ws @ [w]" "[''checks'', ''-'', ''receipt'']" "''/''"] join_split[of "CHR ''/''" front] by simp
  then show "logged_path (front @ ''/checks/'' @ check @ ''/receipt'') = front @ ''/checks/-/receipt''"
    using split[OF assms(2), of front] assms(1) front by (simp add: logged_path_def)
next
  assume none: "\<nexists>front c. c \<noteq> [] \<and> CHR ''/'' \<notin> set c \<and> path = front @ ''/checks/'' @ c @ ''/receipt''"
  show "logged_path path = path"
  proof (rule ccontr)
    assume "logged_path path \<noteq> path"
    then obtain c f rest where r: "rev (split_on (CHR ''/'') path) = ''receipt'' # c # ''checks'' # f # rest" "c \<noteq> []"
      by (auto simp: logged_path_def split: list.splits if_splits)
    then have s: "split_on (CHR ''/'') path = rev (f # rest) @ [''checks'', c, ''receipt'']" using rev_rev_ident[of "split_on (CHR ''/'') path"] by simp
    have "path = join_with ''/'' (rev (f # rest) @ [''checks'', c, ''receipt''])" using join_split[of "CHR ''/''" path] s by simp
    then have "path = join_with ''/'' (rev (f # rest)) @ ''/checks/'' @ c @ ''/receipt''" by (subst (asm) join_append) auto
    moreover have "CHR ''/'' \<notin> set c"
      using s no_slash_in_parts[of c "CHR ''/''" path] by auto
    ultimately show False using none r(2) by blast
  qed
qed

text \<open>Without any provider nothing is ever counted as delivered, whatever is dispatched, and the devices and their tokens stay as they are.\<close>

lemma no_provider_alarm:
  assumes "cf_apns cf = None" "cf_fcm cf = None"
  shows "dp_delivered (send_alarm (push_senders cf env) ev d st) = dp_delivered st"
    and "dp_db (send_alarm (push_senders cf env) ev d st) = pe_meanwhile env (length (dp_calls st)) (dp_db st)"
  using assms
  by (simp_all add: send_alarm_def push_senders_def sender_for_def noop_send_def settle_alarm_def Let_def accepted_status_def remember_apns_environment_def)

lemma no_provider_fold:
  assumes "cf_apns cf = None" "cf_fcm cf = None"
  shows "dp_delivered (fold (send_alarm (push_senders cf env) ev) ds st) = dp_delivered st"
  by (induction ds arbitrary: st) (simp_all add: no_provider_alarm(1)[OF assms])

theorem no_provider_delivers_nothing:
  assumes "cf_apns cf = None" "cf_fcm cf = None"
  shows "dp_delivered (dispatch_events (push_senders cf env) evs st) = dp_delivered st"
proof -
  have "dp_delivered (dispatch_event (push_senders cf env) ev st) = dp_delivered st" for ev st
    using assms no_provider_fold[OF assms]
    by (auto simp: dispatch_event_def send_to_devices_def update_live_activities_def push_senders_def split: option.split)
  then show ?thesis unfolding dispatch_events_def by (induction evs arbitrary: st) auto
qed

text \<open>A self-hosted server keeps to itself: it forwards to its relay, it mounts no route for devices, checks, sign-in, relaying or
  statistics, it deletes no history, no rounds and no answers and sends no checks; and a second start does not print its token again.\<close>

theorem self_hosted_keeps_to_itself:
  assumes "cf_mode cf = SelfHostedMode"
  shows "relay_client_options version sha cf \<noteq> None \<and> set (mounted cf) = {HealthRoute, V1Routes, PublishRoutes} \<and>
    prune_run clk (cf_mode cf) s = s \<and> checks_tick cf w now batch running notes s = (0, notes, s) \<and>
    snd (start_db cf now' fresh' names' (fst (start_db cf now fresh names s))) = None"
proof -
  obtain s1 token first where st: "ensure_self_hosted_identity now fresh s = (s1, token, first)" by (metis prod_cases3)
  then have "show_admin_token s1 = Some token" by (rule show_after_ensure)
  moreover have "show_admin_token (create_app_db cf names s1) = show_admin_token s1"
    by (simp add: create_app_db_def ensure_relay_names_def show_admin_token_def)
  ultimately have "snd (start_db cf now' fresh' names' (fst (start_db cf now fresh names s))) = None"
    using assms st by (simp add: start_db_def ensure_self_hosted_identity_def)
  then show ?thesis
    using assms by (auto simp: relay_client_options_def mounted_def prune_run_def prune_history_def prune_check_rounds_def prune_cancel_answers_def checks_tick_def checks_enabled_def)
qed

end
