(* ===== verification/Requests.thy ===== *)
theory Requests
  imports Limits Routes
begin

section \<open>Bodies of requests\<close>

text \<open>
  The readers of \<open>src/src/body-limit.ts\<close> on top of \<open>read_bytes\<close>, and the sign-in route of \<open>src/src/index.ts\<close>, which hands a request to better-auth. Header
  names are in lower case, as \<open>Headers\<close> keeps them; a \<open>Content-Length\<close> that gets past the HTTP parser is a row of digits. The decoding of bytes as text and
  the JSON parser are parameters.
\<close>

record http_request =
  hq_verb :: string
  hq_url :: string
  hq_headers :: "(string \<times> string) list"
  hq_body :: "string list option"

definition declared_length :: "http_request \<Rightarrow> int option" where
  "declared_length q = map_option (\<lambda>x. int (digits_value x)) (map_of (hq_headers q) ''content-length'')"

definition request_bytes :: "nat \<Rightarrow> http_request \<Rightarrow> string option" where
  "request_bytes max_bytes q = fst (read_bytes max_bytes (declared_length q) (hq_body q))"

datatype body_error = BodyTooLarge | BodyNotJson

text \<open>\<open>readJson\<close>, and \<open>jsonBody\<close>, which throws the two errors.\<close>

definition read_json :: "(string \<Rightarrow> json option) \<Rightarrow> nat \<Rightarrow> http_request \<Rightarrow> body_error + json" where
  "read_json parse max_bytes q =
     (case request_bytes max_bytes q of None \<Rightarrow> Inl BodyTooLarge
      | Some bytes \<Rightarrow> (case parse bytes of None \<Rightarrow> Inl BodyNotJson | Some v \<Rightarrow> Inr v))"

definition text_body :: "(string \<Rightarrow> string) \<Rightarrow> nat \<Rightarrow> http_request \<Rightarrow> body_error + string" where
  "text_body decode max_bytes q =
     (case request_bytes max_bytes q of None \<Rightarrow> Inl BodyTooLarge | Some bytes \<Rightarrow> Inr (decode bytes))"

text \<open>The request with a body that has been read.\<close>

definition bounded_request :: "nat \<Rightarrow> http_request \<Rightarrow> http_request option" where
  "bounded_request max_bytes q =
     (if hq_body q = None then Some q
      else case request_bytes max_bytes q of None \<Rightarrow> None
           | Some bytes \<Rightarrow>
               Some (q\<lparr>hq_headers := filter (\<lambda>h. fst h \<noteq> ''content-length'' \<and> fst h \<noteq> ''transfer-encoding'') (hq_headers q),
                       hq_body := Some [bytes]\<rparr>))"

definition small_json_bytes :: nat where "small_json_bytes = 16384"

definition sign_in_route :: "(http_request \<Rightarrow> 'a answer) \<Rightarrow> http_request \<Rightarrow> 'a answer" where
  "sign_in_route handler q = (case bounded_request small_json_bytes q of None \<Rightarrow> invalid_request | Some q' \<Rightarrow> handler q')"

section \<open>What the handler sees\<close>

lemma map_of_filter_other: "P k \<Longrightarrow> map_of (filter (\<lambda>h. P (fst h)) xs) k = map_of xs k"
  by (induction xs) auto

lemma request_bytes_eq:
  "hq_body q = Some chunks \<Longrightarrow> request_bytes m q =
     (if (case declared_length q of None \<Rightarrow> False | Some n \<Rightarrow> int m < n) \<or> m < length (concat chunks) then None else Some (concat chunks))"
  using bounded_read[of m "declared_length q" chunks] by (simp add: request_bytes_def)

text \<open>The handler behind a bounded read gets the request as it was sent, the same method, address, body and headers but for the two that told the length, or
  it does not get it at all; and that exactly when the body is longer than the limit or said to be. Bounding it again changes nothing, so a handler
  may read the body itself.\<close>

theorem bounded_request_contract:
  "(bounded_request m q = None \<longleftrightarrow>
      (\<exists>chunks. hq_body q = Some chunks \<and> (m < length (concat chunks) \<or> (\<exists>n. declared_length q = Some n \<and> int m < n)))) \<and>
   (\<forall>q'. bounded_request m q = Some q' \<longrightarrow>
      hq_verb q' = hq_verb q \<and> hq_url q' = hq_url q \<and> map_option concat (hq_body q') = map_option concat (hq_body q) \<and>
      (\<forall>chunks. hq_body q' = Some chunks \<longrightarrow> length (concat chunks) \<le> m \<and> declared_length q' = None) \<and>
      (\<forall>k. k \<noteq> ''content-length'' \<longrightarrow> k \<noteq> ''transfer-encoding'' \<longrightarrow> map_of (hq_headers q') k = map_of (hq_headers q) k) \<and>
      bounded_request m q' = Some q')"
proof (cases "hq_body q")
  case None
  then show ?thesis by (simp add: bounded_request_def)
next
  case (Some chunks)
  let ?over = "(case declared_length q of None \<Rightarrow> False | Some n \<Rightarrow> int m < n) \<or> m < length (concat chunks)"
  let ?q = "q\<lparr>hq_headers := filter (\<lambda>h. fst h \<noteq> ''content-length'' \<and> fst h \<noteq> ''transfer-encoding'') (hq_headers q), hq_body := Some [concat chunks]\<rparr>"
  have b: "bounded_request m q = (if ?over then None else Some ?q)"
    using Some request_bytes_eq[OF Some, of m] by (simp add: bounded_request_def)
  have none: "declared_length ?q = None" by (auto simp: declared_length_def map_of_eq_None_iff)
  have again: "bounded_request m ?q = Some ?q" if "\<not> ?over"
    using that none request_bytes_eq[of ?q "[concat chunks]" m] by (auto simp: bounded_request_def filter_filter)
  have headers: "map_of (hq_headers ?q) k = map_of (hq_headers q) k" if "k \<noteq> ''content-length''" "k \<noteq> ''transfer-encoding''" for k
    using that map_of_filter_other[of "\<lambda>x. x \<noteq> ''content-length'' \<and> x \<noteq> ''transfer-encoding''" k "hq_headers q"] by simp
  show ?thesis unfolding b using Some none again headers by (auto split: option.splits)
qed

end
