(* ===== verification/Spec2Isabelle.thy ===== *)
theory Spec2Isabelle
  imports Incidents BillingReads Stats Checks Limits Erasing Merging Push Ingress Registration RelayClient Retention CancelAnswers Settings
    Connection Identity Webhook Routes CheckSending Upgrading
    Scanning Signing Operator Startup Requests
begin

text \<open>
  Verification of the CritAlarm server (\<open>src/src\<close>), an alarm server in TypeScript: a publisher posts to a topic, a critical message opens an
  incident, and the phones of the topic's account ring until somebody acknowledges it. One program runs in three modes: self-hosted (topics and
  incidents, pushes forwarded to a relay), relay (accounts, devices and billing, pushes taken from registered servers and sent to Apple and Google) and
  hosted (everything). All state is in one SQLite database; each request is a few SQL statements, mostly inside one transaction.

  How the program is modelled. A table is the list of its rows in rowid order, one record per table (\<open>Schema\<close>), and the database is the record
  \<^typ>\<open>db\<close> of its tables. A transaction is one function on it, a route a function of what the request carries, and an error of the code is a value of a
  datatype or \<^term>\<open>Inl\<close>. What the outside decides is a parameter: the clock, fresh ids and tokens, hashes, what the network, Apple, Google and RevenueCat
  answer, and what other requests write while a call waits. Strings are lists of the bytes of their UTF-8 text, so that a size limit in bytes is a length.
  Seconds and counts are unbounded integers, as the JavaScript numbers in play are far below \<open>2^53\<close>; where a number comes from a request its range
  check is part of the model. A \<open>SELECT\<close> without \<open>ORDER BY\<close> gives the rows in rowid order. A long-lived object of the program (a limiter, a queue in
  memory, a session with Apple) is a record of its fields with a step per call or event.

  The theories, from the ground up.

  \<^item> \<open>Prelude\<close>: list operations that SQL statements become (\<open>upd_where\<close>, \<open>find\<close>, \<open>filter\<close>), collections of rewrite rules, and two interfaces as locales,
    \<open>keyed_update\<close> (an update that keeps a table's key) and \<open>invariant_system\<close> (a step relation with an inductive invariant, with the facts about
    reachable states proved once); \<open>Text\<close>: JavaScript string operations; \<open>Json\<close>: JSON values; \<open>Schema\<close>: the tables of \<open>store/migrations.ts\<close> as records,
    with the cascades of their foreign keys.
  \<^item> \<open>Incidents\<close> (\<open>incident/service.ts\<close>, \<open>domain-events.ts\<close>): the state machine open, acked, closed, expired with its three timers. Lemmas: the invariant
    of the incident tables, one lemma per operation, and the refinement of a whole scan by one effect per incident.
  \<^item> \<open>Devices\<close>, \<open>Topics\<close>, \<open>Accounts\<close> (\<open>tier/auth.ts\<close>, \<open>devices.ts\<close>, \<open>device-tokens.ts\<close>, \<open>subscriptions.ts\<close>, \<open>router.ts\<close>, \<open>v1/topics.ts\<close>, \<open>accounts.ts\<close>): who
    may do what to which device, topic and account. \<open>Directory\<close> composes the three (every device of an account stays subscribed to each of its topics);
    \<open>Merging\<close> and \<open>Erasing\<close> hold the theorems about folding two accounts and erasing one.
  \<^item> \<open>Tiers\<close>, \<open>Billing\<close>, \<open>BillingReads\<close>, \<open>Packs\<close>, \<open>Webhook\<close> (\<open>tier/caps.ts\<close>, \<open>p4-usage.ts\<close>, \<open>revenuecat.ts\<close>, \<open>reconcile.ts\<close>, \<open>entitlement-read.ts\<close>,
    \<open>billing-reads.ts\<close>, \<open>billing-shadow.ts\<close>, \<open>billing-startup.ts\<close>, \<open>packs.ts\<close>, the webhook route): the tier of an account and its three writers, which
    meet the contract \<open>tier_writer\<close>, and the fenced store reads as a transition system of queue, flights and database.
  \<^item> \<open>Checks\<close>, \<open>CheckSending\<close> (\<open>check/\<close>, \<open>push/check.ts\<close>): the weekly check of a device. Lemmas: the invariant of the three tables under every
    operation, the schedule, and the refinement of the senders the scan is proved with by those that keep a token and build requests.
  \<^item> \<open>Push\<close>, \<open>Connection\<close> (\<open>push/dispatcher.ts\<close>, \<open>apns.ts\<close>, \<open>apns-token.ts\<close>, \<open>fcm.ts\<close>): from an event to the requests Apple and Google get. The HTTP/2
    session is a machine over its events, with an invariant on sessions, timers and the promises of the sends.
  \<^item> \<open>Ingress\<close> (\<open>ingress/\<close>): parsing of a publication, authorisation, the publishing routes and polling. The contract \<open>delivery\<close> (how a push report
    becomes an answer) is proved of the dispatcher, and extended by \<open>quiet_delivery\<close> in \<open>Routes\<close>.
  \<^item> \<open>Relay\<close>, \<open>Registration\<close>, \<open>RelayClient\<close>, \<open>Address\<close> (\<open>relay/\<close>): the relay's routes, registrations that interleave as a transition system, the client
    that registers and forwards, and which addresses and base URLs the relay may call.
  \<^item> \<open>Limits\<close> (\<open>rate-limit.ts\<close>, \<open>bearer.ts\<close>, \<open>body-limit.ts\<close>; the contract \<open>limiter\<close> has two providers), \<open>Stats\<close> (\<open>stats/counters.ts\<close>), \<open>Retention\<close>
    (\<open>retention/\<close>), \<open>CancelAnswers\<close> (\<open>v1/cancel-answers.ts\<close> and the report), \<open>Settings\<close> (\<open>config.ts\<close>), \<open>Identity\<close> (\<open>auth/\<close>, \<open>admin/credentials.ts\<close>) and
    \<open>Routes\<close> (\<open>v1/router.ts\<close>, \<open>v1/auth.ts\<close>, \<open>check/router.ts\<close>, \<open>stats/router.ts\<close>, \<open>index.ts\<close>, \<open>incident/scanner.ts\<close>).
  \<^item> \<open>Upgrade\<close>, \<open>Upgrading\<close> (\<open>store/migrations.ts\<close>): the SQL of every migration as a list of statements over tables with keys, checks and foreign keys, and
    the runner. What the runner leaves behind wherever it stops, and that each database at any version, with any valid rows, reaches the newest schema with its
    data. Column types, defaults and plain indexes are left out.
  \<^item> \<open>Scanning\<close> (the scan loop of \<open>tier/billing-reads.ts\<close> as a machine beside the reads and triggers), \<open>Signing\<close> (\<open>push/jwt.ts\<close> and the claims signed
    with it, byte by byte up to the signature), \<open>Operator\<close> (\<open>cli.ts\<close>), \<open>Requests\<close> (\<open>body-limit.ts\<close>) and \<open>Startup\<close> (\<open>main.ts\<close>, \<open>relay/startup.ts\<close>, \<open>request-log.ts\<close>,
    \<open>startup-warnings.ts\<close>).

  Loops and bounds. A loop over rows or a batch is structural recursion. The recursive query over merged accounts and the erase's walk rise through a
  finite table; the first is proved to end with the closure, the second takes the eight rounds the code takes. Paged reads of the store take the code's ten
  pages, pushes to Apple at most four requests, forwarding at most three tries each; each bound is the code's own and the theorems say what happens when it
  is reached. No definition here needs fuel beyond these.

  What is not modelled, and why. The request handler of better-auth and its tables (a package; the session it leaves is read in \<open>Identity\<close>), signatures, keys
  and hashes (cryptography is a parameter), SQLite, Hono, HTTP/2 and zod themselves (packages; what the code relies on is written at the parameter that
  stands for them), the intervals, signals and the listener of \<open>main.ts\<close>, and log lines other than the request log, which no later step reads. An error
  thrown by SQLite itself in the middle of a request is not modelled except where the code catches it.
\<close>

end
